(* ===== verification/Prelude.thy ===== *)
theory Prelude
  imports Main "HOL-Library.Word" "HOL-Library.Signed_Division" "HOL-Library.State_Monad"
begin

text \<open>
  Shared vocabulary of the development: pointers, faults (the undefined behaviours the C++
  sources can run into) and results, C \<open>int\<close> arithmetic with its range written out, byte
  blocks with the semantics of \<open>memcpy\<close>, pools of heap objects handed out by an allocator,
  calls into code that is not part of the repository, and the two generic interfaces
  (\<open>step_invariant\<close>, \<open>fifo\<close>) that several components implement.
\<close>

named_theorems res_simps \<open>rewrite rules for results and their sequencing\<close>
named_theorems io_simps \<open>rewrite rules for computations that make external calls\<close>
named_theorems pool_simps \<open>rewrite rules for allocation pools\<close>

section \<open>Faults and results\<close>

text \<open>A fault is a point where the C++ abstract machine is left (or an assertion stops it).\<close>

datatype fault =
    NullDeref        \<comment> \<open>dereference of a null pointer\<close>
  | DoubleFree       \<comment> \<open>release of an object that is not live\<close>
  | UseAfterFree     \<comment> \<open>access to an object that was released\<close>
  | UninitCall       \<comment> \<open>call through a function pointer that was never set\<close>
  | OutOfBounds      \<comment> \<open>access outside the allocated block\<close>
  | Overlap          \<comment> \<open>\<open>memcpy\<close> between overlapping ranges\<close>
  | IntOverflow      \<comment> \<open>signed overflow\<close>
  | DivByZero        \<comment> \<open>division by zero or an invalid conversion of its result\<close>
  | AssertFail       \<comment> \<open>a failed assert\<close>

type_synonym 'a res = "fault + 'a"

type_synonym ptr = nat

abbreviation (input) null :: ptr where "null \<equiv> 0"

definition res_bind :: "'a res \<Rightarrow> ('a \<Rightarrow> 'b res) \<Rightarrow> 'b res" where
  "res_bind r f = (case r of Inl e \<Rightarrow> Inl e | Inr a \<Rightarrow> f a)"

lemma res_bind_Inl [simp, res_simps]: "res_bind (Inl e) f = Inl e"
  by (simp add: res_bind_def)

lemma res_bind_Inr [simp, res_simps]: "res_bind (Inr a) f = f a"
  by (simp add: res_bind_def)

lemma res_bind_Inr_iff [res_simps]:
  "res_bind r f = Inr b \<longleftrightarrow> (\<exists>a. r = Inr a \<and> f a = Inr b)"
  by (cases r) simp_all

lemma res_bind_Inl_iff [res_simps]:
  "res_bind r f = Inl e \<longleftrightarrow> r = Inl e \<or> (\<exists>a. r = Inr a \<and> f a = Inl e)"
  by (cases r) auto

lemma res_bind_split:
  "P (res_bind r f) = ((\<forall>e. r = Inl e \<longrightarrow> P (Inl e)) \<and> (\<forall>a. r = Inr a \<longrightarrow> P (f a)))"
  by (cases r) simp_all

section \<open>C integers\<close>

text \<open>
  A C \<open>int\<close> is an \<open>int\<close> inside the 32-bit range. Signed overflow is undefined, so an operation
  whose exact result leaves the range is a fault; \<open>/\<close> truncates towards zero (\<open>sdiv\<close>) and
  \<open>>>\<close> on a non-negative value is division by a power of two.
\<close>

abbreviation (input) INT_MAX :: int where "INT_MAX \<equiv> 2147483647"

definition c_int :: "int \<Rightarrow> int res" where
  "c_int x = (if - 2147483648 \<le> x \<and> x \<le> 2147483647 then Inr x else Inl IntOverflow)"

lemma c_int_Inr_iff [res_simps]:
  "c_int x = Inr y \<longleftrightarrow> y = x \<and> - 2147483648 \<le> x \<and> x \<le> 2147483647"
  by (auto simp: c_int_def)

lemma c_int_in_range [simp]: "- 2147483648 \<le> x \<Longrightarrow> x \<le> 2147483647 \<Longrightarrow> c_int x = Inr x"
  by (simp add: c_int_def)

definition c_mul :: "int \<Rightarrow> int \<Rightarrow> int res" where
  "c_mul a b = c_int (a * b)"

definition c_add :: "int \<Rightarrow> int \<Rightarrow> int res" where
  "c_add a b = c_int (a + b)"

definition c_div :: "int \<Rightarrow> int \<Rightarrow> int res" where
  "c_div a b = (if b = 0 then Inl DivByZero else c_int (a sdiv b))"

text \<open>Truncating division agrees with flooring division on non-negative numerators.\<close>

lemma sdiv_nonneg: "0 \<le> a \<Longrightarrow> 0 < b \<Longrightarrow> a sdiv b = a div (b::int)"
  by (cases "a = 0") (simp_all add: signed_divide_int_def)

lemma zdiv_less_iff:
  assumes "0 < (q::int)"
  shows "m div q < n \<longleftrightarrow> m < n * q"
proof
  assume "m div q < n"
  then have "(m div q + 1) * q \<le> n * q" using assms by (intro mult_right_mono) auto
  moreover have "m < (m div q + 1) * q"
    using pos_mod_bound [OF assms, of m] div_mult_mod_eq [of m q] distrib_right [of "m div q" 1 q]
    by linarith
  ultimately show "m < n * q" by linarith
next
  assume "m < n * q"
  show "m div q < n"
  proof (rule ccontr)
    assume "\<not> m div q < n"
    then have "n * q \<le> (m div q) * q" using assms by (intro mult_right_mono) auto
    also have "\<dots> \<le> m" using assms pos_mod_sign [OF assms, of m] div_mult_mod_eq [of m q] by linarith
    finally show False using \<open>m < n * q\<close> by simp
  qed
qed

text \<open>The signed value of a 32-bit word below \<open>2 ^ 31\<close>.\<close>

lemma sint_small: "uint v < 2147483648 \<Longrightarrow> sint v = uint v" for v :: "32 word"
proof -
  assume "uint v < 2147483648"
  moreover have "0 \<le> uint v" by simp
  then have "- (2 ^ 31) \<le> uint v" by (rule order_trans [rotated]) simp
  ultimately have "signed_take_bit 31 (uint v) = uint v" by (intro signed_take_bit_int_eq_self) simp_all
  then show ?thesis by (simp add: sint_uint)
qed

lemma sint_small_nat: "unat w < 2147483648 \<Longrightarrow> sint w = int (unat w)" for w :: "32 word"
proof -
  assume "unat w < 2147483648"
  moreover have "uint w = int (unat w)" by simp
  ultimately show ?thesis using sint_small [of w] by linarith
qed

lemma uint_of_int32: "0 \<le> k \<Longrightarrow> k < 4294967296 \<Longrightarrow> uint (of_int k :: 32 word) = k"
  by (simp add: uint_word_of_int)

lemma unat_of_int32: "0 \<le> i \<Longrightarrow> i < 4294967296 \<Longrightarrow> unat (of_int i :: 32 word) = nat i"
proof -
  assume "0 \<le> i" "i < 4294967296"
  then have "uint (of_int i :: 32 word) = i" by (rule uint_of_int32)
  then show ?thesis unfolding unat_eq_nat_uint by (rule arg_cong)
qed

section \<open>Byte blocks\<close>

type_synonym byte = "8 word"
type_synonym block = "byte list"

text \<open>
  \<open>memcpy (dst + d) (src + s) n\<close> between two blocks. A range that leaves either block, or a
  negative size (a huge \<open>size_t\<close>), is a fault.
\<close>

definition mem_copy :: "block \<Rightarrow> int \<Rightarrow> block \<Rightarrow> int \<Rightarrow> int \<Rightarrow> block res" where
  "mem_copy dst d src s n =
     (if 0 \<le> n \<and> 0 \<le> d \<and> 0 \<le> s \<and> d + n \<le> int (length dst) \<and> s + n \<le> int (length src)
      then Inr (take (nat d) dst @ take (nat n) (drop (nat s) src) @ drop (nat d + nat n) dst)
      else Inl OutOfBounds)"

lemma mem_copy_Inr_iff:
  "mem_copy dst d src s n = Inr r \<longleftrightarrow>
     0 \<le> n \<and> 0 \<le> d \<and> 0 \<le> s \<and> d + n \<le> int (length dst) \<and> s + n \<le> int (length src) \<and>
     r = take (nat d) dst @ take (nat n) (drop (nat s) src) @ drop (nat d + nat n) dst"
  by (auto simp: mem_copy_def)

lemma mem_copy_length: "mem_copy dst d src s n = Inr r \<Longrightarrow> length r = length dst"
  by (auto simp: mem_copy_Inr_iff)

lemma mem_copy_ok:
  "0 \<le> n \<Longrightarrow> 0 \<le> d \<Longrightarrow> 0 \<le> s \<Longrightarrow> d + n \<le> int (length dst) \<Longrightarrow> s + n \<le> int (length src)
     \<Longrightarrow> \<exists>r. mem_copy dst d src s n = Inr r"
  by (simp add: mem_copy_def)

text \<open>A copy to the place behind \<open>A\<close>.\<close>

lemma mem_copy_behind:
  "length s \<le> length T \<Longrightarrow> d = int (length A) \<Longrightarrow> mem_copy (A @ T) d (s @ r) 0 (int (length s)) = Inr (A @ s @ drop (length s) T)"
  by (simp add: mem_copy_def)

text \<open>The byte at index \<open>k\<close> after a copy: from the source inside the range, unchanged outside.\<close>

lemma mem_copy_nth:
  assumes "mem_copy dst d src s n = Inr r" and "k < length dst"
  shows "r ! k = (if nat d \<le> k \<and> k < nat d + nat n then src ! (nat s + (k - nat d)) else dst ! k)"
proof -
  from assms(1) have bnd: "0 \<le> n" "0 \<le> d" "0 \<le> s"
      "d + n \<le> int (length dst)" "s + n \<le> int (length src)"
    and r: "r = take (nat d) dst @ take (nat n) (drop (nat s) src) @ drop (nat d + nat n) dst"
    by (simp_all add: mem_copy_Inr_iff)
  have l1: "length (take (nat d) dst) = nat d" using bnd by simp
  have l2: "length (take (nat n) (drop (nat s) src)) = nat n" using bnd by simp
  consider "k < nat d" | "nat d \<le> k" "k < nat d + nat n" | "nat d + nat n \<le> k" by linarith
  then show ?thesis
  proof cases
    case 1
    then show ?thesis by (simp add: r nth_append l1 del: length_take)
  next
    case 2
    then have "k - nat d < nat n" by linarith
    with 2 show ?thesis using bnd by (simp add: r nth_append l1 l2 del: length_take)
  next
    case 3
    then have "\<not> k < nat d" "\<not> k - nat d < nat n" by linarith+
    with 3 show ?thesis using bnd assms(2) by (simp add: r nth_append l1 l2 del: length_take)
  qed
qed

section \<open>Little-endian numbers\<close>

text \<open>The number behind bytes in memory, and the \<open>w\<close> bytes of a number.\<close>

fun le_nat :: "byte list \<Rightarrow> nat" where
  "le_nat [] = 0"
| "le_nat (b # bs) = unat b + 256 * le_nat bs"

fun le_bytes :: "nat \<Rightarrow> nat \<Rightarrow> byte list" where
  "le_bytes 0 n = []"
| "le_bytes (Suc w) n = of_nat (n mod 256) # le_bytes w (n div 256)"

lemma le_bytes_length [simp]: "length (le_bytes w n) = w"
  by (induction w n rule: le_bytes.induct) simp_all

lemma le_nat_le_bytes [simp]: "le_nat (le_bytes w n) = n mod 256 ^ w"
proof (induction w n rule: le_bytes.induct)
  case (2 w n)
  have "unat (of_nat (n mod 256) :: byte) = n mod 256" by (simp add: unat_of_nat)
  then show ?case using 2 mod_mult2_eq [of n 256 "256 ^ w"] by simp
qed simp

lemma le_nat_bound: "le_nat bs < 256 ^ length bs"
proof (induction bs)
  case (Cons b bs)
  have "unat b < 256" using unsigned_less [of b] by simp
  with Cons show ?case by simp
qed simp

section \<open>Formatted numbers\<close>

text \<open>Decimal digits as \<open>sprintf\<close> writes \<open>%d\<close>.\<close>

fun dec_nat :: "nat \<Rightarrow> string" where
  "dec_nat n = (if n < 10 then [char_of (48 + n)] else dec_nat (n div 10) @ [char_of (48 + n mod 10)])"

declare dec_nat.simps [simp del]

definition dec_int :: "int \<Rightarrow> string" where
  "dec_int i = (if i < 0 then CHR ''-'' # dec_nat (nat (- i)) else dec_nat (nat i))"

text \<open>Hexadecimal digits as \<open>%x\<close> writes them.\<close>

definition hex_digit :: "nat \<Rightarrow> char" where
  "hex_digit d = (if d < 10 then char_of (48 + d) else char_of (87 + d))"

fun hex_nat :: "nat \<Rightarrow> string" where
  "hex_nat n = (if n < 16 then [hex_digit n] else hex_nat (n div 16) @ [hex_digit (n mod 16)])"

declare hex_nat.simps [simp del]

lemma dec_nat_length: "0 < k \<Longrightarrow> n < 10 ^ k \<Longrightarrow> length (dec_nat n) \<le> k"
proof (induction k arbitrary: n)
  case (Suc k)
  show ?case
  proof (cases "n < 10")
    case True
    then show ?thesis by (simp add: dec_nat.simps)
  next
    case False
    have "n div 10 < 10 ^ k" using Suc.prems(2) by (simp add: less_mult_imp_div_less)
    moreover have "0 < k" using False Suc.prems(2) by (cases k) auto
    ultimately show ?thesis using Suc.IH [of "n div 10"] False by (subst dec_nat.simps) simp
  qed
qed simp

lemma hex_nat_length: "0 < k \<Longrightarrow> n < 16 ^ k \<Longrightarrow> length (hex_nat n) \<le> k"
proof (induction k arbitrary: n)
  case (Suc k)
  show ?case
  proof (cases "n < 16")
    case True
    then show ?thesis by (simp add: hex_nat.simps)
  next
    case False
    have "n div 16 < 16 ^ k" using Suc.prems(2) by (simp add: less_mult_imp_div_less)
    moreover have "0 < k" using False Suc.prems(2) by (cases k) auto
    ultimately show ?thesis using Suc.IH [of "n div 16"] False by (subst hex_nat.simps) simp
  qed
qed simp

text \<open>An \<open>int\<close> takes at most eleven characters.\<close>

lemma dec_int_length: "- 2147483648 \<le> i \<Longrightarrow> i \<le> 2147483647 \<Longrightarrow> length (dec_int i) \<le> 11"
  using dec_nat_length [of 10 "nat (- i)"] dec_nat_length [of 11 "nat i"]
  by (cases "i < 0") (simp_all add: dec_int_def)

section \<open>Allocation pools\<close>

text \<open>
  A pool records which objects of a kind the program holds: the pointers an allocator returned
  that have not been handed to the matching free function. Freeing a null pointer through the
  program's release helpers does nothing; freeing a pointer that is not live is a fault.
\<close>

type_synonym pool = "ptr set"

definition pool_free :: "ptr \<Rightarrow> pool \<Rightarrow> pool res" where
  "pool_free p P = (if p = null then Inr P
                    else if p \<in> P then Inr (P - {p}) else Inl DoubleFree)"

lemma pool_free_null [simp, pool_simps]: "pool_free 0 P = Inr P"
  by (simp add: pool_free_def)

lemma pool_free_live [pool_simps]: "p \<in> P \<Longrightarrow> p \<noteq> 0 \<Longrightarrow> pool_free p P = Inr (P - {p})"
  by (simp add: pool_free_def)

lemma pool_free_Inr_iff [pool_simps]:
  "pool_free p P = Inr P' \<longleftrightarrow> (if p = 0 then P' = P else p \<in> P \<and> P' = P - {p})"
  by (auto simp: pool_free_def)

section \<open>Calls out of the repository\<close>

text \<open>
  Library functions the repository only calls (FFmpeg, EGL, OpenGL ES, OpenSL ES, JNI, the
  native window) are not defined here. A component that calls them takes a parameter of type
  \<open>'c ext\<close>: the result of a call may depend on the call and on every call made before it. The
  calls made are recorded in order, so properties speak about the calls the code performs.
\<close>

type_synonym 'c ext = "'c list \<Rightarrow> 'c \<Rightarrow> int"

text \<open>
  Code that makes such calls is a computation in the library's state monad over the calls made so
  far; \<open>call x c\<close> makes the call \<open>c\<close>, records it and returns the answer of \<open>x\<close>.
\<close>

type_synonym ('c, 'a) io = "('c list, 'a) state"

definition call :: "'c ext \<Rightarrow> 'c \<Rightarrow> ('c, int) io" where
  "call x c = State (\<lambda>h. (x h c, h @ [c]))"

definition emit :: "'c \<Rightarrow> ('c, unit) io" where
  "emit c = State (\<lambda>h. ((), h @ [c]))"

lemma run_call [simp, io_simps]: "run_state (call x c) h = (x h c, h @ [c])"
  by (simp add: call_def)

lemma run_emit [simp, io_simps]: "run_state (emit c) h = ((), h @ [c])"
  by (simp add: emit_def)

lemma run_bind [simp, io_simps]:
  "run_state (State_Monad.bind m f) h = (case run_state m h of (a, h') \<Rightarrow> run_state (f a) h')"
  by (simp add: State_Monad.bind_def)

lemma run_if [simp, io_simps]:
  "run_state (if b then m else n) h = (if b then run_state m h else run_state n h)"
  by simp

section \<open>Stateful computations that may fail\<close>

text \<open>
  Methods of an object that make external calls and may run into a fault: they map the object and the
  calls made so far to a result with the new object and the longer list of calls, or to the fault.
\<close>

type_synonym ('s, 'c, 'a) mach = "'s \<times> 'c list \<Rightarrow> ('a \<times> 's \<times> 'c list) res"

definition wret :: "'a \<Rightarrow> ('s, 'c, 'a) mach" where
  "wret a s = Inr (a, s)"

definition wbind :: "('s, 'c, 'a) mach \<Rightarrow> ('a \<Rightarrow> ('s, 'c, 'b) mach) \<Rightarrow> ('s, 'c, 'b) mach" where
  "wbind m f s = res_bind (m s) (\<lambda>(a, s'). f a s')"

definition wassert :: "bool \<Rightarrow> ('s, 'c, unit) mach" where
  "wassert b s = (if b then Inr ((), s) else Inl AssertFail)"

definition wget :: "('s, 'c, 's) mach" where
  "wget s = Inr (fst s, s)"

definition wmod :: "('s \<Rightarrow> 's) \<Rightarrow> ('s, 'c, unit) mach" where
  "wmod f s = Inr ((), (f (fst s), snd s))"

definition wcall :: "'c ext \<Rightarrow> 'c \<Rightarrow> ('s, 'c, int) mach" where
  "wcall x c s = Inr (x (snd s) c, (fst s, snd s @ [c]))"

definition wlift :: "'a res \<Rightarrow> ('s, 'c, 'a) mach" where
  "wlift r s = res_bind r (\<lambda>a. Inr (a, s))"

text \<open>A call through a pointer.\<close>

definition wderef :: "ptr \<Rightarrow> ('s, 'c, unit) mach" where
  "wderef p s = (if p = null then Inl NullDeref else Inr ((), s))"

lemma wr_simps [simp]:
  "wret a s = Inr (a, s)"
  "wbind m f s = res_bind (m s) (\<lambda>(a, s'). f a s')"
  "wassert b s = (if b then Inr ((), s) else Inl AssertFail)"
  "wget s = Inr (fst s, s)"
  "wmod g s = Inr ((), (g (fst s), snd s))"
  "wcall x c s = Inr (x (snd s) c, (fst s, snd s @ [c]))"
  "wlift r s = res_bind r (\<lambda>a. Inr (a, s))"
  "wderef p s = (if p = null then Inl NullDeref else Inr ((), s))"
  by (simp_all add: wret_def wbind_def wassert_def wget_def wmod_def wcall_def wlift_def wderef_def)

section \<open>Invariants of step relations\<close>

text \<open>
  What every concurrent component provides: an invariant that holds at the start and that every
  step keeps. The client gets it for every reachable state.
\<close>

locale step_invariant =
  fixes start :: "'s \<Rightarrow> bool"
    and step :: "'s \<Rightarrow> 's \<Rightarrow> bool"
    and inv :: "'s \<Rightarrow> bool"
  assumes start_inv: "start s \<Longrightarrow> inv s"
    and step_inv: "inv s \<Longrightarrow> step s t \<Longrightarrow> inv t"
begin

lemma steps_inv: "rtranclp step s t \<Longrightarrow> inv s \<Longrightarrow> inv t"
  by (induction rule: rtranclp_induct) (auto intro: step_inv)

lemma reachable_inv: "start s \<Longrightarrow> rtranclp step s t \<Longrightarrow> inv t"
  by (blast intro: steps_inv start_inv)

end

section \<open>First-in first-out containers\<close>

text \<open>
  The contract of a queue: a state with an invariant, its contents in order, an operation that
  appends and one that removes the oldest element (\<open>None\<close> when there is none).
\<close>

datatype 'a fifo_op = Enq 'a | Deq

text \<open>Running a sequence of operations: the values that come out, and the final state.\<close>

fun fifo_run :: "('a \<Rightarrow> 's \<Rightarrow> 's) \<Rightarrow> ('s \<Rightarrow> ('a \<times> 's) option) \<Rightarrow> 'a fifo_op list \<Rightarrow> 's \<Rightarrow> 'a list \<times> 's" where
  "fifo_run enq deq [] s = ([], s)"
| "fifo_run enq deq (Enq v # ops) s = fifo_run enq deq ops (enq v s)"
| "fifo_run enq deq (Deq # ops) s =
     (case deq s of
        None \<Rightarrow> fifo_run enq deq ops s
      | Some (v, s') \<Rightarrow> (let (out, t) = fifo_run enq deq ops s' in (v # out, t)))"

fun enqueued :: "'a fifo_op list \<Rightarrow> 'a list" where
  "enqueued [] = []"
| "enqueued (Enq v # ops) = v # enqueued ops"
| "enqueued (Deq # ops) = enqueued ops"

locale fifo =
  fixes ok :: "'s \<Rightarrow> bool"
    and contents :: "'s \<Rightarrow> 'a list"
    and enq :: "'a \<Rightarrow> 's \<Rightarrow> 's"
    and deq :: "'s \<Rightarrow> ('a \<times> 's) option"
  assumes enq_contents: "ok s \<Longrightarrow> contents (enq v s) = contents s @ [v]"
    and enq_ok: "ok s \<Longrightarrow> ok (enq v s)"
    and deq_empty: "ok s \<Longrightarrow> contents s = [] \<Longrightarrow> deq s = None"
    and deq_oldest: "ok s \<Longrightarrow> contents s = v # vs \<Longrightarrow>
      \<exists>s'. deq s = Some (v, s') \<and> contents s' = vs \<and> ok s'"
begin

text \<open>Nothing is lost, duplicated or reordered: output and rest are input in order.\<close>

lemma run_conserves:
  "ok s \<Longrightarrow> fifo_run enq deq ops s = (out, t) \<Longrightarrow> out @ contents t = contents s @ enqueued ops \<and> ok t"
proof (induction ops arbitrary: s out t)
  case Nil
  then show ?case by simp
next
  case (Cons op ops)
  show ?case
  proof (cases op)
    case (Enq v)
    then have "fifo_run enq deq ops (enq v s) = (out, t)" using Cons.prems(2) by simp
    from Cons.IH [OF enq_ok [OF Cons.prems(1)] this] show ?thesis
      by (simp add: Enq enq_contents [OF Cons.prems(1)])
  next
    case Deq
    show ?thesis
    proof (cases "contents s")
      case Nil
      then have "fifo_run enq deq ops s = (out, t)"
        using Cons.prems Deq deq_empty by simp
      from Cons.IH [OF Cons.prems(1) this] show ?thesis by (simp add: Deq)
    next
      case (Cons v vs)
      then obtain s' where s': "deq s = Some (v, s')" "contents s' = vs" "ok s'"
        using deq_oldest Cons.prems(1) by blast
      then obtain out' where out': "fifo_run enq deq ops s' = (out', t)" "out = v # out'"
        using Cons.prems(2) Deq by (auto split: prod.splits)
      from Cons.IH [OF s'(3) out'(1)] show ?thesis
        by (simp add: Deq out' s'(2) Cons)
    qed
  qed
qed

end

end
