(* ===== verification/Message_Looper.thy ===== *)
theory Message_Looper
  imports Prelude
begin

text \<open>
  The message loop of \<open>looper/Looper.cpp\<close>: a singly linked list of heap-allocated
  \<open>LooperMessage\<close> nodes behind \<open>head\<close>, a binary semaphore \<open>headWriteProtect\<close> around every
  access to it, and a counting semaphore \<open>headDataAvailable\<close> that the worker thread waits on.
  The list is kept as the code keeps it, with explicit nodes and \<open>next\<close> pointers; the pointer
  operations are proved to implement operations on the list of messages.
\<close>

section \<open>Nodes, the heap and the object\<close>

record LooperMessage =
  what :: int
  arg1 :: int
  arg2 :: int
  obj :: ptr
  next_msg :: ptr
  is_quit :: bool

type_synonym node_heap = "ptr \<Rightarrow> LooperMessage option"

text \<open>Where the worker thread is in \<open>Looper::loop\<close>.\<close>

datatype worker_pc =
    AtSemWait                      \<comment> \<open>\<open>sem_wait(&headDataAvailable)\<close>\<close>
  | AtFetch                        \<comment> \<open>woken, about to take \<open>headWriteProtect\<close>\<close>
  | AtHandle ptr LooperMessage     \<comment> \<open>\<open>msg\<close> unlinked, about to test \<open>msg->quit\<close>\<close>
  | Returned                       \<comment> \<open>\<open>loop\<close> has returned\<close>

record Looper =
  head :: ptr
  nodes :: node_heap
  headDataAvailable :: nat
  worker :: worker_pc
  running :: bool
  handled :: "LooperMessage list"

text \<open>\<open>handled\<close> records the messages passed to the virtual \<open>handleMessage\<close>, in order.\<close>

definition Looper_ctor :: "Looper" where
  "Looper_ctor = \<lparr>head = null, nodes = Map.empty, headDataAvailable = 0, worker = AtSemWait,
     running = True, handled = []\<rparr>"

section \<open>Adding messages\<close>

text \<open>
  The two pointer loops of \<open>addMessage\<close>. \<open>None\<close> is a dereference of a dead node, or no return.
\<close>

partial_function (option) delete_all :: "node_heap \<Rightarrow> ptr \<Rightarrow> node_heap option" where
  "delete_all H h =
     (if h = null then Some H
      else case H h of None \<Rightarrow> None | Some m \<Rightarrow> delete_all (H(h := None)) (next_msg m))"

partial_function (option) last_node :: "node_heap \<Rightarrow> ptr \<Rightarrow> ptr option" where
  "last_node H h =
     (case H h of None \<Rightarrow> None
      | Some m \<Rightarrow> (if next_msg m = null then Some h else last_node H (next_msg m)))"

declare delete_all.simps [code] and last_node.simps [code]

definition addMessage :: "ptr \<Rightarrow> bool \<Rightarrow> Looper \<Rightarrow> Looper option" where
  "addMessage msg flush L =
     (case (if flush then delete_all (nodes L) (head L) else Some (nodes L)) of
        None \<Rightarrow> None
      | Some H \<Rightarrow>
         (let h = (if flush then null else head L) in
          if h \<noteq> null
          then (case last_node H h of
                  None \<Rightarrow> None
                | Some t \<Rightarrow>
                   (case H t of
                      None \<Rightarrow> None
                    | Some m \<Rightarrow>
                       Some (L\<lparr>nodes := H(t \<mapsto> m\<lparr>next_msg := msg\<rparr>),
                               headDataAvailable := Suc (headDataAvailable L)\<rparr>)))
          else Some (L\<lparr>nodes := H, head := msg, headDataAvailable := Suc (headDataAvailable L)\<rparr>)))"

text \<open>
  \<open>postMessage\<close> allocates the node (\<open>p\<close> is what \<open>new\<close> returned) and adds it; the four overloads
  differ in the fields they fill with zero. \<open>quit\<close> posts a node with the quit mark and then joins
  the worker; \<open>quit_join\<close> is the part after \<open>pthread_join\<close>.
\<close>

definition alloc_node :: "ptr \<Rightarrow> LooperMessage \<Rightarrow> Looper \<Rightarrow> Looper" where
  "alloc_node p m L = L\<lparr>nodes := (nodes L)(p \<mapsto> m)\<rparr>"

definition postMessage :: "ptr \<Rightarrow> int \<Rightarrow> int \<Rightarrow> int \<Rightarrow> ptr \<Rightarrow> bool \<Rightarrow> Looper \<Rightarrow> Looper option" where
  "postMessage p w a1 a2 ob flush L =
     addMessage p flush
       (alloc_node p \<lparr>what = w, arg1 = a1, arg2 = a2, obj = ob, next_msg = null, is_quit = False\<rparr> L)"

definition postMessage_what :: "ptr \<Rightarrow> int \<Rightarrow> bool \<Rightarrow> Looper \<Rightarrow> Looper option" where
  "postMessage_what p w flush = postMessage p w 0 0 null flush"

definition postMessage_obj :: "ptr \<Rightarrow> int \<Rightarrow> ptr \<Rightarrow> bool \<Rightarrow> Looper \<Rightarrow> Looper option" where
  "postMessage_obj p w ob flush = postMessage p w 0 0 ob flush"

definition postMessage_args :: "ptr \<Rightarrow> int \<Rightarrow> int \<Rightarrow> int \<Rightarrow> bool \<Rightarrow> Looper \<Rightarrow> Looper option" where
  "postMessage_args p w a1 a2 flush = postMessage p w a1 a2 null flush"

definition quit_post :: "ptr \<Rightarrow> Looper \<Rightarrow> Looper option" where
  "quit_post p L =
     addMessage p False
       (alloc_node p \<lparr>what = 0, arg1 = 0, arg2 = 0, obj = null, next_msg = null, is_quit = True\<rparr> L)"

definition quit_join :: "Looper \<Rightarrow> Looper option" where
  "quit_join L = (if worker L = Returned then Some (L\<lparr>running := False\<rparr>) else None)"

text \<open>The destructor quits a looper that is still running (\<open>p\<close> as in \<open>quit_post\<close>).\<close>

definition Looper_dtor_post :: "ptr \<Rightarrow> Looper \<Rightarrow> Looper option" where
  "Looper_dtor_post p L = (if running L then quit_post p L else Some L)"

section \<open>The worker\<close>

text \<open>
  One step of \<open>Looper::loop\<close>: take the data semaphore (blocked, \<open>None\<close>, when it is zero), unlink
  the first node under \<open>headWriteProtect\<close> (nothing to do when a flush removed it), then handle
  and delete it, or return on the quit mark.
\<close>

definition loop_step :: "Looper \<Rightarrow> Looper option" where
  "loop_step L =
     (case worker L of
        AtSemWait \<Rightarrow>
          (if headDataAvailable L = 0 then None
           else Some (L\<lparr>headDataAvailable := headDataAvailable L - 1, worker := AtFetch\<rparr>))
      | AtFetch \<Rightarrow>
          (if head L = null then Some (L\<lparr>worker := AtSemWait\<rparr>)
           else (case nodes L (head L) of
                   None \<Rightarrow> None
                 | Some m \<Rightarrow> Some (L\<lparr>head := next_msg m, worker := AtHandle (head L) m\<rparr>)))
      | AtHandle p m \<Rightarrow>
          (if is_quit m then Some (L\<lparr>nodes := (nodes L)(p := None), worker := Returned\<rparr>)
           else Some (L\<lparr>handled := handled L @ [m], nodes := (nodes L)(p := None), worker := AtSemWait\<rparr>))
      | Returned \<Rightarrow> None)"

section \<open>Linked lists in the heap\<close>

fun is_list :: "node_heap \<Rightarrow> ptr \<Rightarrow> ptr list \<Rightarrow> bool" where
  "is_list H p [] \<longleftrightarrow> p = null"
| "is_list H p (a # as) \<longleftrightarrow> p = a \<and> a \<noteq> null \<and> (case H a of None \<Rightarrow> False | Some m \<Rightarrow> is_list H (next_msg m) as)"

lemma is_list_Cons_iff:
  "is_list H p (a # as) \<longleftrightarrow> p = a \<and> a \<noteq> null \<and> (\<exists>m. H a = Some m \<and> is_list H (next_msg m) as)"
  by (simp split: option.splits)

declare is_list.simps(2) [simp del] and is_list_Cons_iff [simp]

lemma is_list_live: "is_list H p as \<Longrightarrow> a \<in> set as \<Longrightarrow> a \<noteq> null \<and> (\<exists>m. H a = Some m)"
  by (induction as arbitrary: p) auto

lemma is_list_cong: "(\<And>a. a \<in> set as \<Longrightarrow> H' a = H a) \<Longrightarrow> is_list H' p as = is_list H p as"
  by (induction as arbitrary: p) auto

lemma is_list_upd_notin [simp]: "a \<notin> set as \<Longrightarrow> is_list (H(a := x)) p as = is_list H p as"
  by (rule is_list_cong) auto

text \<open>The walk to the last node returns, on every well-formed list.\<close>

lemma last_node_is_last: "is_list H p as \<Longrightarrow> as \<noteq> [] \<Longrightarrow> last_node H p = Some (last as)"
proof (induction as arbitrary: p)
  case Nil
  then show ?case by simp
next
  case (Cons a as)
  then obtain m where m: "H a = Some m" "is_list H (next_msg m) as" "p = a" by auto
  show ?case
  proof (cases as)
    case Nil
    with m show ?thesis by (simp add: last_node.simps)
  next
    case (Cons b bs)
    with m have "next_msg m \<noteq> null" by auto
    with m Cons Cons.IH show ?thesis by (simp add: last_node.simps [of H a])
  qed
qed

text \<open>The flush loop returns and deletes exactly the nodes of the list.\<close>

lemma delete_all_deletes:
  "is_list H p as \<Longrightarrow> distinct as \<Longrightarrow> delete_all H p = Some (\<lambda>a. if a \<in> set as then None else H a)"
proof (induction as arbitrary: H p)
  case Nil
  then show ?case by (simp add: delete_all.simps)
next
  case (Cons a as)
  then obtain m where m: "H a = Some m" "is_list H (next_msg m) as" "p = a" "a \<noteq> null" by auto
  from Cons.prems m have "is_list (H(a := None)) (next_msg m) as" by simp
  then have "delete_all (H(a := None)) (next_msg m)
      = Some (\<lambda>b. if b \<in> set as then None else (H(a := None)) b)"
    by (rule Cons.IH) (use Cons.prems(2) in simp)
  moreover have "(\<lambda>b. if b \<in> set as then None else (H(a := None)) b)
      = (\<lambda>b. if b \<in> set (a # as) then None else H b)" by auto
  ultimately show ?case using m by (simp add: delete_all.simps [of H a])
qed

text \<open>Linking a fresh last node.\<close>

lemma is_list_link:
  assumes "is_list H p as" and "distinct as" and "as \<noteq> []"
    and "q \<notin> set as" and "q \<noteq> null" and "H q = Some n" and "next_msg n = null"
    and "H (last as) = Some m"
  shows "is_list (H(last as \<mapsto> m\<lparr>next_msg := q\<rparr>)) p (as @ [q])"
  using assms
proof (induction as arbitrary: p)
  case Nil
  then show ?case by simp
next
  case (Cons a as)
  show ?case
  proof (cases "as = []")
    case True
    with Cons.prems show ?thesis by auto
  next
    case False
    from Cons.prems obtain k where k: "H a = Some k" "is_list H (next_msg k) as" "p = a" "a \<noteq> null"
      by auto
    have "is_list (H(last as \<mapsto> m\<lparr>next_msg := q\<rparr>)) (next_msg k) (as @ [q])"
      by (rule Cons.IH [OF k(2)]) (use Cons.prems False in simp_all)
    moreover have "a \<noteq> last as" using Cons.prems(2) False by (metis distinct.simps(2) last_in_set)
    moreover have "last (a # as) = last as" using False by simp
    ultimately show ?thesis using k(1,3,4) by (simp only: append_Cons is_list_Cons_iff) simp
  qed
qed

section \<open>The list of pending messages and the invariant\<close>

text \<open>A message without its link: what a client of the looper can see.\<close>

definition payload :: "LooperMessage \<Rightarrow> LooperMessage" where
  "payload m = m\<lparr>next_msg := null\<rparr>"

lemma payload_link [simp]: "payload (m\<lparr>next_msg := p\<rparr>) = payload m"
  by (simp add: payload_def)

definition taken :: "worker_pc \<Rightarrow> ptr set" where
  "taken w = (case w of AtHandle p m \<Rightarrow> {p} | _ \<Rightarrow> {})"

definition waking :: "worker_pc \<Rightarrow> nat" where
  "waking w = (case w of AtFetch \<Rightarrow> 1 | _ \<Rightarrow> 0)"

text \<open>
  \<open>as\<close> are the nodes behind \<open>head\<close>: a proper list of distinct live nodes, none of them in the
  worker's hands, and the data semaphore counts at least the pending messages (it counts more
  after a flush, which does not take the semaphore back).
\<close>

definition looper_inv :: "Looper \<Rightarrow> ptr list \<Rightarrow> bool" where
  "looper_inv L as \<longleftrightarrow>
     is_list (nodes L) (head L) as \<and> distinct as \<and>
     set as \<inter> taken (worker L) = {} \<and>
     (worker L \<noteq> Returned \<longrightarrow> length as \<le> headDataAvailable L + waking (worker L))"

definition pending :: "Looper \<Rightarrow> ptr list \<Rightarrow> LooperMessage list" where
  "pending L as = map (\<lambda>a. payload (the (nodes L a))) as"

lemma addMessage_refines:
  assumes inv: "looper_inv L as" and p: "p \<notin> set as" "p \<noteq> null" "p \<notin> taken (worker L)"
    and n: "nodes L p = Some n" "next_msg n = null"
  shows "\<exists>L'. addMessage p flush L = Some L' \<and>
    looper_inv L' ((if flush then [] else as) @ [p]) \<and>
    pending L' ((if flush then [] else as) @ [p]) = (if flush then [] else pending L as) @ [payload n] \<and>
    worker L' = worker L \<and> handled L' = handled L \<and> running L' = running L"
proof -
  note I = inv [unfolded looper_inv_def]
  show ?thesis
  proof (cases "flush \<or> as = []")
    case True
    define H where "H = (if flush then (\<lambda>a. if a \<in> set as then None else nodes L a) else nodes L)"
    have H: "(if flush then delete_all (nodes L) (head L) else Some (nodes L)) = Some H"
      using delete_all_deletes I by (simp add: H_def)
    have Hp: "H p = Some n" using n p by (simp add: H_def)
    have hd: "(if flush then null else head L) = null" using True I by (cases flush) auto
    let ?L = "L\<lparr>nodes := H, head := p, headDataAvailable := Suc (headDataAvailable L)\<rparr>"
    have "addMessage p flush L = Some ?L"
      unfolding addMessage_def H using hd by simp
    moreover have "looper_inv ?L [p]"
      using p n Hp I by (auto simp: looper_inv_def)
    moreover have "(if flush then [] else as) = []" using True by (cases flush) simp_all
    ultimately show ?thesis
      using Hp True by (auto simp: pending_def)
  next
    case False
    then have hd: "head L \<noteq> null" using I by (cases as) auto
    from I False obtain m where m: "nodes L (last as) = Some m"
      using is_list_live [of "nodes L" "head L" as "last as"] by auto
    let ?H = "(nodes L)(last as \<mapsto> m\<lparr>next_msg := p\<rparr>)"
    let ?L = "L\<lparr>nodes := ?H, headDataAvailable := Suc (headDataAvailable L)\<rparr>"
    have "addMessage p flush L = Some ?L"
      using False hd last_node_is_last [of "nodes L" "head L" as] I m by (simp add: addMessage_def)
    moreover have "is_list ?H (head L) (as @ [p])"
      using is_list_link I False p n m by blast
    then have "looper_inv ?L (as @ [p])"
      using I p False by (auto simp: looper_inv_def)
    moreover have "?H p = Some n" using p(1) n(1) False by (metis fun_upd_other last_in_set)
    then have "pending ?L (as @ [p]) = pending L as @ [payload n]"
      using m by (auto simp: pending_def)
    ultimately show ?thesis using False by auto
  qed
qed

text \<open>
  Which nodes are live afterwards: a flush deletes the nodes of the list and no others, and without
  a flush every node stays; only the nodes of the list may change.
\<close>

lemma addMessage_nodes:
  assumes inv: "looper_inv L as" and add: "addMessage p flush L = Some L'"
  shows "dom (nodes L') = dom (nodes L) - (if flush then set as else {})"
    and "a \<notin> set as \<Longrightarrow> nodes L' a = nodes L a"
    and "headDataAvailable L' = Suc (headDataAvailable L)"
proof -
  note I = inv [unfolded looper_inv_def]
  have "dom (nodes L') = dom (nodes L) - (if flush then set as else {}) \<and>
      (\<forall>a. a \<notin> set as \<longrightarrow> nodes L' a = nodes L a) \<and> headDataAvailable L' = Suc (headDataAvailable L)"
  proof (cases flush)
    case True
    have "delete_all (nodes L) (head L) = Some (\<lambda>a. if a \<in> set as then None else nodes L a)"
      using delete_all_deletes I by blast
    then show ?thesis using add True by (auto simp: addMessage_def split: if_splits)
  next
    case False
    show ?thesis
    proof (cases "as = []")
      case True
      then show ?thesis using add False I by (auto simp: addMessage_def)
    next
      case ne: False
      then have "head L \<noteq> null" using I by (cases as) auto
      then obtain m where m: "nodes L (last as) = Some m"
          "nodes L' = (nodes L)(last as \<mapsto> m\<lparr>next_msg := p\<rparr>)"
          "headDataAvailable L' = Suc (headDataAvailable L)"
        using add False last_node_is_last [of "nodes L" "head L" as] I ne
        by (auto simp: addMessage_def split: option.splits)
      have "last as \<in> set as" using ne by simp
      then show ?thesis using m False by auto
    qed
  qed
  then show "dom (nodes L') = dom (nodes L) - (if flush then set as else {})"
    and "a \<notin> set as \<Longrightarrow> nodes L' a = nodes L a"
    and "headDataAvailable L' = Suc (headDataAvailable L)" by blast+
qed

text \<open>Posting: a fresh node is added at the end, or becomes the only one after a flush.\<close>

lemma alloc_node_inv:
  assumes "looper_inv L as" and "p \<notin> set as"
  shows "looper_inv (alloc_node p m L) as" and "pending (alloc_node p m L) as = pending L as"
  using assms by (auto simp: looper_inv_def alloc_node_def pending_def)

lemma post_refines:
  assumes "looper_inv L as" and "nodes L p = None" and "p \<noteq> null" and "p \<notin> taken (worker L)"
    and "next_msg m = null"
  shows "\<exists>L'. addMessage p flush (alloc_node p m L) = Some L' \<and>
    looper_inv L' ((if flush then [] else as) @ [p]) \<and>
    pending L' ((if flush then [] else as) @ [p]) = (if flush then [] else pending L as) @ [payload m] \<and>
    worker L' = worker L \<and> handled L' = handled L \<and> running L' = running L"
proof -
  have p: "p \<notin> set as"
    using assms(1,2) is_list_live [of "nodes L" "head L" as p] by (auto simp: looper_inv_def)
  have same: "worker (alloc_node p m L) = worker L" "handled (alloc_node p m L) = handled L"
      "running (alloc_node p m L) = running L" "nodes (alloc_node p m L) p = Some m"
    by (simp_all add: alloc_node_def)
  from addMessage_refines [OF alloc_node_inv(1) [OF assms(1) p, of m] p assms(3) _ same(4) assms(5),
      of flush] assms(4)
  show ?thesis unfolding same alloc_node_inv(2) [OF assms(1) p] by simp
qed

lemma post_nodes:
  assumes "looper_inv L as" and "nodes L p = None"
    and add: "addMessage p flush (alloc_node p m L) = Some L'"
  shows "dom (nodes L') = insert p (dom (nodes L) - (if flush then set as else {}))"
    and "a \<notin> set as \<Longrightarrow> a \<noteq> p \<Longrightarrow> nodes L' a = nodes L a"
    and "headDataAvailable L' = Suc (headDataAvailable L)"
proof -
  have p: "p \<notin> set as"
    using assms(1,2) is_list_live [of "nodes L" "head L" as p] by (auto simp: looper_inv_def)
  note n = addMessage_nodes [OF alloc_node_inv(1) [OF assms(1) p, of m] add]
  show "dom (nodes L') = insert p (dom (nodes L) - (if flush then set as else {}))"
    using n(1) p by (auto simp: alloc_node_def)
  show "a \<notin> set as \<Longrightarrow> a \<noteq> p \<Longrightarrow> nodes L' a = nodes L a"
    and "headDataAvailable L' = Suc (headDataAvailable L)"
    using n(2,3) by (simp_all add: alloc_node_def)
qed

section \<open>Steps of the worker\<close>

text \<open>
  A worker step takes the oldest pending message or changes nothing visible; it is never stuck
  while a message is pending, because the semaphore counts it.
\<close>

lemma worker_semwait:
  assumes "looper_inv L as" and "worker L = AtSemWait" and "as \<noteq> []"
  shows "\<exists>L'. loop_step L = Some L' \<and> looper_inv L' as \<and> worker L' = AtFetch \<and>
    pending L' as = pending L as \<and> handled L' = handled L"
proof -
  have "0 < headDataAvailable L"
    using assms by (cases as) (auto simp: looper_inv_def waking_def)
  then show ?thesis
    using assms by (auto simp: loop_step_def looper_inv_def waking_def taken_def pending_def)
qed

lemma worker_fetch:
  assumes "looper_inv L (a # as)" and "worker L = AtFetch"
  shows "\<exists>L' m. loop_step L = Some L' \<and> looper_inv L' as \<and> worker L' = AtHandle a m \<and>
    payload m # pending L' as = pending L (a # as) \<and> handled L' = handled L"
  using assms by (auto simp: loop_step_def looper_inv_def waking_def taken_def pending_def)

lemma worker_handle:
  assumes "looper_inv L as" and "worker L = AtHandle p m"
  shows "\<exists>L'. loop_step L = Some L' \<and> looper_inv L' as \<and> pending L' as = pending L as \<and>
    worker L' = (if is_quit m then Returned else AtSemWait) \<and>
    handled L' = handled L @ (if is_quit m then [] else [m]) \<and> nodes L' p = None"
proof -
  have p: "p \<notin> set as" using assms by (auto simp: looper_inv_def taken_def)
  then show ?thesis
    using assms by (auto simp: loop_step_def looper_inv_def waking_def taken_def pending_def)
qed

section \<open>Running the worker\<close>

text \<open>\<open>n\<close> steps of the worker with no other thread running; \<open>None\<close> when it blocks or has returned.\<close>

fun loop_run :: "nat \<Rightarrow> Looper \<Rightarrow> Looper option" where
  "loop_run 0 L = Some L"
| "loop_run (Suc n) L = (case loop_step L of None \<Rightarrow> None | Some L' \<Rightarrow> loop_run n L')"

lemma payload_quit [simp]: "is_quit (payload m) = is_quit m"
  by (simp add: payload_def)

text \<open>Three steps take the oldest message off the list and hand it over.\<close>

lemma loop_run_one:
  assumes inv: "looper_inv L (a # as)" and w: "worker L = AtSemWait"
  shows "\<exists>L' m. loop_run 3 L = Some L' \<and> looper_inv L' as \<and> pending L (a # as) = payload m # pending L' as \<and>
    worker L' = (if is_quit m then Returned else AtSemWait) \<and>
    handled L' = handled L @ (if is_quit m then [] else [m])"
proof -
  from worker_semwait [OF inv w] obtain L1 where
    L1: "loop_step L = Some L1" "looper_inv L1 (a # as)" "worker L1 = AtFetch"
        "pending L1 (a # as) = pending L (a # as)" "handled L1 = handled L" by auto
  from worker_fetch [OF L1(2,3)] obtain L2 m where
    L2: "loop_step L1 = Some L2" "looper_inv L2 as" "worker L2 = AtHandle a m"
        "payload m # pending L2 as = pending L1 (a # as)" "handled L2 = handled L1" by auto
  from worker_handle [OF L2(2,3)] obtain L3 where
    L3: "loop_step L2 = Some L3" "looper_inv L3 as" "pending L3 as = pending L2 as"
        "worker L3 = (if is_quit m then Returned else AtSemWait)"
        "handled L3 = handled L2 @ (if is_quit m then [] else [m])" by blast
  have "loop_run 3 L = Some L3"
    by (simp add: numeral_3_eq_3 L1(1) L2(1) L3(1))
  moreover have "pending L (a # as) = payload m # pending L3 as"
    and "handled L3 = handled L @ (if is_quit m then [] else [m])"
    using L1 L2 L3 by simp_all
  ultimately show ?thesis using L3(2,4) by blast
qed

section \<open>All threads together\<close>

text \<open>
  The looper with any number of posting threads. The second component is the history the
  posters see: the messages in the order they were accepted, less those a flush discarded.
\<close>

definition in_hand :: "Looper \<Rightarrow> LooperMessage list" where
  "in_hand L = (case worker L of AtHandle p m \<Rightarrow> [payload m] | _ \<Rightarrow> [])"

definition quit_message :: LooperMessage where
  "quit_message = \<lparr>what = 0, arg1 = 0, arg2 = 0, obj = null, next_msg = null, is_quit = True\<rparr>"

definition consumed :: "Looper \<Rightarrow> LooperMessage list" where
  "consumed L = map payload (handled L) @ in_hand L @ (if worker L = Returned then [quit_message] else [])"

inductive looper_step :: "Looper \<times> LooperMessage list \<Rightarrow> Looper \<times> LooperMessage list \<Rightarrow> bool" where
  post: "nodes L p = None \<Longrightarrow> p \<noteq> null \<Longrightarrow> p \<notin> taken (worker L) \<Longrightarrow>
     postMessage p w a1 a2 ob flush L = Some L' \<Longrightarrow>
     m = \<lparr>what = w, arg1 = a1, arg2 = a2, obj = ob, next_msg = null, is_quit = False\<rparr> \<Longrightarrow>
     looper_step (L, log) (L', (if flush then consumed L else log) @ [m])"
| quit: "nodes L p = None \<Longrightarrow> p \<noteq> null \<Longrightarrow> p \<notin> taken (worker L) \<Longrightarrow>
     quit_post p L = Some L' \<Longrightarrow> looper_step (L, log) (L', log @ [quit_message])"
| work: "loop_step L = Some L' \<Longrightarrow> looper_step (L, log) (L', log)"

definition looper_ok :: "Looper \<times> LooperMessage list \<Rightarrow> bool" where
  "looper_ok s \<longleftrightarrow> (\<exists>as. looper_inv (fst s) as \<and>
     snd s = consumed (fst s) @ pending (fst s) as \<and>
     (\<forall>m \<in> set (snd s). is_quit m \<longrightarrow> m = quit_message))"

lemma post_ok:
  assumes ok: "looper_ok (L, log)" and fresh: "nodes L p = None" "p \<noteq> null" "p \<notin> taken (worker L)"
    and m: "next_msg m = null" "is_quit m \<longrightarrow> m = quit_message"
    and add: "addMessage p flush (alloc_node p m L) = Some L'"
  shows "looper_ok (L', (if flush then consumed L else log) @ [m])"
proof -
  from ok obtain as where as: "looper_inv L as" "log = consumed L @ pending L as"
    and q: "\<forall>m \<in> set log. is_quit m \<longrightarrow> m = quit_message"
    by (auto simp: looper_ok_def)
  let ?as = "(if flush then [] else as) @ [p]"
  from post_refines [OF as(1) fresh m(1), of flush] add have
    L': "looper_inv L' ?as" "pending L' ?as = (if flush then [] else pending L as) @ [payload m]"
        "worker L' = worker L" "handled L' = handled L" by auto
  have "payload m = m" using m(1) by (simp add: payload_def)
  moreover have "consumed L' = consumed L" using L' by (simp add: consumed_def in_hand_def)
  ultimately show ?thesis
    unfolding looper_ok_def using L' as q m(2)
    by (intro exI [of _ ?as]) (auto simp: split: if_splits)
qed

lemma work_ok:
  assumes ok: "looper_ok (L, log)" and st: "loop_step L = Some L'"
  shows "looper_ok (L', log)"
proof -
  from ok obtain as where as: "looper_inv L as" "log = consumed L @ pending L as"
    and q: "\<forall>m \<in> set log. is_quit m \<longrightarrow> m = quit_message"
    by (auto simp: looper_ok_def)
  have "\<exists>as'. looper_inv L' as' \<and> consumed L' @ pending L' as' = consumed L @ pending L as"
  proof (cases "worker L")
    case AtSemWait
    with st have L': "L' = L\<lparr>headDataAvailable := headDataAvailable L - 1, worker := AtFetch\<rparr>"
        "0 < headDataAvailable L"
      by (auto simp: loop_step_def split: if_splits)
    show ?thesis
      using as(1) AtSemWait L' by (intro exI [of _ as])
        (auto simp: looper_inv_def taken_def waking_def consumed_def in_hand_def pending_def)
  next
    case AtFetch
    show ?thesis
    proof (cases as)
      case Nil
      then have "L' = L\<lparr>worker := AtSemWait\<rparr>"
        using st as(1) AtFetch by (simp add: loop_step_def looper_inv_def)
      then show ?thesis using Nil as(1) AtFetch by (intro exI [of _ as])
          (auto simp: looper_inv_def taken_def waking_def consumed_def in_hand_def pending_def)
    next
      case (Cons a as')
      with worker_fetch [of L a as'] as(1) AtFetch st obtain m where
        L': "looper_inv L' as'" "worker L' = AtHandle a m"
            "payload m # pending L' as' = pending L as" "handled L' = handled L" by auto
      then show ?thesis using AtFetch
        by (intro exI [of _ as']) (simp add: consumed_def in_hand_def)
    qed
  next
    case (AtHandle p m)
    with worker_handle [OF as(1) AtHandle] st have
      L': "looper_inv L' as" "pending L' as = pending L as"
          "worker L' = (if is_quit m then Returned else AtSemWait)"
          "handled L' = handled L @ (if is_quit m then [] else [m])" by auto
    have "payload m \<in> set log" using as(2) AtHandle by (simp add: consumed_def in_hand_def)
    then have "is_quit m \<longrightarrow> payload m = quit_message" using q payload_quit by blast
    then show ?thesis using L' AtHandle
      by (intro exI [of _ as]) (simp add: consumed_def in_hand_def)
  next
    case Returned
    with st show ?thesis by (simp add: loop_step_def)
  qed
  then show ?thesis using as(2) q by (auto simp: looper_ok_def)
qed

lemma looper_step_ok:
  assumes "looper_ok s" and "looper_step s t"
  shows "looper_ok t"
  using assms(2)
proof cases
  case (post L p w a1 a2 ob flush L' m log)
  then show ?thesis using post_ok [of L log p m flush L'] assms(1) by (simp add: postMessage_def)
next
  case (quit L p L' log)
  then show ?thesis
    using post_ok [of L log p quit_message False L'] assms(1)
    by (simp add: quit_post_def quit_message_def)
next
  case (work L L' log)
  then show ?thesis using work_ok assms(1) by simp
qed

interpretation looper: step_invariant "\<lambda>s. s = (Looper_ctor, [])" looper_step looper_ok
proof unfold_locales
  show "looper_ok s" if "s = (Looper_ctor, [])" for s
    unfolding looper_ok_def using that
    by (intro exI [of _ "[]"]) (simp add: looper_inv_def Looper_ctor_def taken_def consumed_def
        in_hand_def pending_def)
qed (rule looper_step_ok)

section \<open>Properties of the looper\<close>

text \<open>C13: The pointer code of \<open>addMessage\<close> implements appending to the message list: on a well-formed
  looper with a freshly allocated node, both pointer loops return, the nodes behind \<open>head\<close> become
  the old ones followed by the new one (only the new one when \<open>flush\<close> is set), and so do the
  pending messages. With \<open>flush\<close> exactly the nodes of the old list are freed, without it none; no
  node outside the list changes, the semaphore counts one more, and the worker and the handled
  messages are untouched.\<close>

theorem looper_post_refines:
  assumes "looper_inv L as" and "nodes L p = None" and "p \<noteq> null" and "p \<notin> taken (worker L)"
  shows "\<exists>L'. postMessage p w a1 a2 ob flush L = Some L' \<and>
    looper_inv L' ((if flush then [] else as) @ [p]) \<and>
    pending L' ((if flush then [] else as) @ [p]) = (if flush then [] else pending L as) @
      [\<lparr>what = w, arg1 = a1, arg2 = a2, obj = ob, next_msg = null, is_quit = False\<rparr>] \<and>
    dom (nodes L') = insert p (dom (nodes L) - (if flush then set as else {})) \<and>
    (\<forall>a. a \<notin> set as \<and> a \<noteq> p \<longrightarrow> nodes L' a = nodes L a) \<and>
    headDataAvailable L' = Suc (headDataAvailable L) \<and>
    worker L' = worker L \<and> handled L' = handled L \<and> running L' = running L"
proof -
  let ?m = "\<lparr>what = w, arg1 = a1, arg2 = a2, obj = ob, next_msg = null, is_quit = False\<rparr>"
  from post_refines [OF assms, of ?m flush] obtain L' where
    L': "addMessage p flush (alloc_node p ?m L) = Some L'"
      "looper_inv L' ((if flush then [] else as) @ [p])"
      "pending L' ((if flush then [] else as) @ [p]) = (if flush then [] else pending L as) @ [?m]"
      "worker L' = worker L" "handled L' = handled L" "running L' = running L"
    by (auto simp: payload_def)
  with post_nodes [OF assms(1,2) L'(1)] show ?thesis by (simp add: postMessage_def)
qed

lemma Looper_ctor_inv: "looper_inv Looper_ctor []" "pending Looper_ctor [] = []"
  by (simp_all add: looper_inv_def Looper_ctor_def taken_def pending_def)

definition demo_msg :: LooperMessage where
  "demo_msg = \<lparr>what = 1, arg1 = 0, arg2 = 0, obj = null, next_msg = null, is_quit = False\<rparr>"

definition demo_looper :: Looper where
  "demo_looper = Looper_ctor\<lparr>head := 5, headDataAvailable := 3,
     nodes := [5 \<mapsto> demo_msg\<lparr>next_msg := 6\<rparr>, 6 \<mapsto> quit_message\<lparr>next_msg := 7\<rparr>, 7 \<mapsto> demo_msg]\<rparr>"

lemma demo_looper_inv:
  "looper_inv demo_looper [5, 6, 7]" "worker demo_looper = AtSemWait"
  "pending demo_looper [5, 6, 7] = [demo_msg] @ quit_message # [demo_msg]"
  by (simp_all add: demo_looper_def Looper_ctor_def looper_inv_def taken_def waking_def pending_def
      payload_def demo_msg_def quit_message_def)

theorem looper_post_refines_witness:
  "(\<exists>L'. postMessage 9 1 2 3 4 False demo_looper = Some L' \<and> looper_inv L' [5, 6, 7, 9] \<and>
     dom (nodes L') = {5, 6, 7, 9}) \<and>
   (\<exists>L'. postMessage 9 1 2 3 4 True demo_looper = Some L' \<and> looper_inv L' [9] \<and> dom (nodes L') = {9})"
proof -
  have n: "nodes demo_looper 9 = None" "9 \<notin> taken (worker demo_looper)"
    "dom (nodes demo_looper) = {5, 6, 7}"
    by (auto simp: demo_looper_def Looper_ctor_def taken_def)
  have "insert 9 ({5, 6, 7} - {}) = {5, 6, 7, 9::ptr}" by auto
  with looper_post_refines [OF demo_looper_inv(1) n(1) _ n(2), of 1 2 3 4 False]
    looper_post_refines [OF demo_looper_inv(1) n(1) _ n(2), of 1 2 3 4 True] n(3)
  show ?thesis by auto
qed

text \<open>C14: In every reachable state of the looper, for any interleaving of posting threads and the
  worker, the messages handled so far, the one in the worker's hands and the pending list together
  are the accepted messages in the order they were posted (less those a flush discarded), and the
  semaphore never undercounts: a waiting worker with pending messages can take a step.\<close>

theorem looper_fifo:
  assumes "rtranclp looper_step (Looper_ctor, []) (L, log)"
  shows "\<exists>as. looper_inv L as \<and> log = consumed L @ pending L as \<and>
    (as \<noteq> [] \<and> worker L = AtSemWait \<longrightarrow> (\<exists>L'. loop_step L = Some L'))"
proof -
  from looper.reachable_inv [OF refl assms] obtain as where
    as: "looper_inv L as" "log = consumed L @ pending L as" by (auto simp: looper_ok_def)
  then show ?thesis using worker_semwait [OF as(1)] by blast
qed

theorem looper_fifo_witness:
  "\<exists>L as. looper_inv L as \<and> [\<lparr>what = 1, arg1 = 0, arg2 = 0, obj = null, next_msg = null, is_quit = False\<rparr>]
     = consumed L @ pending L as"
proof -
  obtain L where L: "postMessage 5 1 0 0 null False Looper_ctor = Some L"
    using post_refines [OF Looper_ctor_inv(1), of 5
        "\<lparr>what = 1, arg1 = 0, arg2 = 0, obj = null, next_msg = null, is_quit = False\<rparr>" False]
    by (auto simp: postMessage_def Looper_ctor_def taken_def)
  have "looper_step (Looper_ctor, []) (L, (if False then consumed Looper_ctor else []) @
      [\<lparr>what = 1, arg1 = 0, arg2 = 0, obj = null, next_msg = null, is_quit = False\<rparr>])"
    by (rule looper_step.post [OF _ _ _ L]) (simp_all add: Looper_ctor_def taken_def)
  then have "rtranclp looper_step (Looper_ctor, []) (L,
      [\<lparr>what = 1, arg1 = 0, arg2 = 0, obj = null, next_msg = null, is_quit = False\<rparr>])"
    by auto
  from looper_fifo [OF this] show ?thesis by blast
qed

section \<open>Quitting while other threads post\<close>

text \<open>
  The events after \<open>quit\<close> has posted its message: other threads post without \<open>flush\<close>, or quit as
  well, and the worker takes steps; \<open>works\<close> counts the latter. An event that cannot happen (a
  node that is not fresh, a step of a worker that is blocked or has returned) is \<open>None\<close>.
\<close>

datatype looper_event = Post ptr int int int ptr | Quit ptr | Work

definition fresh_node :: "ptr \<Rightarrow> Looper \<Rightarrow> bool" where
  "fresh_node p L \<longleftrightarrow> p \<noteq> null \<and> Option.is_none (nodes L p) \<and> p \<notin> taken (worker L)"

definition looper_event :: "looper_event \<Rightarrow> Looper \<Rightarrow> Looper option" where
  "looper_event e L =
     (case e of
        Post p w a1 a2 ob \<Rightarrow> if fresh_node p L then postMessage p w a1 a2 ob False L else None
      | Quit p \<Rightarrow> if fresh_node p L then quit_post p L else None
      | Work \<Rightarrow> loop_step L)"

fun looper_run :: "looper_event list \<Rightarrow> Looper \<Rightarrow> Looper option" where
  "looper_run [] L = Some L"
| "looper_run (e # es) L = (case looper_event e L of None \<Rightarrow> None | Some L' \<Rightarrow> looper_run es L')"

definition works :: "looper_event list \<Rightarrow> nat" where
  "works es = length (filter (\<lambda>e. e = Work) es)"

text \<open>An event is a step of all threads together, and what it does to the accepted messages.\<close>

definition posted :: "looper_event \<Rightarrow> LooperMessage list" where
  "posted e = (case e of
      Post p w a1 a2 ob \<Rightarrow> [\<lparr>what = w, arg1 = a1, arg2 = a2, obj = ob, next_msg = null, is_quit = False\<rparr>]
    | Quit p \<Rightarrow> [quit_message] | Work \<Rightarrow> [])"

lemma looper_event_step:
  "looper_event e L = Some L' \<Longrightarrow> looper_step (L, log) (L', log @ posted e)"
  using looper_step.post [where flush = False and log = log]
  by (auto simp: looper_event_def posted_def fresh_node_def Option.is_none_def
      intro: looper_step.quit looper_step.work split: looper_event.splits if_splits option.splits)

text \<open>
  How far the worker is: three steps per handled message, and its place in the loop. A worker that
  finds a message moves on by one; one that finds none after a flush goes back.
\<close>

definition worker_progress :: "Looper \<Rightarrow> nat" where
  "worker_progress L = 3 * length (handled L) +
     (case worker L of AtSemWait \<Rightarrow> 0 | AtFetch \<Rightarrow> 1 | AtHandle p m \<Rightarrow> 2 | Returned \<Rightarrow> 3)"

text \<open>The state while a quit message is among the accepted ones and \<open>log\<close> has come before it.\<close>

definition quitting :: "LooperMessage list \<Rightarrow> Looper \<Rightarrow> bool" where
  "quitting log L \<longleftrightarrow> (\<exists>as rest. looper_inv L as \<and> consumed L @ pending L as = log @ quit_message # rest) \<and>
     (\<forall>m \<in> set log. \<not> is_quit m) \<and> (\<forall>m \<in> set (handled L). \<not> is_quit m)"



lemma first_quit:
  "xs @ q # ys = zs @ q' # ws \<Longrightarrow> \<forall>m \<in> set xs. \<not> is_quit m \<Longrightarrow> \<forall>m \<in> set zs. \<not> is_quit m \<Longrightarrow>
     is_quit q \<Longrightarrow> is_quit q' \<Longrightarrow> xs = zs \<and> q = q'"
proof (induction xs arbitrary: zs)
  case Nil
  then show ?case by (cases zs) auto
next
  case (Cons x xs)
  then show ?case by (cases zs) auto
qed

lemma quit_message_quits [simp]: "is_quit quit_message"
  by (simp add: quit_message_def)

lemma quitting_busy:
  assumes "looper_inv L as" and "consumed L @ pending L as = log @ quit_message # rest"
    and "\<forall>m \<in> set (handled L). \<not> is_quit m" and "worker L \<in> {AtSemWait, AtFetch}"
  shows "as \<noteq> []"
proof
  assume "as = []"
  then have "map payload (handled L) = log @ quit_message # rest"
    using assms(2,4) by (auto simp: consumed_def in_hand_def pending_def)
  then have "quit_message \<in> payload ` set (handled L)" by (metis in_set_conv_decomp list.set_map)
  then obtain m where "m \<in> set (handled L)" "quit_message = payload m" by blast
  then have "is_quit m" using payload_quit [of m] quit_message_quits by simp
  with \<open>m \<in> set (handled L)\<close> assms(3) show False by blast
qed

lemma quitting_post:
  assumes q: "quitting log L" and f: "fresh_node p L" and n: "next_msg m = null"
    and add: "addMessage p False (alloc_node p m L) = Some L'"
  shows "quitting log L' \<and> worker_progress L' = worker_progress L"
proof -
  from q obtain as rest where as: "looper_inv L as" "consumed L @ pending L as = log @ quit_message # rest"
    and nq: "\<forall>m \<in> set log. \<not> is_quit m" "\<forall>m \<in> set (handled L). \<not> is_quit m"
    by (auto simp: quitting_def)
  have "nodes L p = None" "p \<noteq> null" "p \<notin> taken (worker L)"
    using f by (auto simp: fresh_node_def Option.is_none_def)
  from post_refines [OF as(1) this n, of False] add have
    L': "looper_inv L' (as @ [p])" "pending L' (as @ [p]) = pending L as @ [payload m]"
      "worker L' = worker L" "handled L' = handled L" by auto
  moreover have "consumed L' @ pending L' (as @ [p]) = log @ quit_message # rest @ [payload m]"
    using L' as(2) by (simp add: consumed_def in_hand_def)
  ultimately show ?thesis using nq unfolding quitting_def worker_progress_def by metis
qed

lemma quitting_work:
  assumes q: "quitting log L" and st: "loop_step L = Some L'"
  shows "quitting log L' \<and> worker_progress L' = worker_progress L + 1"
proof -
  from q obtain as rest where as: "looper_inv L as" "consumed L @ pending L as = log @ quit_message # rest"
    and nq: "\<forall>m \<in> set log. \<not> is_quit m" "\<forall>m \<in> set (handled L). \<not> is_quit m"
    by (auto simp: quitting_def)
  note busy = quitting_busy [OF as nq(2)]
  have "\<exists>as'. looper_inv L' as' \<and> consumed L' @ pending L' as' = consumed L @ pending L as \<and>
      (\<forall>m \<in> set (handled L'). \<not> is_quit m) \<and> worker_progress L' = worker_progress L + 1"
  proof (cases "worker L")
    case AtSemWait
    with worker_semwait [OF as(1) AtSemWait] busy st show ?thesis using nq(2)
      by (intro exI [of _ as]) (simp add: consumed_def in_hand_def worker_progress_def)
  next
    case AtFetch
    then obtain a as' where a: "as = a # as'" using busy by (cases as) auto
    with worker_fetch [of L a as'] as(1) AtFetch st nq(2) show ?thesis
      by (intro exI [of _ as']) (auto simp: consumed_def in_hand_def worker_progress_def)
  next
    case (AtHandle p m)
    have "is_quit m \<Longrightarrow> map payload (handled L) = log \<and> payload m = quit_message"
      using first_quit [of "map payload (handled L)" "payload m" "pending L as" log quit_message rest]
        as(2) AtHandle nq by (simp add: consumed_def in_hand_def)
    with worker_handle [OF as(1) AtHandle] st AtHandle nq(2) show ?thesis
      by (intro exI [of _ as]) (auto simp: consumed_def in_hand_def worker_progress_def)
  next
    case Returned
    with st show ?thesis by (simp add: loop_step_def)
  qed
  then show ?thesis using as(2) nq(1) by (auto simp: quitting_def)
qed

lemma quitting_event:
  assumes q: "quitting log L" and e: "looper_event e L = Some L'"
  shows "quitting log L' \<and> worker_progress L' = worker_progress L + works [e]"
proof (cases e)
  case (Post p w a1 a2 ob)
  then have "fresh_node p L" "addMessage p False (alloc_node p
      \<lparr>what = w, arg1 = a1, arg2 = a2, obj = ob, next_msg = null, is_quit = False\<rparr> L) = Some L'"
    using e by (simp_all add: looper_event_def postMessage_def split: if_splits)
  from quitting_post [OF q this(1) _ this(2)] show ?thesis using Post by (simp add: works_def)
next
  case (Quit p)
  then have "fresh_node p L" "addMessage p False (alloc_node p
      \<lparr>what = 0, arg1 = 0, arg2 = 0, obj = null, next_msg = null, is_quit = True\<rparr> L) = Some L'"
    using e by (simp_all add: looper_event_def quit_post_def split: if_splits)
  from quitting_post [OF q this(1) _ this(2)] show ?thesis using Quit by (simp add: works_def)
next
  case Work
  then show ?thesis using quitting_work [OF q] e by (simp add: looper_event_def works_def)
qed

lemma quitting_run:
  "quitting log L \<Longrightarrow> looper_run es L = Some L' \<Longrightarrow>
     quitting log L' \<and> worker_progress L' = worker_progress L + works es"
proof (induction es arbitrary: L)
  case Nil
  then show ?case by (simp add: works_def)
next
  case (Cons e es)
  then obtain M where M: "looper_event e L = Some M" "looper_run es M = Some L'"
    by (auto split: option.splits)
  from quitting_event [OF Cons.prems(1) M(1)] Cons.IH [OF _ M(2)] show ?case by (simp add: works_def)
qed

text \<open>The worker of a quitting looper moves on until it has handled what came before the quit.\<close>

lemma quitting_returned:
  assumes "quitting log L" and "worker L = Returned"
  shows "map payload (handled L) = log"
proof -
  from assms obtain as rest where
    "map payload (handled L) @ quit_message # pending L as = log @ quit_message # rest"
    "\<forall>m \<in> set log. \<not> is_quit m" "\<forall>m \<in> set (map payload (handled L)). \<not> is_quit m"
    by (auto simp: quitting_def consumed_def in_hand_def)
  then show ?thesis using first_quit by fastforce
qed

lemma quitting_runs:
  assumes q: "quitting log L" and w: "worker L \<noteq> Returned"
  shows "\<exists>L'. loop_step L = Some L'" and "worker_progress L < 3 * (length log + 1)"
proof -
  from q obtain as rest where as: "looper_inv L as" "consumed L @ pending L as = log @ quit_message # rest"
    and nq: "\<forall>m \<in> set (handled L). \<not> is_quit m" by (auto simp: quitting_def)
  note busy = quitting_busy [OF as nq]
  show "\<exists>L'. loop_step L = Some L'"
  proof (cases "worker L")
    case AtFetch
    then obtain a as' where "as = a # as'" using busy by (cases as) auto
    then show ?thesis using worker_fetch as(1) AtFetch by blast
  qed (use worker_semwait [OF as(1)] worker_handle [OF as(1)] busy w in blast)+
  have "length (handled L) \<le> length log"
  proof (rule ccontr)
    assume "\<not> length (handled L) \<le> length log"
    then have len: "length log < length (map payload (handled L))" by simp
    have "(map payload (handled L) @ in_hand L @ pending L as) ! length log = quit_message"
      using as(2) w by (simp add: consumed_def nth_append)
    then have "map payload (handled L) ! length log = quit_message" using len by (simp add: nth_append)
    then have "payload (handled L ! length log) = quit_message" using len by simp
    then have "is_quit (handled L ! length log)" using payload_quit quit_message_quits by metis
    with len nq show False by simp
  qed
  then show "worker_progress L < 3 * (length log + 1)"
    using w by (cases "worker L") (simp_all add: worker_progress_def)
qed

lemma quitting_start:
  assumes ok: "looper_ok (L, log)" and no: "quit_message \<notin> set log" and f: "fresh_node p L"
  shows "\<exists>L1. quit_post p L = Some L1 \<and> quitting log L1"
proof -
  from ok obtain as where as: "looper_inv L as" "log = consumed L @ pending L as"
    and q: "\<forall>m \<in> set log. is_quit m \<longrightarrow> m = quit_message"
    by (auto simp: looper_ok_def)
  have nq: "\<forall>m \<in> set log. \<not> is_quit m" using q no by blast
  have "\<not> is_quit m" if "m \<in> set (handled L)" for m
  proof -
    have "payload m \<in> set log" using that as(2) by (simp add: consumed_def)
    then show ?thesis using nq payload_quit by blast
  qed
  then have "\<forall>m \<in> set (handled L). \<not> is_quit m" by blast
  moreover have p: "nodes L p = None" "p \<noteq> null" "p \<notin> taken (worker L)"
    using f by (auto simp: fresh_node_def Option.is_none_def)
  from post_refines [OF as(1) p, of quit_message False] obtain L1 where
    L1: "addMessage p False (alloc_node p quit_message L) = Some L1" "looper_inv L1 (as @ [p])"
      "pending L1 (as @ [p]) = pending L as @ [quit_message]" "worker L1 = worker L" "handled L1 = handled L"
    by (auto simp: quit_message_def payload_def)
  moreover have "consumed L1 @ pending L1 (as @ [p]) = log @ quit_message # []"
    using L1 as(2) by (simp add: consumed_def in_hand_def)
  ultimately have "quitting log L1" using nq unfolding quitting_def by metis
  then show ?thesis using L1(1) by (simp add: quit_post_def quit_message_def)
qed

text \<open>C15: \<open>quit\<close> returns, and everything posted before it is handled first, as long as no post after it
  flushes the list. From any reachable looper that has not been told to quit yet, whatever other
  threads post (or quit) afterwards without \<open>flush\<close> and however the worker is scheduled: until the
  worker has returned it is never blocked, and it returns within \<open>3 * (length log + 1)\<close> of its own
  steps, where \<open>log\<close> are the messages accepted before the quit; when it has returned it has handled
  exactly \<open>log\<close>, in order, and the join in \<open>quit\<close> succeeds, which it does not before.\<close>

theorem looper_quit_drains:
  assumes "rtranclp looper_step (Looper_ctor, []) (L, log)"
    and "quit_message \<notin> set log" and "fresh_node p L"
  shows "\<exists>L1. quit_post p L = Some L1 \<and>
    (\<forall>es L2. looper_run es L1 = Some L2 \<longrightarrow>
       (if worker L2 = Returned
        then map payload (handled L2) = log \<and> quit_join L2 = Some (L2\<lparr>running := False\<rparr>)
        else (\<exists>L3. loop_step L2 = Some L3) \<and> quit_join L2 = None \<and> works es < 3 * (length log + 1)))"
proof -
  have "looper_ok (L, log)" by (rule looper.reachable_inv [OF refl assms(1)])
  from quitting_start [OF this assms(2,3)] obtain L1 where
    L1: "quit_post p L = Some L1" "quitting log L1" by blast
  have "if worker L2 = Returned
      then map payload (handled L2) = log \<and> quit_join L2 = Some (L2\<lparr>running := False\<rparr>)
      else (\<exists>L3. loop_step L2 = Some L3) \<and> quit_join L2 = None \<and> works es < 3 * (length log + 1)"
    if "looper_run es L1 = Some L2" for es L2
    using quitting_run [OF L1(2) that] quitting_returned [of log L2] quitting_runs [of log L2]
    by (auto simp: quit_join_def)
  with L1(1) show ?thesis by blast
qed

text \<open>A post, then \<open>quit\<close>, then another post while the worker runs.\<close>

definition demo_posted :: Looper where
  "demo_posted = Looper_ctor\<lparr>head := 5, headDataAvailable := 1, nodes := [5 \<mapsto> demo_msg]\<rparr>"

lemma demo_posted_step: "looper_step (Looper_ctor, []) (demo_posted, [demo_msg])"
proof -
  have "looper_event (Post 5 1 0 0 null) Looper_ctor = Some demo_posted"
    by (simp add: looper_event_def fresh_node_def Looper_ctor_def taken_def postMessage_def addMessage_def
        alloc_node_def demo_posted_def demo_msg_def)
  from looper_event_step [OF this, of "[]"] show ?thesis by (simp add: posted_def demo_msg_def)
qed

definition demo_quit_run :: "looper_event list" where
  "demo_quit_run = [Work, Work, Post 7 2 0 0 null, Work, Work, Work, Work]"

theorem looper_quit_drains_witness:
  "\<exists>L1 L2. quit_post 6 demo_posted = Some L1 \<and> looper_run demo_quit_run L1 = Some L2 \<and>
     worker L2 = Returned \<and> map payload (handled L2) = [demo_msg] \<and> quit_join L2 \<noteq> None"
proof -
  have f: "fresh_node 6 demo_posted"
    by (simp add: fresh_node_def demo_posted_def Looper_ctor_def taken_def)
  have reach: "rtranclp looper_step (Looper_ctor, []) (demo_posted, [demo_msg])"
    using demo_posted_step by blast
  have no: "quit_message \<notin> set [demo_msg]" by (simp add: quit_message_def demo_msg_def)
  from looper_quit_drains [OF reach no f] obtain L1 where L1: "quit_post 6 demo_posted = Some L1"
    and q: "\<And>es L2. looper_run es L1 = Some L2 \<Longrightarrow> worker L2 = Returned \<Longrightarrow>
      map payload (handled L2) = [demo_msg] \<and> quit_join L2 = Some (L2\<lparr>running := False\<rparr>)"
    by (metis (full_types))
  have "case quit_post 6 demo_posted of None \<Rightarrow> False | Some M \<Rightarrow>
      (case looper_run demo_quit_run M of None \<Rightarrow> False
       | Some M' \<Rightarrow> (case worker M' of Returned \<Rightarrow> True | _ \<Rightarrow> False))" by code_simp
  then have "\<exists>L2. looper_run demo_quit_run L1 = Some L2 \<and> worker L2 = Returned"
    using L1 by (auto split: option.splits worker_pc.splits)
  with L1 q show ?thesis by (metis option.distinct(1))
qed

text \<open>A flushing post discards the quit request: when \<open>quit\<close> has posted its message and another
  thread posts with \<open>flush\<close>, no quit message is left in the list, so the worker handles the new
  message and goes back to waiting, and \<open>quit\<close>, which joins the worker, stays blocked.\<close>

lemma looper_flush_drops_quit:
  assumes "looper_inv L as" and "worker L = AtSemWait" and "quit_message \<in> set (pending L as)"
    and "nodes L p = None" and "p \<noteq> null"
  shows "\<exists>L' L''. postMessage p w a1 a2 ob True L = Some L' \<and>
    loop_run 3 L' = Some L'' \<and> worker L'' = AtSemWait \<and> looper_inv L'' [] \<and> quit_join L'' = None"
proof -
  let ?m = "\<lparr>what = w, arg1 = a1, arg2 = a2, obj = ob, next_msg = null, is_quit = False\<rparr>"
  have "p \<notin> taken (worker L)" using assms(2) by (simp add: taken_def)
  from post_refines [OF assms(1,4,5) this, of ?m True] obtain L' where
    L': "postMessage p w a1 a2 ob True L = Some L'" "looper_inv L' [p]"
        "pending L' [p] = [payload ?m]" "worker L' = worker L"
    by (auto simp: postMessage_def)
  from loop_run_one [OF L'(2)] L'(4) assms(2) obtain L'' m where
    L'': "loop_run 3 L' = Some L''" "looper_inv L'' []" "pending L' [p] = payload m # pending L'' []"
         "worker L'' = (if is_quit m then Returned else AtSemWait)" by auto
  have "\<not> is_quit m"
  proof -
    have "is_quit (payload m) = is_quit (payload ?m)" using L'(3) L''(3) by simp
    then show ?thesis by simp
  qed
  then show ?thesis using L' L'' by (auto simp: quit_join_def)
qed

theorem looper_flush_drops_quit_witness:
  "\<exists>L' L''. postMessage 9 1 0 0 null True demo_looper = Some L' \<and>
    loop_run 3 L' = Some L'' \<and> worker L'' = AtSemWait \<and> quit_join L'' = None"
proof -
  have "quit_message \<in> set (pending demo_looper [5, 6, 7])" using demo_looper_inv(3) by simp
  moreover have "nodes demo_looper 9 = None" by (simp add: demo_looper_def)
  ultimately show ?thesis
    using looper_flush_drops_quit [OF demo_looper_inv(1,2), of 9 1 0 0 null] by auto
qed

end
