(* ===== verification/Message_Queue.thy ===== *)
theory Message_Queue
  imports Prelude
begin

text \<open>
  The blocking queue \<open>message_queue<T>\<close> of \<open>common/message_queue.h\<close>. First the operations as
  functions on the queue object (each one is a critical section under the queue's mutex), then
  the monitor: several threads inside \<open>pop\<close>, waiting on the condition variable, woken by
  \<open>pthread_cond_signal\<close> or spuriously. The heap \<open>'h\<close> is whatever the release callback works on.
\<close>

section \<open>The queue object and its operations\<close>

text \<open>
  The members of the class. \<open>releaseCallBack\<close> and \<open>syncHandle\<close> have no initialiser in the
  source: \<open>None\<close> is the uninitialised pointer, and a call through it is a fault.
\<close>

record ('a, 'h) message_queue =
  queue :: "'a list"
  state :: bool
  releaseCallBack :: "('a \<Rightarrow> 'h \<Rightarrow> 'h res) option"
  syncHandle :: "('a list \<Rightarrow> 'h \<Rightarrow> ('a list \<times> 'h) res) option"

definition message_queue_init :: "('a, 'h) message_queue" where
  "message_queue_init =
     \<lparr>queue = [], state = False, releaseCallBack = None, syncHandle = None\<rparr>"

definition call_release :: "('a, 'h) message_queue \<Rightarrow> 'a \<Rightarrow> 'h \<Rightarrow> 'h res" where
  "call_release q v h = (case releaseCallBack q of None \<Rightarrow> Inl UninitCall | Some f \<Rightarrow> f v h)"

definition mq_push :: "'a \<Rightarrow> ('a, 'h) message_queue \<Rightarrow> 'h \<Rightarrow> (('a, 'h) message_queue \<times> 'h) res" where
  "mq_push v q h =
     (if state q then Inr (q\<lparr>queue := queue q @ [v]\<rparr>, h)
      else res_bind (call_release q v h) (\<lambda>h'. Inr (q, h')))"

text \<open>
  One evaluation of \<open>pop\<close> from the test of its \<open>while\<close> loop: either the thread waits, or the
  call returns \<open>ret\<close> and the content of the reference parameter \<open>value\<close>.
\<close>

datatype 'a pop_result = Wait | Ret (ret: int) (val: 'a)

definition mq_pop :: "'a \<Rightarrow> ('a, 'h) message_queue \<Rightarrow> 'a pop_result \<times> ('a, 'h) message_queue" where
  "mq_pop value q =
     (if state q \<and> queue q = [] then (Wait, q)
      else case queue q of
          [] \<Rightarrow> (Ret 0 value, q)
        | v # vs \<Rightarrow> (Ret 1 v, q\<lparr>queue := vs\<rparr>))"

definition mq_size :: "('a, 'h) message_queue \<Rightarrow> 32 word" where
  "mq_size q = of_nat (length (queue q))"

definition mq_empty :: "('a, 'h) message_queue \<Rightarrow> bool" where
  "mq_empty q \<longleftrightarrow> queue q = []"

text \<open>\<open>clear\<close>: release the front, then pop it, until the queue is empty.\<close>

fun clear_loop :: "('a \<Rightarrow> 'h \<Rightarrow> 'h res) \<Rightarrow> 'a list \<Rightarrow> 'h \<Rightarrow> 'h res" where
  "clear_loop f [] h = Inr h"
| "clear_loop f (v # vs) h = res_bind (f v h) (clear_loop f vs)"

definition mq_clear :: "('a, 'h) message_queue \<Rightarrow> 'h \<Rightarrow> (('a, 'h) message_queue \<times> 'h) res" where
  "mq_clear q h =
     res_bind (clear_loop (call_release q) (queue q) h) (\<lambda>h'. Inr (q\<lparr>queue := []\<rparr>, h'))"

definition mq_gotoWork :: "('a, 'h) message_queue \<Rightarrow> ('a, 'h) message_queue" where
  "mq_gotoWork q = q\<lparr>state := True\<rparr>"

definition mq_backWork :: "('a, 'h) message_queue \<Rightarrow> ('a, 'h) message_queue" where
  "mq_backWork q = q\<lparr>state := False\<rparr>"

definition mq_setReleaseCallBack ::
    "('a \<Rightarrow> 'h \<Rightarrow> 'h res) \<Rightarrow> ('a, 'h) message_queue \<Rightarrow> ('a, 'h) message_queue" where
  "mq_setReleaseCallBack f q = q\<lparr>releaseCallBack := Some f\<rparr>"

definition mq_setSyncHandle ::
    "('a list \<Rightarrow> 'h \<Rightarrow> ('a list \<times> 'h) res) \<Rightarrow> ('a, 'h) message_queue \<Rightarrow> ('a, 'h) message_queue" where
  "mq_setSyncHandle f q = q\<lparr>syncHandle := Some f\<rparr>"

definition mq_sync :: "('a, 'h) message_queue \<Rightarrow> 'h \<Rightarrow> (('a, 'h) message_queue \<times> 'h) res" where
  "mq_sync q h =
     (case syncHandle q of
        None \<Rightarrow> Inl UninitCall
      | Some f \<Rightarrow> res_bind (f (queue q) h) (\<lambda>(qs, h'). Inr (q\<lparr>queue := qs\<rparr>, h')))"

lemmas mq_ops = mq_push_def mq_pop_def mq_gotoWork_def mq_backWork_def mq_sync_def
  mq_setReleaseCallBack_def mq_setSyncHandle_def mq_size_def mq_empty_def call_release_def

section \<open>A working queue is first-in first-out\<close>

text \<open>While \<open>state\<close> is set, \<open>push\<close> appends and \<open>pop\<close> removes the oldest element or waits.\<close>

definition mq_enq :: "'a \<Rightarrow> ('a, 'h) message_queue \<times> 'h \<Rightarrow> ('a, 'h) message_queue \<times> 'h" where
  "mq_enq v s = (case mq_push v (fst s) (snd s) of Inl _ \<Rightarrow> s | Inr s' \<Rightarrow> s')"

definition mq_deq :: "'a \<Rightarrow> ('a, 'h) message_queue \<times> 'h \<Rightarrow> ('a \<times> ('a, 'h) message_queue \<times> 'h) option" where
  "mq_deq d s = (case mq_pop d (fst s) of
     (Ret r v, q) \<Rightarrow> (if r = 1 then Some (v, q, snd s) else None) | (Wait, q) \<Rightarrow> None)"

interpretation mqf: fifo "\<lambda>s. state (fst s)" "\<lambda>s. queue (fst s)" mq_enq "mq_deq d" for d
proof unfold_locales
  fix s :: "('a, 'h) message_queue \<times> 'h" and v vs
  show "queue (fst (mq_enq v s)) = queue (fst s) @ [v]" if "state (fst s)"
    using that by (simp add: mq_enq_def mq_push_def)
  show "state (fst (mq_enq v s))" if "state (fst s)"
    using that by (simp add: mq_enq_def mq_push_def)
  show "mq_deq d s = None" if "state (fst s)" "queue (fst s) = []"
    using that by (simp add: mq_deq_def mq_pop_def)
  show "\<exists>s'. mq_deq d s = Some (v, s') \<and> queue (fst s') = vs \<and> state (fst s')"
    if "state (fst s)" "queue (fst s) = v # vs"
    using that by (simp add: mq_deq_def mq_pop_def)
qed

section \<open>Clearing and stopping\<close>

lemma clear_loop_Inr_fold:
  "(\<And>v h. v \<in> set vs \<Longrightarrow> \<exists>h'. f v h = Inr h') \<Longrightarrow> \<exists>h'. clear_loop f vs h = Inr h'"
proof (induction vs arbitrary: h)
  case Nil
  then show ?case by simp
next
  case (Cons v vs)
  then obtain h1 where "f v h = Inr h1" by (metis list.set_intros(1))
  moreover obtain h2 where "clear_loop f vs h1 = Inr h2"
    using Cons.IH [of h1] Cons.prems by auto
  ultimately show ?case by simp
qed

text \<open>Clearing with \<open>pool_free\<close> frees exactly the queued pointers, each once.\<close>

lemma clear_loop_pool:
  "set ps \<subseteq> P \<Longrightarrow> distinct ps \<Longrightarrow> 0 \<notin> set ps \<Longrightarrow> clear_loop pool_free ps P = Inr (P - set ps)"
proof (induction ps arbitrary: P)
  case Nil
  then show ?case by simp
next
  case (Cons p ps)
  then have "clear_loop pool_free ps (P - {p}) = Inr (P - {p} - set ps)"
    by (intro Cons.IH) auto
  moreover have "P - {p} - set ps = P - set (p # ps)" by auto
  ultimately show ?case using Cons.prems by (simp add: pool_free_live)
qed

lemma clear_loop_pool_duplicate:
  "p \<noteq> 0 \<Longrightarrow> clear_loop pool_free [p, p] P = Inl DoubleFree"
  by (simp add: pool_free_def)

section \<open>The monitor: waiting threads and wake-ups\<close>

text \<open>
  \<open>waiting\<close>: threads blocked in \<open>pthread_cond_wait\<close>; \<open>woken\<close>: threads that were unblocked and
  have to take the mutex and test the loop condition again. \<open>got\<close> records what each finished
  \<open>pop\<close> returned. \<open>pthread_cond_signal\<close> unblocks one waiting thread when there is one; a
  spurious wake-up unblocks a waiting thread at any time.
\<close>

record ('a, 'h) monitor =
  mq :: "('a, 'h) message_queue"
  heap :: 'h
  waiting :: "nat set"
  woken :: "nat set"
  got :: "(nat \<times> int) list"

inductive cond_signal :: "nat set \<Rightarrow> nat set \<Rightarrow> nat set \<Rightarrow> nat set \<Rightarrow> bool" where
  nobody: "cond_signal {} K {} K"
| wake_one: "t \<in> W \<Longrightarrow> cond_signal W K (W - {t}) (insert t K)"

inductive_cases cond_signal_elim: "cond_signal W K W' K'"

text \<open>\<open>pop\<close> by thread \<open>t\<close> from its loop test on; \<open>v\<close> is the caller's variable.\<close>

definition pop_section :: "nat \<Rightarrow> 'a \<Rightarrow> ('a, 'h) monitor \<Rightarrow> ('a, 'h) monitor" where
  "pop_section t v m =
     (case mq_pop v (mq m) of
        (Wait, q) \<Rightarrow> m\<lparr>mq := q, waiting := insert t (waiting m), woken := woken m - {t}\<rparr>
      | (Ret r _, q) \<Rightarrow> m\<lparr>mq := q, woken := woken m - {t}, got := got m @ [(t, r)]\<rparr>)"

inductive monitor_step :: "('a, 'h) monitor \<Rightarrow> ('a, 'h) monitor \<Rightarrow> bool" where
  push_working: "state (mq m) \<Longrightarrow> mq_push v (mq m) (heap m) = Inr (q, h) \<Longrightarrow>
     cond_signal (waiting m) (woken m) W K \<Longrightarrow>
     monitor_step m (m\<lparr>mq := q, heap := h, waiting := W, woken := K\<rparr>)"
| push_stopped: "\<not> state (mq m) \<Longrightarrow> mq_push v (mq m) (heap m) = Inr (q, h) \<Longrightarrow>
     monitor_step m (m\<lparr>mq := q, heap := h\<rparr>)"
| pop_enter: "t \<notin> waiting m \<Longrightarrow> t \<notin> woken m \<Longrightarrow> monitor_step m (pop_section t v m)"
| pop_resume: "t \<in> woken m \<Longrightarrow> monitor_step m (pop_section t v m)"
| spurious: "t \<in> waiting m \<Longrightarrow>
     monitor_step m (m\<lparr>waiting := waiting m - {t}, woken := insert t (woken m)\<rparr>)"
| gotoWork: "cond_signal (waiting m) (woken m) W K \<Longrightarrow>
     monitor_step m (m\<lparr>mq := mq_gotoWork (mq m), waiting := W, woken := K\<rparr>)"
| backWork: "cond_signal (waiting m) (woken m) W K \<Longrightarrow>
     monitor_step m (m\<lparr>mq := mq_backWork (mq m), waiting := W, woken := K\<rparr>)"
| sync: "mq_sync (mq m) (heap m) = Inr (q, h) \<Longrightarrow> monitor_step m (m\<lparr>mq := q, heap := h\<rparr>)"
| clear: "mq_clear (mq m) (heap m) = Inr (q, h) \<Longrightarrow> monitor_step m (m\<lparr>mq := q, heap := h\<rparr>)"

text \<open>A monitor nobody has entered yet.\<close>

definition monitor_idle :: "('a, 'h) monitor \<Rightarrow> bool" where
  "monitor_idle m \<longleftrightarrow> waiting m = {} \<and> woken m = {}"

text \<open>Steps in which only one thread, \<open>c\<close>, ever calls \<open>pop\<close>.\<close>

definition single_step :: "nat \<Rightarrow> ('a, 'h) monitor \<Rightarrow> ('a, 'h) monitor \<Rightarrow> bool" where
  "single_step c m m' \<longleftrightarrow> monitor_step m m' \<and> waiting m' \<union> woken m' \<subseteq> {c}"

text \<open>A sync handle only removes elements, so it cannot put work in front of a sleeper.\<close>

definition sync_shrinks :: "('a, 'h) message_queue \<Rightarrow> bool" where
  "sync_shrinks q \<longleftrightarrow>
     (\<forall>f h qs h'. syncHandle q = Some f \<longrightarrow> f [] h = Inr (qs, h') \<longrightarrow> qs = [])"

definition no_lost_wakeup :: "nat \<Rightarrow> ('a, 'h) monitor \<Rightarrow> bool" where
  "no_lost_wakeup c m \<longleftrightarrow>
     waiting m \<union> woken m \<subseteq> {c} \<and> sync_shrinks (mq m) \<and>
     (waiting m \<noteq> {} \<longrightarrow> state (mq m) \<and> queue (mq m) = [])"

lemma cond_signal_single:
  "cond_signal W K W' K' \<Longrightarrow> W \<subseteq> {c} \<Longrightarrow> W' = {}"
  by (auto elim: cond_signal_elim)

lemma pop_section_waits:
  "waiting (pop_section t v m) \<noteq> {} \<Longrightarrow> waiting m = {} \<Longrightarrow>
     state (mq m) \<and> queue (mq m) = [] \<and> mq (pop_section t v m) = mq m"
  by (auto simp: pop_section_def mq_pop_def split: list.splits if_splits)

lemma sync_shrinks_cong: "syncHandle q' = syncHandle q \<Longrightarrow> sync_shrinks q' = sync_shrinks q"
  by (simp add: sync_shrinks_def)

lemma pop_section_handle: "syncHandle (mq (pop_section t v m)) = syncHandle (mq m)"
  by (auto simp: pop_section_def mq_pop_def split: list.splits)

lemma pop_section_unchanged:
  "queue (mq m) = [] \<Longrightarrow> mq (pop_section t v m) = mq m"
  by (auto simp: pop_section_def mq_pop_def)

lemma pop_section_wait_inv:
  assumes "waiting m \<noteq> {} \<longrightarrow> state (mq m) \<and> queue (mq m) = []"
    and "waiting (pop_section t v m) \<noteq> {}"
  shows "state (mq (pop_section t v m)) \<and> queue (mq (pop_section t v m)) = []"
proof (cases "waiting m = {}")
  case True
  then show ?thesis using pop_section_waits [OF assms(2)] by simp
next
  case False
  then show ?thesis using assms(1) pop_section_unchanged [of m t v] by simp
qed

lemma mq_sync_same: "mq_sync q h = Inr (q', h') \<Longrightarrow> state q' = state q \<and> syncHandle q' = syncHandle q"
  by (auto simp: mq_sync_def res_simps split: option.splits)

lemma sync_keeps_empty:
  "sync_shrinks q \<Longrightarrow> mq_sync q h = Inr (q', h') \<Longrightarrow> queue q = [] \<Longrightarrow> queue q' = []"
  by (fastforce simp: mq_sync_def sync_shrinks_def res_simps split: option.splits)

lemma single_step_no_lost_wakeup:
  assumes inv: "no_lost_wakeup c m" and step: "single_step c m m'"
  shows "no_lost_wakeup c m'"
proof -
  have W: "waiting m \<subseteq> {c}"
    and sh: "sync_shrinks (mq m)"
    and E: "waiting m \<noteq> {} \<longrightarrow> state (mq m) \<and> queue (mq m) = []"
    using inv by (auto simp: no_lost_wakeup_def)
  have m': "monitor_step m m'" and sub: "waiting m' \<union> woken m' \<subseteq> {c}"
    using step by (auto simp: single_step_def)
  from m' have "syncHandle (mq m') = syncHandle (mq m) \<and>
      (waiting m' \<noteq> {} \<longrightarrow> state (mq m') \<and> queue (mq m') = [])"
  proof cases
    case (push_working v q h W' K)
    then show ?thesis using cond_signal_single [OF push_working(4) W] by (auto simp: mq_push_def)
  next
    case (push_stopped v q h)
    then show ?thesis using E by (auto simp: mq_push_def res_simps)
  next
    case (pop_enter t v)
    then show ?thesis using pop_section_wait_inv [OF E] by (simp add: pop_section_handle)
  next
    case (pop_resume t v)
    then show ?thesis using pop_section_wait_inv [OF E] by (simp add: pop_section_handle)
  next
    case (spurious t)
    then show ?thesis using E W by auto
  next
    case (gotoWork W' K)
    then show ?thesis using cond_signal_single [OF gotoWork(2) W] by (auto simp: mq_gotoWork_def)
  next
    case (backWork W' K)
    then show ?thesis using cond_signal_single [OF backWork(2) W] by (auto simp: mq_backWork_def)
  next
    case (sync q h)
    then show ?thesis using E sync_keeps_empty [OF sh] by (auto simp: mq_sync_same)
  next
    case (clear q h)
    then show ?thesis using E by (auto simp: mq_clear_def res_simps)
  qed
  moreover from this have "sync_shrinks (mq m')" using sh sync_shrinks_cong by blast
  ultimately show ?thesis using sub by (simp add: no_lost_wakeup_def)
qed

interpretation mon: step_invariant
  "\<lambda>m. monitor_idle m \<and> sync_shrinks (mq m)" "single_step c" "no_lost_wakeup c" for c
proof unfold_locales
  show "no_lost_wakeup c m" if "monitor_idle m \<and> sync_shrinks (mq m)" for m :: "('a, 'b) monitor"
    using that by (simp add: monitor_idle_def no_lost_wakeup_def)
qed (rule single_step_no_lost_wakeup)

section \<open>Properties of the queue\<close>

text \<open>C9: While the queue is working, any sequence of pushes and pops delivers the pushed values in
  order: the values popped followed by what is still queued are exactly the initial contents
  followed by the values pushed, with nothing lost, duplicated or reordered.\<close>

theorem mq_fifo:
  assumes "state q"
    and "fifo_run mq_enq (mq_deq d) ops (q, h) = (out, (q', h'))"
  shows "out @ queue q' = queue q @ enqueued ops \<and> state q'"
  using mqf.run_conserves [of "(q, h)" d ops out "(q', h')"] assms by simp

definition demo_queue :: "(nat, unit) message_queue" where
  "demo_queue = mq_gotoWork message_queue_init"

theorem mq_fifo_witness:
  "state demo_queue \<and>
   [7, 8] @ queue (demo_queue\<lparr>queue := [9]\<rparr>) = queue demo_queue @ enqueued [Enq 7, Deq, Deq, Enq 8, Enq 9, Deq]"
proof -
  have st: "state demo_queue"
    by (simp add: demo_queue_def mq_gotoWork_def)
  have run: "fifo_run mq_enq (mq_deq 0) [Enq 7, Deq, Deq, Enq 8, Enq 9, Deq] (demo_queue, ()) =
      ([7, 8], (demo_queue\<lparr>queue := [9]\<rparr>, ()))"
    by (simp add: demo_queue_def message_queue_init_def mq_enq_def mq_deq_def mq_ops)
  from mq_fifo [OF st run] st show ?thesis by simp
qed

text \<open>C10: No wake-up is lost for a single consumer: in every reachable state of the monitor, for any
  interleaving of pushes, \<open>gotoWork\<close>, \<open>backWork\<close>, \<open>sync\<close>, \<open>clear\<close> and spurious wake-ups, the
  consumer is blocked in \<open>pthread_cond_wait\<close> only while the queue is working and empty. In
  particular it is not blocked once \<open>backWork\<close> has run.\<close>

theorem mq_no_lost_wakeup:
  assumes "monitor_idle m0" and "sync_shrinks (mq m0)"
    and "rtranclp (single_step c) m0 m" and "waiting m \<noteq> {}"
  shows "waiting m = {c} \<and> state (mq m) \<and> queue (mq m) = []"
proof -
  have "no_lost_wakeup c m"
    using mon.reachable_inv [of m0 c m] assms(1-3) by simp
  with assms(4) show ?thesis by (auto simp: no_lost_wakeup_def)
qed

definition demo_monitor :: "(nat, unit) monitor" where
  "demo_monitor = \<lparr>mq = demo_queue, heap = (), waiting = {}, woken = {}, got = []\<rparr>"

lemma demo_monitor_waits: "monitor_step demo_monitor (demo_monitor\<lparr>waiting := {1}\<rparr>)"
proof -
  have "pop_section 1 0 demo_monitor = demo_monitor\<lparr>waiting := {1}\<rparr>"
    by (simp add: pop_section_def demo_monitor_def demo_queue_def message_queue_init_def mq_ops)
  moreover have "monitor_step demo_monitor (pop_section 1 0 demo_monitor)"
    by (rule monitor_step.pop_enter) (simp_all add: demo_monitor_def)
  ultimately show ?thesis by simp
qed

theorem mq_no_lost_wakeup_witness:
  "waiting (demo_monitor\<lparr>waiting := {1}\<rparr>) = {1} \<and> queue (mq (demo_monitor\<lparr>waiting := {1}\<rparr>)) = []"
proof -
  have idle: "monitor_idle demo_monitor" and sh: "sync_shrinks (mq demo_monitor)"
    by (simp_all add: monitor_idle_def sync_shrinks_def demo_monitor_def demo_queue_def
        message_queue_init_def mq_gotoWork_def)
  have "single_step 1 demo_monitor (demo_monitor\<lparr>waiting := {1}\<rparr>)"
    using demo_monitor_waits by (simp add: single_step_def demo_monitor_def)
  then have "rtranclp (single_step 1) demo_monitor (demo_monitor\<lparr>waiting := {1}\<rparr>)" by blast
  from mq_no_lost_wakeup [OF idle sh this] show ?thesis by simp
qed

text \<open>\<open>backWork\<close> signals one waiter, not all: with two threads inside \<open>pop\<close> there is a run of the
  monitor in which the queue has left the working state, no thread has been woken, and the second
  consumer is still blocked. The queue is safe for one consumer thread only.\<close>

lemma mq_backWork_strands_second_consumer:
  "\<exists>m. rtranclp monitor_step demo_monitor m \<and>
       \<not> state (mq m) \<and> woken m = {} \<and> waiting m = {2} \<and> got m = [(1, 0)]"
proof -
  define m1 where "m1 = demo_monitor\<lparr>waiting := {1}\<rparr>"
  define m2 where "m2 = demo_monitor\<lparr>waiting := {2, 1}\<rparr>"
  define m3 where "m3 = demo_monitor\<lparr>mq := mq_backWork demo_queue, waiting := {2}, woken := {1}\<rparr>"
  define m4 where "m4 = demo_monitor\<lparr>mq := mq_backWork demo_queue, waiting := {2}, got := [(1, 0)]\<rparr>"
  have "monitor_step demo_monitor m1" unfolding m1_def by (rule demo_monitor_waits)
  moreover have "monitor_step m1 m2"
  proof -
    have "pop_section 2 0 m1 = m2"
      by (simp add: pop_section_def m1_def m2_def demo_monitor_def demo_queue_def
          message_queue_init_def mq_ops)
    moreover have "monitor_step m1 (pop_section 2 0 m1)"
      by (rule monitor_step.pop_enter) (simp_all add: m1_def demo_monitor_def)
    ultimately show ?thesis by simp
  qed
  moreover have "monitor_step m2 m3"
  proof -
    have "cond_signal (waiting m2) (woken m2) ({2, 1} - {1}) (insert 1 {})"
      unfolding m2_def by (simp add: demo_monitor_def) (rule cond_signal.wake_one, simp)
    moreover have "{2, 1} - {1} = {2 :: nat}" by auto
    ultimately have "cond_signal (waiting m2) (woken m2) {2} {1}" by simp
    from monitor_step.backWork [OF this] show ?thesis
      by (simp add: m2_def m3_def demo_monitor_def)
  qed
  moreover have "monitor_step m3 m4"
  proof -
    have "pop_section 1 0 m3 = m4"
      by (simp add: pop_section_def m3_def m4_def demo_monitor_def demo_queue_def
          message_queue_init_def mq_ops)
    moreover have "monitor_step m3 (pop_section 1 0 m3)"
      by (rule monitor_step.pop_resume) (simp add: m3_def)
    ultimately show ?thesis by simp
  qed
  ultimately have "rtranclp monitor_step demo_monitor m4"
    by (meson converse_rtranclp_into_rtranclp rtranclp.rtrancl_refl)
  then show ?thesis
    by (intro exI [of _ m4]) (simp add: m4_def demo_monitor_def mq_backWork_def)
qed

end
