(* ===== verification/Av_Channel.thy ===== *)
theory Av_Channel
  imports Message_Queue Complex_Main
begin

text \<open>
  \<open>BaseChannel\<close> (\<open>player/BaseChannel.h\<close>, \<open>.cpp\<close>): the state an audio and a video channel share,
  the release helpers that the queues use as callbacks, construction and destruction. Packets and
  frames are FFmpeg objects; each kind has a pool of the objects the program holds. Doubles are
  exact rationals here: rounding is not modelled.
\<close>

section \<open>Releasing packets and frames\<close>

text \<open>
  \<open>releaseAvFrame(AVFrame *&frame)\<close>: free the frame if there is one and null the caller's
  variable. The result is the new value of the variable and the pool.
\<close>

definition releaseAvFrame :: "ptr \<Rightarrow> pool \<Rightarrow> (ptr \<times> pool) res" where
  "releaseAvFrame frame P =
     (if frame \<noteq> null then res_bind (pool_free frame P) (\<lambda>P'. Inr (null, P')) else Inr (frame, P))"

definition releaseAvPacket :: "ptr \<Rightarrow> pool \<Rightarrow> (ptr \<times> pool) res" where
  "releaseAvPacket packet P =
     (if packet \<noteq> null then res_bind (pool_free packet P) (\<lambda>P'. Inr (null, P')) else Inr (packet, P))"

text \<open>The same functions as queue callbacks: the queue passes its element by reference.\<close>

definition frame_cb :: "ptr \<Rightarrow> pool \<Rightarrow> pool res" where
  "frame_cb v P = res_bind (releaseAvFrame v P) (\<lambda>(_, P'). Inr P')"

definition packet_cb :: "ptr \<Rightarrow> pool \<Rightarrow> pool res" where
  "packet_cb v P = res_bind (releaseAvPacket v P) (\<lambda>(_, P'). Inr P')"

lemma release_eq_pool_free:
  "releaseAvFrame p P = res_bind (pool_free p P) (\<lambda>P'. Inr (null, P'))"
  "releaseAvPacket p P = res_bind (pool_free p P) (\<lambda>P'. Inr (null, P'))"
  by (auto simp: releaseAvFrame_def releaseAvPacket_def pool_free_def)

lemma cb_eq_pool_free [simp]: "frame_cb = pool_free" "packet_cb = pool_free"
  by (auto simp: fun_eq_iff frame_cb_def packet_cb_def release_eq_pool_free pool_free_def)

section \<open>The channel\<close>

type_synonym av_queue = "(ptr, pool) message_queue"

record chan =
  chan_id :: int
  mAvCodecContext :: ptr
  time_base_num :: int
  time_base_den :: int
  packets :: av_queue
  frames :: av_queue
  isPlaying :: bool
  audioTime :: rat
  videoTime :: rat

definition BaseChannel :: "int \<Rightarrow> ptr \<Rightarrow> int \<Rightarrow> int \<Rightarrow> chan" where
  "BaseChannel i ctx num den =
     \<lparr>chan_id = i, mAvCodecContext = ctx, time_base_num = num, time_base_den = den,
      packets = mq_setReleaseCallBack packet_cb message_queue_init,
      frames = mq_setReleaseCallBack frame_cb message_queue_init,
      isPlaying = False, audioTime = 0, videoTime = 0\<rparr>"

text \<open>
  The destructor clears both queues and closes the codec context. Result: the channel, the packet
  pool and the frame pool.
\<close>

definition BaseChannel_dtor :: "chan \<Rightarrow> pool \<Rightarrow> pool \<Rightarrow> (chan \<times> pool \<times> pool) res" where
  "BaseChannel_dtor c PP FP =
     res_bind (mq_clear (frames c) FP) (\<lambda>(fq, FP').
     res_bind (mq_clear (packets c) PP) (\<lambda>(pq, PP').
       Inr (c\<lparr>frames := fq, packets := pq, mAvCodecContext := null\<rparr>, PP', FP')))"

text \<open>\<open>av_q2d(time_base)\<close> times a timestamp, in seconds.\<close>

definition stream_seconds :: "chan \<Rightarrow> int \<Rightarrow> rat" where
  "stream_seconds c ts = of_int ts * (of_int (time_base_num c) / of_int (time_base_den c))"

section \<open>Queues that own what they hold\<close>

text \<open>
  A queue owns pointers of a pool: its elements are distinct live objects, and its release
  callback is the pool's free function.
\<close>

definition owns :: "av_queue \<Rightarrow> pool \<Rightarrow> bool" where
  "owns q P \<longleftrightarrow> distinct (queue q) \<and> 0 \<notin> set (queue q) \<and> set (queue q) \<subseteq> P \<and>
     releaseCallBack q = Some pool_free"

lemma owns_push_working:
  "owns q P \<Longrightarrow> state q \<Longrightarrow> p \<noteq> 0 \<Longrightarrow> p \<in> P \<Longrightarrow> p \<notin> set (queue q) \<Longrightarrow>
     mq_push p q P = Inr (q\<lparr>queue := queue q @ [p]\<rparr>, P) \<and> owns (q\<lparr>queue := queue q @ [p]\<rparr>) P"
  by (auto simp: owns_def mq_push_def)

lemma owns_push_stopped:
  "owns q P \<Longrightarrow> \<not> state q \<Longrightarrow> p \<noteq> 0 \<Longrightarrow> p \<in> P \<Longrightarrow> p \<notin> set (queue q) \<Longrightarrow>
     mq_push p q P = Inr (q, P - {p}) \<and> owns q (P - {p})"
  by (auto simp: owns_def mq_push_def call_release_def pool_free_def)

text \<open>A push never faults; the object is queued, or freed when the queue is stopped.\<close>

lemma owns_push:
  assumes "owns q P" and "p \<noteq> 0" and "p \<in> P" and "p \<notin> set (queue q)"
  shows "\<exists>q' P'. mq_push p q P = Inr (q', P') \<and> owns q' P' \<and> state q' = state q \<and>
    syncHandle q' = syncHandle q \<and> P' - set (queue q') = P - {p} - set (queue q) \<and>
    (if state q then P' = P \<and> set (queue q') = insert p (set (queue q))
     else P' = P - {p} \<and> q' = q)"
  using owns_push_working [OF assms(1) _ assms(2-4)] owns_push_stopped [OF assms(1) _ assms(2-4)]
  by (cases "state q") auto

lemma owns_pop:
  assumes "owns q P" and "mq_pop v q = (Ret r p, q')"
  shows "owns q' P \<and> state q' = state q \<and> syncHandle q' = syncHandle q \<and>
    (r = 1 \<and> p \<noteq> 0 \<and> p \<in> P \<and> p \<notin> set (queue q') \<and> set (queue q) = insert p (set (queue q')) \<or>
     r = 0 \<and> p = v \<and> q' = q \<and> \<not> state q \<and> queue q = [])"
  using assms by (auto simp: owns_def mq_pop_def split: list.splits if_splits)

lemma owns_subset: "owns q P \<Longrightarrow> set (queue q) \<subseteq> P' \<Longrightarrow> owns q P'"
  by (auto simp: owns_def)

lemma owns_clear:
  "owns q P \<Longrightarrow> mq_clear q P = Inr (q\<lparr>queue := []\<rparr>, P - set (queue q))"
  by (simp add: owns_def mq_clear_def call_release_def [abs_def] clear_loop_pool)

lemma owns_states [simp]:
  "owns (mq_gotoWork q) P = owns q P" "owns (mq_backWork q) P = owns q P"
  "queue (mq_gotoWork q) = queue q" "queue (mq_backWork q) = queue q"
  "state (mq_gotoWork q)" "\<not> state (mq_backWork q)"
  "syncHandle (mq_gotoWork q) = syncHandle q" "syncHandle (mq_backWork q) = syncHandle q"
  by (auto simp: owns_def mq_gotoWork_def mq_backWork_def)

text \<open>Destruction frees every queued packet and frame, each exactly once.\<close>

lemma BaseChannel_dtor_ok:
  "owns (packets c) PP \<Longrightarrow> owns (frames c) FP \<Longrightarrow>
   \<exists>c'. BaseChannel_dtor c PP FP = Inr (c', PP - set (queue (packets c)), FP - set (queue (frames c))) \<and>
     queue (packets c') = [] \<and> queue (frames c') = [] \<and> mAvCodecContext c' = null"
  by (simp add: BaseChannel_dtor_def owns_clear)

lemma BaseChannel_owns:
  "owns (packets (BaseChannel i ctx num den)) {}" "owns (frames (BaseChannel i ctx num den)) {}"
  by (simp_all add: BaseChannel_def owns_def mq_setReleaseCallBack_def message_queue_init_def)

section \<open>Objects in a queue and in hand\<close>

text \<open>
  \<open>held q P X\<close>: the live objects are exactly the queued ones and those in \<open>X\<close>, the objects the
  threads hold in local variables; nothing is in both places and nothing leaks.
\<close>

definition held :: "av_queue \<Rightarrow> pool \<Rightarrow> pool \<Rightarrow> bool" where
  "held q P X \<longleftrightarrow> distinct (queue q) \<and> 0 \<notin> set (queue q) \<and> 0 \<notin> X \<and> set (queue q) \<inter> X = {} \<and>
     set (queue q) \<union> X = P \<and> releaseCallBack q = Some pool_free"

lemma held_owns: "held q P X \<Longrightarrow> owns q P"
  by (auto simp: held_def owns_def)

lemma held_iff_owns: "held q P X \<longleftrightarrow> owns q P \<and> 0 \<notin> X \<and> X = P - set (queue q)"
  by (auto simp: held_def owns_def)

lemma held_fresh: "held q P X \<Longrightarrow> p \<noteq> 0 \<Longrightarrow> p \<notin> P \<Longrightarrow> held q (insert p P) (insert p X)"
  by (auto simp: held_def)

lemma held_push:
  assumes h: "held q P X" and p: "p \<in> X"
  obtains q' P' where "mq_push p q P = Inr (q', P')" "held q' P' (X - {p})" "state q' = state q"
proof -
  have o: "owns q P" "p \<noteq> 0" "p \<in> P" "p \<notin> set (queue q)" and X: "X = P - set (queue q)" "0 \<notin> X"
    using h p by (auto simp: held_iff_owns)
  from owns_push [OF o] obtain q' P' where q': "mq_push p q P = Inr (q', P')" "owns q' P'"
      "state q' = state q" "P' - set (queue q') = P - {p} - set (queue q)"
    by blast
  have "X - {p} = P' - set (queue q')" using X q'(4) by auto
  moreover have "0 \<notin> X - {p}" using X(2) by simp
  ultimately have "held q' P' (X - {p})" using q'(2) by (simp only: held_iff_owns simp_thms)
  then show thesis using that q' by blast
qed

lemma held_pop:
  assumes h: "held q P X" and pop: "mq_pop v q = (Ret r p, q')"
  shows "state q' = state q \<and>
    (r = 1 \<and> p \<noteq> 0 \<and> p \<notin> X \<and> held q' P (insert p X) \<or> r = 0 \<and> p = v \<and> q' = q \<and> \<not> state q)"
  using owns_pop [OF held_owns [OF h] pop] h by (auto simp: held_iff_owns)

lemma held_free: "held q P X \<Longrightarrow> p \<in> X \<Longrightarrow> pool_free p P = Inr (P - {p}) \<and> held q (P - {p}) (X - {p})"
  by (auto simp: held_def pool_free_def)

lemma held_release:
  "held q P X \<Longrightarrow> p \<in> X \<Longrightarrow> releaseAvFrame p P = Inr (null, P - {p}) \<and> held q (P - {p}) (X - {p})"
  "held q P X \<Longrightarrow> p \<in> X \<Longrightarrow> releaseAvPacket p P = Inr (null, P - {p}) \<and> held q (P - {p}) (X - {p})"
  by (simp_all add: release_eq_pool_free held_free)

lemma release_null [simp]: "releaseAvFrame 0 P = Inr (0, P)" "releaseAvPacket 0 P = Inr (0, P)"
  by (simp_all add: releaseAvFrame_def releaseAvPacket_def)

text \<open>Releasing a variable that is null or holds one of the objects in hand.\<close>

lemma held_release_var:
  assumes "held q P X" and "p = 0 \<or> p \<in> X"
  shows "\<exists>P'. releaseAvFrame p P = Inr (0, P') \<and> held q P' (X - {p})"
    and "\<exists>P'. releaseAvPacket p P = Inr (0, P') \<and> held q P' (X - {p})"
proof -
  have "0 \<notin> X" using assms(1) by (simp add: held_def)
  then have "p = 0 \<Longrightarrow> X - {p} = X" by auto
  then show "\<exists>P'. releaseAvFrame p P = Inr (0, P') \<and> held q P' (X - {p})"
    and "\<exists>P'. releaseAvPacket p P = Inr (0, P') \<and> held q P' (X - {p})"
    using assms held_release [OF assms(1)] by (cases "p = 0"; auto)+
qed

lemma held_release_own:
  assumes "held q P ({p} - {0})"
  shows "\<exists>P'. releaseAvPacket p P = Inr (0, P') \<and> held q P' {}"
  using assms held_release(2) [OF assms, of p] by (cases "p = 0") auto

lemma held_zero: "held q P X \<Longrightarrow> 0 \<notin> X"
  by (simp add: held_def)

lemma held_sync [simp]: "held (mq_setSyncHandle f q) P X = held q P X"
  by (simp add: held_def mq_setSyncHandle_def)

lemma held_states [simp]:
  "held (mq_gotoWork q) P X = held q P X" "held (mq_backWork q) P X = held q P X"
  by (simp_all add: held_iff_owns)

lemma held_dtor:
  assumes "held (packets c) PP X" "held (frames c) FP Y"
  shows "\<exists>c'. BaseChannel_dtor c PP FP = Inr (c', X, Y) \<and>
    queue (packets c') = [] \<and> queue (frames c') = [] \<and> mAvCodecContext c' = null"
  using BaseChannel_dtor_ok [OF held_owns [OF assms(1)] held_owns [OF assms(2)]] assms
  by (simp add: held_iff_owns)

lemma BaseChannel_held:
  "held (packets (BaseChannel i ctx num den)) {} {}" "held (frames (BaseChannel i ctx num den)) {} {}"
  using BaseChannel_owns [of i ctx num den]
  by (simp_all add: held_iff_owns BaseChannel_def mq_setReleaseCallBack_def message_queue_init_def)

end
