(* ===== verification/Audio_Channel.thy ===== *)
theory Audio_Channel
  imports Av_Channel
begin

text \<open>
  \<open>AudioChannel\<close> (\<open>player/AudioChannel.cpp\<close>): the decode thread, the OpenSL ES callback that
  fetches PCM data, \<open>start\<close> and \<open>stop\<close>, and the interleaving of all of them with the
  demultiplexer that pushes packets. Every step is one access to the shared queues or flags; the
  answers of FFmpeg (\<open>avcodec_send_packet\<close>, \<open>avcodec_receive_frame\<close>, \<open>swr_convert\<close>, ...) are
  arguments of the steps and may be anything.
\<close>

section \<open>Resampling one frame\<close>

abbreviation (input) AVERROR_EAGAIN :: int where "AVERROR_EAGAIN \<equiv> - 11"
abbreviation (input) AVERROR_EINVAL :: int where "AVERROR_EINVAL \<equiv> - 22"
abbreviation (input) AVERROR_EOF :: int where "AVERROR_EOF \<equiv> - 541478725"
abbreviation (input) AVERROR_INPUT_CHANGED :: int where "AVERROR_INPUT_CHANGED \<equiv> - 1668179713"

text \<open>The constants the constructor sets: stereo, 16 bit, 44100 Hz, one second of buffer.\<close>

abbreviation (input) out_channels :: int where "out_channels \<equiv> 2"
abbreviation (input) out_sample_size :: int where "out_sample_size \<equiv> 2"
abbreviation (input) out_sample_rate :: int where "out_sample_rate \<equiv> 44100"

definition out_buffers_size :: int where
  "out_buffers_size = out_sample_rate * out_sample_size * out_channels"

text \<open>The fields of the popped \<open>AVFrame\<close> that \<open>getPcm\<close> reads.\<close>

record frame_info =
  sample_rate :: int
  nb_samples :: int
  best_effort_timestamp :: int

text \<open>The resampler: \<open>swr_get_delay\<close>, \<open>av_rescale_rnd(.., AV_ROUND_UP)\<close> and \<open>swr_convert\<close>.\<close>

record swr_api =
  swr_get_delay :: "int \<Rightarrow> int"
  av_rescale_rnd :: "int \<Rightarrow> int \<Rightarrow> int \<Rightarrow> int"
  swr_convert :: "int \<Rightarrow> int \<Rightarrow> int"

definition to_i32 :: "int \<Rightarrow> int" where
  "to_i32 x = (x + 2147483648) mod 4294967296 - 2147483648"

text \<open>
  Lines 237 to 259: the sample count given to \<open>swr_convert\<close> as the capacity of the output buffer,
  and the number of PCM bytes that come out.
\<close>

definition max_samples :: "swr_api \<Rightarrow> frame_info \<Rightarrow> int" where
  "max_samples A f =
     to_i32 (av_rescale_rnd A (swr_get_delay A (sample_rate f) + nb_samples f) out_sample_rate (sample_rate f))"

definition pcm_data_size :: "swr_api \<Rightarrow> frame_info \<Rightarrow> int res" where
  "pcm_data_size A f =
     res_bind (c_mul (swr_convert A (max_samples A f) (nb_samples f)) out_sample_size) (\<lambda>n.
       c_mul n out_channels)"

section \<open>Threads and shared state\<close>

text \<open>The decode thread, by the line it is about to execute.\<close>

datatype audio_decode_pc =
    ADLoop            \<comment> \<open>118: \<open>while (isPlaying)\<close>\<close>
  | ADFull            \<comment> \<open>119: \<open>if (isPlaying && frames.size() > 100)\<close>\<close>
  | ADPop             \<comment> \<open>126: \<open>packets.pop(packet)\<close>\<close>
  | ADPopped int      \<comment> \<open>129: \<open>if (!isPlaying)\<close>, with \<open>ret\<close>\<close>
  | ADSend            \<comment> \<open>142: \<open>avcodec_send_packet\<close>\<close>
  | ADReceive         \<comment> \<open>151: \<open>av_frame_alloc\<close>, \<open>avcodec_receive_frame\<close>\<close>
  | ADPush ptr        \<comment> \<open>189: \<open>frames.push(frame)\<close>\<close>
  | ADExit            \<comment> \<open>192: \<open>releaseAvPacket(packet)\<close> after the loop\<close>
  | ADDone

text \<open>The thread that runs \<open>bqPlayerCallback\<close>.\<close>

datatype pcm_pc =
    PcmIdle
  | PcmPop            \<comment> \<open>226: \<open>frames.pop(frame)\<close>\<close>
  | PcmPopped int ptr \<comment> \<open>228: \<open>if (!isPlaying)\<close>, with \<open>ret\<close> and \<open>frame\<close>\<close>
  | PcmResample ptr   \<comment> \<open>237: \<open>frame->sample_rate\<close> and on\<close>

text \<open>\<open>AudioChannel::stop\<close>, by the last statement it has executed.\<close>

datatype stop_pc =
    NotStopped
  | StopFlag          \<comment> \<open>375: \<open>isPlaying = 0\<close>\<close>
  | StopPackets       \<comment> \<open>376: \<open>packets.backWork()\<close>\<close>
  | StopFrames        \<comment> \<open>377: \<open>frames.backWork()\<close>\<close>
  | StopJoined        \<comment> \<open>379: both \<open>pthread_join\<close>\<close>
  | StopSwrFreed      \<comment> \<open>383: \<open>swr_free\<close>\<close>
  | StopDone          \<comment> \<open>388: the player object is destroyed\<close>

text \<open>
  The play thread runs \<open>init_start\<close>, which calls the callback once; it returns afterwards, or
  before that call when OpenSL ES fails.
\<close>

datatype play_pc = InInitStart | PlayReturned | PlayFailed

record audio_sys =
  a_chan :: chan
  a_ppool :: pool
  a_fpool :: pool
  a_decode :: audio_decode_pc
  a_packet :: ptr
  a_pcm :: pcm_pc
  a_play :: play_pc
  a_swr :: bool
  a_stop :: stop_pc
  a_out :: "int list"

text \<open>
  \<open>a_swr\<close>: \<open>swrContext\<close> is not null; \<open>a_out\<close> records the sizes passed to \<open>Enqueue\<close>.
  After construction and \<open>start\<close>:
\<close>

definition audio_start :: "chan \<Rightarrow> chan" where
  "audio_start c = c\<lparr>isPlaying := True, packets := mq_gotoWork (packets c), frames := mq_gotoWork (frames c)\<rparr>"

definition audio_init :: "int \<Rightarrow> ptr \<Rightarrow> int \<Rightarrow> int \<Rightarrow> audio_sys" where
  "audio_init i ctx num den =
     \<lparr>a_chan = audio_start (BaseChannel i ctx num den), a_ppool = {}, a_fpool = {},
      a_decode = ADLoop, a_packet = null, a_pcm = PcmIdle, a_play = InInitStart,
      a_swr = True, a_stop = NotStopped, a_out = []\<rparr>"

section \<open>The decode thread\<close>

text \<open>
  One step of \<open>AudioChannel::decode\<close>; \<open>None\<close>: blocked in \<open>pop\<close>, or finished. \<open>sent\<close> and
  \<open>received\<close> are the answers of the decoder, \<open>f\<close> the frame \<open>av_frame_alloc\<close> returned.
\<close>

definition audio_decode_step :: "int \<Rightarrow> int \<Rightarrow> ptr \<Rightarrow> audio_sys \<Rightarrow> audio_sys res option" where
  "audio_decode_step sent received f s =
     (let c = a_chan s in
      case a_decode s of
        ADLoop \<Rightarrow> Some (Inr (s\<lparr>a_decode := if isPlaying c then ADFull else ADExit\<rparr>))
      | ADFull \<Rightarrow> Some (Inr (s\<lparr>a_decode := if isPlaying c \<and> mq_size (frames c) > 100 then ADLoop else ADPop\<rparr>))
      | ADPop \<Rightarrow>
          (case mq_pop (a_packet s) (packets c) of
             (Wait, _) \<Rightarrow> None
           | (Ret r p, q) \<Rightarrow> Some (Inr (s\<lparr>a_chan := c\<lparr>packets := q\<rparr>, a_packet := p, a_decode := ADPopped r\<rparr>)))
      | ADPopped r \<Rightarrow>
          Some (Inr (s\<lparr>a_decode := if \<not> isPlaying c then ADExit else if r = 0 then ADLoop else ADSend\<rparr>))
      | ADSend \<Rightarrow>
          Some (res_bind (releaseAvPacket (a_packet s) (a_ppool s)) (\<lambda>(p, P).
            Inr (s\<lparr>a_packet := p, a_ppool := P, a_decode := if sent \<noteq> 0 then ADExit else ADReceive\<rparr>)))
      | ADReceive \<Rightarrow>
          (if f = null then Some (Inl NullDeref)
           else let s' = s\<lparr>a_fpool := insert f (a_fpool s)\<rparr> in
           if received = 0 then Some (Inr (s'\<lparr>a_decode := ADPush f\<rparr>))
           else Some (res_bind (releaseAvFrame f (a_fpool s')) (\<lambda>(_, P).
             Inr (s'\<lparr>a_fpool := P, a_decode :=
               if received \<in> {AVERROR_EAGAIN, AVERROR_EOF, AVERROR_EINVAL, AVERROR_INPUT_CHANGED}
               then ADLoop else ADExit\<rparr>))))
      | ADPush g \<Rightarrow>
          Some (res_bind (mq_push g (frames c) (a_fpool s)) (\<lambda>(q, P).
            Inr (s\<lparr>a_chan := c\<lparr>frames := q\<rparr>, a_fpool := P, a_decode := ADLoop\<rparr>)))
      | ADExit \<Rightarrow>
          Some (res_bind (releaseAvPacket (a_packet s) (a_ppool s)) (\<lambda>(p, P).
            Inr (s\<lparr>a_packet := p, a_ppool := P, a_decode := ADDone\<rparr>)))
      | ADDone \<Rightarrow> None)"

section \<open>The PCM callback\<close>

text \<open>
  One step of \<open>bqPlayerCallback\<close> and \<open>getPcm\<close>; \<open>info\<close> are the fields of the frame. A null frame
  is dereferenced at line 237, a null \<open>swrContext\<close> inside the resampler. The play thread makes the
  first call from \<open>init_start\<close>; from then on OpenSL ES calls again until the player is destroyed.
\<close>

definition audio_pcm_step :: "swr_api \<Rightarrow> (ptr \<Rightarrow> frame_info) \<Rightarrow> audio_sys \<Rightarrow> audio_sys res option" where
  "audio_pcm_step A info s =
     (let c = a_chan s in
      case a_pcm s of
        PcmIdle \<Rightarrow> if a_stop s = StopDone \<or> a_play s = PlayFailed then None else Some (Inr (s\<lparr>a_pcm := PcmPop\<rparr>))
      | PcmPop \<Rightarrow>
          (case mq_pop null (frames c) of
             (Wait, _) \<Rightarrow> None
           | (Ret r f, q) \<Rightarrow> Some (Inr (s\<lparr>a_chan := c\<lparr>frames := q\<rparr>, a_pcm := PcmPopped r f\<rparr>)))
      | PcmPopped r f \<Rightarrow>
          (if \<not> isPlaying c then
             (if r \<noteq> 0 then Some (res_bind (releaseAvFrame f (a_fpool s)) (\<lambda>(_, P).
                Inr (s\<lparr>a_fpool := P, a_pcm := PcmIdle, a_play := PlayReturned\<rparr>)))
              else Some (Inr (s\<lparr>a_pcm := PcmIdle, a_play := PlayReturned\<rparr>)))
           else Some (Inr (s\<lparr>a_pcm := PcmResample f\<rparr>)))
      | PcmResample f \<Rightarrow>
          (if f = null \<or> \<not> a_swr s then Some (Inl NullDeref)
           else Some (res_bind (pcm_data_size A (info f)) (\<lambda>n.
                res_bind (releaseAvFrame f (a_fpool s)) (\<lambda>(_, P).
                  Inr (s\<lparr>a_chan := c\<lparr>audioTime := stream_seconds c (best_effort_timestamp (info f))\<rparr>,
                         a_fpool := P, a_pcm := PcmIdle, a_play := PlayReturned,
                         a_out := a_out s @ (if n > 0 then [n] else [])\<rparr>))))))"

text \<open>\<open>init_start\<close> can also return before its call of the callback, when OpenSL ES fails.\<close>

definition audio_play_fails :: "audio_sys \<Rightarrow> audio_sys option" where
  "audio_play_fails s =
     (if a_play s = InInitStart \<and> a_pcm s = PcmIdle then Some (s\<lparr>a_play := PlayFailed\<rparr>) else None)"

section \<open>Stopping\<close>

text \<open>
  \<open>AudioChannel::stop\<close>, one statement per step: clear \<open>isPlaying\<close>, stop both queues, wait for the
  decode and the play thread (\<open>None\<close> while they run), free the resampler, destroy the player.
  \<open>Destroy\<close> returns when no callback is running, and no further one is made.
\<close>

definition audio_stop_step :: "audio_sys \<Rightarrow> audio_sys option" where
  "audio_stop_step s =
     (let c = a_chan s in
      case a_stop s of
        NotStopped \<Rightarrow> Some (s\<lparr>a_chan := c\<lparr>isPlaying := False\<rparr>, a_stop := StopFlag\<rparr>)
      | StopFlag \<Rightarrow> Some (s\<lparr>a_chan := c\<lparr>packets := mq_backWork (packets c)\<rparr>, a_stop := StopPackets\<rparr>)
      | StopPackets \<Rightarrow> Some (s\<lparr>a_chan := c\<lparr>frames := mq_backWork (frames c)\<rparr>, a_stop := StopFrames\<rparr>)
      | StopFrames \<Rightarrow> if a_decode s = ADDone \<and> a_play s \<noteq> InInitStart then Some (s\<lparr>a_stop := StopJoined\<rparr>) else None
      | StopJoined \<Rightarrow> Some (s\<lparr>a_swr := False, a_stop := StopSwrFreed\<rparr>)
      | StopSwrFreed \<Rightarrow> if a_pcm s = PcmIdle then Some (s\<lparr>a_stop := StopDone\<rparr>) else None
      | StopDone \<Rightarrow> None)"

section \<open>Everything together\<close>

text \<open>
  The demultiplexer hands over a packet it holds (not null and not otherwise in use).
  \<open>av_frame_alloc\<close> returns a frame that is not in use, or null when it fails: the pool never holds
  null, so \<open>f \<notin> a_fpool s\<close> allows both.
\<close>

inductive audio_step :: "audio_sys \<Rightarrow> audio_sys \<Rightarrow> bool" where
  demux: "p \<noteq> null \<Longrightarrow> p \<notin> a_ppool s \<Longrightarrow>
     mq_push p (packets (a_chan s)) (insert p (a_ppool s)) = Inr (q, P) \<Longrightarrow>
     audio_step s (s\<lparr>a_chan := (a_chan s)\<lparr>packets := q\<rparr>, a_ppool := P\<rparr>)"
| decode: "f \<notin> a_fpool s \<Longrightarrow> audio_decode_step sent received f s = Some (Inr s') \<Longrightarrow>
     audio_step s s'"
| pcm: "audio_pcm_step A info s = Some (Inr s') \<Longrightarrow> audio_step s s'"
| play_fails: "audio_play_fails s = Some s' \<Longrightarrow> audio_step s s'"
| stop: "audio_stop_step s = Some s' \<Longrightarrow> audio_step s s'"

text \<open>
  The invariant. Who holds what: each live packet is queued or in the decode thread's variable,
  each live frame is queued, about to be queued, or in the callback's hands. And a queue that
  has left the working state implies \<open>isPlaying\<close> is clear, because \<open>stop\<close> clears it first.
\<close>

definition decode_frame :: "audio_decode_pc \<Rightarrow> pool" where
  "decode_frame d = (case d of ADPush f \<Rightarrow> {f} | _ \<Rightarrow> {})"

definition pcm_frame :: "pcm_pc \<Rightarrow> pool" where
  "pcm_frame c = (case c of PcmPopped r f \<Rightarrow> if r = 0 then {} else {f} | PcmResample f \<Rightarrow> {f} | _ \<Rightarrow> {})"

lemma holder_simps [simp]:
  "decode_frame ADLoop = {}" "decode_frame ADFull = {}" "decode_frame ADPop = {}"
  "decode_frame (ADPopped r) = {}" "decode_frame ADSend = {}" "decode_frame ADReceive = {}"
  "decode_frame (ADPush f) = {f}" "decode_frame ADExit = {}" "decode_frame ADDone = {}"
  "pcm_frame PcmIdle = {}" "pcm_frame PcmPop = {}" "pcm_frame (PcmResample f) = {f}"
  "pcm_frame (PcmPopped r f) = (if r = 0 then {} else {f})"
  by (simp_all add: decode_frame_def pcm_frame_def)

definition audio_hands_ok :: "audio_sys \<Rightarrow> bool" where
  "audio_hands_ok s \<longleftrightarrow>
     held (packets (a_chan s)) (a_ppool s) ({a_packet s} - {0}) \<and>
     held (frames (a_chan s)) (a_fpool s) (decode_frame (a_decode s) \<union> pcm_frame (a_pcm s)) \<and>
     decode_frame (a_decode s) \<inter> pcm_frame (a_pcm s) = {}"

definition audio_decode_ok :: "audio_decode_pc \<Rightarrow> ptr \<Rightarrow> bool \<Rightarrow> bool" where
  "audio_decode_ok d p playing \<longleftrightarrow>
     (case d of ADSend \<Rightarrow> True | ADExit \<Rightarrow> True
      | ADPopped r \<Rightarrow> r = 0 \<longrightarrow> \<not> playing \<and> p = 0 | _ \<Rightarrow> p = 0)"

definition audio_pcm_ok :: "pcm_pc \<Rightarrow> bool \<Rightarrow> bool" where
  "audio_pcm_ok c playing \<longleftrightarrow> (case c of PcmPopped r f \<Rightarrow> r = 0 \<longrightarrow> \<not> playing | _ \<Rightarrow> True)"

definition audio_stop_ok :: "stop_pc \<Rightarrow> bool \<Rightarrow> bool \<Rightarrow> bool \<Rightarrow> bool \<Rightarrow> bool \<Rightarrow> bool \<Rightarrow> bool" where
  "audio_stop_ok st playing pw fw swr joined idle \<longleftrightarrow>
     (case st of
        NotStopped \<Rightarrow> playing \<and> pw \<and> fw \<and> swr
      | StopFlag \<Rightarrow> \<not> playing \<and> pw \<and> fw \<and> swr
      | StopPackets \<Rightarrow> \<not> playing \<and> \<not> pw \<and> fw \<and> swr
      | StopFrames \<Rightarrow> \<not> playing \<and> \<not> pw \<and> \<not> fw \<and> swr
      | StopJoined \<Rightarrow> \<not> playing \<and> \<not> pw \<and> \<not> fw \<and> swr \<and> joined
      | StopSwrFreed \<Rightarrow> \<not> playing \<and> \<not> pw \<and> \<not> fw \<and> \<not> swr \<and> joined
      | StopDone \<Rightarrow> \<not> playing \<and> \<not> pw \<and> \<not> fw \<and> \<not> swr \<and> joined \<and> idle)"

definition audio_flags_ok :: "audio_sys \<Rightarrow> bool" where
  "audio_flags_ok s \<longleftrightarrow>
     audio_stop_ok (a_stop s) (isPlaying (a_chan s)) (state (packets (a_chan s)))
       (state (frames (a_chan s))) (a_swr s) (a_decode s = ADDone \<and> a_play s \<noteq> InInitStart) (a_pcm s = PcmIdle) \<and>
     audio_decode_ok (a_decode s) (a_packet s) (isPlaying (a_chan s)) \<and>
     audio_pcm_ok (a_pcm s) (isPlaying (a_chan s))"

lemma audio_stop_ok_mono:
  "audio_stop_ok st playing pw fw swr joined idle \<Longrightarrow> (joined \<Longrightarrow> joined') \<Longrightarrow>
     (st = StopDone \<Longrightarrow> idle \<Longrightarrow> idle') \<Longrightarrow> audio_stop_ok st playing pw fw swr joined' idle'"
  by (cases st) (simp_all add: audio_stop_ok_def)

lemma audio_stop_ok_playing:
  "audio_stop_ok st playing pw fw swr joined idle \<Longrightarrow> playing \<longleftrightarrow> st = NotStopped"
  "audio_stop_ok st playing pw fw swr joined idle \<Longrightarrow> playing \<Longrightarrow> pw \<and> fw \<and> swr"
  by (cases st; simp add: audio_stop_ok_def)+

definition audio_inv :: "audio_sys \<Rightarrow> bool" where
  "audio_inv s \<longleftrightarrow> audio_hands_ok s \<and> audio_flags_ok s"

lemmas audio_ok_defs = audio_inv_def audio_hands_ok_def audio_flags_ok_def
lemmas audio_pc_defs = audio_decode_ok_def audio_pcm_ok_def audio_stop_ok_def

section \<open>The invariant holds\<close>

lemma audio_init_inv: "audio_inv (audio_init i ctx num den)"
  using BaseChannel_held [of i ctx num den]
  by (simp add: audio_ok_defs audio_pc_defs audio_init_def audio_start_def)

lemma audio_demux_inv:
  assumes inv: "audio_inv s" and p: "p \<noteq> 0" "p \<notin> a_ppool s"
    and push: "mq_push p (packets (a_chan s)) (insert p (a_ppool s)) = Inr (q, P)"
  shows "audio_inv (s\<lparr>a_chan := (a_chan s)\<lparr>packets := q\<rparr>, a_ppool := P\<rparr>)"
proof -
  have h: "held (packets (a_chan s)) (a_ppool s) ({a_packet s} - {0})"
    using inv by (simp add: audio_ok_defs)
  have "p \<notin> {a_packet s} - {0}" using h p by (auto simp: held_def)
  then have eq: "insert p ({a_packet s} - {0}) - {p} = {a_packet s} - {0}" by auto
  obtain q' P' where q': "mq_push p (packets (a_chan s)) (insert p (a_ppool s)) = Inr (q', P')"
      "held q' P' ({a_packet s} - {0})" "state q' = state (packets (a_chan s))"
    using held_push [OF held_fresh [OF h p]] eq by (metis insertI1)
  then have "held q P ({a_packet s} - {0}) \<and> state q = state (packets (a_chan s))"
    using push by simp
  then show ?thesis using inv by (simp add: audio_ok_defs)
qed

lemma audio_decode_ok_quiet: "audio_decode_ok d p playing \<Longrightarrow> audio_decode_ok d p False"
  by (cases d) (simp_all add: audio_decode_ok_def)

lemma audio_pcm_ok_quiet: "audio_pcm_ok c False"
  by (cases c) (simp_all add: audio_pcm_ok_def)

lemma audio_stop_inv: "audio_inv s \<Longrightarrow> audio_stop_step s = Some t \<Longrightarrow> audio_inv t"
  by (cases "a_stop s")
    (auto simp: audio_ok_defs audio_stop_ok_def audio_stop_step_def Let_def audio_pcm_ok_quiet
      intro: audio_decode_ok_quiet split: if_splits)

lemma audio_play_fails_inv: "audio_inv s \<Longrightarrow> audio_play_fails s = Some t \<Longrightarrow> audio_inv t"
  by (auto simp: audio_ok_defs audio_play_fails_def elim!: audio_stop_ok_mono split: if_splits)

text \<open>
  Every step of the decode thread succeeds and keeps the invariant. The steps that only move on
  are one case; the others go through the laws of \<open>held\<close>.
\<close>

lemma audio_inv_parts:
  assumes "audio_inv s"
  shows "held (packets (a_chan s)) (a_ppool s) ({a_packet s} - {0})"
    and "held (frames (a_chan s)) (a_fpool s) (decode_frame (a_decode s) \<union> pcm_frame (a_pcm s))"
    and "decode_frame (a_decode s) \<inter> pcm_frame (a_pcm s) = {}"
    and "audio_stop_ok (a_stop s) (isPlaying (a_chan s)) (state (packets (a_chan s)))
       (state (frames (a_chan s))) (a_swr s) (a_decode s = ADDone \<and> a_play s \<noteq> InInitStart) (a_pcm s = PcmIdle)"
    and "audio_decode_ok (a_decode s) (a_packet s) (isPlaying (a_chan s))"
    and "audio_pcm_ok (a_pcm s) (isPlaying (a_chan s))"
  using assms by (simp_all add: audio_ok_defs)

lemma audio_decode_release:
  assumes inv: "audio_inv s" and d: "a_decode s = ADSend \<or> a_decode s = ADExit"
    and d': "d' \<in> {ADExit, ADReceive, ADDone}"
  shows "\<exists>P. releaseAvPacket (a_packet s) (a_ppool s) = Inr (0, P) \<and>
    audio_inv (s\<lparr>a_packet := 0, a_ppool := P, a_decode := d'\<rparr>)"
proof -
  note h = audio_inv_parts [OF inv]
  obtain P where P: "releaseAvPacket (a_packet s) (a_ppool s) = Inr (0, P)"
    "held (packets (a_chan s)) P {}" using held_release_own [OF h(1)] by blast
  have "audio_inv (s\<lparr>a_packet := 0, a_ppool := P, a_decode := d'\<rparr>)"
    using P(2) h(2,3,4,6) d d' by (auto simp: audio_ok_defs audio_decode_ok_def elim!: audio_stop_ok_mono)
  with P(1) show ?thesis by blast
qed

lemma audio_decode_move:
  assumes "audio_inv s" and "a_decode s \<in> {ADLoop, ADFull} \<or> (\<exists>r. a_decode s = ADPopped r)"
    and "audio_decode_step sent received f s = Some r"
  shows "\<exists>t. r = Inr t \<and> audio_inv t"
  using assms audio_stop_ok_playing(1) [OF audio_inv_parts(4) [OF assms(1)]]
  by (auto simp: audio_ok_defs audio_decode_ok_def audio_decode_step_def Let_def elim!: audio_stop_ok_mono)

lemma audio_decode_pop:
  assumes inv: "audio_inv s" and d: "a_decode s = ADPop"
    and step: "audio_decode_step sent received f s = Some r"
  shows "\<exists>t. r = Inr t \<and> audio_inv t"
proof -
  note h = audio_inv_parts [OF inv]
  have p0: "a_packet s = 0" using h(5) d by (simp add: audio_decode_ok_def)
  from step d obtain n p q where pop: "mq_pop 0 (packets (a_chan s)) = (Ret n p, q)"
    and r: "r = Inr (s\<lparr>a_chan := (a_chan s)\<lparr>packets := q\<rparr>, a_packet := p, a_decode := ADPopped n\<rparr>)"
    by (auto simp: audio_decode_step_def p0 Let_def split: prod.splits pop_result.splits)
  from held_pop [OF h(1) pop] p0
  have q: "state q = state (packets (a_chan s))"
    "n = 1 \<and> p \<noteq> 0 \<and> held q (a_ppool s) {p} \<or>
     n = 0 \<and> p = 0 \<and> q = packets (a_chan s) \<and> \<not> state (packets (a_chan s))" by auto
  have "n = 0 \<Longrightarrow> \<not> isPlaying (a_chan s)" using audio_stop_ok_playing(2) [OF h(4)] q(2) by auto
  then show ?thesis using q h(1,2,3,4,6) d p0
    by (auto simp: r audio_ok_defs audio_decode_ok_def elim!: audio_stop_ok_mono)
qed

lemma audio_decode_receive:
  assumes inv: "audio_inv s" and d: "a_decode s = ADReceive" and f: "f \<noteq> 0" "f \<notin> a_fpool s"
    and step: "audio_decode_step sent received f s = Some r"
  shows "\<exists>t. r = Inr t \<and> audio_inv t"
proof -
  note h = audio_inv_parts [OF inv]
  have fr: "held (frames (a_chan s)) (insert f (a_fpool s)) (insert f (pcm_frame (a_pcm s)))"
    using held_fresh [OF h(2) f] d by simp
  have nf: "f \<notin> pcm_frame (a_pcm s)" using h(2) f(2) by (auto simp: held_def)
  then have again: "insert f (a_fpool s) - {f} = a_fpool s" using f by auto
  have rel: "releaseAvFrame f (insert f (a_fpool s)) = Inr (0, a_fpool s)"
    using held_release(1) [OF fr, of f] again by simp
  show ?thesis using step d f fr nf h
    by (auto simp: audio_decode_step_def Let_def rel audio_ok_defs audio_decode_ok_def
        elim!: audio_stop_ok_mono split: if_splits)
qed

lemma audio_decode_push:
  assumes inv: "audio_inv s" and d: "a_decode s = ADPush g"
    and step: "audio_decode_step sent received f s = Some r"
  shows "\<exists>t. r = Inr t \<and> audio_inv t"
proof -
  note h = audio_inv_parts [OF inv]
  have g: "g \<notin> pcm_frame (a_pcm s)" and X: "g \<in> decode_frame (a_decode s) \<union> pcm_frame (a_pcm s)"
    using h(3) d by auto
  obtain q P where q: "mq_push g (frames (a_chan s)) (a_fpool s) = Inr (q, P)"
      "held q P (decode_frame (a_decode s) \<union> pcm_frame (a_pcm s) - {g})"
      "state q = state (frames (a_chan s))"
    using held_push [OF h(2) X] by blast
  have "held q P (pcm_frame (a_pcm s))" using q(2) g d by simp
  then show ?thesis using step d q(1,3) h
    by (auto simp: audio_decode_step_def Let_def audio_ok_defs audio_decode_ok_def elim!: audio_stop_ok_mono)
qed

lemma audio_decode_inv:
  assumes inv: "audio_inv s" and f: "a_decode s = ADReceive \<Longrightarrow> f \<noteq> 0 \<and> f \<notin> a_fpool s"
    and step: "audio_decode_step sent received f s = Some r"
  shows "\<exists>t. r = Inr t \<and> audio_inv t"
proof (cases "a_decode s")
  case ADSend
  with step audio_decode_release [OF inv, of "if sent \<noteq> 0 then ADExit else ADReceive"]
  show ?thesis by (auto simp: audio_decode_step_def Let_def)
next
  case ADExit
  with step audio_decode_release [OF inv, of ADDone] show ?thesis
    by (auto simp: audio_decode_step_def Let_def)
next
  case ADDone
  with step show ?thesis by (simp add: audio_decode_step_def Let_def)
next
  case (ADPush g)
  then show ?thesis by (rule audio_decode_push [OF inv _ step])
qed (use inv f step audio_decode_move audio_decode_pop audio_decode_receive in blast)+

text \<open>A failed allocation is noticed by the decoder only: the frame goes to it untested.\<close>

lemma audio_decode_null_frame:
  "a_decode s = ADReceive \<Longrightarrow> audio_decode_step sent received null s = Some (Inl NullDeref)"
  by (simp add: audio_decode_step_def Let_def)

lemma audio_decode_keeps:
  assumes "audio_inv s" and "f \<notin> a_fpool s" and "audio_decode_step sent received f s = Some (Inr t)"
  shows "audio_inv t"
proof -
  have "a_decode s = ADReceive \<Longrightarrow> f \<noteq> 0" by (rule notI) (use assms(3) audio_decode_null_frame [of s sent received] in simp)
  then show ?thesis using audio_decode_inv [OF assms(1) _ assms(3)] assms(2) by auto
qed

lemma audio_decode_fault_iff:
  assumes inv: "audio_inv s" and f: "f \<notin> a_fpool s"
  shows "audio_decode_step sent received f s = Some (Inl e) \<longleftrightarrow>
    e = NullDeref \<and> a_decode s = ADReceive \<and> f = null"
proof
  assume fault: "audio_decode_step sent received f s = Some (Inl e)"
  then have "a_decode s = ADReceive \<and> f = null"
    using audio_decode_inv [OF inv _ fault] f by blast
  with fault audio_decode_null_frame [of s] show "e = NullDeref \<and> a_decode s = ADReceive \<and> f = null"
    by simp
qed (use audio_decode_null_frame in blast)

text \<open>
  The callback: in a state that satisfies the invariant a step can only fault when the resampler
  is already freed or the size computation overflows.
\<close>

lemma audio_pcm_popped:
  assumes inv: "audio_inv s" and c: "a_pcm s = PcmPopped n g"
    and step: "audio_pcm_step A info s = Some r"
  shows "\<exists>t. r = Inr t \<and> audio_inv t"
proof -
  note h = audio_inv_parts [OF inv]
  have X: "n \<noteq> 0 \<Longrightarrow> decode_frame (a_decode s) \<union> pcm_frame (a_pcm s) - {g} = decode_frame (a_decode s)"
    using h(3) c by auto
  have rel: "n \<noteq> 0 \<Longrightarrow> releaseAvFrame g (a_fpool s) = Inr (0, a_fpool s - {g}) \<and>
      held (frames (a_chan s)) (a_fpool s - {g}) (decode_frame (a_decode s))"
    using held_release(1) [OF h(2), of g] X c by auto
  have "n = 0 \<Longrightarrow> \<not> isPlaying (a_chan s)" using h(6) c by (simp add: audio_pcm_ok_def)
  then show ?thesis using step c h rel
    by (auto simp: audio_pcm_step_def Let_def audio_ok_defs audio_pcm_ok_def
        elim!: audio_stop_ok_mono split: if_splits)
qed

lemma audio_pcm_resample:
  assumes inv: "audio_inv s" and c: "a_pcm s = PcmResample g" and swr: "a_swr s"
    and step: "audio_pcm_step A info s = Some r"
  shows "(\<exists>t. r = Inr t \<and> audio_inv t) \<or> (r = Inl IntOverflow \<and> pcm_data_size A (info g) = Inl IntOverflow)"
proof -
  note h = audio_inv_parts [OF inv]
  have X: "decode_frame (a_decode s) \<union> pcm_frame (a_pcm s) - {g} = decode_frame (a_decode s)"
    using h(3) c by auto
  have g0: "g \<noteq> 0" using h(2) c by (auto simp: held_def)
  have rel: "releaseAvFrame g (a_fpool s) = Inr (0, a_fpool s - {g}) \<and>
      held (frames (a_chan s)) (a_fpool s - {g}) (decode_frame (a_decode s))"
    using held_release(1) [OF h(2), of g] X c by auto
  show ?thesis
  proof (cases "pcm_data_size A (info g)")
    case (Inl e)
    then have "e = IntOverflow"
      by (auto simp: pcm_data_size_def c_mul_def c_int_def res_bind_def split: if_splits)
    then show ?thesis using Inl step c swr g0 by (simp add: audio_pcm_step_def Let_def)
  next
    case (Inr n)
    then show ?thesis using step c swr g0 rel h
      by (auto simp: audio_pcm_step_def Let_def audio_ok_defs audio_pcm_ok_def elim!: audio_stop_ok_mono)
  qed
qed

lemma audio_pcm_pop:
  assumes inv: "audio_inv s" and c: "a_pcm s = PcmPop"
    and step: "audio_pcm_step A info s = Some r"
  shows "\<exists>t. r = Inr t \<and> audio_inv t"
proof -
  note h = audio_inv_parts [OF inv]
  from step c obtain n p q where pop: "mq_pop 0 (frames (a_chan s)) = (Ret n p, q)"
    and r: "r = Inr (s\<lparr>a_chan := (a_chan s)\<lparr>frames := q\<rparr>, a_pcm := PcmPopped n p\<rparr>)"
    by (auto simp: audio_pcm_step_def Let_def split: prod.splits pop_result.splits)
  from held_pop [OF h(2) pop] c
  have q: "state q = state (frames (a_chan s))"
    "n = 1 \<and> p \<noteq> 0 \<and> p \<notin> decode_frame (a_decode s) \<and> held q (a_fpool s) (insert p (decode_frame (a_decode s))) \<or>
     n = 0 \<and> p = 0 \<and> q = frames (a_chan s) \<and> \<not> state (frames (a_chan s))" by auto
  have "n = 0 \<Longrightarrow> \<not> isPlaying (a_chan s)" using audio_stop_ok_playing(2) [OF h(4)] q(2) by auto
  then show ?thesis using q h c
    by (auto simp: r audio_ok_defs audio_pcm_ok_def elim!: audio_stop_ok_mono)
qed

lemma audio_pcm_inv:
  assumes inv: "audio_inv s" and step: "audio_pcm_step A info s = Some r"
  shows "(\<exists>t. r = Inr t \<and> audio_inv t) \<or> r = Inl NullDeref \<and> \<not> a_swr s \<or>
    r = Inl IntOverflow \<and> (\<exists>g. pcm_data_size A (info g) = Inl IntOverflow)"
proof (cases "a_pcm s")
  case PcmIdle
  then show ?thesis using inv step
    by (auto simp: audio_pcm_step_def Let_def audio_ok_defs audio_pcm_ok_def
        elim!: audio_stop_ok_mono split: if_splits)
next
  case (PcmResample g)
  then show ?thesis using audio_pcm_resample [OF inv PcmResample _ step] step
    by (cases "a_swr s") (auto simp: audio_pcm_step_def Let_def)
qed (use inv step audio_pcm_pop audio_pcm_popped in blast)+

lemma audio_step_inv: "audio_inv s \<Longrightarrow> audio_step s t \<Longrightarrow> audio_inv t"
  by (erule audio_step.cases)
    (auto dest: audio_demux_inv audio_decode_keeps audio_pcm_inv audio_stop_inv audio_play_fails_inv)

interpretation audio: step_invariant "\<lambda>s. \<exists>i ctx num den. s = audio_init i ctx num den" audio_step audio_inv
  by unfold_locales (auto simp: audio_init_inv intro: audio_step_inv)

lemma audio_swr_freed: "audio_inv s \<Longrightarrow> \<not> a_swr s \<Longrightarrow> a_stop s \<in> {StopSwrFreed, StopDone}"
  using audio_inv_parts(4) [of s] by (cases "a_stop s") (simp_all add: audio_stop_ok_def)

section \<open>Runs\<close>

text \<open>A schedule names the thread that moves and the answers it gets.\<close>

datatype audio_act = Demux ptr | Decode int int ptr | Pcm | PlayFails | Stop

definition audio_act_run :: "swr_api \<Rightarrow> (ptr \<Rightarrow> frame_info) \<Rightarrow> audio_act \<Rightarrow> audio_sys \<Rightarrow> audio_sys option" where
  "audio_act_run A info a s =
     (case a of
        Demux p \<Rightarrow>
          (if p = null \<or> p \<in> a_ppool s then None
           else case mq_push p (packets (a_chan s)) (insert p (a_ppool s)) of
               Inr (q, P) \<Rightarrow> Some (s\<lparr>a_chan := (a_chan s)\<lparr>packets := q\<rparr>, a_ppool := P\<rparr>)
             | Inl _ \<Rightarrow> None)
      | Decode sent received f \<Rightarrow>
          (if f \<in> a_fpool s then None
           else case audio_decode_step sent received f s of Some (Inr t) \<Rightarrow> Some t | _ \<Rightarrow> None)
      | Pcm \<Rightarrow> (case audio_pcm_step A info s of Some (Inr t) \<Rightarrow> Some t | _ \<Rightarrow> None)
      | PlayFails \<Rightarrow> audio_play_fails s
      | Stop \<Rightarrow> audio_stop_step s)"

fun audio_run :: "swr_api \<Rightarrow> (ptr \<Rightarrow> frame_info) \<Rightarrow> audio_act list \<Rightarrow> audio_sys \<Rightarrow> audio_sys option" where
  "audio_run A info [] s = Some s"
| "audio_run A info (a # as) s =
     (case audio_act_run A info a s of None \<Rightarrow> None | Some t \<Rightarrow> audio_run A info as t)"

lemma audio_act_run_step: "audio_act_run A info a s = Some t \<Longrightarrow> audio_step s t"
  by (auto simp: audio_act_run_def intro: audio_step.intros split: audio_act.splits if_splits sum.splits option.splits)

lemma audio_run_steps: "audio_run A info as s = Some t \<Longrightarrow> audio_step\<^sup>*\<^sup>* s t"
  by (induction as arbitrary: s)
    (auto split: option.splits intro: converse_rtranclp_into_rtranclp audio_act_run_step)

text \<open>The decode thread alone, with the decoder answers \<open>ans\<close> and a fresh frame \<open>f\<close>.\<close>

fun audio_decode_run :: "nat \<Rightarrow> (nat \<Rightarrow> int \<times> int) \<Rightarrow> ptr \<Rightarrow> audio_sys \<Rightarrow> audio_sys option" where
  "audio_decode_run 0 ans f s = Some s"
| "audio_decode_run (Suc n) ans f s =
     (if a_decode s = ADDone then Some s
      else case audio_decode_step (fst (ans n)) (snd (ans n)) f s of
             Some (Inr t) \<Rightarrow> audio_decode_run n ans f t
           | _ \<Rightarrow> None)"

text \<open>How many steps the decode thread is away from its end once \<open>isPlaying\<close> is clear.\<close>

definition decode_rank :: "audio_decode_pc \<Rightarrow> nat" where
  "decode_rank d = (case d of ADDone \<Rightarrow> 0 | ADExit \<Rightarrow> 1 | ADLoop \<Rightarrow> 2 | ADPopped r \<Rightarrow> 2 | ADPop \<Rightarrow> 3
     | ADFull \<Rightarrow> 4 | ADPush f \<Rightarrow> 3 | ADReceive \<Rightarrow> 4 | ADSend \<Rightarrow> 5)"

definition winding_down :: "ptr \<Rightarrow> audio_sys \<Rightarrow> bool" where
  "winding_down f s \<longleftrightarrow> audio_inv s \<and> \<not> isPlaying (a_chan s) \<and> \<not> state (packets (a_chan s)) \<and>
     (a_decode s \<in> {ADSend, ADReceive} \<longrightarrow> f \<noteq> 0 \<and> f \<notin> a_fpool s)"

lemma decode_step_enabled:
  assumes "winding_down f s" and "a_decode s \<noteq> ADDone"
  obtains t where "audio_decode_step sent received f s = Some (Inr t)" "winding_down f t"
    "decode_rank (a_decode t) < decode_rank (a_decode s)"
proof -
  have inv: "audio_inv s" and q: "\<not> state (packets (a_chan s))" and np: "\<not> isPlaying (a_chan s)"
    and f: "a_decode s \<in> {ADSend, ADReceive} \<Longrightarrow> f \<noteq> 0 \<and> f \<notin> a_fpool s"
    using assms by (auto simp: winding_down_def)
  have "audio_decode_step sent received f s \<noteq> None"
    using assms(2) q by (cases "a_decode s")
      (auto simp: audio_decode_step_def Let_def mq_pop_def split: list.splits)
  then obtain t where t: "audio_decode_step sent received f s = Some (Inr t)" "audio_inv t"
    using audio_decode_inv [OF inv] f by blast
  have "decode_rank (a_decode t) < decode_rank (a_decode s) \<and> \<not> isPlaying (a_chan t) \<and>
      \<not> state (packets (a_chan t)) \<and> (a_decode t \<in> {ADSend, ADReceive} \<longrightarrow> f \<noteq> 0 \<and> f \<notin> a_fpool t)"
    using t(1) q np f by (cases "a_decode s")
      (auto simp: audio_decode_step_def Let_def decode_rank_def mq_pop_def res_bind_Inr_iff
        split: if_splits list.splits)
  with t show thesis using that by (simp add: winding_down_def)
qed

lemma decode_run_ends:
  "winding_down f s \<Longrightarrow> decode_rank (a_decode s) \<le> n \<Longrightarrow>
     \<exists>t. audio_decode_run n ans f s = Some t \<and> a_decode t = ADDone"
proof (induction n arbitrary: s)
  case 0
  then have "a_decode s = ADDone" by (cases "a_decode s") (simp_all add: decode_rank_def)
  then show ?case by simp
next
  case (Suc n)
  show ?case
  proof (cases "a_decode s = ADDone")
    case True
    then show ?thesis by simp
  next
    case False
    from decode_step_enabled [OF Suc.prems(1) this] obtain t where
      t: "audio_decode_step (fst (ans n)) (snd (ans n)) f s = Some (Inr t)" "winding_down f t"
         "decode_rank (a_decode t) < decode_rank (a_decode s)"
      by blast
    from Suc.IH [OF t(2)] t Suc.prems(2) False show ?thesis by auto
  qed
qed

section \<open>Properties\<close>

text \<open>C1: In every state the audio channel can reach, by any interleaving of demultiplexer, decode thread,
  PCM callback and \<open>stop\<close> and for any answers of the decoder: a step of the decode thread faults
  exactly when \<open>av_frame_alloc\<close> has just failed (the null frame goes untested into
  \<open>avcodec_receive_frame\<close>), so it frees nothing twice; the push of a packet succeeds; and a step of
  the callback faults only when \<open>stop\<close> has already freed the resampler, or when the size of the
  PCM data overflows an \<open>int\<close>.\<close>

theorem audio_threads_safe:
  assumes "audio_step\<^sup>*\<^sup>* (audio_init i ctx num den) s" and "f \<notin> a_fpool s"
  shows "(audio_decode_step sent received f s = Some (Inl e) \<longleftrightarrow>
       e = NullDeref \<and> a_decode s = ADReceive \<and> f = null) \<and>
    (p \<noteq> null \<and> p \<notin> a_ppool s \<longrightarrow>
       (\<exists>q P. mq_push p (packets (a_chan s)) (insert p (a_ppool s)) = Inr (q, P))) \<and>
    (audio_pcm_step A info s = Some (Inl e) \<longrightarrow>
       e = NullDeref \<and> a_stop s \<in> {StopSwrFreed, StopDone} \<or>
       e = IntOverflow \<and> (\<exists>g. pcm_data_size A (info g) = Inl IntOverflow))"
proof (intro conjI impI)
  have inv: "audio_inv s" using audio.reachable_inv assms(1) by blast
  show "audio_decode_step sent received f s = Some (Inl e) \<longleftrightarrow>
      e = NullDeref \<and> a_decode s = ADReceive \<and> f = null"
    by (rule audio_decode_fault_iff [OF inv assms(2)])
  show "\<exists>q P. mq_push p (packets (a_chan s)) (insert p (a_ppool s)) = Inr (q, P)"
    if "p \<noteq> null \<and> p \<notin> a_ppool s"
    using held_push [OF held_fresh [OF audio_inv_parts(1) [OF inv]], of p] that by blast
  show "e = NullDeref \<and> a_stop s \<in> {StopSwrFreed, StopDone} \<or>
      e = IntOverflow \<and> (\<exists>g. pcm_data_size A (info g) = Inl IntOverflow)"
    if "audio_pcm_step A info s = Some (Inl e)"
    using audio_pcm_inv [OF inv that] audio_swr_freed [OF inv] by auto
qed

definition demo_swr :: swr_api where
  "demo_swr = \<lparr>swr_get_delay = (\<lambda>_. 0), av_rescale_rnd = (\<lambda>a b c. (a * b + c - 1) div c),
     swr_convert = (\<lambda>cap n. cap)\<rparr>"

definition demo_info :: "ptr \<Rightarrow> frame_info" where
  "demo_info p = \<lparr>sample_rate = 44100, nb_samples = 1024, best_effort_timestamp = 0\<rparr>"

text \<open>
  A run: two packets arrive, the first is decoded and played by the call from \<open>init_start\<close>, the
  second is decoded. \<open>demo_state\<close> is the state after a run.
\<close>

definition demo_acts :: "audio_act list" where
  "demo_acts = Demux 1 # Demux 2 # replicate 6 (Decode 0 0 1) @ [Decode 0 0 9] @ replicate 4 Pcm @
     replicate 6 (Decode 0 0 2) @ [Decode 0 0 9]"

definition demo_state :: "audio_act list \<Rightarrow> audio_sys" where
  "demo_state as = the (audio_run demo_swr demo_info as (audio_init 0 1 1 1))"

lemma demo_state_reachable:
  "\<not> Option.is_none (audio_run demo_swr demo_info as (audio_init 0 1 1 1)) \<Longrightarrow>
     audio_step\<^sup>*\<^sup>* (audio_init 0 1 1 1) (demo_state as)"
  by (auto simp: demo_state_def Option.is_none_def intro: audio_run_steps)

lemma demo_acts_reach: "audio_step\<^sup>*\<^sup>* (audio_init 0 1 1 1) (demo_state demo_acts)"
  by (rule demo_state_reachable) code_simp

theorem audio_threads_safe_witness:
  "a_fpool (demo_state demo_acts) = {2} \<and>
   audio_decode_step 0 0 3 (demo_state demo_acts) \<noteq> Some (Inl DoubleFree) \<and>
   (\<exists>q P. mq_push 7 (packets (a_chan (demo_state demo_acts))) {7} = Inr (q, P))"
proof -
  have pool: "a_fpool (demo_state demo_acts) = {2}" "a_ppool (demo_state demo_acts) = {}" by code_simp+
  with audio_threads_safe [OF demo_acts_reach, of 3] show ?thesis by simp
qed

text \<open>The failed allocation is met: a packet has been sent to the decoder, and no frame comes.\<close>

lemma audio_alloc_failure_crashes:
  "\<exists>s. audio_step\<^sup>*\<^sup>* (audio_init 0 1 1 1) s \<and> audio_decode_step sent received null s = Some (Inl NullDeref)"
proof -
  let ?as = "Demux 1 # replicate 5 (Decode 0 0 null)"
  have "audio_step\<^sup>*\<^sup>* (audio_init 0 1 1 1) (demo_state ?as)" by (rule demo_state_reachable) code_simp
  moreover have "a_decode (demo_state ?as) = ADReceive" by code_simp
  ultimately show ?thesis using audio_decode_null_frame by blast
qed

text \<open>C3: When \<open>stop\<close> has completed, destroying the channel frees every packet and every frame that
  was ever handed to it: both pools are empty afterwards, and nothing is freed twice.\<close>

theorem audio_stop_frees_everything:
  assumes "audio_step\<^sup>*\<^sup>* (audio_init i ctx num den) s" and "a_stop s = StopDone"
  shows "\<exists>c. BaseChannel_dtor (a_chan s) (a_ppool s) (a_fpool s) = Inr (c, {}, {})"
proof -
  have inv: "audio_inv s" using audio.reachable_inv assms(1) by blast
  note h = audio_inv_parts [OF inv]
  have "a_decode s = ADDone" "a_pcm s = PcmIdle"
    using h(4) assms(2) by (auto simp: audio_stop_ok_def)
  moreover have "a_packet s = 0" using h(5) calculation by (simp add: audio_decode_ok_def)
  ultimately show ?thesis using held_dtor [OF h(1,2)] by auto
qed

definition demo_stop_acts :: "audio_act list" where
  "demo_stop_acts = demo_acts @ [Demux 4, Stop, Demux 5, Stop, Stop, Decode 0 0 3, Decode 0 0 3, Stop, Stop, Stop]"

theorem audio_stop_frees_everything_witness:
  "a_stop (demo_state demo_stop_acts) = StopDone \<and>
   (\<exists>c. BaseChannel_dtor (a_chan (demo_state demo_stop_acts)) (a_ppool (demo_state demo_stop_acts))
      (a_fpool (demo_state demo_stop_acts)) = Inr (c, {}, {}))"
proof -
  have "audio_step\<^sup>*\<^sup>* (audio_init 0 1 1 1) (demo_state demo_stop_acts)"
    by (rule demo_state_reachable) code_simp
  moreover have "a_stop (demo_state demo_stop_acts) = StopDone" by code_simp
  ultimately show ?thesis using audio_stop_frees_everything by blast
qed

text \<open>C5: \<open>stop\<close> is not held up by the decode thread: once the flag is clear and the packet queue is
  stopped, the thread reaches its end in at most five steps without blocking, whatever the decoder
  answers (\<open>f\<close> is the frame a pending allocation returns).\<close>

theorem audio_decode_thread_ends:
  assumes "audio_step\<^sup>*\<^sup>* (audio_init i ctx num den) s"
    and "a_stop s \<noteq> NotStopped" and "a_stop s \<noteq> StopFlag"
    and "f \<noteq> null" and "f \<notin> a_fpool s"
  shows "\<exists>t. audio_decode_run 5 ans f s = Some t \<and> a_decode t = ADDone"
proof -
  have inv: "audio_inv s" using audio.reachable_inv assms(1) by blast
  have "\<not> isPlaying (a_chan s) \<and> \<not> state (packets (a_chan s))"
    using audio_inv_parts(4) [OF inv] assms(2,3) by (cases "a_stop s") (auto simp: audio_stop_ok_def)
  then have "winding_down f s" using inv assms(4,5) by (simp add: winding_down_def)
  moreover have "decode_rank (a_decode s) \<le> 5" by (cases "a_decode s") (simp_all add: decode_rank_def)
  ultimately show ?thesis by (rule decode_run_ends)
qed

theorem audio_decode_thread_ends_witness:
  "\<exists>t. audio_decode_run 5 (\<lambda>_. (0, 0)) 7 (demo_state (demo_acts @ [Stop, Stop])) = Some t \<and> a_decode t = ADDone"
proof (rule audio_decode_thread_ends)
  show "audio_step\<^sup>*\<^sup>* (audio_init 0 1 1 1) (demo_state (demo_acts @ [Stop, Stop]))"
    by (rule demo_state_reachable) code_simp
  have "a_stop (demo_state (demo_acts @ [Stop, Stop])) = StopPackets"
    and pool: "a_fpool (demo_state (demo_acts @ [Stop, Stop])) = {2}" by code_simp+
  then show "a_stop (demo_state (demo_acts @ [Stop, Stop])) \<noteq> NotStopped"
    and "a_stop (demo_state (demo_acts @ [Stop, Stop])) \<noteq> StopFlag" by simp_all
  show "7 \<noteq> null" by simp
  show "7 \<notin> a_fpool (demo_state (demo_acts @ [Stop, Stop]))" using pool by simp
qed

text \<open>\<open>stop\<close> frees the resampler under a running callback: it joins the decode and the play thread,
  but the callback is run by OpenSL ES by then, and the player object is destroyed only after
  \<open>swr_free\<close>. A callback that has passed its \<open>isPlaying\<close> test uses the freed \<open>swrContext\<close>.\<close>

lemma audio_stop_races_callback:
  "\<exists>s. audio_step\<^sup>*\<^sup>* (audio_init 0 1 1 1) s \<and> audio_pcm_step A info s = Some (Inl NullDeref)"
proof -
  let ?as = "demo_acts @ replicate 3 Pcm @ [Stop, Stop, Stop, Decode 0 0 3, Decode 0 0 3, Stop, Stop]"
  have "audio_step\<^sup>*\<^sup>* (audio_init 0 1 1 1) (demo_state ?as)"
    by (rule demo_state_reachable) code_simp
  moreover have "a_pcm (demo_state ?as) = PcmResample 2" "\<not> a_swr (demo_state ?as)" by code_simp+
  then have "audio_pcm_step A info (demo_state ?as) = Some (Inl NullDeref)"
    by (simp add: audio_pcm_step_def Let_def)
  ultimately show ?thesis by blast
qed

text \<open>The capacity \<open>getPcm\<close> announces to \<open>swr_convert\<close> fits the output buffer exactly when delay and
  frame together are at most one second of input (\<open>av_rescale_rnd\<close> rounds up as documented). A
  longer frame makes \<open>swr_convert\<close> write past \<open>out_buffers\<close>.\<close>

lemma pcm_capacity_fits_iff:
  assumes "\<And>a b c. 0 \<le> a \<Longrightarrow> 0 < b \<Longrightarrow> 0 < c \<Longrightarrow> av_rescale_rnd A a b c = (a * b + c - 1) div c"
    and "0 < sample_rate f" and "0 \<le> swr_get_delay A (sample_rate f)" and "0 \<le> nb_samples f"
    and "swr_get_delay A (sample_rate f) + nb_samples f \<le> 48000"
  shows "max_samples A f * out_sample_size * out_channels \<le> out_buffers_size \<longleftrightarrow>
    swr_get_delay A (sample_rate f) + nb_samples f \<le> sample_rate f"
proof -
  let ?r = "sample_rate f" and ?x = "swr_get_delay A (sample_rate f) + nb_samples f"
  let ?c = "(?x * 44100 + ?r - 1) div ?r"
  have x: "0 \<le> ?x" "?x \<le> 48000" using assms(3-5) by simp_all
  have c: "av_rescale_rnd A ?x 44100 ?r = ?c" using assms(1) [OF x(1) _ assms(2)] by simp
  have up: "?c \<le> m \<longleftrightarrow> ?x * 44100 \<le> m * ?r" for m
  proof -
    have "?c \<le> m \<longleftrightarrow> ?c < m + 1" by linarith
    also have "\<dots> \<longleftrightarrow> ?x * 44100 + ?r - 1 < (m + 1) * ?r"
      using assms(2) by (rule zdiv_less_iff)
    also have "\<dots> \<longleftrightarrow> ?x * 44100 \<le> m * ?r" by (simp add: algebra_simps) linarith
    finally show ?thesis .
  qed
  have "?x * 44100 \<le> 2116800000" using mult_right_mono [OF x(2), of 44100] by simp
  moreover have "2116800000 \<le> 2116800000 * ?r" using assms(2) by simp
  ultimately have "?c \<le> 2116800000" using up [of 2116800000] by linarith
  moreover have "0 \<le> ?c" using x(1) assms(2) by (simp add: pos_imp_zdiv_nonneg_iff)
  ultimately have "max_samples A f = ?c" by (simp add: max_samples_def c to_i32_def)
  moreover have "?x * 44100 \<le> 44100 * ?r \<longleftrightarrow> ?x \<le> ?r"
    by (simp only: mult.commute [of _ 44100] mult_le_cancel_left_pos zero_less_numeral)
  moreover have "max_samples A f * 2 * 2 \<le> 176400 \<longleftrightarrow> max_samples A f \<le> 44100" by simp
  ultimately show ?thesis using up [of 44100] by (simp only: out_buffers_size_def) simp
qed

theorem pcm_capacity_fits_iff_witness:
  "max_samples demo_swr (demo_info 1) * out_sample_size * out_channels \<le> out_buffers_size"
  using pcm_capacity_fits_iff [of demo_swr "demo_info 1"] by (simp add: demo_swr_def demo_info_def)

end
