(* ===== verification/Video_Channel.thy ===== *)
theory Video_Channel
  imports Av_Channel
begin

text \<open>
  \<open>VideoChannel\<close> (\<open>player/VideoChannel.cpp\<close>): the decode thread with its filter stage, the render
  thread with the audio/video synchronisation, \<open>start\<close> and \<open>stop\<close>, and their interleaving with the
  demultiplexer. Times are exact rationals; the answers of FFmpeg are arguments of the steps.
\<close>

section \<open>Dropping frames and packets\<close>

text \<open>
  The queue's synchronisation handlers. \<open>dropAvFrame\<close> releases the oldest frame; \<open>dropAvPacket\<close>
  removes the oldest packet and releases it unless its flags say that it is a key packet.
\<close>

definition dropAvFrame :: "ptr list \<Rightarrow> pool \<Rightarrow> (ptr list \<times> pool) res" where
  "dropAvFrame q P =
     (case q of [] \<Rightarrow> Inr (q, P)
      | frame # rest \<Rightarrow> res_bind (releaseAvFrame frame P) (\<lambda>(_, P'). Inr (rest, P')))"

abbreviation (input) AV_PKT_FLAG_KEY :: int where "AV_PKT_FLAG_KEY \<equiv> 1"

definition dropAvPacket :: "(ptr \<Rightarrow> int) \<Rightarrow> ptr list \<Rightarrow> pool \<Rightarrow> (ptr list \<times> pool) res" where
  "dropAvPacket flags qq P =
     (case qq of [] \<Rightarrow> Inr (qq, P)
      | packet # rest \<Rightarrow>
         (if flags packet \<noteq> AV_PKT_FLAG_KEY
          then res_bind (releaseAvPacket packet P) (\<lambda>(_, P'). Inr (rest, P'))
          else Inr (rest, P)))"

section \<open>Audio/video synchronisation\<close>

text \<open>
  Lines 262 to 309: what the render thread does with a frame. \<open>(int) x\<close> truncates towards zero and
  is undefined outside the \<open>int\<close> range; it binds tighter than the multiplication by 1000000.
  \<open>1.0 / fps\<close> with \<open>fps = 0\<close> is an infinity, whose conversion is undefined.
\<close>

datatype sync_action = SleepThenRender int | DropAndSkip | RenderNow

definition trunc :: "rat \<Rightarrow> int" where
  "trunc x = (if x \<ge> 0 then \<lfloor>x\<rfloor> else \<lceil>x\<rceil>)"

definition usleep_seconds :: "rat \<Rightarrow> int res" where
  "usleep_seconds x = res_bind (c_int (trunc x)) (\<lambda>n. c_mul n 1000000)"

definition sync_action_of :: "int \<Rightarrow> int \<Rightarrow> rat \<Rightarrow> rat \<Rightarrow> sync_action res" where
  "sync_action_of repeat_pict fps videoT audioT =
     (let time_diff = videoT - audioT in
      if time_diff > 0 then
        (if fps = 0 then Inl DivByZero
         else let result_delay = of_int repeat_pict + 1 / of_int fps in
           res_bind (if time_diff > 1 then usleep_seconds (result_delay * 2)
                     else usleep_seconds (time_diff + result_delay)) (\<lambda>us. Inr (SleepThenRender us)))
      else if time_diff < 0 then Inr DropAndSkip
      else Inr RenderNow)"

section \<open>Threads and shared state\<close>

datatype video_decode_pc =
    VDInit            \<comment> \<open>97: \<open>av_frame_alloc\<close>\<close>
  | VDLoop            \<comment> \<open>98: \<open>while (isPlaying)\<close>\<close>
  | VDFull            \<comment> \<open>99: \<open>if (isPlaying && frames.size() > 100)\<close>\<close>
  | VDPop             \<comment> \<open>107: \<open>packets.pop(packet)\<close>\<close>
  | VDPopped int      \<comment> \<open>110: \<open>if (!isPlaying)\<close>, with \<open>ret\<close>\<close>
  | VDSend            \<comment> \<open>123: \<open>avcodec_send_packet\<close>\<close>
  | VDReceive         \<comment> \<open>136: \<open>avcodec_receive_frame\<close>\<close>
  | VDFilter          \<comment> \<open>171: \<open>doFilter\<close> up to its push\<close>
  | VDPush ptr        \<comment> \<open>199: \<open>frames.push(filter_frame)\<close>\<close>
  | VDExit            \<comment> \<open>167: after the loop\<close>
  | VDDone

datatype video_render_pc =
    VRLoop            \<comment> \<open>232: \<open>while (isPlaying)\<close>\<close>
  | VRPop             \<comment> \<open>233: \<open>frames.pop(frame)\<close>\<close>
  | VRPopped int      \<comment> \<open>236: \<open>if (!isPlaying)\<close>, with \<open>ret\<close>\<close>
  | VRSync            \<comment> \<open>247: scaling and synchronisation\<close>
  | VRDrop            \<comment> \<open>302: \<open>frames.sync()\<close>\<close>
  | VRRender          \<comment> \<open>312: the render callback\<close>
  | VRExit            \<comment> \<open>322: after the loop\<close>
  | VRDone

datatype video_stop_pc = VNotStopped | VStopFlag | VStopFrames | VStopPackets | VStopJoined

text \<open>
  \<open>v_frame\<close> is the frame the decode thread reuses, \<open>r_frame\<close> the render thread's variable \<open>frame\<close>,
  \<open>v_audioTime\<close> the clock of the audio channel (\<open>None\<close>: \<open>audioChannel\<close> is null). Two records of the
  run: \<open>v_lost\<close> collects frames whose only pointer was overwritten, \<open>v_shown\<close> the frames passed to
  the render callback with the sleep before it.
\<close>

record video_sys =
  v_chan :: chan
  v_fps :: int
  v_audioTime :: "rat option"
  v_ppool :: pool
  v_fpool :: pool
  v_decode :: video_decode_pc
  v_packet :: ptr
  v_frame :: ptr
  v_render :: video_render_pc
  r_frame :: ptr
  v_stop :: video_stop_pc
  v_lost :: pool
  v_shown :: "ptr list"

definition VideoChannel :: "int \<Rightarrow> ptr \<Rightarrow> int \<Rightarrow> int \<Rightarrow> (ptr \<Rightarrow> int) \<Rightarrow> chan" where
  "VideoChannel i ctx num den flags =
     (let c = BaseChannel i ctx num den in
      c\<lparr>frames := mq_setSyncHandle dropAvFrame (frames c),
        packets := mq_setSyncHandle (dropAvPacket flags) (packets c)\<rparr>)"

definition video_start :: "chan \<Rightarrow> chan" where
  "video_start c = c\<lparr>isPlaying := True, frames := mq_gotoWork (frames c), packets := mq_gotoWork (packets c)\<rparr>"

definition video_init :: "int \<Rightarrow> ptr \<Rightarrow> int \<Rightarrow> int \<Rightarrow> (ptr \<Rightarrow> int) \<Rightarrow> int \<Rightarrow> rat option \<Rightarrow> video_sys" where
  "video_init i ctx num den flags fps audio =
     \<lparr>v_chan = video_start (VideoChannel i ctx num den flags), v_fps = fps, v_audioTime = audio,
      v_ppool = {}, v_fpool = {}, v_decode = VDInit, v_packet = null, v_frame = null,
      v_render = VRLoop, r_frame = null, v_stop = VNotStopped, v_lost = {}, v_shown = []\<rparr>"

section \<open>The decode thread\<close>

text \<open>
  One step of \<open>VideoChannel::decode\<close> and \<open>doFilter\<close>. \<open>f\<close> is the frame a call of
  \<open>av_frame_alloc\<close> returns, or null; a null frame faults where FFmpeg is called with it. The filtered frame is pushed whatever the filter graph answered.
\<close>

definition video_decode_step :: "int \<Rightarrow> int \<Rightarrow> ptr \<Rightarrow> video_sys \<Rightarrow> video_sys res option" where
  "video_decode_step sent received f s =
     (let c = v_chan s in
      case v_decode s of
        VDInit \<Rightarrow>
          Some (Inr (s\<lparr>v_frame := f, v_fpool := (if f = null then v_fpool s else insert f (v_fpool s)),
            v_decode := VDLoop\<rparr>))
      | VDLoop \<Rightarrow> Some (Inr (s\<lparr>v_decode := if isPlaying c then VDFull else VDExit\<rparr>))
      | VDFull \<Rightarrow> Some (Inr (s\<lparr>v_decode := if isPlaying c \<and> mq_size (frames c) > 100 then VDLoop else VDPop\<rparr>))
      | VDPop \<Rightarrow>
          (case mq_pop (v_packet s) (packets c) of
             (Wait, _) \<Rightarrow> None
           | (Ret r p, q) \<Rightarrow> Some (Inr (s\<lparr>v_chan := c\<lparr>packets := q\<rparr>, v_packet := p, v_decode := VDPopped r\<rparr>)))
      | VDPopped r \<Rightarrow>
          Some (Inr (s\<lparr>v_decode := if \<not> isPlaying c then VDExit else if r = 0 then VDLoop else VDSend\<rparr>))
      | VDSend \<Rightarrow>
          (if sent \<noteq> 0 then Some (Inr (s\<lparr>v_decode := VDExit\<rparr>))
           else Some (res_bind (releaseAvPacket (v_packet s) (v_ppool s)) (\<lambda>(p, P).
             Inr (s\<lparr>v_packet := p, v_ppool := P, v_decode := VDReceive\<rparr>))))
      | VDReceive \<Rightarrow>
          (if v_frame s = null then Some (Inl NullDeref)
           else Some (Inr (s\<lparr>v_decode :=
             if received = - 11 then VDLoop else if received \<noteq> 0 then VDExit else VDFilter\<rparr>)))
      | VDFilter \<Rightarrow>
          (if f = null then Some (Inl NullDeref)
           else Some (Inr (s\<lparr>v_fpool := insert f (v_fpool s), v_decode := VDPush f\<rparr>)))
      | VDPush g \<Rightarrow>
          Some (res_bind (mq_push g (frames c) (v_fpool s)) (\<lambda>(q, P).
            Inr (s\<lparr>v_chan := c\<lparr>frames := q\<rparr>, v_fpool := P, v_decode := VDLoop\<rparr>)))
      | VDExit \<Rightarrow>
          Some (res_bind (releaseAvFrame (v_frame s) (v_fpool s)) (\<lambda>(g, F).
            res_bind (releaseAvPacket (v_packet s) (v_ppool s)) (\<lambda>(p, P).
            Inr (s\<lparr>v_frame := g, v_fpool := F, v_packet := p, v_ppool := P, v_decode := VDDone\<rparr>))))
      | VDDone \<Rightarrow> None)"

section \<open>The render thread\<close>

text \<open>
  One step of \<open>VideoChannel::render\<close>; \<open>ts\<close> and \<open>rep\<close> are the timestamp and the repeat count of a
  frame. A pop that succeeds overwrites \<open>frame\<close>, so a frame still held there is lost.
\<close>

definition video_render_step :: "(ptr \<Rightarrow> int) \<Rightarrow> (ptr \<Rightarrow> int) \<Rightarrow> video_sys \<Rightarrow> video_sys res option" where
  "video_render_step ts rep s =
     (let c = v_chan s in
      case v_render s of
        VRLoop \<Rightarrow> Some (Inr (s\<lparr>v_render := if isPlaying c then VRPop else VRExit\<rparr>))
      | VRPop \<Rightarrow>
          (case mq_pop (r_frame s) (frames c) of
             (Wait, _) \<Rightarrow> None
           | (Ret r f, q) \<Rightarrow>
               Some (Inr (s\<lparr>v_chan := c\<lparr>frames := q\<rparr>, r_frame := f, v_render := VRPopped r,
                 v_lost := v_lost s \<union> (if f \<noteq> r_frame s then {r_frame s} - {null} else {})\<rparr>)))
      | VRPopped r \<Rightarrow>
          Some (Inr (s\<lparr>v_render := if \<not> isPlaying c then VRExit else if r = 0 then VRLoop else VRSync\<rparr>))
      | VRSync \<Rightarrow>
          (if r_frame s = null then Some (Inl NullDeref)
           else case v_audioTime s of
             None \<Rightarrow> Some (Inl NullDeref)
           | Some audioT \<Rightarrow>
               (let videoT = stream_seconds c (ts (r_frame s)) in
                Some (res_bind (sync_action_of (rep (r_frame s)) (v_fps s) videoT audioT) (\<lambda>a.
                  Inr (s\<lparr>v_chan := c\<lparr>videoTime := videoT\<rparr>,
                         v_render := (case a of DropAndSkip \<Rightarrow> VRDrop | _ \<Rightarrow> VRRender)\<rparr>)))))
      | VRDrop \<Rightarrow>
          Some (res_bind (mq_sync (frames c) (v_fpool s)) (\<lambda>(q, P).
            Inr (s\<lparr>v_chan := c\<lparr>frames := q\<rparr>, v_fpool := P, v_render := VRLoop\<rparr>)))
      | VRRender \<Rightarrow>
          Some (res_bind (releaseAvFrame (r_frame s) (v_fpool s)) (\<lambda>(f, P).
            Inr (s\<lparr>r_frame := f, v_fpool := P, v_render := VRLoop, v_shown := v_shown s @ [r_frame s]\<rparr>)))
      | VRExit \<Rightarrow>
          Some (res_bind (releaseAvFrame (r_frame s) (v_fpool s)) (\<lambda>(f, P).
            Inr (s\<lparr>r_frame := f, v_fpool := P, v_chan := c\<lparr>isPlaying := False\<rparr>, v_render := VRDone\<rparr>)))
      | VRDone \<Rightarrow> None)"

section \<open>Stopping, and everything together\<close>

definition video_stop_step :: "video_sys \<Rightarrow> video_sys option" where
  "video_stop_step s =
     (let c = v_chan s in
      case v_stop s of
        VNotStopped \<Rightarrow> Some (s\<lparr>v_chan := c\<lparr>isPlaying := False\<rparr>, v_stop := VStopFlag\<rparr>)
      | VStopFlag \<Rightarrow> Some (s\<lparr>v_chan := c\<lparr>frames := mq_backWork (frames c)\<rparr>, v_stop := VStopFrames\<rparr>)
      | VStopFrames \<Rightarrow> Some (s\<lparr>v_chan := c\<lparr>packets := mq_backWork (packets c)\<rparr>, v_stop := VStopPackets\<rparr>)
      | VStopPackets \<Rightarrow> if v_decode s = VDDone \<and> v_render s = VRDone then Some (s\<lparr>v_stop := VStopJoined\<rparr>) else None
      | VStopJoined \<Rightarrow> None)"

text \<open>
  The audio clock is moved by the audio channel at any time. \<open>av_frame_alloc\<close> returns a frame that
  is not in use, or null (which is never in the pool).
\<close>

inductive video_step :: "video_sys \<Rightarrow> video_sys \<Rightarrow> bool" where
  demux: "p \<noteq> null \<Longrightarrow> p \<notin> v_ppool s \<Longrightarrow>
     mq_push p (packets (v_chan s)) (insert p (v_ppool s)) = Inr (q, P) \<Longrightarrow>
     video_step s (s\<lparr>v_chan := (v_chan s)\<lparr>packets := q\<rparr>, v_ppool := P\<rparr>)"
| decode: "f \<notin> v_fpool s \<Longrightarrow> video_decode_step sent received f s = Some (Inr s') \<Longrightarrow>
     video_step s s'"
| render: "video_render_step ts rep s = Some (Inr s') \<Longrightarrow> video_step s s'"
| clock: "v_audioTime s = Some t \<Longrightarrow> video_step s (s\<lparr>v_audioTime := Some t'\<rparr>)"
| stop: "video_stop_step s = Some s' \<Longrightarrow> video_step s s'"

section \<open>The invariant\<close>

definition vpush_frame :: "video_decode_pc \<Rightarrow> pool" where
  "vpush_frame d = (case d of VDPush f \<Rightarrow> {f} | _ \<Rightarrow> {})"

lemma vpush_simps [simp]:
  "vpush_frame VDInit = {}" "vpush_frame VDLoop = {}" "vpush_frame VDFull = {}" "vpush_frame VDPop = {}"
  "vpush_frame (VDPopped r) = {}" "vpush_frame VDSend = {}" "vpush_frame VDReceive = {}"
  "vpush_frame VDFilter = {}" "vpush_frame (VDPush f) = {f}" "vpush_frame VDExit = {}" "vpush_frame VDDone = {}"
  by (simp_all add: vpush_frame_def)

text \<open>The frames outside the queue, by holder; the four sets are disjoint.\<close>

definition video_hands :: "pool \<Rightarrow> ptr \<Rightarrow> ptr \<Rightarrow> pool \<Rightarrow> pool" where
  "video_hands pushed vf rf lost = pushed \<union> ({vf} - {0}) \<union> ({rf} - {0}) \<union> lost"

definition video_apart :: "pool \<Rightarrow> ptr \<Rightarrow> ptr \<Rightarrow> pool \<Rightarrow> bool" where
  "video_apart pushed vf rf lost \<longleftrightarrow>
     pushed \<inter> ({vf, rf} \<union> lost) = {} \<and> (vf \<noteq> 0 \<longrightarrow> vf \<noteq> rf \<and> vf \<notin> lost) \<and> (rf \<noteq> 0 \<longrightarrow> rf \<notin> lost)"

definition video_hands_ok :: "video_sys \<Rightarrow> bool" where
  "video_hands_ok s \<longleftrightarrow>
     held (packets (v_chan s)) (v_ppool s) ({v_packet s} - {0}) \<and>
     held (frames (v_chan s)) (v_fpool s)
       (video_hands (vpush_frame (v_decode s)) (v_frame s) (r_frame s) (v_lost s)) \<and>
     video_apart (vpush_frame (v_decode s)) (v_frame s) (r_frame s) (v_lost s) \<and>
     syncHandle (frames (v_chan s)) = Some dropAvFrame"

text \<open>How the sets change when an object moves.\<close>

lemma video_hands_moves:
  "f \<noteq> 0 \<Longrightarrow> insert f (video_hands {} 0 rf lost) = video_hands {} f rf lost"
  "f \<noteq> 0 \<Longrightarrow> insert f (video_hands {} vf rf lost) = video_hands {f} vf rf lost"
  "video_apart {g} vf rf lost \<Longrightarrow> 0 \<notin> lost \<Longrightarrow> video_hands {g} vf rf lost - {g} = video_hands {} vf rf lost"
  "video_apart {} vf rf lost \<Longrightarrow> 0 \<notin> lost \<Longrightarrow> video_hands {} vf rf lost - {vf} = video_hands {} 0 rf lost"
  "video_apart X vf rf lost \<Longrightarrow> 0 \<notin> lost \<Longrightarrow> 0 \<notin> X \<Longrightarrow> video_hands X vf rf lost - {rf} = video_hands X vf 0 lost"
  "f \<noteq> 0 \<Longrightarrow> insert f (video_hands X vf rf lost) = video_hands X vf f (lost \<union> ({rf} - {0}))"
  by (auto simp: video_hands_def video_apart_def)

lemma video_apart_moves:
  "video_apart {} 0 rf lost \<Longrightarrow> f \<notin> video_hands {} 0 rf lost \<Longrightarrow> video_apart {} f rf lost"
  "video_apart {} vf rf lost \<Longrightarrow> f \<noteq> 0 \<Longrightarrow> f \<notin> video_hands {} vf rf lost \<Longrightarrow> video_apart {f} vf rf lost"
  "video_apart {g} vf rf lost \<Longrightarrow> video_apart {} vf rf lost"
  "video_apart X vf rf lost \<Longrightarrow> 0 \<notin> X \<Longrightarrow> video_apart X 0 rf lost"
  "video_apart X vf rf lost \<Longrightarrow> 0 \<notin> X \<Longrightarrow> video_apart X vf 0 lost"
  "video_apart X vf rf lost \<Longrightarrow> f \<notin> video_hands X vf rf lost \<Longrightarrow> video_apart X vf f (lost \<union> ({rf} - {0}))"
  by (auto simp: video_hands_def video_apart_def)

lemma video_hands_mem:
  "vf = 0 \<or> vf \<in> video_hands X vf rf lost" "rf = 0 \<or> rf \<in> video_hands X vf rf lost"
  "g \<in> video_hands {g} vf rf lost"
  by (auto simp: video_hands_def)

lemma video_hands_zero: "0 \<notin> video_hands X vf rf lost \<Longrightarrow> 0 \<notin> lost \<and> 0 \<notin> X"
  by (auto simp: video_hands_def)

definition video_decode_ok :: "video_decode_pc \<Rightarrow> ptr \<Rightarrow> ptr \<Rightarrow> bool \<Rightarrow> bool" where
  "video_decode_ok d p fr playing \<longleftrightarrow>
     (case d of VDSend \<Rightarrow> True | VDExit \<Rightarrow> True
      | VDPopped r \<Rightarrow> r = 0 \<longrightarrow> \<not> playing \<and> p = 0
      | VDInit \<Rightarrow> p = 0 \<and> fr = 0 | VDDone \<Rightarrow> p = 0 \<and> fr = 0 | _ \<Rightarrow> p = 0)"

definition video_render_ok :: "video_render_pc \<Rightarrow> ptr \<Rightarrow> bool \<Rightarrow> bool" where
  "video_render_ok r f playing \<longleftrightarrow>
     (case r of VRPopped n \<Rightarrow> if n = 0 then \<not> playing else f \<noteq> 0
      | VRSync \<Rightarrow> f \<noteq> 0 | VRDrop \<Rightarrow> f \<noteq> 0 | VRRender \<Rightarrow> f \<noteq> 0
      | VRExit \<Rightarrow> \<not> playing | VRDone \<Rightarrow> \<not> playing \<and> f = 0 | _ \<Rightarrow> True)"

definition video_stop_ok :: "video_stop_pc \<Rightarrow> bool \<Rightarrow> bool \<Rightarrow> bool \<Rightarrow> bool \<Rightarrow> bool" where
  "video_stop_ok st playing pw fw joined \<longleftrightarrow>
     (case st of
        VNotStopped \<Rightarrow> playing \<and> pw \<and> fw
      | VStopFlag \<Rightarrow> \<not> playing \<and> pw \<and> fw
      | VStopFrames \<Rightarrow> \<not> playing \<and> pw \<and> \<not> fw
      | VStopPackets \<Rightarrow> \<not> playing \<and> \<not> pw \<and> \<not> fw
      | VStopJoined \<Rightarrow> \<not> playing \<and> \<not> pw \<and> \<not> fw \<and> joined)"

definition video_flags_ok :: "video_sys \<Rightarrow> bool" where
  "video_flags_ok s \<longleftrightarrow>
     video_stop_ok (v_stop s) (isPlaying (v_chan s)) (state (packets (v_chan s)))
       (state (frames (v_chan s))) (v_decode s = VDDone \<and> v_render s = VRDone) \<and>
     video_decode_ok (v_decode s) (v_packet s) (v_frame s) (isPlaying (v_chan s)) \<and>
     video_render_ok (v_render s) (r_frame s) (isPlaying (v_chan s))"

definition video_inv :: "video_sys \<Rightarrow> bool" where
  "video_inv s \<longleftrightarrow> video_hands_ok s \<and> video_flags_ok s"

lemmas video_ok_defs = video_inv_def video_hands_ok_def video_flags_ok_def

lemma video_stop_ok_mono:
  "video_stop_ok st playing pw fw joined \<Longrightarrow> (joined \<Longrightarrow> joined') \<Longrightarrow>
     video_stop_ok st playing pw fw joined'"
  by (cases st) (simp_all add: video_stop_ok_def)

lemma video_stop_ok_playing:
  "video_stop_ok st playing pw fw joined \<Longrightarrow> playing \<Longrightarrow> pw \<and> fw"
  by (cases st; simp add: video_stop_ok_def)+

section \<open>The invariant holds\<close>

lemma dropAvFrame_held:
  assumes h: "held q P X" and handle: "syncHandle q = Some dropAvFrame"
  shows "\<exists>q' P'. mq_sync q P = Inr (q', P') \<and> held q' P' X \<and> state q' = state q \<and> syncHandle q' = syncHandle q"
proof (cases "queue q")
  case Nil
  then have "q\<lparr>queue := []\<rparr> = q" by (metis message_queue.surjective message_queue.update_convs(1))
  then have "mq_sync q P = Inr (q, P)" by (simp add: mq_sync_def handle dropAvFrame_def Nil)
  then show ?thesis using h by blast
next
  case (Cons f fs)
  with h have f: "f \<noteq> 0" "f \<in> P" "f \<notin> set fs" "f \<notin> X" by (auto simp: held_def)
  then have "releaseAvFrame f P = Inr (0, P - {f})" by (simp add: release_eq_pool_free pool_free_live)
  moreover have "held (q\<lparr>queue := fs\<rparr>) (P - {f}) X" using h f Cons by (auto simp: held_def)
  ultimately show ?thesis by (simp add: mq_sync_def handle dropAvFrame_def Cons)
qed

lemma video_init_inv: "video_inv (video_init i ctx num den flags fps audio)"
  using BaseChannel_held [of i ctx num den]
  by (simp add: video_ok_defs video_init_def video_start_def VideoChannel_def Let_def video_hands_def
      video_apart_def video_stop_ok_def video_decode_ok_def video_render_ok_def mq_setSyncHandle_def
      held_sync [unfolded mq_setSyncHandle_def])

lemma video_inv_parts:
  assumes "video_inv s"
  shows "held (packets (v_chan s)) (v_ppool s) ({v_packet s} - {0})"
    and "held (frames (v_chan s)) (v_fpool s)
       (video_hands (vpush_frame (v_decode s)) (v_frame s) (r_frame s) (v_lost s))"
    and "video_apart (vpush_frame (v_decode s)) (v_frame s) (r_frame s) (v_lost s)"
    and "syncHandle (frames (v_chan s)) = Some dropAvFrame"
    and "video_stop_ok (v_stop s) (isPlaying (v_chan s)) (state (packets (v_chan s)))
       (state (frames (v_chan s))) (v_decode s = VDDone \<and> v_render s = VRDone)"
    and "video_decode_ok (v_decode s) (v_packet s) (v_frame s) (isPlaying (v_chan s))"
    and "video_render_ok (v_render s) (r_frame s) (isPlaying (v_chan s))"
    and "0 \<notin> v_lost s" and "0 \<notin> vpush_frame (v_decode s)"
proof -
  show parts: "held (packets (v_chan s)) (v_ppool s) ({v_packet s} - {0})"
    "held (frames (v_chan s)) (v_fpool s)
       (video_hands (vpush_frame (v_decode s)) (v_frame s) (r_frame s) (v_lost s))"
    "video_apart (vpush_frame (v_decode s)) (v_frame s) (r_frame s) (v_lost s)"
    "syncHandle (frames (v_chan s)) = Some dropAvFrame"
    "video_stop_ok (v_stop s) (isPlaying (v_chan s)) (state (packets (v_chan s)))
       (state (frames (v_chan s))) (v_decode s = VDDone \<and> v_render s = VRDone)"
    "video_decode_ok (v_decode s) (v_packet s) (v_frame s) (isPlaying (v_chan s))"
    "video_render_ok (v_render s) (r_frame s) (isPlaying (v_chan s))"
    using assms by (simp_all add: video_ok_defs)
  show "0 \<notin> v_lost s" "0 \<notin> vpush_frame (v_decode s)"
    using video_hands_zero [OF held_zero [OF parts(2)]] by blast+
qed

lemma video_demux_inv:
  assumes inv: "video_inv s" and p: "p \<noteq> 0" "p \<notin> v_ppool s"
    and push: "mq_push p (packets (v_chan s)) (insert p (v_ppool s)) = Inr (q, P)"
  shows "video_inv (s\<lparr>v_chan := (v_chan s)\<lparr>packets := q\<rparr>, v_ppool := P\<rparr>)"
proof -
  note h = video_inv_parts(1) [OF inv]
  have "p \<notin> {v_packet s} - {0}" using h p by (auto simp: held_def)
  then have eq: "insert p ({v_packet s} - {0}) - {p} = {v_packet s} - {0}" by auto
  have "held q P ({v_packet s} - {0}) \<and> state q = state (packets (v_chan s))"
    using held_push [OF held_fresh [OF h p], of p] push eq by (metis Inr_inject insertI1 prod.inject)
  then show ?thesis using inv by (simp add: video_ok_defs)
qed

lemma video_render_ok_quiet: "video_render_ok r f playing \<Longrightarrow> video_render_ok r f False"
  by (cases r) (simp_all add: video_render_ok_def split: if_splits)

lemma video_decode_ok_quiet: "video_decode_ok d p fr playing \<Longrightarrow> video_decode_ok d p fr False"
  by (cases d) (simp_all add: video_decode_ok_def)

lemma video_stop_inv: "video_inv s \<Longrightarrow> video_stop_step s = Some t \<Longrightarrow> video_inv t"
  by (cases "v_stop s")
    (auto simp: video_ok_defs video_stop_ok_def video_stop_step_def Let_def mq_backWork_def [of "frames _"]
      held_states(2) [unfolded mq_backWork_def]
      intro: video_decode_ok_quiet video_render_ok_quiet split: if_splits)

lemma video_clock_inv: "video_inv s \<Longrightarrow> video_inv (s\<lparr>v_audioTime := t\<rparr>)"
  by (simp add: video_ok_defs)

lemma video_decode_move:
  assumes "video_inv s" and "v_decode s \<in> {VDLoop, VDFull} \<or> (\<exists>r. v_decode s = VDPopped r) \<or>
      v_decode s = VDReceive \<and> v_frame s \<noteq> 0 \<or> v_decode s = VDSend \<and> sent \<noteq> 0 \<or>
      v_decode s = VDInit \<and> f = 0"
    and "video_decode_step sent received f s = Some r"
  shows "\<exists>t. r = Inr t \<and> video_inv t"
  using assms
  by (auto simp: video_ok_defs video_decode_ok_def video_decode_step_def Let_def elim!: video_stop_ok_mono)

lemma video_decode_pop:
  assumes inv: "video_inv s" and d: "v_decode s = VDPop"
    and step: "video_decode_step sent received f s = Some r"
  shows "\<exists>t. r = Inr t \<and> video_inv t"
proof -
  note h = video_inv_parts [OF inv]
  have p0: "v_packet s = 0" using h(6) d by (simp add: video_decode_ok_def)
  from step d obtain n p q where pop: "mq_pop 0 (packets (v_chan s)) = (Ret n p, q)"
    and r: "r = Inr (s\<lparr>v_chan := (v_chan s)\<lparr>packets := q\<rparr>, v_packet := p, v_decode := VDPopped n\<rparr>)"
    by (auto simp: video_decode_step_def p0 Let_def split: prod.splits pop_result.splits)
  from held_pop [OF h(1) pop] p0
  have q: "state q = state (packets (v_chan s))"
    "n = 1 \<and> p \<noteq> 0 \<and> held q (v_ppool s) {p} \<or>
     n = 0 \<and> p = 0 \<and> q = packets (v_chan s) \<and> \<not> state (packets (v_chan s))" by auto
  have "n = 0 \<Longrightarrow> \<not> isPlaying (v_chan s)" using video_stop_ok_playing [OF h(5)] q(2) by auto
  then show ?thesis using q h d p0
    by (auto simp: r video_ok_defs video_decode_ok_def elim!: video_stop_ok_mono)
qed

lemma video_decode_send:
  assumes inv: "video_inv s" and d: "v_decode s = VDSend"
    and step: "video_decode_step sent received f s = Some r"
  shows "\<exists>t. r = Inr t \<and> video_inv t"
proof (cases "sent = 0")
  case True
  note h = video_inv_parts [OF inv]
  obtain P where P: "releaseAvPacket (v_packet s) (v_ppool s) = Inr (0, P)" "held (packets (v_chan s)) P {}"
    using held_release_own [OF h(1)] by blast
  then show ?thesis using step d h True
    by (auto simp: video_decode_step_def Let_def video_ok_defs video_decode_ok_def elim!: video_stop_ok_mono)
qed (use assms video_decode_move in blast)

lemma video_decode_alloc:
  assumes inv: "video_inv s" and d: "v_decode s \<in> {VDInit, VDFilter}" and f: "f \<noteq> 0" "f \<notin> v_fpool s"
    and step: "video_decode_step sent received f s = Some r"
  shows "\<exists>t. r = Inr t \<and> video_inv t"
proof -
  note h = video_inv_parts [OF inv]
  note fr = held_fresh [OF h(2) f]
  have nf: "f \<notin> video_hands (vpush_frame (v_decode s)) (v_frame s) (r_frame s) (v_lost s)"
    using h(2) f(2) by (auto simp: held_def)
  from d consider (init) "v_decode s = VDInit" | (filter) "v_decode s = VDFilter" by blast
  then show ?thesis
  proof cases
    case init
    then have z: "v_frame s = 0" "v_packet s = 0" using h(6) by (simp_all add: video_decode_ok_def)
    have "held (frames (v_chan s)) (insert f (v_fpool s)) (video_hands {} f (r_frame s) (v_lost s))"
      "video_apart {} f (r_frame s) (v_lost s)"
      using fr nf h(3) video_hands_moves(1) [OF f(1)] video_apart_moves(1) by (simp_all add: init z)
    then show ?thesis using step init z f h
      by (auto simp: video_decode_step_def Let_def video_ok_defs video_decode_ok_def elim!: video_stop_ok_mono)
  next
    case filter
    have "held (frames (v_chan s)) (insert f (v_fpool s)) (video_hands {f} (v_frame s) (r_frame s) (v_lost s))"
      "video_apart {f} (v_frame s) (r_frame s) (v_lost s)"
      using fr nf h(3) video_hands_moves(2) [OF f(1)] video_apart_moves(2) [OF _ f(1)] by (simp_all add: filter)
    then show ?thesis using step filter f h
      by (auto simp: video_decode_step_def Let_def video_ok_defs video_decode_ok_def elim!: video_stop_ok_mono)
  qed
qed

lemma video_decode_push:
  assumes inv: "video_inv s" and d: "v_decode s = VDPush g"
    and step: "video_decode_step sent received f s = Some r"
  shows "\<exists>t. r = Inr t \<and> video_inv t"
proof -
  note h = video_inv_parts [OF inv]
  obtain q P where q: "mq_push g (frames (v_chan s)) (v_fpool s) = Inr (q, P)"
      "held q P (video_hands (vpush_frame (v_decode s)) (v_frame s) (r_frame s) (v_lost s) - {g})"
      "state q = state (frames (v_chan s))"
    using held_push [OF h(2), of g] video_hands_mem(3) d by (metis vpush_simps(9))
  have "syncHandle q = syncHandle (frames (v_chan s))"
    using q(1) by (auto simp: mq_push_def res_simps split: if_splits)
  moreover have "held q P (video_hands {} (v_frame s) (r_frame s) (v_lost s))"
    using q(2) video_hands_moves(3) [of g] h(3,8) d by simp
  ultimately show ?thesis using step d q(1,3) h video_apart_moves(3)
    by (auto simp: video_decode_step_def Let_def video_ok_defs video_decode_ok_def elim!: video_stop_ok_mono)
qed

lemma video_decode_exit:
  assumes inv: "video_inv s" and d: "v_decode s = VDExit"
    and step: "video_decode_step sent received f s = Some r"
  shows "\<exists>t. r = Inr t \<and> video_inv t"
proof -
  note h = video_inv_parts [OF inv]
  obtain F where F: "releaseAvFrame (v_frame s) (v_fpool s) = Inr (0, F)"
      "held (frames (v_chan s)) F (video_hands {} 0 (r_frame s) (v_lost s))"
    using held_release_var(1) [OF h(2) video_hands_mem(1)] video_hands_moves(4) h(3,8) d by auto
  obtain P where P: "releaseAvPacket (v_packet s) (v_ppool s) = Inr (0, P)" "held (packets (v_chan s)) P {}"
    using held_release_own [OF h(1)] by blast
  show ?thesis using step d F P h video_apart_moves(4) [OF h(3)]
    by (auto simp: video_decode_step_def Let_def video_ok_defs video_decode_ok_def elim!: video_stop_ok_mono)
qed

definition video_null_frame :: "ptr \<Rightarrow> video_sys \<Rightarrow> bool" where
  "video_null_frame f s \<longleftrightarrow> v_decode s = VDReceive \<and> v_frame s = null \<or> v_decode s = VDFilter \<and> f = null"

lemma video_decode_null_frame:
  "video_null_frame f s \<Longrightarrow> video_decode_step sent received f s = Some (Inl NullDeref)"
  by (auto simp: video_null_frame_def video_decode_step_def Let_def)

lemma video_decode_inv:
  assumes inv: "video_inv s" and f: "f \<notin> v_fpool s" and ok: "\<not> video_null_frame f s"
    and step: "video_decode_step sent received f s = Some r"
  shows "\<exists>t. r = Inr t \<and> video_inv t"
proof (cases "v_decode s")
  case (VDPush g)
  then show ?thesis by (rule video_decode_push [OF inv _ step])
next
  case VDDone
  then show ?thesis using step by (simp add: video_decode_step_def Let_def)
next
  case VDSend
  then show ?thesis by (rule video_decode_send [OF inv _ step])
next
  case VDExit
  then show ?thesis by (rule video_decode_exit [OF inv _ step])
next
  case VDPop
  then show ?thesis by (rule video_decode_pop [OF inv _ step])
next
  case VDReceive
  then show ?thesis using video_decode_move [OF inv _ step] ok by (simp add: video_null_frame_def)
next
  case VDInit
  then show ?thesis using video_decode_move [OF inv _ step] video_decode_alloc [OF inv _ _ f step] by blast
next
  case VDFilter
  then show ?thesis using video_decode_alloc [OF inv _ _ f step] ok by (simp add: video_null_frame_def)
qed (use video_decode_move [OF inv _ step] in simp_all)

lemma video_decode_fault_iff:
  assumes inv: "video_inv s" and f: "f \<notin> v_fpool s"
  shows "video_decode_step sent received f s = Some (Inl e) \<longleftrightarrow> e = NullDeref \<and> video_null_frame f s"
proof
  assume fault: "video_decode_step sent received f s = Some (Inl e)"
  then have "video_null_frame f s" using video_decode_inv [OF inv f _ fault] by blast
  with fault video_decode_null_frame [OF this] show "e = NullDeref \<and> video_null_frame f s" by simp
qed (use video_decode_null_frame in blast)

lemma video_decode_keeps:
  assumes "video_inv s" and "f \<notin> v_fpool s" and "video_decode_step sent received f s = Some (Inr t)"
  shows "video_inv t"
proof -
  have "\<not> video_null_frame f s"
    by (rule notI) (use assms(3) video_decode_null_frame [of f s sent received] in simp)
  then show ?thesis using video_decode_inv [OF assms(1,2) _ assms(3)] by auto
qed

lemma video_render_move:
  assumes "video_inv s" and "v_render s = VRLoop \<or> (\<exists>n. v_render s = VRPopped n)"
    and "video_render_step ts rep s = Some r"
  shows "\<exists>t. r = Inr t \<and> video_inv t"
  using assms
  by (auto simp: video_ok_defs video_render_ok_def video_render_step_def Let_def elim!: video_stop_ok_mono)

lemma video_render_pop:
  assumes inv: "video_inv s" and v: "v_render s = VRPop"
    and step: "video_render_step ts rep s = Some r"
  shows "\<exists>t. r = Inr t \<and> video_inv t"
proof -
  note h = video_inv_parts [OF inv]
  let ?X = "video_hands (vpush_frame (v_decode s)) (v_frame s) (r_frame s) (v_lost s)"
  from step v obtain n p q where pop: "mq_pop (r_frame s) (frames (v_chan s)) = (Ret n p, q)"
    and r: "r = Inr (s\<lparr>v_chan := (v_chan s)\<lparr>frames := q\<rparr>, r_frame := p, v_render := VRPopped n,
         v_lost := v_lost s \<union> (if p \<noteq> r_frame s then {r_frame s} - {0} else {})\<rparr>)"
    by (auto simp: video_render_step_def Let_def split: prod.splits pop_result.splits)
  have sync: "syncHandle q = syncHandle (frames (v_chan s))"
    using pop by (auto simp: mq_pop_def split: if_splits list.splits)
  from held_pop [OF h(2) pop] have st: "state q = state (frames (v_chan s))"
    and "n = 1 \<and> p \<noteq> 0 \<and> p \<notin> ?X \<and> held q (v_fpool s) (insert p ?X) \<or>
      n = 0 \<and> p = r_frame s \<and> q = frames (v_chan s) \<and> \<not> state (frames (v_chan s))" by auto
  then consider (got) "n = 1" "p \<noteq> 0" "p \<notin> ?X" "held q (v_fpool s) (insert p ?X)"
    | (stopped) "n = 0" "p = r_frame s" "q = frames (v_chan s)" "\<not> state (frames (v_chan s))" by blast
  then show ?thesis
  proof cases
    case got
    have "held q (v_fpool s) (video_hands (vpush_frame (v_decode s)) (v_frame s) p (v_lost s \<union> ({r_frame s} - {0})))"
      "video_apart (vpush_frame (v_decode s)) (v_frame s) p (v_lost s \<union> ({r_frame s} - {0}))"
      using got(4) video_hands_moves(6) [OF got(2)] video_apart_moves(6) [OF h(3) got(3)] by simp_all
    moreover have "p \<noteq> r_frame s" using got(2,3) by (auto simp: video_hands_def)
    ultimately show ?thesis using got(1,2) h st sync v
      by (auto simp: r video_ok_defs video_render_ok_def elim!: video_stop_ok_mono)
  next
    case stopped
    have "\<not> isPlaying (v_chan s)" using video_stop_ok_playing [OF h(5)] stopped(4) by auto
    then show ?thesis using stopped h v
      by (auto simp: r video_ok_defs video_render_ok_def elim!: video_stop_ok_mono)
  qed
qed

lemma video_render_drop:
  assumes inv: "video_inv s" and v: "v_render s = VRDrop"
    and step: "video_render_step ts rep s = Some r"
  shows "\<exists>t. r = Inr t \<and> video_inv t"
proof -
  note h = video_inv_parts [OF inv]
  from dropAvFrame_held [OF h(2,4)] obtain q P where q: "mq_sync (frames (v_chan s)) (v_fpool s) = Inr (q, P)"
      "held q P (video_hands (vpush_frame (v_decode s)) (v_frame s) (r_frame s) (v_lost s))"
      "state q = state (frames (v_chan s))" "syncHandle q = syncHandle (frames (v_chan s))"
    by blast
  then show ?thesis using step v h
    by (auto simp: video_render_step_def Let_def video_ok_defs video_render_ok_def elim!: video_stop_ok_mono)
qed

lemma video_render_release:
  assumes inv: "video_inv s" and v: "v_render s = VRRender \<or> v_render s = VRExit"
    and step: "video_render_step ts rep s = Some r"
  shows "\<exists>t. r = Inr t \<and> video_inv t"
proof -
  note h = video_inv_parts [OF inv]
  obtain F where F: "releaseAvFrame (r_frame s) (v_fpool s) = Inr (0, F)"
      "held (frames (v_chan s)) F (video_hands (vpush_frame (v_decode s)) (v_frame s) 0 (v_lost s))"
    using held_release_var(1) [OF h(2) video_hands_mem(2)] video_hands_moves(5) [OF h(3,8,9)] by auto
  have a: "video_apart (vpush_frame (v_decode s)) (v_frame s) 0 (v_lost s)"
    by (rule video_apart_moves(5) [OF h(3,9)])
  have "v_render s = VRExit \<Longrightarrow> \<not> isPlaying (v_chan s)" using h(7) by (simp add: video_render_ok_def)
  then have same: "v_render s = VRExit \<Longrightarrow> (v_chan s)\<lparr>isPlaying := False\<rparr> = v_chan s"
    by (cases "v_chan s") simp
  show ?thesis using v
  proof
    assume e: "v_render s = VRRender"
    then show ?thesis using step F a h
      by (auto simp: video_render_step_def Let_def video_ok_defs video_render_ok_def elim!: video_stop_ok_mono)
  next
    assume e: "v_render s = VRExit"
    then show ?thesis using step F a h same [OF e]
      by (auto simp: video_render_step_def Let_def video_ok_defs video_render_ok_def elim!: video_stop_ok_mono)
  qed
qed

lemma video_render_sync:
  assumes inv: "video_inv s" and v: "v_render s = VRSync"
    and step: "video_render_step ts rep s = Some r"
  shows "(\<exists>t. r = Inr t \<and> video_inv t) \<or> r = Inl NullDeref \<and> v_audioTime s = None \<or>
    (\<exists>e f v a. r = Inl e \<and> v_audioTime s = Some a \<and> sync_action_of (rep f) (v_fps s) v a = Inl e)"
proof -
  note h = video_inv_parts [OF inv]
  have f0: "r_frame s \<noteq> 0" using h(7) v by (simp add: video_render_ok_def)
  show ?thesis
  proof (cases "v_audioTime s")
    case None
    then show ?thesis using step v f0 by (simp add: video_render_step_def Let_def)
  next
    case (Some a)
    let ?v = "stream_seconds (v_chan s) (ts (r_frame s))"
    show ?thesis
    proof (cases "sync_action_of (rep (r_frame s)) (v_fps s) ?v a")
      case (Inl e)
      then have "r = Inl e" using step v f0 Some by (simp add: video_render_step_def Let_def)
      with Inl Some show ?thesis by blast
    next
      case (Inr act)
      then show ?thesis using step v f0 Some h
        by (cases act) (auto simp: video_render_step_def Let_def video_ok_defs video_render_ok_def
            elim!: video_stop_ok_mono)
    qed
  qed
qed

lemma video_render_inv:
  assumes inv: "video_inv s" and step: "video_render_step ts rep s = Some r"
  shows "(\<exists>t. r = Inr t \<and> video_inv t) \<or> r = Inl NullDeref \<and> v_audioTime s = None \<or>
    (\<exists>e f v a. r = Inl e \<and> v_audioTime s = Some a \<and> sync_action_of (rep f) (v_fps s) v a = Inl e)"
proof (cases "v_render s")
  case VRSync
  then show ?thesis by (rule video_render_sync [OF inv _ step])
next
  case VRPop
  then show ?thesis using video_render_pop [OF inv _ step] by blast
next
  case VRDrop
  then show ?thesis using video_render_drop [OF inv _ step] by blast
next
  case VRDone
  then show ?thesis using step by (simp add: video_render_step_def Let_def)
qed (use video_render_move [OF inv _ step] video_render_release [OF inv _ step] in simp_all)

lemma video_step_inv: "video_inv s \<Longrightarrow> video_step s t \<Longrightarrow> video_inv t"
proof (erule video_step.cases)
  fix ts rep u s'
  assume inv: "video_inv s" and eq: "s = u" "t = s'" and step: "video_render_step ts rep u = Some (Inr s')"
  have "video_render_step ts rep s = Some (Inr t)" using step eq by simp
  from video_render_inv [OF inv this] show "video_inv t" by auto
qed (auto dest: video_demux_inv video_decode_keeps video_stop_inv intro: video_clock_inv)

interpretation video: step_invariant
  "\<lambda>s. \<exists>i ctx num den flags fps audio. s = video_init i ctx num den flags fps audio" video_step video_inv
  by unfold_locales (auto simp: video_init_inv intro: video_step_inv)

lemma video_step_invs:
  "video_step\<^sup>*\<^sup>* (video_init i ctx num den flags fps audio) s \<Longrightarrow> video_inv s"
  using video.reachable_inv by blast

section \<open>Runs\<close>

datatype video_act = VDemux ptr | VDecode int int ptr | VRenderAct | VClock rat | VStop

definition video_act_run :: "(ptr \<Rightarrow> int) \<Rightarrow> (ptr \<Rightarrow> int) \<Rightarrow> video_act \<Rightarrow> video_sys \<Rightarrow> video_sys option" where
  "video_act_run ts rep a s =
     (case a of
        VDemux p \<Rightarrow>
          (if p = null \<or> p \<in> v_ppool s then None
           else case mq_push p (packets (v_chan s)) (insert p (v_ppool s)) of
               Inr (q, P) \<Rightarrow> Some (s\<lparr>v_chan := (v_chan s)\<lparr>packets := q\<rparr>, v_ppool := P\<rparr>)
             | Inl _ \<Rightarrow> None)
      | VDecode sent received f \<Rightarrow>
          (if f \<in> v_fpool s then None
           else case video_decode_step sent received f s of Some (Inr t) \<Rightarrow> Some t | _ \<Rightarrow> None)
      | VRenderAct \<Rightarrow> (case video_render_step ts rep s of Some (Inr t) \<Rightarrow> Some t | _ \<Rightarrow> None)
      | VClock t \<Rightarrow> (if v_audioTime s = None then None else Some (s\<lparr>v_audioTime := Some t\<rparr>))
      | VStop \<Rightarrow> video_stop_step s)"

fun video_run :: "(ptr \<Rightarrow> int) \<Rightarrow> (ptr \<Rightarrow> int) \<Rightarrow> video_act list \<Rightarrow> video_sys \<Rightarrow> video_sys option" where
  "video_run ts rep [] s = Some s"
| "video_run ts rep (a # as) s =
     (case video_act_run ts rep a s of None \<Rightarrow> None | Some t \<Rightarrow> video_run ts rep as t)"

lemma video_act_run_step: "video_act_run ts rep a s = Some t \<Longrightarrow> video_step s t"
  by (auto simp: video_act_run_def intro: video_step.intros split: video_act.splits if_splits sum.splits option.splits)

lemma video_run_steps: "video_run ts rep as s = Some t \<Longrightarrow> video_step\<^sup>*\<^sup>* s t"
  by (induction as arbitrary: s)
    (auto split: option.splits intro: converse_rtranclp_into_rtranclp video_act_run_step)

text \<open>The frame rate is constant, and a channel that has an audio clock keeps it.\<close>

lemma video_step_const:
  "video_step s t \<Longrightarrow> v_fps t = v_fps s \<and> (v_audioTime t = None \<longleftrightarrow> v_audioTime s = None)"
  by (erule video_step.cases)
    (auto simp: video_decode_step_def video_render_step_def video_stop_step_def Let_def res_bind_Inr_iff
      split: video_decode_pc.splits video_render_pc.splits video_stop_pc.splits if_splits option.splits
        prod.splits pop_result.splits)

lemma video_steps_const:
  "video_step\<^sup>*\<^sup>* s t \<Longrightarrow> v_fps t = v_fps s \<and> (v_audioTime t = None \<longleftrightarrow> v_audioTime s = None)"
  by (induction rule: rtranclp_induct) (auto dest: video_step_const)

section \<open>The delay computation\<close>

lemma usleep_seconds_ok: "0 \<le> x \<Longrightarrow> x \<le> 2147 \<Longrightarrow> usleep_seconds x = Inr (\<lfloor>x\<rfloor> * 1000000)"
proof -
  assume x: "0 \<le> x" "x \<le> 2147"
  then have f: "0 \<le> \<lfloor>x\<rfloor>" "\<lfloor>x\<rfloor> \<le> 2147" using floor_mono [OF x(2)] by simp_all
  then have "c_int \<lfloor>x\<rfloor> = Inr \<lfloor>x\<rfloor>" "c_int (\<lfloor>x\<rfloor> * 1000000) = Inr (\<lfloor>x\<rfloor> * 1000000)"
    by (intro c_int_in_range; linarith)+
  with x(1) show ?thesis by (simp add: usleep_seconds_def trunc_def c_mul_def)
qed

lemma sync_action_ok:
  assumes "0 < fps" and "0 \<le> r" and "r \<le> 1000"
  shows "\<exists>act. sync_action_of r fps v a = Inr act"
proof -
  have "(0::rat) \<le> 1 / of_int fps" "1 / of_int fps \<le> (1::rat)" using assms(1) by simp_all
  moreover have "(0::rat) \<le> of_int r" "of_int r \<le> (1000::rat)" using assms(2,3) by simp_all
  ultimately have d: "0 \<le> of_int r + 1 / rat_of_int fps" "of_int r + 1 / rat_of_int fps \<le> 1001" by linarith+
  then have "usleep_seconds ((of_int r + 1 / of_int fps) * 2) =
      Inr (\<lfloor>(of_int r + 1 / rat_of_int fps) * 2\<rfloor> * 1000000)"
    by (intro usleep_seconds_ok) simp_all
  moreover have "usleep_seconds (v - a + (of_int r + 1 / of_int fps)) =
      Inr (\<lfloor>v - a + (of_int r + 1 / rat_of_int fps)\<rfloor> * 1000000)" if "0 < v - a" "\<not> 1 < v - a"
    using that d by (intro usleep_seconds_ok) linarith+
  ultimately show ?thesis using assms(1) by (simp add: sync_action_of_def Let_def)
qed

section \<open>Properties\<close>

text \<open>C2: In every state the video channel can reach, by any interleaving of demultiplexer, decode
  thread, render thread, audio clock and \<open>stop\<close> and for any answers of the decoder: the push of a
  packet succeeds; a step of the decode thread faults exactly when \<open>av_frame_alloc\<close> has failed and
  the null frame goes untested to the decoder or to the filter, so it frees nothing twice; and no
  step of the render thread faults, provided an audio channel is set, the frame rate is positive
  and the repeat counts are between 0 and 1000.\<close>

theorem video_threads_safe:
  assumes "video_step\<^sup>*\<^sup>* (video_init i ctx num den flags fps (Some a)) s"
    and "0 < fps" and "\<And>g. 0 \<le> rep g \<and> rep g \<le> 1000" and "f \<notin> v_fpool s"
  shows "(video_decode_step sent received f s = Some (Inl e) \<longleftrightarrow> e = NullDeref \<and>
       (v_decode s = VDReceive \<and> v_frame s = null \<or> v_decode s = VDFilter \<and> f = null)) \<and>
    (p \<noteq> null \<and> p \<notin> v_ppool s \<longrightarrow>
       (\<exists>q P. mq_push p (packets (v_chan s)) (insert p (v_ppool s)) = Inr (q, P))) \<and>
    video_render_step ts rep s \<noteq> Some (Inl e')"
proof (intro conjI impI)
  have inv: "video_inv s" by (rule video_step_invs [OF assms(1)])
  have c: "v_fps s = fps" "v_audioTime s \<noteq> None"
    using video_steps_const [OF assms(1)] by (simp_all add: video_init_def)
  have "sync_action_of (rep g) (v_fps s) v b \<noteq> Inl d" for g v b d
    using sync_action_ok [OF assms(2), of "rep g" v b] assms(3) [of g] c(1) by auto
  then show "video_render_step ts rep s \<noteq> Some (Inl e')"
    using video_render_inv [OF inv, of ts rep "Inl e'"] c(2) by auto
  show "video_decode_step sent received f s = Some (Inl e) \<longleftrightarrow> e = NullDeref \<and>
      (v_decode s = VDReceive \<and> v_frame s = null \<or> v_decode s = VDFilter \<and> f = null)"
    using video_decode_fault_iff [OF inv assms(4)] by (simp add: video_null_frame_def)
  show "\<exists>q P. mq_push p (packets (v_chan s)) (insert p (v_ppool s)) = Inr (q, P)"
    if "p \<noteq> null \<and> p \<notin> v_ppool s"
    using held_push [OF held_fresh [OF video_inv_parts(1) [OF inv]], of p] that by blast
qed

text \<open>A run: a frame is decoded while the audio clock is one second ahead of it.\<close>

definition vdemo_acts :: "video_act list" where
  "vdemo_acts = VDemux 1 # VDemux 2 # VDecode 0 0 10 # replicate 7 (VDecode 0 0 1) @ [VDecode 0 0 9]"

definition vdemo_state :: "video_act list \<Rightarrow> video_sys" where
  "vdemo_state as = the (video_run (\<lambda>_. 0) (\<lambda>_. 0) as (video_init 1 1 1 25 (\<lambda>_. 0) 25 (Some 1)))"

lemma vdemo_state_reachable:
  "\<not> Option.is_none (video_run (\<lambda>_. 0) (\<lambda>_. 0) as (video_init 1 1 1 25 (\<lambda>_. 0) 25 (Some 1))) \<Longrightarrow>
     video_step\<^sup>*\<^sup>* (video_init 1 1 1 25 (\<lambda>_. 0) 25 (Some 1)) (vdemo_state as)"
  by (auto simp: vdemo_state_def Option.is_none_def intro: video_run_steps)

theorem video_threads_safe_witness:
  "v_fpool (vdemo_state vdemo_acts) = {1, 10} \<and>
   video_decode_step 0 0 3 (vdemo_state vdemo_acts) \<noteq> Some (Inl DoubleFree) \<and>
   video_render_step (\<lambda>_. 0) (\<lambda>_. 0) (vdemo_state vdemo_acts) \<noteq> Some (Inl NullDeref)"
proof -
  have "video_step\<^sup>*\<^sup>* (video_init 1 1 1 25 (\<lambda>_. 0) 25 (Some 1)) (vdemo_state vdemo_acts)"
    by (rule vdemo_state_reachable) code_simp
  moreover have pool: "v_fpool (vdemo_state vdemo_acts) = {1, 10}" by code_simp
  ultimately show ?thesis
    using video_threads_safe [of 1 1 1 25 "\<lambda>_. 0" 25 1 _ "\<lambda>_. 0" 3 0 0 DoubleFree _ "\<lambda>_. 0" NullDeref] by simp
qed

text \<open>The failed allocation before the loop is met at the first frame the decoder delivers.\<close>

lemma video_alloc_failure_crashes:
  "\<exists>s. video_step\<^sup>*\<^sup>* (video_init 1 1 1 25 (\<lambda>_. 0) 25 (Some 1)) s \<and>
     video_decode_step sent received f s = Some (Inl NullDeref)"
proof -
  let ?s = "vdemo_state (VDemux 1 # VDecode 0 0 null # replicate 5 (VDecode 0 0 2))"
  have "video_step\<^sup>*\<^sup>* (video_init 1 1 1 25 (\<lambda>_. 0) 25 (Some 1)) ?s"
    by (rule vdemo_state_reachable) code_simp
  moreover have "v_decode ?s = VDReceive" "v_frame ?s = null" by code_simp+
  ultimately show ?thesis using video_decode_null_frame [of f ?s] by (auto simp: video_null_frame_def)
qed

text \<open>C4: When \<open>stop\<close> has completed, destroying the channel frees every packet, and every frame except
  those whose only pointer the render thread overwrote; nothing is freed twice.\<close>

theorem video_stop_frees_all_but_lost:
  assumes "video_step\<^sup>*\<^sup>* (video_init i ctx num den flags fps audio) s" and "v_stop s = VStopJoined"
  shows "\<exists>c. BaseChannel_dtor (v_chan s) (v_ppool s) (v_fpool s) = Inr (c, {}, v_lost s)"
proof -
  have inv: "video_inv s" by (rule video_step_invs [OF assms(1)])
  note h = video_inv_parts [OF inv]
  have d: "v_decode s = VDDone" "v_render s = VRDone" using h(5) assms(2) by (auto simp: video_stop_ok_def)
  then have "v_packet s = 0" "v_frame s = 0" "r_frame s = 0"
    using h(6,7) by (simp_all add: video_decode_ok_def video_render_ok_def)
  with held_dtor [OF h(1,2)] d show ?thesis by (auto simp: video_hands_def)
qed

text \<open>
  The run goes on: the frame is late, so the render thread skips it and, the queue being empty,
  drops nothing; a second frame arrives and is popped into the same variable; then \<open>stop\<close>.
\<close>

definition vdemo_late_acts :: "video_act list" where
  "vdemo_late_acts = vdemo_acts @ replicate 5 VRenderAct @ replicate 7 (VDecode 0 0 2) @ [VDecode 0 0 9] @
     [VRenderAct, VRenderAct, VStop, VStop, VStop] @ replicate 2 VRenderAct @
     replicate 2 (VDecode 0 0 9) @ [VStop]"

theorem video_stop_frees_all_but_lost_witness:
  "\<exists>c. BaseChannel_dtor (v_chan (vdemo_state vdemo_late_acts)) (v_ppool (vdemo_state vdemo_late_acts))
     (v_fpool (vdemo_state vdemo_late_acts)) = Inr (c, {}, v_lost (vdemo_state vdemo_late_acts))"
proof (rule video_stop_frees_all_but_lost)
  show "video_step\<^sup>*\<^sup>* (video_init 1 1 1 25 (\<lambda>_. 0) 25 (Some 1)) (vdemo_state vdemo_late_acts)"
    by (rule vdemo_state_reachable) code_simp
  show "v_stop (vdemo_state vdemo_late_acts) = VStopJoined" by code_simp
qed

text \<open>A frame the audio clock has overtaken is never freed: the render loop continues without
  releasing it and pops the next frame into the same variable. There is a run after which \<open>stop\<close>
  and destruction leave a live frame behind.\<close>

lemma video_late_frame_leaks:
  "\<exists>s c. video_step\<^sup>*\<^sup>* (video_init 1 1 1 25 (\<lambda>_. 0) 25 (Some 1)) s \<and> v_stop s = VStopJoined \<and>
     BaseChannel_dtor (v_chan s) (v_ppool s) (v_fpool s) = Inr (c, {}, {1})"
proof -
  have reach: "video_step\<^sup>*\<^sup>* (video_init 1 1 1 25 (\<lambda>_. 0) 25 (Some 1)) (vdemo_state vdemo_late_acts)"
    by (rule vdemo_state_reachable) code_simp
  have end_state: "v_decode (vdemo_state vdemo_late_acts) = VDDone" "v_render (vdemo_state vdemo_late_acts) = VRDone"
    "v_stop (vdemo_state vdemo_late_acts) = VStopJoined" "v_lost (vdemo_state vdemo_late_acts) = {1}"
    by code_simp+
  note h = video_inv_parts [OF video_step_invs [OF reach]]
  have "v_packet (vdemo_state vdemo_late_acts) = 0" "v_frame (vdemo_state vdemo_late_acts) = 0"
    "r_frame (vdemo_state vdemo_late_acts) = 0"
    using h(6,7) end_state by (simp_all add: video_decode_ok_def video_render_ok_def)
  with held_dtor [OF h(1,2)] end_state
  have "\<exists>c. BaseChannel_dtor (v_chan (vdemo_state vdemo_late_acts)) (v_ppool (vdemo_state vdemo_late_acts))
     (v_fpool (vdemo_state vdemo_late_acts)) = Inr (c, {}, {1})"
    by (auto simp: video_hands_def)
  with reach end_state(3) show ?thesis by blast
qed

text \<open>The delay that should let the audio catch up is truncated to whole seconds before it is scaled
  to microseconds: at three or more frames per second a frame that is more than a second early is
  rendered without any delay.\<close>

theorem video_early_frame_not_delayed:
  assumes "3 \<le> fps" and "1 < v - a"
  shows "sync_action_of 0 fps v a = Inr (SleepThenRender 0)"
proof -
  have "(0::rat) \<le> 1 / of_int fps * 2 \<and> 1 / of_int fps * 2 < (1::rat)"
    using assms(1) by (simp add: divide_less_eq)
  moreover from this have "\<lfloor>1 / rat_of_int fps * 2\<rfloor> = 0" by (simp add: floor_eq_iff)
  ultimately have "usleep_seconds (1 / of_int fps * 2) = Inr 0"
    using usleep_seconds_ok [of "1 / of_int fps * 2"] by simp
  moreover have "0 < v - a" using assms(2) by linarith
  ultimately show ?thesis using assms by (simp add: sync_action_of_def Let_def)
qed

theorem video_early_frame_not_delayed_witness:
  "sync_action_of 0 25 3 1 = Inr (SleepThenRender 0)"
  by (rule video_early_frame_not_delayed) simp_all

end
