(* ===== verification/Niubi_Player.thy ===== *)
theory Niubi_Player
  imports Audio_Channel Video_Channel
begin

text \<open>
  \<open>NiubiPlayer\<close> (\<open>player/NiubiPlayer.cpp\<close>) and the Java callbacks it makes
  (\<open>platform/JavaCallHelper.cpp\<close>): preparing the media, starting and stopping the channels, and the
  demultiplexer thread that reads packets and hands them to the channels while their decode
  threads pop packets, hold them while the decoder reads them, and release them.
\<close>

section \<open>Callbacks into Java\<close>

abbreviation (input) THREAD_MAIN :: int where "THREAD_MAIN \<equiv> 1"
abbreviation (input) THREAD_CHILD :: int where "THREAD_CHILD \<equiv> 2"

datatype jni_call = AttachCurrentThread | DetachCurrentThread | CallOnError int | CallOnPrepare

definition onError :: "int \<Rightarrow> int \<Rightarrow> jni_call list" where
  "onError thread error =
     (if thread = THREAD_MAIN then [CallOnError error]
      else [AttachCurrentThread, CallOnError error, DetachCurrentThread])"

definition onPrepare :: "int \<Rightarrow> jni_call list" where
  "onPrepare thread =
     (if thread = THREAD_MAIN then [CallOnPrepare]
      else [AttachCurrentThread, CallOnPrepare, DetachCurrentThread])"

section \<open>The player\<close>

text \<open>
  \<open>callHelper\<close> and \<open>formatContext\<close> say whether the pointer is set; a video channel is kept with its
  frame rate.
\<close>

record player =
  callHelper :: bool
  playing :: bool
  audioChannel :: "chan option"
  videoChannel :: "(chan \<times> int) option"
  formatContext :: bool
  duration :: int

definition NiubiPlayer :: player where
  "NiubiPlayer = \<lparr>callHelper = True, playing = False, audioChannel = None, videoChannel = None,
     formatContext = False, duration = 0\<rparr>"

definition releaseFormatContext :: "player \<Rightarrow> player" where
  "releaseFormatContext p = (if formatContext p then p\<lparr>formatContext := False\<rparr> else p)"

text \<open>A call through \<open>callHelper\<close>; \<open>stop\<close> nulls the pointer.\<close>

definition report :: "jni_call list \<Rightarrow> player \<Rightarrow> (player \<times> jni_call list) res" where
  "report cs p = (if callHelper p then Inr (p, cs) else Inl NullDeref)"

section \<open>Preparing\<close>

datatype codec_type = CodecVideo | CodecAudio | CodecOther

text \<open>What FFmpeg answers for one stream of the media.\<close>

record stream_info =
  si_decoder :: bool
  si_context :: ptr
  si_parameters :: int
  si_open :: int
  si_type :: codec_type
  si_num :: int
  si_den :: int
  si_rate_num :: int
  si_rate_den :: int

record media =
  m_open :: int
  m_find :: int
  m_duration :: int
  m_streams :: "stream_info list"

text \<open>\<open>(int) av_q2d(avg_frame_rate)\<close>: undefined for a zero denominator.\<close>

definition frame_rate :: "stream_info \<Rightarrow> int res" where
  "frame_rate st = (if si_rate_den st = 0 then Inl DivByZero
     else c_int (trunc (of_int (si_rate_num st) / of_int (si_rate_den st))))"

text \<open>
  Lines 83 to 150, one stream: an error code that ends \<open>init_prepare\<close>, or the player with the new
  channel. Streams of other types get no channel (their context is dropped).
\<close>

definition prepare_stream :: "int \<Rightarrow> stream_info \<Rightarrow> player \<Rightarrow> (int + player) res" where
  "prepare_stream i st p =
     (if \<not> si_decoder st then Inr (Inl 3)
      else if si_context st = null then Inr (Inl 4)
      else if si_parameters st < 0 then Inr (Inl 6)
      else if si_open st \<noteq> 0 then Inr (Inl 7)
      else case si_type st of
          CodecVideo \<Rightarrow> res_bind (frame_rate st) (\<lambda>fps.
            Inr (Inr (p\<lparr>videoChannel := Some (VideoChannel i (si_context st) (si_num st) (si_den st) (\<lambda>_. 0), fps)\<rparr>)))
        | CodecAudio \<Rightarrow> Inr (Inr (p\<lparr>audioChannel := Some (BaseChannel i (si_context st) (si_num st) (si_den st))\<rparr>))
        | CodecOther \<Rightarrow> Inr (Inr p))"

fun prepare_streams :: "int \<Rightarrow> stream_info list \<Rightarrow> player \<Rightarrow> ((player \<times> int) + player) res" where
  "prepare_streams i [] p = Inr (Inr p)"
| "prepare_streams i (st # sts) p =
     res_bind (prepare_stream i st p) (\<lambda>r.
       case r of Inl e \<Rightarrow> Inr (Inl (p, e)) | Inr p' \<Rightarrow> prepare_streams (i + 1) sts p')"

text \<open>
  \<open>init_prepare\<close>. A failed \<open>avformat_open_input\<close> frees the context; a failed
  \<open>avformat_find_stream_info\<close> is reported, but the function goes on.
\<close>

definition init_prepare :: "media \<Rightarrow> player \<Rightarrow> (player \<times> jni_call list) res" where
  "init_prepare M p =
     (if m_open M \<noteq> 0 then report (onError THREAD_CHILD 1) (releaseFormatContext (p\<lparr>formatContext := False\<rparr>))
      else res_bind (if m_find M < 0 then report (onError THREAD_CHILD 2) (p\<lparr>formatContext := True\<rparr>)
                     else Inr (p\<lparr>formatContext := True\<rparr>, [])) (\<lambda>(p1, cs1).
        let p2 = p1\<lparr>duration := m_duration M sdiv 1000000\<rparr> in
        res_bind (prepare_streams 0 (m_streams M) p2) (\<lambda>r.
          case r of
            Inl (p3, e) \<Rightarrow> res_bind (report (onError THREAD_CHILD e) p3) (\<lambda>(p4, cs2). Inr (p4, cs1 @ cs2))
          | Inr p3 \<Rightarrow>
              res_bind (if audioChannel p3 = None \<and> videoChannel p3 = None
                        then report (onError THREAD_CHILD 8) p3
                        else report (onPrepare THREAD_CHILD) p3) (\<lambda>(p4, cs2). Inr (p4, cs1 @ cs2)))))"

section \<open>Starting and stopping\<close>

definition player_start :: "player \<Rightarrow> player" where
  "player_start p = p\<lparr>playing := True,
     videoChannel := map_option (\<lambda>(c, fps). (video_start c, fps)) (videoChannel p),
     audioChannel := map_option audio_start (audioChannel p)\<rparr>"

definition player_stop :: "player \<Rightarrow> player" where
  "player_stop p = p\<lparr>playing := False, callHelper := False\<rparr>"

text \<open>\<open>init_stop\<close> after both joins: delete the channels and release the format context.\<close>

definition init_stop :: "player \<Rightarrow> player" where
  "init_stop p = releaseFormatContext (p\<lparr>videoChannel := None, audioChannel := None, callHelper := False\<rparr>)"

text \<open>What \<open>stop\<close> of a channel does to its flag and queues before it joins the channel's threads.\<close>

definition chan_stop :: "chan \<Rightarrow> chan" where
  "chan_stop c = c\<lparr>isPlaying := False, packets := mq_backWork (packets c), frames := mq_backWork (frames c)\<rparr>"

section \<open>The demultiplexer thread\<close>

datatype demux_pc =
    DMLoop            \<comment> \<open>183: \<open>while (isPlaying)\<close>\<close>
  | DMAudioFull       \<comment> \<open>184: audio packets \<open>> 100\<close>\<close>
  | DMVideoFull       \<comment> \<open>191: video packets \<open>> 100\<close>\<close>
  | DMRead            \<comment> \<open>199: allocate, read, dispatch\<close>
  | DMLog ptr         \<comment> \<open>212: \<open>packet->flags\<close> after the push\<close>
  | DMStopVideo       \<comment> \<open>239\<close>
  | DMStopAudio       \<comment> \<open>241\<close>
  | DMDone

record demux_sys =
  d_player :: player
  d_ppool :: pool
  d_pc :: demux_pc
  d_audio_hand :: ptr
  d_video_hand :: ptr
  d_unclaimed :: pool

text \<open>
  \<open>d_audio_hand\<close> and \<open>d_video_hand\<close> are the variables \<open>packet\<close> of the two decode threads.
  \<open>d_unclaimed\<close> records packets of streams without a channel: nothing refers to them any more.
\<close>

definition demux_dispatch :: "int \<Rightarrow> ptr \<Rightarrow> demux_sys \<Rightarrow> demux_sys res" where
  "demux_dispatch si p s =
     (let pl = d_player s; P = insert p (d_ppool s);
          for_audio = (case audioChannel pl of Some a \<Rightarrow> si = chan_id a | None \<Rightarrow> False);
          for_video = (case videoChannel pl of Some (v, _) \<Rightarrow> si = chan_id v | None \<Rightarrow> False) in
      if for_audio then
        res_bind (mq_push p (packets (the (audioChannel pl))) P) (\<lambda>(q, P').
          Inr (s\<lparr>d_player := pl\<lparr>audioChannel := map_option (packets_update (\<lambda>_. q)) (audioChannel pl)\<rparr>,
                 d_ppool := P', d_pc := DMLoop\<rparr>))
      else if for_video then
        res_bind (mq_push p (packets (fst (the (videoChannel pl)))) P) (\<lambda>(q, P').
          Inr (s\<lparr>d_player := pl\<lparr>videoChannel := map_option (apfst (packets_update (\<lambda>_. q))) (videoChannel pl)\<rparr>,
                 d_ppool := P', d_pc := DMLog p\<rparr>))
      else Inr (s\<lparr>d_ppool := P, d_unclaimed := insert p (d_unclaimed s), d_pc := DMLoop\<rparr>))"

text \<open>
  The test at end of file, with its short-circuit evaluation: the channels are dereferenced without
  a test.
\<close>

definition demux_drained :: "player \<Rightarrow> bool res" where
  "demux_drained pl =
     (case audioChannel pl of
        None \<Rightarrow> Inl NullDeref
      | Some a \<Rightarrow>
          (if \<not> (mq_empty (packets a) \<and> mq_empty (frames a)) then Inr False
           else case videoChannel pl of
               None \<Rightarrow> Inl NullDeref
             | Some (v, _) \<Rightarrow> Inr (mq_empty (packets v) \<and> mq_empty (frames v))))"

definition demux_step :: "int \<Rightarrow> int \<Rightarrow> ptr \<Rightarrow> demux_sys \<Rightarrow> demux_sys res option" where
  "demux_step rd si p s =
     (let pl = d_player s in
      case d_pc s of
        DMLoop \<Rightarrow> Some (Inr (s\<lparr>d_pc := if playing pl then DMAudioFull else DMStopVideo\<rparr>))
      | DMAudioFull \<Rightarrow>
          Some (Inr (s\<lparr>d_pc := (case audioChannel pl of
            Some a \<Rightarrow> if mq_size (packets a) > 100 then DMLoop else DMVideoFull | None \<Rightarrow> DMVideoFull)\<rparr>))
      | DMVideoFull \<Rightarrow>
          Some (Inr (s\<lparr>d_pc := (case videoChannel pl of
            Some (v, _) \<Rightarrow> if mq_size (packets v) > 100 then DMLoop else DMRead | None \<Rightarrow> DMRead)\<rparr>))
      | DMRead \<Rightarrow>
          (if p = null then Some (Inl NullDeref)
           else if rd = 0 then Some (demux_dispatch si p s)
           else if rd = AVERROR_EOF then
             Some (res_bind (releaseAvPacket p (insert p (d_ppool s))) (\<lambda>(_, P).
               res_bind (demux_drained pl) (\<lambda>done.
                 Inr (s\<lparr>d_ppool := P, d_pc := if done then DMStopVideo else DMLoop\<rparr>))))
           else Some (res_bind (releaseAvPacket p (insert p (d_ppool s))) (\<lambda>(_, P).
             Inr (s\<lparr>d_ppool := P, d_pc := DMStopVideo\<rparr>))))
      | DMLog g \<Rightarrow> (if g \<in> d_ppool s then Some (Inr (s\<lparr>d_pc := DMLoop\<rparr>)) else Some (Inl UseAfterFree))
      | DMStopVideo \<Rightarrow>
          (case videoChannel pl of
             None \<Rightarrow> Some (Inl NullDeref)
           | Some (v, fps) \<Rightarrow>
               Some (Inr (s\<lparr>d_player := pl\<lparr>playing := False, videoChannel := Some (chan_stop v, fps)\<rparr>, d_pc := DMStopAudio\<rparr>)))
      | DMStopAudio \<Rightarrow>
          (case audioChannel pl of
             None \<Rightarrow> Some (Inl NullDeref)
           | Some a \<Rightarrow> Some (Inr (s\<lparr>d_player := pl\<lparr>audioChannel := Some (chan_stop a)\<rparr>, d_pc := DMDone\<rparr>)))
      | DMDone \<Rightarrow> None)"

section \<open>The decode threads\<close>

text \<open>
  What the decode threads do with packets. A thread pops into its variable, which is null then (the
  models of the channels show it: \<open>audio_decode_ok\<close>, \<open>video_decode_ok\<close>); from then on it holds the
  packet, hands it to \<open>avcodec_send_packet\<close>, and releases it in a later step: after the decoder has
  taken it, or behind the loop. \<open>None\<close>: no channel, or blocked in \<open>pop\<close>.
\<close>

definition decoder_pop :: "ptr \<Rightarrow> chan \<Rightarrow> (ptr \<times> chan) option" where
  "decoder_pop hand c =
     (case mq_pop hand (packets c) of
        (Ret r p, q) \<Rightarrow> Some (p, c\<lparr>packets := q\<rparr>)
      | (Wait, _) \<Rightarrow> None)"

definition audio_pops :: "demux_sys \<Rightarrow> demux_sys option" where
  "audio_pops s =
     (case audioChannel (d_player s) of None \<Rightarrow> None
      | Some a \<Rightarrow> map_option (\<lambda>(p, a'). s\<lparr>d_player := (d_player s)\<lparr>audioChannel := Some a'\<rparr>, d_audio_hand := p\<rparr>)
          (decoder_pop (d_audio_hand s) a))"

definition video_pops :: "demux_sys \<Rightarrow> demux_sys option" where
  "video_pops s =
     (case videoChannel (d_player s) of None \<Rightarrow> None
      | Some (v, fps) \<Rightarrow>
          map_option (\<lambda>(p, v'). s\<lparr>d_player := (d_player s)\<lparr>videoChannel := Some (v', fps)\<rparr>, d_video_hand := p\<rparr>)
            (decoder_pop (d_video_hand s) v))"

definition audio_releases :: "demux_sys \<Rightarrow> demux_sys res" where
  "audio_releases s = res_bind (releaseAvPacket (d_audio_hand s) (d_ppool s)) (\<lambda>(p, P).
     Inr (s\<lparr>d_audio_hand := p, d_ppool := P\<rparr>))"

definition video_releases :: "demux_sys \<Rightarrow> demux_sys res" where
  "video_releases s = res_bind (releaseAvPacket (d_video_hand s) (d_ppool s)) (\<lambda>(p, P).
     Inr (s\<lparr>d_video_hand := p, d_ppool := P\<rparr>))"

text \<open>
  All threads together. \<open>av_packet_alloc\<close> returns a packet that is not in use, or null. The decode,
  render and callback threads change the frame queues in any way.
\<close>

definition set_frames :: "av_queue \<Rightarrow> av_queue \<Rightarrow> player \<Rightarrow> player" where
  "set_frames qa qv pl =
     pl\<lparr>audioChannel := map_option (frames_update (\<lambda>_. qa)) (audioChannel pl),
        videoChannel := map_option (apfst (frames_update (\<lambda>_. qv))) (videoChannel pl)\<rparr>"

inductive demux_run :: "demux_sys \<Rightarrow> demux_sys \<Rightarrow> bool" where
  demux: "p \<notin> d_ppool s \<Longrightarrow> demux_step rd si p s = Some (Inr t) \<Longrightarrow> demux_run s t"
| audio_pop: "d_audio_hand s = null \<Longrightarrow> audio_pops s = Some t \<Longrightarrow> demux_run s t"
| video_pop: "d_video_hand s = null \<Longrightarrow> video_pops s = Some t \<Longrightarrow> demux_run s t"
| audio_release: "audio_releases s = Inr t \<Longrightarrow> demux_run s t"
| video_release: "video_releases s = Inr t \<Longrightarrow> demux_run s t"
| frames_change: "demux_run s (s\<lparr>d_player := set_frames qa qv (d_player s)\<rparr>)"
| stop: "demux_run s (s\<lparr>d_player := player_stop (d_player s)\<rparr>)"

section \<open>What every step keeps\<close>

text \<open>
  Each live packet is in one of the two queues, in the hands of one of the decode threads, or
  unclaimed; a queue never holds more than 101 packets, and at most 100 when the thread has just
  found it not full.
\<close>

definition audio_q :: "player \<Rightarrow> ptr list" where
  "audio_q pl = (case audioChannel pl of Some a \<Rightarrow> queue (packets a) | None \<Rightarrow> [])"

definition video_q :: "player \<Rightarrow> ptr list" where
  "video_q pl = (case videoChannel pl of Some (v, _) \<Rightarrow> queue (packets v) | None \<Rightarrow> [])"

definition in_hand :: "ptr \<Rightarrow> ptr list" where
  "in_hand p = (if p = null then [] else [p])"

definition packets_ok :: "ptr list \<Rightarrow> ptr list \<Rightarrow> ptr \<Rightarrow> ptr \<Rightarrow> pool \<Rightarrow> pool \<Rightarrow> bool" where
  "packets_ok A V a v U P \<longleftrightarrow> distinct (A @ V @ in_hand a @ in_hand v) \<and>
     0 \<notin> set A \<union> set V \<union> U \<and> (set A \<union> set V \<union> ({a, v} - {0})) \<inter> U = {} \<and>
     set A \<union> set V \<union> ({a, v} - {0}) \<union> U = P"

lemma packets_ok_pushes:
  "packets_ok A V a v U P \<Longrightarrow> p \<noteq> 0 \<Longrightarrow> p \<notin> P \<Longrightarrow> packets_ok (A @ [p]) V a v U (insert p P)"
  "packets_ok A V a v U P \<Longrightarrow> p \<noteq> 0 \<Longrightarrow> p \<notin> P \<Longrightarrow> packets_ok A (V @ [p]) a v U (insert p P)"
  "packets_ok A V a v U P \<Longrightarrow> p \<noteq> 0 \<Longrightarrow> p \<notin> P \<Longrightarrow> packets_ok A V a v (insert p U) (insert p P)"
  by (auto simp: packets_ok_def in_hand_def split: if_splits)

lemma packets_ok_pops:
  "packets_ok (p # A) V 0 v U P \<Longrightarrow> packets_ok A V p v U P"
  "packets_ok A (p # V) a 0 U P \<Longrightarrow> packets_ok A V a p U P"
  by (auto simp: packets_ok_def in_hand_def split: if_splits)

lemma packets_ok_releases:
  "packets_ok A V a v U P \<Longrightarrow> releaseAvPacket a P = Inr (0, P - ({a} - {0})) \<and> packets_ok A V 0 v U (P - ({a} - {0}))"
  "packets_ok A V a v U P \<Longrightarrow> releaseAvPacket v P = Inr (0, P - ({v} - {0})) \<and> packets_ok A V a 0 U (P - ({v} - {0}))"
  by (auto simp: packets_ok_def in_hand_def release_eq_pool_free pool_free_def split: if_splits)

definition callbacks_ok :: "player \<Rightarrow> bool" where
  "callbacks_ok pl \<longleftrightarrow>
     (\<forall>a. audioChannel pl = Some a \<longrightarrow> releaseCallBack (packets a) = Some pool_free) \<and>
     (\<forall>v fps. videoChannel pl = Some (v, fps) \<longrightarrow> releaseCallBack (packets v) = Some pool_free)"

definition demux_owns :: "demux_sys \<Rightarrow> bool" where
  "demux_owns s \<longleftrightarrow>
     packets_ok (audio_q (d_player s)) (video_q (d_player s)) (d_audio_hand s) (d_video_hand s)
       (d_unclaimed s) (d_ppool s) \<and>
     callbacks_ok (d_player s)"

definition demux_bounded :: "demux_sys \<Rightarrow> bool" where
  "demux_bounded s \<longleftrightarrow>
     length (audio_q (d_player s)) \<le> (if d_pc s \<in> {DMVideoFull, DMRead} then 100 else 101) \<and>
     length (video_q (d_player s)) \<le> (if d_pc s = DMRead then 100 else 101)"

definition demux_inv :: "demux_sys \<Rightarrow> bool" where
  "demux_inv s \<longleftrightarrow> demux_owns s \<and> demux_bounded s"

text \<open>A started player whose queues are still empty.\<close>

definition demux_start :: "player \<Rightarrow> demux_sys" where
  "demux_start pl = \<lparr>d_player = player_start pl, d_ppool = {}, d_pc = DMLoop,
     d_audio_hand = null, d_video_hand = null, d_unclaimed = {}\<rparr>"

definition fresh_player :: "player \<Rightarrow> bool" where
  "fresh_player pl \<longleftrightarrow> audio_q pl = [] \<and> video_q pl = [] \<and> callbacks_ok pl"

lemma demux_start_inv: "fresh_player pl \<Longrightarrow> demux_inv (demux_start pl)"
  by (auto simp: demux_inv_def demux_owns_def packets_ok_def in_hand_def callbacks_ok_def demux_bounded_def demux_start_def
      fresh_player_def player_start_def video_start_def audio_start_def audio_q_def video_q_def mq_gotoWork_def
      split: option.splits)

lemma mq_size_gt: "length (queue q) \<le> 101 \<Longrightarrow> mq_size q > 100 \<longleftrightarrow> length (queue q) > 100"
  by (simp add: mq_size_def word_less_nat_alt unat_of_nat)

lemma push_fresh:
  assumes "releaseCallBack q = Some pool_free" and "p \<noteq> 0" and "p \<notin> P"
  shows "mq_push p q (insert p P) =
    Inr (if state q then (q\<lparr>queue := queue q @ [p]\<rparr>, insert p P) else (q, P))"
  using assms by (auto simp: mq_push_def call_release_def pool_free_def)

lemma release_fresh: "p \<noteq> 0 \<Longrightarrow> p \<notin> P \<Longrightarrow> releaseAvPacket p (insert p P) = Inr (0, P)"
  by (simp add: release_eq_pool_free pool_free_def)

lemma demux_inv_cong:
  assumes "demux_inv s" and "audio_q (d_player t) = audio_q (d_player s)"
    and "video_q (d_player t) = video_q (d_player s)" and "d_ppool t = d_ppool s"
    and "d_audio_hand t = d_audio_hand s" and "d_video_hand t = d_video_hand s"
    and "d_unclaimed t = d_unclaimed s" and "demux_bounded t" and "callbacks_ok (d_player t)"
  shows "demux_inv t"
  using assms by (simp add: demux_inv_def demux_owns_def)

lemma demux_inv_parts:
  assumes "demux_inv s"
  shows "packets_ok (audio_q (d_player s)) (video_q (d_player s)) (d_audio_hand s) (d_video_hand s)
      (d_unclaimed s) (d_ppool s)"
    and "callbacks_ok (d_player s)" and "demux_bounded s"
  using assms by (auto simp: demux_inv_def demux_owns_def)

lemma demux_dispatch_audio:
  assumes inv: "demux_inv s" and pc: "d_pc s = DMRead" and p: "p \<noteq> 0" "p \<notin> d_ppool s"
    and a: "audioChannel (d_player s) = Some a" "si = chan_id a"
  shows "\<exists>t. demux_dispatch si p s = Inr t \<and> demux_inv t"
proof -
  note h = demux_inv_parts [OF inv]
  have cb: "releaseCallBack (packets a) = Some pool_free" using h(2) a by (simp add: callbacks_ok_def)
  show ?thesis
  proof (cases "state (packets a)")
    case True
    then show ?thesis using h pc a packets_ok_pushes(1) [OF h(1) p]
      by (auto simp: demux_dispatch_def push_fresh [OF cb p] Let_def demux_inv_def demux_owns_def
          demux_bounded_def audio_q_def video_q_def callbacks_ok_def)
  next
    case False
    then show ?thesis using h pc a
      by (auto simp: demux_dispatch_def push_fresh [OF cb p] Let_def demux_inv_def demux_owns_def
          demux_bounded_def audio_q_def video_q_def callbacks_ok_def)
  qed
qed

lemma demux_dispatch_video:
  assumes inv: "demux_inv s" and pc: "d_pc s = DMRead" and p: "p \<noteq> 0" "p \<notin> d_ppool s"
    and na: "\<not> (case audioChannel (d_player s) of Some a \<Rightarrow> si = chan_id a | None \<Rightarrow> False)"
    and v: "videoChannel (d_player s) = Some (v, fps)" "si = chan_id v"
  shows "\<exists>t. demux_dispatch si p s = Inr t \<and> demux_inv t"
proof -
  note h = demux_inv_parts [OF inv]
  have cb: "releaseCallBack (packets v) = Some pool_free" using h(2) v by (simp add: callbacks_ok_def)
  show ?thesis
  proof (cases "state (packets v)")
    case True
    then show ?thesis using h pc v packets_ok_pushes(2) [OF h(1) p] na
      by (auto simp: demux_dispatch_def push_fresh [OF cb p] Let_def demux_inv_def demux_owns_def
          demux_bounded_def audio_q_def video_q_def callbacks_ok_def)
  next
    case False
    then show ?thesis using h pc v na
      by (auto simp: demux_dispatch_def push_fresh [OF cb p] Let_def demux_inv_def demux_owns_def
          demux_bounded_def audio_q_def video_q_def callbacks_ok_def)
  qed
qed

lemma demux_dispatch_inv:
  assumes inv: "demux_inv s" and pc: "d_pc s = DMRead" and p: "p \<noteq> 0" "p \<notin> d_ppool s"
  shows "\<exists>t. demux_dispatch si p s = Inr t \<and> demux_inv t"
proof (cases "case audioChannel (d_player s) of Some a \<Rightarrow> si = chan_id a | None \<Rightarrow> False")
  case True
  then show ?thesis using demux_dispatch_audio [OF inv pc p] by (auto split: option.splits)
next
  case na: False
  show ?thesis
  proof (cases "case videoChannel (d_player s) of Some (v, _) \<Rightarrow> si = chan_id v | None \<Rightarrow> False")
    case True
    then show ?thesis using demux_dispatch_video [OF inv pc p na] by (auto split: option.splits)
  next
    case False
    note h = demux_inv_parts [OF inv]
    show ?thesis using na False h pc packets_ok_pushes(3) [OF h(1) p]
      by (simp add: demux_dispatch_def Let_def demux_inv_def demux_owns_def demux_bounded_def)
  qed
qed

lemma chan_stop_simps [simp]:
  "queue (packets (chan_stop c)) = queue (packets c)"
  "releaseCallBack (packets (chan_stop c)) = releaseCallBack (packets c)"
  by (simp_all add: chan_stop_def mq_backWork_def)

text \<open>Every step of the thread other than reading and logging.\<close>

lemma demux_move_inv:
  assumes inv: "demux_inv s" and step: "demux_step rd si p s = Some (Inr t)"
    and pc: "d_pc s \<noteq> DMRead"
  shows "demux_inv t"
proof (cases "d_pc s")
  case DMAudioFull
  show ?thesis
    by (rule demux_inv_cong [OF inv]) (use step DMAudioFull demux_inv_parts(2,3) [OF inv] in
      \<open>auto simp: demux_step_def demux_bounded_def audio_q_def video_q_def mq_size_gt
        split: option.splits if_splits\<close>)
next
  case DMVideoFull
  show ?thesis
    by (rule demux_inv_cong [OF inv]) (use step DMVideoFull demux_inv_parts(2,3) [OF inv] in
      \<open>auto simp: demux_step_def demux_bounded_def audio_q_def video_q_def mq_size_gt
        split: option.splits if_splits\<close>)
next
  case DMStopVideo
  show ?thesis
    by (rule demux_inv_cong [OF inv]) (use step DMStopVideo demux_inv_parts(2,3) [OF inv] in
      \<open>auto simp: demux_step_def demux_bounded_def audio_q_def video_q_def callbacks_ok_def split: option.splits if_splits\<close>)
next
  case DMStopAudio
  show ?thesis
    by (rule demux_inv_cong [OF inv]) (use step DMStopAudio demux_inv_parts(2,3) [OF inv] in
      \<open>auto simp: demux_step_def demux_bounded_def audio_q_def video_q_def callbacks_ok_def split: option.splits if_splits\<close>)
qed (use pc step demux_inv_parts(2,3) [OF inv] in
  \<open>auto intro!: demux_inv_cong [OF inv] simp: demux_step_def demux_bounded_def split: if_splits\<close>)

lemma demux_read_inv:
  assumes inv: "demux_inv s" and step: "demux_step rd si p s = Some (Inr t)"
    and pc: "d_pc s = DMRead" and fresh: "p \<notin> d_ppool s"
  shows "demux_inv t"
proof (cases "rd = 0")
  case True
  have p: "p \<noteq> 0" "p \<notin> d_ppool s"
    by (rule notI, use step pc in \<open>simp add: demux_step_def\<close>) (rule fresh)
  show ?thesis using demux_dispatch_inv [OF inv pc p, of si] step pc p(1) True by (auto simp: demux_step_def)
next
  case False
  have p: "p \<noteq> 0" "p \<notin> d_ppool s"
    by (rule notI, use step pc in \<open>simp add: demux_step_def\<close>) (rule fresh)
  have "\<exists>pc'. t = s\<lparr>d_pc := pc'\<rparr> \<and> pc' \<in> {DMStopVideo, DMLoop}"
    using step pc False release_fresh [OF p] by (auto simp: demux_step_def res_bind_Inr_iff split: if_splits)
  then show ?thesis using demux_inv_parts(2,3) [OF inv]
    by (auto intro!: demux_inv_cong [OF inv] simp: demux_bounded_def split: if_splits)
qed

lemma decoder_pop_iff:
  "decoder_pop h c = Some (p, c') \<longleftrightarrow>
     (\<exists>ps. queue (packets c) = p # ps \<and> c' = c\<lparr>packets := (packets c)\<lparr>queue := ps\<rparr>\<rparr>) \<or>
     queue (packets c) = [] \<and> \<not> state (packets c) \<and> p = h \<and> c' = c"
  by (auto simp: decoder_pop_def mq_pop_def split: list.splits)

lemma demux_audio_pop:
  assumes inv: "demux_inv s" and hand: "d_audio_hand s = 0" and pop: "audio_pops s = Some t"
  shows "demux_inv t"
proof -
  note h = demux_inv_parts [OF inv]
  from pop obtain a p a' where a: "audioChannel (d_player s) = Some a" and d: "decoder_pop 0 a = Some (p, a')"
    and t: "t = s\<lparr>d_player := (d_player s)\<lparr>audioChannel := Some a'\<rparr>, d_audio_hand := p\<rparr>"
    by (auto simp: audio_pops_def hand split: option.splits)
  have "packets_ok (queue (packets a')) (video_q (d_player s)) p (d_video_hand s) (d_unclaimed s) (d_ppool s)"
    using h(1) a d hand packets_ok_pops(1) by (auto simp: decoder_pop_iff audio_q_def)
  moreover have "releaseCallBack (packets a') = releaseCallBack (packets a)"
    "length (queue (packets a')) \<le> length (queue (packets a))"
    using d by (auto simp: decoder_pop_iff)
  ultimately show ?thesis using h(2,3) a
    by (auto simp: t demux_inv_def demux_owns_def demux_bounded_def audio_q_def video_q_def callbacks_ok_def split: if_splits)
qed

lemma demux_video_pop:
  assumes inv: "demux_inv s" and hand: "d_video_hand s = 0" and pop: "video_pops s = Some t"
  shows "demux_inv t"
proof -
  note h = demux_inv_parts [OF inv]
  from pop obtain v fps p v' where v: "videoChannel (d_player s) = Some (v, fps)"
    and d: "decoder_pop 0 v = Some (p, v')"
    and t: "t = s\<lparr>d_player := (d_player s)\<lparr>videoChannel := Some (v', fps)\<rparr>, d_video_hand := p\<rparr>"
    by (auto simp: video_pops_def hand split: option.splits)
  have "packets_ok (audio_q (d_player s)) (queue (packets v')) (d_audio_hand s) p (d_unclaimed s) (d_ppool s)"
    using h(1) v d hand packets_ok_pops(2) by (auto simp: decoder_pop_iff video_q_def)
  moreover have "releaseCallBack (packets v') = releaseCallBack (packets v)"
    "length (queue (packets v')) \<le> length (queue (packets v))"
    using d by (auto simp: decoder_pop_iff)
  ultimately show ?thesis using h(2,3) v
    by (auto simp: t demux_inv_def demux_owns_def demux_bounded_def audio_q_def video_q_def callbacks_ok_def split: if_splits)
qed

lemma demux_releases:
  assumes "demux_inv s"
  shows "\<exists>t. audio_releases s = Inr t \<and> demux_inv t \<and> d_audio_hand t = null"
    and "\<exists>t. video_releases s = Inr t \<and> demux_inv t \<and> d_video_hand t = null"
  using demux_inv_parts [OF assms] packets_ok_releases [OF demux_inv_parts(1) [OF assms]]
  by (auto simp: audio_releases_def video_releases_def demux_inv_def demux_owns_def demux_bounded_def)

lemma set_frames_q [simp]:
  "audio_q (set_frames qa qv pl) = audio_q pl" "video_q (set_frames qa qv pl) = video_q pl"
  "callbacks_ok (set_frames qa qv pl) = callbacks_ok pl"
  "audioChannel (set_frames qa qv pl) = None \<longleftrightarrow> audioChannel pl = None"
  "videoChannel (set_frames qa qv pl) = None \<longleftrightarrow> videoChannel pl = None"
  by (auto simp: set_frames_def audio_q_def video_q_def callbacks_ok_def split: option.splits)

lemma demux_run_inv: "demux_inv s \<Longrightarrow> demux_run s t \<Longrightarrow> demux_inv t"
proof (erule demux_run.cases)
  fix p u rd si t'
  assume a: "demux_inv s" "s = u" "t = t'" "p \<notin> d_ppool u" "demux_step rd si p u = Some (Inr t')"
  then show "demux_inv t" using demux_move_inv demux_read_inv by metis
next
  fix u qa qv
  assume a: "demux_inv s" "s = u" "t = u\<lparr>d_player := set_frames qa qv (d_player u)\<rparr>"
  then show "demux_inv t" using demux_inv_parts(2,3)
    by (auto intro!: demux_inv_cong [of u] simp: demux_bounded_def)
next
  fix u
  assume a: "demux_inv s" "s = u" "t = u\<lparr>d_player := player_stop (d_player u)\<rparr>"
  then show "demux_inv t" using demux_inv_parts(2,3)
    by (auto intro!: demux_inv_cong [of u]
        simp: player_stop_def audio_q_def video_q_def demux_bounded_def callbacks_ok_def)
qed (auto dest: demux_audio_pop demux_video_pop demux_releases)

interpretation demux: step_invariant "\<lambda>s. \<exists>pl. fresh_player pl \<and> s = demux_start pl" demux_run demux_inv
  by unfold_locales (auto simp: demux_start_inv intro: demux_run_inv)

text \<open>Channels are never created or removed while the thread runs.\<close>

lemma demux_run_channels:
  "demux_run s t \<Longrightarrow> (audioChannel (d_player t) = None \<longleftrightarrow> audioChannel (d_player s) = None) \<and>
     (videoChannel (d_player t) = None \<longleftrightarrow> videoChannel (d_player s) = None)"
  by (erule demux_run.cases)
    (auto simp: demux_step_def demux_dispatch_def player_stop_def audio_pops_def video_pops_def
      audio_releases_def video_releases_def Let_def res_bind_Inr_iff
      split: demux_pc.splits if_splits option.splits)

lemma demux_runs_channels:
  "demux_run\<^sup>*\<^sup>* s t \<Longrightarrow> (audioChannel (d_player t) = None \<longleftrightarrow> audioChannel (d_player s) = None) \<and>
     (videoChannel (d_player t) = None \<longleftrightarrow> videoChannel (d_player s) = None)"
  by (induction rule: rtranclp_induct) (auto dest: demux_run_channels)

text \<open>
  With both channels a step faults only at the access to a packet after its push, or with the null
  packet of a failed allocation.
\<close>

lemma demux_step_safe:
  assumes inv: "demux_inv s" and p: "p \<notin> d_ppool s"
    and a: "audioChannel (d_player s) \<noteq> None" and v: "videoChannel (d_player s) \<noteq> None"
    and step: "demux_step rd si p s = Some (Inl e)"
  shows "e = UseAfterFree \<and> (\<exists>g. d_pc s = DMLog g \<and> g \<notin> d_ppool s) \<or>
    e = NullDeref \<and> d_pc s = DMRead \<and> p = null"
proof -
  from a v obtain c d fps where c: "audioChannel (d_player s) = Some c" "videoChannel (d_player s) = Some (d, fps)"
    by auto
  have "p = 0" if read: "d_pc s = DMRead"
  proof (rule ccontr)
    assume "p \<noteq> 0"
    then show False
      using step c read demux_dispatch_inv [OF inv read _ p, of si] release_fresh [OF _ p]
      by (auto simp: demux_step_def Let_def demux_drained_def split: if_splits)
  qed
  then show ?thesis using step c
    by (auto simp: demux_step_def Let_def split: demux_pc.splits if_splits)
qed

section \<open>What preparing does\<close>

text \<open>The error code of a stream, of a list of streams, and the last stream of a type with its index.\<close>

definition stream_error :: "stream_info \<Rightarrow> int option" where
  "stream_error st =
     (if \<not> si_decoder st then Some 3 else if si_context st = null then Some 4
      else if si_parameters st < 0 then Some 6 else if si_open st \<noteq> 0 then Some 7 else None)"

fun first_error :: "stream_info list \<Rightarrow> int option" where
  "first_error [] = None"
| "first_error (st # sts) = (case stream_error st of Some e \<Rightarrow> Some e | None \<Rightarrow> first_error sts)"

fun last_stream :: "codec_type \<Rightarrow> int \<Rightarrow> stream_info list \<Rightarrow> (int \<times> stream_info) option" where
  "last_stream T i [] = None"
| "last_stream T i (st # sts) =
     (case last_stream T (i + 1) sts of Some r \<Rightarrow> Some r | None \<Rightarrow> if si_type st = T then Some (i, st) else None)"

definition audio_for :: "int \<times> stream_info \<Rightarrow> chan" where
  "audio_for = (\<lambda>(j, st). BaseChannel j (si_context st) (si_num st) (si_den st))"

definition video_for :: "int \<times> stream_info \<Rightarrow> chan" where
  "video_for = (\<lambda>(j, st). VideoChannel j (si_context st) (si_num st) (si_den st) (\<lambda>_. 0))"

definition rates_ok :: "stream_info list \<Rightarrow> bool" where
  "rates_ok sts \<longleftrightarrow> (\<forall>st \<in> set sts. si_type st = CodecVideo \<longrightarrow> (\<exists>fps. frame_rate st = Inr fps))"

definition prepared :: "int \<Rightarrow> stream_info list \<Rightarrow> player \<Rightarrow> player \<Rightarrow> bool" where
  "prepared i sts p p' \<longleftrightarrow>
     audioChannel p' = (case last_stream CodecAudio i sts of Some r \<Rightarrow> Some (audio_for r) | None \<Rightarrow> audioChannel p) \<and>
     map_option fst (videoChannel p') =
       (case last_stream CodecVideo i sts of Some r \<Rightarrow> Some (video_for r) | None \<Rightarrow> map_option fst (videoChannel p)) \<and>
     callHelper p' = callHelper p"

lemma prepare_stream_error: "stream_error st = Some e \<Longrightarrow> prepare_stream i st p = Inr (Inl e)"
  by (auto simp: stream_error_def prepare_stream_def split: if_splits)

lemma prepare_stream_ok:
  assumes "stream_error st = None" and "rates_ok [st]"
  shows "\<exists>p'. prepare_stream i st p = Inr (Inr p') \<and> prepared i [st] p p'"
  using assms by (cases "si_type st")
    (auto simp: stream_error_def prepare_stream_def prepared_def rates_ok_def audio_for_def video_for_def split: if_splits)

lemma prepare_streams_spec:
  "rates_ok sts \<Longrightarrow>
   (case first_error sts of
      Some e \<Rightarrow> \<exists>p'. prepare_streams i sts p = Inr (Inl (p', e)) \<and> callHelper p' = callHelper p
    | None \<Rightarrow> \<exists>p'. prepare_streams i sts p = Inr (Inr p') \<and> prepared i sts p p')"
proof (induction sts arbitrary: i p)
  case Nil
  then show ?case by (simp add: prepared_def)
next
  case (Cons st sts)
  have r: "rates_ok [st]" "rates_ok sts" using Cons.prems by (auto simp: rates_ok_def)
  show ?case
  proof (cases "stream_error st")
    case (Some e)
    then show ?thesis using prepare_stream_error [OF Some] by simp
  next
    case None
    then obtain p1 where p1: "prepare_stream i st p = Inr (Inr p1)" "prepared i [st] p p1"
      using prepare_stream_ok r(1) by blast
    show ?thesis using Cons.IH [OF r(2), of "i + 1" p1] p1 None
      by (auto simp: prepared_def split: option.splits if_splits)
  qed
qed

section \<open>Properties\<close>

text \<open>What a preparation reports after the media has been opened, from the answers of FFmpeg alone.\<close>

definition stream_outcome :: "stream_info list \<Rightarrow> jni_call list" where
  "stream_outcome sts =
     (case first_error sts of
        Some e \<Rightarrow> onError THREAD_CHILD e
      | None \<Rightarrow>
          if last_stream CodecAudio 0 sts = None \<and> last_stream CodecVideo 0 sts = None
          then onError THREAD_CHILD 8 else onPrepare THREAD_CHILD)"

lemma init_prepare_opened:
  assumes "m_open M = 0" and "callHelper p" and "rates_ok (m_streams M)"
    and "audioChannel p = None" and "videoChannel p = None"
  shows "\<exists>p'. init_prepare M p = Inr (p', (if m_find M < 0 then onError THREAD_CHILD 2 else []) @
      stream_outcome (m_streams M)) \<and>
    (first_error (m_streams M) = None \<longrightarrow>
       audioChannel p' = map_option audio_for (last_stream CodecAudio 0 (m_streams M)) \<and>
       map_option fst (videoChannel p') = map_option video_for (last_stream CodecVideo 0 (m_streams M)))"
proof -
  let ?p = "p\<lparr>formatContext := True, duration := m_duration M sdiv 1000000\<rparr>"
  have spec: "case first_error (m_streams M) of
      Some e \<Rightarrow> \<exists>p'. prepare_streams 0 (m_streams M) ?p = Inr (Inl (p', e)) \<and> callHelper p' = callHelper ?p
    | None \<Rightarrow> \<exists>p'. prepare_streams 0 (m_streams M) ?p = Inr (Inr p') \<and> prepared 0 (m_streams M) ?p p'"
    by (rule prepare_streams_spec [OF assms(3)])
  show ?thesis
  proof (cases "first_error (m_streams M)")
    case (Some e)
    with spec assms show ?thesis by (auto simp: init_prepare_def report_def Let_def stream_outcome_def)
  next
    case None
    with spec obtain p' where p': "prepare_streams 0 (m_streams M) ?p = Inr (Inr p')" "prepared 0 (m_streams M) ?p p'"
      by auto
    have a: "audioChannel p' = map_option audio_for (last_stream CodecAudio 0 (m_streams M))"
      "map_option fst (videoChannel p') = map_option video_for (last_stream CodecVideo 0 (m_streams M))"
      "callHelper p'"
      using p'(2) assms by (auto simp: prepared_def split: option.splits)
    then have "audioChannel p' = None \<longleftrightarrow> last_stream CodecAudio 0 (m_streams M) = None"
      "videoChannel p' = None \<longleftrightarrow> last_stream CodecVideo 0 (m_streams M) = None"
      by (metis map_option_is_None)+
    then show ?thesis using assms p'(1) a None
      by (auto simp: init_prepare_def report_def Let_def stream_outcome_def)
  qed
qed

text \<open>C8: What preparing a new player reports to Java, for every answer of FFmpeg to opening the media and
  finding its streams. A media that does not open is reported as error 1, without a channel and
  with the format context released. For one that opens, a failure to find the streams is reported
  as error 2, and the function goes on all the same: the first stream that has no decoder, no
  context, bad parameters or a decoder that does not open ends it with that error code; otherwise
  the audio and the video channel belong to the last stream of their type, and \<open>onPrepare\<close> is
  called, or error 8 reported if there is neither. The provisos: every video stream has an average
  frame rate that converts to \<open>int\<close>, and \<open>stop\<close> has not cleared \<open>callHelper\<close>.\<close>

theorem prepare_outcome:
  assumes "callHelper p" and "rates_ok (m_streams M)"
    and "audioChannel p = None" and "videoChannel p = None"
  shows "\<exists>p' cs. init_prepare M p = Inr (p', cs) \<and>
    (if m_open M \<noteq> 0 then
       cs = onError THREAD_CHILD 1 \<and> \<not> formatContext p' \<and> audioChannel p' = None \<and> videoChannel p' = None
     else
       cs = (if m_find M < 0 then onError THREAD_CHILD 2 else []) @
         (case first_error (m_streams M) of
            Some e \<Rightarrow> onError THREAD_CHILD e
          | None \<Rightarrow>
              if last_stream CodecAudio 0 (m_streams M) = None \<and> last_stream CodecVideo 0 (m_streams M) = None
              then onError THREAD_CHILD 8 else onPrepare THREAD_CHILD) \<and>
       (first_error (m_streams M) = None \<longrightarrow>
          audioChannel p' = map_option audio_for (last_stream CodecAudio 0 (m_streams M)) \<and>
          map_option fst (videoChannel p') = map_option video_for (last_stream CodecVideo 0 (m_streams M))))"
proof (cases "m_open M = 0")
  case True
  from init_prepare_opened [OF this assms] show ?thesis using True by (auto simp: stream_outcome_def)
next
  case False
  then show ?thesis using assms by (simp add: init_prepare_def report_def releaseFormatContext_def)
qed

definition demo_stream :: "codec_type \<Rightarrow> stream_info" where
  "demo_stream T = \<lparr>si_decoder = True, si_context = 1, si_parameters = 0, si_open = 0, si_type = T,
     si_num = 1, si_den = 25, si_rate_num = 25, si_rate_den = 1\<rparr>"

definition demo_media :: media where
  "demo_media = \<lparr>m_open = 0, m_find = 0, m_duration = 5000000,
     m_streams = [demo_stream CodecAudio, demo_stream CodecVideo]\<rparr>"

lemma demo_media_rates: "rates_ok (m_streams demo_media)"
  by (simp add: rates_ok_def demo_media_def demo_stream_def frame_rate_def trunc_def)

theorem prepare_outcome_witness:
  "\<exists>p' cs. init_prepare demo_media NiubiPlayer = Inr (p', cs) \<and> cs = onPrepare 2 \<and>
     audioChannel p' = Some (BaseChannel 0 1 1 25)"
  using prepare_outcome [of NiubiPlayer demo_media, OF _ demo_media_rates]
  by (auto simp: demo_media_def demo_stream_def NiubiPlayer_def stream_error_def audio_for_def)

text \<open>A failure to find the streams does not end the preparation: it is reported as an error, and the
  player goes on to announce that it is prepared.\<close>

theorem prepare_continues_after_find_error:
  "\<exists>p'. init_prepare (demo_media\<lparr>m_find := - 1\<rparr>) NiubiPlayer = Inr (p', onError THREAD_CHILD 2 @ onPrepare THREAD_CHILD)"
  by (simp add: init_prepare_def demo_media_def demo_stream_def NiubiPlayer_def report_def prepare_stream_def
      frame_rate_def trunc_def Let_def)

text \<open>C7: The demultiplexer never lets a packet queue grow past 101 packets: in every reachable state, for
  any interleaving with the decode threads that take packets and with \<open>stop\<close>.\<close>

theorem demux_backpressure:
  assumes "fresh_player pl" and "demux_run\<^sup>*\<^sup>* (demux_start pl) s"
  shows "length (audio_q (d_player s)) \<le> 101 \<and> length (video_q (d_player s)) \<le> 101"
proof -
  have "demux_inv s" using demux.reachable_inv assms by blast
  from demux_inv_parts(3) [OF this] show ?thesis by (auto simp: demux_bounded_def split: if_splits)
qed

text \<open>C6: Every packet is accounted for: in every reachable state the live packets are those in the
  audio queue, those in the video queue, those in the hands of the two decode threads and those of
  streams without a channel, and no packet is in two of these places. So a decode thread can
  always release what it holds. With both channels present a step of the demultiplexer faults only
  when its log line reads a packet that has been handed over and freed by then, or when
  \<open>av_packet_alloc\<close> has failed, which it does not test.\<close>

theorem demux_accounts_for_packets:
  assumes "fresh_player pl" and "demux_run\<^sup>*\<^sup>* (demux_start pl) s"
  shows "d_ppool s = set (audio_q (d_player s)) \<union> set (video_q (d_player s)) \<union>
       ({d_audio_hand s, d_video_hand s} - {null}) \<union> d_unclaimed s \<and>
    distinct (audio_q (d_player s) @ video_q (d_player s) @ in_hand (d_audio_hand s) @ in_hand (d_video_hand s)) \<and>
    (set (audio_q (d_player s)) \<union> set (video_q (d_player s)) \<union> ({d_audio_hand s, d_video_hand s} - {null})) \<inter>
       d_unclaimed s = {} \<and>
    (\<exists>t. audio_releases s = Inr t) \<and> (\<exists>t. video_releases s = Inr t) \<and>
    (audioChannel pl \<noteq> None \<and> videoChannel pl \<noteq> None \<and> p \<notin> d_ppool s \<and>
       demux_step rd si p s = Some (Inl e) \<longrightarrow>
       e = UseAfterFree \<and> (\<exists>g. d_pc s = DMLog g \<and> g \<notin> d_ppool s) \<or>
       e = NullDeref \<and> d_pc s = DMRead \<and> p = null)"
proof -
  have inv: "demux_inv s" using demux.reachable_inv assms by blast
  have ch: "audioChannel pl \<noteq> None \<Longrightarrow> audioChannel (d_player s) \<noteq> None"
    "videoChannel pl \<noteq> None \<Longrightarrow> videoChannel (d_player s) \<noteq> None"
    using demux_runs_channels [OF assms(2)] by (auto simp: demux_start_def player_start_def)
  have "audioChannel pl \<noteq> None \<and> videoChannel pl \<noteq> None \<and> p \<notin> d_ppool s \<and>
       demux_step rd si p s = Some (Inl e) \<longrightarrow>
       e = UseAfterFree \<and> (\<exists>g. d_pc s = DMLog g \<and> g \<notin> d_ppool s) \<or>
       e = NullDeref \<and> d_pc s = DMRead \<and> p = null"
    using demux_step_safe [OF inv] ch by blast
  then show ?thesis using demux_inv_parts(1) [OF inv] demux_releases [OF inv]
    unfolding packets_ok_def by blast
qed

text \<open>A run, by the steps of the thread and of the decode threads.\<close>

datatype demux_act = DStep int int ptr | AudioPops | VideoPops | AudioReleases | VideoReleases

definition demux_act_run :: "demux_act \<Rightarrow> demux_sys \<Rightarrow> demux_sys option" where
  "demux_act_run a s =
     (case a of
        DStep rd si p \<Rightarrow>
          (if p \<in> d_ppool s then None
           else case demux_step rd si p s of Some (Inr t) \<Rightarrow> Some t | _ \<Rightarrow> None)
      | AudioPops \<Rightarrow> if d_audio_hand s = null then audio_pops s else None
      | VideoPops \<Rightarrow> if d_video_hand s = null then video_pops s else None
      | AudioReleases \<Rightarrow> (case audio_releases s of Inr t \<Rightarrow> Some t | Inl _ \<Rightarrow> None)
      | VideoReleases \<Rightarrow> (case video_releases s of Inr t \<Rightarrow> Some t | Inl _ \<Rightarrow> None))"

fun demux_acts_run :: "demux_act list \<Rightarrow> demux_sys \<Rightarrow> demux_sys option" where
  "demux_acts_run [] s = Some s"
| "demux_acts_run (a # as) s = (case demux_act_run a s of None \<Rightarrow> None | Some t \<Rightarrow> demux_acts_run as t)"

lemma demux_act_run_step: "demux_act_run a s = Some t \<Longrightarrow> demux_run s t"
  by (auto simp: demux_act_run_def intro: demux_run.intros(1-5)
      split: demux_act.splits if_splits sum.splits option.splits)

lemma demux_acts_steps: "demux_acts_run as s = Some t \<Longrightarrow> demux_run\<^sup>*\<^sup>* s t"
  by (induction as arbitrary: s)
    (auto split: option.splits intro: converse_rtranclp_into_rtranclp demux_act_run_step)

definition demo_player :: "bool \<Rightarrow> player" where
  "demo_player with_video = NiubiPlayer\<lparr>audioChannel := Some (BaseChannel 0 1 1 25),
     videoChannel := if with_video then Some (VideoChannel 1 2 1 25 (\<lambda>_. 0), 25) else None\<rparr>"

lemma demo_player_fresh: "fresh_player (demo_player w)"
  by (auto simp: fresh_player_def demo_player_def NiubiPlayer_def audio_q_def video_q_def callbacks_ok_def
      BaseChannel_def VideoChannel_def mq_setReleaseCallBack_def mq_setSyncHandle_def message_queue_init_def Let_def)

definition demo_demux :: "bool \<Rightarrow> demux_act list \<Rightarrow> demux_sys" where
  "demo_demux w as = the (demux_acts_run as (demux_start (demo_player w)))"

lemma demo_demux_reachable:
  "\<not> Option.is_none (demux_acts_run as (demux_start (demo_player w))) \<Longrightarrow>
     demux_run\<^sup>*\<^sup>* (demux_start (demo_player w)) (demo_demux w as)"
  by (auto simp: demo_demux_def Option.is_none_def intro: demux_acts_steps)

definition demo_reads :: "demux_act list" where
  "demo_reads = [DStep 0 0 1, DStep 0 0 1, DStep 0 0 1, DStep 0 0 1, DStep 0 0 2, DStep 0 0 2, DStep 0 0 2, DStep 0 1 2]"

lemma demo_reads_reach: "demux_run\<^sup>*\<^sup>* (demux_start (demo_player True)) (demo_demux True demo_reads)"
  by (rule demo_demux_reachable) code_simp

theorem demux_backpressure_witness: "length (audio_q (d_player (demo_demux True demo_reads))) \<le> 101"
  using demux_backpressure [OF demo_player_fresh demo_reads_reach] by blast

theorem demux_accounts_for_packets_witness:
  "audio_q (d_player (demo_demux True (demo_reads @ [VideoPops]))) = [1] \<and>
   d_video_hand (demo_demux True (demo_reads @ [VideoPops])) = 2 \<and>
   d_ppool (demo_demux True (demo_reads @ [VideoPops])) = {1, 2}"
proof -
  let ?s = "demo_demux True (demo_reads @ [VideoPops])"
  have "demux_run\<^sup>*\<^sup>* (demux_start (demo_player True)) ?s" by (rule demo_demux_reachable) code_simp
  note acc = demux_accounts_for_packets [OF demo_player_fresh this]
  have q: "audio_q (d_player ?s) = [1]" "video_q (d_player ?s) = []" "d_unclaimed ?s = {}"
    "d_audio_hand ?s = 0" "d_video_hand ?s = 2"
    by code_simp+
  show ?thesis using acc q by auto
qed

text \<open>After it has pushed a video packet the demultiplexer reads the packet's flags for a log line; the
  decode thread may have popped and freed the packet by then.\<close>

lemma demux_log_use_after_free:
  "\<exists>s. demux_run\<^sup>*\<^sup>* (demux_start (demo_player True)) s \<and> demux_step rd si p s = Some (Inl UseAfterFree)"
proof -
  let ?s = "demo_demux True (demo_reads @ [VideoPops, VideoReleases])"
  have "demux_run\<^sup>*\<^sup>* (demux_start (demo_player True)) ?s" by (rule demo_demux_reachable) code_simp
  moreover have "d_pc ?s = DMLog 2" "2 \<notin> d_ppool ?s" by code_simp+
  then have "demux_step rd si p ?s = Some (Inl UseAfterFree)" by (simp add: demux_step_def Let_def)
  ultimately show ?thesis by blast
qed

text \<open>A media without a video stream crashes the demultiplexer at its end: the end-of-file test and the
  final \<open>stop\<close> dereference the missing channel.\<close>

lemma demux_audio_only_crashes:
  "\<exists>s. demux_run\<^sup>*\<^sup>* (demux_start (demo_player False)) s \<and>
     demux_step AVERROR_EOF 0 1 s = Some (Inl NullDeref)"
proof -
  let ?s = "demo_demux False [DStep 0 0 1, DStep 0 0 1, DStep 0 0 1]"
  have "demux_run\<^sup>*\<^sup>* (demux_start (demo_player False)) ?s" by (rule demo_demux_reachable) code_simp
  moreover have "case demux_step AVERROR_EOF 0 1 ?s of Some (Inl NullDeref) \<Rightarrow> True | _ \<Rightarrow> False" by code_simp
  then have "demux_step AVERROR_EOF 0 1 ?s = Some (Inl NullDeref)"
    by (auto split: option.splits sum.splits fault.splits)
  ultimately show ?thesis by blast
qed

end
