(* ===== verification/Av_Filter.thy ===== *)
theory Av_Filter
  imports Prelude
begin

text \<open>
  The filter graphs (\<open>player/filter\<close>): construction of the audio graph (\<open>AudioFilter.cpp\<close>) and of
  the video graph (\<open>ScaleFilter.cpp\<close>), with the base class \<open>Filter\<close>. FFmpeg is a parameter; each
  step is a call whose negative answer ends the construction at the label \<open>end\<close>.
\<close>

datatype filter_call =
    InoutAlloc                   \<comment> \<open>answer: the pointer, 0 for failure\<close>
  | GraphAlloc
  | CreateFilter string string   \<comment> \<open>instance name and arguments\<close>
  | OptSetIntList string         \<comment> \<open>option of the sink\<close>
  | GraphParse string int int    \<comment> \<open>description, inputs, outputs\<close>
  | GraphConfig
  | InoutFree int
  | GraphFree int

datatype FilterType = NONE_FILTER | VIDEO_FILTER | AUDIO_FILTER

record filter_obj =
  filterGraph :: int
  filterType :: FilterType
  f_num :: int
  f_den :: int

definition Filter_ctor :: "FilterType \<Rightarrow> int \<Rightarrow> int \<Rightarrow> filter_obj" where
  "Filter_ctor ty num den = \<lparr>filterGraph = 0, filterType = ty, f_num = num, f_den = den\<rparr>"

text \<open>The codec parameters that end up in the argument strings.\<close>

record codec_params =
  c_width :: int
  c_height :: int
  c_pix_fmt :: int
  c_sar_num :: int
  c_sar_den :: int
  c_sample_rate :: int
  c_sample_fmt :: string
  c_layout :: nat

text \<open>\<open>snprintf(args, sizeof(args), ...)\<close> keeps at most 511 characters.\<close>

definition snprintf512 :: "string \<Rightarrow> string" where
  "snprintf512 s = take 511 s"

definition audio_args :: "codec_params \<Rightarrow> filter_obj \<Rightarrow> string" where
  "audio_args c f = ''time_base='' @ dec_int (f_num f) @ ''/'' @ dec_int (f_den f) @
     '':sample_rate='' @ dec_int (c_sample_rate c) @ '':sample_fmt='' @ c_sample_fmt c @
     '':channel_layout=0x'' @ hex_nat (c_layout c)"

definition video_args :: "codec_params \<Rightarrow> filter_obj \<Rightarrow> string" where
  "video_args c f = ''video_size='' @ dec_int (c_width c) @ ''x'' @ dec_int (c_height c) @
     '':pix_fmt='' @ dec_int (c_pix_fmt c) @ '':time_base='' @ dec_int (f_num f) @ ''/'' @ dec_int (f_den f) @
     '':pixel_aspect='' @ dec_int (c_sar_num c) @ ''/'' @ dec_int (c_sar_den c)"

text \<open>The pattern \<open>ret = step(); if (ret < 0) goto end;\<close> for a list of steps.\<close>

fun until_error :: "'c ext \<Rightarrow> 'c list \<Rightarrow> int \<Rightarrow> ('c, int) io" where
  "until_error x [] r = State_Monad.return r"
| "until_error x (c # cs) r = do { r' \<leftarrow> call x c; if r' < 0 then State_Monad.return r' else until_error x cs r' }"

definition audio_steps :: "codec_params \<Rightarrow> filter_obj \<Rightarrow> string \<Rightarrow> int \<Rightarrow> int \<Rightarrow> filter_call list" where
  "audio_steps c f descr ins outs =
     [CreateFilter ''in'' (snprintf512 (audio_args c f)), CreateFilter ''out'' [],
      OptSetIntList ''sample_fmts'', OptSetIntList ''channel_layouts'', OptSetIntList ''sample_rates'',
      GraphParse descr ins outs, GraphConfig]"

definition video_steps :: "codec_params \<Rightarrow> filter_obj \<Rightarrow> string \<Rightarrow> int \<Rightarrow> int \<Rightarrow> filter_call list" where
  "video_steps c f descr ins outs =
     [CreateFilter ''in'' (snprintf512 (video_args c f)), CreateFilter ''out'' [],
      OptSetIntList ''pix_fmts'', GraphParse descr ins outs, GraphConfig]"

text \<open>
  \<open>initFilter\<close>: allocate both lists and the graph, build, and free the lists on every path. The graph
  stays in the object. A list variable is named by the pointer that was allocated into it; the parser
  may have replaced its content by the time it is freed.
\<close>

definition build_graph ::
    "(int \<Rightarrow> int \<Rightarrow> filter_call list) \<Rightarrow> filter_call ext \<Rightarrow> filter_obj \<Rightarrow> (filter_call, int \<times> filter_obj) io" where
  "build_graph steps x f = do {
     outs \<leftarrow> call x InoutAlloc;
     ins \<leftarrow> call x InoutAlloc;
     g \<leftarrow> call x GraphAlloc;
     r \<leftarrow> (if outs = 0 \<or> ins = 0 \<or> g = 0 then State_Monad.return (- 12)
           else until_error x (steps ins outs) 0);
     emit (InoutFree ins);
     emit (InoutFree outs);
     State_Monad.return (r, f\<lparr>filterGraph := g\<rparr>) }"

definition AudioFilter_initFilter ::
    "filter_call ext \<Rightarrow> codec_params \<Rightarrow> string \<Rightarrow> filter_obj \<Rightarrow> (filter_call, int \<times> filter_obj) io" where
  "AudioFilter_initFilter x c descr f = build_graph (audio_steps c f descr) x f"

definition ScaleFilter_initFilter ::
    "filter_call ext \<Rightarrow> codec_params \<Rightarrow> string \<Rightarrow> filter_obj \<Rightarrow> (filter_call, int \<times> filter_obj) io" where
  "ScaleFilter_initFilter x c descr f = build_graph (video_steps c f descr) x f"

text \<open>
  Destruction runs the derived destructor and then the base destructor; \<open>avfilter_graph_free\<close> nulls
  the pointer, so the second test fails.
\<close>

definition free_graph :: "filter_obj \<Rightarrow> (filter_call, filter_obj) io" where
  "free_graph f = (if filterGraph f \<noteq> 0
     then do { emit (GraphFree (filterGraph f)); State_Monad.return (f\<lparr>filterGraph := 0\<rparr>) }
     else State_Monad.return f)"

definition Filter_dtor :: "filter_obj \<Rightarrow> (filter_call, filter_obj) io" where
  "Filter_dtor f = do { f' \<leftarrow> free_graph f; free_graph f' }"

section \<open>Lemmas\<close>

text \<open>A run of steps makes a prefix of the calls; a negative result stopped it.\<close>

lemma until_error_prefix:
  "\<exists>r' n. run_state (until_error x cs r) h = (r', h @ take n cs) \<and> (0 \<le> r \<longrightarrow> 0 \<le> r' \<longrightarrow> take n cs = cs)"
proof (induction cs arbitrary: r h)
  case Nil
  then show ?case by simp
next
  case (Cons c cs)
  show ?case
  proof (cases "x h c < 0")
    case True
    then show ?thesis by (intro exI [of _ "x h c"] exI [of _ 1]) simp
  next
    case False
    from Cons.IH [of "x h c" "h @ [c]"] obtain r' n where
      "run_state (until_error x cs (x h c)) (h @ [c]) = (r', (h @ [c]) @ take n cs)"
      "0 \<le> x h c \<longrightarrow> 0 \<le> r' \<longrightarrow> take n cs = cs" by blast
    with False show ?thesis by (intro exI [of _ r'] exI [of _ "Suc n"]) simp
  qed
qed

text \<open>The argument strings of \<open>int\<close> parameters never reach the size of the buffer.\<close>

definition ints_ok :: "codec_params \<Rightarrow> filter_obj \<Rightarrow> bool" where
  "ints_ok c f \<longleftrightarrow> (\<forall>i \<in> {c_width c, c_height c, c_pix_fmt c, c_sar_num c, c_sar_den c, c_sample_rate c, f_num f, f_den f}.
     - 2147483648 \<le> i \<and> i \<le> 2147483647) \<and> length (c_sample_fmt c) \<le> 16 \<and> c_layout c < 16 ^ 16"

lemma args_fit:
  assumes "ints_ok c f"
  shows "snprintf512 (audio_args c f) = audio_args c f" and "snprintf512 (video_args c f) = video_args c f"
proof -
  have i: "length (dec_int (c_width c)) \<le> 11" "length (dec_int (c_height c)) \<le> 11" "length (dec_int (c_pix_fmt c)) \<le> 11"
    "length (dec_int (c_sar_num c)) \<le> 11" "length (dec_int (c_sar_den c)) \<le> 11" "length (dec_int (c_sample_rate c)) \<le> 11"
    "length (dec_int (f_num f)) \<le> 11" "length (dec_int (f_den f)) \<le> 11"
    using assms by (auto simp: ints_ok_def intro: dec_int_length)
  have h: "length (hex_nat (c_layout c)) \<le> 16" "length (c_sample_fmt c) \<le> 16"
    using assms hex_nat_length [of 16] by (auto simp: ints_ok_def)
  have "length (audio_args c f) \<le> 511" using i h by (simp add: audio_args_def)
  moreover have "length (video_args c f) \<le> 511" using i by (simp add: video_args_def)
  ultimately show "snprintf512 (audio_args c f) = audio_args c f" "snprintf512 (video_args c f) = video_args c f"
    by (simp_all add: snprintf512_def)
qed

section \<open>Properties\<close>

text \<open>Building a filter graph is balanced on every path: whatever FFmpeg answers, the calls are the three
  allocations, then the construction steps in order up to the first failing one (none when an
  allocation failed), then both lists are freed once each; a non-negative result means that every
  step was made, and the argument string of the source filter is complete.\<close>

lemma scale_filter_balanced:
  assumes "ints_ok c f"
  shows "\<exists>r g n. run_state (ScaleFilter_initFilter x c descr f) [] =
    ((r, f\<lparr>filterGraph := g\<rparr>),
     let outs = x [] InoutAlloc; ins = x [InoutAlloc] InoutAlloc;
         steps = [CreateFilter ''in'' (video_args c f), CreateFilter ''out'' [], OptSetIntList ''pix_fmts'',
                  GraphParse descr ins outs, GraphConfig] in
     [InoutAlloc, InoutAlloc, GraphAlloc] @ take n steps @ [InoutFree ins, InoutFree outs]) \<and>
    (0 \<le> r \<longrightarrow> 5 \<le> n) \<and> (g = 0 \<longrightarrow> n = 0)"
proof -
  let ?outs = "x [] InoutAlloc" and ?ins = "x [InoutAlloc] InoutAlloc"
  let ?g = "x [InoutAlloc, InoutAlloc] GraphAlloc" and ?h = "[InoutAlloc, InoutAlloc, GraphAlloc]"
  have steps: "video_steps c f descr ?ins ?outs = [CreateFilter ''in'' (video_args c f), CreateFilter ''out'' [],
      OptSetIntList ''pix_fmts'', GraphParse descr ?ins ?outs, GraphConfig]" (is "_ = ?s")
    by (simp add: video_steps_def args_fit [OF assms])
  show ?thesis
  proof (cases "?outs = 0 \<or> ?ins = 0 \<or> ?g = 0")
    case True
    then have "run_state (ScaleFilter_initFilter x c descr f) [] =
        ((- 12, f\<lparr>filterGraph := ?g\<rparr>), ?h @ take 0 ?s @ [InoutFree ?ins, InoutFree ?outs])"
      by (auto simp: ScaleFilter_initFilter_def build_graph_def)
    then show ?thesis by (intro exI [of _ "- 12"] exI [of _ ?g] exI [of _ 0]) simp
  next
    case False
    from until_error_prefix [of x ?s 0 ?h] obtain r n where
      r: "run_state (until_error x ?s 0) ?h = (r, ?h @ take n ?s)" "0 \<le> r \<longrightarrow> take n ?s = ?s" by auto
    have "run_state (ScaleFilter_initFilter x c descr f) [] =
        ((r, f\<lparr>filterGraph := ?g\<rparr>), ?h @ take n ?s @ [InoutFree ?ins, InoutFree ?outs])"
      using False r(1) by (simp add: ScaleFilter_initFilter_def build_graph_def steps del: until_error.simps)
    moreover have "0 \<le> r \<longrightarrow> 5 \<le> n" using arg_cong [of "take n ?s" ?s length] r(2) by auto
    ultimately show ?thesis using False
      by (intro exI [of _ r] exI [of _ ?g] exI [of _ n]) (simp add: Let_def)
  qed
qed

definition demo_codec :: codec_params where
  "demo_codec = \<lparr>c_width = 1280, c_height = 720, c_pix_fmt = 0, c_sar_num = 1, c_sar_den = 1,
     c_sample_rate = 44100, c_sample_fmt = ''fltp'', c_layout = 3\<rparr>"

lemma demo_codec_ok: "ints_ok demo_codec (Filter_ctor ty 1 25)"
  by (simp add: ints_ok_def demo_codec_def Filter_ctor_def)

theorem scale_filter_balanced_witness:
  "\<exists>cs. snd (run_state (ScaleFilter_initFilter (\<lambda>h c. 1) demo_codec ''hflip''
      (Filter_ctor VIDEO_FILTER 1 25)) []) = cs @ [InoutFree 1, InoutFree 1]"
  using scale_filter_balanced [of demo_codec "Filter_ctor VIDEO_FILTER 1 25" "\<lambda>h c. 1" "''hflip''", OF demo_codec_ok]
  by (auto simp: Let_def)

text \<open>The graph of a filter object is freed exactly once: the derived and the base destructor both test the
  pointer, and together they make one call to free the graph that \<open>initFilter\<close> stored, or none.\<close>

lemma filter_graph_freed_once:
  "run_state (Filter_dtor f) h =
     (f\<lparr>filterGraph := 0\<rparr>, h @ (if filterGraph f = 0 then [] else [GraphFree (filterGraph f)]))"
  by (simp add: Filter_dtor_def free_graph_def)

end
