(* ===== verification/Audio_Output.thy ===== *)
theory Audio_Output
  imports Audio_Channel Av_Filter
begin

text \<open>
  The rest of \<open>AudioChannel\<close> (\<open>player/AudioChannel.cpp\<close>): the OpenSL ES objects that \<open>init_start\<close>
  creates and \<open>stop\<close> destroys, the constructor and destructor with their buffer, resampler and filter,
  and \<open>doFilter\<close>. OpenSL ES is a parameter: a call has a result code and, when it has an output
  parameter, stores a pointer there.
\<close>

section \<open>OpenSL ES objects\<close>

datatype sl_iid = SL_IID_ENGINE | SL_IID_PLAY | SL_IID_BUFFERQUEUE

text \<open>The data source and sink given to the player: queue length, channels, rate in mHz, bits, mix.\<close>

record sl_source =
  numBuffers :: nat
  numChannels :: nat
  samplesPerSec :: nat
  bitsPerSample :: nat
  containerSize :: nat
  sink_mix :: ptr

datatype sl_call =
    SlCreateEngine
  | SlRealize ptr
  | SlGetInterface ptr sl_iid
  | SlCreateOutputMix ptr
  | SlCreateAudioPlayer ptr sl_source
  | SlRegisterCallback ptr
  | SlSetPlayState ptr
  | BqPlayerCallback ptr       \<comment> \<open>the callback, called by hand\<close>
  | SwrFree ptr
  | SlDestroy ptr

record sl_api =
  sl_result :: "sl_call ext"
  sl_stored :: "sl_call list \<Rightarrow> sl_call \<Rightarrow> ptr"

record audio_out =
  engineObject :: ptr
  engineInterface :: ptr
  outputMixObject :: ptr
  bqPlayerObject :: ptr
  bqPlayerInterface :: ptr
  bqPlayerBufferQueueInterface :: ptr
  swrContext :: ptr

type_synonym 'a sl = "(audio_out, sl_call, 'a) mach"

text \<open>A call with an output parameter: the result, and the pointer it stored.\<close>

definition sl_get :: "sl_api \<Rightarrow> sl_call \<Rightarrow> (int \<times> ptr) sl" where
  "sl_get A c s = Inr ((sl_result A (snd s) c, sl_stored A (snd s) c), (fst s, snd s @ [c]))"

lemma sl_get_simp [simp]:
  "sl_get A c (q, h) = Inr ((sl_result A h c, sl_stored A h c), (q, h @ [c]))"
  by (simp add: sl_get_def)

definition player_source :: "ptr \<Rightarrow> sl_source" where
  "player_source mix = \<lparr>numBuffers = 2, numChannels = 2, samplesPerSec = 44100000,
     bitsPerSample = 16, containerSize = 16, sink_mix = mix\<rparr>"

text \<open>Lines 329 to 369: from the player on, no result is tested.\<close>

definition start_player :: "sl_api \<Rightarrow> unit sl" where
  "start_player A =
     wbind wget (\<lambda>q.
     wbind (sl_get A (SlCreateAudioPlayer (engineInterface q) (player_source (outputMixObject q)))) (\<lambda>(_, pl).
     wbind (wmod (\<lambda>q. q\<lparr>bqPlayerObject := pl\<rparr>)) (\<lambda>_.
     wbind (wderef pl) (\<lambda>_.
     wbind (wcall (sl_result A) (SlRealize pl)) (\<lambda>_.
     wbind (sl_get A (SlGetInterface pl SL_IID_PLAY)) (\<lambda>(_, play).
     wbind (wmod (\<lambda>q. q\<lparr>bqPlayerInterface := play\<rparr>)) (\<lambda>_.
     wbind (sl_get A (SlGetInterface pl SL_IID_BUFFERQUEUE)) (\<lambda>(_, bq).
     wbind (wmod (\<lambda>q. q\<lparr>bqPlayerBufferQueueInterface := bq\<rparr>)) (\<lambda>_.
     wbind (wderef bq) (\<lambda>_.
     wbind (wcall (sl_result A) (SlRegisterCallback bq)) (\<lambda>_.
     wbind (wderef play) (\<lambda>_.
     wbind (wcall (sl_result A) (SlSetPlayState play)) (\<lambda>_.
     wbind (wcall (sl_result A) (BqPlayerCallback bq)) (\<lambda>_. wret ()))))))))))))))"

text \<open>Lines 282 to 316: engine and mixer, with a return at the first failure.\<close>

definition init_start :: "sl_api \<Rightarrow> unit sl" where
  "init_start A =
     wbind (sl_get A SlCreateEngine) (\<lambda>(r1, eng).
     wbind (wmod (\<lambda>q. q\<lparr>engineObject := eng\<rparr>)) (\<lambda>_.
     if r1 \<noteq> 0 then wret () else
     wbind (wcall (sl_result A) (SlRealize eng)) (\<lambda>r2.
     if r2 \<noteq> 0 then wret () else
     wbind (sl_get A (SlGetInterface eng SL_IID_ENGINE)) (\<lambda>(r3, itf).
     wbind (wmod (\<lambda>q. q\<lparr>engineInterface := itf\<rparr>)) (\<lambda>_.
     if r3 \<noteq> 0 then wret () else
     wbind (sl_get A (SlCreateOutputMix itf)) (\<lambda>(r4, mix).
     wbind (wmod (\<lambda>q. q\<lparr>outputMixObject := mix\<rparr>)) (\<lambda>_.
     if r4 \<noteq> 0 then wret () else
     wbind (wcall (sl_result A) (SlRealize mix)) (\<lambda>r5.
     if r5 \<noteq> 0 then wret () else start_player A))))))))"

text \<open>Lines 381 to 405 of \<open>stop\<close>, after both threads were joined.\<close>

definition stop_output :: "unit sl" where
  "stop_output =
     wbind wget (\<lambda>q.
     wbind (if swrContext q \<noteq> null
            then wbind (wcall (\<lambda>_ _. 0) (SwrFree (swrContext q))) (\<lambda>_. wmod (\<lambda>q. q\<lparr>swrContext := null\<rparr>))
            else wret ()) (\<lambda>_.
     wbind (if bqPlayerObject q \<noteq> null
            then wbind (wcall (\<lambda>_ _. 0) (SlDestroy (bqPlayerObject q))) (\<lambda>_.
              wmod (\<lambda>q. q\<lparr>bqPlayerObject := null, bqPlayerInterface := null, bqPlayerBufferQueueInterface := null\<rparr>))
            else wret ()) (\<lambda>_.
     wbind (if outputMixObject q \<noteq> null
            then wbind (wcall (\<lambda>_ _. 0) (SlDestroy (outputMixObject q))) (\<lambda>_. wmod (\<lambda>q. q\<lparr>outputMixObject := null\<rparr>))
            else wret ()) (\<lambda>_.
     if engineObject q \<noteq> null
     then wbind (wcall (\<lambda>_ _. 0) (SlDestroy (engineObject q))) (\<lambda>_.
       wmod (\<lambda>q. q\<lparr>engineObject := null, engineInterface := null\<rparr>))
     else wret ()))))"

section \<open>Construction, destruction and the filter\<close>

text \<open>
  The constructor's own part: the filter with its graph, the zeroed PCM buffer at \<open>buf\<close> (the answer of
  \<open>malloc\<close>) and the resampler context at \<open>swr\<close>. The result of \<open>initFilter\<close> is not used, and that of
  \<open>swr_init\<close> only logged.
\<close>

record audio_obj =
  out_buffers :: ptr
  out_bytes :: block
  audioFilter :: "filter_obj option"
  a_output :: audio_out

definition filter_descr :: string where
  "filter_descr = ''aresample=8000,aformat=sample_fmts=s16:channel_layouts=mono''"

definition AudioChannel_ctor ::
    "filter_call ext \<Rightarrow> codec_params \<Rightarrow> int \<Rightarrow> int \<Rightarrow> ptr \<Rightarrow> ptr \<Rightarrow> filter_call list \<Rightarrow>
     (audio_obj \<times> filter_call list) res" where
  "AudioChannel_ctor x cp num den buf swr h =
     (let ((_, f), h') = run_state (AudioFilter_initFilter x cp filter_descr (Filter_ctor AUDIO_FILTER num den)) h in
      if buf = null then Inl NullDeref
      else Inr (\<lparr>out_buffers = buf, out_bytes = replicate (nat out_buffers_size) 0, audioFilter = Some f,
        a_output = \<lparr>engineObject = null, engineInterface = null, outputMixObject = null, bqPlayerObject = null,
          bqPlayerInterface = null, bqPlayerBufferQueueInterface = null, swrContext = swr\<rparr>\<rparr>, h'))"

definition AudioChannel_dtor :: "audio_obj \<Rightarrow> pool \<Rightarrow> filter_call list \<Rightarrow> (audio_obj \<times> pool \<times> filter_call list) res" where
  "AudioChannel_dtor c P h =
     res_bind (pool_free (out_buffers c) P) (\<lambda>P'.
       let h' = (case audioFilter c of Some f \<Rightarrow> snd (run_state (Filter_dtor f) h) | None \<Rightarrow> h) in
       Inr (c\<lparr>out_buffers := null, audioFilter := None\<rparr>, P', h'))"

text \<open>
  \<open>doFilter\<close>: whatever the graph answers (both results are only logged), the frame \<open>g\<close> that
  \<open>av_frame_alloc\<close> returned is queued.
\<close>

definition audio_doFilter :: "bool \<Rightarrow> ptr \<Rightarrow> chan \<Rightarrow> pool \<Rightarrow> (chan \<times> pool) res" where
  "audio_doFilter has_filter g c P =
     (if \<not> has_filter then Inr (c, P)
      else if g = null then Inl NullDeref
      else res_bind (mq_push g (frames c) (insert g P)) (\<lambda>(q, P'). Inr (c\<lparr>frames := q\<rparr>, P')))"

section \<open>What is created and destroyed\<close>

text \<open>
  The objects a list of calls created, in order, and the ones it destroyed. OpenSL ES stores null in
  the output parameter of a creation or of \<open>GetInterface\<close> exactly when the call fails.
\<close>

definition creates :: "sl_call \<Rightarrow> bool" where
  "creates c \<longleftrightarrow> (case c of SlCreateEngine \<Rightarrow> True | SlCreateOutputMix _ \<Rightarrow> True | SlCreateAudioPlayer _ _ \<Rightarrow> True | _ \<Rightarrow> False)"

fun created_from :: "sl_api \<Rightarrow> sl_call list \<Rightarrow> sl_call list \<Rightarrow> ptr list" where
  "created_from A h [] = []"
| "created_from A h (c # cs) =
     (if creates c \<and> sl_stored A h c \<noteq> null then [sl_stored A h c] else []) @ created_from A (h @ [c]) cs"

abbreviation created :: "sl_api \<Rightarrow> sl_call list \<Rightarrow> ptr list" where
  "created A \<equiv> created_from A []"

definition destroyed :: "sl_call list \<Rightarrow> ptr list" where
  "destroyed h = concat (map (\<lambda>c. case c of SlDestroy p \<Rightarrow> [p] | _ \<Rightarrow> []) h)"

definition sl_laws :: "sl_api \<Rightarrow> bool" where
  "sl_laws A \<longleftrightarrow> (\<forall>h c. creates c \<or> (\<exists>p i. c = SlGetInterface p i) \<longrightarrow>
     (sl_stored A h c = null \<longleftrightarrow> sl_result A h c \<noteq> 0))"

definition no_output :: "ptr \<Rightarrow> audio_out" where
  "no_output swr = \<lparr>engineObject = null, engineInterface = null, outputMixObject = null, bqPlayerObject = null,
     bqPlayerInterface = null, bqPlayerBufferQueueInterface = null, swrContext = swr\<rparr>"

lemma creates_simps [simp]:
  "creates SlCreateEngine" "creates (SlCreateOutputMix i)" "creates (SlCreateAudioPlayer i d)"
  "\<not> creates (SlRealize p)" "\<not> creates (SlGetInterface p j)" "\<not> creates (SlRegisterCallback p)"
  "\<not> creates (SlSetPlayState p)" "\<not> creates (BqPlayerCallback p)" "\<not> creates (SwrFree p)" "\<not> creates (SlDestroy p)"
  by (simp_all add: creates_def)

lemma created_append: "created_from A h (xs @ ys) = created_from A h xs @ created_from A (h @ xs) ys"
  by (induction xs arbitrary: h) simp_all

lemma destroyed_append [simp]: "destroyed (xs @ ys) = destroyed xs @ destroyed ys"
  by (simp add: destroyed_def)

lemma destroyed_simps [simp]:
  "destroyed [] = []" "destroyed (c # h) = (case c of SlDestroy p \<Rightarrow> [p] | _ \<Rightarrow> []) @ destroyed h"
  by (simp_all add: destroyed_def)

text \<open>The objects an output holds, the player last.\<close>

definition holds_objects :: "audio_out \<Rightarrow> ptr list" where
  "holds_objects q = filter (\<lambda>p. p \<noteq> null) [engineObject q, outputMixObject q, bqPlayerObject q]"

definition interfaces_ok :: "audio_out \<Rightarrow> bool" where
  "interfaces_ok q \<longleftrightarrow> (engineObject q = null \<longrightarrow> engineInterface q = null) \<and>
     (bqPlayerObject q = null \<longrightarrow> bqPlayerInterface q = null \<and> bqPlayerBufferQueueInterface q = null)"

lemma stop_output_run:
  assumes "interfaces_ok q"
  shows "\<exists>cs. stop_output (q, h) = Inr ((), no_output null, h @ cs) \<and>
     destroyed cs = rev (holds_objects q) \<and> created_from A h cs = []"
  using assms by (auto simp: stop_output_def no_output_def holds_objects_def interfaces_ok_def)

text \<open>What \<open>start_player\<close> does, and what \<open>init_start\<close> leaves behind.\<close>

lemma start_player_run:
  assumes "start_player A (q, h) = Inr ((), q', h')"
  shows "engineObject q' = engineObject q \<and> outputMixObject q' = outputMixObject q \<and> bqPlayerObject q' \<noteq> 0 \<and>
    (\<exists>cs. h' = h @ cs \<and> destroyed cs = [] \<and> created_from A h cs = [bqPlayerObject q'])"
  using assms by (auto simp: start_player_def split: if_splits)

definition player_created :: "sl_api \<Rightarrow> bool" where
  "player_created A \<longleftrightarrow> (\<forall>h c. (\<exists>e d. c = SlCreateAudioPlayer e d) \<or> (\<exists>p. c = SlGetInterface p SL_IID_PLAY) \<or>
     (\<exists>p. c = SlGetInterface p SL_IID_BUFFERQUEUE) \<longrightarrow> sl_result A h c = 0)"

lemma start_player_returns:
  assumes "sl_laws A" "player_created A"
  shows "\<exists>q' h'. start_player A (q, h) = Inr ((), q', h')"
proof -
  have "sl_stored A h c \<noteq> 0" if "(\<exists>e d. c = SlCreateAudioPlayer e d) \<or> (\<exists>p. c = SlGetInterface p SL_IID_PLAY) \<or>
     (\<exists>p. c = SlGetInterface p SL_IID_BUFFERQUEUE)" for h c
    using assms that unfolding sl_laws_def player_created_def by (metis creates_simps(3))
  then show ?thesis by (auto simp: start_player_def)
qed

lemma init_start_run:
  assumes A: "sl_laws A" and r: "init_start A (no_output swr, []) = Inr ((), q, h)"
  shows "interfaces_ok q \<and> created A h = holds_objects q \<and> destroyed h = []"
proof -
  have eng: "sl_stored A [] SlCreateEngine = 0 \<longleftrightarrow> sl_result A [] SlCreateEngine \<noteq> 0"
    using A by (auto simp: sl_laws_def)
  show ?thesis
  proof (cases "sl_result A [] SlCreateEngine = 0")
    case True
    with eng r show ?thesis
      by (auto simp: init_start_def no_output_def interfaces_ok_def holds_objects_def created_append
        dest!: start_player_run split: if_splits)
  next
    case False
    with eng r show ?thesis
      by (auto simp: init_start_def no_output_def interfaces_ok_def holds_objects_def created_append)
  qed
qed

section \<open>Properties\<close>

text \<open>C28: The OpenSL ES objects are balanced. Whatever OpenSL ES answers, when \<open>init_start\<close> returns (early
  or not), the following \<open>stop\<close> destroys exactly the objects that were created, each once and in
  reverse order of creation (player, mixer, engine), and leaves every field null; and \<open>init_start\<close>
  does return, without a fault, unless the unchecked creation of the player or of one of its two
  interfaces fails.\<close>

theorem audio_output_balanced:
  assumes "sl_laws A"
  shows "(\<forall>q h. init_start A (no_output swr, []) = Inr ((), q, h) \<longrightarrow>
      (\<exists>cs. stop_output (q, h) = Inr ((), no_output null, h @ cs) \<and>
         destroyed (h @ cs) = rev (created A (h @ cs)))) \<and>
    (player_created A \<longrightarrow> (\<exists>q h. init_start A (no_output swr, []) = Inr ((), q, h)))"
proof (intro conjI allI impI)
  fix q h assume r: "init_start A (no_output swr, []) = Inr ((), q, h)"
  then have q: "interfaces_ok q" "created A h = holds_objects q" "destroyed h = []"
    using init_start_run [OF assms] by auto
  from stop_output_run [OF q(1), of h A] obtain cs where
    "stop_output (q, h) = Inr ((), no_output null, h @ cs)" "destroyed cs = rev (holds_objects q)" "created_from A h cs = []"
    by blast
  with q show "\<exists>cs. stop_output (q, h) = Inr ((), no_output null, h @ cs) \<and> destroyed (h @ cs) = rev (created A (h @ cs))"
    by (intro exI [of _ cs]) (simp add: created_append)
next
  assume "player_created A"
  from start_player_returns [OF assms this] have
    "\<exists>q' h'. start_player A s = Inr ((), q', h')" for s by (cases s) blast
  then show "\<exists>q h. init_start A (no_output swr, []) = Inr ((), q, h)"
    by (auto simp: init_start_def)
qed

text \<open>A device without output mixer: \<open>init_start\<close> returns early and only the engine is destroyed.\<close>

definition demo_sl :: "sl_api" where
  "demo_sl = \<lparr>sl_result = (\<lambda>h c. case c of SlCreateOutputMix _ \<Rightarrow> 1 | _ \<Rightarrow> 0),
     sl_stored = (\<lambda>h c. case c of SlCreateOutputMix _ \<Rightarrow> 0 | _ \<Rightarrow> Suc (length h))\<rparr>"

theorem audio_output_balanced_witness:
  "\<exists>q h cs. init_start demo_sl (no_output 7, []) = Inr ((), q, h) \<and> stop_output (q, h) = Inr ((), no_output 0, h @ cs) \<and>
     destroyed (h @ cs) = rev (created demo_sl (h @ cs)) \<and> created demo_sl h = [1]"
proof -
  have laws: "sl_laws demo_sl" by (auto simp: sl_laws_def demo_sl_def split: sl_call.splits)
  have "init_start demo_sl (no_output 7, []) = Inr ((), (no_output 7)\<lparr>engineObject := 1, engineInterface := 3\<rparr>,
      [SlCreateEngine, SlRealize 1, SlGetInterface 1 SL_IID_ENGINE, SlCreateOutputMix 3])" (is "_ = Inr ((), ?q, ?h)")
    by (simp add: init_start_def demo_sl_def no_output_def)
  moreover have "created demo_sl ?h = [1]" by (simp add: demo_sl_def)
  ultimately show ?thesis using audio_output_balanced [OF laws, of 7] by blast
qed

text \<open>The results of the player's creation are not tested: when it fails, the next line dereferences null.\<close>

lemma player_failure_crashes:
  assumes "sl_laws A" "sl_result A h (SlCreateAudioPlayer (engineInterface q) (player_source (outputMixObject q))) \<noteq> 0"
  shows "start_player A (q, h) = Inl NullDeref"
proof -
  have "sl_stored A h (SlCreateAudioPlayer (engineInterface q) (player_source (outputMixObject q))) = 0"
    using assms unfolding sl_laws_def by (metis creates_simps(3))
  then show ?thesis by (simp add: start_player_def)
qed

text \<open>
  Construction and destruction of the channel object are balanced in the buffer and the filter graph;
  the resampler is left to \<open>stop\<close>.
\<close>

lemma audio_object_balanced:
  assumes "AudioChannel_ctor x cp num den buf swr h = Inr (c, h')" "buf \<notin> P"
  shows "\<exists>f. audioFilter c = Some f \<and> AudioChannel_dtor c (insert buf P) h' =
    Inr (c\<lparr>out_buffers := null, audioFilter := None\<rparr>, P,
         h' @ (if filterGraph f = 0 then [] else [GraphFree (filterGraph f)]))"
  using assms by (auto simp: AudioChannel_ctor_def AudioChannel_dtor_def filter_graph_freed_once pool_free_def Let_def
      split: prod.splits if_splits)

text \<open>The PCM format announced to the player is the one \<open>getPcm\<close> produces.\<close>

lemma player_source_format:
  "int (numChannels (player_source m)) = out_channels \<and> int (samplesPerSec (player_source m)) = 1000 * out_sample_rate \<and>
   int (bitsPerSample (player_source m)) = 8 * out_sample_size"
  by (simp add: player_source_def)

text \<open>\<open>doFilter\<close> hands exactly one new frame to the queue, or frees it when the queue is stopped.\<close>

lemma audio_doFilter_owns:
  assumes "held (frames c) P R" "g \<noteq> null" "g \<notin> P"
  shows "\<exists>c' P'. audio_doFilter True g c P = Inr (c', P') \<and> held (frames c') P' R"
proof -
  have "held (frames c) (insert g P) (insert g R)" using assms by (rule held_fresh)
  from held_push [OF this insertI1] obtain q' P' where
    q': "mq_push g (frames c) (insert g P) = Inr (q', P')" "held q' P' (insert g R - {g})" by blast
  moreover have "insert g R - {g} = R" using assms by (auto simp: held_def)
  ultimately show ?thesis using assms(2) by (simp add: audio_doFilter_def)
qed

end
