(* ===== verification/Native_Image.thy ===== *)
theory Native_Image
  imports Prelude
begin

text \<open>
  \<open>NativeImage\<close> and \<open>NativeImageUtil\<close> of \<open>util/ImageDef.h\<close>: images in one of four pixel formats
  whose planes live in one heap block, their allocation, release and copy. A plane pointer is a
  block and an offset into it, so that the bounds of every \<open>memcpy\<close> are checked.
\<close>

section \<open>Blocks, planes and images\<close>

type_synonym bheap = "ptr \<Rightarrow> block option"
type_synonym plane = "ptr \<times> int"

abbreviation (input) nullptr :: plane where "nullptr \<equiv> (0, 0)"

abbreviation (input) IMAGE_FORMAT_RGBA :: int where "IMAGE_FORMAT_RGBA \<equiv> 1"
abbreviation (input) IMAGE_FORMAT_NV21 :: int where "IMAGE_FORMAT_NV21 \<equiv> 2"
abbreviation (input) IMAGE_FORMAT_NV12 :: int where "IMAGE_FORMAT_NV12 \<equiv> 3"
abbreviation (input) IMAGE_FORMAT_I420 :: int where "IMAGE_FORMAT_I420 \<equiv> 4"

record NativeImage =
  width :: int
  height :: int
  format :: int
  ppPlane0 :: plane
  ppPlane1 :: plane
  ppPlane2 :: plane
  pLineSize0 :: int
  pLineSize1 :: int
  pLineSize2 :: int

definition NativeImage_init :: NativeImage where
  "NativeImage_init = \<lparr>width = 0, height = 0, format = 0, ppPlane0 = nullptr, ppPlane1 = nullptr,
     ppPlane2 = nullptr, pLineSize0 = 0, pLineSize1 = 0, pLineSize2 = 0\<rparr>"

definition shift_plane :: "plane \<Rightarrow> int \<Rightarrow> plane" where
  "shift_plane p n = (fst p, snd p + n)"

lemma shift_plane_simps [simp]: "shift_plane (b, d) n = (b, d + n)"
  by (simp add: shift_plane_def)

section \<open>Allocation and release\<close>

text \<open>
  \<open>malloc n\<close> with the pointer \<open>p\<close> it returned (null when it failed); the new block's contents
  are indeterminate, given by \<open>junk\<close>.
\<close>

definition malloc_block :: "ptr \<Rightarrow> (nat \<Rightarrow> byte) \<Rightarrow> int \<Rightarrow> bheap \<Rightarrow> bheap" where
  "malloc_block p junk n H = (if p = null then H else H(p \<mapsto> map junk [0..<nat n]))"

text \<open>
  \<open>AllocNativeImage\<close>. The product \<open>width * height\<close> is an \<open>int\<close> product; for the YUV formats it
  is multiplied by \<open>1.5\<close> as a double (exact here) and truncated to \<open>size_t\<close>. \<open>>>\<close> is
  flooring division, \<open>/\<close> truncating.
\<close>

definition AllocNativeImage ::
    "ptr \<Rightarrow> (nat \<Rightarrow> byte) \<Rightarrow> NativeImage \<Rightarrow> bheap \<Rightarrow> (NativeImage \<times> bheap) res" where
  "AllocNativeImage p junk img H =
     (if height img = 0 \<or> width img = 0 then Inr (img, H)
      else if format img = IMAGE_FORMAT_RGBA then
        res_bind (c_mul (width img) (height img)) (\<lambda>wh.
        res_bind (c_mul wh 4) (\<lambda>n.
        res_bind (c_mul (width img) 4) (\<lambda>ls.
          Inr (img\<lparr>ppPlane0 := (p, 0), pLineSize0 := ls, pLineSize1 := 0, pLineSize2 := 0\<rparr>,
               malloc_block p junk n H))))
      else if format img = IMAGE_FORMAT_NV12 \<or> format img = IMAGE_FORMAT_NV21 then
        res_bind (c_mul (width img) (height img)) (\<lambda>wh.
          Inr (img\<lparr>ppPlane0 := (p, 0), ppPlane1 := (p, wh),
                   pLineSize0 := width img, pLineSize1 := width img, pLineSize2 := 0\<rparr>,
               malloc_block p junk (wh * 3 div 2) H))
      else if format img = IMAGE_FORMAT_I420 then
        res_bind (c_mul (width img) (height img)) (\<lambda>wh.
        res_bind (c_mul (width img div 2) (height img div 2)) (\<lambda>q.
          Inr (img\<lparr>ppPlane0 := (p, 0), ppPlane1 := (p, wh), ppPlane2 := (p, wh + q),
                   pLineSize0 := width img, pLineSize1 := width img sdiv 2,
                   pLineSize2 := width img sdiv 2\<rparr>,
               malloc_block p junk (wh * 3 div 2) H)))
      else Inr (img, H))"

definition FreeNativeImage :: "NativeImage \<Rightarrow> bheap \<Rightarrow> (NativeImage \<times> bheap) res" where
  "FreeNativeImage img H =
     (if ppPlane0 img = nullptr then Inr (img, H)
      else (case H (fst (ppPlane0 img)) of
              None \<Rightarrow> Inl DoubleFree
            | Some _ \<Rightarrow> Inr (img\<lparr>ppPlane0 := nullptr, ppPlane1 := nullptr, ppPlane2 := nullptr\<rparr>,
                            H(fst (ppPlane0 img) := None))))"

section \<open>Copying\<close>

definition heap_copy :: "plane \<Rightarrow> plane \<Rightarrow> int \<Rightarrow> bheap \<Rightarrow> bheap res" where
  "heap_copy dst src n H =
     (case (H (fst dst), H (fst src)) of
        (Some D, Some S) \<Rightarrow>
          (if fst dst = fst src \<and> snd src < snd dst + n \<and> snd dst < snd src + n then Inl Overlap
           else res_bind (mem_copy D (snd dst) S (snd src) n) (\<lambda>r. Inr (H(fst dst \<mapsto> r))))
      | _ \<Rightarrow> Inl NullDeref)"

text \<open>The row loop \<open>for (int i = 0; i < rows; ++i) memcpy(dst + i * dl, src + i * sl, rb)\<close>.\<close>

function copy_rows :: "int \<Rightarrow> int \<Rightarrow> plane \<Rightarrow> int \<Rightarrow> plane \<Rightarrow> int \<Rightarrow> int \<Rightarrow> bheap \<Rightarrow> bheap res" where
  "copy_rows i rows dst dl src sl rb H =
     (if i < rows then
        res_bind (c_mul i dl) (\<lambda>od. res_bind (c_mul i sl) (\<lambda>os.
        res_bind (heap_copy (shift_plane dst od) (shift_plane src os) rb H) (\<lambda>H'.
          copy_rows (i + 1) rows dst dl src sl rb H')))
      else Inr H)"
  by pat_completeness auto
termination
  by (relation "measure (\<lambda>(i, rows, dst, dl, src, sl, rb, H). nat (rows - i))") auto

declare copy_rows.simps [simp del]

text \<open>
  One plane: row by row when the line sizes differ, else one \<open>memcpy\<close> of \<open>bulk\<close> bytes.
\<close>

definition copy_plane ::
    "plane \<Rightarrow> int \<Rightarrow> plane \<Rightarrow> int \<Rightarrow> int \<Rightarrow> int \<Rightarrow> int res \<Rightarrow> bheap \<Rightarrow> bheap res" where
  "copy_plane dst dl src sl rows rb bulk H =
     (if sl \<noteq> dl then copy_rows 0 rows dst dl src sl rb H
      else res_bind bulk (\<lambda>n. heap_copy dst src n H))"

text \<open>\<open>CopyNativeImage\<close>; \<open>p\<close> and \<open>junk\<close> serve the allocation of an empty destination.\<close>

definition CopyNativeImage ::
    "ptr \<Rightarrow> (nat \<Rightarrow> byte) \<Rightarrow> NativeImage \<Rightarrow> NativeImage \<Rightarrow> bheap \<Rightarrow> (NativeImage \<times> bheap) res" where
  "CopyNativeImage p junk src dst0 H0 =
     (if ppPlane0 src = nullptr then Inr (dst0, H0)
      else if format src \<noteq> format dst0 \<or> width src \<noteq> width dst0 \<or> height src \<noteq> height dst0
      then Inr (dst0, H0)
      else
        res_bind (if ppPlane0 dst0 = nullptr then AllocNativeImage p junk dst0 H0
                  else Inr (dst0, H0)) (\<lambda>(dst, H).
        if format src = IMAGE_FORMAT_I420 then
          res_bind (copy_plane (ppPlane0 dst) (pLineSize0 dst) (ppPlane0 src) (pLineSize0 src)
                      (height src) (width dst) (c_mul (pLineSize0 dst) (height src)) H) (\<lambda>H1.
          res_bind (copy_plane (ppPlane1 dst) (pLineSize1 dst) (ppPlane1 src) (pLineSize1 src)
                      (height src sdiv 2) (width dst sdiv 2)
                      (res_bind (c_mul (pLineSize1 dst) (height src)) (\<lambda>n. Inr (n sdiv 2))) H1) (\<lambda>H2.
          res_bind (copy_plane (ppPlane2 dst) (pLineSize2 dst) (ppPlane2 src) (pLineSize2 src)
                      (height src sdiv 2) (width dst sdiv 2)
                      (res_bind (c_mul (pLineSize2 dst) (height src)) (\<lambda>n. Inr (n sdiv 2))) H2) (\<lambda>H3.
            Inr (dst, H3))))
        else if format src = IMAGE_FORMAT_NV21 \<or> format src = IMAGE_FORMAT_NV12 then
          res_bind (copy_plane (ppPlane0 dst) (pLineSize0 dst) (ppPlane0 src) (pLineSize0 src)
                      (height src) (width dst) (c_mul (pLineSize0 dst) (height src)) H) (\<lambda>H1.
          res_bind (copy_plane (ppPlane1 dst) (pLineSize1 dst) (ppPlane1 src) (pLineSize1 src)
                      (height src sdiv 2) (width dst)
                      (res_bind (c_mul (pLineSize1 dst) (height src)) (\<lambda>n. Inr (n sdiv 2))) H1) (\<lambda>H2.
            Inr (dst, H2)))
        else if format src = IMAGE_FORMAT_RGBA then
          res_bind (c_mul (width dst) 4) (\<lambda>rb.
          res_bind (copy_plane (ppPlane0 dst) (pLineSize0 dst) (ppPlane0 src) (pLineSize0 src)
                      (height src) rb (c_mul (pLineSize0 src) (height src)) H) (\<lambda>H1.
            Inr (dst, H1)))
        else Inr (dst, H)))"

section \<open>Dumping\<close>

definition dump_ext :: "int \<Rightarrow> string" where
  "dump_ext f = (if f = IMAGE_FORMAT_I420 then ''I420'' else if f = IMAGE_FORMAT_NV12 then ''NV12''
     else if f = IMAGE_FORMAT_NV21 then ''NV21'' else if f = IMAGE_FORMAT_RGBA then ''RGB32'' else ''Default'')"

text \<open>The file name; \<open>index\<close> is a static that nothing increments, so it is always 0.\<close>

definition dump_path :: "string \<Rightarrow> string \<Rightarrow> NativeImage \<Rightarrow> string" where
  "dump_path path fname img =
     path @ ''/IMG_'' @ dec_int (width img) @ ''x'' @ dec_int (height img) @ ''_'' @ fname @ ''_'' @
     dec_int 0 @ ''.'' @ dump_ext (format img)"

text \<open>\<open>fwrite(plane, n, 1, fp)\<close>: the \<open>n\<close> bytes behind the plane pointer.\<close>

definition write_plane :: "plane \<Rightarrow> int \<Rightarrow> bheap \<Rightarrow> block res" where
  "write_plane p n H =
     (case H (fst p) of
        None \<Rightarrow> Inl NullDeref
      | Some D \<Rightarrow> (if 0 \<le> n \<and> 0 \<le> snd p \<and> snd p + n \<le> int (length D)
                   then Inr (take (nat n) (drop (nat (snd p)) D)) else Inl OutOfBounds))"

text \<open>
  \<open>DumpNativeImage\<close>: the name has to fit \<open>imgPath[256]\<close>; \<open>opened\<close> says whether \<open>fopen\<close> succeeded.
  The result is the name and the bytes written.
\<close>

definition DumpNativeImage ::
    "bool \<Rightarrow> NativeImage \<Rightarrow> string \<Rightarrow> string \<Rightarrow> bheap \<Rightarrow> (string \<times> block) res" where
  "DumpNativeImage opened img path fname H =
     (let name = dump_path path fname img in
      if 256 \<le> length name then Inl OutOfBounds
      else if \<not> opened then Inr (name, [])
      else if format img = IMAGE_FORMAT_I420 then
        res_bind (c_mul (width img) (height img)) (\<lambda>n.
        res_bind (write_plane (ppPlane0 img) n H) (\<lambda>y.
        res_bind (c_mul (width img div 2) (height img div 2)) (\<lambda>q.
        res_bind (write_plane (ppPlane1 img) q H) (\<lambda>u.
        res_bind (write_plane (ppPlane2 img) q H) (\<lambda>v. Inr (name, y @ u @ v))))))
      else if format img = IMAGE_FORMAT_NV21 \<or> format img = IMAGE_FORMAT_NV12 then
        res_bind (c_mul (width img) (height img)) (\<lambda>n.
        res_bind (write_plane (ppPlane0 img) n H) (\<lambda>y.
        res_bind (c_mul (width img) (height img div 2)) (\<lambda>q.
        res_bind (write_plane (ppPlane1 img) q H) (\<lambda>uv. Inr (name, y @ uv)))))
      else if format img = IMAGE_FORMAT_RGBA then
        res_bind (c_mul (width img) (height img)) (\<lambda>wh. res_bind (c_mul wh 4) (\<lambda>n.
        res_bind (write_plane (ppPlane0 img) n H) (\<lambda>r. Inr (name, r))))
      else Inr (name, []))"

section \<open>Layout\<close>

text \<open>Bytes of an image, and the rows and bytes per row of plane \<open>k\<close>.\<close>

definition image_bytes :: "int \<Rightarrow> int \<Rightarrow> int \<Rightarrow> int" where
  "image_bytes f w h = (if f = IMAGE_FORMAT_RGBA then w * h * 4 else w * h * 3 div 2)"

definition plane_rows :: "int \<Rightarrow> int \<Rightarrow> nat \<Rightarrow> int" where
  "plane_rows f h k = (if k = 0 then h
     else if k = 1 \<and> f \<noteq> IMAGE_FORMAT_RGBA \<or> k = 2 \<and> f = IMAGE_FORMAT_I420 then h div 2 else 0)"

definition plane_cols :: "int \<Rightarrow> int \<Rightarrow> nat \<Rightarrow> int" where
  "plane_cols f w k = (if f = IMAGE_FORMAT_RGBA then w * 4
     else if k = 0 then w else if f = IMAGE_FORMAT_I420 then w div 2 else w)"

definition has_plane :: "int \<Rightarrow> nat \<Rightarrow> bool" where
  "has_plane f k \<longleftrightarrow> k = 0 \<or> k = 1 \<and> f \<noteq> IMAGE_FORMAT_RGBA \<or> k = 2 \<and> f = IMAGE_FORMAT_I420"

definition plane_of :: "NativeImage \<Rightarrow> nat \<Rightarrow> plane" where
  "plane_of img k = (if k = 0 then ppPlane0 img else if k = 1 then ppPlane1 img else ppPlane2 img)"

definition line_of :: "NativeImage \<Rightarrow> nat \<Rightarrow> int" where
  "line_of img k = (if k = 0 then pLineSize0 img else if k = 1 then pLineSize1 img else pLineSize2 img)"

text \<open>The byte of plane \<open>k\<close> at row \<open>i\<close>, column \<open>j\<close>.\<close>

definition pix :: "bheap \<Rightarrow> NativeImage \<Rightarrow> nat \<Rightarrow> int \<Rightarrow> int \<Rightarrow> byte" where
  "pix H img k i j =
     the (H (fst (plane_of img k))) ! nat (snd (plane_of img k) + i * line_of img k + j)"

definition valid_format :: "int \<Rightarrow> bool" where
  "valid_format f \<longleftrightarrow> f \<in> {IMAGE_FORMAT_RGBA, IMAGE_FORMAT_NV21, IMAGE_FORMAT_NV12, IMAGE_FORMAT_I420}"

text \<open>Sizes whose byte counts fit in an \<open>int\<close>.\<close>

definition valid_size :: "int \<Rightarrow> int \<Rightarrow> bool" where
  "valid_size w h \<longleftrightarrow> 0 < w \<and> 0 < h \<and> w * h * 4 \<le> INT_MAX"

text \<open>An image as \<open>AllocNativeImage\<close> leaves it.\<close>

definition allocated :: "bheap \<Rightarrow> NativeImage \<Rightarrow> bool" where
  "allocated H img \<longleftrightarrow>
     (\<exists>b D. b \<noteq> null \<and> H b = Some D \<and> int (length D) = image_bytes (format img) (width img) (height img) \<and>
       ppPlane0 img = (b, 0) \<and> pLineSize0 img = plane_cols (format img) (width img) 0 \<and>
       (format img \<noteq> IMAGE_FORMAT_RGBA \<longrightarrow>
          ppPlane1 img = (b, width img * height img) \<and>
          pLineSize1 img = plane_cols (format img) (width img) 1) \<and>
       (format img = IMAGE_FORMAT_I420 \<longrightarrow>
          ppPlane2 img = (b, width img * height img + (width img div 2) * (height img div 2)) \<and>
          pLineSize2 img = plane_cols (format img) (width img) 2))"

text \<open>A readable source: every plane has lines at least as long as its rows and a block that
  holds all of them, as a decoder that pads its lines delivers it.\<close>

definition readable :: "bheap \<Rightarrow> NativeImage \<Rightarrow> bool" where
  "readable H img \<longleftrightarrow>
     (\<forall>k. has_plane (format img) k \<longrightarrow>
       (\<exists>S. H (fst (plane_of img k)) = Some S \<and> 0 \<le> snd (plane_of img k) \<and>
          plane_cols (format img) (width img) k \<le> line_of img k \<and>
          line_of img k * height img \<le> INT_MAX \<and>
          snd (plane_of img k) + (if k = 0 then line_of img k * height img
                                  else line_of img k * height img div 2) \<le> int (length S)))"

section \<open>What the copies do\<close>

lemma heap_copy_ok:
  assumes "db \<noteq> sb" and "H db = Some D" and "H sb = Some S"
    and "0 \<le> n" and "0 \<le> d" and "0 \<le> s" and "d + n \<le> int (length D)" and "s + n \<le> int (length S)"
  shows "\<exists>D'. heap_copy (db, d) (sb, s) n H = Inr (H(db \<mapsto> D')) \<and> length D' = length D \<and>
    (\<forall>k. 0 \<le> k \<and> k < int (length D) \<longrightarrow>
       D' ! nat k = (if d \<le> k \<and> k < d + n then S ! nat (s + (k - d)) else D ! nat k))"
proof -
  from mem_copy_ok [OF assms(4-8)] obtain D' where D': "mem_copy D d S s n = Inr D'" by blast
  have "D' ! nat k = (if d \<le> k \<and> k < d + n then S ! nat (s + (k - d)) else D ! nat k)"
    if k: "0 \<le> k" "k < int (length D)" for k
  proof -
    have kk: "nat k < length D" using k by linarith
    have "(nat d \<le> nat k \<and> nat k < nat d + nat n) = (d \<le> k \<and> k < d + n)"
      using k assms(4,5) by linarith
    moreover have "nat s + (nat k - nat d) = nat (s + (k - d))" if "d \<le> k"
      using that k assms(5,6) by (simp add: nat_add_distrib nat_diff_distrib)
    ultimately show ?thesis using mem_copy_nth [OF D' kk] by auto
  qed
  then show ?thesis
    using D' mem_copy_length [OF D'] assms(1-3) by (auto simp: heap_copy_def)
qed

text \<open>
  The row loop from row \<open>i\<close> on: it ends, every byte of the remaining rows is copied, and the
  bytes before them and after the last row are kept.
\<close>

lemma copy_rows_ok:
  assumes "db \<noteq> sb" and "H sb = Some S" and "H db = Some D"
    and "0 \<le> i" and "0 \<le> rb" and "rb \<le> dl" and "rb \<le> sl" and "0 \<le> d" and "0 \<le> s"
    and "rows * dl \<le> INT_MAX" and "rows * sl \<le> INT_MAX"
    and "d + (rows - 1) * dl + rb \<le> int (length D)" and "s + (rows - 1) * sl + rb \<le> int (length S)"
  shows "\<exists>D'. copy_rows i rows (db, d) dl (sb, s) sl rb H = Inr (H(db \<mapsto> D')) \<and> length D' = length D \<and>
    (\<forall>r j. i \<le> r \<and> r < rows \<and> 0 \<le> j \<and> j < rb \<longrightarrow>
       D' ! nat (d + r * dl + j) = S ! nat (s + r * sl + j)) \<and>
    (\<forall>k. 0 \<le> k \<and> k < int (length D) \<and> (k < d + i * dl \<or> d + (rows - 1) * dl + rb \<le> k) \<longrightarrow>
       D' ! nat k = D ! nat k)"
  using assms
proof (induction "nat (rows - i)" arbitrary: i H D)
  case 0
  then show ?case by (intro exI [of _ D]) (auto simp: copy_rows.simps [of i] fun_upd_idem)
next
  case (Suc n)
  then have i: "i < rows" by linarith
  have sl: "0 \<le> dl" "0 \<le> sl" using Suc.prems by linarith+
  have mono: "r * dl \<le> (rows - 1) * dl" "r * sl \<le> (rows - 1) * sl" if "r < rows" for r
    using that sl by (auto intro: mult_right_mono)
  have nn: "0 \<le> i * dl" "0 \<le> i * sl" using Suc.prems(4) sl by simp_all
  have c1: "c_mul i dl = Inr (i * dl)" and c2: "c_mul i sl = Inr (i * sl)"
    using nn mono [OF i] Suc.prems(10,11) sl by (auto simp: c_mul_def algebra_simps)
  from heap_copy_ok [OF Suc.prems(1,3,2), of rb "d + i * dl" "s + i * sl"] mono [OF i] nn Suc.prems
  obtain D1 where D1: "heap_copy (db, d + i * dl) (sb, s + i * sl) rb H = Inr (H(db \<mapsto> D1))"
      "length D1 = length D"
    and D1n: "\<And>k. 0 \<le> k \<Longrightarrow> k < int (length D) \<Longrightarrow> D1 ! nat k =
       (if d + i * dl \<le> k \<and> k < d + i * dl + rb then S ! nat (s + i * sl + (k - (d + i * dl))) else D ! nat k)"
    by auto
  have "\<exists>D'. copy_rows (i + 1) rows (db, d) dl (sb, s) sl rb (H(db \<mapsto> D1)) = Inr ((H(db \<mapsto> D1))(db \<mapsto> D')) \<and>
    length D' = length D1 \<and>
    (\<forall>r j. i + 1 \<le> r \<and> r < rows \<and> 0 \<le> j \<and> j < rb \<longrightarrow>
       D' ! nat (d + r * dl + j) = S ! nat (s + r * sl + j)) \<and>
    (\<forall>k. 0 \<le> k \<and> k < int (length D1) \<and> (k < d + (i + 1) * dl \<or> d + (rows - 1) * dl + rb \<le> k) \<longrightarrow>
       D' ! nat k = D1 ! nat k)"
    using Suc.hyps(2) Suc.prems D1(2) by (intro Suc.hyps(1)) auto
  then obtain D' where D': "copy_rows (i + 1) rows (db, d) dl (sb, s) sl rb (H(db \<mapsto> D1)) = Inr (H(db \<mapsto> D'))"
      "length D' = length D1"
    and rows': "\<And>r j. i + 1 \<le> r \<Longrightarrow> r < rows \<Longrightarrow> 0 \<le> j \<Longrightarrow> j < rb \<Longrightarrow>
       D' ! nat (d + r * dl + j) = S ! nat (s + r * sl + j)"
    and keep: "\<And>k. 0 \<le> k \<Longrightarrow> k < int (length D1) \<Longrightarrow> k < d + (i + 1) * dl \<or> d + (rows - 1) * dl + rb \<le> k \<Longrightarrow>
       D' ! nat k = D1 ! nat k"
    by auto
  have eq: "copy_rows i rows (db, d) dl (sb, s) sl rb H = Inr (H(db \<mapsto> D'))"
    using i c1 c2 D1(1) D'(1) by (subst copy_rows.simps) simp
  have row: "D' ! nat (d + r * dl + j) = S ! nat (s + r * sl + j)"
    if r: "i \<le> r" "r < rows" and j: "0 \<le> j" "j < rb" for r j
  proof (cases "r = i")
    case True
    have b: "0 \<le> d + i * dl + j" "d + i * dl + j < int (length D)"
      using nn j mono [OF i] Suc.prems by linarith+
    have "d + i * dl + j < d + (i + 1) * dl" using j Suc.prems(6) by (simp add: algebra_simps)
    then have "D' ! nat (d + i * dl + j) = D1 ! nat (d + i * dl + j)" using keep b D1(2) by simp
    also have "\<dots> = S ! nat (s + i * sl + j)" using D1n [OF b] j by simp
    finally show ?thesis using True by simp
  next
    case False
    then show ?thesis using rows' r j by simp
  qed
  have kept: "D' ! nat k = D ! nat k"
    if k: "0 \<le> k" "k < int (length D)" "k < d + i * dl \<or> d + (rows - 1) * dl + rb \<le> k" for k
  proof -
    have "k < d + (i + 1) * dl \<or> d + (rows - 1) * dl + rb \<le> k" using k(3) sl by (auto simp: algebra_simps)
    then have "D' ! nat k = D1 ! nat k" using keep k D1(2) by simp
    also have "\<dots> = D ! nat k" using D1n [OF k(1,2)] k(3) mono(1) [OF i] by auto
    finally show ?thesis .
  qed
  from eq row kept D'(2) D1(2) show ?case by (intro exI [of _ D']) auto
qed

text \<open>
  A whole plane, in either branch: no access leaves a block, every byte of the rows is copied,
  and what lies before the plane is kept. \<open>n\<close> is the size of the single copy; the bytes from the
  end of the last row on may change only inside \<open>n\<close>.
\<close>

lemma copy_plane_ok:
  assumes bs: "db \<noteq> sb" "H sb = Some S" "H db = Some D"
    and sz: "0 \<le> rows" "0 \<le> rb" "rb \<le> dl" "rb \<le> sl" "0 \<le> d" "0 \<le> s"
    and ov: "rows * dl \<le> INT_MAX" "rows * sl \<le> INT_MAX"
    and bulk: "bulk = Inr n" "rows * dl \<le> n" "0 \<le> n"
    and fit: "d + n \<le> int (length D)" "sl = dl \<Longrightarrow> s + n \<le> int (length S)"
      "s + rows * sl \<le> int (length S)"
  shows "\<exists>D'. copy_plane (db, d) dl (sb, s) sl rows rb bulk H = Inr (H(db \<mapsto> D')) \<and> length D' = length D \<and>
    (\<forall>r j. 0 \<le> r \<and> r < rows \<and> 0 \<le> j \<and> j < rb \<longrightarrow>
       D' ! nat (d + r * dl + j) = S ! nat (s + r * sl + j)) \<and>
    (\<forall>k. 0 \<le> k \<and> k < d \<longrightarrow> D' ! nat k = D ! nat k)"
proof (cases "sl = dl")
  case True
  from heap_copy_ok [OF bs(1,3,2), of n d s] sz bulk fit True obtain D' where
    D': "heap_copy (db, d) (sb, s) n H = Inr (H(db \<mapsto> D'))" "length D' = length D"
    and nth: "\<And>k. 0 \<le> k \<Longrightarrow> k < int (length D) \<Longrightarrow>
       D' ! nat k = (if d \<le> k \<and> k < d + n then S ! nat (s + (k - d)) else D ! nat k)" by auto
  have row: "D' ! nat (d + r * dl + j) = S ! nat (s + r * sl + j)"
    if r: "0 \<le> r" "r < rows" "0 \<le> j" "j < rb" for r j
  proof -
    have "r * dl \<le> (rows - 1) * dl" using r sz by (intro mult_right_mono) auto
    then have "r * dl + j < n" using r sz bulk by (simp add: algebra_simps)
    moreover have "0 \<le> r * dl" using r sz by simp
    ultimately show ?thesis using nth [of "d + r * dl + j"] r sz fit True by (auto simp: algebra_simps)
  qed
  have "D' ! nat k = D ! nat k" if "0 \<le> k" "k < d" for k
    using nth [of k] that bulk fit by auto
  then show ?thesis using D' row True bulk by (auto simp: copy_plane_def)
next
  case False
  show ?thesis
  proof (cases "rows = 0")
    case True
    have "copy_rows 0 0 (db, d) dl (sb, s) sl rb H = Inr H" by (simp add: copy_rows.simps)
    then have "copy_plane (db, d) dl (sb, s) sl rows rb bulk H = Inr (H(db \<mapsto> D))"
      using True False bs(3) by (simp add: copy_plane_def fun_upd_idem)
    then show ?thesis using True by (intro exI [of _ D]) auto
  next
    case rows: False
    have "d + (rows - 1) * dl + rb \<le> int (length D)" "s + (rows - 1) * sl + rb \<le> int (length S)"
      using fit bulk sz by (simp_all add: algebra_simps)
    from copy_rows_ok [OF bs(1-3) order_refl sz(2-6) ov this] obtain D' where
      D': "copy_rows 0 rows (db, d) dl (sb, s) sl rb H = Inr (H(db \<mapsto> D'))" "length D' = length D"
      and row: "\<forall>r j. 0 \<le> r \<and> r < rows \<and> 0 \<le> j \<and> j < rb \<longrightarrow>
         D' ! nat (d + r * dl + j) = S ! nat (s + r * sl + j)"
      and keep: "\<forall>k. 0 \<le> k \<and> k < int (length D) \<and> (k < d + 0 * dl \<or> d + (rows - 1) * dl + rb \<le> k) \<longrightarrow>
         D' ! nat k = D ! nat k" by blast
    have "\<forall>k. 0 \<le> k \<and> k < d \<longrightarrow> D' ! nat k = D ! nat k" using keep fit(1) bulk(3) by simp
    moreover have "copy_plane (db, d) dl (sb, s) sl rows rb bulk H = Inr (H(db \<mapsto> D'))"
      using D'(1) False by (simp add: copy_plane_def)
    ultimately show ?thesis using D'(2) row by blast
  qed
qed

section \<open>Image sizes\<close>

text \<open>The chroma planes of the 4:2:0 formats fit behind the luma plane, for odd sizes too.\<close>

lemma chroma_layout:
  fixes w h :: int
  assumes "0 < w" and "0 < h"
  defines "q \<equiv> (w div 2) * (h div 2)" and "x \<equiv> (w div 2) * h"
  shows "0 \<le> q" and "0 \<le> x" and "2 * q \<le> x" and "2 * x \<le> w * h"
    and "q \<le> x div 2" and "w * h + q + x div 2 \<le> w * h * 3 div 2"
    and "w * (h div 2) \<le> w * h div 2" and "w * h + w * h div 2 = w * h * 3 div 2"
proof -
  show nn: "0 \<le> q" "0 \<le> x" using assms by (simp_all add: q_def x_def)
  show q: "2 * q \<le> x"
    using assms mult_left_mono [of "2 * (h div 2)" h "w div 2"] by (simp add: q_def x_def algebra_simps)
  show x: "2 * x \<le> w * h"
    using assms mult_right_mono [of "2 * (w div 2)" w h] by (simp add: x_def algebra_simps)
  show "q \<le> x div 2" "w * h + q + x div 2 \<le> w * h * 3 div 2" using q x by presburger+
  have "2 * (w * (h div 2)) \<le> w * h"
    using assms mult_left_mono [of "2 * (h div 2)" h w] by (simp add: algebra_simps)
  then show "w * (h div 2) \<le> w * h div 2" "w * h + w * h div 2 = w * h * 3 div 2" by presburger+
qed

lemma valid_size_bounds:
  assumes "valid_size w h"
  shows "0 < w" "0 < h" "0 < w * h" "w * h * 4 \<le> INT_MAX" "w * 4 \<le> INT_MAX" "w \<le> w * h" "h \<le> w * h"
proof -
  show wh: "0 < w" "0 < h" "w * h * 4 \<le> INT_MAX" using assms by (auto simp: valid_size_def)
  then show "0 < w * h" by simp
  show le: "w \<le> w * h" "h \<le> w * h" using wh by (simp_all add: mult_le_cancel_left1 mult_le_cancel_right1)
  show "w * 4 \<le> INT_MAX" using le wh by linarith
qed

section \<open>Allocation\<close>

lemma AllocNativeImage_ok:
  assumes "valid_size (width img) (height img)" and "valid_format (format img)" and "p \<noteq> null"
  shows "\<exists>img' H'. AllocNativeImage p junk img H = Inr (img', H') \<and> allocated H' img' \<and>
    format img' = format img \<and> width img' = width img \<and> height img' = height img \<and>
    fst (ppPlane0 img') = p \<and> (\<forall>b. b \<noteq> p \<longrightarrow> H' b = H b)"
proof -
  note wh = valid_size_bounds [OF assms(1)]
  note ch = chroma_layout [OF wh(1,2)]
  have "- 2147483648 \<le> width img * height img" "width img * height img \<le> INT_MAX"
    "(width img div 2) * (height img div 2) \<le> INT_MAX" "- 2147483648 \<le> (width img div 2) * (height img div 2)"
    using wh(3,4) ch(1-4) by linarith+
  then have "c_mul (width img) (height img) = Inr (width img * height img)"
    "c_mul (width img * height img) 4 = Inr (width img * height img * 4)"
    "c_mul (width img) 4 = Inr (width img * 4)"
    "c_mul (width img div 2) (height img div 2) = Inr ((width img div 2) * (height img div 2))"
    unfolding c_mul_def using wh(1,3-5) by (intro c_int_in_range; linarith)+
  moreover have "width img sdiv 2 = width img div 2" using wh by (simp add: sdiv_nonneg)
  moreover have "height img \<noteq> 0" "width img \<noteq> 0" "0 \<le> width img * height img" using wh by auto
  ultimately show ?thesis
    using assms(2,3) unfolding valid_format_def insert_iff empty_iff
    by (elim disjE) (simp_all add: AllocNativeImage_def allocated_def image_bytes_def plane_cols_def
        malloc_block_def)
qed

section \<open>Copying\<close>

text \<open>The source as the copy sees it: every plane it reads is in a block other than \<open>b\<close>.\<close>

definition copy_source :: "bheap \<Rightarrow> ptr \<Rightarrow> NativeImage \<Rightarrow> bool" where
  "copy_source H b src \<longleftrightarrow> readable H src \<and> ppPlane0 src \<noteq> nullptr \<and>
     (\<forall>k. has_plane (format src) k \<longrightarrow> fst (plane_of src k) \<noteq> b)"

definition same_pixels :: "bheap \<Rightarrow> NativeImage \<Rightarrow> bheap \<Rightarrow> NativeImage \<Rightarrow> bool" where
  "same_pixels H' dst H src \<longleftrightarrow>
     (\<forall>k i j. 0 \<le> i \<and> i < plane_rows (format src) (height src) k \<and>
        0 \<le> j \<and> j < plane_cols (format src) (width src) k \<longrightarrow> pix H' dst k i j = pix H src k i j)"

lemma copy_source_plane:
  assumes "copy_source H b src" and "has_plane (format src) k"
  obtains sb s S where "plane_of src k = (sb, s)" "sb \<noteq> b" "H sb = Some S" "0 \<le> s"
    "plane_cols (format src) (width src) k \<le> line_of src k" "line_of src k * height src \<le> INT_MAX"
    "s + (if k = 0 then line_of src k * height src else line_of src k * height src div 2) \<le> int (length S)"
  using assms by (cases "plane_of src k") (fastforce simp: copy_source_def readable_def)

text \<open>Half of the rows of a plane take half of its bytes.\<close>

lemma half_rows: "0 \<le> (l::int) \<Longrightarrow> 0 < h \<Longrightarrow> (h div 2) * l \<le> l * h div 2 \<and> l * h div 2 \<le> l * h"
proof -
  assume l: "0 \<le> l" and h: "0 < h"
  have "2 * ((h div 2) * l) \<le> l * h"
    using l mult_right_mono [of "2 * (h div 2)" h l] by (simp add: algebra_simps)
  moreover have "0 \<le> l * h" using l h by simp
  ultimately show ?thesis by presburger
qed

text \<open>One plane of \<open>CopyNativeImage\<close>, in terms of pixels.\<close>

lemma copy_one_plane:
  assumes src: "copy_source H0 b src" and k: "has_plane (format src) k"
    and h: "0 < height src" and cols: "plane_cols (format src) (width src) k = c" "0 \<le> c"
    and dst: "plane_of dst k = (b, d)" "line_of dst k = c" "0 \<le> d"
    and H: "H b = Some D" "\<forall>x. x \<noteq> b \<longrightarrow> H x = H0 x"
    and n: "n = (if k = 0 then c * height src else c * height src div 2)"
    and fit: "d + n \<le> int (length D)" and ov: "c * height src \<le> INT_MAX"
    and r: "rows = (if k = 0 then height src else height src div 2)"
    and bulk: "line_of src k = c \<Longrightarrow> bulk = Inr n"
  shows "\<exists>D'. copy_plane (plane_of dst k) (line_of dst k) (plane_of src k) (line_of src k) rows c bulk H
      = Inr (H(b \<mapsto> D')) \<and> length D' = length D \<and>
    (\<forall>i j. 0 \<le> i \<and> i < rows \<and> 0 \<le> j \<and> j < c \<longrightarrow> D' ! nat (d + i * c + j) = pix H0 src k i j) \<and>
    (\<forall>x. 0 \<le> x \<and> x < d \<longrightarrow> D' ! nat x = D ! nat x)"
proof -
  from copy_source_plane [OF src k] cols(1) obtain sb s S where
    S: "plane_of src k = (sb, s)" "sb \<noteq> b" "H0 sb = Some S" "0 \<le> s" "c \<le> line_of src k"
      "line_of src k * height src \<le> INT_MAX"
      "s + (if k = 0 then line_of src k * height src else line_of src k * height src div 2) \<le> int (length S)"
    by metis
  let ?sl = "line_of src k"
  have hr: "rows * c \<le> n" "rows * ?sl \<le> (if k = 0 then ?sl * height src else ?sl * height src div 2)"
    "rows * ?sl \<le> ?sl * height src" "rows * c \<le> c * height src" "0 \<le> n" "0 \<le> rows"
    using half_rows [of c "height src"] half_rows [of ?sl "height src"] r n cols(2) S(5) h
    by (auto simp: mult.commute)
  have eq: "copy_plane (b, d) c (sb, s) ?sl rows c bulk H = copy_plane (b, d) c (sb, s) ?sl rows c (Inr n) H"
    using bulk by (cases "?sl = c") (simp_all add: copy_plane_def)
  have Hs: "H sb = Some S" using H(2) S(2,3) by simp
  have "?sl = c \<Longrightarrow> s + n \<le> int (length S)" using S(7) n by (auto split: if_splits)
  moreover have "rows * c \<le> INT_MAX" "rows * ?sl \<le> INT_MAX" "s + rows * ?sl \<le> int (length S)"
    using hr ov S(6,7) by linarith+
  ultimately obtain D' where
    "copy_plane (b, d) c (sb, s) ?sl rows c (Inr n) H = Inr (H(b \<mapsto> D'))" "length D' = length D"
    "\<forall>i j. 0 \<le> i \<and> i < rows \<and> 0 \<le> j \<and> j < c \<longrightarrow> D' ! nat (d + i * c + j) = S ! nat (s + i * ?sl + j)"
    "\<forall>x. 0 \<le> x \<and> x < d \<longrightarrow> D' ! nat x = D ! nat x"
    using copy_plane_ok [OF S(2) [symmetric] Hs H(1), of rows c c ?sl d s "Inr n" n] cols dst S hr fit
    by auto
  then show ?thesis using eq S(1,3) dst by (auto simp: pix_def)
qed

lemmas plane_defs = plane_rows_def plane_cols_def plane_of_def line_of_def has_plane_def

lemma row_in_plane: "0 \<le> i \<Longrightarrow> i < rows \<Longrightarrow> j < (c::int) \<Longrightarrow> 0 \<le> j \<Longrightarrow> i * c + j < rows * c"
proof -
  assume a: "0 \<le> i" "i < rows" "j < c" "0 \<le> j"
  then have "(i + 1) * c \<le> rows * c" by (intro mult_right_mono) auto
  then show ?thesis using a by (simp add: algebra_simps)
qed

text \<open>The three families of formats, with the destination as \<open>AllocNativeImage\<close> made it.\<close>

lemma copy_RGBA:
  assumes v: "valid_size w h" and dst: "allocated H dst" "format dst = IMAGE_FORMAT_RGBA" "width dst = w" "height dst = h"
    and src: "copy_source H (fst (ppPlane0 dst)) src" "format src = IMAGE_FORMAT_RGBA" "width src = w" "height src = h"
  shows "\<exists>D'. CopyNativeImage p junk src dst H = Inr (dst, H(fst (ppPlane0 dst) \<mapsto> D')) \<and>
    int (length D') = image_bytes (format dst) w h \<and>
    same_pixels (H(fst (ppPlane0 dst) \<mapsto> D')) dst H src"
proof -
  note wh = valid_size_bounds [OF v]
  from dst obtain b D where b: "b \<noteq> null" "H b = Some D" "int (length D) = w * h * 4" "ppPlane0 dst = (b, 0)"
    "pLineSize0 dst = w * 4" by (auto simp: allocated_def image_bytes_def plane_cols_def)
  have n: "w * 4 * h = w * h * 4" by simp
  have cw: "c_mul w 4 = Inr (w * 4)" "c_mul (w * 4) h = Inr (w * h * 4)"
    unfolding c_mul_def n using wh(1,3,4,5) by (intro c_int_in_range; linarith)+
  have "\<exists>D'. copy_plane (plane_of dst 0) (line_of dst 0) (plane_of src 0) (line_of src 0) h (w * 4)
      (c_mul (pLineSize0 src) h) H = Inr (H(b \<mapsto> D')) \<and> length D' = length D \<and>
    (\<forall>i j. 0 \<le> i \<and> i < h \<and> 0 \<le> j \<and> j < w * 4 \<longrightarrow> D' ! nat (0 + i * (w * 4) + j) = pix H src 0 i j) \<and>
    (\<forall>x. 0 \<le> x \<and> x < 0 \<longrightarrow> D' ! nat x = D ! nat x)"
  proof (rule copy_one_plane [where n = "w * h * 4"])
    show "copy_source H b src" using src(1) b(4) by simp
    show "c_mul (pLineSize0 src) h = Inr (w * h * 4)" if "line_of src 0 = w * 4"
      using that cw(2) by (simp add: line_of_def)
  qed (simp_all add: plane_defs src(2-4) dst(2-4) b(2,4-) wh(1-3) less_imp_le n wh(4) b(3))
  then obtain D' where D': "copy_plane (ppPlane0 dst) (pLineSize0 dst) (ppPlane0 src) (pLineSize0 src) h (w * 4)
      (c_mul (pLineSize0 src) h) H = Inr (H(b \<mapsto> D'))" "length D' = length D"
    "\<forall>i j. 0 \<le> i \<and> i < h \<and> 0 \<le> j \<and> j < w * 4 \<longrightarrow> D' ! nat (i * (w * 4) + j) = pix H src 0 i j"
    by (auto simp: plane_of_def line_of_def)
  have "CopyNativeImage p junk src dst H = Inr (dst, H(b \<mapsto> D'))"
    using D'(1) cw(1) b(1,4) src dst by (simp add: CopyNativeImage_def copy_source_def)
  moreover have "same_pixels (H(b \<mapsto> D')) dst H src"
    unfolding same_pixels_def
  proof (intro allI impI, elim conjE)
    fix k i j assume a: "0 \<le> i" "i < plane_rows (format src) (height src) k" "0 \<le> j"
      "j < plane_cols (format src) (width src) k"
    then have "k = 0" using src by (simp add: plane_rows_def split: if_splits)
    then show "pix (H(b \<mapsto> D')) dst k i j = pix H src k i j"
      using a D'(3) b src dst by (simp add: pix_def [of "H(b \<mapsto> D')"] plane_defs)
  qed
  ultimately show ?thesis using b D'(2) dst(2) by (intro exI [of _ D']) (simp add: image_bytes_def)
qed

lemma copy_NV:
  assumes v: "valid_size w h" and f: "f = IMAGE_FORMAT_NV21 \<or> f = IMAGE_FORMAT_NV12"
    and dst: "allocated H dst" "format dst = f" "width dst = w" "height dst = h"
    and src: "copy_source H (fst (ppPlane0 dst)) src" "format src = f" "width src = w" "height src = h"
  shows "\<exists>D'. CopyNativeImage p junk src dst H = Inr (dst, H(fst (ppPlane0 dst) \<mapsto> D')) \<and>
    int (length D') = image_bytes (format dst) w h \<and>
    same_pixels (H(fst (ppPlane0 dst) \<mapsto> D')) dst H src"
proof -
  note wh = valid_size_bounds [OF v]
  note ch = chroma_layout [OF wh(1,2)]
  have f': "f \<noteq> 1" "f \<noteq> 4" using f by auto
  from dst f' obtain b D where b: "b \<noteq> null" "H b = Some D" "int (length D) = w * h * 3 div 2" "ppPlane0 dst = (b, 0)"
    "pLineSize0 dst = w" "ppPlane1 dst = (b, w * h)" "pLineSize1 dst = w"
    by (auto simp: allocated_def image_bytes_def plane_cols_def)
  have cwh: "c_mul w h = Inr (w * h)" unfolding c_mul_def using wh(3,4) by (intro c_int_in_range) linarith+
  have len: "w * h \<le> int (length D)" "w * h + w * h div 2 \<le> int (length D)" "w * h \<le> INT_MAX"
    using b(3) ch(8) wh(3,4) by linarith+
  have sd: "h sdiv 2 = h div 2" "(w * h) sdiv 2 = w * h div 2" using wh by (simp_all add: sdiv_nonneg)
  have "\<exists>D'. copy_plane (plane_of dst 0) (line_of dst 0) (plane_of src 0) (line_of src 0) h w (Inr (w * h)) H
      = Inr (H(b \<mapsto> D')) \<and> length D' = length D \<and>
    (\<forall>i j. 0 \<le> i \<and> i < h \<and> 0 \<le> j \<and> j < w \<longrightarrow> D' ! nat (0 + i * w + j) = pix H src 0 i j) \<and>
    (\<forall>x. 0 \<le> x \<and> x < 0 \<longrightarrow> D' ! nat x = D ! nat x)"
  proof (rule copy_one_plane [where n = "w * h"])
    show "copy_source H b src" using src(1) b(4) by simp
  qed (simp_all add: plane_defs src(2-4) dst(2-4) f' b(2,4-) wh(1-3) less_imp_le len)
  then obtain D1 where D1: "copy_plane (ppPlane0 dst) w (ppPlane0 src) (pLineSize0 src) h w (Inr (w * h)) H
      = Inr (H(b \<mapsto> D1))" "length D1 = length D"
    "\<forall>i j. 0 \<le> i \<and> i < h \<and> 0 \<le> j \<and> j < w \<longrightarrow> D1 ! nat (i * w + j) = pix H src 0 i j"
    using b(5) by (auto simp: plane_of_def line_of_def)
  have "\<exists>D'. copy_plane (plane_of dst 1) (line_of dst 1) (plane_of src 1) (line_of src 1) (h div 2) w
      (Inr (w * h div 2)) (H(b \<mapsto> D1)) = Inr ((H(b \<mapsto> D1))(b \<mapsto> D')) \<and> length D' = length D1 \<and>
    (\<forall>i j. 0 \<le> i \<and> i < h div 2 \<and> 0 \<le> j \<and> j < w \<longrightarrow> D' ! nat (w * h + i * w + j) = pix H src 1 i j) \<and>
    (\<forall>x. 0 \<le> x \<and> x < w * h \<longrightarrow> D' ! nat x = D1 ! nat x)"
  proof (rule copy_one_plane [where n = "w * h div 2"])
    show "copy_source H b src" using src(1) b(4) by simp
  qed (simp_all add: plane_defs src(2-4) dst(2-4) f' b(2,4-) wh(1-3) less_imp_le len D1(2))
  then obtain D2 where D2: "copy_plane (ppPlane1 dst) w (ppPlane1 src) (pLineSize1 src) (h div 2) w
      (Inr (w * h div 2)) (H(b \<mapsto> D1)) = Inr (H(b \<mapsto> D2))" "length D2 = length D"
    "\<forall>i j. 0 \<le> i \<and> i < h div 2 \<and> 0 \<le> j \<and> j < w \<longrightarrow> D2 ! nat (w * h + i * w + j) = pix H src 1 i j"
    and keep: "\<forall>x. 0 \<le> x \<and> x < w * h \<longrightarrow> D2 ! nat x = D1 ! nat x"
    using b(7) D1(2) by (auto simp: plane_of_def line_of_def)
  have "CopyNativeImage p junk src dst H = Inr (dst, H(b \<mapsto> D2))"
    using D1(1) D2(1) cwh b(1,4,5,7) src dst f f' sd by (simp add: CopyNativeImage_def copy_source_def)
  moreover have "same_pixels (H(b \<mapsto> D2)) dst H src"
    unfolding same_pixels_def
  proof (intro allI impI, elim conjE)
    fix k i j assume a: "0 \<le> i" "i < plane_rows (format src) (height src) k" "0 \<le> j"
      "j < plane_cols (format src) (width src) k"
    then consider "k = 0" "i < h" "j < w" | "k = 1" "i < h div 2" "j < w"
      using src f' by (auto simp: plane_rows_def plane_cols_def split: if_splits)
    then show "pix (H(b \<mapsto> D2)) dst k i j = pix H src k i j"
    proof cases
      case 1
      have "i * w + j < w * h" using row_in_plane [of i h j w] a 1 by (simp add: mult.commute)
      then have "D2 ! nat (i * w + j) = D1 ! nat (i * w + j)" using keep a wh(1) by simp
      then show ?thesis using 1 a D1(3) b by (simp add: pix_def [of "H(b \<mapsto> D2)"] plane_of_def line_of_def)
    next
      case 2
      then show ?thesis using a D2(3) b by (simp add: pix_def [of "H(b \<mapsto> D2)"] plane_of_def line_of_def)
    qed
  qed
  ultimately show ?thesis using b D2(2) dst(2) f' by (intro exI [of _ D2]) (simp add: image_bytes_def)
qed

lemma copy_I420:
  assumes v: "valid_size w h"
    and dst: "allocated H dst" "format dst = IMAGE_FORMAT_I420" "width dst = w" "height dst = h"
    and src: "copy_source H (fst (ppPlane0 dst)) src" "format src = IMAGE_FORMAT_I420" "width src = w" "height src = h"
  shows "\<exists>D'. CopyNativeImage p junk src dst H = Inr (dst, H(fst (ppPlane0 dst) \<mapsto> D')) \<and>
    int (length D') = image_bytes (format dst) w h \<and>
    same_pixels (H(fst (ppPlane0 dst) \<mapsto> D')) dst H src"
proof -
  note wh = valid_size_bounds [OF v]
  note ch = chroma_layout [OF wh(1,2)]
  let ?c = "w div 2" and ?q = "(w div 2) * (h div 2)" and ?n = "(w div 2) * h div 2"
  from dst obtain b D where b: "b \<noteq> null" "H b = Some D" "int (length D) = w * h * 3 div 2" "ppPlane0 dst = (b, 0)"
    "pLineSize0 dst = w" "ppPlane1 dst = (b, w * h)" "pLineSize1 dst = ?c"
    "ppPlane2 dst = (b, w * h + ?q)" "pLineSize2 dst = ?c"
    by (auto simp: allocated_def image_bytes_def plane_cols_def)
  have cwh: "c_mul w h = Inr (w * h)" "c_mul ?c h = Inr (?c * h)"
    unfolding c_mul_def using wh(3,4) ch(2,4) by (intro c_int_in_range; linarith)+
  have len: "w * h \<le> int (length D)" "w * h + ?n \<le> int (length D)" "w * h + ?q + ?n \<le> int (length D)"
    "w * h \<le> INT_MAX" "?c * h \<le> INT_MAX"
    using b(3) ch wh(3,4) by linarith+
  have sd: "h sdiv 2 = h div 2" "w sdiv 2 = ?c" "(?c * h) sdiv 2 = ?n"
    using wh(1,2) ch(2) by (simp_all add: sdiv_nonneg)
  have "\<exists>D'. copy_plane (plane_of dst 0) (line_of dst 0) (plane_of src 0) (line_of src 0) h w (Inr (w * h)) H
      = Inr (H(b \<mapsto> D')) \<and> length D' = length D \<and>
    (\<forall>i j. 0 \<le> i \<and> i < h \<and> 0 \<le> j \<and> j < w \<longrightarrow> D' ! nat (0 + i * w + j) = pix H src 0 i j) \<and>
    (\<forall>x. 0 \<le> x \<and> x < 0 \<longrightarrow> D' ! nat x = D ! nat x)"
  proof (rule copy_one_plane [where n = "w * h"])
    show "copy_source H b src" using src(1) b(4) by simp
  qed (simp_all add: plane_defs src(2-4) dst(2-4) b(2,4-) wh(1-3) less_imp_le len)
  then obtain D1 where D1: "copy_plane (ppPlane0 dst) w (ppPlane0 src) (pLineSize0 src) h w (Inr (w * h)) H
      = Inr (H(b \<mapsto> D1))" "length D1 = length D"
    "\<forall>i j. 0 \<le> i \<and> i < h \<and> 0 \<le> j \<and> j < w \<longrightarrow> D1 ! nat (i * w + j) = pix H src 0 i j"
    using b(5) by (auto simp: plane_of_def line_of_def)
  have "\<exists>D'. copy_plane (plane_of dst 1) (line_of dst 1) (plane_of src 1) (line_of src 1) (h div 2) ?c
      (Inr ?n) (H(b \<mapsto> D1)) = Inr ((H(b \<mapsto> D1))(b \<mapsto> D')) \<and> length D' = length D1 \<and>
    (\<forall>i j. 0 \<le> i \<and> i < h div 2 \<and> 0 \<le> j \<and> j < ?c \<longrightarrow> D' ! nat (w * h + i * ?c + j) = pix H src 1 i j) \<and>
    (\<forall>x. 0 \<le> x \<and> x < w * h \<longrightarrow> D' ! nat x = D1 ! nat x)"
  proof (rule copy_one_plane [where n = ?n])
    show "copy_source H b src" using src(1) b(4) by simp
  qed (simp_all add: plane_defs src(2-4) dst(2-4) b(2,4-) wh(1-3) less_imp_le len D1(2))
  then obtain D2 where D2: "copy_plane (ppPlane1 dst) ?c (ppPlane1 src) (pLineSize1 src) (h div 2) ?c
      (Inr ?n) (H(b \<mapsto> D1)) = Inr (H(b \<mapsto> D2))" "length D2 = length D"
    "\<forall>i j. 0 \<le> i \<and> i < h div 2 \<and> 0 \<le> j \<and> j < ?c \<longrightarrow> D2 ! nat (w * h + i * ?c + j) = pix H src 1 i j"
    and keep2: "\<forall>x. 0 \<le> x \<and> x < w * h \<longrightarrow> D2 ! nat x = D1 ! nat x"
    using b(7) D1(2) by (auto simp: plane_of_def line_of_def)
  have "\<exists>D'. copy_plane (plane_of dst 2) (line_of dst 2) (plane_of src 2) (line_of src 2) (h div 2) ?c
      (Inr ?n) (H(b \<mapsto> D2)) = Inr ((H(b \<mapsto> D2))(b \<mapsto> D')) \<and> length D' = length D2 \<and>
    (\<forall>i j. 0 \<le> i \<and> i < h div 2 \<and> 0 \<le> j \<and> j < ?c \<longrightarrow> D' ! nat (w * h + ?q + i * ?c + j) = pix H src 2 i j) \<and>
    (\<forall>x. 0 \<le> x \<and> x < w * h + ?q \<longrightarrow> D' ! nat x = D2 ! nat x)"
  proof (rule copy_one_plane [where n = ?n])
    show "copy_source H b src" using src(1) b(4) by simp
    show "0 \<le> w * h + ?q" using ch(1) wh(3) by linarith
  qed (simp_all add: plane_defs src(2-4) dst(2-4) b(2,4-) wh(1-3) less_imp_le len D2(2))
  then obtain D3 where D3: "copy_plane (ppPlane2 dst) ?c (ppPlane2 src) (pLineSize2 src) (h div 2) ?c
      (Inr ?n) (H(b \<mapsto> D2)) = Inr (H(b \<mapsto> D3))" "length D3 = length D"
    "\<forall>i j. 0 \<le> i \<and> i < h div 2 \<and> 0 \<le> j \<and> j < ?c \<longrightarrow> D3 ! nat (w * h + ?q + i * ?c + j) = pix H src 2 i j"
    and keep3: "\<forall>x. 0 \<le> x \<and> x < w * h + ?q \<longrightarrow> D3 ! nat x = D2 ! nat x"
    using b(9) D2(2) by (auto simp: plane_of_def line_of_def)
  have "CopyNativeImage p junk src dst H = Inr (dst, H(b \<mapsto> D3))"
    using D1(1) D2(1) D3(1) cwh b(1,4,5,7,9) src dst sd by (simp add: CopyNativeImage_def copy_source_def)
  moreover have "same_pixels (H(b \<mapsto> D3)) dst H src"
    unfolding same_pixels_def
  proof (intro allI impI, elim conjE)
    fix k i j assume a: "0 \<le> i" "i < plane_rows (format src) (height src) k" "0 \<le> j"
      "j < plane_cols (format src) (width src) k"
    then consider "k = 0" "i < h" "j < w" | "k = 1" "i < h div 2" "j < ?c" | "k = 2" "i < h div 2" "j < ?c"
      using src by (auto simp: plane_rows_def plane_cols_def split: if_splits)
    then show "pix (H(b \<mapsto> D3)) dst k i j = pix H src k i j"
    proof cases
      case 1
      have "i * w + j < w * h" using row_in_plane [of i h j w] a 1 by (simp add: mult.commute)
      then have "D3 ! nat (i * w + j) = D1 ! nat (i * w + j)" using keep2 keep3 a wh(1) ch(1) by simp
      then show ?thesis using 1 a D1(3) b by (simp add: pix_def [of "H(b \<mapsto> D3)"] plane_of_def line_of_def)
    next
      case 2
      have "i * ?c + j < ?q" using row_in_plane [of i "h div 2" j ?c] a 2 by (simp add: mult.commute)
      moreover have "0 \<le> i * ?c" using a wh(1) by simp
      ultimately have "D3 ! nat (w * h + i * ?c + j) = D2 ! nat (w * h + i * ?c + j)"
        using keep3 a wh(3) by simp
      then show ?thesis using 2 a D2(3) b by (simp add: pix_def [of "H(b \<mapsto> D3)"] plane_of_def line_of_def)
    next
      case 3
      then show ?thesis using a D3(3) b by (simp add: pix_def [of "H(b \<mapsto> D3)"] plane_of_def line_of_def)
    qed
  qed
  ultimately show ?thesis using b D3(2) dst(2) by (intro exI [of _ D3]) (simp add: image_bytes_def)
qed

section \<open>Properties of images\<close>

text \<open>Where the bytes of a plane end, and what an allocated image says of its planes.\<close>

definition plane_end :: "NativeImage \<Rightarrow> nat \<Rightarrow> int" where
  "plane_end img k = snd (plane_of img k) + plane_rows (format img) (height img) k * line_of img k"

lemma allocated_plane_ends:
  assumes "allocated H img" and "width img > 0" and "height img > 0"
  defines "w \<equiv> width img" and "h \<equiv> height img"
  shows "plane_end img 0 = (if format img = 1 then w * h * 4 else w * h)"
    and "format img \<noteq> 1 \<Longrightarrow> snd (plane_of img 1) = w * h"
    and "format img \<noteq> 1 \<Longrightarrow> plane_end img 1 = w * h + (if format img = 4 then (w div 2) * (h div 2) else w * (h div 2))"
    and "format img = 4 \<Longrightarrow> snd (plane_of img 2) = w * h + (w div 2) * (h div 2)"
    and "format img = 4 \<Longrightarrow> plane_end img 2 = w * h + (w div 2) * (h div 2) + (w div 2) * (h div 2)"
  using assms by (auto simp: plane_end_def allocated_def plane_defs mult.commute)

lemma allocated_planes_inside:
  assumes al: "allocated H img" and size: "valid_size (width img) (height img)" and k: "has_plane (format img) k"
  shows "fst (plane_of img k) = fst (ppPlane0 img)" and "0 \<le> snd (plane_of img k)"
    and "line_of img k = plane_cols (format img) (width img) k"
    and "plane_end img k \<le> image_bytes (format img) (width img) (height img)"
proof -
  note wh = valid_size_bounds [OF size]
  note e = allocated_plane_ends [OF al wh(1,2)]
  note ch = chroma_layout [OF wh(1,2)]
  show "fst (plane_of img k) = fst (ppPlane0 img)" "line_of img k = plane_cols (format img) (width img) k"
    using al k by (auto simp: allocated_def plane_defs)
  have z: "snd (plane_of img 0) = 0" using al by (auto simp: allocated_def plane_of_def)
  show "0 \<le> snd (plane_of img k)" using k e(2,4) z wh(3) ch(1) by (auto simp: has_plane_def)
  have b: "image_bytes (format img) (width img) (height img) =
      (if format img = 1 then width img * height img * 4 else width img * height img * 3 div 2)"
    by (simp add: image_bytes_def)
  from k consider "k = 0" | "k = 1" "format img \<noteq> 1" | "k = 2" "format img = 4"
    by (auto simp: has_plane_def)
  then show "plane_end img k \<le> image_bytes (format img) (width img) (height img)"
  proof cases
    case 1 then show ?thesis unfolding b using e(1) wh(3) by auto
  next
    case 2 then show ?thesis unfolding b using e(3) ch by auto
  next
    case 3
    have "plane_end img 2 \<le> width img * height img * 3 div 2"
      using e(5) [OF 3(2)] ch(5,6) by linarith
    then show ?thesis using 3 b by simp
  qed
qed

lemma allocated_planes_apart:
  assumes al: "allocated H img" and size: "valid_size (width img) (height img)"
    and "has_plane (format img) k" and "has_plane (format img) l" and "k < l"
  shows "plane_end img k \<le> snd (plane_of img l)"
proof -
  note wh = valid_size_bounds [OF size]
  note e = allocated_plane_ends [OF al wh(1,2)]
  note ch = chroma_layout [OF wh(1,2)]
  from assms(3-5) consider "k = 0" "l = 1" "format img \<noteq> 1" | "k = 0" "l = 2" "format img = 4"
    | "k = 1" "l = 2" "format img = 4" by (auto simp: has_plane_def)
  then show ?thesis using e ch(1) by cases auto
qed

text \<open>C25: \<open>AllocNativeImage\<close> lays the planes out inside its block and apart from each other: for every
  supported format and every positive size whose byte count fits in an \<open>int\<close> (odd sizes
  included), a successful allocation has the block size of the format; each plane starts at a
  non-negative offset of that block, has lines as long as its rows, and ends inside the block; and
  each plane ends before a later one starts.\<close>

theorem alloc_native_image_layout:
  assumes "valid_size (width img) (height img)" and "valid_format (format img)" and "p \<noteq> null"
  shows "\<exists>img' H' D. AllocNativeImage p junk img H = Inr (img', H') \<and> H' p = Some D \<and>
    int (length D) = image_bytes (format img) (width img) (height img) \<and>
    (\<forall>k. has_plane (format img) k \<longrightarrow>
      fst (plane_of img' k) = p \<and> 0 \<le> snd (plane_of img' k) \<and>
      line_of img' k = plane_cols (format img) (width img) k \<and>
      snd (plane_of img' k) + plane_rows (format img) (height img) k * line_of img' k \<le> int (length D)) \<and>
    (\<forall>k l. has_plane (format img) k \<and> has_plane (format img) l \<and> k < l \<longrightarrow>
      snd (plane_of img' k) + plane_rows (format img) (height img) k * line_of img' k \<le> snd (plane_of img' l))"
proof -
  from AllocNativeImage_ok [OF assms] obtain img' H' where
    I: "AllocNativeImage p junk img H = Inr (img', H')" "allocated H' img'"
      "format img' = format img" "width img' = width img" "height img' = height img"
      "fst (ppPlane0 img') = p" by blast
  then obtain D where D: "H' p = Some D"
    "int (length D) = image_bytes (format img) (width img) (height img)"
    by (auto simp: allocated_def)
  have size: "valid_size (width img') (height img')" using assms(1) I(4,5) by simp
  note e = plane_end_def [of img', unfolded I(3,5)]
  show ?thesis
    using I(1) D allocated_planes_inside [OF I(2) size, unfolded e I(3-6)]
      allocated_planes_apart [OF I(2) size, unfolded e I(3-6)] by metis
qed

definition demo_image :: "int \<Rightarrow> NativeImage" where
  "demo_image f = NativeImage_init\<lparr>width := 3, height := 3, format := f\<rparr>"

theorem alloc_native_image_layout_witness:
  "\<exists>img' H' D. AllocNativeImage 7 (\<lambda>_. 0) (demo_image 4) Map.empty = Inr (img', H') \<and>
     H' 7 = Some D \<and> int (length D) = 13 \<and>
     snd (plane_of img' 1) + plane_rows 4 3 1 * line_of img' 1 \<le> snd (plane_of img' 2)"
proof -
  have "valid_size (width (demo_image 4)) (height (demo_image 4))" "valid_format (format (demo_image 4))"
    and f: "format (demo_image 4) = 4" "width (demo_image 4) = 3" "height (demo_image 4) = 3"
    by (simp_all add: demo_image_def NativeImage_init_def valid_size_def valid_format_def)
  from alloc_native_image_layout [OF this(1,2), of 7 "\<lambda>_. 0" Map.empty] obtain img' H' D where
    "AllocNativeImage 7 (\<lambda>_. 0) (demo_image 4) Map.empty = Inr (img', H')" "H' 7 = Some D"
    "int (length D) = image_bytes 4 3 3"
    "\<forall>k l. has_plane 4 k \<and> has_plane 4 l \<and> k < l \<longrightarrow>
      snd (plane_of img' k) + plane_rows 4 3 k * line_of img' k \<le> snd (plane_of img' l)"
    unfolding f by fastforce
  moreover have "image_bytes 4 3 3 = 13" by (simp add: image_bytes_def)
  moreover have "has_plane 4 1" "has_plane 4 2" "(1::nat) < 2" by (simp_all add: has_plane_def)
  ultimately show ?thesis by (intro exI conjI) (assumption | simp | blast)+
qed

text \<open>The three cases together: the copy between images of equal format and size.\<close>

lemma CopyNativeImage_ok:
  assumes "valid_size (width src) (height src)" and "valid_format (format src)"
    and "allocated H dst" and "copy_source H (fst (ppPlane0 dst)) src"
    and "format dst = format src" and "width dst = width src" and "height dst = height src"
  shows "\<exists>D'. CopyNativeImage p junk src dst H = Inr (dst, H(fst (ppPlane0 dst) \<mapsto> D')) \<and>
    int (length D') = image_bytes (format dst) (width dst) (height dst) \<and>
    same_pixels (H(fst (ppPlane0 dst) \<mapsto> D')) dst H src"
proof -
  consider "format src = 1" | "format src = 2 \<or> format src = 3" | "format src = 4"
    using assms(2) by (auto simp: valid_format_def)
  then show ?thesis
  proof cases
    case 1
    then show ?thesis using copy_RGBA [OF assms(1,3)] assms by simp
  next
    case 2
    then show ?thesis using copy_NV [OF assms(1) 2 assms(3)] assms by simp
  next
    case 3
    then show ?thesis using copy_I420 [OF assms(1,3)] assms by simp
  qed
qed

text \<open>C24: \<open>CopyNativeImage\<close> is memory-safe and copies the picture: for equal formats and sizes, a
  destination as \<open>AllocNativeImage\<close> makes it and a source whose planes hold the picture (with any
  line sizes, padded or not), every \<open>memcpy\<close> stays inside both blocks, only the destination
  block changes, and every byte of every row of every plane of the destination equals the source's.\<close>

theorem copy_native_image_pixels:
  assumes "valid_size (width src) (height src)" and "valid_format (format src)"
    and "allocated H dst" and "copy_source H (fst (ppPlane0 dst)) src"
    and "format dst = format src" and "width dst = width src" and "height dst = height src"
  shows "\<exists>D'. CopyNativeImage p junk src dst H = Inr (dst, H(fst (ppPlane0 dst) \<mapsto> D')) \<and>
    int (length D') = image_bytes (format dst) (width dst) (height dst) \<and>
    same_pixels (H(fst (ppPlane0 dst) \<mapsto> D')) dst H src"
  by (rule CopyNativeImage_ok [OF assms])

text \<open>A 2 by 2 I420 picture with padded lines, and an allocated destination.\<close>

definition demo_src :: NativeImage where
  "demo_src = \<lparr>width = 2, height = 2, format = 4, ppPlane0 = (1, 0), ppPlane1 = (2, 0), ppPlane2 = (3, 0),
     pLineSize0 = 4, pLineSize1 = 2, pLineSize2 = 2\<rparr>"

definition demo_dst :: NativeImage where
  "demo_dst = \<lparr>width = 2, height = 2, format = 4, ppPlane0 = (9, 0), ppPlane1 = (9, 4), ppPlane2 = (9, 5),
     pLineSize0 = 2, pLineSize1 = 1, pLineSize2 = 1\<rparr>"

definition demo_heap :: bheap where
  "demo_heap = [1 \<mapsto> [10, 11, 0, 0, 12, 13, 0, 0], 2 \<mapsto> [20, 0], 3 \<mapsto> [30, 0], 9 \<mapsto> [0, 0, 0, 0, 0, 0]]"

theorem copy_native_image_pixels_witness:
  "\<exists>D'. CopyNativeImage 0 (\<lambda>_. 0) demo_src demo_dst demo_heap = Inr (demo_dst, demo_heap(9 \<mapsto> D')) \<and>
     length D' = 6 \<and> same_pixels (demo_heap(9 \<mapsto> D')) demo_dst demo_heap demo_src"
proof -
  have "valid_size (width demo_src) (height demo_src)" "valid_format (format demo_src)"
    by (simp_all add: demo_src_def valid_size_def valid_format_def)
  moreover have "allocated demo_heap demo_dst"
    by (simp add: allocated_def demo_dst_def demo_heap_def image_bytes_def plane_cols_def)
  moreover have "copy_source demo_heap (fst (ppPlane0 demo_dst)) demo_src"
    by (auto simp: copy_source_def readable_def demo_src_def demo_dst_def demo_heap_def plane_defs)
  ultimately show ?thesis
    using copy_native_image_pixels [of demo_src demo_heap demo_dst 0 "\<lambda>_. 0"]
    by (auto simp: demo_src_def demo_dst_def image_bytes_def)
qed

text \<open>A dump writes exactly the picture: for an allocated image of even width and height and a
  file name that fits the 256-byte buffer, the bytes written, plane after plane, are the whole
  block of the image.\<close>

theorem dump_writes_whole_image:
  assumes "valid_size (width img) (height img)" and "valid_format (format img)" and "allocated H img"
    and "even (width img)" and "even (height img)" and "length (dump_path path fname img) < 256"
  shows "DumpNativeImage True img path fname H = Inr (dump_path path fname img, the (H (fst (ppPlane0 img))))"
proof -
  note wh = valid_size_bounds [OF assms(1)]
  obtain a c where ac: "width img = 2 * a" "height img = 2 * c"
    using evenE [OF assms(4)] evenE [OF assms(5)] by metis
  then have pos: "0 < a" "0 < c" using wh(1,2) by auto
  then have pac: "0 < a * c" by simp
  have big: "a * c * 16 \<le> INT_MAX" using wh(4) ac by (simp add: algebra_simps)
  have m: "c_mul (2 * a) (2 * c) = Inr (4 * (a * c))" "c_mul a c = Inr (a * c)"
    "c_mul (2 * a) c = Inr (2 * (a * c))" "c_mul (4 * (a * c)) 4 = Inr (16 * (a * c))"
    unfolding c_mul_def using big pac by (simp_all add: c_int_def algebra_simps)
  from assms(3) obtain b D where b: "H b = Some D" "ppPlane0 img = (b, 0)"
    and D: "int (length D) = image_bytes (format img) (2 * a) (2 * c)"
    and p1: "format img \<noteq> 1 \<longrightarrow> ppPlane1 img = (b, 4 * (a * c))"
    and p2: "format img = 4 \<longrightarrow> ppPlane2 img = (b, 4 * (a * c) + a * c)"
    using ac by (auto simp: allocated_def)
  define n where "n = nat (a * c)"
  have n: "a * c = int n" using pac by (simp add: n_def)
  have e: "nat (4 * int n) = 4 * n" "nat (2 * int n) = 2 * n" "nat (16 * int n) = 16 * n"
    "nat (4 * int n + int n) = 5 * n" by linarith+
  have cut: "take (i * n) D @ take (j * n) (drop (i * n) D) = take ((i + j) * n) D" for i j
    by (simp add: take_add algebra_simps)
  consider "format img = 1" | "format img = 2 \<or> format img = 3" | "format img = 4"
    using assms(2) by (auto simp: valid_format_def)
  then show ?thesis
  proof cases
    case 1
    then have "length D = 16 * n" using D n by (simp add: image_bytes_def)
    then show ?thesis using 1 assms(6) ac m b n e
      by (simp add: DumpNativeImage_def write_plane_def)
  next
    case 2
    then have "length D = 6 * n" using D n by (auto simp: image_bytes_def)
    then show ?thesis using 2 assms(6) ac m b n e p1 cut [of 4 2]
      by (auto simp: DumpNativeImage_def write_plane_def)
  next
    case 3
    then have len: "length D = 6 * n" using D n by (auto simp: image_bytes_def)
    have "take (4 * n) D @ take n (drop (4 * n) D) @ take n (drop (5 * n) D) = D"
      using cut [of 4 1] cut [of 5 1] len by (simp flip: append_assoc)
    then show ?thesis using 3 assms(6) ac m b n e p1 p2 len
      by (simp add: DumpNativeImage_def write_plane_def)
  qed
qed

theorem dump_writes_whole_image_witness:
  "DumpNativeImage True demo_dst ''d'' ''f'' demo_heap = Inr (''d/IMG_2x2_f_0.I420'', [0, 0, 0, 0, 0, 0])"
proof -
  have path: "dump_path ''d'' ''f'' demo_dst = ''d/IMG_2x2_f_0.I420''"
    by code_simp
  have "valid_size (width demo_dst) (height demo_dst)" "valid_format (format demo_dst)"
    "even (width demo_dst)" "even (height demo_dst)"
    by (simp_all add: demo_dst_def valid_size_def valid_format_def)
  moreover have "allocated demo_heap demo_dst"
    by (simp add: allocated_def demo_dst_def demo_heap_def image_bytes_def plane_cols_def)
  ultimately show ?thesis
    using dump_writes_whole_image [of demo_dst demo_heap "''d''" "''f''"] path
    by (simp add: demo_dst_def demo_heap_def)
qed

end
