(* ===== verification/Video_Output.thy ===== *)
theory Video_Output
  imports Native_Image
begin

text \<open>
  Putting pictures on the native window: the window variable and the render callback of
  \<open>app_liveplayer.cpp\<close>, and \<open>NativeRender\<close> (\<open>player/render/NativeRender.cpp\<close>), which fits a video
  into a window and copies images row by row. The window's buffer and the source picture are
  blocks of the byte heap.
\<close>

section \<open>The window of the player\<close>

text \<open>
  \<open>window\<close> (null or a reference the program holds) and the references acquired and not released.
  \<open>lock\<close> is the answer of \<open>ANativeWindow_lock\<close>: \<open>None\<close> when it fails, otherwise the buffer.
\<close>

record win_buffer =
  wb_bits :: plane
  wb_stride :: int
  wb_height :: int

record win_state =
  window :: ptr
  held_windows :: pool

definition release_window :: "win_state \<Rightarrow> win_state res" where
  "release_window w = res_bind (pool_free (window w) (held_windows w)) (\<lambda>P.
     Inr (w\<lparr>window := null, held_windows := P\<rparr>))"

definition native_setSurface :: "ptr \<Rightarrow> win_state \<Rightarrow> win_state res" where
  "native_setSurface surface w0 =
     res_bind (if window w0 \<noteq> null then release_window w0 else Inr w0) (\<lambda>w.
       if surface = null then Inl NullDeref
       else Inr (w\<lparr>window := surface, held_windows := insert surface (held_windows w)\<rparr>))"

definition native_release_window :: "win_state \<Rightarrow> win_state res" where
  "native_release_window w = (if window w \<noteq> null then release_window w else Inr w)"

text \<open>
  \<open>renderFrameCallBack\<close>: nothing without a window; a failed lock drops the window; otherwise every
  row of the window buffer is filled from the picture, \<open>stride * 4\<close> bytes at a time.
\<close>

definition renderFrameCallBack ::
    "win_buffer option \<Rightarrow> plane \<Rightarrow> int \<Rightarrow> win_state \<times> bheap \<Rightarrow> (win_state \<times> bheap) res" where
  "renderFrameCallBack lock src_data src_lineSize = (\<lambda>(w, H).
     if window w = null then Inr (w, H)
     else case lock of
       None \<Rightarrow> res_bind (release_window w) (\<lambda>w'. Inr (w', H))
     | Some b \<Rightarrow>
         res_bind (c_mul (wb_stride b) 4) (\<lambda>dstLineSize.
         res_bind (copy_rows 0 (wb_height b) (wb_bits b) dstLineSize src_data src_lineSize dstLineSize H) (\<lambda>H'.
           Inr (w, H'))))"

section \<open>\<open>NativeRender\<close>\<close>

text \<open>\<open>Init\<close>: the size of the picture in the window, in \<open>int\<close> arithmetic.\<close>

definition NativeRender_Init :: "int \<Rightarrow> int \<Rightarrow> int \<Rightarrow> int \<Rightarrow> (int \<times> int) res" where
  "NativeRender_Init windowWidth windowHeight videoWidth videoHeight =
     res_bind (c_mul windowHeight videoWidth) (\<lambda>n.
     res_bind (c_div n videoHeight) (\<lambda>fit.
       if windowWidth < fit then
         res_bind (c_mul windowWidth videoHeight) (\<lambda>m.
         res_bind (c_div m videoWidth) (\<lambda>h. Inr (windowWidth, h)))
       else Inr (fit, windowHeight)))"

text \<open>\<open>RenderVideoFrame\<close>: \<open>m_DstHeight\<close> rows of the image's width, from plane 0.\<close>

definition NativeRender_RenderVideoFrame ::
    "int \<Rightarrow> win_buffer \<Rightarrow> NativeImage \<Rightarrow> bheap \<Rightarrow> bheap res" where
  "NativeRender_RenderVideoFrame dstHeight b img H =
     res_bind (c_mul (width img) 4) (\<lambda>srcLineSize.
     res_bind (c_mul (wb_stride b) 4) (\<lambda>dstLineSize.
       copy_rows 0 dstHeight (wb_bits b) dstLineSize (ppPlane0 img) srcLineSize srcLineSize H))"

section \<open>Lemmas\<close>

text \<open>A row loop that succeeds has stayed inside the source block.\<close>

lemma heap_copy_source:
  assumes "heap_copy (db, d) (sb, s) n H = Inr H'" and "H sb = Some S" and "db \<noteq> sb"
  shows "s + n \<le> int (length S) \<and> H' sb = Some S"
  using assms by (auto simp: heap_copy_def mem_copy_Inr_iff res_bind_Inr_iff split: option.splits if_splits)

lemma copy_rows_source:
  "copy_rows i rows (db, d) dl (sb, s) sl rb H = Inr H' \<Longrightarrow> H sb = Some S \<Longrightarrow> db \<noteq> sb \<Longrightarrow>
     i \<le> r \<Longrightarrow> r < rows \<Longrightarrow> s + r * sl + rb \<le> int (length S)"
proof (induction "nat (rows - i)" arbitrary: i H)
  case 0
  then show ?case by simp
next
  case (Suc n)
  then have i: "i < rows" by linarith
  from Suc.prems(1) obtain H1 where
      h1: "heap_copy (db, d + i * dl) (sb, s + i * sl) rb H = Inr H1"
    and rest: "copy_rows (i + 1) rows (db, d) dl (sb, s) sl rb H1 = Inr H'"
    by (subst (asm) copy_rows.simps)
      (auto simp: i c_mul_def c_int_Inr_iff res_bind_Inr_iff)
  have b: "s + i * sl + rb \<le> int (length S)" "H1 sb = Some S"
    using heap_copy_source [OF h1 Suc.prems(2,3)] by simp_all
  show ?case
  proof (cases "r = i")
    case True
    then show ?thesis using b(1) by simp
  next
    case False
    then have "i + 1 \<le> r" using Suc.prems(4) by simp
    moreover have "n = nat (rows - (i + 1))" using Suc.hyps(2) by linarith
    ultimately show ?thesis using Suc.hyps(1) [OF _ rest b(2) Suc.prems(3)] Suc.prems(5) by blast
  qed
qed

lemma zdiv_mult_le: "0 < (q::int) \<Longrightarrow> m div q * q \<le> m \<and> m < (m div q + 1) * q"
  using zdiv_less_iff [of q m "m div q + 1"] zdiv_less_iff [of q m "m div q"] by simp

section \<open>Properties\<close>

text \<open>C26: The render callback shows the picture when the window's line is no longer than the source line:
  for a locked buffer large enough for its lines and a picture with as many lines, the copy stays
  inside both blocks and each pixel byte of each line arrives, and the window is kept.\<close>

theorem render_callback_shows_picture:
  assumes "window w \<noteq> null" and "wb_bits b = (db, 0)" and "db \<noteq> sb" and "H db = Some D" and "H sb = Some S"
    and "0 \<le> wb_stride b" and "0 \<le> wb_height b" and "wb_stride b * 4 \<le> ls" and "ls \<le> 100000" and "wb_height b \<le> 20000"
    and "wb_height b * (wb_stride b * 4) \<le> int (length D)" and "wb_height b * ls \<le> int (length S)"
  shows "\<exists>D'. renderFrameCallBack (Some b) (sb, 0) ls (w, H) = Inr (w, H(db \<mapsto> D')) \<and> length D' = length D \<and>
    (\<forall>r j. 0 \<le> r \<and> r < wb_height b \<and> 0 \<le> j \<and> j < wb_stride b * 4 \<longrightarrow>
       D' ! nat (r * (wb_stride b * 4) + j) = S ! nat (r * ls + j))"
proof -
  let ?dl = "wb_stride b * 4" and ?h = "wb_height b"
  have m: "c_mul (wb_stride b) 4 = Inr ?dl" using assms(6,8,9) by (simp add: c_mul_def)
  have "?h * ls \<le> 20000 * 100000" using assms(6-10) by (intro mult_mono) auto
  moreover have "?h * ?dl \<le> ?h * ls" using assms(7,8) by (intro mult_left_mono) auto
  ultimately have ov: "?h * ?dl \<le> INT_MAX" "?h * ls \<le> INT_MAX" by linarith+
  have e: "(?h - 1) * ?dl + ?dl = ?h * ?dl" "(?h - 1) * ls + ls = ?h * ls" by (simp_all add: algebra_simps)
  have "\<exists>D'. copy_rows 0 ?h (db, 0) ?dl (sb, 0) ls ?dl H = Inr (H(db \<mapsto> D')) \<and> length D' = length D \<and>
    (\<forall>r j. 0 \<le> r \<and> r < ?h \<and> 0 \<le> j \<and> j < ?dl \<longrightarrow> D' ! nat (0 + r * ?dl + j) = S ! nat (0 + r * ls + j)) \<and>
    (\<forall>k. 0 \<le> k \<and> k < int (length D) \<and> (k < 0 + 0 * ?dl \<or> 0 + (?h - 1) * ?dl + ?dl \<le> k) \<longrightarrow> D' ! nat k = D ! nat k)"
    using assms(3-12) ov e by (intro copy_rows_ok) auto
  then show ?thesis using m assms(1,2) by (auto simp: renderFrameCallBack_def)
qed

definition demo_win_heap :: bheap where
  "demo_win_heap = [1 \<mapsto> replicate 8 0, 2 \<mapsto> [1, 2, 3, 4, 5, 6, 7, 8]]"

theorem render_callback_shows_picture_witness:
  "\<exists>D'. renderFrameCallBack (Some \<lparr>wb_bits = (1, 0), wb_stride = 1, wb_height = 2\<rparr>) (2, 0) 4
      (\<lparr>window = 7, held_windows = {7}\<rparr>, demo_win_heap) = Inr (\<lparr>window = 7, held_windows = {7}\<rparr>, demo_win_heap(1 \<mapsto> D')) \<and>
    length D' = 8 \<and>
    (\<forall>r j. 0 \<le> r \<and> r < 2 \<and> 0 \<le> j \<and> j < 4 \<longrightarrow> D' ! nat (r * 4 + j) = [1, 2, 3, 4, 5, 6, 7, 8 :: byte] ! nat (r * 4 + j))"
  using render_callback_shows_picture [of "\<lparr>window = 7, held_windows = {7}\<rparr>"
      "\<lparr>wb_bits = (1, 0), wb_stride = 1, wb_height = 2\<rparr>" 1 2 demo_win_heap "replicate 8 0" "[1, 2, 3, 4, 5, 6, 7, 8]" 4]
  by (simp add: demo_win_heap_def)

text \<open>The render callback reads past the picture when the window's line is longer than the source line
  (the stride of a window buffer is usually rounded up): the last row leaves the source block.\<close>

theorem render_callback_overreads:
  assumes "window w \<noteq> null" and "wb_bits b = (db, d)" and "db \<noteq> sb" and "H sb = Some S"
    and "0 < wb_height b" and "int (length S) = wb_height b * ls" and "ls < wb_stride b * 4"
  shows "\<nexists>r. renderFrameCallBack (Some b) (sb, 0) ls (w, H) = Inr r"
proof
  assume "\<exists>r. renderFrameCallBack (Some b) (sb, 0) ls (w, H) = Inr r"
  then obtain H' where "copy_rows 0 (wb_height b) (db, d) (wb_stride b * 4) (sb, 0) ls (wb_stride b * 4) H = Inr H'"
    using assms(1,2) by (auto simp: renderFrameCallBack_def res_bind_Inr_iff c_mul_def c_int_Inr_iff)
  from copy_rows_source [OF this assms(4,3), of "wb_height b - 1"] assms(5-7) show False
    by (simp add: algebra_simps)
qed

theorem render_callback_overreads_witness:
  "\<nexists>r. renderFrameCallBack (Some \<lparr>wb_bits = (1, 0), wb_stride = 2, wb_height = 2\<rparr>) (2, 0) 4
      (\<lparr>window = 7, held_windows = {7}\<rparr>, demo_win_heap) = Inr r"
  by (rule render_callback_overreads [where S = "[1, 2, 3, 4, 5, 6, 7, 8]" and db = 1 and d = 0])
    (simp_all add: demo_win_heap_def)

text \<open>C27: \<open>NativeRender\<close> fits the video into the window: the computed size is inside the window, fills it in
  one direction, and keeps the aspect ratio up to the rounding of one pixel.\<close>

theorem native_render_fits:
  assumes "0 < ww" and "0 < wh" and "0 < vw" and "0 < vh"
    and "ww \<le> 20000" and "wh \<le> 20000" and "vw \<le> 20000" and "vh \<le> 20000"
  shows "\<exists>dw dh. NativeRender_Init ww wh vw vh = Inr (dw, dh) \<and> 0 \<le> dw \<and> dw \<le> ww \<and> 0 \<le> dh \<and> dh \<le> wh \<and>
    (dw = ww \<and> dh * vw \<le> dw * vh \<and> dw * vh < (dh + 1) * vw \<or>
     dh = wh \<and> dw * vh \<le> dh * vw \<and> dh * vw < (dw + 1) * vh)"
proof -
  have p: "wh * vw \<le> 20000 * 20000" "ww * vh \<le> 20000 * 20000" using assms by (intro mult_mono; simp)+
  have nn: "0 \<le> wh * vw" "0 \<le> ww * vh" using assms by auto
  have d: "wh * vw sdiv vh = wh * vw div vh" "ww * vh sdiv vw = ww * vh div vw"
    using sdiv_nonneg nn assms by auto
  have dn: "0 \<le> wh * vw div vh" "0 \<le> ww * vh div vw" using nn assms by (simp_all add: pos_imp_zdiv_nonneg_iff)
  have le: "wh * vw div vh \<le> wh * vw" "ww * vh div vw \<le> ww * vh"
    using assms by (auto intro!: int_div_le_self mult_pos_pos)
  have c: "c_mul wh vw = Inr (wh * vw)" "c_div (wh * vw) vh = Inr (wh * vw div vh)"
    "c_mul ww vh = Inr (ww * vh)" "c_div (ww * vh) vw = Inr (ww * vh div vw)"
    using p nn d dn le assms by (simp_all add: c_mul_def c_div_def c_int_def)
  note b = zdiv_mult_le [OF assms(4), of "wh * vw"] zdiv_mult_le [OF assms(3), of "ww * vh"]
  show ?thesis
  proof (cases "ww < wh * vw div vh")
    case True
    then have "ww * vh < wh * vw" using b(1) mult_strict_right_mono [OF True assms(4)] by linarith
    then have "ww * vh div vw < wh" using zdiv_less_iff [OF assms(3)] by simp
    then show ?thesis using True c b(2) dn assms by (auto simp: NativeRender_Init_def)
  next
    case False
    then show ?thesis using c b(1) dn assms by (auto simp: NativeRender_Init_def)
  qed
qed

theorem native_render_fits_witness:
  "\<exists>dw dh. NativeRender_Init 1080 1920 1280 720 = Inr (dw, dh) \<and> dw \<le> 1080 \<and> dh \<le> 1920"
  using native_render_fits [of 1080 1920 1280 720] by auto

end
