(* ===== verification/Egl.thy ===== *)
theory Egl
  imports Prelude
begin

text \<open>
  The EGL wrapper: \<open>EglCore\<close> (\<open>egl/EglCore.cpp\<close>), \<open>EglSurfaceBase\<close>, \<open>WindowSurface\<close> and
  \<open>OffscreenSurface\<close>. EGL itself is a parameter: the answer of each call may depend on all calls
  before it. Handles are integers, 0 is \<open>EGL_NO_DISPLAY\<close>, \<open>EGL_NO_CONTEXT\<close>, \<open>EGL_NO_SURFACE\<close> and
  the null pointer. Asserts are active unless \<open>ndebug\<close> is set.
\<close>

section \<open>Calls\<close>

datatype egl_call =
    EglGetDisplay
  | EglInitialize int
  | EglChooseConfig int "int list"          \<comment> \<open>answer: the handle written, negative for \<open>EGL_FALSE\<close>\<close>
  | EglCreateContext int int int int        \<comment> \<open>display, config, shared context, client version\<close>
  | EglGetError
  | EglGetProcAddress
  | EglQueryContext int int
  | EglCreateWindowSurface int int int
  | EglCreatePbufferSurface int int int int
  | EglMakeCurrent int int int int          \<comment> \<open>display, draw, read, context\<close>
  | EglSwapBuffers int int
  | EglPresentationTime int int int
  | EglGetCurrentContext
  | EglGetCurrentSurface
  | EglQuerySurface int int int             \<comment> \<open>answer: the value written\<close>
  | EglDestroySurface int int
  | EglDestroyContext int int
  | EglReleaseThread
  | EglTerminate int
  | WindowRelease int                       \<comment> \<open>\<open>ANativeWindow_release\<close>\<close>

abbreviation (input) EGL_SUCCESS :: int where "EGL_SUCCESS \<equiv> 12288"
abbreviation (input) FLAG_RECORDABLE :: int where "FLAG_RECORDABLE \<equiv> 1"
abbreviation (input) FLAG_TRY_GLES3 :: int where "FLAG_TRY_GLES3 \<equiv> 2"
abbreviation (input) EGL_NONE :: int where "EGL_NONE \<equiv> 12344"
abbreviation (input) EGL_WIDTH :: int where "EGL_WIDTH \<equiv> 12375"
abbreviation (input) EGL_HEIGHT :: int where "EGL_HEIGHT \<equiv> 12374"

record EglCore =
  mEGLDisplay :: int
  mEGLContext :: int
  mEGLConfig :: int
  mGlVersion :: int
  eglPresentationTime :: int

definition EglCore_fields :: EglCore where
  "EglCore_fields = \<lparr>mEGLDisplay = 0, mEGLContext = 0, mEGLConfig = 0, mGlVersion = - 1, eglPresentationTime = 0\<rparr>"

section \<open>\<open>EglCore\<close>\<close>

definition checkEglError :: "egl_call ext \<Rightarrow> (egl_call, bool) io" where
  "checkEglError x = do { e \<leftarrow> call x EglGetError; State_Monad.return (e \<noteq> EGL_SUCCESS) }"

text \<open>
  The attribute list of \<open>getConfig\<close>: red, green, blue, alpha, depth, stencil, renderable type, a
  placeholder at index \<open>length - 3\<close> that the recordable flag overwrites, and the terminator.
\<close>

definition configAttribs :: "int \<Rightarrow> int \<Rightarrow> int list" where
  "configAttribs flags version =
     (let base = [12324, 8, 12323, 8, 12322, 8, 12321, 8, 12325, 16, 12326, 8,
                  12352, if version \<ge> 3 then 68 else 4, EGL_NONE, 0, EGL_NONE];
          n = length base in
      if flags mod 2 = 1 then (base[n - 3 := 12610])[n - 2 := 1] else base)"

definition getConfig :: "egl_call ext \<Rightarrow> EglCore \<Rightarrow> int \<Rightarrow> int \<Rightarrow> (egl_call, int) io" where
  "getConfig x c flags version = do {
     r \<leftarrow> call x (EglChooseConfig (mEGLDisplay c) (configAttribs flags version));
     State_Monad.return (if r < 0 then 0 else r) }"

text \<open>Lines 49 to 64 and 69 to 84: one attempt to create a context of a client version.\<close>

definition try_context :: "egl_call ext \<Rightarrow> int \<Rightarrow> int \<Rightarrow> int \<Rightarrow> EglCore \<Rightarrow> (egl_call, EglCore) io" where
  "try_context x shared flags version c = do {
     cfg \<leftarrow> getConfig x c flags version;
     if cfg \<noteq> 0 then do {
       ctx \<leftarrow> call x (EglCreateContext (mEGLDisplay c) cfg shared version);
       _ \<leftarrow> checkEglError x;
       e \<leftarrow> call x EglGetError;
       State_Monad.return (if e = EGL_SUCCESS
         then c\<lparr>mEGLConfig := cfg, mEGLContext := ctx, mGlVersion := version\<rparr> else c)
     } else State_Monad.return c }"

definition EglCore_init :: "bool \<Rightarrow> egl_call ext \<Rightarrow> int \<Rightarrow> int \<Rightarrow> EglCore \<Rightarrow> (egl_call, EglCore res) io" where
  "EglCore_init ndebug x shared flags c =
     (if \<not> ndebug \<and> mEGLDisplay c \<noteq> 0 then State_Monad.return (Inl AssertFail)
      else do {
        d \<leftarrow> call x EglGetDisplay;
        if \<not> ndebug \<and> d = 0 then State_Monad.return (Inl AssertFail)
        else do {
          ok \<leftarrow> call x (EglInitialize d);
          let c1 = c\<lparr>mEGLDisplay := if ok = 0 then 0 else d\<rparr>;
          c2 \<leftarrow> (if (flags div 2) mod 2 = 1 then try_context x shared flags 3 c1 else State_Monad.return c1);
          c3 \<leftarrow> (if mEGLContext c2 = 0 then try_context x shared flags 2 c2 else State_Monad.return c2);
          pt \<leftarrow> call x EglGetProcAddress;
          _ \<leftarrow> call x (EglQueryContext (mEGLDisplay c3) (mEGLContext c3));
          State_Monad.return (Inr (c3\<lparr>eglPresentationTime := pt\<rparr>)) } })"

definition EglCore_releaseSurface :: "egl_call ext \<Rightarrow> EglCore \<Rightarrow> int \<Rightarrow> (egl_call, unit) io" where
  "EglCore_releaseSurface x c surf = do { _ \<leftarrow> call x (EglDestroySurface (mEGLDisplay c) surf); State_Monad.return () }"

definition EglCore_createWindowSurface :: "egl_call ext \<Rightarrow> EglCore \<Rightarrow> int \<Rightarrow> (egl_call, int) io" where
  "EglCore_createWindowSurface x c win =
     (if win = 0 then State_Monad.return 0
      else do { s \<leftarrow> call x (EglCreateWindowSurface (mEGLDisplay c) (mEGLConfig c) win);
                _ \<leftarrow> checkEglError x; State_Monad.return s })"

definition EglCore_createOffscreenSurface :: "egl_call ext \<Rightarrow> EglCore \<Rightarrow> int \<Rightarrow> int \<Rightarrow> (egl_call, int) io" where
  "EglCore_createOffscreenSurface x c w h = do {
     s \<leftarrow> call x (EglCreatePbufferSurface (mEGLDisplay c) (mEGLConfig c) w h);
     _ \<leftarrow> checkEglError x; State_Monad.return s }"

definition EglCore_makeCurrent :: "egl_call ext \<Rightarrow> EglCore \<Rightarrow> int \<Rightarrow> int \<Rightarrow> (egl_call, unit) io" where
  "EglCore_makeCurrent x c draw read = do {
     _ \<leftarrow> call x (EglMakeCurrent (mEGLDisplay c) draw read (mEGLContext c)); State_Monad.return () }"

definition EglCore_makeNothingCurrent :: "egl_call ext \<Rightarrow> EglCore \<Rightarrow> (egl_call, unit) io" where
  "EglCore_makeNothingCurrent x c = do {
     _ \<leftarrow> call x (EglMakeCurrent (mEGLDisplay c) 0 0 0); State_Monad.return () }"

definition EglCore_swapBuffers :: "egl_call ext \<Rightarrow> EglCore \<Rightarrow> int \<Rightarrow> (egl_call, bool) io" where
  "EglCore_swapBuffers x c surf = do { r \<leftarrow> call x (EglSwapBuffers (mEGLDisplay c) surf); State_Monad.return (r \<noteq> 0) }"

text \<open>\<open>setPresentationTime\<close> calls through the procedure address, which may be missing.\<close>

definition EglCore_setPresentationTime :: "egl_call ext \<Rightarrow> EglCore \<Rightarrow> int \<Rightarrow> int \<Rightarrow> (egl_call, unit res) io" where
  "EglCore_setPresentationTime x c surf nsecs =
     (if eglPresentationTime c = 0 then State_Monad.return (Inl NullDeref)
      else do { _ \<leftarrow> call x (EglPresentationTime (mEGLDisplay c) surf nsecs); State_Monad.return (Inr ()) })"

definition EglCore_isCurrent :: "egl_call ext \<Rightarrow> EglCore \<Rightarrow> int \<Rightarrow> (egl_call, bool) io" where
  "EglCore_isCurrent x c surf = do {
     ctx \<leftarrow> call x EglGetCurrentContext;
     if mEGLContext c = ctx then do { s \<leftarrow> call x EglGetCurrentSurface; State_Monad.return (surf = s) }
     else State_Monad.return False }"

definition EglCore_querySurface :: "egl_call ext \<Rightarrow> EglCore \<Rightarrow> int \<Rightarrow> int \<Rightarrow> (egl_call, int) io" where
  "EglCore_querySurface x c surf what = call x (EglQuerySurface (mEGLDisplay c) surf what)"

definition EglCore_release :: "egl_call ext \<Rightarrow> EglCore \<Rightarrow> (egl_call, EglCore) io" where
  "EglCore_release x c = do {
     _ \<leftarrow> (if mEGLDisplay c \<noteq> 0 then do {
             _ \<leftarrow> call x (EglMakeCurrent (mEGLDisplay c) 0 0 0);
             _ \<leftarrow> call x (EglDestroyContext (mEGLDisplay c) (mEGLContext c));
             _ \<leftarrow> call x EglReleaseThread;
             call x (EglTerminate (mEGLDisplay c)) }
           else State_Monad.return 0);
     State_Monad.return (c\<lparr>mEGLDisplay := 0, mEGLContext := 0, mEGLConfig := 0\<rparr>) }"

section \<open>Surfaces\<close>

record EglSurfaceBase =
  mEglCore :: EglCore
  mEglSurface :: int
  mWidth :: int
  mHeight :: int

definition EglSurfaceBase_ctor :: "EglCore \<Rightarrow> EglSurfaceBase" where
  "EglSurfaceBase_ctor c = \<lparr>mEglCore = c, mEglSurface = 0, mWidth = - 1, mHeight = - 1\<rparr>"

text \<open>\<open>createWindowSurface\<close> asserts that the window is null and drops the surface it creates.\<close>

definition createWindowSurface ::
    "bool \<Rightarrow> egl_call ext \<Rightarrow> int \<Rightarrow> EglSurfaceBase \<Rightarrow> (egl_call, EglSurfaceBase res) io" where
  "createWindowSurface ndebug x win b =
     (if \<not> ndebug \<and> win \<noteq> 0 then State_Monad.return (Inl AssertFail)
      else if mEglSurface b \<noteq> 0 then State_Monad.return (Inr b)
      else do { _ \<leftarrow> EglCore_createWindowSurface x (mEglCore b) win; State_Monad.return (Inr b) })"

definition createOffscreenSurface ::
    "bool \<Rightarrow> egl_call ext \<Rightarrow> int \<Rightarrow> int \<Rightarrow> EglSurfaceBase \<Rightarrow> (egl_call, EglSurfaceBase res) io" where
  "createOffscreenSurface ndebug x w h b =
     (if mEglSurface b \<noteq> 0 then State_Monad.return (if ndebug then Inr b else Inl AssertFail)
      else do { s \<leftarrow> EglCore_createOffscreenSurface x (mEglCore b) w h;
                State_Monad.return (Inr (b\<lparr>mEglSurface := s\<rparr>)) })"

definition getWidth :: "egl_call ext \<Rightarrow> EglSurfaceBase \<Rightarrow> (egl_call, int) io" where
  "getWidth x b = (if mWidth b < 0 then EglCore_querySurface x (mEglCore b) (mEglSurface b) EGL_WIDTH
     else State_Monad.return (mWidth b))"

definition getHeight :: "egl_call ext \<Rightarrow> EglSurfaceBase \<Rightarrow> (egl_call, int) io" where
  "getHeight x b = (if mHeight b < 0 then EglCore_querySurface x (mEglCore b) (mEglSurface b) EGL_HEIGHT
     else State_Monad.return (mHeight b))"

definition releaseEglSurface :: "egl_call ext \<Rightarrow> EglSurfaceBase \<Rightarrow> (egl_call, EglSurfaceBase) io" where
  "releaseEglSurface x b = do {
     _ \<leftarrow> EglCore_releaseSurface x (mEglCore b) (mEglSurface b);
     State_Monad.return (b\<lparr>mEglSurface := 0, mWidth := - 1, mHeight := - 1\<rparr>) }"

definition surface_swapBuffers :: "egl_call ext \<Rightarrow> EglSurfaceBase \<Rightarrow> (egl_call, bool) io" where
  "surface_swapBuffers x b = EglCore_swapBuffers x (mEglCore b) (mEglSurface b)"

definition surface_makeCurrent :: "egl_call ext \<Rightarrow> EglSurfaceBase \<Rightarrow> (egl_call, unit) io" where
  "surface_makeCurrent x b = EglCore_makeCurrent x (mEglCore b) (mEglSurface b) (mEglSurface b)"

definition surface_setPresentationTime :: "egl_call ext \<Rightarrow> int \<Rightarrow> EglSurfaceBase \<Rightarrow> (egl_call, unit res) io" where
  "surface_setPresentationTime x nsecs b = EglCore_setPresentationTime x (mEglCore b) (mEglSurface b) nsecs"

definition OffscreenSurface ::
    "bool \<Rightarrow> egl_call ext \<Rightarrow> EglCore \<Rightarrow> int \<Rightarrow> int \<Rightarrow> (egl_call, EglSurfaceBase res) io" where
  "OffscreenSurface ndebug x c w h = createOffscreenSurface ndebug x w h (EglSurfaceBase_ctor c)"

definition OffscreenSurface_release :: "egl_call ext \<Rightarrow> EglSurfaceBase \<Rightarrow> (egl_call, EglSurfaceBase) io" where
  "OffscreenSurface_release x b = releaseEglSurface x b"

text \<open>\<open>WindowSurface\<close> is the base together with the window it holds.\<close>

definition WindowSurface_ctor ::
    "bool \<Rightarrow> egl_call ext \<Rightarrow> EglCore \<Rightarrow> int \<Rightarrow> (egl_call, (EglSurfaceBase \<times> int) res) io" where
  "WindowSurface_ctor ndebug x c win = do {
     r \<leftarrow> createWindowSurface ndebug x win (EglSurfaceBase_ctor c);
     State_Monad.return (case r of Inl e \<Rightarrow> Inl e | Inr b \<Rightarrow> Inr (b, win)) }"

definition WindowSurface_release :: "egl_call ext \<Rightarrow> EglSurfaceBase \<times> int \<Rightarrow> (egl_call, EglSurfaceBase \<times> int) io" where
  "WindowSurface_release x s = do {
     b \<leftarrow> releaseEglSurface x (fst s);
     if snd s \<noteq> 0 then do { _ \<leftarrow> call x (WindowRelease (snd s)); State_Monad.return (b, 0) }
     else State_Monad.return (b, snd s) }"

definition WindowSurface_recreate ::
    "bool \<Rightarrow> egl_call ext \<Rightarrow> EglCore \<Rightarrow> EglSurfaceBase \<times> int \<Rightarrow> (egl_call, (EglSurfaceBase \<times> int) res) io" where
  "WindowSurface_recreate ndebug x c s =
     (if snd s = 0 then State_Monad.return (if ndebug then Inr s else Inl AssertFail)
      else do {
        r \<leftarrow> createWindowSurface ndebug x (snd s) ((fst s)\<lparr>mEglCore := c\<rparr>);
        State_Monad.return (case r of Inl e \<Rightarrow> Inl e | Inr b \<Rightarrow> Inr (b, snd s)) })"

lemmas egl_defs = checkEglError_def getConfig_def try_context_def EglCore_init_def EglCore_release_def

section \<open>Traces and attribute lists\<close>

text \<open>The calls of a trace with the answers they got.\<close>

fun outcomes :: "'c ext \<Rightarrow> 'c list \<Rightarrow> 'c list \<Rightarrow> ('c \<times> int) list" where
  "outcomes x h [] = []"
| "outcomes x h (c # cs) = (c, x h c) # outcomes x (h @ [c]) cs"

lemma outcomes_append: "outcomes x h (cs @ ds) = outcomes x h cs @ outcomes x (h @ cs) ds"
  by (induction cs arbitrary: h) simp_all

text \<open>What EGL reads from an attribute list: pairs up to the first \<open>EGL_NONE\<close> in key position.\<close>

fun attrib_pairs :: "int list \<Rightarrow> (int \<times> int) list option" where
  "attrib_pairs [] = None"
| "attrib_pairs [k] = (if k = EGL_NONE then Some [] else None)"
| "attrib_pairs (k # v # rest) =
     (if k = EGL_NONE then Some [] else map_option (Cons (k, v)) (attrib_pairs rest))"

text \<open>
  One attempt: every context it created is the one in the core afterwards, with its version and
  configuration, or the core is unchanged. \<open>eglGetError\<close> resets the error, so the second query
  always answers success.
\<close>

definition error_resets :: "egl_call ext \<Rightarrow> bool" where
  "error_resets x \<longleftrightarrow> (\<forall>h. x (h @ [EglGetError]) EglGetError = EGL_SUCCESS)"

definition keeps :: "EglCore \<Rightarrow> egl_call \<times> int \<Rightarrow> bool" where
  "keeps c o' = (case fst o' of
     EglCreateContext d cfg sh v \<Rightarrow>
       snd o' \<noteq> 0 \<longrightarrow> snd o' = mEGLContext c \<and> cfg = mEGLConfig c \<and> v = mGlVersion c
   | _ \<Rightarrow> True)"

lemma try_context_keeps:
  assumes "error_resets x"
  shows "\<exists>tr c'. run_state (try_context x sh flags v c) h = (c', h @ tr) \<and>
    (\<forall>o' \<in> set (outcomes x h tr). keeps c' o') \<and>
    (c' = c \<or> mEGLDisplay c' = mEGLDisplay c \<and> mGlVersion c' = v)"
proof -
  have e: "x (h' @ [EglGetError]) EglGetError = EGL_SUCCESS" for h' using assms by (simp add: error_resets_def)
  have e': "x (h @ [a, b, EglGetError]) EglGetError = EGL_SUCCESS" for a b using e [of "h @ [a, b]"] by simp
  show ?thesis by (simp add: egl_defs keeps_def e')
qed

lemma maybe_context_keeps:
  assumes "error_resets x"
  shows "\<exists>c' tr. run_state (if b then try_context x sh flags v c else State_Monad.return c) h = (c', h @ tr) \<and>
    (\<forall>o' \<in> set (outcomes x h tr). keeps c' o') \<and> (\<not> b \<longrightarrow> c' = c)"
proof (cases b)
  case True
  then show ?thesis using try_context_keeps [OF assms, of sh flags v c h] by (simp del: run_if) blast
next
  case False
  then show ?thesis by (intro exI [of _ c] exI [of _ "[]"]) simp
qed

section \<open>Properties\<close>

text \<open>C33: Initialising leaks no context and records what it created: for every EGL that resets its error
  when queried, every context that \<open>eglCreateContext\<close> returned during \<open>init\<close> is the one the core
  holds afterwards, with the configuration and the client version it was created with.\<close>

theorem egl_init_keeps_every_context:
  assumes "error_resets x" and "run_state (EglCore_init ndebug x sh flags EglCore_fields) [] = (Inr c, tr)"
  shows "\<forall>o' \<in> set (outcomes x [] tr). keeps c o'"
proof -
  let ?h = "[EglGetDisplay, EglInitialize (x [] EglGetDisplay)]"
  let ?c1 = "EglCore_fields\<lparr>mEGLDisplay :=
    if x [EglGetDisplay] (EglInitialize (x [] EglGetDisplay)) = 0 then 0 else x [] EglGetDisplay\<rparr>"
  have z: "mEGLContext ?c1 = 0" by (simp add: EglCore_fields_def)
  obtain c2 tr2 where t2: "run_state (if (flags div 2) mod 2 = 1 then try_context x sh flags 3 ?c1
        else State_Monad.return ?c1) ?h = (c2, ?h @ tr2)"
    and k2: "\<forall>o' \<in> set (outcomes x ?h tr2). keeps c2 o'"
    using maybe_context_keeps [OF assms(1)] by blast
  obtain c3 tr3 where t3: "run_state (if mEGLContext c2 = 0 then try_context x sh flags 2 c2
        else State_Monad.return c2) (?h @ tr2) = (c3, (?h @ tr2) @ tr3)"
    and k3: "\<forall>o' \<in> set (outcomes x (?h @ tr2) tr3). keeps c3 o'" and same: "mEGLContext c2 \<noteq> 0 \<Longrightarrow> c3 = c2"
    using maybe_context_keeps [OF assms(1), of "mEGLContext c2 = 0"] by blast
  have k23: "\<forall>o' \<in> set (outcomes x ?h tr2). keeps c3 o'"
  proof (cases "mEGLContext c2 = 0")
    case True
    then have "keeps c2 o' \<Longrightarrow> keeps c3 o'" for o' by (cases "fst o'") (simp_all add: keeps_def)
    then show ?thesis using k2 by blast
  next
    case False
    then show ?thesis using k2 same by simp
  qed
  let ?pt = "x (?h @ tr2 @ tr3) EglGetProcAddress"
  from assms(2) have c: "c = c3\<lparr>eglPresentationTime := ?pt\<rparr>"
    and tr: "tr = ?h @ tr2 @ tr3 @ [EglGetProcAddress, EglQueryContext (mEGLDisplay c3) (mEGLContext c3)]"
    using t2 t3 by (auto simp: EglCore_init_def Let_def split: if_splits)
  have keep: "keeps c o' = keeps c3 o'" for o' by (simp add: c keeps_def split: egl_call.splits)
  show ?thesis unfolding tr keep
    using k23 k3 by (auto simp: outcomes_append keeps_def)
qed

definition demo_egl :: "egl_call ext" where
  "demo_egl h c = (case c of EglGetDisplay \<Rightarrow> 1 | EglInitialize _ \<Rightarrow> 1 | EglChooseConfig _ _ \<Rightarrow> 5
     | EglCreateContext _ _ _ v \<Rightarrow> (if v = 3 then 0 else 9)
     | EglGetError \<Rightarrow> (if h \<noteq> [] \<and> last h = EglGetError then EGL_SUCCESS else 12294)
     | EglCreatePbufferSurface _ _ _ _ \<Rightarrow> 21 | EglCreateWindowSurface _ _ _ \<Rightarrow> 22 | _ \<Rightarrow> 1)"

theorem egl_init_keeps_every_context_witness:
  "\<exists>c tr. run_state (EglCore_init False demo_egl 0 2 EglCore_fields) [] = (Inr c, tr) \<and>
     mEGLContext c = 9 \<and> mGlVersion c = 2 \<and> (\<forall>o' \<in> set (outcomes demo_egl [] tr). keeps c o')"
proof -
  have r: "error_resets demo_egl" by (simp add: error_resets_def demo_egl_def)
  have "\<exists>c tr. run_state (EglCore_init False demo_egl 0 2 EglCore_fields) [] = (Inr c, tr) \<and>
     mEGLContext c = 9 \<and> mGlVersion c = 2"
    by (simp add: egl_defs demo_egl_def EglCore_fields_def Let_def)
  with egl_init_keeps_every_context [OF r] show ?thesis by blast
qed

text \<open>The configuration request is well formed for every flag and version: EGL reads the eight-bit
  colour channels, depth, stencil, the renderable type with the ES3 bit from version 3 on, and the
  recordable attribute exactly when the flag asks for it; the placeholder is never read as a key.\<close>

theorem config_attribs_well_formed:
  "attrib_pairs (configAttribs flags version) =
     Some ([(12324, 8), (12323, 8), (12322, 8), (12321, 8), (12325, 16), (12326, 8),
            (12352, if version \<ge> 3 then 68 else 4)] @ (if odd flags then [(12610, 1)] else []))"
  by (simp add: configAttribs_def Let_def odd_iff_mod_2_eq_one)

text \<open>A window surface is never kept: with asserts active its constructor stops the program for every
  real window, and without them the surface that EGL created is dropped, so that nothing can be made
  current or swapped, and release destroys \<open>EGL_NO_SURFACE\<close> instead of it.\<close>

lemma window_surface_never_kept:
  assumes "win \<noteq> 0"
  shows "fst (run_state (WindowSurface_ctor False x c win) h) = Inl AssertFail \<and>
    (\<exists>b. run_state (WindowSurface_ctor True x c win) h =
       (Inr (b, win), h @ [EglCreateWindowSurface (mEGLDisplay c) (mEGLConfig c) win, EglGetError]) \<and>
     mEglSurface b = 0 \<and>
     snd (run_state (WindowSurface_release x (b, win)) h') =
       h' @ [EglDestroySurface (mEGLDisplay c) 0, WindowRelease win])"
  using assms by (simp add: WindowSurface_ctor_def createWindowSurface_def EglCore_createWindowSurface_def
      EglSurfaceBase_ctor_def checkEglError_def WindowSurface_release_def releaseEglSurface_def
      EglCore_releaseSurface_def)

theorem window_surface_never_kept_witness:
  "fst (run_state (WindowSurface_ctor False demo_egl EglCore_fields 7) []) = Inl AssertFail"
  using window_surface_never_kept [of 7 demo_egl EglCore_fields "[]"] by simp

text \<open>An offscreen surface is created and released in balance: release destroys exactly the surface
  \<open>eglCreatePbufferSurface\<close> returned, and until then it is the one made current and swapped.\<close>

theorem offscreen_surface_balanced:
  "\<exists>b. run_state (OffscreenSurface ndebug x c w h) tr =
       (Inr b, tr @ [EglCreatePbufferSurface (mEGLDisplay c) (mEGLConfig c) w h, EglGetError]) \<and>
     (let s = x tr (EglCreatePbufferSurface (mEGLDisplay c) (mEGLConfig c) w h) in
      snd (run_state (surface_makeCurrent x b) tr1) = tr1 @ [EglMakeCurrent (mEGLDisplay c) s s (mEGLContext c)] \<and>
      snd (run_state (surface_swapBuffers x b) tr2) = tr2 @ [EglSwapBuffers (mEGLDisplay c) s] \<and>
      run_state (OffscreenSurface_release x b) tr3 = (EglSurfaceBase_ctor c, tr3 @ [EglDestroySurface (mEGLDisplay c) s]))"
  by (simp add: OffscreenSurface_def createOffscreenSurface_def EglCore_createOffscreenSurface_def
      EglSurfaceBase_ctor_def checkEglError_def surface_makeCurrent_def EglCore_makeCurrent_def
      surface_swapBuffers_def EglCore_swapBuffers_def OffscreenSurface_release_def releaseEglSurface_def
      EglCore_releaseSurface_def Let_def)

end
