(* ===== verification/Gl_Render.thy ===== *)
theory Gl_Render
  imports Complex_Main Native_Image
begin

text \<open>
  OpenGL ES output: the shader helpers of \<open>util/GLUtils.cpp\<close> and the renderer
  \<open>player/render/VideoGLRender.cpp\<close>, which keeps a copy of the last video picture and uploads its
  planes as textures. OpenGL is a parameter: its calls are recorded in order.
\<close>

section \<open>Calls\<close>

datatype gl_call =
    GlCreateShader int
  | GlShaderSource int string
  | GlCompileShader int
  | GlGetCompileStatus int
  | GlGetShaderLogLength int
  | GlGetShaderInfoLog int
  | GlDeleteShader int
  | GlCreateProgram
  | GlAttachShader int int
  | GlLinkProgram int
  | GlGetLinkStatus int
  | GlGetProgramLogLength int
  | GlGetProgramInfoLog int
  | GlDetachShader int int
  | GlDeleteProgram int
  | GlUseProgram int
  | GlGetError
  | GlCheckErrors                             \<comment> \<open>the loop \<open>CheckGLError\<close>\<close>
  | MallocLog int                             \<comment> \<open>\<open>malloc\<close> of a log buffer\<close>
  | GlTransformFeedbackVaryings int int
  | GlGenTextures int
  | GlGenBuffers int
  | GlGenVertexArrays int
  | GlActiveTexture int
  | GlBindTexture int
  | GlTexParameter int int
  | GlBindBuffer int int
  | GlBufferData int
  | GlBindVertexArray int
  | GlEnableVertexAttribArray int
  | GlVertexAttribPointer int int
  | GlViewport int int
  | GlClear
  | GlTexImage2D int int int plane           \<comment> \<open>bytes per pixel, width, height, data\<close>
  | GlUniformMatrix string
  | GlUniformInt string int
  | GlUniformFloat string
  | GlUniformVec2 string int int
  | GlDrawElements int

abbreviation (input) GL_VERTEX_SHADER :: int where "GL_VERTEX_SHADER \<equiv> 35633"
abbreviation (input) GL_FRAGMENT_SHADER :: int where "GL_FRAGMENT_SHADER \<equiv> 35632"
abbreviation (input) GL_TRUE :: int where "GL_TRUE \<equiv> 1"

section \<open>Shaders and programs\<close>

definition LoadShader :: "gl_call ext \<Rightarrow> int \<Rightarrow> string \<Rightarrow> (gl_call, int) io" where
  "LoadShader x shaderType pSource = do {
     shader \<leftarrow> call x (GlCreateShader shaderType);
     if shader \<noteq> 0 then do {
       emit (GlShaderSource shader pSource);
       emit (GlCompileShader shader);
       compiled \<leftarrow> call x (GlGetCompileStatus shader);
       if compiled = 0 then do {
         infoLen \<leftarrow> call x (GlGetShaderLogLength shader);
         if infoLen \<noteq> 0 then do {
           buf \<leftarrow> call x (MallocLog infoLen);
           (if buf \<noteq> 0 then emit (GlGetShaderInfoLog shader) else State_Monad.return ());
           emit (GlDeleteShader shader);
           State_Monad.return 0 }
         else State_Monad.return shader }
       else State_Monad.return shader }
     else State_Monad.return 0 }"

text \<open>\<open>CheckGLError\<close> queries until there is no error; the loop ends only if GL stops reporting one.\<close>

partial_function (option) CheckGLError :: "gl_call ext \<Rightarrow> gl_call list \<Rightarrow> gl_call list option" where
  "CheckGLError x h = (if x h GlGetError = 0 then Some (h @ [GlGetError]) else CheckGLError x (h @ [GlGetError]))"

text \<open>
  Create, attach, link and check a program; the shaders are deleted. \<open>varyings\<close> is the number of
  transform feedback varyings, if any. Result: the program and the two handles, which are reference
  parameters of the source (\<open>fs0\<close> is what the caller passed). \<open>CheckGLError\<close> only logs; its loop
  stands in the record of calls as one entry.
\<close>

definition link_program :: "gl_call ext \<Rightarrow> int option \<Rightarrow> int \<Rightarrow> int \<Rightarrow> (gl_call, int \<times> int \<times> int) io" where
  "link_program x varyings vs fs = do {
     program \<leftarrow> call x GlCreateProgram;
     if program \<noteq> 0 then do {
       emit (GlAttachShader program vs);
       emit GlCheckErrors;
       emit (GlAttachShader program fs);
       emit GlCheckErrors;
       (case varyings of None \<Rightarrow> State_Monad.return ()
        | Some n \<Rightarrow> do { emit (GlTransformFeedbackVaryings program n); emit GlCheckErrors });
       emit (GlLinkProgram program);
       linkStatus \<leftarrow> call x (GlGetLinkStatus program);
       emit (GlDetachShader program vs);
       emit (GlDeleteShader vs);
       emit (GlDetachShader program fs);
       emit (GlDeleteShader fs);
       if linkStatus \<noteq> GL_TRUE then do {
         bufLength \<leftarrow> call x (GlGetProgramLogLength program);
         (if bufLength \<noteq> 0 then do {
            buf \<leftarrow> call x (MallocLog bufLength);
            if buf \<noteq> 0 then emit (GlGetProgramInfoLog program) else State_Monad.return () }
          else State_Monad.return ());
         emit (GlDeleteProgram program);
         State_Monad.return (0, 0, 0) }
       else State_Monad.return (program, 0, 0) }
     else State_Monad.return (0, vs, fs) }"

definition create_program ::
    "gl_call ext \<Rightarrow> int option \<Rightarrow> string \<Rightarrow> string \<Rightarrow> int \<Rightarrow> (gl_call, int \<times> int \<times> int) io" where
  "create_program x varyings vsrc fsrc fs0 = do {
     vs \<leftarrow> LoadShader x GL_VERTEX_SHADER vsrc;
     if vs = 0 then State_Monad.return (0, vs, fs0)
     else do {
       fs \<leftarrow> LoadShader x GL_FRAGMENT_SHADER fsrc;
       if fs = 0 then State_Monad.return (0, vs, fs)
       else link_program x varyings vs fs } }"

definition CreateProgram :: "gl_call ext \<Rightarrow> string \<Rightarrow> string \<Rightarrow> int \<Rightarrow> (gl_call, int \<times> int \<times> int) io" where
  "CreateProgram x vsrc fsrc fs0 = create_program x None vsrc fsrc fs0"

definition CreateProgramWithFeedback ::
    "gl_call ext \<Rightarrow> string \<Rightarrow> string \<Rightarrow> int \<Rightarrow> int \<Rightarrow> (gl_call, int \<times> int \<times> int) io" where
  "CreateProgramWithFeedback x vsrc fsrc fs0 varyingCount = create_program x (Some varyingCount) vsrc fsrc fs0"

definition DeleteProgram :: "int \<Rightarrow> (gl_call, int) io" where
  "DeleteProgram program =
     (if program \<noteq> 0 then do { emit (GlUseProgram 0); emit (GlDeleteProgram program); State_Monad.return 0 }
      else State_Monad.return program)"

section \<open>The renderer\<close>

record gl_render =
  m_ProgramObj :: int
  m_TextureIds :: "int list"
  m_VaoId :: int
  m_VboIds :: "int list"
  m_RenderImage :: NativeImage
  m_FrameIndex :: int

definition VideoGLRender_ctor :: gl_render where
  "VideoGLRender_ctor = \<lparr>m_ProgramObj = 0, m_TextureIds = [0, 0, 0], m_VaoId = 0, m_VboIds = [0, 0, 0],
     m_RenderImage = NativeImage_init, m_FrameIndex = 0\<rparr>"

definition VideoGLRender_dtor :: "gl_render \<Rightarrow> bheap \<Rightarrow> (gl_render \<times> bheap) res" where
  "VideoGLRender_dtor r H = res_bind (FreeNativeImage (m_RenderImage r) H) (\<lambda>(img, H').
     Inr (r\<lparr>m_RenderImage := img\<rparr>, H'))"

text \<open>The singleton; \<open>GetInstance\<close> creates it once, \<open>ReleaseInstance\<close> deletes it.\<close>

definition GetInstance :: "gl_render option \<Rightarrow> gl_render" where
  "GetInstance s = (case s of None \<Rightarrow> VideoGLRender_ctor | Some r \<Rightarrow> r)"

definition ReleaseInstance :: "gl_render option \<Rightarrow> bheap \<Rightarrow> (gl_render option \<times> bheap) res" where
  "ReleaseInstance s H = (case s of None \<Rightarrow> Inr (None, H)
     | Some r \<Rightarrow> res_bind (VideoGLRender_dtor r H) (\<lambda>(_, H'). Inr (None, H')))"

definition VideoGLRender_Init :: "int \<Rightarrow> int \<Rightarrow> gl_render \<Rightarrow> (int \<times> int) \<times> gl_render" where
  "VideoGLRender_Init videoWidth videoHeight r = ((videoWidth, videoHeight), r\<lparr>m_FrameIndex := 0\<rparr>)"

text \<open>
  \<open>RenderVideoFrame\<close>: a new size replaces the kept image; then the picture is copied. \<open>p\<close> and
  \<open>junk\<close> serve the allocation (of which at most one takes place).
\<close>

definition RenderVideoFrame ::
    "ptr \<Rightarrow> (nat \<Rightarrow> byte) \<Rightarrow> NativeImage \<Rightarrow> gl_render \<Rightarrow> bheap \<Rightarrow> (gl_render \<times> bheap) res" where
  "RenderVideoFrame p junk img r H =
     (if ppPlane0 img = nullptr then Inr (r, H)
      else
        res_bind (if width img \<noteq> width (m_RenderImage r) \<or> height img \<noteq> height (m_RenderImage r)
          then res_bind (if ppPlane0 (m_RenderImage r) \<noteq> nullptr then FreeNativeImage (m_RenderImage r) H
                         else Inr (m_RenderImage r, H)) (\<lambda>(_, H1).
                 AllocNativeImage p junk
                   (NativeImage_init\<lparr>format := format img, width := width img, height := height img\<rparr>) H1)
          else Inr (m_RenderImage r, H)) (\<lambda>(img1, H1).
        res_bind (CopyNativeImage p junk img img1 H1) (\<lambda>(img2, H2).
          Inr (r\<lparr>m_RenderImage := img2\<rparr>, H2))))"

text \<open>One texture upload: active unit, texture, data, unbind.\<close>

definition upload :: "gl_render \<Rightarrow> nat \<Rightarrow> int \<Rightarrow> int \<Rightarrow> int \<Rightarrow> plane \<Rightarrow> gl_call list" where
  "upload r unit bpp w h data =
     [GlActiveTexture (int unit), GlBindTexture (m_TextureIds r ! unit), GlTexImage2D bpp w h data, GlBindTexture 0]"

definition upload_image :: "gl_render \<Rightarrow> gl_call list" where
  "upload_image r =
     (let img = m_RenderImage r; w = width img; h = height img in
      if format img = IMAGE_FORMAT_RGBA then upload r 0 4 w h (ppPlane0 img)
      else if format img = IMAGE_FORMAT_NV21 \<or> format img = IMAGE_FORMAT_NV12 then
        upload r 0 1 w h (ppPlane0 img) @ upload r 1 2 (w div 2) (h div 2) (ppPlane1 img)
      else if format img = IMAGE_FORMAT_I420 then
        upload r 0 1 w h (ppPlane0 img) @ upload r 1 1 (w div 2) (h div 2) (ppPlane1 img) @
        upload r 2 1 (w div 2) (h div 2) (ppPlane2 img)
      else [])"

definition sampler_calls :: "gl_render \<Rightarrow> gl_call list" where
  "sampler_calls r = concat (map (\<lambda>i. [GlActiveTexture (int i), GlBindTexture (m_TextureIds r ! i),
     GlUniformInt (''s_texture'' @ dec_nat i) (int i)]) [0..<3])"

definition OnDrawFrame :: "gl_render \<Rightarrow> gl_render \<times> gl_call list" where
  "OnDrawFrame r =
     (if m_ProgramObj r = 0 \<or> ppPlane0 (m_RenderImage r) = nullptr then (r, [GlClear])
      else (r\<lparr>m_FrameIndex := m_FrameIndex r + 1\<rparr>,
        [GlClear] @ upload_image r @ [GlUseProgram (m_ProgramObj r), GlBindVertexArray (m_VaoId r),
         GlUniformMatrix ''u_MVPMatrix''] @ sampler_calls r @
        [GlUniformFloat ''u_Offset'', GlUniformVec2 ''u_TexSize'' (width (m_RenderImage r)) (height (m_RenderImage r)),
         GlUniformInt ''u_nImgType'' (format (m_RenderImage r)), GlDrawElements 6]))"

text \<open>\<open>OnSurfaceCreated\<close>: program, textures, buffers and the vertex array; the answers of the
  generators are the first of consecutive names. The shader texts are parameters, \<open>junk\<close> is the
  uninitialised handle of the two-argument \<open>CreateProgram\<close>.\<close>

definition texture_setup :: "int \<Rightarrow> gl_call list" where
  "texture_setup t = [GlBindTexture t, GlTexParameter 10242 33071, GlTexParameter 10243 33071,
     GlTexParameter 10241 9729, GlTexParameter 10240 9729, GlBindTexture 0]"

definition OnSurfaceCreated ::
    "gl_call ext \<Rightarrow> string \<Rightarrow> string \<Rightarrow> int \<Rightarrow> gl_render \<Rightarrow> (gl_call, gl_render) io" where
  "OnSurfaceCreated x vShaderStr fShaderStr junk r = do {
     (program, _, _) \<leftarrow> CreateProgram x vShaderStr fShaderStr junk;
     let r1 = r\<lparr>m_ProgramObj := program\<rparr>;
     if program = 0 then State_Monad.return r1
     else do {
       t \<leftarrow> call x (GlGenTextures 3);
       State (\<lambda>h. ((), h @ concat (map (\<lambda>i. GlActiveTexture (int i) # texture_setup (t + int i)) [0..<3])));
       b \<leftarrow> call x (GlGenBuffers 3);
       State (\<lambda>h. ((), h @ [GlBindBuffer 34962 b, GlBufferData 48, GlBindBuffer 34962 (b + 1), GlBufferData 32,
         GlBindBuffer 34963 (b + 2), GlBufferData 12]));
       va \<leftarrow> call x (GlGenVertexArrays 1);
       State (\<lambda>h. ((), h @ [GlBindVertexArray va, GlBindBuffer 34962 b, GlEnableVertexAttribArray 0,
         GlVertexAttribPointer 0 3, GlBindBuffer 34962 0, GlBindBuffer 34962 (b + 1), GlEnableVertexAttribArray 1,
         GlVertexAttribPointer 1 2, GlBindBuffer 34962 0, GlBindBuffer 34963 (b + 2), GlBindVertexArray 0]));
       State_Monad.return (r1\<lparr>m_TextureIds := [t, t + 1, t + 2], m_VboIds := [b, b + 1, b + 2], m_VaoId := va\<rparr>) } }"

text \<open>
  \<open>UpdateMVPMatrix(TransformMatrix *)\<close>: the scale factors and the rotation angle, in degrees where
  the source has radians. The matrix product itself is glm's.
\<close>

record TransformMatrix =
  degree :: int
  mirror :: int
  translateX :: rat
  translateY :: rat
  scaleX :: rat
  scaleY :: rat
  angleX :: int
  angleY :: int

definition TransformMatrix_ctor :: TransformMatrix where
  "TransformMatrix_ctor = \<lparr>degree = 0, mirror = 0, translateX = 0, translateY = 0, scaleX = 1, scaleY = 1,
     angleX = 0, angleY = 0\<rparr>"

definition TransformMatrix_Reset :: "TransformMatrix \<Rightarrow> TransformMatrix" where
  "TransformMatrix_Reset m = m\<lparr>translateX := 0, translateY := 0, scaleX := 1, scaleY := 1, degree := 0, mirror := 0\<rparr>"

definition model_scale :: "TransformMatrix \<Rightarrow> rat \<times> rat" where
  "model_scale m =
     ((if mirror m = 1 then - 1 else 1) * scaleX m,
      (if mirror m \<noteq> 1 \<and> mirror m = 2 then - 1 else 1) * scaleY m)"

definition rotate_degrees :: "TransformMatrix \<Rightarrow> int" where
  "rotate_degrees m =
     (if mirror m = 0 then
        (if degree m = 270 then 90 else if degree m = 180 then 180 else if degree m = 90 then 270 else degree m)
      else if mirror m = 1 then
        (if degree m = 90 then 90 else if degree m = 180 then 180 else if degree m = 270 then 270 else degree m)
      else degree m)"

section \<open>Programs\<close>

definition shaders_created :: "gl_call list \<Rightarrow> gl_call list" where
  "shaders_created cs = filter (\<lambda>c. case c of GlCreateShader _ \<Rightarrow> True | _ \<Rightarrow> False) cs"

definition objects_deleted :: "gl_call list \<Rightarrow> gl_call list" where
  "objects_deleted cs = filter (\<lambda>c. case c of GlDeleteShader _ \<Rightarrow> True | GlDeleteProgram _ \<Rightarrow> True | _ \<Rightarrow> False) cs"

lemmas gl_trace_simps = shaders_created_def objects_deleted_def

lemma LoadShader_trace:
  assumes "run_state (LoadShader x ty src) h = (s, h')"
  shows "\<exists>t. h' = h @ t \<and> shaders_created t = [GlCreateShader ty] \<and>
    (if s = 0 then (x h (GlCreateShader ty) = 0 \<and> objects_deleted t = []) \<or>
                   (x h (GlCreateShader ty) \<noteq> 0 \<and> objects_deleted t = [GlDeleteShader (x h (GlCreateShader ty))])
     else s = x h (GlCreateShader ty) \<and> objects_deleted t = [])"
  using assms by (auto simp: LoadShader_def gl_trace_simps Let_def split: if_splits prod.splits)

text \<open>Among the calls \<open>t\<close> made after \<open>h\<close>, one is \<open>c\<close> and its answer is \<open>v\<close>.\<close>

fun answered :: "gl_call ext \<Rightarrow> gl_call list \<Rightarrow> gl_call list \<Rightarrow> gl_call \<Rightarrow> int \<Rightarrow> bool" where
  "answered x h [] c v \<longleftrightarrow> False"
| "answered x h (d # t) c v \<longleftrightarrow> (d = c \<and> x h c = v) \<or> answered x (h @ [d]) t c v"

lemma answered_append: "answered x h (a @ b) c v \<longleftrightarrow> answered x h a c v \<or> answered x (h @ a) b c v"
  by (induction a arbitrary: h) auto

lemma link_program_trace:
  assumes "run_state (link_program x v vs fs) h = ((program, vs', fs'), h')"
  shows "\<exists>t. h' = h @ t \<and> shaders_created t = [] \<and>
    (if program \<noteq> 0 then vs' = 0 \<and> fs' = 0 \<and> objects_deleted t = [GlDeleteShader vs, GlDeleteShader fs] \<and>
       answered x h t (GlGetLinkStatus program) GL_TRUE
     else (vs' = vs \<and> fs' = fs \<and> objects_deleted t = [] \<and> x h GlCreateProgram = 0) \<or>
       (vs' = 0 \<and> fs' = 0 \<and> x h GlCreateProgram \<noteq> 0 \<and>
        objects_deleted t = [GlDeleteShader vs, GlDeleteShader fs, GlDeleteProgram (x h GlCreateProgram)]))"
  using assms
  by (cases v; auto simp: link_program_def gl_trace_simps Let_def split: if_splits)

lemma gl_trace_append [simp]:
  "shaders_created (a @ b) = shaders_created a @ shaders_created b"
  "objects_deleted (a @ b) = objects_deleted a @ objects_deleted b"
  by (simp_all add: gl_trace_simps)

text \<open>A program that \<open>CreateProgram\<close> returns was reported as linked by GL, both of its shaders were
  created and afterwards deleted exactly once, the program itself was not deleted, and the handles
  are cleared. When no program is returned although both shaders were made and GL gave a program
  name, the program is deleted too.\<close>

lemma create_program_objects:
  assumes "run_state (CreateProgram x vsrc fsrc fs0) h = ((program, vs', fs'), h')"
  shows "\<exists>t. h' = h @ t \<and>
    (if program \<noteq> 0 then
       vs' = 0 \<and> fs' = 0 \<and> shaders_created t = [GlCreateShader GL_VERTEX_SHADER, GlCreateShader GL_FRAGMENT_SHADER] \<and>
       answered x h t (GlGetLinkStatus program) GL_TRUE \<and>
       (\<exists>f. f \<noteq> 0 \<and> objects_deleted t = [GlDeleteShader (x h (GlCreateShader GL_VERTEX_SHADER)), GlDeleteShader f])
     else vs' \<noteq> 0 \<or> objects_deleted t = [] \<or> (\<exists>v. objects_deleted t = [GlDeleteShader v]) \<or>
       (\<exists>v f p. p \<noteq> 0 \<and> objects_deleted t = [GlDeleteShader v, GlDeleteShader f, GlDeleteProgram p]))"
proof -
  obtain vs h1 where v: "run_state (LoadShader x GL_VERTEX_SHADER vsrc) h = (vs, h1)" by fastforce
  from LoadShader_trace [OF v] obtain t1 where t1: "h1 = h @ t1"
    "shaders_created t1 = [GlCreateShader GL_VERTEX_SHADER]"
    "vs \<noteq> 0 \<Longrightarrow> vs = x h (GlCreateShader GL_VERTEX_SHADER) \<and> objects_deleted t1 = []"
    "vs = 0 \<Longrightarrow> objects_deleted t1 = [] \<or> (\<exists>v. objects_deleted t1 = [GlDeleteShader v])" by (auto split: if_splits)
  show ?thesis
  proof (cases "vs = 0")
    case True
    then show ?thesis using assms v t1 by (auto simp: CreateProgram_def create_program_def)
  next
    case vs: False
    obtain fs h2 where f: "run_state (LoadShader x GL_FRAGMENT_SHADER fsrc) h1 = (fs, h2)" by fastforce
    from LoadShader_trace [OF f] obtain t2 where t2: "h2 = h1 @ t2"
      "shaders_created t2 = [GlCreateShader GL_FRAGMENT_SHADER]" "fs \<noteq> 0 \<Longrightarrow> objects_deleted t2 = []"
      by (auto split: if_splits)
    show ?thesis
    proof (cases "fs = 0")
      case True
      then show ?thesis using assms v f t1 t2 vs by (auto simp: CreateProgram_def create_program_def)
    next
      case fs: False
      then have "run_state (link_program x None vs fs) h2 = ((program, vs', fs'), h')"
        using assms v f vs by (simp add: CreateProgram_def create_program_def)
      from link_program_trace [OF this] obtain t3 where t3: "h' = h2 @ t3" "shaders_created t3 = []"
        "if program \<noteq> 0 then vs' = 0 \<and> fs' = 0 \<and> objects_deleted t3 = [GlDeleteShader vs, GlDeleteShader fs] \<and>
           answered x h2 t3 (GlGetLinkStatus program) GL_TRUE
         else (vs' = vs \<and> fs' = fs \<and> objects_deleted t3 = [] \<and> x h2 GlCreateProgram = 0) \<or>
           (vs' = 0 \<and> fs' = 0 \<and> x h2 GlCreateProgram \<noteq> 0 \<and>
            objects_deleted t3 = [GlDeleteShader vs, GlDeleteShader fs, GlDeleteProgram (x h2 GlCreateProgram)])"
        by blast
      then show ?thesis using t1 t2 vs fs
        by (intro exI [of _ "t1 @ t2 @ t3"]) (auto simp: answered_append split: if_splits)
    qed
  qed
qed

text \<open>The failing branch of the fragment shader: the compiled vertex shader is never deleted.\<close>

definition demo_gl :: "gl_call ext" where
  "demo_gl h c = (case c of GlCreateShader ty \<Rightarrow> (if ty = GL_VERTEX_SHADER then 1 else 2)
     | GlGetCompileStatus s \<Rightarrow> 1 | GlCreateProgram \<Rightarrow> 3 | GlGetLinkStatus p \<Rightarrow> 1 | GlGenTextures n \<Rightarrow> 10
     | GlGenBuffers n \<Rightarrow> 20 | GlGenVertexArrays n \<Rightarrow> 30 | _ \<Rightarrow> 0)"

definition broken_fragment :: "gl_call ext" where
  "broken_fragment h c = (case c of GlGetCompileStatus s \<Rightarrow> (if s = 2 then 0 else 1) | GlGetShaderLogLength s \<Rightarrow> 5
     | _ \<Rightarrow> demo_gl h c)"

lemma fragment_failure_leaks_vertex_shader:
  "fst (run_state (CreateProgram broken_fragment [] [] 0) []) = (0, 1, 0) \<and>
   objects_deleted (snd (run_state (CreateProgram broken_fragment [] [] 0) [])) = [GlDeleteShader 2]"
  by (simp add: CreateProgram_def create_program_def LoadShader_def broken_fragment_def demo_gl_def objects_deleted_def)

theorem create_program_objects_witness:
  "\<exists>h'. run_state (CreateProgram demo_gl ''v'' ''f'' 0) [] = ((3, 0, 0), h') \<and>
     objects_deleted h' = [GlDeleteShader 1, GlDeleteShader 2] \<and>
     answered demo_gl [] h' (GlGetLinkStatus 3) 1"
proof -
  obtain h' where run: "run_state (CreateProgram demo_gl ''v'' ''f'' 0) [] = ((3, 0, 0), h')"
    "objects_deleted h' = [GlDeleteShader 1, GlDeleteShader 2]"
    by (simp add: CreateProgram_def create_program_def LoadShader_def link_program_def demo_gl_def objects_deleted_def)
  from create_program_objects [OF run(1)] run show ?thesis by auto
qed

section \<open>The kept picture\<close>

text \<open>A source stays readable, with the same pixels, in a heap that agrees on its planes.\<close>

definition same_planes :: "bheap \<Rightarrow> bheap \<Rightarrow> NativeImage \<Rightarrow> bool" where
  "same_planes H H' src \<longleftrightarrow> (\<forall>k. has_plane (format src) k \<longrightarrow> H' (fst (plane_of src k)) = H (fst (plane_of src k)))"

lemma readable_same_planes: "same_planes H H' src \<Longrightarrow> readable H src \<Longrightarrow> readable H' src"
  unfolding same_planes_def readable_def by metis

lemma same_pixels_same_planes:
  assumes "same_planes H H1 src" and "same_pixels H' dst H1 src" and "valid_format (format src)"
  shows "same_pixels H' dst H src"
proof -
  have "pix H1 src k i j = pix H src k i j"
    if "0 \<le> i" "i < plane_rows (format src) (height src) k" "0 \<le> j" "j < plane_cols (format src) (width src) k" for k i j
  proof -
    have "has_plane (format src) k"
      using that assms(3) by (auto simp: plane_defs valid_format_def split: if_splits)
    then show ?thesis using assms(1) by (simp add: same_planes_def pix_def)
  qed
  then show ?thesis using assms(2) by (auto simp: same_pixels_def)
qed

text \<open>What \<open>m_RenderImage\<close> holds between calls: nothing, or an image as \<open>AllocNativeImage\<close> makes it.\<close>

definition kept_ok :: "bheap \<Rightarrow> NativeImage \<Rightarrow> bool" where
  "kept_ok H img \<longleftrightarrow> ppPlane0 img = nullptr \<and> width img = 0 \<and> height img = 0 \<or> allocated H img"

definition kept_block :: "NativeImage \<Rightarrow> ptr set" where
  "kept_block img = (if ppPlane0 img = nullptr then {} else {fst (ppPlane0 img)})"

lemma allocated_update:
  "allocated H img \<Longrightarrow> int (length D) = image_bytes (format img) (width img) (height img) \<Longrightarrow>
     allocated (H(fst (ppPlane0 img) \<mapsto> D)) img"
  by (auto simp: allocated_def)

lemma allocated_block: "allocated H img \<Longrightarrow> kept_block img = {fst (ppPlane0 img)} \<and> fst (ppPlane0 img) \<in> dom H"
  by (auto simp: allocated_def kept_block_def)

text \<open>Replacing the kept image: the old block is freed, a new one of the right layout takes its place.\<close>

lemma replace_kept_image:
  assumes "kept_ok H old" and "valid_size w h" and "valid_format f" and "p \<noteq> null" and "H p = None"
  shows "\<exists>img' H2. res_bind (if ppPlane0 old \<noteq> nullptr then FreeNativeImage old H else Inr (old, H)) (\<lambda>(_, H1).
      AllocNativeImage p junk (NativeImage_init\<lparr>format := f, width := w, height := h\<rparr>) H1) = Inr (img', H2) \<and>
    allocated H2 img' \<and> format img' = f \<and> width img' = w \<and> height img' = h \<and> fst (ppPlane0 img') = p \<and>
    (\<forall>b. b \<noteq> p \<longrightarrow> H2 b = (if b \<in> kept_block old then None else H b))"
proof -
  define H1 where "H1 = (\<lambda>b. if b \<in> kept_block old then None else H b)"
  have "\<exists>o1. (if ppPlane0 old \<noteq> nullptr then FreeNativeImage old H else Inr (old, H)) = Inr (o1, H1)"
    using assms(1) by (auto simp: kept_ok_def allocated_def FreeNativeImage_def H1_def kept_block_def fun_eq_iff)
  moreover from AllocNativeImage_ok [of "NativeImage_init\<lparr>format := f, width := w, height := h\<rparr>" p junk H1]
  obtain img' H2 where "AllocNativeImage p junk (NativeImage_init\<lparr>format := f, width := w, height := h\<rparr>) H1 = Inr (img', H2)"
    "allocated H2 img'" "format img' = f" "width img' = w" "height img' = h" "fst (ppPlane0 img') = p"
    "\<forall>b. b \<noteq> p \<longrightarrow> H2 b = H1 b" using assms by auto
  ultimately show ?thesis by (auto simp: H1_def)
qed

lemma copy_into_kept:
  assumes "valid_size (width img) (height img)" and "valid_format (format img)" and "ppPlane0 img \<noteq> nullptr"
    and "readable H img" and "same_planes H H1 img" and "allocated H1 kept"
    and "\<forall>k. has_plane (format img) k \<longrightarrow> fst (plane_of img k) \<noteq> fst (ppPlane0 kept)"
    and "format kept = format img" and "width kept = width img" and "height kept = height img"
  shows "\<exists>H'. CopyNativeImage p junk img kept H1 = Inr (kept, H') \<and> allocated H' kept \<and> same_pixels H' kept H img \<and>
    dom H' = dom H1"
proof -
  have "copy_source H1 (fst (ppPlane0 kept)) img"
    using assms(3,7) readable_same_planes [OF assms(5,4)] by (simp add: copy_source_def)
  from CopyNativeImage_ok [OF assms(1,2,6) this assms(8-10), of p junk] obtain D where
    D: "CopyNativeImage p junk img kept H1 = Inr (kept, H1(fst (ppPlane0 kept) \<mapsto> D))"
      "int (length D) = image_bytes (format kept) (width kept) (height kept)"
      "same_pixels (H1(fst (ppPlane0 kept) \<mapsto> D)) kept H1 img" by blast
  have "dom (H1(fst (ppPlane0 kept) \<mapsto> D)) = dom H1" using allocated_block [OF assms(6)] by auto
  then show ?thesis
    using D allocated_update [OF assms(6) D(2)] same_pixels_same_planes [OF assms(5) D(3) assms(2)] by auto
qed

text \<open>A picture of another size replaces the kept image.\<close>

lemma gl_render_other_size:
  assumes "valid_size (width img) (height img)" and "valid_format (format img)" and "ppPlane0 img \<noteq> nullptr"
    and "readable H img" and "kept_ok H (m_RenderImage r)"
    and "\<forall>k. has_plane (format img) k \<longrightarrow> fst (plane_of img k) \<notin> kept_block (m_RenderImage r)"
    and "p \<noteq> null" and "H p = None"
    and "width img \<noteq> width (m_RenderImage r) \<or> height img \<noteq> height (m_RenderImage r)"
  shows "\<exists>kept H'. RenderVideoFrame p junk img r H = Inr (r\<lparr>m_RenderImage := kept\<rparr>, H') \<and>
    allocated H' kept \<and> same_pixels H' kept H img \<and>
    width kept = width img \<and> height kept = height img \<and> format kept = format img \<and>
    dom H' = dom H - kept_block (m_RenderImage r) \<union> kept_block kept"
proof -
  from replace_kept_image [OF assms(5,1,2,7,8), of junk] obtain kept H2 where
    k: "res_bind (if ppPlane0 (m_RenderImage r) \<noteq> nullptr then FreeNativeImage (m_RenderImage r) H
        else Inr (m_RenderImage r, H)) (\<lambda>(_, H1). AllocNativeImage p junk
        (NativeImage_init\<lparr>format := format img, width := width img, height := height img\<rparr>) H1) = Inr (kept, H2)"
      "allocated H2 kept" "format kept = format img" "width kept = width img" "height kept = height img"
      "fst (ppPlane0 kept) = p" "\<And>b. b \<noteq> p \<Longrightarrow> H2 b = (if b \<in> kept_block (m_RenderImage r) then None else H b)"
    by blast
  have np: "fst (plane_of img k) \<noteq> p" if "has_plane (format img) k" for k
    using assms(4,8) that by (force simp: readable_def)
  then have "same_planes H H2 img" using assms(6) k(7) by (simp add: same_planes_def)
  from copy_into_kept [OF assms(1-4) this k(2) _ k(3-5), of p junk] np k(6) obtain H' where
    H': "CopyNativeImage p junk img kept H2 = Inr (kept, H')" "allocated H' kept" "same_pixels H' kept H img"
      "dom H' = dom H2" by blast
  have "kept_block kept = {p}" "p \<in> dom H2" using allocated_block [OF k(2)] k(6) by auto
  moreover have "b \<in> dom H2 \<longleftrightarrow> b \<in> dom H - kept_block (m_RenderImage r)" if "b \<noteq> p" for b
    using k(7) [OF that] by (auto simp: dom_def)
  moreover have "p \<notin> dom H" using assms(8) by auto
  ultimately have "b \<in> dom H2 \<longleftrightarrow> b \<in> dom H - kept_block (m_RenderImage r) \<union> kept_block kept" for b
    by (cases "b = p") auto
  then have "dom H2 = dom H - kept_block (m_RenderImage r) \<union> kept_block kept" by blast
  moreover have "RenderVideoFrame p junk img r H = Inr (r\<lparr>m_RenderImage := kept\<rparr>, H')"
    using assms(3,9) k(1) H'(1) by (simp add: RenderVideoFrame_def)
  ultimately show ?thesis using H'(2-4) k(3-5) by (intro exI [of _ kept] exI [of _ H']) simp
qed

text \<open>A picture of the kept size and format is copied into the kept image.\<close>

lemma gl_render_same_size:
  assumes "valid_size (width img) (height img)" and "valid_format (format img)" and "ppPlane0 img \<noteq> nullptr"
    and "readable H img" and "kept_ok H (m_RenderImage r)"
    and "\<forall>k. has_plane (format img) k \<longrightarrow> fst (plane_of img k) \<notin> kept_block (m_RenderImage r)"
    and "p \<noteq> null" and "H p = None"
    and same: "width img = width (m_RenderImage r)" "height img = height (m_RenderImage r)"
      "format img = format (m_RenderImage r)"
  shows "\<exists>kept H'. RenderVideoFrame p junk img r H = Inr (r\<lparr>m_RenderImage := kept\<rparr>, H') \<and>
    allocated H' kept \<and> same_pixels H' kept H img \<and>
    width kept = width img \<and> height kept = height img \<and> format kept = format img \<and>
    dom H' = dom H - kept_block (m_RenderImage r) \<union> kept_block kept"
proof -
  have al: "allocated H (m_RenderImage r)"
    using assms(5) same valid_size_bounds [OF assms(1)] by (auto simp: kept_ok_def)
  note blk = allocated_block [OF al]
  have eq: "format (m_RenderImage r) = format img" "width (m_RenderImage r) = width img"
    "height (m_RenderImage r) = height img" using same by simp_all
  have sp: "same_planes H H img" by (simp add: same_planes_def)
  have np: "\<forall>k. has_plane (format img) k \<longrightarrow> fst (plane_of img k) \<noteq> fst (ppPlane0 (m_RenderImage r))"
    using assms(6) blk by blast
  from copy_into_kept [OF assms(1-4) sp al np eq, of p junk] obtain H' where
    H': "CopyNativeImage p junk img (m_RenderImage r) H = Inr (m_RenderImage r, H')" "allocated H' (m_RenderImage r)"
      "same_pixels H' (m_RenderImage r) H img" "dom H' = dom H" by blast
  have "RenderVideoFrame p junk img r H = Inr (r\<lparr>m_RenderImage := m_RenderImage r\<rparr>, H')"
    using same assms(3) H'(1) by (simp add: RenderVideoFrame_def)
  moreover have "dom H - kept_block (m_RenderImage r) \<union> kept_block (m_RenderImage r) = dom H" using blk by auto
  ultimately show ?thesis using H'(2-4) same
    by (intro exI [of _ "m_RenderImage r"] exI [of _ H']) simp
qed

text \<open>A picture of the kept size in another format is dropped: the screen keeps showing the old one.\<close>

lemma format_change_ignored:
  assumes "width img = width (m_RenderImage r)" and "height img = height (m_RenderImage r)"
    and "format img \<noteq> format (m_RenderImage r)"
  shows "RenderVideoFrame p junk img r H = Inr (r, H)"
  using assms by (simp add: RenderVideoFrame_def CopyNativeImage_def)

text \<open>C29: What \<open>RenderVideoFrame\<close> makes of a readable picture. One that has the size of the kept image but
  another format is dropped, and nothing changes. Every other picture is kept: the call succeeds,
  the kept image has the size and format of the picture, the layout of \<open>AllocNativeImage\<close> and the
  pixels of the picture, and no block leaks: the blocks afterwards are those before, with the block
  of the old image replaced by that of the new one.\<close>

theorem gl_render_keeps_picture:
  assumes "valid_size (width img) (height img)" and "valid_format (format img)" and "ppPlane0 img \<noteq> nullptr"
    and "readable H img" and "kept_ok H (m_RenderImage r)"
    and "\<forall>k. has_plane (format img) k \<longrightarrow> fst (plane_of img k) \<notin> kept_block (m_RenderImage r)"
    and "p \<noteq> null" and "H p = None"
  shows "if width img = width (m_RenderImage r) \<and> height img = height (m_RenderImage r) \<and>
      format img \<noteq> format (m_RenderImage r)
    then RenderVideoFrame p junk img r H = Inr (r, H)
    else \<exists>kept H'. RenderVideoFrame p junk img r H = Inr (r\<lparr>m_RenderImage := kept\<rparr>, H') \<and>
      allocated H' kept \<and> same_pixels H' kept H img \<and>
      width kept = width img \<and> height kept = height img \<and> format kept = format img \<and>
      dom H' = dom H - kept_block (m_RenderImage r) \<union> kept_block kept"
  unfolding if_bool_eq_conj
  using format_change_ignored [of img r p junk H] gl_render_other_size [OF assms, of junk]
    gl_render_same_size [OF assms, of junk] by blast

theorem gl_render_keeps_picture_witness:
  "\<exists>kept H'. RenderVideoFrame 7 (\<lambda>_. 0) demo_src VideoGLRender_ctor demo_heap =
       Inr (VideoGLRender_ctor\<lparr>m_RenderImage := kept\<rparr>, H') \<and>
     same_pixels H' kept demo_heap demo_src \<and> dom H' = {1, 2, 3, 7, 9}"
proof -
  have "readable demo_heap demo_src"
    by (auto simp: readable_def demo_src_def demo_heap_def plane_defs)
  moreover have "valid_size (width demo_src) (height demo_src)" "valid_format (format demo_src)"
    "kept_ok demo_heap (m_RenderImage VideoGLRender_ctor)" "kept_block (m_RenderImage VideoGLRender_ctor) = {}"
    "ppPlane0 demo_src \<noteq> nullptr" "demo_heap 7 = None"
    by (simp_all add: demo_src_def demo_heap_def valid_size_def valid_format_def kept_ok_def kept_block_def
        VideoGLRender_ctor_def NativeImage_init_def)
  moreover have "width demo_src \<noteq> width (m_RenderImage VideoGLRender_ctor)"
    by (simp add: demo_src_def VideoGLRender_ctor_def NativeImage_init_def)
  ultimately obtain kept H' where *: "RenderVideoFrame 7 (\<lambda>_. 0) demo_src VideoGLRender_ctor demo_heap =
       Inr (VideoGLRender_ctor\<lparr>m_RenderImage := kept\<rparr>, H')" "same_pixels H' kept demo_heap demo_src"
     "dom H' = dom demo_heap \<union> kept_block kept"
    using gl_render_keeps_picture [of demo_src demo_heap VideoGLRender_ctor 7 "\<lambda>_. 0"] by auto
  then have "kept_block kept = {7}"
    by (auto simp: RenderVideoFrame_def VideoGLRender_ctor_def demo_src_def NativeImage_init_def AllocNativeImage_def
        res_simps kept_block_def c_mul_def CopyNativeImage_def)
  with * show ?thesis by (auto simp: demo_heap_def)
qed

section \<open>Texture uploads\<close>

text \<open>
  The bytes \<open>glTexImage2D\<close> reads: rows start at multiples of \<open>GL_UNPACK_ALIGNMENT\<close>, which is 4
  unless set, and the source never sets it.
\<close>

definition unpack_bytes :: "int \<Rightarrow> int \<Rightarrow> int \<Rightarrow> int" where
  "unpack_bytes bpp w h = (if h = 0 then 0 else (h - 1) * ((bpp * w + 3) div 4 * 4) + bpp * w)"

definition upload_in_bounds :: "bheap \<Rightarrow> gl_call \<Rightarrow> bool" where
  "upload_in_bounds H c = (case c of GlTexImage2D bpp w h d \<Rightarrow>
       (case H (fst d) of None \<Rightarrow> False
        | Some D \<Rightarrow> 0 \<le> snd d \<and> snd d + unpack_bytes bpp w h \<le> int (length D)) | _ \<Rightarrow> True)"

definition rows_aligned :: "int \<Rightarrow> int \<Rightarrow> bool" where
  "rows_aligned f w \<longleftrightarrow> f = IMAGE_FORMAT_RGBA \<or> f = IMAGE_FORMAT_I420 \<and> 8 dvd w \<or> f \<noteq> IMAGE_FORMAT_I420 \<and> 4 dvd w"

lemma unpack_bytes_aligned: "4 dvd bpp * w \<Longrightarrow> 0 \<le> h \<Longrightarrow> unpack_bytes bpp w h = bpp * w * h"
  by (auto simp: unpack_bytes_def algebra_simps elim!: dvdE)

lemma upload_calls_in_bounds:
  assumes "H b = Some D" and "0 \<le> d" and "d + unpack_bytes bpp w h \<le> int (length D)"
  shows "\<forall>c\<in>set (upload r unit bpp w h (b, d)). upload_in_bounds H c"
  using assms by (simp add: upload_def upload_in_bounds_def)

lemma upload_image_in_bounds:
  assumes "valid_size (width img) (height img)" and "valid_format (format img)" and "allocated H img"
    and "rows_aligned (format img) (width img)" and img: "m_RenderImage r = img"
  shows "\<forall>c\<in>set (upload_image r). upload_in_bounds H c"
proof -
  let ?w = "width img" and ?h = "height img"
  note wh = valid_size_bounds [OF assms(1)]
  note ch = chroma_layout [OF wh(1,2)]
  obtain b D where b: "H b = Some D" "int (length D) = image_bytes (format img) ?w ?h"
    "ppPlane0 img = (b, 0)" "format img \<noteq> 1 \<Longrightarrow> ppPlane1 img = (b, ?w * ?h)"
    "format img = 4 \<Longrightarrow> ppPlane2 img = (b, ?w * ?h + (?w div 2) * (?h div 2))"
    using assms(3) by (auto simp: allocated_def)
  consider "format img = 1" | "format img = 2 \<or> format img = 3" "4 dvd ?w" | "format img = 4" "8 dvd ?w"
    using assms(2,4) by (auto simp: valid_format_def rows_aligned_def)
  then show ?thesis
  proof cases
    case 1
    then have "unpack_bytes 4 ?w ?h \<le> int (length D)"
      using b(2) wh by (simp add: unpack_bytes_aligned image_bytes_def)
    then show ?thesis using 1 img upload_calls_in_bounds [of H b D 0] b(1,3) by (simp add: upload_image_def)
  next
    case 2
    then have "2 * (?w div 2) = ?w" by presburger
    then have "unpack_bytes 1 ?w ?h = ?w * ?h" "unpack_bytes 2 (?w div 2) (?h div 2) = ?w * (?h div 2)"
      using 2(2) wh by (simp_all add: unpack_bytes_aligned)
    moreover have "int (length D) = ?w * ?h * 3 div 2" "format img \<noteq> 1" "format img \<noteq> 4"
      using b(2) 2(1) by (auto simp: image_bytes_def)
    ultimately have "\<forall>c\<in>set (upload r 0 1 ?w ?h (ppPlane0 img)). upload_in_bounds H c"
      "\<forall>c\<in>set (upload r 1 2 (?w div 2) (?h div 2) (ppPlane1 img)). upload_in_bounds H c"
      unfolding b(3) b(4) [OF \<open>format img \<noteq> 1\<close>] using b(1) ch(7,8) wh(3) by (intro upload_calls_in_bounds [of H b D]; (assumption | linarith))+
    then show ?thesis using 2(1) img by (auto simp: upload_image_def Let_def)
  next
    case 3
    then have "4 dvd ?w div 2" "4 dvd ?w" by presburger+
    then have "unpack_bytes 1 ?w ?h = ?w * ?h" "unpack_bytes 1 (?w div 2) (?h div 2) = (?w div 2) * (?h div 2)"
      using wh by (simp_all add: unpack_bytes_aligned)
    moreover have "int (length D) = ?w * ?h * 3 div 2" "format img \<noteq> 1" using b(2) 3(1) by (auto simp: image_bytes_def)
    ultimately have "\<forall>c\<in>set (upload r 0 1 ?w ?h (ppPlane0 img)). upload_in_bounds H c"
      "\<forall>c\<in>set (upload r 1 1 (?w div 2) (?h div 2) (ppPlane1 img)). upload_in_bounds H c"
      "\<forall>c\<in>set (upload r 2 1 (?w div 2) (?h div 2) (ppPlane2 img)). upload_in_bounds H c"
      unfolding b(3) b(4) [OF \<open>format img \<noteq> 1\<close>] b(5) [OF 3(1)] using b(1) ch(1-6) wh(3)
      by (intro upload_calls_in_bounds [of H b D]; (assumption | linarith))+
    then show ?thesis using 3(1) img by (auto simp: upload_image_def Let_def)
  qed
qed

text \<open>C30: Every texture upload of \<open>OnDrawFrame\<close> stays inside the block of the kept image when the rows of
  its planes are multiples of four bytes (RGBA always; NV12 and NV21 when the width is a multiple
  of 4, I420 of 8), and the unit, texture and plane order is that of the samplers.\<close>

theorem texture_uploads_in_bounds:
  assumes "valid_size (width (m_RenderImage r)) (height (m_RenderImage r))"
    and "valid_format (format (m_RenderImage r))" and "allocated H (m_RenderImage r)"
    and "rows_aligned (format (m_RenderImage r)) (width (m_RenderImage r))"
  shows "\<forall>c\<in>set (snd (OnDrawFrame r)). upload_in_bounds H c"
proof -
  have "upload_in_bounds H c" if "c \<in> set (sampler_calls r)" for c
    using that by (auto simp: sampler_calls_def upload_in_bounds_def)
  then show ?thesis using upload_image_in_bounds [OF assms refl]
    by (auto simp: OnDrawFrame_def upload_in_bounds_def split: if_splits)
qed

definition demo_render :: "int \<Rightarrow> gl_render" where
  "demo_render w = VideoGLRender_ctor\<lparr>m_ProgramObj := 3, m_RenderImage :=
     \<lparr>width = w, height = 2, format = 4, ppPlane0 = (9, 0), ppPlane1 = (9, w * 2), ppPlane2 = (9, w * 2 + w div 2),
      pLineSize0 = w, pLineSize1 = w div 2, pLineSize2 = w div 2\<rparr>\<rparr>"

theorem texture_uploads_in_bounds_witness:
  "GlTexImage2D 1 4 1 (9, 20) \<in> set (snd (OnDrawFrame (demo_render 8))) \<and>
   upload_in_bounds [9 \<mapsto> replicate 24 0] (GlTexImage2D 1 4 1 (9, 20))"
proof -
  have "valid_size (width (m_RenderImage (demo_render 8))) (height (m_RenderImage (demo_render 8)))"
    "valid_format (format (m_RenderImage (demo_render 8)))" "allocated [9 \<mapsto> replicate 24 0] (m_RenderImage (demo_render 8))"
    "rows_aligned (format (m_RenderImage (demo_render 8))) (width (m_RenderImage (demo_render 8)))"
    by (simp_all add: demo_render_def valid_size_def valid_format_def allocated_def image_bytes_def plane_cols_def
        rows_aligned_def)
  moreover have "GlTexImage2D 1 4 1 (9, 20) \<in> set (snd (OnDrawFrame (demo_render 8)))"
    by (simp add: OnDrawFrame_def upload_image_def upload_def demo_render_def)
  ultimately show ?thesis using texture_uploads_in_bounds by blast
qed

text \<open>Without the alignment an upload reads past the block: a 4:2:0 picture of width 6 and height 4
  makes GL read rows of 8 bytes from 6-byte rows.\<close>

lemma unaligned_upload_overreads:
  "\<not> upload_in_bounds [9 \<mapsto> replicate 9 0] (GlTexImage2D 1 3 2 (9, 3))"
  by (simp add: upload_in_bounds_def unpack_bytes_def)

end
