(* ===== verification/Convert_UTF.thy ===== *)
theory Convert_UTF
  imports Prelude
begin

text \<open>
  The Unicode conversions of the crash reporter (\<open>breakpad/src/common/convert_UTF.cc\<close>). A source range
  \<open>[*sourceStart, sourceEnd)\<close> is the list of its units and the target range is its room; a conversion
  returns its result, the unread rest of the source (the new \<open>*sourceStart\<close>) and the units it wrote.
  The target of the build is 32-bit ARM, where \<open>unsigned long\<close>, the type of \<open>UTF32\<close>, has 32 bits.
\<close>

unbundle bit_operations_syntax

section \<open>Types and constants\<close>

type_synonym UTF32 = "32 word"
type_synonym UTF16 = "16 word"
type_synonym UTF8 = "8 word"

datatype ConversionResult = conversionOK | sourceExhausted | targetExhausted | sourceIllegal

datatype ConversionFlags = strictConversion | lenientConversion

abbreviation (input) UNI_REPLACEMENT_CHAR :: UTF32 where "UNI_REPLACEMENT_CHAR \<equiv> 0xFFFD"
abbreviation (input) UNI_MAX_BMP :: UTF32 where "UNI_MAX_BMP \<equiv> 0xFFFF"
abbreviation (input) UNI_MAX_UTF16 :: UTF32 where "UNI_MAX_UTF16 \<equiv> 0x10FFFF"
abbreviation (input) UNI_MAX_LEGAL_UTF32 :: UTF32 where "UNI_MAX_LEGAL_UTF32 \<equiv> 0x10FFFF"
abbreviation (input) UNI_SUR_HIGH_START :: UTF32 where "UNI_SUR_HIGH_START \<equiv> 0xD800"
abbreviation (input) UNI_SUR_HIGH_END :: UTF32 where "UNI_SUR_HIGH_END \<equiv> 0xDBFF"
abbreviation (input) UNI_SUR_LOW_START :: UTF32 where "UNI_SUR_LOW_START \<equiv> 0xDC00"
abbreviation (input) UNI_SUR_LOW_END :: UTF32 where "UNI_SUR_LOW_END \<equiv> 0xDFFF"
abbreviation (input) halfBase :: UTF32 where "halfBase \<equiv> 0x10000"

type_synonym ('s, 't) conv = "ConversionResult \<times> 's list \<times> 't list"

definition put :: "'t list \<Rightarrow> ('s, 't) conv \<Rightarrow> ('s, 't) conv" where
  "put ts c = (case c of (result, source, out) \<Rightarrow> (result, source, ts @ out))"

text \<open>The surrogate pair of a character above the basic plane.\<close>

definition surrogates :: "UTF32 \<Rightarrow> UTF16 list" where
  "surrogates ch = [ucast (drop_bit 10 (ch - halfBase) + UNI_SUR_HIGH_START),
                    ucast (((ch - halfBase) AND 0x3FF) + UNI_SUR_LOW_START)]"

definition join_surrogates :: "UTF32 \<Rightarrow> UTF32 \<Rightarrow> UTF32" where
  "join_surrogates ch ch2 = push_bit 10 (ch - UNI_SUR_HIGH_START) + (ch2 - UNI_SUR_LOW_START) + halfBase"

section \<open>UTF-32 and UTF-16\<close>

text \<open>The variable \<open>result\<close> survives an iteration: an illegal value of a strict conversion is noted
  and skipped.\<close>

fun utf32_to_16 :: "ConversionFlags \<Rightarrow> ConversionResult \<Rightarrow> UTF32 list \<Rightarrow> nat \<Rightarrow> (UTF32, UTF16) conv" where
  "utf32_to_16 flags result [] room = (result, [], [])"
| "utf32_to_16 flags result (ch # source) room =
     (if room = 0 then (targetExhausted, ch # source, [])
      else if ch \<le> UNI_MAX_BMP then
        (if UNI_SUR_HIGH_START \<le> ch \<and> ch \<le> UNI_SUR_LOW_END then
           (if flags = strictConversion then (sourceIllegal, ch # source, [])
            else put [ucast UNI_REPLACEMENT_CHAR] (utf32_to_16 flags result source (room - 1)))
         else put [ucast ch] (utf32_to_16 flags result source (room - 1)))
      else if ch > UNI_MAX_LEGAL_UTF32 then
        (if flags = strictConversion then utf32_to_16 flags sourceIllegal source room
         else put [ucast UNI_REPLACEMENT_CHAR] (utf32_to_16 flags result source (room - 1)))
      else if room \<le> 1 then (targetExhausted, ch # source, [])
      else put (surrogates ch) (utf32_to_16 flags result source (room - 2)))"

definition ConvertUTF32toUTF16 :: "ConversionFlags \<Rightarrow> UTF32 list \<Rightarrow> nat \<Rightarrow> (UTF32, UTF16) conv" where
  "ConvertUTF32toUTF16 flags source room = utf32_to_16 flags conversionOK source room"

text \<open>
  Reading one character from UTF-16, shared by the two conversions from it: the character and
  the rest of the source, or the result with which the loop ends.
\<close>

definition read_utf16 :: "ConversionFlags \<Rightarrow> UTF16 \<Rightarrow> UTF16 list \<Rightarrow> ConversionResult + (UTF32 \<times> UTF16 list)" where
  "read_utf16 flags u source =
     (let ch = ucast u :: UTF32 in
      if UNI_SUR_HIGH_START \<le> ch \<and> ch \<le> UNI_SUR_HIGH_END then
        (case source of
           [] \<Rightarrow> Inl sourceExhausted
         | u2 # source' \<Rightarrow>
             (let ch2 = ucast u2 :: UTF32 in
              if UNI_SUR_LOW_START \<le> ch2 \<and> ch2 \<le> UNI_SUR_LOW_END then Inr (join_surrogates ch ch2, source')
              else if flags = strictConversion then Inl sourceIllegal
              else Inr (ch, source)))
      else if flags = strictConversion \<and> UNI_SUR_LOW_START \<le> ch \<and> ch \<le> UNI_SUR_LOW_END then Inl sourceIllegal
      else Inr (ch, source))"

lemma read_utf16_shorter: "read_utf16 flags u source = Inr (ch, rest) \<Longrightarrow> length rest \<le> length source"
  by (auto simp: read_utf16_def Let_def split: if_splits list.splits)

function ConvertUTF16toUTF32 :: "ConversionFlags \<Rightarrow> UTF16 list \<Rightarrow> nat \<Rightarrow> (UTF16, UTF32) conv" where
  "ConvertUTF16toUTF32 flags [] room = (conversionOK, [], [])"
| "ConvertUTF16toUTF32 flags (u # source) room =
     (case read_utf16 flags u source of
        Inl result \<Rightarrow> (result, u # source, [])
      | Inr (ch, rest) \<Rightarrow>
          (if room = 0 then (targetExhausted, u # source, [])
           else put [ch] (ConvertUTF16toUTF32 flags rest (room - 1))))"
  by pat_completeness auto
termination
  by (relation "measure (\<lambda>(flags, source, room). length source)") (auto dest: read_utf16_shorter)

section \<open>UTF-8\<close>

definition trailingBytesForUTF8 :: "nat list" where
  "trailingBytesForUTF8 = replicate 192 0 @ replicate 32 1 @ replicate 16 2 @ replicate 8 3 @ replicate 4 4 @ replicate 4 5"

definition offsetsFromUTF8 :: "UTF32 list" where
  "offsetsFromUTF8 = [0x00000000, 0x00003080, 0x000E2080, 0x03C82080, 0xFA082080, 0x82082080]"

definition firstByteMark :: "UTF32 list" where
  "firstByteMark = [0x00, 0x00, 0xC0, 0xE0, 0xF0, 0xF8, 0xFC]"

text \<open>The fall-through switch that writes the trailing bytes from the last one back.\<close>

fun write_trailing :: "nat \<Rightarrow> UTF32 \<Rightarrow> UTF32 \<times> UTF8 list" where
  "write_trailing 0 ch = (ch, [])"
| "write_trailing (Suc n) ch =
     (case write_trailing n (drop_bit 6 ch) of (c, bs) \<Rightarrow> (c, bs @ [ucast ((ch OR 0x80) AND 0xBF)]))"

definition write_utf8 :: "nat \<Rightarrow> UTF32 \<Rightarrow> UTF8 list" where
  "write_utf8 n ch =
     (case write_trailing (n - 1) ch of (c, bs) \<Rightarrow> ucast (c OR firstByteMark ! n) # bs)"

definition bytesToWrite :: "UTF32 \<Rightarrow> nat" where
  "bytesToWrite ch = (if ch < 0x80 then 1 else if ch < 0x800 then 2 else if ch < 0x10000 then 3
     else if ch < 0x110000 then 4 else 3)"

function ConvertUTF16toUTF8 :: "ConversionFlags \<Rightarrow> UTF16 list \<Rightarrow> nat \<Rightarrow> (UTF16, UTF8) conv" where
  "ConvertUTF16toUTF8 flags [] room = (conversionOK, [], [])"
| "ConvertUTF16toUTF8 flags (u # source) room =
     (case read_utf16 flags u source of
        Inl result \<Rightarrow> (result, u # source, [])
      | Inr (ch0, rest) \<Rightarrow>
          (let n = bytesToWrite ch0; ch = (if ch0 < 0x110000 then ch0 else UNI_REPLACEMENT_CHAR) in
           if n > room then (targetExhausted, u # source, [])
           else put (write_utf8 n ch) (ConvertUTF16toUTF8 flags rest (room - n))))"
  by pat_completeness auto
termination
  by (relation "measure (\<lambda>(flags, source, room). length source)") (auto dest: read_utf16_shorter)

text \<open>\<open>isLegalUTF8\<close>; it is called only when \<open>len\<close> bytes are there.\<close>

definition second_ok :: "UTF8 \<Rightarrow> UTF8 \<Rightarrow> bool" where
  "second_ok b a \<longleftrightarrow> \<not> a > 0xBF \<and>
     (if b = 0xE0 then \<not> a < 0xA0
      else if b = 0xED then \<not> a > 0x9F
      else if b = 0xF0 then \<not> a < 0x90
      else if b = 0xF4 then \<not> a > 0x8F
      else \<not> a < 0x80)"

definition isLegalUTF8 :: "UTF8 list \<Rightarrow> nat \<Rightarrow> bool" where
  "isLegalUTF8 source len \<longleftrightarrow>
     1 \<le> len \<and> len \<le> 4 \<and>
     (len \<ge> 4 \<longrightarrow> \<not> (source ! 3 < 0x80 \<or> source ! 3 > 0xBF)) \<and>
     (len \<ge> 3 \<longrightarrow> \<not> (source ! 2 < 0x80 \<or> source ! 2 > 0xBF)) \<and>
     (len \<ge> 2 \<longrightarrow> second_ok (source ! 0) (source ! 1)) \<and>
     \<not> (source ! 0 \<ge> 0x80 \<and> source ! 0 < 0xC2) \<and>
     \<not> source ! 0 > 0xF4"

definition isLegalUTF8Sequence :: "UTF8 list \<Rightarrow> bool" where
  "isLegalUTF8Sequence source =
     (let n = trailingBytesForUTF8 ! unat (source ! 0) + 1 in
      if n > length source then False else isLegalUTF8 source n)"

text \<open>The fall-through switch that reads a character: \<open>ch += *source++; ch <<= 6\<close> down to the last byte.\<close>

definition read_utf8 :: "nat \<Rightarrow> UTF8 list \<Rightarrow> UTF32" where
  "read_utf8 extraBytesToRead source =
     foldl (\<lambda>ch b. push_bit 6 ch + ucast b) 0 (take (extraBytesToRead + 1) source) - offsetsFromUTF8 ! extraBytesToRead"

function ConvertUTF8toUTF16 :: "ConversionFlags \<Rightarrow> UTF8 list \<Rightarrow> nat \<Rightarrow> (UTF8, UTF16) conv" where
  "ConvertUTF8toUTF16 flags [] room = (conversionOK, [], [])"
| "ConvertUTF8toUTF16 flags (b # bs) room =
     (let source = b # bs; extra = trailingBytesForUTF8 ! unat b in
      if extra \<ge> length source then (sourceExhausted, source, [])
      else if \<not> isLegalUTF8 source (extra + 1) then (sourceIllegal, source, [])
      else
        let ch = read_utf8 extra source; rest = drop (extra + 1) source in
        if room = 0 then (targetExhausted, source, [])
        else if ch \<le> UNI_MAX_BMP then
          (if UNI_SUR_HIGH_START \<le> ch \<and> ch \<le> UNI_SUR_LOW_END then
             (if flags = strictConversion then (sourceIllegal, source, [])
              else put [ucast UNI_REPLACEMENT_CHAR] (ConvertUTF8toUTF16 flags rest (room - 1)))
           else put [ucast ch] (ConvertUTF8toUTF16 flags rest (room - 1)))
        else if ch > UNI_MAX_UTF16 then
          (if flags = strictConversion then (sourceIllegal, source, [])
           else put [ucast UNI_REPLACEMENT_CHAR] (ConvertUTF8toUTF16 flags rest (room - 1)))
        else if room \<le> 1 then (targetExhausted, source, [])
        else put (surrogates ch) (ConvertUTF8toUTF16 flags rest (room - 2)))"
  by pat_completeness auto
termination
  by (relation "measure (\<lambda>(flags, source, room). length source)") auto

fun utf32_to_8 :: "ConversionFlags \<Rightarrow> ConversionResult \<Rightarrow> UTF32 list \<Rightarrow> nat \<Rightarrow> (UTF32, UTF8) conv" where
  "utf32_to_8 flags result [] room = (result, [], [])"
| "utf32_to_8 flags result (ch0 # source) room =
     (if flags = strictConversion \<and> UNI_SUR_HIGH_START \<le> ch0 \<and> ch0 \<le> UNI_SUR_LOW_END
      then (sourceIllegal, ch0 # source, [])
      else
        (let n = bytesToWrite ch0; legal = (ch0 \<le> UNI_MAX_LEGAL_UTF32);
             ch = (if legal then ch0 else UNI_REPLACEMENT_CHAR) in
         if n > room then (targetExhausted, ch0 # source, [])
         else put (write_utf8 n ch) (utf32_to_8 flags (if legal then result else sourceIllegal) source (room - n))))"

definition ConvertUTF32toUTF8 :: "ConversionFlags \<Rightarrow> UTF32 list \<Rightarrow> nat \<Rightarrow> (UTF32, UTF8) conv" where
  "ConvertUTF32toUTF8 flags source room = utf32_to_8 flags conversionOK source room"

function utf8_to_32 :: "ConversionFlags \<Rightarrow> ConversionResult \<Rightarrow> UTF8 list \<Rightarrow> nat \<Rightarrow> (UTF8, UTF32) conv" where
  "utf8_to_32 flags result [] room = (result, [], [])"
| "utf8_to_32 flags result (b # bs) room =
     (let source = b # bs; extra = trailingBytesForUTF8 ! unat b in
      if extra \<ge> length source then (sourceExhausted, source, [])
      else if \<not> isLegalUTF8 source (extra + 1) then (sourceIllegal, source, [])
      else
        let ch = read_utf8 extra source; rest = drop (extra + 1) source in
        if room = 0 then (targetExhausted, source, [])
        else if ch \<le> UNI_MAX_LEGAL_UTF32 then
          (if UNI_SUR_HIGH_START \<le> ch \<and> ch \<le> UNI_SUR_LOW_END then
             (if flags = strictConversion then (sourceIllegal, source, [])
              else put [UNI_REPLACEMENT_CHAR] (utf8_to_32 flags result rest (room - 1)))
           else put [ch] (utf8_to_32 flags result rest (room - 1)))
        else put [UNI_REPLACEMENT_CHAR] (utf8_to_32 flags sourceIllegal rest (room - 1)))"
  by pat_completeness auto
termination
  by (relation "measure (\<lambda>(flags, result, source, room). length source)") auto

definition ConvertUTF8toUTF32 :: "ConversionFlags \<Rightarrow> UTF8 list \<Rightarrow> nat \<Rightarrow> (UTF8, UTF32) conv" where
  "ConvertUTF8toUTF32 flags source room = utf8_to_32 flags conversionOK source room"

declare ConvertUTF16toUTF32.simps(2) [simp del] ConvertUTF16toUTF8.simps(2) [simp del]
  ConvertUTF8toUTF16.simps(2) [simp del] utf8_to_32.simps(2) [simp del] utf32_to_8.simps(2) [simp del]
  utf32_to_16.simps(2) [simp del]

section \<open>Words as numbers\<close>

lemma ucast_of_nat_small: "n < 2 ^ LENGTH('a) \<Longrightarrow> ucast (of_nat n :: 'a::len word) = (of_nat n :: 'b::len word)"
  by (simp add: unsigned_of_nat take_bit_nat_eq_self)

lemma unat_of_nat32: "n < 4294967296 \<Longrightarrow> unat (of_nat n :: UTF32) = n"
  by (simp add: unat_of_nat)

lemma div_mod_of_nat32:
  assumes "n < 4294967296" and "0 < m" and "m < 4294967296"
  shows "(of_nat n :: UTF32) div of_nat m = of_nat (n div m)" and "(of_nat n :: UTF32) mod of_nat m = of_nat (n mod m)"
  using assms by (simp_all add: word_arith_nat_div word_arith_nat_mod unat_of_nat32)

lemma drop_bit_of_nat32: "n < 4294967296 \<Longrightarrow> k < 32 \<Longrightarrow> drop_bit k (of_nat n :: UTF32) = of_nat (n div 2 ^ k)"
  using div_mod_of_nat32(1) [of n "2 ^ k"] power_strict_increasing [of k 32 "2::nat"] by (simp add: drop_bit_eq_div)

lemma take_bit_of_nat32: "n < 4294967296 \<Longrightarrow> k < 32 \<Longrightarrow> take_bit k (of_nat n :: UTF32) = of_nat (n mod 2 ^ k)"
  using div_mod_of_nat32(2) [of n "2 ^ k"] power_strict_increasing [of k 32 "2::nat"] by (simp add: take_bit_eq_mod)

lemma word_or_disjoint_add:
  fixes c :: "'a::len word"
  assumes "k \<le> m"
  shows "take_bit k c OR push_bit m d = take_bit k c + push_bit m d"
  by (rule disjunctive_add [symmetric]) (use assms in \<open>auto simp: bit_take_bit_iff bit_push_bit_iff\<close>)

lemma trailing_byte:
  assumes "n < 4294967296"
  shows "ucast ((of_nat n OR 0x80 :: UTF32) AND 0xBF) = (of_nat (128 + n mod 64) :: UTF8)"
proof -
  have "(of_nat n OR 0x80 :: UTF32) AND 0xBF = take_bit 6 (of_nat n) OR push_bit 7 1"
  proof (rule bit_eqI)
    fix k assume k: "possible_bit TYPE(32 word) k"
    have "(0xBF :: UTF32) = mask 6 OR push_bit 7 1" by (simp add: mask_eq_exp_minus_1)
    moreover have "(0x80 :: UTF32) = push_bit 7 1" by simp
    ultimately show "bit ((of_nat n OR 0x80 :: UTF32) AND 0xBF) k = bit (take_bit 6 (of_nat n :: UTF32) OR push_bit 7 1) k"
      using k by (auto simp only: bit_and_iff bit_or_iff bit_mask_iff bit_take_bit_iff bit_push_bit_iff)
  qed
  also have "\<dots> = take_bit 6 (of_nat n) + push_bit 7 1" by (rule word_or_disjoint_add) simp
  also have "\<dots> = of_nat (n mod 64 + 128)"
    using assms by (simp add: take_bit_of_nat32)
  finally have "ucast ((of_nat n OR 0x80 :: UTF32) AND 0xBF) = (ucast (of_nat (128 + n mod 64) :: UTF32) :: UTF8)"
    by (simp add: add.commute)
  also have "\<dots> = of_nat (128 + n mod 64)" by (rule ucast_of_nat_small) simp
  finally show ?thesis .
qed

lemma first_byte:
  assumes "n < 2 ^ k" and "k \<le> m" and "m < 8" and "mark = push_bit m d" and "n + unat mark < 256"
  shows "ucast (of_nat n OR mark :: UTF32) = (of_nat (unat mark + n) :: UTF8)"
proof -
  have "of_nat n = take_bit k (of_nat n :: UTF32)"
    using assms(1) by (simp add: take_bit_of_nat take_bit_nat_eq_self)
  then have "of_nat n OR mark = of_nat n + mark" using word_or_disjoint_add [OF assms(2)] assms(4) by metis
  also have "\<dots> = of_nat (unat mark + n)" by simp
  finally have "ucast (of_nat n OR mark :: UTF32) = (ucast (of_nat (unat mark + n) :: UTF32) :: UTF8)" by simp
  also have "\<dots> = of_nat (unat mark + n)" using assms(5) by (intro ucast_of_nat_small) simp
  finally show ?thesis .
qed

section \<open>The encoding forms\<close>

text \<open>UTF-8 as the standard distributes the bits, and the scalar values.\<close>

definition utf8_ref :: "nat \<Rightarrow> nat list" where
  "utf8_ref n =
     (if n < 0x80 then [n]
      else if n < 0x800 then [0xC0 + n div 64, 0x80 + n mod 64]
      else if n < 0x10000 then [0xE0 + n div 4096, 0x80 + n div 64 mod 64, 0x80 + n mod 64]
      else [0xF0 + n div 262144, 0x80 + n div 4096 mod 64, 0x80 + n div 64 mod 64, 0x80 + n mod 64])"

definition scalar :: "nat \<Rightarrow> bool" where
  "scalar n \<longleftrightarrow> n < 0xD800 \<or> 0xDFFF < n \<and> n < 0x110000"

definition utf8 :: "UTF32 \<Rightarrow> UTF8 list" where
  "utf8 ch = map of_nat (utf8_ref (unat ch))"

lemma write_utf8_simps:
  "write_utf8 1 ch = [ucast ch]"
  "write_utf8 2 ch = [ucast (drop_bit 6 ch OR 0xC0), ucast ((ch OR 0x80) AND 0xBF)]"
  "write_utf8 3 ch = [ucast (drop_bit 6 (drop_bit 6 ch) OR 0xE0), ucast ((drop_bit 6 ch OR 0x80) AND 0xBF),
     ucast ((ch OR 0x80) AND 0xBF)]"
  "write_utf8 4 ch = [ucast (drop_bit 6 (drop_bit 6 (drop_bit 6 ch)) OR 0xF0),
     ucast ((drop_bit 6 (drop_bit 6 ch) OR 0x80) AND 0xBF), ucast ((drop_bit 6 ch OR 0x80) AND 0xBF),
     ucast ((ch OR 0x80) AND 0xBF)]"
proof -
  have *: "write_trailing 1 ch = write_trailing (Suc 0) ch" "write_trailing 2 ch = write_trailing (Suc (Suc 0)) ch"
    "write_trailing 3 ch = write_trailing (Suc (Suc (Suc 0))) ch" for ch
    by (simp_all only: One_nat_def numeral_2_eq_2 numeral_3_eq_3)
  show "write_utf8 1 ch = [ucast ch]" by (simp add: write_utf8_def firstByteMark_def)
  show "write_utf8 2 ch = [ucast (drop_bit 6 ch OR 0xC0), ucast ((ch OR 0x80) AND 0xBF)]"
    by (simp add: write_utf8_def firstByteMark_def *(1) del: drop_bit_drop_bit)
  show "write_utf8 3 ch = [ucast (drop_bit 6 (drop_bit 6 ch) OR 0xE0), ucast ((drop_bit 6 ch OR 0x80) AND 0xBF),
     ucast ((ch OR 0x80) AND 0xBF)]"
    by (simp add: write_utf8_def firstByteMark_def *(2) del: drop_bit_drop_bit)
  show "write_utf8 4 ch = [ucast (drop_bit 6 (drop_bit 6 (drop_bit 6 ch)) OR 0xF0),
     ucast ((drop_bit 6 (drop_bit 6 ch) OR 0x80) AND 0xBF), ucast ((drop_bit 6 ch OR 0x80) AND 0xBF),
     ucast ((ch OR 0x80) AND 0xBF)]"
    by (simp add: write_utf8_def firstByteMark_def *(3) del: drop_bit_drop_bit)
qed

lemma write_utf8_ref:
  assumes "n < 0x110000"
  shows "write_utf8 (bytesToWrite (of_nat n)) (of_nat n) = map of_nat (utf8_ref n)"
proof -
  have u: "unat (of_nat n :: UTF32) = n" using assms by (simp add: unat_of_nat32)
  have d: "drop_bit 6 (of_nat n :: UTF32) = of_nat (n div 64)"
    "drop_bit 6 (of_nat (n div 64) :: UTF32) = of_nat (n div 4096)"
    "drop_bit 6 (of_nat (n div 4096) :: UTF32) = of_nat (n div 262144)"
    using assms by (simp_all add: drop_bit_of_nat32 div_mult2_eq [symmetric])
  have tb: "ucast ((of_nat n OR 0x80 :: UTF32) AND 0xBF) = (of_nat (128 + n mod 64) :: UTF8)"
    "ucast ((of_nat (n div 64) OR 0x80 :: UTF32) AND 0xBF) = (of_nat (128 + n div 64 mod 64) :: UTF8)"
    "ucast ((of_nat (n div 4096) OR 0x80 :: UTF32) AND 0xBF) = (of_nat (128 + n div 4096 mod 64) :: UTF8)"
    by (rule trailing_byte, use assms in simp)+
  consider "n < 0x80" | "0x80 \<le> n" "n < 0x800" | "0x800 \<le> n" "n < 0x10000" | "0x10000 \<le> n" by linarith
  then show ?thesis
  proof cases
    case 1
    then have "bytesToWrite (of_nat n) = 1" by (simp add: bytesToWrite_def word_less_nat_alt u)
    then show ?thesis using 1 by (simp add: write_utf8_simps utf8_ref_def ucast_of_nat_small del: One_nat_def)
  next
    case 2
    then have b: "bytesToWrite (of_nat n) = 2" by (simp add: bytesToWrite_def word_less_nat_alt u)
    have "n div 64 < 2 ^ 5" using 2 by simp
    then have "ucast (of_nat (n div 64) OR 0xC0 :: UTF32) = (of_nat (unat (0xC0 :: UTF32) + n div 64) :: UTF8)"
      by (rule first_byte [where m = 6 and d = 3]) (use 2 in simp_all)
    then show ?thesis using 2 by (simp only: b write_utf8_simps d tb) (simp add: utf8_ref_def)
  next
    case 3
    then have b: "bytesToWrite (of_nat n) = 3" by (simp add: bytesToWrite_def word_less_nat_alt u)
    have "n div 4096 < 2 ^ 4" using 3 by simp
    then have "ucast (of_nat (n div 4096) OR 0xE0 :: UTF32) = (of_nat (unat (0xE0 :: UTF32) + n div 4096) :: UTF8)"
      by (rule first_byte [where m = 5 and d = 7]) (use 3 in simp_all)
    then show ?thesis using 3 by (simp only: b write_utf8_simps d tb) (simp add: utf8_ref_def)
  next
    case 4
    then have b: "bytesToWrite (of_nat n) = 4" using assms by (simp add: bytesToWrite_def word_less_nat_alt u)
    have "n div 262144 < 2 ^ 3" using assms by simp
    then have "ucast (of_nat (n div 262144) OR 0xF0 :: UTF32) = (of_nat (unat (0xF0 :: UTF32) + n div 262144) :: UTF8)"
      by (rule first_byte [where m = 4 and d = 15]) (use assms in simp_all)
    then show ?thesis using 4 by (simp only: b write_utf8_simps d tb) (simp add: utf8_ref_def)
  qed
qed

lemma trailing_nth:
  "k < 256 \<Longrightarrow> trailingBytesForUTF8 ! k =
     (if k < 192 then 0 else if k < 224 then 1 else if k < 240 then 2 else if k < 248 then 3 else if k < 252 then 4 else 5)"
proof -
  assume "k < 256"
  then consider "k < 192" | "192 \<le> k" "k < 224" | "224 \<le> k" "k < 240" | "240 \<le> k" "k < 248" | "248 \<le> k" "k < 252"
    | "252 \<le> k" "k < 256" by linarith
  then show ?thesis by cases (simp_all add: trailingBytesForUTF8_def nth_append, linarith+)
qed

lemma utf8_ref_bytes: "n < 0x110000 \<Longrightarrow> k \<in> set (utf8_ref n) \<Longrightarrow> k < 256"
  by (auto simp: utf8_ref_def split: if_splits)

lemma unat_byte: "k < 256 \<Longrightarrow> unat (of_nat k :: UTF8) = k"
  by (simp add: unat_of_nat)

lemma legal_nat:
  "k < 256 \<Longrightarrow> (of_nat k :: UTF8) < numeral m \<longleftrightarrow> k < unat (numeral m :: UTF8)"
  "k < 256 \<Longrightarrow> (numeral m :: UTF8) < of_nat k \<longleftrightarrow> unat (numeral m :: UTF8) < k"
  "k < 256 \<Longrightarrow> (numeral m :: UTF8) \<le> of_nat k \<longleftrightarrow> unat (numeral m :: UTF8) \<le> k"
  "k < 256 \<Longrightarrow> (of_nat k :: UTF8) = numeral m \<longleftrightarrow> k = unat (numeral m :: UTF8)"
  by (simp_all add: word_less_nat_alt word_le_nat_alt unat_byte word_unat_eq_iff)

text \<open>Legality over the values of the bytes.\<close>

definition second_nat :: "nat \<Rightarrow> nat \<Rightarrow> bool" where
  "second_nat a b \<longleftrightarrow> b \<le> 191 \<and>
     (if a = 224 then 160 \<le> b else if a = 237 then b \<le> 159 else if a = 240 then 144 \<le> b
      else if a = 244 then b \<le> 143 else 128 \<le> b)"

lemma second_ok_nat: "a < 256 \<Longrightarrow> b < 256 \<Longrightarrow> second_ok (of_nat a) (of_nat b) \<longleftrightarrow> second_nat a b"
  by (simp add: second_ok_def second_nat_def legal_nat not_less)

definition first_nat :: "nat \<Rightarrow> bool" where
  "first_nat a \<longleftrightarrow> a < 128 \<or> 194 \<le> a \<and> a \<le> 244"

lemma first_ok_nat:
  "a < 256 \<Longrightarrow> \<not> (128 \<le> (of_nat a :: UTF8) \<and> (of_nat a :: UTF8) < 194) \<and> \<not> 244 < (of_nat a :: UTF8) \<longleftrightarrow> first_nat a"
  by (auto simp: first_nat_def legal_nat)

definition cont_nat :: "nat \<Rightarrow> bool" where
  "cont_nat b \<longleftrightarrow> 128 \<le> b \<and> b \<le> 191"

lemma cont_ok_nat: "b < 256 \<Longrightarrow> \<not> ((of_nat b :: UTF8) < 128 \<or> 191 < (of_nat b :: UTF8)) \<longleftrightarrow> cont_nat b"
  by (auto simp: cont_nat_def legal_nat)

lemma legal1: "a < 256 \<Longrightarrow> isLegalUTF8 (of_nat a # r) 1 \<longleftrightarrow> first_nat a"
  by (simp add: isLegalUTF8_def first_ok_nat [symmetric])

lemma legal2: "a < 256 \<Longrightarrow> b < 256 \<Longrightarrow>
  isLegalUTF8 (of_nat a # of_nat b # r) 2 \<longleftrightarrow> first_nat a \<and> second_nat a b"
  by (auto simp: isLegalUTF8_def first_ok_nat [symmetric] second_ok_nat)

lemma legal3: "a < 256 \<Longrightarrow> b < 256 \<Longrightarrow> c < 256 \<Longrightarrow>
  isLegalUTF8 (of_nat a # of_nat b # of_nat c # r) 3 \<longleftrightarrow> first_nat a \<and> second_nat a b \<and> cont_nat c"
  by (auto simp: isLegalUTF8_def first_ok_nat [symmetric] second_ok_nat cont_ok_nat [symmetric])

lemma legal4: "a < 256 \<Longrightarrow> b < 256 \<Longrightarrow> c < 256 \<Longrightarrow> d < 256 \<Longrightarrow>
  isLegalUTF8 (of_nat a # of_nat b # of_nat c # of_nat d # r) 4 \<longleftrightarrow>
    first_nat a \<and> second_nat a b \<and> cont_nat c \<and> cont_nat d"
  by (auto simp: isLegalUTF8_def first_ok_nat [symmetric] second_ok_nat cont_ok_nat [symmetric])

lemma read_utf8_nat:
  "a < 256 \<Longrightarrow> read_utf8 0 (of_nat a # r) = of_nat a"
  "a < 256 \<Longrightarrow> b < 256 \<Longrightarrow> read_utf8 1 (of_nat a # of_nat b # r) = of_nat (a * 64 + b) - 0x3080"
  "a < 256 \<Longrightarrow> b < 256 \<Longrightarrow> c < 256 \<Longrightarrow>
     read_utf8 2 (of_nat a # of_nat b # of_nat c # r) = of_nat (a * 4096 + b * 64 + c) - 0xE2080"
  "a < 256 \<Longrightarrow> b < 256 \<Longrightarrow> c < 256 \<Longrightarrow> d < 256 \<Longrightarrow>
     read_utf8 3 (of_nat a # of_nat b # of_nat c # of_nat d # r) =
       of_nat (a * 262144 + b * 4096 + c * 64 + d) - 0x3C82080"
  by (simp_all add: read_utf8_def offsetsFromUTF8_def ucast_of_nat_small push_bit_eq_mult algebra_simps)


lemma split_base64:
  fixes n :: nat
  shows "n = n div 64 * 64 + n mod 64"
    and "n = n div 4096 * 4096 + (n div 64 mod 64) * 64 + n mod 64"
    and "n = n div 262144 * 262144 + (n div 4096 mod 64) * 4096 + (n div 64 mod 64) * 64 + n mod 64"
proof -
  have a: "n = n div 64 * 64 + n mod 64" by simp
  have b: "n div 64 = n div 4096 * 64 + n div 64 mod 64" using div_mult2_eq [of n 64 64] by simp
  have c: "n div 4096 = n div 262144 * 64 + n div 4096 mod 64" using div_mult2_eq [of n 4096 64] by simp
  show "n = n div 64 * 64 + n mod 64" by (rule a)
  show "n = n div 4096 * 4096 + (n div 64 mod 64) * 64 + n mod 64" using a b by linarith
  show "n = n div 262144 * 262144 + (n div 4096 mod 64) * 4096 + (n div 64 mod 64) * 64 + n mod 64"
    using a b c by linarith
qed

text \<open>What a decoder sees at the start of an encoded character.\<close>

definition decodes :: "UTF8 list \<Rightarrow> nat \<Rightarrow> UTF32 \<Rightarrow> bool" where
  "decodes s k ch \<longleftrightarrow> s \<noteq> [] \<and> trailingBytesForUTF8 ! unat (hd s) = k \<and> k < length s \<and> isLegalUTF8 s (k + 1) \<and>
     read_utf8 k s = ch"

lemma utf8_ref_decodes:
  assumes "scalar n"
  shows "decodes (map of_nat (utf8_ref n) @ r) (length (utf8_ref n) - 1) (of_nat n)"
proof -
  have lt: "n < 0x110000" using assms by (auto simp: scalar_def)
  have m: "n mod 64 < 64" "n div 64 mod 64 < 64" "n div 4096 mod 64 < 64" by simp_all
  consider "n < 0x80" | "0x80 \<le> n" "n < 0x800" | "0x800 \<le> n" "n < 0x10000" | "0x10000 \<le> n" by linarith
  then show ?thesis
  proof cases
    case 1
    then have "first_nat n" "n < 256" by (simp_all add: first_nat_def)
    then show ?thesis using 1
      by (simp add: decodes_def utf8_ref_def unat_byte trailing_nth legal1 [unfolded One_nat_def] read_utf8_nat)
  next
    case 2
    let ?a = "192 + n div 64" and ?b = "128 + n mod 64"
    have ref: "utf8_ref n = [?a, ?b]" using 2 by (simp add: utf8_ref_def)
    have a: "194 \<le> ?a" "?a < 224" using 2 by auto
    have "first_nat ?a" "second_nat ?a ?b" using a m by (simp_all add: first_nat_def second_nat_def)
    moreover have "?a * 64 + ?b = n + 0x3080" unfolding distrib_right using split_base64(1) [of n] by linarith
    then have "read_utf8 1 (of_nat ?a # of_nat ?b # r) = of_nat n"
      using a m by (simp only: read_utf8_nat) simp
    moreover have len: "length (utf8_ref n) - 1 = 1" by (simp add: ref)
    ultimately show ?thesis using a m legal2 [of ?a ?b r]
      unfolding decodes_def len by (simp add: ref unat_byte trailing_nth del: of_nat_add One_nat_def)
  next
    case 3
    let ?a = "224 + n div 4096" and ?b = "128 + n div 64 mod 64" and ?c = "128 + n mod 64"
    have ref: "utf8_ref n = [?a, ?b, ?c]" using 3 by (simp add: utf8_ref_def)
    have a: "224 \<le> ?a" "?a < 240" using 3 by auto
    have "?a = 224 \<Longrightarrow> 160 \<le> ?b" "?a = 237 \<Longrightarrow> ?b \<le> 159"
      using 3 assms split_base64(2) [of n] m unfolding scalar_def by linarith+
    then have "first_nat ?a" "second_nat ?a ?b" "cont_nat ?c"
      using a m by (auto simp: first_nat_def second_nat_def cont_nat_def)
    moreover have "?a * 4096 + ?b * 64 + ?c = n + 0xE2080" unfolding distrib_right using split_base64(2) [of n] by linarith
    then have "read_utf8 2 (of_nat ?a # of_nat ?b # of_nat ?c # r) = of_nat n"
      using a m by (simp only: read_utf8_nat) simp
    moreover have len: "length (utf8_ref n) - 1 = 2" by (simp add: ref)
    ultimately show ?thesis using a m legal3 [of ?a ?b ?c r]
      unfolding decodes_def len by (simp add: ref unat_byte trailing_nth del: of_nat_add)
  next
    case 4
    let ?a = "240 + n div 262144" and ?b = "128 + n div 4096 mod 64" and ?c = "128 + n div 64 mod 64" and ?d = "128 + n mod 64"
    have ref: "utf8_ref n = [?a, ?b, ?c, ?d]" using 4 by (simp add: utf8_ref_def)
    have a: "240 \<le> ?a" "?a \<le> 244" using lt by auto
    have "?a = 240 \<Longrightarrow> 144 \<le> ?b" "?a = 244 \<Longrightarrow> ?b \<le> 143"
      using 4 lt split_base64(3) [of n] m by linarith+
    then have "first_nat ?a" "second_nat ?a ?b" "cont_nat ?c" "cont_nat ?d"
      using a m by (auto simp: first_nat_def second_nat_def cont_nat_def)
    moreover have "?a * 262144 + ?b * 4096 + ?c * 64 + ?d = n + 0x3C82080" unfolding distrib_right using split_base64(3) [of n] by linarith
    then have "read_utf8 3 (of_nat ?a # of_nat ?b # of_nat ?c # of_nat ?d # r) = of_nat n"
      using a m by (simp only: read_utf8_nat) simp
    moreover have len: "length (utf8_ref n) - 1 = 3" by (simp add: ref)
    ultimately show ?thesis using a m legal4 [of ?a ?b ?c ?d r]
      unfolding decodes_def len by (simp add: ref unat_byte trailing_nth del: of_nat_add)
  qed
qed

text \<open>
  Conversely a sequence the legality test accepts is the encoding of a scalar value, unless it
  starts with ED or F4: there the test has an upper bound for the second byte only.
\<close>

fun clean :: "UTF8 list \<Rightarrow> bool" where
  "clean (a # b # s) \<longleftrightarrow> (a = 0xED \<or> a = 0xF4 \<longrightarrow> 0x80 \<le> b) \<and> clean (b # s)"
| "clean s \<longleftrightarrow> True"

lemma base64:
  fixes q z :: nat
  assumes "z < 64"
  shows "(q * 64 + z) div 64 = q" and "(q * 64 + z) mod 64 = z"
  using assms by simp_all

lemma utf8_ref_inv:
  "first_nat a \<Longrightarrow> a < 192 \<Longrightarrow> utf8_ref a = [a] \<and> scalar a"
  "first_nat (192 + x) \<Longrightarrow> x < 32 \<Longrightarrow> y < 64 \<Longrightarrow> utf8_ref (x * 64 + y) = [192 + x, 128 + y] \<and> scalar (x * 64 + y)"
  "second_nat (224 + x) (128 + y) \<Longrightarrow> x < 16 \<Longrightarrow> y < 64 \<Longrightarrow> z < 64 \<Longrightarrow>
     utf8_ref (x * 4096 + y * 64 + z) = [224 + x, 128 + y, 128 + z] \<and> scalar (x * 4096 + y * 64 + z)"
  "first_nat (240 + x) \<Longrightarrow> second_nat (240 + x) (128 + y) \<Longrightarrow> x < 8 \<Longrightarrow> y < 64 \<Longrightarrow> z < 64 \<Longrightarrow> w < 64 \<Longrightarrow>
     utf8_ref (x * 262144 + y * 4096 + z * 64 + w) = [240 + x, 128 + y, 128 + z, 128 + w] \<and>
     scalar (x * 262144 + y * 4096 + z * 64 + w)"
proof -
  show "utf8_ref a = [a] \<and> scalar a" if "first_nat a" "a < 192"
    using that by (auto simp: first_nat_def utf8_ref_def scalar_def)
  show "utf8_ref (x * 64 + y) = [192 + x, 128 + y] \<and> scalar (x * 64 + y)" if "first_nat (192 + x)" "x < 32" "y < 64"
    using that by (auto simp: first_nat_def utf8_ref_def scalar_def)
  show "utf8_ref (x * 4096 + y * 64 + z) = [224 + x, 128 + y, 128 + z] \<and> scalar (x * 4096 + y * 64 + z)"
    if "second_nat (224 + x) (128 + y)" "x < 16" "y < 64" "z < 64"
  proof -
    let ?n = "x * 4096 + y * 64 + z"
    have n: "?n = (x * 64 + y) * 64 + z" by simp
    have n64: "?n div 64 = x * 64 + y" "?n mod 64 = z" unfolding n using that(4) by (rule base64)+
    have "?n div 4096 = ?n div 64 div 64" using div_mult2_eq [of ?n 64 64] by simp
    then have d: "?n div 4096 = x" "?n div 64 mod 64 = y" "?n mod 64 = z"
      unfolding n64 using base64 [OF that(3)] by simp_all
    have "x = 0 \<longrightarrow> 32 \<le> y" "x = 13 \<longrightarrow> y \<le> 31" using that(1) by (auto simp: second_nat_def)
    moreover consider "x = 0" | "1 \<le> x" "x \<le> 12" | "x = 13" | "14 \<le> x" by linarith
    then have "0x800 \<le> ?n \<and> ?n < 0x10000 \<and> (?n < 0xD800 \<or> 0xDFFF < ?n)"
      by cases (use calculation that(2-4) in auto)
    then show ?thesis by (simp add: utf8_ref_def d scalar_def)
  qed
  show "utf8_ref (x * 262144 + y * 4096 + z * 64 + w) = [240 + x, 128 + y, 128 + z, 128 + w] \<and>
     scalar (x * 262144 + y * 4096 + z * 64 + w)"
    if "first_nat (240 + x)" "second_nat (240 + x) (128 + y)" "x < 8" "y < 64" "z < 64" "w < 64"
  proof -
    let ?n = "x * 262144 + y * 4096 + z * 64 + w"
    have n: "?n = ((x * 64 + y) * 64 + z) * 64 + w" by simp
    have n64: "?n div 64 = (x * 64 + y) * 64 + z" "?n mod 64 = w" unfolding n using that(6) by (rule base64)+
    have "?n div 4096 = ?n div 64 div 64" "?n div 262144 = ?n div 64 div 64 div 64"
      using div_mult2_eq [of ?n 64 64] div_mult2_eq [of ?n 4096 64] by simp_all
    then have d: "?n div 262144 = x" "?n div 4096 mod 64 = y" "?n div 64 mod 64 = z" "?n mod 64 = w"
      unfolding n64 by (simp_all only: base64 [OF that(4)] base64 [OF that(5)])
    have "x = 0 \<longrightarrow> 16 \<le> y" "x = 4 \<longrightarrow> y \<le> 15" "x \<le> 4" using that(1,2) by (auto simp: second_nat_def first_nat_def)
    moreover consider "x = 0" | "1 \<le> x" "x \<le> 3" | "x = 4" using \<open>x \<le> 4\<close> by linarith
    then have "0x10000 \<le> ?n \<and> ?n < 0x110000" by cases (use calculation that(3-6) in auto)
    then show ?thesis by (simp add: utf8_ref_def d scalar_def)
  qed
qed

lemma decodes_utf8_ref:
  assumes "decodes s k ch" and "clean s"
  shows "\<exists>n r. scalar n \<and> s = map of_nat (utf8_ref n) @ r"
proof -
  have rep: "\<exists>a. b = of_nat a \<and> a < 256" for b :: UTF8
    using unsigned_less [of b] by (intro exI [of _ "unat b"]) simp
  from assms(1) obtain b s' where s: "s = b # s'" by (cases s) (auto simp: decodes_def)
  from rep [of b] obtain a where a: "b = of_nat a" "a < 256" by blast
  have leg: "isLegalUTF8 s (k + 1)" and lt: "k < length s" and k: "trailingBytesForUTF8 ! a = k"
    using assms(1) a s by (auto simp: decodes_def unat_byte)
  then have k3: "k < 4" by (auto simp: isLegalUTF8_def)
  consider (1) "k = 0" "a < 192" | (2) "k = 1" "192 \<le> a" "a < 224" | (3) "k = 2" "224 \<le> a" "a < 240"
    | (4) "k = 3" "240 \<le> a" "a < 248"
    using k k3 by (auto simp: trailing_nth [OF a(2)] split: if_splits)
  then show ?thesis
  proof cases
    case 1
    then have "first_nat a" using leg legal1 [OF a(2), of s'] by (simp add: s a)
    then show ?thesis using utf8_ref_inv(1) [of a] 1 by (intro exI [of _ a] exI [of _ s']) (simp add: s a)
  next
    case 2
    then obtain b1 r where s': "s' = b1 # r" using lt s by (cases s') auto
    obtain y where y: "b1 = of_nat y" "y < 256" using rep by blast
    obtain x where x: "a = 192 + x" using 2 by (metis le_Suc_ex)
    have L: "first_nat a \<and> second_nat a y" using leg legal2 [OF a(2) y(2), of r] 2 by (simp add: s s' a y numeral_2_eq_2)
    then obtain y' where y': "y = 128 + y'" "y' < 64" using 2 by (auto simp: second_nat_def dest!: le_Suc_ex split: if_splits)
    show ?thesis using utf8_ref_inv(2) [of x y'] L 2 x y'
      by (intro exI [of _ "x * 64 + y'"] exI [of _ r]) (simp add: s s' a y)
  next
    case 3
    then obtain b1 b2 r where s': "s' = b1 # b2 # r" using lt s by (cases s'; cases "tl s'") auto
    obtain y z where y: "b1 = of_nat y" "y < 256" "b2 = of_nat z" "z < 256" using rep by blast
    obtain x where x: "a = 224 + x" using 3 by (metis le_Suc_ex)
    have L: "second_nat a y" "cont_nat z" using leg legal3 [OF a(2) y(2,4), of r] 3 by (simp_all add: s s' a y)
    moreover have "a = 237 \<longrightarrow> 128 \<le> y" using assms(2) s s' a y legal_nat(3) [of y] by auto
    ultimately have "128 \<le> y" "y < 192" using 3 by (auto simp: second_nat_def split: if_splits)
    then obtain y' where y': "y = 128 + y'" "y' < 64" by (auto dest!: le_Suc_ex)
    obtain z' where z': "z = 128 + z'" "z' < 64" using L(2) by (auto simp: cont_nat_def dest!: le_Suc_ex)
    show ?thesis using utf8_ref_inv(3) [of x y' z'] L 3 x y' z'
      by (intro exI [of _ "x * 4096 + y' * 64 + z'"] exI [of _ r]) (simp add: s s' a y)
  next
    case 4
    then obtain b1 b2 b3 r where s': "s' = b1 # b2 # b3 # r"
      using lt s by (cases s'; cases "tl s'"; cases "tl (tl s')") auto
    obtain y z w where y: "b1 = of_nat y" "y < 256" "b2 = of_nat z" "z < 256" "b3 = of_nat w" "w < 256" using rep by blast
    obtain x where x: "a = 240 + x" using 4 by (metis le_Suc_ex)
    have L: "first_nat a" "second_nat a y" "cont_nat z" "cont_nat w"
      using leg legal4 [OF a(2) y(2,4,6), of r] 4 by (simp_all add: s s' a y)
    moreover have "a = 244 \<longrightarrow> 128 \<le> y" using assms(2) s s' a y legal_nat(3) [of y] by auto
    ultimately have "128 \<le> y" "y < 192" using 4 by (auto simp: second_nat_def split: if_splits)
    then obtain y' where y': "y = 128 + y'" "y' < 64" by (auto dest!: le_Suc_ex)
    obtain z' where z': "z = 128 + z'" "z' < 64" using L(3) by (auto simp: cont_nat_def dest!: le_Suc_ex)
    obtain w' where w': "w = 128 + w'" "w' < 64" using L(4) by (auto simp: cont_nat_def dest!: le_Suc_ex)
    show ?thesis using utf8_ref_inv(4) [of x y' z' w'] L 4 x y' z' w'
      by (intro exI [of _ "x * 262144 + y' * 4096 + z' * 64 + w'"] exI [of _ r]) (simp add: s s' a y)
  qed
qed

section \<open>UTF-16\<close>

definition utf16 :: "UTF32 \<Rightarrow> UTF16 list" where
  "utf16 ch = (if ch \<le> UNI_MAX_BMP then [ucast ch] else surrogates ch)"

abbreviation scalar_char :: "UTF32 \<Rightarrow> bool" where
  "scalar_char ch \<equiv> scalar (unat ch)"

lemma scalar_char_cases:
  assumes "scalar_char ch"
  shows "ch \<le> 0x10FFFF" "\<not> (0xD800 \<le> ch \<and> ch \<le> 0xDFFF)"
  using assms by (auto simp: scalar_def word_le_nat_alt)

lemma surrogates_nat:
  assumes "0x10000 \<le> n" and "n < 0x110000"
  shows "surrogates (of_nat n) = [of_nat (0xD800 + (n - 0x10000) div 1024), of_nat (0xDC00 + (n - 0x10000) mod 1024)]"
proof -
  define m where "m = n - 0x10000"
  have m: "m < 0x100000" "n = m + 0x10000" using assms by (simp_all add: m_def)
  then have "(of_nat n :: UTF32) - 0x10000 = of_nat m" by simp
  moreover have "(of_nat m :: UTF32) AND 0x3FF = of_nat (m mod 1024)"
    using take_bit_of_nat32 [of m 10] m(1) by (simp add: take_bit_eq_mask mask_eq_exp_minus_1)
  moreover have "drop_bit 10 (of_nat m :: UTF32) = of_nat (m div 1024)" using drop_bit_of_nat32 [of m 10] m(1) by simp
  moreover have "ucast (of_nat (m div 1024 + 0xD800) :: UTF32) = (of_nat (m div 1024 + 0xD800) :: UTF16)"
    "ucast (of_nat (m mod 1024 + 0xDC00) :: UTF32) = (of_nat (m mod 1024 + 0xDC00) :: UTF16)"
    using m(1) by (intro ucast_of_nat_small; simp)+
  ultimately show ?thesis by (simp add: surrogates_def m_def [symmetric] add.commute)
qed

lemma read_utf16_pair:
  assumes "0x10000 \<le> n" and "n < 0x110000"
  shows "read_utf16 flags (of_nat (0xD800 + (n - 0x10000) div 1024)) (of_nat (0xDC00 + (n - 0x10000) mod 1024) # r) =
    Inr (of_nat n, r)"
proof -
  define h l where "h = (n - 0x10000) div 1024" and "l = (n - 0x10000) mod 1024"
  have hl: "h < 1024" "l < 1024" "n = h * 1024 + l + 0x10000" using assms by (auto simp: h_def l_def)
  have u: "ucast (of_nat (0xD800 + h) :: UTF16) = (of_nat (0xD800 + h) :: UTF32)"
    "ucast (of_nat (0xDC00 + l) :: UTF16) = (of_nat (0xDC00 + l) :: UTF32)"
    using hl by (intro ucast_of_nat_small; simp)+
  have v: "unat (of_nat (0xD800 + h) :: UTF32) = 0xD800 + h" "unat (of_nat (0xDC00 + l) :: UTF32) = 0xDC00 + l"
    using hl by (simp_all add: unat_of_nat32 del: of_nat_add)
  have "join_surrogates (of_nat (0xD800 + h)) (of_nat (0xDC00 + l)) = of_nat n"
    by (simp add: join_surrogates_def push_bit_eq_mult hl(3))
  then show ?thesis
    unfolding h_def [symmetric] l_def [symmetric]
    using hl u v by (simp add: read_utf16_def Let_def word_le_nat_alt del: of_nat_add)
qed

lemma read_utf16_utf16:
  assumes "scalar_char ch"
  shows "\<exists>u us. utf16 ch = u # us \<and> read_utf16 flags u (us @ r) = Inr (ch, r)"
proof (cases "ch \<le> 0xFFFF")
  case True
  then have n: "unat ch \<le> 0xFFFF" by (simp add: word_le_nat_alt)
  have "ucast (ucast ch :: UTF16) = ch"
    using ucast_of_nat_small [of "unat ch", where 'a = 32 and 'b = 16]
      ucast_of_nat_small [of "unat ch", where 'a = 16 and 'b = 32] n by simp
  then show ?thesis using True scalar_char_cases(2) [OF assms] n
    by (auto simp: utf16_def read_utf16_def Let_def word_le_nat_alt)
next
  case False
  then have "0x10000 \<le> unat ch" "unat ch < 0x110000" using assms by (auto simp: word_le_nat_alt scalar_def)
  from surrogates_nat [OF this] read_utf16_pair [OF this] False show ?thesis by (simp add: utf16_def)
qed


section \<open>Whole strings\<close>

lemma put_simps [simp]: "put ts (r, s, out) = (r, s, ts @ out)"
  by (simp add: put_def)

lemma put_eq_iff [simp]: "put ts c = (r, s, out) \<longleftrightarrow> (\<exists>out'. c = (r, s, out') \<and> out = ts @ out')"
  by (cases c) auto

lemma utf8_decodes: "scalar_char ch \<Longrightarrow> decodes (utf8 ch @ r) (length (utf8 ch) - 1) ch"
  using utf8_ref_decodes [of "unat ch" r] by (simp add: utf8_def)

lemma utf8_length [simp]: "utf8 ch \<noteq> []" "0 < length (utf8 ch)"
  by (auto simp: utf8_def utf8_ref_def)

text \<open>The loops from UTF-8, one character at a time.\<close>

lemma utf8_to_32_decodes:
  assumes "decodes s k ch"
  shows "utf8_to_32 flags result s room =
    (if room = 0 then (targetExhausted, s, [])
     else if ch \<le> UNI_MAX_LEGAL_UTF32 then
       (if UNI_SUR_HIGH_START \<le> ch \<and> ch \<le> UNI_SUR_LOW_END then
          (if flags = strictConversion then (sourceIllegal, s, [])
           else put [UNI_REPLACEMENT_CHAR] (utf8_to_32 flags result (drop (k + 1) s) (room - 1)))
        else put [ch] (utf8_to_32 flags result (drop (k + 1) s) (room - 1)))
     else put [UNI_REPLACEMENT_CHAR] (utf8_to_32 flags sourceIllegal (drop (k + 1) s) (room - 1)))"
  using assms by (cases s) (auto simp: decodes_def utf8_to_32.simps(2) Let_def)

lemma utf8_to_32_stuck:
  assumes "s \<noteq> []" and "\<forall>k ch. \<not> decodes s k ch"
  shows "\<exists>r \<in> {sourceExhausted, sourceIllegal}. utf8_to_32 flags result s room = (r, s, [])"
  using assms by (cases s) (auto simp: decodes_def utf8_to_32.simps(2) Let_def)

lemma utf8_to_32_scalar:
  assumes "decodes s k ch" and "scalar_char ch"
  shows "utf8_to_32 flags result s room =
    (if room = 0 then (targetExhausted, s, []) else put [ch] (utf8_to_32 flags result (drop (k + 1) s) (room - 1)))"
  using scalar_char_cases [OF assms(2)] by (auto simp: utf8_to_32_decodes [OF assms(1)])

lemma utf8_to_32_of_utf8:
  "\<forall>ch\<in>set cs. scalar_char ch \<Longrightarrow> length cs \<le> room \<Longrightarrow>
     utf8_to_32 flags result (concat (map utf8 cs)) room = (result, [], cs)"
proof (induction cs arbitrary: room)
  case (Cons ch cs)
  have "decodes (utf8 ch @ concat (map utf8 cs)) (length (utf8 ch) - 1) ch" "scalar_char ch"
    using Cons.prems utf8_decodes by simp_all
  from utf8_to_32_scalar [OF this] show ?case
    using Cons.IH [of "room - 1"] Cons.prems by (simp add: Suc_leI)
qed simp

lemma clean_drop: "clean s \<Longrightarrow> clean (drop k s)"
proof (induction k arbitrary: s)
  case (Suc k)
  then show ?case by (cases s rule: clean.cases) (auto simp: drop_Suc)
qed simp

lemma utf8_to_32_strict:
  "utf8_to_32 strictConversion conversionOK s room = (conversionOK, [], out) \<Longrightarrow> clean s \<Longrightarrow>
     s = concat (map utf8 out) \<and> (\<forall>ch\<in>set out. scalar_char ch) \<and> length out \<le> room"
proof (induction "length s" arbitrary: s room out rule: less_induct)
  case less
  show ?case
  proof (cases "s = []")
    case True
    then show ?thesis using less.prems(1) by simp
  next
    case False
    then obtain k ch where d: "decodes s k ch" using utf8_to_32_stuck [OF False, of strictConversion conversionOK room] less.prems(1) by (cases "\<forall>k ch. \<not> decodes s k ch") auto
    from decodes_utf8_ref [OF d less.prems(2)] obtain n r where n: "scalar n" "s = map of_nat (utf8_ref n) @ r" by blast
    have u: "unat (of_nat n :: UTF32) = n" using n(1) by (auto simp: scalar_def unat_of_nat32)
    have d': "decodes s (length (utf8_ref n) - 1) (of_nat n)" using utf8_ref_decodes [OF n(1)] n(2) by simp
    have sc: "scalar_char (of_nat n)" using n(1) u by simp
    have s: "s = utf8 (of_nat n) @ r" using n(2) u by (simp add: utf8_def)
    have len: "Suc (length (utf8_ref n) - 1) = length (utf8_ref n)" by (simp add: utf8_ref_def)
    have "drop (length (utf8_ref n) - 1 + 1) s = r" using n(2) len by simp
    with less.prems(1) obtain out' where o: "utf8_to_32 strictConversion conversionOK r (room - 1) = (conversionOK, [], out')"
      "out = of_nat n # out'" "0 < room"
      unfolding utf8_to_32_scalar [OF d' sc] by (auto split: if_splits)
    have "length r < length s" "clean r" using s clean_drop [OF less.prems(2), of "length (utf8 (of_nat n))"] by auto
    from less.hyps [OF this(1) o(1) this(2)] show ?thesis using s o sc by auto
  qed
qed


text \<open>The loops that write UTF-8.\<close>

lemma write_utf8_utf8:
  assumes "scalar_char ch"
  shows "write_utf8 (bytesToWrite ch) ch = utf8 ch" and "bytesToWrite ch = length (utf8 ch)"
proof -
  have "unat ch < 0x110000" using assms by (auto simp: scalar_def)
  from write_utf8_ref [OF this] show "write_utf8 (bytesToWrite ch) ch = utf8 ch" by (simp add: utf8_def)
  show "bytesToWrite ch = length (utf8 ch)"
    using assms by (auto simp: bytesToWrite_def utf8_def utf8_ref_def word_less_nat_alt scalar_def)
qed

lemma utf32_to_8_scalars:
  "\<forall>ch\<in>set cs. scalar_char ch \<Longrightarrow> length (concat (map utf8 cs)) \<le> room \<Longrightarrow>
     utf32_to_8 flags result cs room = (result, [], concat (map utf8 cs))"
proof (induction cs arbitrary: room)
  case (Cons ch cs)
  have sc: "scalar_char ch" using Cons.prems by simp
  have "utf32_to_8 flags result cs (room - length (utf8 ch)) = (result, [], concat (map utf8 cs))"
    using Cons.prems by (intro Cons.IH) auto
  then show ?case using Cons.prems scalar_char_cases [OF sc] write_utf8_utf8 [OF sc]
    by (auto simp: utf32_to_8.simps(2) Let_def)
qed simp

lemma length_surrogates: "length (surrogates ch) = 2"
  by (simp add: surrogates_def)

lemma utf8_to_16_scalar:
  assumes "decodes s k ch" and "scalar_char ch"
  shows "ConvertUTF8toUTF16 flags s room =
    (if room < length (utf16 ch) then (targetExhausted, s, [])
     else put (utf16 ch) (ConvertUTF8toUTF16 flags (drop (k + 1) s) (room - length (utf16 ch))))"
proof -
  obtain b bs where s: "s = b # bs" "trailingBytesForUTF8 ! unat b = k" "\<not> length (b # bs) \<le> k"
    "isLegalUTF8 (b # bs) (k + 1)" "read_utf8 k (b # bs) = ch" using assms(1) by (cases s) (auto simp: decodes_def)
  note sc = scalar_char_cases [OF assms(2)]
  show ?thesis
  proof (cases "ch \<le> 0xFFFF")
    case True
    then have "utf16 ch = [ucast ch]" by (simp add: utf16_def)
    then show ?thesis
      unfolding s(1) ConvertUTF8toUTF16.simps(2) Let_def s(2) if_not_P [OF s(3)] s(5) using True s(4) sc(2) by auto
  next
    case False
    then have "utf16 ch = surrogates ch" by (simp add: utf16_def)
    moreover have "room \<le> 1 \<longleftrightarrow> room < 2" by auto
    moreover have "\<not> ch > 0x10FFFF" using sc(1) by simp
    ultimately show ?thesis
      unfolding s(1) ConvertUTF8toUTF16.simps(2) Let_def s(2) if_not_P [OF s(3)] s(5)
      using False s(4) by (simp add: length_surrogates)
  qed
qed

lemma utf8_to_16_of_utf8:
  "\<forall>ch\<in>set cs. scalar_char ch \<Longrightarrow> length (concat (map utf16 cs)) \<le> room \<Longrightarrow>
     ConvertUTF8toUTF16 flags (concat (map utf8 cs)) room = (conversionOK, [], concat (map utf16 cs))"
proof (induction cs arbitrary: room)
  case (Cons ch cs)
  have "decodes (utf8 ch @ concat (map utf8 cs)) (length (utf8 ch) - 1) ch" "scalar_char ch"
    using Cons.prems utf8_decodes by simp_all
  from utf8_to_16_scalar [OF this] show ?case
    using Cons.IH [of "room - length (utf16 ch)"] Cons.prems by (simp add: Suc_leI)
qed simp

lemma utf16_to_8_of_utf16:
  "\<forall>ch\<in>set cs. scalar_char ch \<Longrightarrow> length (concat (map utf8 cs)) \<le> room \<Longrightarrow>
     ConvertUTF16toUTF8 flags (concat (map utf16 cs)) room = (conversionOK, [], concat (map utf8 cs))"
proof (induction cs arbitrary: room)
  case (Cons ch cs)
  have sc: "scalar_char ch" using Cons.prems by simp
  from read_utf16_utf16 [OF sc, of flags "concat (map utf16 cs)"] obtain u us where
    u: "utf16 ch = u # us" "read_utf16 flags u (us @ concat (map utf16 cs)) = Inr (ch, concat (map utf16 cs))" by blast
  have "ConvertUTF16toUTF8 flags (concat (map utf16 cs)) (room - length (utf8 ch)) = (conversionOK, [], concat (map utf8 cs))"
    using Cons.prems by (intro Cons.IH) auto
  moreover have "ch < 0x110000" using sc by (auto simp: scalar_def word_less_nat_alt)
  ultimately show ?case using Cons.prems write_utf8_utf8 [OF sc]
    by (simp add: u ConvertUTF16toUTF8.simps(2) Let_def)
qed simp

lemma utf16_to_32_of_utf16:
  "\<forall>ch\<in>set cs. scalar_char ch \<Longrightarrow> length cs \<le> room \<Longrightarrow>
     ConvertUTF16toUTF32 flags (concat (map utf16 cs)) room = (conversionOK, [], cs)"
proof (induction cs arbitrary: room)
  case (Cons ch cs)
  have sc: "scalar_char ch" using Cons.prems by simp
  from read_utf16_utf16 [OF sc, of flags "concat (map utf16 cs)"] obtain u us where
    u: "utf16 ch = u # us" "read_utf16 flags u (us @ concat (map utf16 cs)) = Inr (ch, concat (map utf16 cs))" by blast
  have "ConvertUTF16toUTF32 flags (concat (map utf16 cs)) (room - 1) = (conversionOK, [], cs)"
    using Cons.prems by (intro Cons.IH) auto
  then show ?case using Cons.prems by (simp add: u ConvertUTF16toUTF32.simps(2))
qed simp

lemma utf32_to_16_scalars:
  "\<forall>ch\<in>set cs. scalar_char ch \<Longrightarrow> length (concat (map utf16 cs)) \<le> room \<Longrightarrow>
     utf32_to_16 flags result cs room = (result, [], concat (map utf16 cs))"
proof (induction cs arbitrary: room)
  case (Cons ch cs)
  have sc: "scalar_char ch" using Cons.prems by simp
  have "utf32_to_16 flags result cs (room - length (utf16 ch)) = (result, [], concat (map utf16 cs))"
    using Cons.prems by (intro Cons.IH) auto
  then have IH: "put (utf16 ch) (utf32_to_16 flags result cs (room - length (utf16 ch))) =
    (result, [], utf16 ch @ concat (map utf16 cs))" by simp
  show ?case
  proof (cases "ch \<le> 0xFFFF")
    case True
    then have "utf16 ch = [ucast ch]" "0 < room" using Cons.prems by (simp_all add: utf16_def)
    then show ?thesis using IH True scalar_char_cases(2) [OF sc] by (auto simp: utf32_to_16.simps(2))
  next
    case False
    then have "utf16 ch = surrogates ch" "2 \<le> room" using Cons.prems by (simp_all add: utf16_def length_surrogates)
    moreover have "\<not> ch > 0x10FFFF" using scalar_char_cases(1) [OF sc] by simp
    ultimately show ?thesis using IH False by (simp add: utf32_to_16.simps(2) length_surrogates)
  qed
qed simp

section \<open>Bounds\<close>

text \<open>A conversion stays inside both ranges: it writes at most \<open>room\<close> units, stops at a position of the
  source, and at its end if all went well.\<close>

definition in_ranges :: "nat \<Rightarrow> 's list \<Rightarrow> ('s, 't) conv \<Rightarrow> bool" where
  "in_ranges room source c = (case c of (result, rest, out) \<Rightarrow>
     length out \<le> room \<and> (\<exists>n. rest = drop n source) \<and> (result = conversionOK \<longrightarrow> rest = []))"

lemma in_ranges_stop [simp]: "r \<noteq> conversionOK \<Longrightarrow> in_ranges room source (r, source, [])"
  by (auto simp: in_ranges_def intro: exI [of _ 0])

lemma in_ranges_Nil [simp]: "in_ranges room [] (r, [], [])"
  by (simp add: in_ranges_def)

lemma in_ranges_put:
  assumes "in_ranges (room - length ts) (drop n source) c" and "length ts \<le> room"
  shows "in_ranges room source (put ts c)"
  using assms by (cases c) (auto simp: in_ranges_def)

lemma in_ranges_skip: "in_ranges room (drop n source) c \<Longrightarrow> in_ranges room source c"
  by (cases c) (auto simp: in_ranges_def)

lemma in_ranges_if:
  "(b \<Longrightarrow> in_ranges room s x) \<Longrightarrow> (\<not> b \<Longrightarrow> in_ranges room s y) \<Longrightarrow> in_ranges room s (if b then x else y)"
  by simp

lemma length_write_trailing: "length (snd (write_trailing n ch)) = n"
  by (induction n arbitrary: ch) (simp_all add: case_prod_unfold)

lemma length_write_utf8: "length (write_utf8 (bytesToWrite ch) ch') = bytesToWrite ch"
proof -
  have "0 < bytesToWrite ch" by (simp add: bytesToWrite_def)
  then show ?thesis by (simp add: write_utf8_def case_prod_unfold length_write_trailing)
qed

lemma read_utf16_drop: "read_utf16 flags u source = Inr (ch, rest) \<Longrightarrow> \<exists>n. 0 < n \<and> rest = drop n (u # source)"
proof -
  assume "read_utf16 flags u source = Inr (ch, rest)"
  then consider "rest = source" | u2 where "source = u2 # rest"
    by (cases source) (simp_all add: read_utf16_def Let_def split: if_splits)
  then show ?thesis
  proof cases
    case 1
    then show ?thesis by (intro exI [of _ 1]) simp
  next
    case 2
    then show ?thesis by (intro exI [of _ 2]) simp
  qed
qed

lemma utf32_to_16_in_ranges: "in_ranges room source (utf32_to_16 flags result source room)"
proof (induction source arbitrary: result room)
  case (Cons ch source)
  have *: "in_ranges room (ch # source) (put ts (utf32_to_16 flags r source (room - k)))"
    if "length ts = k" "k \<le> room" for ts r k
    using in_ranges_put [of room ts 1 "ch # source"] Cons that by simp
  have **: "in_ranges room (ch # source) (utf32_to_16 flags r source room)" for r
    using in_ranges_skip [of room 1 "ch # source" "utf32_to_16 flags r source room"] Cons by simp
  show ?case unfolding utf32_to_16.simps(2)
    by (intro in_ranges_if * ** in_ranges_stop) (simp_all add: length_surrogates)
qed simp

lemma utf32_to_8_in_ranges: "in_ranges room source (utf32_to_8 flags result source room)"
proof (induction source arbitrary: result room)
  case (Cons ch source)
  have *: "in_ranges room (ch # source) (put ts (utf32_to_8 flags r source (room - k)))"
    if "length ts = k" "k \<le> room" for ts r k
    using in_ranges_put [of room ts 1 "ch # source"] Cons that by simp
  show ?case unfolding utf32_to_8.simps(2) Let_def
    by (intro in_ranges_if * in_ranges_stop) (simp_all add: length_write_utf8)
qed simp

lemma utf8_to_16_in_ranges: "in_ranges room source (ConvertUTF8toUTF16 flags source room)"
proof (induction "length source" arbitrary: source room rule: less_induct)
  case less
  show ?case
  proof (cases source)
    case (Cons b bs)
    have *: "in_ranges room (b # bs) (put ts (ConvertUTF8toUTF16 flags (drop (n + 1) (b # bs)) (room - k)))"
      if "length ts = k" "k \<le> room" for ts k n
      using in_ranges_put [of room ts "n + 1" "b # bs"] less [of "drop (n + 1) (b # bs)"] Cons that by simp
    show ?thesis unfolding Cons ConvertUTF8toUTF16.simps(2) Let_def
      by (intro in_ranges_if * in_ranges_stop) (simp_all add: length_surrogates)
  qed simp
qed

lemma utf8_to_32_in_ranges: "in_ranges room source (utf8_to_32 flags result source room)"
proof (induction "length source" arbitrary: source room result rule: less_induct)
  case less
  show ?case
  proof (cases source)
    case (Cons b bs)
    have *: "in_ranges room (b # bs) (put ts (utf8_to_32 flags r (drop (n + 1) (b # bs)) (room - k)))"
      if "length ts = k" "k \<le> room" for ts k n r
      using in_ranges_put [of room ts "n + 1" "b # bs"] less [of "drop (n + 1) (b # bs)"] Cons that by simp
    show ?thesis unfolding Cons utf8_to_32.simps(2) Let_def
      by (intro in_ranges_if * in_ranges_stop) simp_all
  qed simp
qed

lemma utf16_to_32_in_ranges: "in_ranges room source (ConvertUTF16toUTF32 flags source room)"
proof (induction "length source" arbitrary: source room rule: less_induct)
  case less
  show ?case
  proof (cases source)
    case (Cons u us)
    show ?thesis
    proof (cases "read_utf16 flags u us")
      case (Inl r)
      then have "r \<noteq> conversionOK" by (auto simp: read_utf16_def Let_def split: if_splits list.splits)
      then show ?thesis by (simp add: Cons ConvertUTF16toUTF32.simps(2) Inl)
    next
      case (Inr p)
      obtain ch rest where p: "p = (ch, rest)" by fastforce
      from read_utf16_drop Inr p obtain n where n: "0 < n" "rest = drop n (u # us)" by blast
      then have "in_ranges (room - 1) (drop n (u # us)) (ConvertUTF16toUTF32 flags rest (room - 1))"
        using less [of rest] Cons by simp
      then show ?thesis using in_ranges_put [of room "[ch]" n "u # us"]
        by (simp add: Cons ConvertUTF16toUTF32.simps(2) Inr p Suc_leI)
    qed
  qed simp
qed

lemma utf16_to_8_in_ranges: "in_ranges room source (ConvertUTF16toUTF8 flags source room)"
proof (induction "length source" arbitrary: source room rule: less_induct)
  case less
  show ?case
  proof (cases source)
    case (Cons u us)
    show ?thesis
    proof (cases "read_utf16 flags u us")
      case (Inl r)
      then have "r \<noteq> conversionOK" by (auto simp: read_utf16_def Let_def split: if_splits list.splits)
      then show ?thesis by (simp add: Cons ConvertUTF16toUTF8.simps(2) Inl)
    next
      case (Inr p)
      obtain ch rest where p: "p = (ch, rest)" by fastforce
      from read_utf16_drop Inr p obtain n where n: "0 < n" "rest = drop n (u # us)" by blast
      then have IH: "in_ranges r (drop n (u # us)) (ConvertUTF16toUTF8 flags rest r)" for r
        using less [of rest] Cons by simp
      have "in_ranges room (u # us) (put (write_utf8 (bytesToWrite ch) c) (ConvertUTF16toUTF8 flags rest (room - bytesToWrite ch)))"
        if "\<not> room < bytesToWrite ch" for c
        using in_ranges_put [of room "write_utf8 (bytesToWrite ch) c" n "u # us"] IH that by (simp add: length_write_utf8)
      then show ?thesis by (simp add: Cons ConvertUTF16toUTF8.simps(2) Inr p Let_def)
    qed
  qed simp
qed

section \<open>The conversions are correct\<close>

text \<open>C34: Round trips between all encodings: for every string of Unicode scalar values and buffers that
  are large enough, strict or lenient, each of the six conversions ends at the end of its source
  with \<open>conversionOK\<close> and yields exactly the other encoding of the same string, the UTF-8 bytes
  being those of the standard's bit distribution.\<close>

theorem utf_round_trips:
  assumes "\<forall>ch\<in>set cs. scalar_char ch" and "length (concat (map utf8 cs)) \<le> room8"
    and "length (concat (map utf16 cs)) \<le> room16" and "length cs \<le> room32"
  shows "ConvertUTF32toUTF8 flags cs room8 = (conversionOK, [], concat (map utf8 cs)) \<and>
    ConvertUTF8toUTF32 flags (concat (map utf8 cs)) room32 = (conversionOK, [], cs) \<and>
    ConvertUTF32toUTF16 flags cs room16 = (conversionOK, [], concat (map utf16 cs)) \<and>
    ConvertUTF16toUTF32 flags (concat (map utf16 cs)) room32 = (conversionOK, [], cs) \<and>
    ConvertUTF8toUTF16 flags (concat (map utf8 cs)) room16 = (conversionOK, [], concat (map utf16 cs)) \<and>
    ConvertUTF16toUTF8 flags (concat (map utf16 cs)) room8 = (conversionOK, [], concat (map utf8 cs))"
  using assms
  by (simp add: ConvertUTF32toUTF8_def ConvertUTF8toUTF32_def ConvertUTF32toUTF16_def utf32_to_8_scalars
      utf8_to_32_of_utf8 utf32_to_16_scalars utf16_to_32_of_utf16 utf8_to_16_of_utf8 utf16_to_8_of_utf16)

theorem utf_round_trips_witness:
  "ConvertUTF8toUTF16 strictConversion [0xF0, 0x9F, 0x98, 0x80] 2 = (conversionOK, [], [0xD83D, 0xDE00]) \<and>
   ConvertUTF16toUTF8 strictConversion [0xD83D, 0xDE00] 4 = (conversionOK, [], [0xF0, 0x9F, 0x98, 0x80])"
proof -
  have "utf8 0x1F600 = [0xF0, 0x9F, 0x98, 0x80]" "utf16 0x1F600 = [0xD83D, 0xDE00]" "scalar_char 0x1F600"
    by (simp_all add: utf8_def utf8_ref_def utf16_def surrogates_def scalar_def)
  then show ?thesis using utf_round_trips [of "[0x1F600]" 4 2 1 strictConversion] by simp
qed

text \<open>C35: Strict decoding of UTF-8 accepts exactly the well-formed strings: for sources in which no ED or F4
  is followed by a byte below 80, \<open>ConvertUTF8toUTF32\<close> succeeds with \<open>out\<close> if and only if the source is
  the encoding of \<open>out\<close>, all of whose elements are scalar values, and \<open>out\<close> fits. Overlong forms,
  surrogates and values beyond 10FFFF are rejected.\<close>

theorem utf8_strict_decode:
  assumes "clean source"
  shows "ConvertUTF8toUTF32 strictConversion source room = (conversionOK, [], out) \<longleftrightarrow>
    source = concat (map utf8 out) \<and> list_all scalar_char out \<and> length out \<le> room"
proof
  assume "ConvertUTF8toUTF32 strictConversion source room = (conversionOK, [], out)"
  then show "source = concat (map utf8 out) \<and> list_all scalar_char out \<and> length out \<le> room"
    using utf8_to_32_strict [OF _ assms] by (simp add: ConvertUTF8toUTF32_def list_all_iff)
next
  assume "source = concat (map utf8 out) \<and> list_all scalar_char out \<and> length out \<le> room"
  then show "ConvertUTF8toUTF32 strictConversion source room = (conversionOK, [], out)"
    by (simp add: ConvertUTF8toUTF32_def list_all_iff utf8_to_32_of_utf8)
qed

theorem utf8_strict_decode_witness:
  "ConvertUTF8toUTF32 strictConversion [0xC0, 0x80] 9 \<noteq> (conversionOK, [], [0])"
  using utf8_strict_decode [of "[0xC0, 0x80]" 9 "[0]"] by (simp add: utf8_def utf8_ref_def)

text \<open>
  The exception is real: ED followed by a byte below 80 passes the legality test and is decoded as
  a character.
\<close>

lemma ill_formed_accepted:
  "ConvertUTF8toUTF32 strictConversion [0xED, 0x41, 0x80] 1 = (conversionOK, [], [0xC040])"
  by (simp add: ConvertUTF8toUTF32_def utf8_to_32.simps trailing_nth isLegalUTF8_def second_ok_def read_utf8_def
      offsetsFromUTF8_def Let_def push_bit_eq_mult)

text \<open>No conversion writes past its target or moves its source pointer out of its range, for any input,
  valid or not, any room and either flag; and \<open>conversionOK\<close> means that the whole source was read.\<close>

lemma utf_in_ranges:
  "in_ranges room s32 (ConvertUTF32toUTF16 flags s32 room) \<and> in_ranges room s32 (ConvertUTF32toUTF8 flags s32 room) \<and>
   in_ranges room s16 (ConvertUTF16toUTF32 flags s16 room) \<and> in_ranges room s16 (ConvertUTF16toUTF8 flags s16 room) \<and>
   in_ranges room s8 (ConvertUTF8toUTF16 flags s8 room) \<and> in_ranges room s8 (ConvertUTF8toUTF32 flags s8 room)"
  by (simp add: ConvertUTF32toUTF16_def ConvertUTF32toUTF8_def ConvertUTF8toUTF32_def utf32_to_16_in_ranges
      utf32_to_8_in_ranges utf16_to_32_in_ranges utf16_to_8_in_ranges utf8_to_16_in_ranges utf8_to_32_in_ranges)

end
