(* ===== verification/Libc_Support.thy ===== *)
theory Libc_Support
  imports Prelude
begin

text \<open>
  The crash handler's own string functions (\<open>breakpad/src/common/linux/linux_libc_support.cc\<close>), which
  it uses instead of libc while the process is in an unknown state. A pointer into a buffer is the
  list of bytes from there to the end of the buffer, so that reading past the buffer is a fault.
\<close>

section \<open>Characters\<close>

text \<open>\<open>char\<close> is signed on x86 and unsigned on ARM: the value of a byte depends on the target.\<close>

definition c_char :: "bool \<Rightarrow> byte \<Rightarrow> int" where
  "c_char sg b = (if sg then sint b else uint b)"

definition is_digit :: "bool \<Rightarrow> byte \<Rightarrow> bool" where
  "is_digit sg b \<longleftrightarrow> 48 \<le> c_char sg b \<and> c_char sg b \<le> 57"

section \<open>Length, comparison, search\<close>

fun my_strlen_from :: "nat \<Rightarrow> block \<Rightarrow> nat res" where
  "my_strlen_from len [] = Inl OutOfBounds"
| "my_strlen_from len (c # s) = (if c = 0 then Inr len else my_strlen_from (len + 1) s)"

definition my_strlen :: "block \<Rightarrow> nat res" where
  "my_strlen s = my_strlen_from 0 s"

fun my_strcmp :: "bool \<Rightarrow> block \<Rightarrow> block \<Rightarrow> int res" where
  "my_strcmp sg (a # as) (b # bs) =
     (if c_char sg a < c_char sg b then Inr (- 1)
      else if c_char sg a > c_char sg b then Inr 1
      else if a = 0 then Inr 0
      else my_strcmp sg as bs)"
| "my_strcmp sg _ _ = Inl OutOfBounds"

fun my_strncmp :: "bool \<Rightarrow> block \<Rightarrow> block \<Rightarrow> nat \<Rightarrow> int res" where
  "my_strncmp sg a b 0 = Inr 0"
| "my_strncmp sg (a # as) (b # bs) (Suc len) =
     (if c_char sg a < c_char sg b then Inr (- 1)
      else if c_char sg a > c_char sg b then Inr 1
      else if a = 0 then Inr 0
      else my_strncmp sg as bs len)"
| "my_strncmp sg _ _ (Suc len) = Inl OutOfBounds"

text \<open>The search functions return the offset of what they found, \<open>None\<close> for a null pointer.\<close>

fun my_strchr_from :: "nat \<Rightarrow> block \<Rightarrow> byte \<Rightarrow> nat option res" where
  "my_strchr_from p [] needle = Inl OutOfBounds"
| "my_strchr_from p (c # s) needle =
     (if c \<noteq> 0 \<and> c \<noteq> needle then my_strchr_from (p + 1) s needle
      else if c = needle then Inr (Some p) else Inr None)"

definition my_strchr :: "block \<Rightarrow> byte \<Rightarrow> nat option res" where
  "my_strchr haystack needle = my_strchr_from 0 haystack needle"

fun my_strrchr_from :: "nat option \<Rightarrow> nat \<Rightarrow> block \<Rightarrow> byte \<Rightarrow> nat option res" where
  "my_strrchr_from r p [] needle = Inl OutOfBounds"
| "my_strrchr_from r p (c # s) needle =
     (if c = 0 then Inr r
      else my_strrchr_from (if c = needle then Some p else r) (p + 1) s needle)"

definition my_strrchr :: "block \<Rightarrow> byte \<Rightarrow> nat option res" where
  "my_strrchr haystack needle = my_strrchr_from None 0 haystack needle"

fun my_memchr_from :: "nat \<Rightarrow> block \<Rightarrow> int \<Rightarrow> nat \<Rightarrow> nat option res" where
  "my_memchr_from p src needle 0 = Inr None"
| "my_memchr_from p [] needle (Suc n) = Inl OutOfBounds"
| "my_memchr_from p (c # s) needle (Suc n) =
     (if uint c = needle then Inr (Some p) else my_memchr_from (p + 1) s needle n)"

definition my_memchr :: "block \<Rightarrow> int \<Rightarrow> nat \<Rightarrow> nat option res" where
  "my_memchr src needle src_len = my_memchr_from 0 src needle src_len"

section \<open>Numbers\<close>

text \<open>
  \<open>my_strtoui\<close>: \<open>Inr None\<close> is the result \<open>false\<close>. The accumulator is an \<open>int\<close>, so a number that
  does not fit overflows in the product or the sum before the test \<open>r < old_r\<close> sees it.
\<close>

fun my_strtoui_from :: "bool \<Rightarrow> int \<Rightarrow> block \<Rightarrow> int option res" where
  "my_strtoui_from sg r [] = Inl OutOfBounds"
| "my_strtoui_from sg r (c # s) =
     (if c = 0 then Inr (Some r)
      else res_bind (c_mul r 10) (\<lambda>r1.
        if c_char sg c < 48 \<or> c_char sg c > 57 then Inr None
        else res_bind (c_add r1 (c_char sg c - 48)) (\<lambda>r2.
          if r2 < r then Inr None else my_strtoui_from sg r2 s)))"

definition my_strtoui :: "bool \<Rightarrow> block \<Rightarrow> int option res" where
  "my_strtoui sg s =
     (case s of [] \<Rightarrow> Inl OutOfBounds
      | c # _ \<Rightarrow> if c = 0 then Inr None else my_strtoui_from sg 0 s)"

function my_uint_len_from :: "nat \<Rightarrow> 64 word \<Rightarrow> nat" where
  "my_uint_len_from len i = (if i \<noteq> 0 then my_uint_len_from (len + 1) (i div 10) else len)"
  by pat_completeness auto
termination
  by (relation "measure (\<lambda>(len, i). unat i)") (auto simp: unat_div unat_gt_0)

declare my_uint_len_from.simps [simp del]

definition my_uint_len :: "64 word \<Rightarrow> nat" where
  "my_uint_len i = (if i = 0 then 1 else my_uint_len_from 0 i)"

fun my_uitos :: "block \<Rightarrow> 64 word \<Rightarrow> nat \<Rightarrow> block res" where
  "my_uitos output i 0 = Inr output"
| "my_uitos output i (Suc index) =
     (if index < length output
      then my_uitos (output[index := ucast (48 + i mod 10)]) (i div 10) index
      else Inl OutOfBounds)"

text \<open>
  The two readers return the value and the number of characters read; \<open>uintptr_t\<close> has 32 or 64
  bits depending on the target.
\<close>

definition hex_value :: "bool \<Rightarrow> byte \<Rightarrow> int option" where
  "hex_value sg c =
     (if 48 \<le> c_char sg c \<and> c_char sg c \<le> 57 then Some (c_char sg c - 48)
      else if 97 \<le> c_char sg c \<and> c_char sg c \<le> 102 then Some (c_char sg c - 97 + 10)
      else if 65 \<le> c_char sg c \<and> c_char sg c \<le> 70 then Some (c_char sg c - 65 + 10)
      else None)"

fun my_read_hex_from :: "bool \<Rightarrow> 'w::len word \<Rightarrow> nat \<Rightarrow> block \<Rightarrow> ('w word \<times> nat) res" where
  "my_read_hex_from sg r p [] = Inl OutOfBounds"
| "my_read_hex_from sg r p (c # s) =
     (case hex_value sg c of
        None \<Rightarrow> Inr (r, p)
      | Some d \<Rightarrow> my_read_hex_from sg (push_bit 4 r + of_int d) (p + 1) s)"

definition my_read_hex_ptr :: "bool \<Rightarrow> block \<Rightarrow> ('w::len word \<times> nat) res" where
  "my_read_hex_ptr sg s = my_read_hex_from sg 0 0 s"

fun my_read_decimal_from :: "bool \<Rightarrow> 'w::len word \<Rightarrow> nat \<Rightarrow> block \<Rightarrow> ('w word \<times> nat) res" where
  "my_read_decimal_from sg r p [] = Inl OutOfBounds"
| "my_read_decimal_from sg r p (c # s) =
     (if 48 \<le> c_char sg c \<and> c_char sg c \<le> 57
      then my_read_decimal_from sg (r * 10 + of_int (c_char sg c - 48)) (p + 1) s
      else Inr (r, p))"

definition my_read_decimal_ptr :: "bool \<Rightarrow> block \<Rightarrow> ('w::len word \<times> nat) res" where
  "my_read_decimal_ptr sg s = my_read_decimal_from sg 0 0 s"

section \<open>Writing\<close>

fun my_memset :: "nat \<Rightarrow> byte \<Rightarrow> nat \<Rightarrow> block \<Rightarrow> block res" where
  "my_memset p c 0 B = Inr B"
| "my_memset p c (Suc len) B = (if p < length B then my_memset (p + 1) c len (B[p := c]) else Inl OutOfBounds)"

lemma my_memset_ok:
  "p + len \<le> length B \<Longrightarrow> my_memset p c len B = Inr (take p B @ replicate len c @ drop (p + len) B)"
proof (induction p c len B rule: my_memset.induct)
  case (2 p c len B)
  then show ?case by (simp add: take_Suc_conv_app_nth drop_update_cancel)
qed simp

text \<open>\<open>my_strlcpy\<close> into \<open>s1\<close> from position \<open>at\<close> on: the new buffer and the length of the source.\<close>

fun my_strlcpy_from :: "nat \<Rightarrow> block \<Rightarrow> block \<Rightarrow> nat \<Rightarrow> nat \<Rightarrow> nat \<Rightarrow> (block \<times> nat) res" where
  "my_strlcpy_from at s1 [] pos1 pos2 len = Inl OutOfBounds"
| "my_strlcpy_from at s1 (c # s2) pos1 pos2 len =
     (if c \<noteq> 0 then
        (if pos1 + 1 < len then
           (if at + pos1 < length s1
            then my_strlcpy_from at (s1[at + pos1 := c]) s2 (pos1 + 1) (pos2 + 1) len
            else Inl OutOfBounds)
         else my_strlcpy_from at s1 s2 pos1 (pos2 + 1) len)
      else if len > 0 then
        (if at + pos1 < length s1 then Inr (s1[at + pos1 := 0], pos2) else Inl OutOfBounds)
      else Inr (s1, pos2))"

definition my_strlcpy :: "nat \<Rightarrow> block \<Rightarrow> block \<Rightarrow> nat \<Rightarrow> (block \<times> nat) res" where
  "my_strlcpy at s1 s2 len = my_strlcpy_from at s1 s2 0 0 len"

fun find_end :: "block \<Rightarrow> nat \<Rightarrow> nat \<Rightarrow> nat res" where
  "find_end s1 pos1 0 = Inr pos1"
| "find_end [] pos1 (Suc n) = Inl OutOfBounds"
| "find_end (c # s1) pos1 (Suc n) = (if c \<noteq> 0 then find_end s1 (pos1 + 1) n else Inr pos1)"

definition my_strlcat :: "block \<Rightarrow> block \<Rightarrow> nat \<Rightarrow> (block \<times> nat) res" where
  "my_strlcat s1 s2 len = res_bind (find_end s1 0 len) (\<lambda>pos1.
     if pos1 = len then Inr (s1, pos1)
     else res_bind (my_strlcpy pos1 s1 s2 (len - pos1)) (\<lambda>(s1', n). Inr (s1', pos1 + n)))"

text \<open>\<open>spaces[]\<close> with the terminating NUL that \<open>sizeof\<close> counts.\<close>

definition spaces :: "int list" where
  "spaces = [32, 9, 12, 10, 13, 9, 11, 0]"

definition my_isspace :: "int \<Rightarrow> int" where
  "my_isspace ch = (if ch \<in> set spaces then 1 else 0)"

section \<open>Decimal digits\<close>

definition digit_byte :: "nat \<Rightarrow> byte" where
  "digit_byte d = 48 + of_nat d"

fun digits :: "nat \<Rightarrow> nat list" where
  "digits n = (if n < 10 then [n] else digits (n div 10) @ [n mod 10])"

declare digits.simps [simp del]

fun pad :: "nat \<Rightarrow> nat \<Rightarrow> nat list" where
  "pad 0 n = []"
| "pad (Suc k) n = pad k (n div 10) @ [n mod 10]"

lemma digits_small: "d \<in> set (digits n) \<Longrightarrow> d < 10"
  by (induction n rule: digits.induct) (subst (asm) (2) digits.simps, auto split: if_splits)

lemma length_digits_pos [simp]: "digits n \<noteq> []"
  by (subst digits.simps) simp

lemma pad_digits: "pad (length (digits n)) n = digits n"
proof (induction n rule: digits.induct)
  case (1 n)
  then show ?case by (cases "n < 10") (simp_all add: digits.simps [of n])
qed

lemma dec_nat_digits: "dec_nat n = map (\<lambda>d. char_of (48 + d)) (digits n)"
proof (induction n rule: digits.induct)
  case (1 n)
  then show ?case by (cases "n < 10") (simp_all add: digits.simps [of n] dec_nat.simps [of n])
qed

text \<open>Reading the digits back, in any semiring: the value of a digit string.\<close>

lemma digits_value: "foldl (\<lambda>r d. r * 10 + of_nat d) 0 (digits n) = (of_nat n :: 'a::comm_semiring_1)"
proof (induction n rule: digits.induct)
  case (1 n)
  show ?case
  proof (cases "n < 10")
    case True
    then show ?thesis by (simp add: digits.simps [of n])
  next
    case False
    have "(of_nat (n div 10) :: 'a) * 10 + of_nat (n mod 10) = of_nat (n div 10 * 10 + n mod 10)"
      by (simp only: of_nat_add of_nat_mult of_nat_numeral)
    then show ?thesis using False 1 by (simp add: digits.simps [of n])
  qed
qed

lemma c_char_digit [simp]: "d < 10 \<Longrightarrow> c_char sg (digit_byte d) = 48 + int d"
proof -
  assume "d < 10"
  then have "d \<in> {0, 1, 2, 3, 4, 5, 6, 7, 8, 9}" by auto
  then show ?thesis by (elim insertE) (simp_all add: c_char_def digit_byte_def)
qed

lemma digit_byte_nonzero [simp]: "d < 10 \<Longrightarrow> digit_byte d \<noteq> 0"
  using c_char_digit [of d False] by (auto simp: c_char_def)

lemma of_char_char_of: "of_char (char_of n) = (of_nat (n mod 256) :: 'a::comm_semiring_1)" for n :: nat
  using of_nat_of_char [of "char_of n", where 'a = 'a] by simp

section \<open>Comparing\<close>

lemma c_char_inj: "c_char sg a = c_char sg b \<longleftrightarrow> a = b"
  by (auto simp: c_char_def intro: signed_word_eqI unsigned_word_eqI)

lemma uint_pos: "x \<noteq> 0 \<Longrightarrow> 0 < uint x" for x :: byte
  by (simp add: order_less_le uint_0_iff)

lemma my_strcmp_same:
  "0 \<notin> set a \<Longrightarrow> 0 \<notin> set b \<Longrightarrow> \<exists>k. my_strcmp False (a @ 0 # r) (b @ 0 # r') = Inr k \<and> (k = 0 \<longleftrightarrow> a = b)"
proof (induction a arbitrary: b)
  case Nil
  then show ?case by (cases b) (auto simp: c_char_def uint_pos)
next
  case (Cons x a)
  show ?case
  proof (cases b)
    case Nil
    then show ?thesis using Cons.prems by (auto simp: c_char_def uint_pos dest: uint_pos)
  next
    case (Cons y b')
    then show ?thesis using Cons.IH [of b'] Cons.prems by (auto simp: c_char_def word_uint_eq_iff)
  qed
qed

text \<open>A comparison with a key tests for a prefix and reads nothing behind the end of the string.\<close>

lemma strncmp_key:
  "0 \<notin> set key \<Longrightarrow> 0 \<notin> set l \<Longrightarrow>
     \<exists>v. my_strncmp sg (key @ r) (l @ 0 # rest) (length key) = Inr v \<and> (v = 0 \<longleftrightarrow> take (length key) l = key)"
proof (induction key arbitrary: l)
  case (Cons k key)
  show ?case
  proof (cases l)
    case Nil
    then show ?thesis using Cons.prems by (auto simp: c_char_inj [symmetric, of k 0 sg])
  next
    case l: (Cons c cs)
    show ?thesis
    proof (cases "k = c")
      case True
      then show ?thesis using Cons.IH [of cs] Cons.prems l by auto
    next
      case False
      then have "c_char sg k \<noteq> c_char sg c" by (simp add: c_char_inj)
      then show ?thesis using l by auto
    qed
  qed
qed simp

section \<open>Printing\<close>

lemma my_uitos_ok:
  "k \<le> length out \<Longrightarrow> my_uitos out i k = Inr (map digit_byte (pad k (unat i)) @ drop k out)"
proof (induction k arbitrary: out i)
  case (Suc k)
  have "unat (48 + i mod 10) = 48 + unat i mod 10" by (simp add: unat_word_ariths)
  then have "ucast (48 + i mod 10) = digit_byte (unat i mod 10)"
    using of_nat_unat [of "48 + i mod 10", where 'a = "8 word"] by (simp add: digit_byte_def)
  with Suc show ?case
    by (simp add: unat_div Cons_nth_drop_Suc [symmetric] drop_update_swap)
qed simp

lemma my_uint_len_from_digits:
  "my_uint_len_from len i = len + (if i = 0 then 0 else length (digits (unat i)))"
proof (induction len i rule: my_uint_len_from.induct)
  case (1 len i)
  show ?case
  proof (cases "i = 0")
    case True
    then show ?thesis by (simp add: my_uint_len_from.simps)
  next
    case False
    have "i div 10 = 0 \<longleftrightarrow> unat i < 10"
      by (simp add: unat_eq_zero [symmetric] unat_div div_eq_0_iff del: unat_eq_zero)
    then show ?thesis using False 1 [OF False]
      by (subst my_uint_len_from.simps) (simp add: unat_div digits.simps [of "unat i"])
  qed
qed

lemma my_uint_len_digits: "my_uint_len i = length (digits (unat i))"
  by (simp add: my_uint_len_def my_uint_len_from_digits digits.simps [of 0])

lemma digits_length: "0 < k \<Longrightarrow> n < 10 ^ k \<Longrightarrow> length (digits n) \<le> k"
  using dec_nat_length [of k n] by (simp add: dec_nat_digits)

section \<open>Parsing\<close>

lemma read_decimal_digits:
  assumes "\<forall>d\<in>set ds. d < 10" and "\<not> is_digit sg c"
  shows "my_read_decimal_from sg r p (map digit_byte ds @ c # rest) =
    Inr (foldl (\<lambda>r d. r * 10 + of_nat d) r ds, p + length ds)"
  using assms(1)
proof (induction ds arbitrary: r p)
  case Nil
  then show ?case using assms(2) by (auto simp: is_digit_def)
qed simp

lemma foldl_digits_mono: "0 \<le> (r::int) \<Longrightarrow> r \<le> foldl (\<lambda>r d. r * 10 + of_nat d) r ds"
proof (induction ds arbitrary: r)
  case (Cons d ds)
  have "r \<le> r * 10 + int d" using Cons.prems by simp
  also have "\<dots> \<le> foldl (\<lambda>r d. r * 10 + of_nat d) (r * 10 + int d) ds" using Cons by simp
  finally show ?case by simp
qed simp

lemma strtoui_digits:
  assumes "\<forall>d\<in>set ds. d < 10" and "0 \<le> r" and "foldl (\<lambda>r d. r * 10 + of_nat d) r ds \<le> INT_MAX"
  shows "my_strtoui_from sg r (map digit_byte ds @ 0 # rest) = Inr (Some (foldl (\<lambda>r d. r * 10 + of_nat d) r ds))"
  using assms
proof (induction ds arbitrary: r)
  case (Cons d ds)
  have d: "d < 10" and le: "r * 10 + int d \<le> INT_MAX"
    using Cons.prems foldl_digits_mono [of "r * 10 + int d" ds] by auto
  have "c_mul r 10 = Inr (r * 10)" "c_add (r * 10) (int d) = Inr (r * 10 + int d)"
    using le Cons.prems(2) by (auto simp: c_mul_def c_add_def)
  moreover have "my_strtoui_from sg (r * 10 + int d) (map digit_byte ds @ 0 # rest) =
      Inr (Some (foldl (\<lambda>r d. r * 10 + of_nat d) (r * 10 + int d) ds))"
    using Cons.prems by (intro Cons.IH) auto
  ultimately show ?case using d Cons.prems(2) by simp
qed simp

definition dec_bytes :: "nat \<Rightarrow> byte list" where
  "dec_bytes n = map digit_byte (digits n)"

lemma digit_byte_cases: "d < 10 \<Longrightarrow> digit_byte d \<in> {48, 49, 50, 51, 52, 53, 54, 55, 56, 57}"
proof -
  assume "d < 10"
  then have "d \<in> {0, 1, 2, 3, 4, 5, 6, 7, 8, 9}" by auto
  then show ?thesis by (elim insertE) (simp_all add: digit_byte_def)
qed

lemma dec_bytes_set: "c \<in> set (dec_bytes n) \<Longrightarrow> c \<in> {48, 49, 50, 51, 52, 53, 54, 55, 56, 57}"
  using digit_byte_cases digits_small by (fastforce simp: dec_bytes_def)

lemma read_dec_bytes:
  "\<not> is_digit False c \<Longrightarrow> my_read_decimal_ptr False (dec_bytes n @ c # rest) = Inr (of_nat n, length (dec_bytes n))"
  using read_decimal_digits [of "digits n" False c 0 0 rest] digits_small
  by (auto simp: my_read_decimal_ptr_def dec_bytes_def digits_value)

lemma strtoui_dec_bytes:
  assumes "n \<le> 2147483647"
  shows "my_strtoui sg (dec_bytes n @ 0 # rest) = Inr (Some (int n))"
proof -
  have d: "\<forall>d \<in> set (digits n). d < 10" using digits_small by blast
  have v: "foldl (\<lambda>r d. r * 10 + int d) 0 (digits n) = int n" using digits_value [of n, where ?'a = int] by simp
  have "my_strtoui_from sg 0 (map digit_byte (digits n) @ 0 # rest) = Inr (Some (int n))"
    using strtoui_digits [OF d, of 0 sg rest] assms unfolding of_nat_eq_id v by simp
  moreover obtain c cs where "dec_bytes n = c # cs" "c \<noteq> 0"
    using d by (cases "digits n") (auto simp: dec_bytes_def)
  ultimately show ?thesis by (simp add: my_strtoui_def dec_bytes_def)
qed

lemma uitos_dec_bytes:
  "length (dec_bytes (unat i)) \<le> length out \<Longrightarrow>
     my_uitos out i (my_uint_len i) = Inr (dec_bytes (unat i) @ drop (my_uint_len i) out)"
  using my_uitos_ok [of "my_uint_len i" out i] by (simp add: my_uint_len_digits pad_digits dec_bytes_def)

text \<open>Hexadecimal numbers of fixed width.\<close>

fun hex_digits :: "nat \<Rightarrow> nat \<Rightarrow> nat list" where
  "hex_digits 0 n = []"
| "hex_digits (Suc k) n = hex_digits k (n div 16) @ [n mod 16]"

definition hex_byte_of :: "nat \<Rightarrow> byte" where
  "hex_byte_of d = of_nat (if d < 10 then 48 + d else 87 + d)"

definition hex_bytes :: "nat \<Rightarrow> nat \<Rightarrow> byte list" where
  "hex_bytes k n = map hex_byte_of (hex_digits k n)"

lemma hex_digits_length [simp]: "length (hex_digits k n) = k"
  by (induction k n rule: hex_digits.induct) simp_all

lemma hex_bytes_length [simp]: "length (hex_bytes k n) = k"
  by (simp add: hex_bytes_def)

lemma hex_digits_small: "d \<in> set (hex_digits k n) \<Longrightarrow> d < 16"
  by (induction k n rule: hex_digits.induct) auto

lemma hex_digits_value: "foldl (\<lambda>r d. r * 16 + of_nat d) 0 (hex_digits k n) = (of_nat (n mod 16 ^ k) :: 'a::comm_semiring_1)"
proof (induction k n rule: hex_digits.induct)
  case (2 k n)
  have "n mod 16 ^ Suc k = 16 * (n div 16 mod 16 ^ k) + n mod 16" by (simp add: mod_mult2_eq)
  then show ?case using 2 by (simp add: mult.commute)
qed simp

lemma hex_value_digit: "d < 16 \<Longrightarrow> hex_value sg (hex_byte_of d) = Some (int d)"
proof -
  assume "d < 16"
  then have "d \<in> set [0..<16]" by simp
  moreover have "\<forall>d \<in> set [0..<16]. \<forall>sg \<in> {True, False}. hex_value sg (hex_byte_of d) = Some (int d)" by code_simp
  ultimately show ?thesis by (cases sg) blast+
qed

lemma read_hex_digits:
  assumes "hex_value sg c = None"
  shows "\<forall>d \<in> set ds. d < 16 \<Longrightarrow> my_read_hex_from sg r p (map hex_byte_of ds @ c # rest) =
    Inr (foldl (\<lambda>r d. r * 16 + of_nat d) r ds, p + length ds)"
proof (induction ds arbitrary: r p)
  case (Cons d ds)
  then show ?case by (simp add: hex_value_digit push_bit_eq_mult mult.commute)
qed (simp add: assms)

lemma read_hex_bytes:
  fixes v :: "'w::len word"
  assumes "hex_value sg c = None" "n < 16 ^ k" "v = of_nat n"
  shows "my_read_hex_ptr sg (hex_bytes k n @ c # rest) = Inr (v, k)"
  using read_hex_digits [OF assms(1), of "hex_digits k n" 0 0 rest] hex_digits_small [of _ k n] assms(2,3)
  by (simp add: my_read_hex_ptr_def hex_bytes_def hex_digits_value)

lemma hex_bytes_set: "c \<in> set (hex_bytes k n) \<Longrightarrow> c \<noteq> 0 \<and> c \<noteq> 10 \<and> c \<noteq> 47"
proof -
  assume "c \<in> set (hex_bytes k n)"
  then obtain d where "c = hex_byte_of d" "d < 16" using hex_digits_small by (auto simp: hex_bytes_def)
  then have "hex_value False c = Some (int d)" by (simp add: hex_value_digit)
  then show ?thesis by (auto simp: hex_value_def c_char_def)
qed

text \<open>Searching for a character.\<close>

lemma strchr_found: "0 \<notin> set pre \<Longrightarrow> c \<notin> set pre \<Longrightarrow> c \<noteq> 0 \<Longrightarrow> my_strchr (pre @ c # rest) c = Inr (Some (length pre))"
proof -
  have "0 \<notin> set pre \<Longrightarrow> c \<notin> set pre \<Longrightarrow> c \<noteq> 0 \<Longrightarrow> my_strchr_from p (pre @ c # rest) c = Inr (Some (p + length pre))" for p
    by (induction pre arbitrary: p) auto
  then show "0 \<notin> set pre \<Longrightarrow> c \<notin> set pre \<Longrightarrow> c \<noteq> 0 \<Longrightarrow> my_strchr (pre @ c # rest) c = Inr (Some (length pre))"
    by (simp add: my_strchr_def)
qed

lemma strchr_none: "0 \<notin> set l \<Longrightarrow> c \<notin> set l \<Longrightarrow> c \<noteq> 0 \<Longrightarrow> my_strchr (l @ 0 # rest) c = Inr None"
proof -
  have "0 \<notin> set l \<Longrightarrow> c \<notin> set l \<Longrightarrow> c \<noteq> 0 \<Longrightarrow> my_strchr_from p (l @ 0 # rest) c = Inr None" for p
    by (induction l arbitrary: p) auto
  then show "0 \<notin> set l \<Longrightarrow> c \<notin> set l \<Longrightarrow> c \<noteq> 0 \<Longrightarrow> my_strchr (l @ 0 # rest) c = Inr None" by (simp add: my_strchr_def)
qed

text \<open>Numbers the crash handler prints are read back: \<open>my_uint_len\<close> is the number of decimal
  digits (at most 20), \<open>my_uitos\<close> writes exactly these digits and leaves the rest of the buffer alone,
  \<open>my_read_decimal_ptr\<close> returns the number and stops behind it, whatever non-digit follows, and
  \<open>my_strtoui\<close> accepts every number up to \<open>INT_MAX\<close>; for both signednesses of \<open>char\<close>.\<close>

lemma uitos_read_back:
  assumes "my_uint_len i \<le> length out"
  shows "\<exists>ds. my_uitos out i (my_uint_len i) = Inr (ds @ drop (my_uint_len i) out) \<and>
    length ds = my_uint_len i \<and> my_uint_len i \<le> 20 \<and>
    ds = map of_char (dec_nat (unat i)) \<and>
    (\<forall>sg c rest. is_digit sg c \<or> my_read_decimal_ptr sg (ds @ c # rest) = Inr (i, my_uint_len i)) \<and>
    (uint i > INT_MAX \<or> (\<forall>sg rest. my_strtoui sg (ds @ 0 # rest) = Inr (Some (uint i))))"
proof -
  let ?ds = "map digit_byte (digits (unat i))"
  have "unat i < 2 ^ LENGTH(64)" by (rule unsigned_less)
  then have "length (digits (unat i)) \<le> 20" using digits_length [of 20 "unat i"] by simp
  moreover have "?ds = map of_char (dec_nat (unat i))"
    using digits_small by (fastforce simp: dec_nat_digits digit_byte_def of_char_char_of)
  moreover have "my_read_decimal_ptr sg (?ds @ c # rest) = Inr (i, my_uint_len i)" if "\<not> is_digit sg c" for sg c rest
    using read_decimal_digits [OF _ that, of "digits (unat i)" "0 :: 64 word" 0 rest] digits_small
    by (auto simp: my_read_decimal_ptr_def digits_value my_uint_len_digits)
  moreover have "my_strtoui sg (?ds @ 0 # rest) = Inr (Some (uint i))" if "uint i \<le> INT_MAX" for sg rest
  proof -
    obtain d es where ds: "digits (unat i) = d # es" "d < 10"
      using digits_small [of "hd (digits (unat i))" "unat i"] by (cases "digits (unat i)") auto
    have "my_strtoui_from sg 0 (?ds @ 0 # rest) = Inr (Some (uint i))"
      using strtoui_digits [of "digits (unat i)" 0 sg rest] digits_small that by (auto simp: digits_value)
    then show ?thesis using ds by (simp add: my_strtoui_def)
  qed
  moreover have "length (dec_nat (unat i)) = length (digits (unat i))" by (simp add: dec_nat_digits)
  ultimately show ?thesis
    using assms by (intro exI [of _ ?ds]) (auto simp: my_uitos_ok my_uint_len_digits pad_digits not_less)
qed

theorem uitos_read_back_witness:
  "my_uitos [0, 0, 0, 7] 42 2 = Inr [52, 50, 0, 7] \<and> my_strtoui True ([52, 50] @ [0]) = Inr (Some 42)"
proof -
  have len: "my_uint_len 42 = 2" by (simp add: my_uint_len_def my_uint_len_from.simps)
  from uitos_read_back [of 42 "[0, 0, 0, 7]"] obtain ds where
    ds: "my_uitos [0, 0, 0, 7] 42 2 = Inr (ds @ [0, 7])" "ds = map of_char (dec_nat 42)"
      "my_strtoui True (ds @ 0 # []) = Inr (Some 42)" by (auto simp: len)
  moreover have "map of_char (dec_nat 42) = [52, 50 :: byte]" by (simp add: dec_nat.simps of_char_char_of)
  ultimately show ?thesis by simp
qed

text \<open>A larger number overflows the accumulator before the test for it.\<close>

lemma strtoui_overflows:
  "my_strtoui True [50, 49, 52, 55, 52, 56, 51, 54, 52, 56, 0] = Inl IntOverflow"
  by (simp add: my_strtoui_def c_mul_def c_add_def c_int_def c_char_def)

section \<open>Copying strings\<close>

lemma strlcpy_from:
  assumes "0 \<notin> set cs" and "pos1 < len" and "at + len \<le> length s1"
  shows "my_strlcpy_from at s1 (cs @ 0 # rest) pos1 pos2 len =
    Inr (take (at + pos1) s1 @ take (len - 1 - pos1) cs @ 0 # drop (at + pos1 + min (len - 1 - pos1) (length cs) + 1) s1,
         pos2 + length cs)"
  using assms
proof (induction cs arbitrary: s1 pos1 pos2)
  case Nil
  then show ?case by (simp add: upd_conv_take_nth_drop)
next
  case (Cons c cs)
  show ?case
  proof (cases "pos1 + 1 < len")
    case True
    have "my_strlcpy_from at (s1[at + pos1 := c]) (cs @ 0 # rest) (pos1 + 1) (pos2 + 1) len =
      Inr (take (at + (pos1 + 1)) (s1[at + pos1 := c]) @ take (len - 1 - (pos1 + 1)) cs @
           0 # drop (at + (pos1 + 1) + min (len - 1 - (pos1 + 1)) (length cs) + 1) (s1[at + pos1 := c]),
           pos2 + 1 + length cs)"
      using Cons.prems True by (intro Cons.IH) auto
    moreover have "len - 1 - pos1 = Suc (len - 1 - (pos1 + 1))" using True by simp
    moreover have "take (at + (pos1 + 1)) (s1[at + pos1 := c]) = take (at + pos1) s1 @ [c]"
      using Cons.prems True by (simp add: take_Suc_conv_app_nth)
    ultimately show ?thesis using Cons.prems True by simp
  next
    case False
    then have "my_strlcpy_from at s1 (cs @ 0 # rest) pos1 (pos2 + 1) len =
      Inr (take (at + pos1) s1 @ take (len - 1 - pos1) cs @ 0 # drop (at + pos1 + min (len - 1 - pos1) (length cs) + 1) s1,
           pos2 + 1 + length cs)"
      using Cons.prems by (intro Cons.IH) auto
    moreover have "len - 1 - pos1 = 0" using False Cons.prems by simp
    ultimately show ?thesis using Cons.prems False by simp
  qed
qed

lemma find_end_ok: "0 \<notin> set xs \<Longrightarrow> length xs < n \<Longrightarrow> find_end (xs @ 0 # t) p n = Inr (p + length xs)"
proof (induction xs arbitrary: p n)
  case Nil
  then show ?case by (cases n) auto
next
  case (Cons x xs)
  then show ?case by (cases n) auto
qed

text \<open>\<open>my_strlcat\<close> is memory-safe and bounded: appending \<open>cs\<close> to the string \<open>xs\<close> in a buffer of \<open>len\<close>
  bytes writes as much of \<open>cs\<close> as leaves room for the terminating NUL, always terminates the
  result, changes nothing behind it, and returns the length the whole string would have had.\<close>

lemma strlcat_bounded:
  assumes "0 \<notin> set xs" and "0 \<notin> set cs" and "length xs < len" and "len \<le> length (xs @ 0 # t)"
  shows "my_strlcat (xs @ 0 # t) (cs @ 0 # rest) len =
    Inr (xs @ take (len - length xs - 1) cs @ 0 # drop (min (len - length xs - 1) (length cs)) t, length xs + length cs)"
  using assms strlcpy_from [of cs 0 "len - length xs" "length xs" "xs @ 0 # t" rest 0]
  by (simp add: my_strlcat_def my_strlcpy_def find_end_ok)

theorem strlcat_bounded_witness:
  "my_strlcat [97, 0, 1, 1, 9] [98, 99, 100, 0] 4 = Inr ([97, 98, 99, 0, 9], 4)"
  using strlcat_bounded [of "[97]" "[98, 99, 100]" 4 "[1, 1, 9]" "[]"] by simp

text \<open>The NUL that ends the table counts as a space.\<close>

lemma isspace_accepts_nul: "my_isspace 0 = 1"
  by (simp add: my_isspace_def spaces_def)

end
