(* ===== verification/String_Conversion.thy ===== *)
theory String_Conversion
  imports Convert_UTF Libc_Support
begin

text \<open>
  The string conversions of \<open>breakpad/src/common/string_conversion.cc\<close> over those of
  \<open>convert_UTF.cc\<close>: between C strings, vectors of UTF-16 units and single characters.
\<close>

section \<open>Operations\<close>

text \<open>\<open>vector::resize\<close> to \<open>n\<close> elements, new ones zero.\<close>

definition vec_resize :: "nat \<Rightarrow> 'w::zero list \<Rightarrow> 'w list" where
  "vec_resize n v = take n v @ replicate (n - length v) 0"

text \<open>Writing \<open>out\<close> over the start of a buffer.\<close>

definition overwrite :: "'w list \<Rightarrow> 'w list \<Rightarrow> 'w list" where
  "overwrite out buf = out @ drop (length out) buf"

text \<open>\<open>spare\<close> is what the capacity of the vector exceeds its size by.\<close>

definition UTF8ToUTF16 :: "nat \<Rightarrow> block \<Rightarrow> UTF16 list res" where
  "UTF8ToUTF16 spare s = res_bind (my_strlen s) (\<lambda>source_length.
     case ConvertUTF8toUTF16 strictConversion (take source_length s) (source_length + spare) of
       (result, _, out) \<Rightarrow>
         Inr (vec_resize (if result = conversionOK then length out + 1 else 0)
                (overwrite out (replicate source_length 0))))"

text \<open>
  \<open>UTF8ToUTF16Char\<close>: the loop tries one more byte each time. \<open>out\<close> holds the units written so far
  (\<open>target_ptr\<close> is not reset between the attempts); the result is the number of bytes consumed,
  0 on failure, and the two units.
\<close>

function utf8_char_from :: "nat \<Rightarrow> nat \<Rightarrow> UTF8 list \<Rightarrow> UTF16 list \<Rightarrow> (nat \<times> UTF16 list) res" where
  "utf8_char_from end in_length s out =
     (if length s < end then Inl OutOfBounds
      else case ConvertUTF8toUTF16 strictConversion (take end s) (2 - length out) of
        (result, rest, out') \<Rightarrow>
          (let units = vec_resize 2 (out @ out') in
           if result = conversionOK then Inr (end - length rest, units)
           else if end + 1 > in_length then Inr (0, units)
           else utf8_char_from (end + 1) in_length s (out @ out')))"
  by pat_completeness auto
termination
  by (relation "measure (\<lambda>(end, in_length, s, out). in_length + 1 - end)") auto

declare utf8_char_from.simps [simp del]

definition UTF8ToUTF16Char :: "UTF8 list \<Rightarrow> nat \<Rightarrow> (nat \<times> UTF16 list) res" where
  "UTF8ToUTF16Char s in_length = utf8_char_from 1 in_length s []"

text \<open>\<open>wchar_t\<close> has 32 bits, as \<open>UTF32\<close> has on the target; \<open>wcslen\<close> stops at a zero.\<close>

fun wcslen_from :: "nat \<Rightarrow> UTF32 list \<Rightarrow> nat res" where
  "wcslen_from len [] = Inl OutOfBounds"
| "wcslen_from len (c # s) = (if c = 0 then Inr len else wcslen_from (len + 1) s)"

definition UTF32ToUTF16 :: "nat \<Rightarrow> UTF32 list \<Rightarrow> UTF16 list res" where
  "UTF32ToUTF16 spare s = res_bind (wcslen_from 0 s) (\<lambda>source_length.
     case ConvertUTF32toUTF16 strictConversion (take source_length s) (source_length + spare) of
       (result, _, out) \<Rightarrow>
         Inr (vec_resize (if result = conversionOK then length out + 1 else 0)
                (overwrite out (replicate source_length 0))))"

definition UTF32ToUTF16Char :: "UTF32 \<Rightarrow> UTF16 list" where
  "UTF32ToUTF16Char c =
     (case ConvertUTF32toUTF16 strictConversion [c] 2 of
        (result, _, out) \<Rightarrow> if result \<noteq> conversionOK then [0, 0] else vec_resize 2 out)"

definition Swap :: "UTF16 \<Rightarrow> UTF16" where
  "Swap value = drop_bit 8 value OR push_bit 8 value"

text \<open>
  \<open>UTF16ToUTF8\<close>: the converted bytes are read back as a C string from a buffer of four bytes per
  unit whose other bytes, \<open>junk\<close>, are indeterminate.
\<close>

definition UTF16ToUTF8 :: "UTF8 list \<Rightarrow> UTF16 list \<Rightarrow> bool \<Rightarrow> UTF8 list res" where
  "UTF16ToUTF8 junk v swap =
     (let source = (if swap then map Swap v else v) in
      case ConvertUTF16toUTF8 strictConversion source (length v * 4) of
        (result, _, out) \<Rightarrow>
          if result = conversionOK then
            (let buf = overwrite out (take (length v * 4) junk) in
             res_bind (my_strlen buf) (\<lambda>n. Inr (take n buf)))
          else Inr [])"

section \<open>C strings\<close>

lemma my_strlen_from_ok: "0 \<notin> set s \<Longrightarrow> my_strlen_from n (s @ 0 # rest) = Inr (n + length s)"
  by (induction s arbitrary: n) auto

lemma my_strlen_ok: "0 \<notin> set s \<Longrightarrow> my_strlen (s @ 0 # rest) = Inr (length s)"
  by (simp add: my_strlen_def my_strlen_from_ok)

lemma my_strlen_from_no_nul: "0 \<notin> set s \<Longrightarrow> my_strlen_from n s = Inl OutOfBounds"
  by (induction s arbitrary: n) auto

section \<open>Lengths of the encodings\<close>

lemma utf16_le_utf8: "length (utf16 ch) \<le> length (utf8 ch)"
  by (simp add: utf16_def utf8_def utf8_ref_def length_surrogates word_le_nat_alt)

lemma utf8_le_utf16: "length (utf8 ch) \<le> 4 * length (utf16 ch)"
  by (simp add: utf16_def utf8_def utf8_ref_def length_surrogates)

lemma concat_lengths:
  "length (concat (map utf16 cs)) \<le> length (concat (map utf8 cs))"
  "length (concat (map utf8 cs)) \<le> 4 * length (concat (map utf16 cs))"
proof (induction cs)
  case (Cons c cs)
  case 1
  then show ?case using Cons utf16_le_utf8 [of c] by simp
next
  case (Cons c cs)
  case 2
  then show ?case using Cons utf8_le_utf16 [of c] by simp
qed simp_all

lemma utf8_nul [simp]: "utf8 0 = [0]" and utf16_nul [simp]: "utf16 0 = [0]" and scalar_nul [simp]: "scalar 0"
  by (simp_all add: utf8_def utf8_ref_def utf16_def scalar_def)

section \<open>Strings there and back\<close>

lemma vec_terminated:
  "length out \<le> n \<Longrightarrow> vec_resize (Suc (length out)) (overwrite out (replicate n 0)) = out @ [0]"
  by (cases "length out = n") (auto simp: vec_resize_def overwrite_def Suc_diff_le)

lemma Swap_Swap [simp]: "Swap (Swap x) = x"
proof (rule bit_eqI)
  fix n assume "possible_bit TYPE(16 word) n"
  then show "bit (Swap (Swap x)) n = bit x n"
    by (cases "n < 8") (auto simp: Swap_def bit_or_iff bit_drop_bit_eq bit_push_bit_iff dest: bit_imp_le_length)
qed

lemma map_Swap_Swap [simp]: "map (Swap \<circ> Swap) v = v"
  by (induction v) auto

lemma UTF8ToUTF16_ok:
  assumes "\<forall>ch\<in>set cs. scalar_char ch" and "0 \<notin> set (concat (map utf8 cs))"
  shows "UTF8ToUTF16 spare (concat (map utf8 cs) @ 0 # rest) = Inr (concat (map utf16 cs) @ [0])"
  using assms(1) my_strlen_ok [OF assms(2), of rest] concat_lengths(1) [of cs] vec_terminated [OF concat_lengths(1) [of cs]]
  by (simp add: UTF8ToUTF16_def utf8_to_16_of_utf8 trans_le_add1)

lemma UTF16ToUTF8_ok:
  assumes "\<forall>ch\<in>set cs. scalar_char ch" and "0 \<notin> set (concat (map utf8 cs))"
  shows "UTF16ToUTF8 junk (concat (map utf16 cs) @ [0]) False = Inr (concat (map utf8 cs))"
proof -
  let ?v = "concat (map utf16 cs) @ [0]"
  have "ConvertUTF16toUTF8 strictConversion (concat (map utf16 (cs @ [0]))) (length ?v * 4) =
      (conversionOK, [], concat (map utf8 (cs @ [0])))"
    using assms(1) concat_lengths(2) [of "cs @ [0]"] by (intro utf16_to_8_of_utf16) auto
  then show ?thesis
    using my_strlen_ok [OF assms(2)] by (simp add: UTF16ToUTF8_def overwrite_def)
qed

text \<open>A well-formed UTF-8 string without NUL survives the conversion to a UTF-16 vector and back, whatever
  the spare capacity of the vector, the indeterminate bytes of the buffer and the byte order of the
  units; the vector ends with a NUL.\<close>

lemma string_round_trip:
  assumes "\<forall>ch\<in>set cs. scalar_char ch" and "0 \<notin> set (concat (map utf8 cs))"
  shows "\<exists>v. UTF8ToUTF16 spare (concat (map utf8 cs) @ 0 # rest) = Inr v \<and> last v = 0 \<and>
    UTF16ToUTF8 junk v False = Inr (concat (map utf8 cs)) \<and>
    UTF16ToUTF8 junk (map Swap v) True = Inr (concat (map utf8 cs))"
proof -
  have "UTF16ToUTF8 junk (map Swap v) True = UTF16ToUTF8 junk v False" for v
    by (simp only: UTF16ToUTF8_def Let_def if_True if_False map_map map_Swap_Swap length_map)
  then show ?thesis using UTF8ToUTF16_ok [OF assms] UTF16ToUTF8_ok [OF assms] by auto
qed

theorem string_round_trip_witness:
  "\<exists>v. UTF8ToUTF16 0 [0xC3, 0x9F, 0x63, 0] = Inr v \<and> UTF16ToUTF8 [] v False = Inr [0xC3, 0x9F, 0x63]"
proof -
  have "utf8 0xDF = [0xC3, 0x9F]" "utf8 0x63 = [0x63]" "scalar_char 0xDF" "scalar_char 0x63"
    by (simp_all add: utf8_def utf8_ref_def scalar_def)
  then show ?thesis using string_round_trip [of "[0xDF, 0x63]" 0 "[]" "[]"] by auto
qed

text \<open>A vector without a NUL is not terminated in the buffer: the string is read past its end.\<close>

lemma unterminated_vector_overreads:
  "UTF16ToUTF8 [9, 9, 9, 9] [0x41] False = Inl OutOfBounds"
proof -
  have "utf16 0x41 = [0x41]" "utf8 0x41 = [0x41]" "scalar_char 0x41"
    by (simp_all add: utf16_def utf8_def utf8_ref_def scalar_def)
  then have "ConvertUTF16toUTF8 strictConversion [0x41] 4 = (conversionOK, [], [0x41])"
    using utf16_to_8_of_utf16 [of "[0x41]" 4 strictConversion] by simp
  then show ?thesis by (simp add: UTF16ToUTF8_def overwrite_def my_strlen_def)
qed

section \<open>Single characters\<close>

text \<open>A proper prefix of an encoded character is reported as incomplete.\<close>

lemma utf8_prefix_exhausted:
  assumes "scalar_char ch" and "0 < e" and "e < length (utf8 ch)"
  shows "ConvertUTF8toUTF16 flags (take e (utf8 ch @ r)) room = (sourceExhausted, take e (utf8 ch @ r), [])"
proof -
  have d: "decodes (utf8 ch @ r) (length (utf8 ch) - 1) ch" using assms(1) by (rule utf8_decodes)
  obtain b bs where u: "utf8 ch @ r = b # bs" by (cases "utf8 ch @ r") auto
  then obtain e' where e: "take e (utf8 ch @ r) = b # take e' bs" "e = Suc e'" using assms(2) by (cases e) auto
  have "trailingBytesForUTF8 ! unat b = length (utf8 ch) - 1" using d u by (simp add: decodes_def)
  then have "trailingBytesForUTF8 ! unat b \<ge> length (b # take e' bs)" using assms(3) e(2) by simp
  then show ?thesis unfolding e(1) ConvertUTF8toUTF16.simps(2) Let_def by (rule if_P)
qed

lemma utf8_char_from_ok:
  assumes "scalar_char ch" and "0 < e" and "e \<le> length (utf8 ch)" and "length (utf8 ch) \<le> in_length"
  shows "utf8_char_from e in_length (utf8 ch @ r) [] = Inr (length (utf8 ch), vec_resize 2 (utf16 ch))"
  using assms(2,3)
proof (induction "length (utf8 ch) - e" arbitrary: e)
  case 0
  then have e: "e = length (utf8 ch)" by simp
  have "ConvertUTF8toUTF16 strictConversion (utf8 ch) 2 = (conversionOK, [], utf16 ch)"
    using utf8_to_16_of_utf8 [of "[ch]" 2 strictConversion] assms(1) by (simp add: utf16_def length_surrogates)
  then show ?case using e by (subst utf8_char_from.simps) (simp add: Let_def)
next
  case (Suc n)
  then have lt: "e < length (utf8 ch)" by simp
  have "utf8_char_from (e + 1) in_length (utf8 ch @ r) [] = Inr (length (utf8 ch), vec_resize 2 (utf16 ch))"
    using Suc by (intro Suc.hyps(1)) auto
  then show ?case using utf8_prefix_exhausted [OF assms(1) Suc.prems(1) lt] lt assms(4)
    by (subst utf8_char_from.simps) (simp add: Let_def)
qed

lemma UTF8ToUTF16Char_ok:
  "scalar_char ch \<Longrightarrow> length (utf8 ch) \<le> in_length \<Longrightarrow>
     UTF8ToUTF16Char (utf8 ch @ r) in_length = Inr (length (utf8 ch), vec_resize 2 (utf16 ch))"
  by (simp add: UTF8ToUTF16Char_def utf8_char_from_ok Suc_leI)

end
