(* ===== verification/Minidump_File_Writer.thy ===== *)
theory Minidump_File_Writer
  imports String_Conversion
begin

text \<open>
  The writer of crash dumps (\<open>breakpad/src/client/minidump_file_writer.cc\<close> and its header): allocation of
  regions of the dump file, copies into them, and strings. System calls are a parameter and are
  recorded in order; the target is 32-bit ARM Android, where \<open>size_t\<close>, \<open>off_t\<close> and \<open>MDRVA\<close> have 32 bits.
\<close>

unbundle bit_operations_syntax

section \<open>State and calls\<close>

datatype sys_call =
    SysOpen string
  | SysClose int
  | SysLseek int int nat                     \<comment> \<open>file, offset, whence (0 set, 2 end)\<close>
  | SysWrite int "byte list"
  | FTruncate int int
  | GetErrno
  | GetPageSize

type_synonym MDRVA = "32 word"

record file_writer =
  wr_file :: int
  close_when_destroyed :: bool
  wr_position :: MDRVA
  wr_size :: "32 word"
  g_need_ftruncate_workaround :: bool
  g_checked_need_ftruncate_workaround :: bool

definition MinidumpFileWriter :: "file_writer \<Rightarrow> file_writer" where
  "MinidumpFileWriter g = g\<lparr>wr_file := - 1, close_when_destroyed := True, wr_position := 0, wr_size := 0\<rparr>"

text \<open>
  An operation maps the writer (with the two global flags) and the calls made so far to a result, or
  to the fault of a failed assertion.
\<close>

type_synonym wstate = "file_writer \<times> sys_call list"
type_synonym 'a wr = "(file_writer, sys_call, 'a) mach"

section \<open>Opening and closing\<close>

abbreviation (input) EACCES :: int where "EACCES \<equiv> 13"

definition CheckNeedsFTruncateWorkAround :: "sys_call ext \<Rightarrow> int \<Rightarrow> unit wr" where
  "CheckNeedsFTruncateWorkAround x file =
     wbind wget (\<lambda>w.
     if g_checked_need_ftruncate_workaround w then wret ()
     else
       wbind (wmod (\<lambda>w. w\<lparr>g_checked_need_ftruncate_workaround := True\<rparr>)) (\<lambda>_.
       wbind (wcall x (SysLseek file 0 2)) (\<lambda>offset.
       if offset = - 1 then wret ()
       else
         wbind (wcall x (FTruncate file offset)) (\<lambda>result.
         if result = - 1 then
           wbind (wcall x GetErrno) (\<lambda>errno.
             if errno = EACCES then wmod (\<lambda>w. w\<lparr>g_need_ftruncate_workaround := True\<rparr>) else wret ())
         else wret ()))))"

definition Open :: "sys_call ext \<Rightarrow> string \<Rightarrow> bool wr" where
  "Open x path =
     wbind wget (\<lambda>w.
     wbind (wassert (wr_file w = - 1)) (\<lambda>_.
     wbind (wcall x (SysOpen path)) (\<lambda>f.
     wbind (wmod (\<lambda>w. w\<lparr>wr_file := f\<rparr>)) (\<lambda>_. wret (f \<noteq> - 1)))))"

definition SetFile :: "sys_call ext \<Rightarrow> int \<Rightarrow> unit wr" where
  "SetFile x file =
     wbind wget (\<lambda>w.
     wbind (wassert (wr_file w = - 1)) (\<lambda>_.
     wbind (wmod (\<lambda>w. w\<lparr>wr_file := file, close_when_destroyed := False\<rparr>)) (\<lambda>_.
     CheckNeedsFTruncateWorkAround x file)))"

definition Close :: "sys_call ext \<Rightarrow> bool wr" where
  "Close x =
     wbind wget (\<lambda>w.
     if wr_file w \<noteq> - 1 then
       wbind (if \<not> g_need_ftruncate_workaround w
              then wbind (wcall x (FTruncate (wr_file w) (sint (wr_position w)))) (\<lambda>r. wret (r \<noteq> 0))
              else wret False) (\<lambda>failed.
       if failed then wret False
       else
         wbind (wcall x (SysClose (wr_file w))) (\<lambda>r.
         wbind (wmod (\<lambda>w. w\<lparr>wr_file := - 1\<rparr>)) (\<lambda>_. wret (r = 0))))
     else wret True)"

definition MinidumpFileWriter_dtor :: "sys_call ext \<Rightarrow> unit wr" where
  "MinidumpFileWriter_dtor x =
     wbind wget (\<lambda>w. if close_when_destroyed w then wbind (Close x) (\<lambda>_. wret ()) else wret ())"

section \<open>Regions\<close>

abbreviation (input) kInvalidMDRVA :: MDRVA where "kInvalidMDRVA \<equiv> - 1"

definition align8 :: "32 word \<Rightarrow> 32 word" where
  "align8 sz = (sz + 7) AND NOT 7"

definition Allocate :: "sys_call ext \<Rightarrow> 32 word \<Rightarrow> MDRVA wr" where
  "Allocate x sz =
     wbind wget (\<lambda>w.
     wbind (wassert (sz \<noteq> 0)) (\<lambda>_.
     wbind (wassert (wr_file w \<noteq> - 1)) (\<lambda>_.
     if g_need_ftruncate_workaround w then
       wbind (wmod (\<lambda>w. w\<lparr>wr_size := wr_size w + sz, wr_position := wr_position w + sz\<rparr>)) (\<lambda>_.
       wret (wr_position w))
     else
       (let aligned_size = align8 sz in
        wbind (if wr_position w + aligned_size > wr_size w then
                 wbind (wcall x GetPageSize) (\<lambda>page.
                 let minimal_growth = of_int page;
                     growth = (if aligned_size < minimal_growth then minimal_growth else aligned_size);
                     new_size = wr_size w + growth in
                 wbind (wcall x (FTruncate (wr_file w) (sint new_size))) (\<lambda>r.
                 if r \<noteq> 0 then wret False
                 else wbind (wmod (\<lambda>w. w\<lparr>wr_size := new_size\<rparr>)) (\<lambda>_. wret True)))
               else wret True) (\<lambda>ok.
        if \<not> ok then wret kInvalidMDRVA
        else
          wbind (wmod (\<lambda>w. w\<lparr>wr_position := wr_position w + aligned_size\<rparr>)) (\<lambda>_. wret (wr_position w)))))))"

text \<open>The sum \<open>size + position\<close> is unsigned and wraps around.\<close>

definition Copy :: "sys_call ext \<Rightarrow> MDRVA \<Rightarrow> byte list \<Rightarrow> bool wr" where
  "Copy x position src =
     wbind wget (\<lambda>w.
     wbind (wassert (src \<noteq> [])) (\<lambda>_.
     wbind (wassert (wr_file w \<noteq> - 1)) (\<lambda>_.
     if of_nat (length src) + position > wr_size w then wret False
     else
       wbind (wcall x (SysLseek (wr_file w) (sint position) 0)) (\<lambda>o1.
       if o1 = sint position then
         wbind (wcall x (SysWrite (wr_file w) src)) (\<lambda>n. wret (n = int (length src)))
       else wret False))))"

text \<open>\<open>UntypedMDRVA\<close>: a region. Its constructor takes the current position.\<close>

record mdrva =
  rva_position :: MDRVA
  rva_size :: "32 word"

definition UntypedMDRVA :: "mdrva wr" where
  "UntypedMDRVA = wbind wget (\<lambda>w. wret \<lparr>rva_position = wr_position w, rva_size = 0\<rparr>)"

definition UntypedMDRVA_Allocate :: "sys_call ext \<Rightarrow> mdrva \<Rightarrow> 32 word \<Rightarrow> (bool \<times> mdrva) wr" where
  "UntypedMDRVA_Allocate x r sz =
     wbind (wassert (rva_size r = 0)) (\<lambda>_.
     wbind (Allocate x sz) (\<lambda>p.
     wret (p \<noteq> kInvalidMDRVA, \<lparr>rva_position = p, rva_size = sz\<rparr>)))"

definition UntypedMDRVA_Copy :: "sys_call ext \<Rightarrow> mdrva \<Rightarrow> MDRVA \<Rightarrow> byte list \<Rightarrow> bool wr" where
  "UntypedMDRVA_Copy x r pos src =
     wbind (wassert (src \<noteq> [])) (\<lambda>_.
     wbind (wassert (pos + of_nat (length src) \<le> rva_position r + rva_size r)) (\<lambda>_. Copy x pos src))"

type_synonym location = "32 word \<times> MDRVA"   \<comment> \<open>\<open>MDLocationDescriptor\<close>: size and position\<close>

definition WriteMemory :: "sys_call ext \<Rightarrow> byte list \<Rightarrow> location option wr" where
  "WriteMemory x src =
     wbind UntypedMDRVA (\<lambda>r0.
     wbind (UntypedMDRVA_Allocate x r0 (of_nat (length src))) (\<lambda>(ok, r).
     if \<not> ok then wret None
     else wbind (UntypedMDRVA_Copy x r (rva_position r) src) (\<lambda>c.
       wret (if c then Some (rva_size r, rva_position r) else None))))"

section \<open>Strings\<close>

definition le16 :: "UTF16 \<Rightarrow> byte list" where
  "le16 u = [ucast u, ucast (drop_bit 8 u)]"

definition le32 :: "32 word \<Rightarrow> byte list" where
  "le32 w = [ucast w, ucast (drop_bit 8 w), ucast (drop_bit 16 w), ucast (drop_bit 24 w)]"

text \<open>
  \<open>TypedMDRVA<MDString>\<close>, allocated with an array: four bytes of length, then the units. The offset of
  an element is its index times the number of bytes copied.
\<close>

definition CopyIndexAfterObject :: "sys_call ext \<Rightarrow> mdrva \<Rightarrow> nat \<Rightarrow> byte list \<Rightarrow> bool wr" where
  "CopyIndexAfterObject x r index src =
     Copy x (rva_position r + 4 + of_nat index * of_nat (length src)) src"

definition unit_bytes :: "UTF16 list \<Rightarrow> byte list" where
  "unit_bytes out = (if out ! 1 \<noteq> 0 then le16 (out ! 0) @ le16 (out ! 1) else le16 (out ! 0))"

definition unit_count :: "UTF16 list \<Rightarrow> nat" where
  "unit_count out = (if out ! 1 \<noteq> 0 then 2 else 1)"

text \<open>The loop of \<open>CopyStringToMDString\<close> for UTF-8 strings.\<close>

function copy_utf8 :: "sys_call ext \<Rightarrow> mdrva \<Rightarrow> byte list \<Rightarrow> nat \<Rightarrow> nat \<Rightarrow> bool wr" where
  "copy_utf8 x r str len out_idx =
     (if len = 0 then wret True
      else wbind (wlift (UTF8ToUTF16Char str len)) (\<lambda>(n, out).
        if n = 0 then wret False
        else wbind (CopyIndexAfterObject x r out_idx (unit_bytes out)) (\<lambda>result.
          if result then copy_utf8 x r (drop n str) (len - n) (out_idx + unit_count out)
          else wret False)))"
  by pat_completeness auto
termination
  by (relation "measure (\<lambda>(x, r, str, len, out_idx). len)") auto

text \<open>The loop for wide strings: 32-bit \<open>wchar_t\<close>, one character each.\<close>

fun copy_wide :: "sys_call ext \<Rightarrow> mdrva \<Rightarrow> UTF32 list \<Rightarrow> nat \<Rightarrow> bool wr" where
  "copy_wide x r [] out_idx = wret True"
| "copy_wide x r (c # str) out_idx =
     (let out = UTF32ToUTF16Char c in
      if out ! 0 = 0 then wret False
      else wbind (CopyIndexAfterObject x r out_idx (unit_bytes out)) (\<lambda>result.
        if result then copy_wide x r str (out_idx + unit_count out) else wret False))"

declare copy_utf8.simps [simp del]

text \<open>
  \<open>WriteStringCore\<close>: \<open>n\<close> characters before the NUL or the limit, \<open>copy\<close> the conversion loop. The length
  object is written by the destructor (\<open>Flush\<close>), also when the allocation failed.
\<close>

definition Flush :: "sys_call ext \<Rightarrow> mdrva \<Rightarrow> 32 word \<Rightarrow> unit wr" where
  "Flush x r mdlength = wbind (Copy x (rva_position r) (le32 mdlength)) (\<lambda>_. wret ())"

definition write_string_core ::
    "sys_call ext \<Rightarrow> nat \<Rightarrow> (mdrva \<Rightarrow> bool wr) \<Rightarrow> location option wr" where
  "write_string_core x n copy =
     wbind UntypedMDRVA (\<lambda>r0.
     wbind (UntypedMDRVA_Allocate x r0 (4 + of_nat (n + 1) * 2)) (\<lambda>(ok, r).
     if \<not> ok then wbind (Flush x r 0) (\<lambda>_. wret None)
     else
       wbind (copy r) (\<lambda>result.
       wbind (if result then CopyIndexAfterObject x r n [0, 0] else wret False) (\<lambda>result2.
       wbind (Flush x r (of_nat (n * 2))) (\<lambda>_.
       wret (if result2 then Some (rva_size r, rva_position r) else None))))))"

text \<open>The number of characters up to the NUL, at most \<open>len\<close> (0 stands for \<open>INT_MAX\<close>).\<close>

fun count_chars :: "'w::zero list \<Rightarrow> nat \<Rightarrow> nat res" where
  "count_chars s 0 = Inr 0"
| "count_chars [] (Suc len) = Inl OutOfBounds"
| "count_chars (c # s) (Suc len) =
     (if c = 0 then Inr 0 else res_bind (count_chars s len) (\<lambda>n. Inr (Suc n)))"

definition WriteString :: "sys_call ext \<Rightarrow> byte list \<Rightarrow> nat \<Rightarrow> location option wr" where
  "WriteString x str len =
     wbind (wlift (count_chars str (if len = 0 then 2147483647 else len))) (\<lambda>n.
       write_string_core x n (\<lambda>r. copy_utf8 x r str n 0))"

definition WriteWideString :: "sys_call ext \<Rightarrow> UTF32 list \<Rightarrow> nat \<Rightarrow> location option wr" where
  "WriteWideString x str len =
     wbind (wlift (count_chars str (if len = 0 then 2147483647 else len))) (\<lambda>n.
       write_string_core x n (\<lambda>r. copy_wide x r (take n str) 0))"

section \<open>Allocation\<close>

lemma and_not_7: "(v :: 32 word) AND NOT 7 = push_bit 3 (drop_bit 3 v)"
proof (rule bit_eqI)
  fix n assume n: "possible_bit TYPE(32 word) n"
  have "(7 :: 32 word) = mask 3" by (simp add: mask_eq_exp_minus_1)
  then show "bit (v AND NOT 7) n = bit (push_bit 3 (drop_bit 3 v)) n"
    using n by (auto simp only: bit_and_iff bit_not_iff bit_mask_iff bit_push_bit_iff bit_drop_bit_eq not_less le_add_diff_inverse o_apply)
qed

lemma uint_align8:
  assumes "uint sz + 7 < 2 ^ 32"
  shows "uint (align8 sz) = (uint sz + 7) div 8 * 8"
proof -
  have "uint (sz + 7) = uint sz + 7" using assms by (simp add: uint_word_ariths)
  moreover have "uint (push_bit 3 (drop_bit 3 v)) = uint v div 8 * 8" for v :: "32 word"
  proof -
    have "uint v < 2 ^ LENGTH(32)" by (rule unsigned_less)
    moreover have "uint v div 8 * 8 \<le> uint v" by simp
    ultimately have lt: "uint v div 8 * 8 < 2 ^ 32" "uint v < 2 ^ 32" by simp_all
    then have "(uint v div 8 * 8) mod 4294967296 = uint v div 8 * 8" by (intro mod_pos_pos_trivial) (simp_all add: pos_imp_zdiv_nonneg_iff)
    then show ?thesis using lt(2)
      by (simp only: unsigned_push_bit_eq unsigned_drop_bit_eq) (simp add: push_bit_eq_mult drop_bit_eq_div take_bit_eq_mod)
  qed
  ultimately show ?thesis by (simp only: align8_def and_not_7)
qed

text \<open>
  Enough of the address space is left: neither the rounded size nor the new file size wraps around.
  \<open>page\<close> is what \<open>getpagesize\<close> answers.
\<close>

definition room_for :: "file_writer \<Rightarrow> 32 word \<Rightarrow> int \<Rightarrow> bool" where
  "room_for w sz page \<longleftrightarrow> 0 < page \<and> uint (wr_position w) \<le> uint (wr_size w) \<and>
     uint (wr_size w) + uint sz + 7 + page < 2147483648"

lemma room_forD:
  assumes "room_for w sz page"
  shows "0 < page" "uint (wr_position w) \<le> uint (wr_size w)" "uint (wr_size w) + uint sz + 7 + page < 2147483648"
  using assms by (simp_all add: room_for_def)

lemma align8_bounds:
  assumes "room_for w sz page"
  shows "uint sz \<le> uint (align8 sz)" "uint (align8 sz) \<le> uint sz + 7" "8 dvd uint (align8 sz)"
    "uint (wr_position w + align8 sz) = uint (wr_position w) + uint (align8 sz)"
proof -
  have nn: "0 \<le> uint (wr_size w)" "0 \<le> uint sz" "0 \<le> uint (wr_position w)" by simp_all
  note rf = room_forD [OF assms]
  have lt: "uint sz + 7 < 4294967296" using rf nn by linarith
  then have a: "uint (align8 sz) = (uint sz + 7) div 8 * 8" by (intro uint_align8) simp
  show b: "uint sz \<le> uint (align8 sz)" "uint (align8 sz) \<le> uint sz + 7" unfolding a by presburger+
  show "8 dvd uint (align8 sz)" unfolding a by simp
  have "uint (wr_position w) + uint (align8 sz) < 4294967296" using rf b nn by linarith
  then show "uint (wr_position w + align8 sz) = uint (wr_position w) + uint (align8 sz)"
    using nn by (simp add: uint_word_ariths)
qed

definition grown :: "32 word \<Rightarrow> 32 word \<Rightarrow> int \<Rightarrow> 32 word" where
  "grown size0 sz page = size0 + (if align8 sz < of_int page then of_int page else align8 sz)"

lemma grown_bounds:
  assumes "room_for w sz page"
  shows "uint (wr_size w) \<le> uint (grown (wr_size w) sz page)"
    and "uint (wr_position w) + uint (align8 sz) \<le> uint (grown (wr_size w) sz page)"
    and "uint (grown (wr_size w) sz page) < 2147483648"
proof -
  note al = align8_bounds [OF assms]
  have nn: "0 \<le> uint (wr_size w)" "0 \<le> uint sz" "0 \<le> uint (wr_position w)" by simp_all
  note rf = room_forD [OF assms]
  have pg: "uint (of_int page :: 32 word) = page" 
  proof -
    have "page < 4294967296" using rf nn by linarith
    then show ?thesis using rf(1) by (simp add: uint_word_of_int)
  qed
  define g where "g = (if align8 sz < of_int page then of_int page else align8 sz)"
  have g: "uint (align8 sz) \<le> uint g" "uint g \<le> uint sz + 7 + page"
    using al(1,2) pg rf nn by (auto simp: g_def word_less_def word_le_def not_less)
  have lt: "uint (wr_size w) + uint g < 2147483648" using g rf by linarith
  then have u: "uint (grown (wr_size w) sz page) = uint (wr_size w) + uint g"
    using nn by (simp add: grown_def g_def [symmetric] uint_word_ariths)
  show "uint (wr_size w) \<le> uint (grown (wr_size w) sz page)" "uint (grown (wr_size w) sz page) < 2147483648"
    using u lt by simp_all
  show "uint (wr_position w) + uint (align8 sz) \<le> uint (grown (wr_size w) sz page)"
    using u g rf by linarith
qed

text \<open>The outcome of an allocation without the workaround.\<close>

lemma Allocate_cases:
  assumes "\<not> g_need_ftruncate_workaround w" and "wr_file w \<noteq> - 1" and "sz \<noteq> 0"
  shows "Allocate x sz (w, h) =
    (if wr_position w + align8 sz > wr_size w then
       (let page = x h GetPageSize; new_size = grown (wr_size w) sz page;
            h' = h @ [GetPageSize, FTruncate (wr_file w) (sint new_size)] in
        if x (h @ [GetPageSize]) (FTruncate (wr_file w) (sint new_size)) \<noteq> 0 then Inr (kInvalidMDRVA, (w, h'))
        else Inr (wr_position w, (w\<lparr>wr_size := new_size, wr_position := wr_position w + align8 sz\<rparr>, h')))
     else Inr (wr_position w, (w\<lparr>wr_position := wr_position w + align8 sz\<rparr>, h)))"
  using assms by (simp add: Allocate_def Let_def grown_def)

text \<open>The same outcome in integers, where nothing overflows.\<close>

lemma align8_uint: "room_for w sz page \<Longrightarrow> uint (align8 sz) = (uint sz + 7) div 8 * 8"
proof -
  assume r: "room_for w sz page"
  have "0 \<le> uint (wr_size w)" by simp
  then have "uint sz + 7 < 4294967296" using room_forD [OF r] by linarith
  then show ?thesis by (intro uint_align8) simp
qed

lemma grown_uint:
  assumes "room_for w sz page"
  shows "uint (grown (wr_size w) sz page) = uint (wr_size w) + max (uint (align8 sz)) page"
    and "sint (grown (wr_size w) sz page) = uint (wr_size w) + max (uint (align8 sz)) page"
proof -
  note al = align8_bounds [OF assms]
  have nn: "0 \<le> uint (wr_size w)" "0 \<le> uint sz" by simp_all
  note rf = room_forD [OF assms]
  have "page < 4294967296" using rf nn by linarith
  then have pg: "uint (of_int page :: 32 word) = page" using rf(1) by (simp add: uint_word_of_int)
  define g where "g = (if align8 sz < of_int page then of_int page else align8 sz)"
  have g: "uint g = max (uint (align8 sz)) page"
    by (auto simp: g_def pg word_less_def max_def)
  have "uint (wr_size w) + uint g < 4294967296" using g al rf nn by linarith
  moreover have "0 \<le> uint (wr_size w) + max (uint (align8 sz)) page" using nn rf(1) by linarith
  ultimately show u: "uint (grown (wr_size w) sz page) = uint (wr_size w) + max (uint (align8 sz)) page"
    using nn g by (simp add: grown_def g_def [symmetric] uint_word_ariths)
  then show "sint (grown (wr_size w) sz page) = uint (wr_size w) + max (uint (align8 sz)) page"
    using grown_bounds(3) [OF assms] by (simp add: sint_small)
qed

lemma Allocate_workaround:
  assumes "g_need_ftruncate_workaround w" and "wr_file w \<noteq> - 1" and "sz \<noteq> 0" and "room_for w sz page"
  shows "Allocate x sz (w, h) =
      Inr (wr_position w, (w\<lparr>wr_size := wr_size w + sz, wr_position := wr_position w + sz\<rparr>, h))"
    and "uint (wr_size w + sz) = uint (wr_size w) + uint sz"
    and "uint (wr_position w + sz) = uint (wr_position w) + uint sz"
proof -
  have "0 \<le> uint (wr_position w)" "0 \<le> uint sz" by simp_all
  then have "uint (wr_size w) + uint sz < 4294967296" "uint (wr_position w) + uint sz < 4294967296"
    using room_forD [OF assms(4)] by linarith+
  then show "uint (wr_size w + sz) = uint (wr_size w) + uint sz"
    "uint (wr_position w + sz) = uint (wr_position w) + uint sz" by (simp_all add: uint_word_ariths)
qed (use assms in \<open>simp add: Allocate_def\<close>)

lemma Allocate_outcome:
  assumes "\<not> g_need_ftruncate_workaround w" and "wr_file w \<noteq> - 1" and "sz \<noteq> 0" and "room_for w sz (x h GetPageSize)"
  defines "n \<equiv> (uint sz + 7) div 8 * 8"
  defines "new_size \<equiv> uint (wr_size w) + max n (x h GetPageSize)"
  shows "Allocate x sz (w, h) =
    (if uint (wr_position w) + n \<le> uint (wr_size w)
     then Inr (wr_position w, (w\<lparr>wr_position := wr_position w + align8 sz\<rparr>, h))
     else if x (h @ [GetPageSize]) (FTruncate (wr_file w) new_size) = 0
     then Inr (wr_position w, (w\<lparr>wr_size := grown (wr_size w) sz (x h GetPageSize),
        wr_position := wr_position w + align8 sz\<rparr>, h @ [GetPageSize, FTruncate (wr_file w) new_size]))
     else Inr (kInvalidMDRVA, (w, h @ [GetPageSize, FTruncate (wr_file w) new_size])))"
    and "uint (wr_position w + align8 sz) = uint (wr_position w) + n"
    and "uint (grown (wr_size w) sz (x h GetPageSize)) = new_size"
proof -
  note al = align8_bounds(4) [OF assms(4)] and n = align8_uint [OF assms(4), folded n_def]
  note gr = grown_uint [OF assms(4), unfolded n, folded new_size_def]
  show "uint (wr_position w + align8 sz) = uint (wr_position w) + n" using al n by simp
  show "uint (grown (wr_size w) sz (x h GetPageSize)) = new_size" by (rule gr(1))
  have "wr_position w + align8 sz > wr_size w \<longleftrightarrow> \<not> uint (wr_position w) + n \<le> uint (wr_size w)"
    using al n by (simp add: word_less_def not_le)
  then show "Allocate x sz (w, h) =
    (if uint (wr_position w) + n \<le> uint (wr_size w)
     then Inr (wr_position w, (w\<lparr>wr_position := wr_position w + align8 sz\<rparr>, h))
     else if x (h @ [GetPageSize]) (FTruncate (wr_file w) new_size) = 0
     then Inr (wr_position w, (w\<lparr>wr_size := grown (wr_size w) sz (x h GetPageSize),
        wr_position := wr_position w + align8 sz\<rparr>, h @ [GetPageSize, FTruncate (wr_file w) new_size]))
     else Inr (kInvalidMDRVA, (w, h @ [GetPageSize, FTruncate (wr_file w) new_size])))"
    by (simp add: Allocate_cases [OF assms(1-3)] gr(2) Let_def)
qed

text \<open>C37: What \<open>Allocate\<close> hands out and which calls it makes, where no sum overflows. Let \<open>n\<close> be the
  requested size rounded up to a multiple of 8. When \<open>n\<close> bytes still fit in the file, it makes no
  call, returns the old position and moves it on by \<open>n\<close>. Otherwise it asks for the page size and for
  the file to be enlarged by the larger of \<open>n\<close> and a page, and by nothing else; when that succeeds
  (and only then) the size is the new one and the region is handed out, else the writer is
  unchanged and the result is invalid. So a region handed out ends inside the file as it is then,
  and a multiple-of-8 position stays one. On a device where \<open>ftruncate\<close> is broken (the workaround)
  position and size move on by exactly the requested size, without alignment and without a call:
  the later writes enlarge the file.\<close>

theorem allocate_region:
  assumes "wr_file w \<noteq> - 1" and "sz \<noteq> 0" and "room_for w sz (x h GetPageSize)"
  shows "let n = (uint sz + 7) div 8 * 8; new_size = uint (wr_size w) + max n (x h GetPageSize) in
    \<exists>p w' h'. Allocate x sz (w, h) = Inr (p, (w', h')) \<and>
      w' = w\<lparr>wr_position := wr_position w', wr_size := wr_size w'\<rparr> \<and>
      (if g_need_ftruncate_workaround w
       then p = wr_position w \<and> uint (wr_position w') = uint (wr_position w) + uint sz \<and>
         uint (wr_size w') = uint (wr_size w) + uint sz \<and> h' = h
       else if uint (wr_position w) + n \<le> uint (wr_size w)
       then p = wr_position w \<and> uint (wr_position w') = uint (wr_position w) + n \<and> wr_size w' = wr_size w \<and> h' = h
       else h' = h @ [GetPageSize, FTruncate (wr_file w) new_size] \<and>
         (if x (h @ [GetPageSize]) (FTruncate (wr_file w) new_size) = 0
          then p = wr_position w \<and> uint (wr_position w') = uint (wr_position w) + n \<and> uint (wr_size w') = new_size
          else p = kInvalidMDRVA \<and> w' = w)) \<and>
      (p \<noteq> kInvalidMDRVA \<longrightarrow> uint p + uint sz \<le> uint (wr_position w') \<and> uint (wr_position w') \<le> uint (wr_size w'))"
proof (cases "g_need_ftruncate_workaround w")
  case True
  note W = Allocate_workaround [OF True assms(1,2), of "x h GetPageSize", OF assms(3)]
  have "uint (wr_position w) \<le> uint (wr_size w)" using room_forD [OF assms(3)] by simp
  then show ?thesis using True W by (simp add: Let_def)
next
  case False
  note A = Allocate_outcome [of w sz x h, OF False assms]
  have le: "uint (wr_position w) \<le> uint (wr_size w)" using room_forD [OF assms(3)] by simp
  moreover have "uint (wr_position w) + (uint sz + 7) div 8 * 8 \<le>
      uint (wr_size w) + max ((uint sz + 7) div 8 * 8) (x h GetPageSize)"
    by (intro add_mono le) simp
  moreover have "uint sz \<le> (uint sz + 7) div 8 * 8" by presburger
  ultimately show ?thesis using False A(2,3) by (simp add: A(1) Let_def)
qed

definition demo_os :: "sys_call ext" where
  "demo_os h c = (case c of SysLseek f off wh \<Rightarrow> off | SysWrite f bs \<Rightarrow> int (length bs) | GetPageSize \<Rightarrow> 4096 | _ \<Rightarrow> 0)"

definition demo_writer :: file_writer where
  "demo_writer = \<lparr>wr_file = 5, close_when_destroyed = False, wr_position = 32, wr_size = 40,
     g_need_ftruncate_workaround = False, g_checked_need_ftruncate_workaround = True\<rparr>"

theorem allocate_region_witness:
  "\<exists>p w' h'. Allocate demo_os 10 (demo_writer, []) = Inr (p, (w', h')) \<and> p = 32 \<and>
     uint (wr_position w') = 48 \<and> uint (wr_size w') = 4136 \<and> h' = [GetPageSize, FTruncate 5 4136]"
proof -
  have "room_for demo_writer 10 (demo_os [] GetPageSize)"
    by (simp add: room_for_def demo_writer_def demo_os_def)
  from allocate_region [of demo_writer 10 demo_os "[]", OF _ _ this] show ?thesis
    by (simp add: demo_writer_def demo_os_def Let_def) metis
qed

section \<open>Copies\<close>

text \<open>What the code relies on of a system that does not fail: seeking to a valid offset returns it,
  writing writes everything, and the file can be resized.\<close>

definition good_os :: "sys_call ext \<Rightarrow> int \<Rightarrow> bool" where
  "good_os x page \<longleftrightarrow> (\<forall>h f off. 0 \<le> off \<longrightarrow> x h (SysLseek f off 0) = off) \<and>
     (\<forall>h f bs. x h (SysWrite f bs) = int (length bs)) \<and> (\<forall>h f n. x h (FTruncate f n) = 0) \<and>
     (\<forall>h. x h GetPageSize = page)"

definition write_at :: "int \<Rightarrow> int \<Rightarrow> byte list \<Rightarrow> sys_call list" where
  "write_at f off bs = [SysLseek f off 0, SysWrite f bs]"

lemma Copy_ok:
  assumes "good_os x page" and "wr_file w \<noteq> - 1" and "src \<noteq> []"
    and "uint pos + int (length src) \<le> uint (wr_size w)" and "uint (wr_size w) < 2147483648"
  shows "Copy x pos src (w, h) = Inr (True, (w, h @ write_at (wr_file w) (uint pos) src))"
proof -
  have nn: "0 \<le> uint pos" by simp
  have "uint (of_int (int (length src) + uint pos) :: 32 word) = int (length src) + uint pos"
    using assms(4,5) nn by (intro uint_of_int32) linarith+
  then have "uint (of_nat (length src) + pos) = int (length src) + uint pos" by simp
  then have "\<not> of_nat (length src) + pos > wr_size w" using assms(4) by (simp add: word_less_def)
  moreover have "sint pos = uint pos" using assms(4,5) by (intro sint_small) linarith
  ultimately show ?thesis using assms(1-3) by (simp add: Copy_def good_os_def write_at_def)
qed

section \<open>Strings of the basic plane\<close>

text \<open>The element writes: unit \<open>i\<close> of the string at \<open>2 * i\<close> behind the length.\<close>

fun unit_writes :: "int \<Rightarrow> int \<Rightarrow> nat \<Rightarrow> UTF16 list \<Rightarrow> sys_call list" where
  "unit_writes f p i [] = []"
| "unit_writes f p i (u # us) = write_at f (p + 4 + 2 * int i) (le16 u) @ unit_writes f p (i + 1) us"

definition bmp_char :: "UTF32 \<Rightarrow> bool" where
  "bmp_char ch \<longleftrightarrow> scalar_char ch \<and> ch \<noteq> 0 \<and> ch \<le> UNI_MAX_BMP"

lemma uint_index:
  fixes p :: "32 word"
  assumes "uint p + 4 + 2 * int i < 2147483648"
  shows "uint (p + 4 + of_nat i * 2) = uint p + 4 + 2 * int i"
proof -
  have nn: "0 \<le> uint p" by simp
  have "p + 4 + of_nat i * 2 = of_int (uint p + 4 + 2 * int i)" by (simp add: mult.commute)
  then show ?thesis using assms nn by (simp only:) (intro uint_of_int32; linarith)
qed

lemma copy_utf8_ok:
  assumes "good_os x page" and "wr_file w \<noteq> - 1" and "uint (wr_size w) < 2147483648"
    and "\<forall>ch\<in>set cs. bmp_char ch" and "uint (rva_position r) + 4 + 2 * int (i + length cs) \<le> uint (wr_size w)"
  shows "copy_utf8 x r (concat (map utf8 cs) @ t) (length (concat (map utf8 cs))) i (w, h) =
    Inr (True, (w, h @ unit_writes (wr_file w) (uint (rva_position r)) i (map ucast cs)))"
  using assms(4,5)
proof (induction cs arbitrary: i h)
  case Nil
  then show ?case by (simp add: copy_utf8.simps)
next
  case (Cons ch cs)
  let ?n = "length (utf8 ch)" and ?s = "concat (map utf8 cs)"
  have ch: "scalar_char ch" "ch \<noteq> 0" "ch \<le> UNI_MAX_BMP" using Cons.prems(1) by (auto simp: bmp_char_def)
  have "UTF8ToUTF16Char (utf8 ch @ ?s @ t) (?n + length ?s) = Inr (?n, [ucast ch, 0])"
    using UTF8ToUTF16Char_ok [OF ch(1), of "?n + length ?s" "?s @ t"] ch(3) by (simp add: utf16_def vec_resize_def)
  moreover have "uint (rva_position r + 4 + of_nat i * 2) = uint (rva_position r) + 4 + 2 * int i"
    using Cons.prems(2) assms(3) by (intro uint_index) simp
  then have "CopyIndexAfterObject x r i (le16 (ucast ch)) (w, h) =
      Inr (True, (w, h @ write_at (wr_file w) (uint (rva_position r) + 4 + 2 * int i) (le16 (ucast ch))))"
    using Copy_ok [OF assms(1,2), of "le16 (ucast ch)" "rva_position r + 4 + of_nat i * 2" h] Cons.prems(2) assms(3)
    by (simp add: CopyIndexAfterObject_def le16_def)
  moreover have "copy_utf8 x r (?s @ t) (length ?s) (i + 1) (w, h') =
      Inr (True, (w, h' @ unit_writes (wr_file w) (uint (rva_position r)) (i + 1) (map ucast cs)))" for h'
    using Cons.prems by (intro Cons.IH) auto
  ultimately show ?case
    by (subst copy_utf8.simps) (simp add: unit_bytes_def unit_count_def)
qed

lemma Allocate_good:
  assumes "good_os x page" and "\<not> g_need_ftruncate_workaround w" and "wr_file w \<noteq> - 1" and "sz \<noteq> 0"
    and "room_for w sz page"
  shows "\<exists>w' h1. Allocate x sz (w, h) = Inr (wr_position w, (w', h @ h1)) \<and> wr_file w' = wr_file w \<and>
    (\<forall>f bs. SysWrite f bs \<notin> set h1) \<and> uint (wr_position w) + uint sz \<le> uint (wr_size w') \<and>
    uint (wr_size w') < 2147483648 \<and> wr_position w \<noteq> kInvalidMDRVA"
proof -
  note al = align8_bounds [OF assms(5)] and gr = grown_bounds [OF assms(5)] and rf = room_forD [OF assms(5)]
  have pg: "x h GetPageSize = page" using assms(1) by (simp add: good_os_def)
  have nn: "0 \<le> uint sz" by simp
  have "uint (wr_position w) < 2147483648" using rf nn by linarith
  moreover have "uint (- 1 :: 32 word) = 4294967295" by (simp add: unsigned_minus_1_eq_mask mask_eq_exp_minus_1)
  ultimately have inv: "wr_position w \<noteq> kInvalidMDRVA" by auto
  show ?thesis
  proof (cases "wr_position w + align8 sz > wr_size w")
    case True
    then show ?thesis using assms(1) al gr inv
      by (auto simp: Allocate_cases [OF assms(2-4)] Let_def pg good_os_def)
  next
    case False
    then have "uint (wr_position w + align8 sz) \<le> uint (wr_size w)" by (simp add: word_le_def not_less)
    moreover have "uint (wr_size w) < 2147483648" using rf nn by linarith
    ultimately show ?thesis using False al inv by (auto simp: Allocate_cases [OF assms(2-4)])
  qed
qed

lemma utf8_nonzero: "scalar_char ch \<Longrightarrow> ch \<noteq> 0 \<Longrightarrow> 0 \<notin> set (utf8 ch)"
proof
  assume sc: "scalar_char ch" and nz: "ch \<noteq> 0" and "0 \<in> set (utf8 ch)"
  then obtain k where k: "k \<in> set (utf8_ref (unat ch))" "(of_nat k :: UTF8) = 0" by (auto simp: utf8_def)
  have "unat ch < 0x110000" using sc by (auto simp: scalar_def)
  then have "k < 256" using k(1) by (rule utf8_ref_bytes)
  then have "k = 0" using k(2) unat_byte [of k] by simp
  then show False using k(1) nz by (auto simp: utf8_ref_def unat_eq_zero split: if_splits)
qed

lemma count_chars_ok: "0 \<notin> set s \<Longrightarrow> length s < len \<Longrightarrow> count_chars (s @ 0 # t) len = Inr (length s)"
proof (induction s arbitrary: len)
  case Nil
  then show ?case by (cases len) auto
next
  case (Cons c s)
  then show ?case by (cases len) auto
qed

lemma length_le_utf8: "length cs \<le> length (concat (map utf8 cs))"
proof (induction cs)
  case (Cons c cs)
  have "1 \<le> length (utf8 c)" using utf8_length(2) [of c] by linarith
  then show ?case using Cons by (simp only: list.map concat.simps length_append list.size)
qed simp

text \<open>A UTF-8 string of the basic plane is written correctly by \<open>WriteString\<close>: on a system that does not
  fail, with room in the address space, the call succeeds, the location is the old position with
  the size of the length and \<open>n + 1\<close> units, and the only writes are unit \<open>i\<close> of the UTF-16 string at
  offset \<open>2 * i\<close>, the NUL behind the last possible unit and the length in front, all inside the region.\<close>

lemma write_string_bmp:
  fixes cs :: "UTF32 list"
  defines "n \<equiv> length (concat (map utf8 cs))"
  assumes "good_os x page" and "\<not> g_need_ftruncate_workaround w" and "wr_file w \<noteq> - 1" and "0 < page"
    and "uint (wr_position w) \<le> uint (wr_size w)" and "uint (wr_size w) + int (6 + 2 * n) + 7 + page < 2147483648"
    and "\<forall>ch\<in>set cs. bmp_char ch"
  shows "\<exists>w' h1. WriteString x (concat (map utf8 cs) @ 0 # t) 0 (w, h) =
    Inr (Some (of_nat (6 + 2 * n), wr_position w),
      (w', h @ h1 @ unit_writes (wr_file w) (uint (wr_position w)) 0 (map ucast cs) @
        write_at (wr_file w) (uint (wr_position w) + 4 + 2 * int n) [0, 0] @
        write_at (wr_file w) (uint (wr_position w)) (le32 (of_nat (2 * n))))) \<and>
    (\<forall>f bs. SysWrite f bs \<notin> set h1) \<and> uint (wr_position w) + int (6 + 2 * n) \<le> uint (wr_size w')"
proof -
  let ?p = "wr_position w" and ?s = "concat (map utf8 cs)"
  have nn: "0 \<le> uint (wr_size w)" "0 \<le> uint ?p" by simp_all
  define sz :: "32 word" where "sz = of_nat (6 + 2 * n)"
  have "uint (of_int (int (6 + 2 * n)) :: 32 word) = int (6 + 2 * n)" using assms(5,7) nn by (intro uint_of_int32) linarith+
  then have sz: "uint sz = int (6 + 2 * n)" by (simp add: sz_def)
  then have "sz \<noteq> 0" by auto
  moreover have "room_for w sz page" using assms(5-7) sz by (simp add: room_for_def)
  ultimately obtain w' h1 where al: "Allocate x sz (w, h) = Inr (?p, (w', h @ h1))" "wr_file w' = wr_file w"
    "\<forall>f bs. SysWrite f bs \<notin> set h1" "uint ?p + uint sz \<le> uint (wr_size w')" "uint (wr_size w') < 2147483648"
    "?p \<noteq> kInvalidMDRVA" using Allocate_good [OF assms(2-4)] by blast
  let ?r = "\<lparr>rva_position = ?p, rva_size = sz\<rparr>"
  have f: "wr_file w' \<noteq> - 1" using al(2) assms(4) by simp
  have nul: "0 \<notin> set ?s" using assms(8) utf8_nonzero by (auto simp: bmp_char_def)
  have "int (6 + 2 * n) < 2147483648" using assms(5,7) nn by linarith
  then have "n < 2147483647" by linarith
  then have "length ?s < 2147483647" unfolding n_def by linarith
  then have cnt: "count_chars (?s @ 0 # t) 2147483647 = Inr n" unfolding n_def by (rule count_chars_ok [OF nul])
  have "length cs \<le> n" unfolding n_def by (rule length_le_utf8)
  then have c1: "copy_utf8 x ?r (?s @ 0 # t) n 0 (w', h') =
      Inr (True, (w', h' @ unit_writes (wr_file w) (uint ?p) 0 (map ucast cs)))" for h'
    using copy_utf8_ok [OF assms(2) f al(5) assms(8), of ?r 0 "0 # t" h'] al(2,4) sz by (simp add: n_def)
  have "uint (?p + 4 + of_nat n * 2) = uint ?p + 4 + 2 * int n" using al(4,5) sz by (intro uint_index) simp
  then have c2: "CopyIndexAfterObject x ?r n [0, 0] (w', h') =
      Inr (True, (w', h' @ write_at (wr_file w) (uint ?p + 4 + 2 * int n) [0, 0]))" for h'
    using Copy_ok [OF assms(2) f, of "[0, 0]" "?p + 4 + of_nat n * 2" h'] al(2,4,5) sz by (simp add: CopyIndexAfterObject_def)
  have c3: "Flush x ?r (of_nat (n * 2)) (w', h') =
      Inr ((), (w', h' @ write_at (wr_file w) (uint ?p) (le32 (of_nat (2 * n)))))" for h'
    using Copy_ok [OF assms(2) f, of "le32 (of_nat (2 * n))" ?p h'] al(2,4,5) sz
    by (simp add: Flush_def le32_def mult.commute)
  have "4 + of_nat (n + 1) * 2 = sz" by (simp add: sz_def)
  then have "WriteString x (?s @ 0 # t) 0 (w, h) = Inr (Some (sz, ?p), (w', h @ h1 @
      unit_writes (wr_file w) (uint ?p) 0 (map ucast cs) @ write_at (wr_file w) (uint ?p + 4 + 2 * int n) [0, 0] @
      write_at (wr_file w) (uint ?p) (le32 (of_nat (2 * n)))))"
    using al(6)
    by (simp add: WriteString_def write_string_core_def UntypedMDRVA_def UntypedMDRVA_Allocate_def cnt al(1) c1 c2 c3
        del: of_nat_add of_nat_mult)
  then show ?thesis using al(3,4) unfolding sz unfolding sz_def by blast
qed

theorem write_string_bmp_witness:
  "\<exists>w' h1. WriteString demo_os [0x61, 0xC3, 0x9F, 0] 0 (demo_writer, []) =
    Inr (Some (12, 32), (w', h1 @ [SysLseek 5 36 0, SysWrite 5 [0x61, 0], SysLseek 5 38 0, SysWrite 5 [0xDF, 0],
      SysLseek 5 42 0, SysWrite 5 [0, 0], SysLseek 5 32 0, SysWrite 5 [6, 0, 0, 0]]))"
proof -
  have u: "utf8 0x61 = [0x61]" "utf8 0xDF = [0xC3, 0x9F]" by (simp_all add: utf8_def utf8_ref_def)
  have "good_os demo_os 4096" by (simp add: good_os_def demo_os_def)
  moreover have "\<forall>ch\<in>set [0x61, 0xDF]. bmp_char ch" by (simp add: bmp_char_def scalar_def)
  ultimately show ?thesis
    using write_string_bmp [of demo_os 4096 demo_writer "[0x61, 0xDF]" "[]" "[]"]
    by (auto simp: demo_writer_def u write_at_def le16_def le32_def)
qed

section \<open>What goes wrong\<close>

text \<open>
  A surrogate pair is copied as one element of four bytes, whose offset is its index times four: behind
  one unit it lands at 8 instead of 6, and the slot of its first unit stays unwritten.
\<close>

lemma pair_misplaced:
  assumes "good_os x page" and "wr_file w \<noteq> - 1" and "uint (wr_size w) < 2147483648"
    and "uint (rva_position r) + 12 \<le> uint (wr_size w)"
  shows "CopyIndexAfterObject x r 1 (unit_bytes (vec_resize 2 (utf16 0x1F600))) (w, h) =
    Inr (True, (w, h @ write_at (wr_file w) (uint (rva_position r) + 8) [0x3D, 0xD8, 0, 0xDE]))"
proof -
  have nn: "0 \<le> uint (rva_position r)" by simp
  have b: "unit_bytes (vec_resize 2 (utf16 0x1F600)) = [0x3D, 0xD8, 0, 0xDE]"
    by (simp add: utf16_def surrogates_def vec_resize_def unit_bytes_def le16_def)
  have "uint (of_int (uint (rva_position r) + 8) :: 32 word) = uint (rva_position r) + 8"
    using assms(3,4) nn by (intro uint_of_int32) linarith+
  then have "uint (rva_position r + 8) = uint (rva_position r) + 8" by simp
  then show ?thesis
    using Copy_ok [OF assms(1,2), of "[0x3D, 0xD8, 0, 0xDE]" "rva_position r + 8" h] assms(3,4)
    by (simp add: CopyIndexAfterObject_def b add.commute)
qed

text \<open>
  After a failed allocation the destructor still writes the length object at \<open>kInvalidMDRVA\<close>: the sum
  in \<open>Copy\<close> wraps around to 3, the failed seek returns \<open>- 1\<close>, which is that position as an \<open>off_t\<close>, and
  four bytes are written wherever the file offset is.
\<close>

lemma failed_allocation_writes:
  assumes "wr_file w \<noteq> - 1" and "3 \<le> wr_size w" and "x h (SysLseek (wr_file w) (- 1) 0) = - 1"
  shows "Flush x \<lparr>rva_position = kInvalidMDRVA, rva_size = sz\<rparr> 0 (w, h) =
    Inr ((), (w, h @ [SysLseek (wr_file w) (- 1) 0, SysWrite (wr_file w) [0, 0, 0, 0]]))"
  using assms by (simp add: Flush_def Copy_def le32_def not_less)

end
