(* ===== verification/Md5.thy ===== *)
theory Md5
  imports Prelude
begin

text \<open>
  The message digest of \<open>breakpad/src/common/md5.cc\<close>: context, accumulation in arbitrary pieces, the
  compression function and the final block, on a little-endian target.
\<close>

unbundle bit_operations_syntax

section \<open>The compression function\<close>

type_synonym u32 = "32 word"

definition F1 :: "u32 \<Rightarrow> u32 \<Rightarrow> u32 \<Rightarrow> u32" where
  "F1 x y z = (z XOR (x AND (y XOR z)))"

definition F2 :: "u32 \<Rightarrow> u32 \<Rightarrow> u32 \<Rightarrow> u32" where
  "F2 x y z = F1 z x y"

definition F3 :: "u32 \<Rightarrow> u32 \<Rightarrow> u32 \<Rightarrow> u32" where
  "F3 x y z = (x XOR y XOR z)"

definition F4 :: "u32 \<Rightarrow> u32 \<Rightarrow> u32 \<Rightarrow> u32" where
  "F4 x y z = (y XOR (x OR NOT z))"

definition MD5STEP :: "(u32 \<Rightarrow> u32 \<Rightarrow> u32 \<Rightarrow> u32) \<Rightarrow> u32 \<Rightarrow> u32 \<Rightarrow> u32 \<Rightarrow> u32 \<Rightarrow> u32 \<Rightarrow> nat \<Rightarrow> u32" where
  "MD5STEP f w x y z data s =
     (let w1 = w + (f x y z + data); w2 = (push_bit s w1 OR drop_bit (32 - s) w1) in w2 + x)"

text \<open>Index into the block, constant and shift of the 64 steps, in their order.\<close>

definition md5_steps :: "(nat \<times> u32 \<times> nat) list" where
  "md5_steps =
    [(0, 0xd76aa478, 7), (1, 0xe8c7b756, 12), (2, 0x242070db, 17), (3, 0xc1bdceee, 22),
     (4, 0xf57c0faf, 7), (5, 0x4787c62a, 12), (6, 0xa8304613, 17), (7, 0xfd469501, 22),
     (8, 0x698098d8, 7), (9, 0x8b44f7af, 12), (10, 0xffff5bb1, 17), (11, 0x895cd7be, 22),
     (12, 0x6b901122, 7), (13, 0xfd987193, 12), (14, 0xa679438e, 17), (15, 0x49b40821, 22),
     (1, 0xf61e2562, 5), (6, 0xc040b340, 9), (11, 0x265e5a51, 14), (0, 0xe9b6c7aa, 20),
     (5, 0xd62f105d, 5), (10, 0x02441453, 9), (15, 0xd8a1e681, 14), (4, 0xe7d3fbc8, 20),
     (9, 0x21e1cde6, 5), (14, 0xc33707d6, 9), (3, 0xf4d50d87, 14), (8, 0x455a14ed, 20),
     (13, 0xa9e3e905, 5), (2, 0xfcefa3f8, 9), (7, 0x676f02d9, 14), (12, 0x8d2a4c8a, 20),
     (5, 0xfffa3942, 4), (8, 0x8771f681, 11), (11, 0x6d9d6122, 16), (14, 0xfde5380c, 23),
     (1, 0xa4beea44, 4), (4, 0x4bdecfa9, 11), (7, 0xf6bb4b60, 16), (10, 0xbebfbc70, 23),
     (13, 0x289b7ec6, 4), (0, 0xeaa127fa, 11), (3, 0xd4ef3085, 16), (6, 0x04881d05, 23),
     (9, 0xd9d4d039, 4), (12, 0xe6db99e5, 11), (15, 0x1fa27cf8, 16), (2, 0xc4ac5665, 23),
     (0, 0xf4292244, 6), (7, 0x432aff97, 10), (14, 0xab9423a7, 15), (5, 0xfc93a039, 21),
     (12, 0x655b59c3, 6), (3, 0x8f0ccc92, 10), (10, 0xffeff47d, 15), (1, 0x85845dd1, 21),
     (8, 0x6fa87e4f, 6), (15, 0xfe2ce6e0, 10), (6, 0xa3014314, 15), (13, 0x4e0811a1, 21),
     (4, 0xf7537e82, 6), (11, 0xbd3af235, 10), (2, 0x2ad7d2bb, 15), (9, 0xeb86d391, 21)]"

definition md5_round :: "nat \<Rightarrow> u32 \<Rightarrow> u32 \<Rightarrow> u32 \<Rightarrow> u32" where
  "md5_round i = (if i < 16 then F1 else if i < 32 then F2 else if i < 48 then F3 else F4)"

text \<open>
  Each step changes the first of the four registers; the next one uses them rotated by one
  (\<open>a b c d\<close>, then \<open>d a b c\<close>, and so on), so that after 64 steps they are in place again.
\<close>

definition md5_step :: "u32 list \<Rightarrow> u32 \<times> u32 \<times> u32 \<times> u32 \<Rightarrow> nat \<Rightarrow> u32 \<times> u32 \<times> u32 \<times> u32" where
  "md5_step in32 r i = (case r of (a, b, c, d) \<Rightarrow> case md5_steps ! i of (k, t, s) \<Rightarrow>
     (d, MD5STEP (md5_round i) a b c d (in32 ! k + t) s, b, c))"

definition le32_of :: "byte list \<Rightarrow> u32" where
  "le32_of bs = foldr (\<lambda>b w. push_bit 8 w OR ucast b) bs 0"

definition words_of :: "byte list \<Rightarrow> u32 list" where
  "words_of bs = map (\<lambda>i. le32_of (take 4 (drop (4 * i) bs))) [0..<16]"

type_synonym chain = "u32 \<times> u32 \<times> u32 \<times> u32"

definition MD5Transform :: "chain \<Rightarrow> byte list \<Rightarrow> chain" where
  "MD5Transform buf block =
     (case foldl (md5_step (words_of block)) buf [0..<64] of (a, b, c, d) \<Rightarrow>
      case buf of (b0, b1, b2, b3) \<Rightarrow> (b0 + a, b1 + b, b2 + c, b3 + d))"

section \<open>The context\<close>

record MD5Context =
  ctx_buf :: chain
  bits0 :: u32
  bits1 :: u32
  ctx_in :: "byte list"

text \<open>\<open>MD5Init\<close> leaves the input buffer as it was.\<close>

definition MD5Init :: "MD5Context \<Rightarrow> MD5Context" where
  "MD5Init ctx = ctx\<lparr>ctx_buf := (0x67452301, 0xefcdab89, 0x98badcfe, 0x10325476), bits0 := 0, bits1 := 0\<rparr>"

text \<open>\<open>memcpy\<close> of \<open>data\<close> to offset \<open>k\<close>.\<close>

definition put_at :: "nat \<Rightarrow> byte list \<Rightarrow> byte list \<Rightarrow> byte list" where
  "put_at k data B = take k B @ data @ drop (k + length data) B"

definition transform_in :: "MD5Context \<Rightarrow> MD5Context" where
  "transform_in ctx = ctx\<lparr>ctx_buf := MD5Transform (ctx_buf ctx) (ctx_in ctx)\<rparr>"

function md5_chunks :: "MD5Context \<Rightarrow> byte list \<Rightarrow> MD5Context" where
  "md5_chunks ctx data =
     (if length data \<ge> 64
      then md5_chunks (transform_in (ctx\<lparr>ctx_in := put_at 0 (take 64 data) (ctx_in ctx)\<rparr>)) (drop 64 data)
      else ctx\<lparr>ctx_in := put_at 0 data (ctx_in ctx)\<rparr>)"
  by pat_completeness auto
termination
  by (relation "measure (\<lambda>(ctx, data). length data)") auto

declare md5_chunks.simps [simp del]

definition MD5Update :: "MD5Context \<Rightarrow> byte list \<Rightarrow> MD5Context" where
  "MD5Update ctx0 data =
     (let len = length data; t0 = bits0 ctx0; b0 = t0 + push_bit 3 (of_nat len);
          b1 = (if b0 < t0 then bits1 ctx0 + 1 else bits1 ctx0) + of_nat (len div 2 ^ 29);
          ctx = ctx0\<lparr>bits0 := b0, bits1 := b1\<rparr>;
          t = unat ((drop_bit 3 t0) AND 0x3f) in
      if t \<noteq> 0 then
        (let r = 64 - t in
         if len < r then ctx\<lparr>ctx_in := put_at t data (ctx_in ctx)\<rparr>
         else md5_chunks (transform_in (ctx\<lparr>ctx_in := put_at t (take r data) (ctx_in ctx)\<rparr>)) (drop r data))
      else md5_chunks ctx data)"

definition le32_bytes :: "u32 \<Rightarrow> byte list" where
  "le32_bytes w = [ucast w, ucast (drop_bit 8 w), ucast (drop_bit 16 w), ucast (drop_bit 24 w)]"

text \<open>
  \<open>MD5Final\<close>. \<open>ctx->in\<close> is an array of bytes, so \<open>&ctx->in[14]\<close> and \<open>&ctx->in[15]\<close>, where the length is
  stored, are its bytes 14 and 15.
\<close>

definition final_block :: "MD5Context \<Rightarrow> MD5Context" where
  "final_block ctx =
     (let count = unat ((drop_bit 3 (bits0 ctx)) AND 0x3F);
          ctx1 = ctx\<lparr>ctx_in := put_at count [0x80] (ctx_in ctx)\<rparr>;
          pad = 64 - 1 - count;
          ctx2 = (if pad < 8 then
                    (let c = transform_in (ctx1\<lparr>ctx_in := put_at (count + 1) (replicate pad 0) (ctx_in ctx1)\<rparr>) in
                     c\<lparr>ctx_in := put_at 0 (replicate 56 0) (ctx_in c)\<rparr>)
                  else ctx1\<lparr>ctx_in := put_at (count + 1) (replicate (pad - 8) 0) (ctx_in ctx1)\<rparr>) in
      ctx2\<lparr>ctx_in := put_at 15 (le32_bytes (bits1 ctx2)) (put_at 14 (le32_bytes (bits0 ctx2)) (ctx_in ctx2))\<rparr>)"

definition digest_bytes :: "chain \<Rightarrow> byte list" where
  "digest_bytes c = (case c of (a, b, c, d) \<Rightarrow> le32_bytes a @ le32_bytes b @ le32_bytes c @ le32_bytes d)"

definition MD5Final :: "MD5Context \<Rightarrow> byte list \<times> MD5Context" where
  "MD5Final ctx =
     (digest_bytes (ctx_buf (transform_in (final_block ctx))),
      \<lparr>ctx_buf = (0, 0, 0, 0), bits0 = 0, bits1 = 0, ctx_in = replicate 64 0\<rparr>)"

section \<open>Reference: the message in blocks\<close>

fun blocks :: "byte list \<Rightarrow> byte list list" where
  "blocks m = (if length m < 64 then [] else take 64 m # blocks (drop 64 m))"

fun tail_of :: "byte list \<Rightarrow> byte list" where
  "tail_of m = (if length m < 64 then m else tail_of (drop 64 m))"

declare blocks.simps [simp del] tail_of.simps [simp del]

text \<open>The context after the message \<open>m\<close>: digest of the full blocks, its length in bits, and the bytes
  that do not fill a block yet.\<close>

definition md5_state :: "byte list \<Rightarrow> MD5Context \<Rightarrow> bool" where
  "md5_state m ctx \<longleftrightarrow>
     ctx_buf ctx = foldl MD5Transform (0x67452301, 0xefcdab89, 0x98badcfe, 0x10325476) (blocks m) \<and>
     bits0 ctx = of_nat (8 * length m) \<and> bits1 ctx = of_nat (8 * length m div 2 ^ 32) \<and>
     length (ctx_in ctx) = 64 \<and> take (length m mod 64) (ctx_in ctx) = tail_of m"

lemma tail_of_length: "length (tail_of m) = length m mod 64"
proof (induction m rule: tail_of.induct)
  case (1 m)
  then show ?case by (cases "length m < 64") (simp_all add: tail_of.simps [of m] le_mod_geq)
qed

lemma blocks_append: "blocks (m @ d) = blocks m @ blocks (tail_of m @ d)"
  and tail_of_append: "tail_of (m @ d) = tail_of (tail_of m @ d)"
proof (induction m rule: tail_of.induct)
  case (1 m)
  show "blocks (m @ d) = blocks m @ blocks (tail_of m @ d)"
  proof (cases "length m < 64")
    case True
    then show ?thesis by (simp add: blocks.simps [of m] tail_of.simps [of m])
  next
    case False
    then have "blocks (m @ d) = take 64 m # blocks (drop 64 m @ d)" by (subst blocks.simps) simp
    then show ?thesis using False 1(1) by (simp add: blocks.simps [of m] tail_of.simps [of m])
  qed
  show "tail_of (m @ d) = tail_of (tail_of m @ d)"
  proof (cases "length m < 64")
    case True
    then show ?thesis by (simp add: tail_of.simps [of m])
  next
    case False
    then have "tail_of (m @ d) = tail_of (drop 64 m @ d)" by (subst tail_of.simps) simp
    then show ?thesis using False 1(2) by (simp add: tail_of.simps [of m])
  qed
qed

lemma put_at_length [simp]: "k + length data \<le> length B \<Longrightarrow> length (put_at k data B) = length B"
  by (simp add: put_at_def)

lemma md5_chunks_ok:
  "length (ctx_in ctx) = 64 \<Longrightarrow>
     ctx_buf (md5_chunks ctx data) = foldl MD5Transform (ctx_buf ctx) (blocks data) \<and>
     length (ctx_in (md5_chunks ctx data)) = 64 \<and> take (length data mod 64) (ctx_in (md5_chunks ctx data)) = tail_of data \<and>
     bits0 (md5_chunks ctx data) = bits0 ctx \<and> bits1 (md5_chunks ctx data) = bits1 ctx"
proof (induction ctx data rule: md5_chunks.induct)
  case (1 ctx data)
  show ?case
  proof (cases "length data \<ge> 64")
    case True
    then show ?thesis using 1
      by (simp add: md5_chunks.simps [of ctx data] blocks.simps [of data] tail_of.simps [of data] transform_in_def
          put_at_def le_mod_geq)
  next
    case False
    then show ?thesis using 1(2)
      by (simp add: md5_chunks.simps [of ctx data] blocks.simps [of data] tail_of.simps [of data] put_at_def)
  qed
qed

section \<open>Bit counts\<close>

lemma count_bits: "unat ((drop_bit 3 (of_nat n :: u32)) AND 0x3f) = n mod 4294967296 div 8 mod 64"
proof -
  have "(drop_bit 3 (of_nat n :: u32)) AND 0x3f = take_bit 6 (drop_bit 3 (of_nat n))"
    by (simp add: take_bit_eq_mask mask_eq_exp_minus_1 del: drop_bit_eq_div)
  then show ?thesis
    by (simp only: unsigned_take_bit_eq unat_drop_bit_eq unat_of_nat) (simp add: take_bit_eq_mod drop_bit_eq_div)
qed

lemma byte_count: "unat ((drop_bit 3 (of_nat (8 * n) :: u32)) AND 0x3f) = n mod 64"
proof -
  have "8 * n mod 4294967296 = 8 * (n mod 536870912)" using mod_mult_mult1 [of 8 n 536870912] by simp
  then have "8 * n mod 4294967296 div 8 mod 64 = n mod 64" using mod_mod_cancel [of 64 536870912 n] by simp
  then show ?thesis by (simp only: count_bits)
qed

lemma carry:
  fixes a b :: nat
  defines "t \<equiv> of_nat a :: u32"
  shows "t + of_nat b < t \<longleftrightarrow> 2 ^ 32 \<le> a mod 2 ^ 32 + b mod 2 ^ 32"
proof -
  have u: "unat t = a mod 2 ^ 32" "unat (t + of_nat b) = (a mod 2 ^ 32 + b mod 2 ^ 32) mod 2 ^ 32"
    by (simp_all add: t_def unat_of_nat take_bit_eq_mod unat_word_ariths mod_add_eq)
  have "a mod 2 ^ 32 < 2 ^ 32" "b mod 2 ^ 32 < 2 ^ 32" by simp_all
  then show ?thesis unfolding word_less_nat_alt u
    by (cases "2 ^ 32 \<le> a mod 2 ^ 32 + b mod 2 ^ 32") (simp_all add: le_mod_geq)
qed

lemma div_add_carry:
  fixes a b c :: nat
  assumes "0 < c"
  shows "(a + b) div c = a div c + b div c + (if c \<le> a mod c + b mod c then 1 else 0)"
proof -
  have "(a + b) div c = a div c + b div c + (a mod c + b mod c) div c" by (rule div_add1_eq)
  moreover have lt: "a mod c < c" "b mod c < c" using assms by simp_all
  have "(a mod c + b mod c) div c = 1" if "c \<le> a mod c + b mod c"
    by (rule div_nat_eqI) (use that add_strict_mono [OF lt] in simp_all)
  moreover have "(a mod c + b mod c) div c = 0" if "\<not> c \<le> a mod c + b mod c"
    using that by (simp add: not_le)
  ultimately show ?thesis by simp
qed

lemma bit_count:
  shows "(of_nat (8 * m) :: u32) + push_bit 3 (of_nat n) = of_nat (8 * (m + n))"
    and "(if (of_nat (8 * (m + n)) :: u32) < of_nat (8 * m) then of_nat (8 * m div 2 ^ 32) + 1 else of_nat (8 * m div 2 ^ 32)) +
      of_nat (n div 2 ^ 29) = (of_nat (8 * (m + n) div 2 ^ 32) :: u32)"
proof -
  have "push_bit 3 (of_nat n) = (of_nat (8 * n) :: u32)" by (simp add: push_bit_eq_mult)
  then show eq: "(of_nat (8 * m) :: u32) + push_bit 3 (of_nat n) = of_nat (8 * (m + n))" by (simp add: distrib_left)
  have "8 * n div 2 ^ 32 = n div 2 ^ 29" using div_mult_mult1 [of 8 n "2 ^ 29"] by simp
  moreover have s: "8 * (m + n) = 8 * m + 8 * n" by simp
  ultimately have "8 * (m + n) div 2 ^ 32 =
      8 * m div 2 ^ 32 + n div 2 ^ 29 + (if 2 ^ 32 \<le> 8 * m mod 2 ^ 32 + 8 * n mod 2 ^ 32 then 1 else 0)"
    using div_add_carry [of "2 ^ 32" "8 * m" "8 * n"] by (simp only: zero_less_power zero_less_numeral simp_thms)
  moreover have "(of_nat (8 * (m + n)) :: u32) < of_nat (8 * m) \<longleftrightarrow> 2 ^ 32 \<le> 8 * m mod 2 ^ 32 + 8 * n mod 2 ^ 32"
    unfolding s of_nat_add by (rule carry)
  ultimately show "(if (of_nat (8 * (m + n)) :: u32) < of_nat (8 * m) then of_nat (8 * m div 2 ^ 32) + 1 else of_nat (8 * m div 2 ^ 32)) +
      of_nat (n div 2 ^ 29) = (of_nat (8 * (m + n) div 2 ^ 32) :: u32)"
    by (simp only: of_nat_add of_nat_1 of_nat_0 ac_simps add_0_right split: if_split) simp
qed

section \<open>Accumulation\<close>

lemma blocks_full: "length b = 64 \<Longrightarrow> blocks (b @ d) = b # blocks d" and tail_of_full: "length b = 64 \<Longrightarrow> tail_of (b @ d) = tail_of d"
  by (simp_all add: blocks.simps [of "b @ d"] tail_of.simps [of "b @ d"])

lemma MD5Update_state:
  assumes "md5_state m ctx"
  shows "md5_state (m @ data) (MD5Update ctx data)"
proof -
  let ?k = "length m mod 64" and ?n = "length data"
  define c where "c = ctx\<lparr>bits0 := of_nat (8 * (length m + ?n)), bits1 := of_nat (8 * (length m + ?n) div 2 ^ 32)\<rparr>"
  have st: "bits0 ctx = of_nat (8 * length m)" "bits1 ctx = of_nat (8 * length m div 2 ^ 32)" "length (ctx_in ctx) = 64"
    "take ?k (ctx_in ctx) = tail_of m" using assms by (simp_all add: md5_state_def)
  have upd: "MD5Update ctx data =
     (if ?k \<noteq> 0 then
        (if ?n < 64 - ?k then c\<lparr>ctx_in := put_at ?k data (ctx_in c)\<rparr>
         else md5_chunks (transform_in (c\<lparr>ctx_in := put_at ?k (take (64 - ?k) data) (ctx_in c)\<rparr>)) (drop (64 - ?k) data))
      else md5_chunks c data)"
    unfolding MD5Update_def c_def by (simp only: Let_def st(1,2) bit_count byte_count)
  have inv: "length (ctx_in c) = 64" "take ?k (ctx_in c) = tail_of m" using st by (simp_all add: c_def)
  have goal: "md5_state (m @ data) c'"
    if "ctx_buf c' = foldl MD5Transform (ctx_buf ctx) (blocks (tail_of m @ data))" "bits0 c' = bits0 c" "bits1 c' = bits1 c"
      "length (ctx_in c') = 64" "take (length (tail_of m @ data) mod 64) (ctx_in c') = tail_of (tail_of m @ data)" for c'
  proof -
    have "length (tail_of m @ data) mod 64 = length (m @ data) mod 64" by (simp add: tail_of_length mod_add_left_eq)
    moreover have "tail_of (m @ data) = tail_of (tail_of m @ data)" by (rule tail_of_append)
    moreover have "ctx_buf c' = foldl MD5Transform (0x67452301, 0xefcdab89, 0x98badcfe, 0x10325476) (blocks (m @ data))"
      using that(1) assms by (simp only: blocks_append [of m data] foldl_append md5_state_def)
    moreover have "bits0 c' = of_nat (8 * length (m @ data))" "bits1 c' = of_nat (8 * length (m @ data) div 2 ^ 32)"
      unfolding that(2,3) c_def by simp_all
    ultimately show ?thesis using that(4,5) unfolding md5_state_def by metis
  qed
  have k: "?k < 64" "length (tail_of m) = ?k" by (simp_all add: tail_of_length)
  show ?thesis
  proof (cases "?k = 0")
    case True
    then have "tail_of m = []" using k by simp
    then show ?thesis unfolding upd using True md5_chunks_ok [OF inv(1), of data]
      by (intro goal) (simp_all add: c_def)
  next
    case k0: False
    show ?thesis
    proof (cases "?n < 64 - ?k")
      case True
      then have "length (tail_of m @ data) < 64" using k by simp
      then have "blocks (tail_of m @ data) = []" "tail_of (tail_of m @ data) = tail_of m @ data"
        "length (tail_of m @ data) mod 64 = ?k + ?n"
        using k by (simp_all add: blocks.simps [of "tail_of m @ data"] tail_of.simps [of "tail_of m @ data"])
      then show ?thesis unfolding upd using True k0 inv
        by (intro goal) (simp_all add: put_at_def c_def tail_of_length)
    next
      case False
      let ?b = "tail_of m @ take (64 - ?k) data"
      have b: "length ?b = 64" "tail_of m @ data = ?b @ drop (64 - ?k) data" using False k by simp_all
      define d where "d = drop (64 - ?k) data"
      define c1 where "c1 = transform_in (c\<lparr>ctx_in := ?b\<rparr>)"
      have "put_at ?k (take (64 - ?k) data) (ctx_in c) = ?b" using inv False k by (simp add: put_at_def)
      then have u: "MD5Update ctx data = md5_chunks c1 d" unfolding upd c1_def d_def using False k0 by simp
      have c1: "length (ctx_in c1) = 64" "ctx_buf c1 = MD5Transform (ctx_buf ctx) ?b" "bits0 c1 = bits0 c" "bits1 c1 = bits1 c"
        using b(1) by (simp_all add: c1_def transform_in_def c_def)
      have e: "tail_of m @ data = ?b @ d" using b(2) by (simp add: d_def)
      have "length (tail_of m @ data) mod 64 = length d mod 64"
        unfolding e by (simp only: length_append [of ?b d] b(1) mod_add_self1)
      moreover have "blocks (tail_of m @ data) = ?b # blocks d" unfolding e using b(1) by (rule blocks_full)
      moreover have "tail_of (tail_of m @ data) = tail_of d" unfolding e using b(1) by (rule tail_of_full)
      ultimately show ?thesis unfolding u using md5_chunks_ok [OF c1(1), of d] c1(2-4) by (intro goal) simp_all
    qed
  qed
qed

text \<open>C36: \<open>MD5Update\<close> may be called on a message in pieces of any sizes: after \<open>MD5Init\<close> and any sequence of
  updates the context holds the compression of exactly the full blocks of the concatenated
  pieces, its length in bits as a 64-bit count with the carry between the two words, and its
  incomplete block, whatever the buffer held before.\<close>

theorem md5_update_refines:
  assumes "length (ctx_in ctx) = 64"
  shows "md5_state (concat pieces) (foldl MD5Update (MD5Init ctx) pieces)"
proof (induction pieces rule: rev_induct)
  case Nil
  show ?case using assms by (simp add: md5_state_def MD5Init_def blocks.simps tail_of.simps)
next
  case (snoc d pieces)
  then show ?case using MD5Update_state by simp
qed

definition demo_ctx :: MD5Context where
  "demo_ctx = \<lparr>ctx_buf = (0, 0, 0, 0), bits0 = 9, bits1 = 9, ctx_in = replicate 64 7\<rparr>"

theorem md5_update_refines_witness:
  "md5_state [1, 2, 3] (foldl MD5Update (MD5Init demo_ctx) [[1], [], [2, 3]])"
  using md5_update_refines [of demo_ctx "[[1], [], [2, 3]]"] by (simp add: demo_ctx_def)

section \<open>The final block\<close>

lemma put_at_nth:
  "k + length d \<le> length B \<Longrightarrow> i < length B \<Longrightarrow>
     put_at k d B ! i = (if i < k then B ! i else if i < k + length d then d ! (i - k) else B ! i)"
  by (auto simp: put_at_def nth_append)

lemma update_short:
  assumes "length m < 64"
  shows "MD5Update (MD5Init ctx) m =
    (MD5Init ctx)\<lparr>bits0 := of_nat (8 * length m), bits1 := of_nat (length m div 2 ^ 29), ctx_in := put_at 0 m (ctx_in ctx)\<rparr>"
proof -
  have "(0 :: u32) + push_bit 3 (of_nat (length m)) = of_nat (8 * length m)" by (simp add: push_bit_eq_mult)
  then show ?thesis
    using assms by (simp add: MD5Update_def MD5Init_def Let_def md5_chunks.simps)
qed

text \<open>With 19 to 55 bytes in the buffer, the length overwrites bytes 14 to 18 of the message.\<close>

lemma final_block_short:
  assumes "bits0 ctx = of_nat (8 * n)" and "n \<le> 55" and "length (ctx_in ctx) = 64"
  shows "final_block ctx = ctx\<lparr>ctx_in := put_at 15 (le32_bytes (bits1 ctx)) (put_at 14 (le32_bytes (bits0 ctx))
    (put_at (n + 1) (replicate (55 - n) 0) (put_at n [0x80] (ctx_in ctx))))\<rparr>"
proof -
  have "unat ((drop_bit 3 (bits0 ctx)) AND 0x3F) = n" using assms(1,2) by (simp only: byte_count) simp
  then show ?thesis using assms(2) by (simp only: final_block_def Let_def) simp
qed

lemma short_blocks_equal:
  assumes "length B = 64" and "length B' = 64" and "19 \<le> n" and "n \<le> 55"
    and "\<And>i. i < 64 \<Longrightarrow> i < 14 \<or> 18 < i \<Longrightarrow> i \<noteq> n \<Longrightarrow> B ! i = B' ! i" and "length p = 4" and "length q = 4"
  shows "put_at 15 q (put_at 14 p (put_at (n + 1) (replicate (55 - n) 0) (put_at n [0x80] B))) =
    put_at 15 q (put_at 14 p (put_at (n + 1) (replicate (55 - n) 0) (put_at n [0x80] B')))"
  using assms by (intro nth_equalityI) (auto simp: put_at_nth)

text \<open>The digest does not depend on bytes 14 to 18 of a message of 19 to 55 bytes: \<open>MD5Final\<close> stores the
  length over them, at byte offsets 14 and 15 instead of the last eight bytes of the block, so any
  two such messages that differ only there have the same digest.\<close>

lemma md5_collision:
  assumes "length (ctx_in ctx) = 64" and "19 \<le> length m" and "length m \<le> 55" and "length m' = length m"
    and "\<forall>i. i < length m \<and> (i < 14 \<or> 18 < i) \<longrightarrow> m ! i = m' ! i"
  shows "fst (MD5Final (MD5Update (MD5Init ctx) m)) = fst (MD5Final (MD5Update (MD5Init ctx) m'))"
proof -
  let ?n = "length m"
  have B: "length (put_at 0 m (ctx_in ctx)) = 64" "length (put_at 0 m' (ctx_in ctx)) = 64" using assms by simp_all
  have "put_at 0 m (ctx_in ctx) ! i = put_at 0 m' (ctx_in ctx) ! i" if "i < 64" "i < 14 \<or> 18 < i" for i
    using assms that by (auto simp: put_at_nth)
  then have eq: "put_at 15 q (put_at 14 p (put_at (?n + 1) (replicate (55 - ?n) 0) (put_at ?n [0x80] (put_at 0 m (ctx_in ctx))))) =
      put_at 15 q (put_at 14 p (put_at (?n + 1) (replicate (55 - ?n) 0) (put_at ?n [0x80] (put_at 0 m' (ctx_in ctx)))))"
    if "length p = 4" "length q = 4" for p q
    using B assms(2,3) that by (intro short_blocks_equal) auto
  have "final_block (MD5Update (MD5Init ctx) m) = final_block (MD5Update (MD5Init ctx) m')"
    using assms B eq by (simp add: update_short final_block_short [of _ ?n] le32_bytes_def)
  then show ?thesis by (simp add: MD5Final_def)
qed

theorem md5_collision_witness:
  "fst (MD5Final (MD5Update (MD5Init demo_ctx) (replicate 19 0))) =
   fst (MD5Final (MD5Update (MD5Init demo_ctx) (replicate 14 0 @ [1, 2, 3, 4, 5])))"
  by (rule md5_collision) (auto simp: demo_ctx_def nth_append)

text \<open>The last eight bytes of the block are whatever the buffer held before: after \<open>MD5Init\<close> and a short
  message, indeterminate memory.\<close>

lemma final_block_indeterminate:
  assumes "length (ctx_in ctx) = 64" and "length m \<le> 55" and "56 \<le> i" and "i < 64"
  shows "ctx_in (final_block (MD5Update (MD5Init ctx) m)) ! i = ctx_in ctx ! i"
  using assms by (simp add: update_short final_block_short [of _ "length m"] put_at_nth le32_bytes_def)

end
