(* ===== verification/Page_Allocator.thy ===== *)
theory Page_Allocator
  imports Prelude
begin

text \<open>
  \<open>PageAllocator\<close> of \<open>breakpad/src/common/memory_allocator.h\<close>: the allocator the crash handler uses in
  place of the heap. It maps sets of pages, chains them through a header at their start and hands out
  consecutive pieces of the last page. Sizes and addresses have 32 bits; sums are reduced explicitly.
  The answer of \<open>mmap\<close> is an argument of the operations.
\<close>

section \<open>State and operations\<close>

definition sz32 :: "nat \<Rightarrow> nat" where
  "sz32 n = n mod 4294967296"

definition sz32_sub :: "nat \<Rightarrow> nat \<Rightarrow> nat" where
  "sz32_sub a b = (a + 4294967296 - b) mod 4294967296"

lemma sz32_small [simp]: "n < 4294967296 \<Longrightarrow> sz32 n = n"
  by (simp add: sz32_def)

lemma sz32_sub_small [simp]: "b \<le> a \<Longrightarrow> a < 4294967296 \<Longrightarrow> sz32_sub a b = a - b"
  by (simp add: sz32_sub_def mod_if)

record PageHeader =
  next_pages :: ptr
  num_pages :: nat

record PageAllocator =
  page_size_f :: nat
  last_f :: ptr
  current_page_f :: ptr
  page_offset_f :: nat
  pages_allocated_f :: nat
  headers :: "ptr \<rightharpoonup> PageHeader"

abbreviation (input) MAP_FAILED :: ptr where "MAP_FAILED \<equiv> 4294967295"
abbreviation (input) header_size :: nat where "header_size \<equiv> 8"

definition PageAllocator_ctor :: "nat \<Rightarrow> PageAllocator" where
  "PageAllocator_ctor page_size = \<lparr>page_size_f = page_size, last_f = null, current_page_f = null,
     page_offset_f = 0, pages_allocated_f = 0, headers = Map.empty\<rparr>"

definition GetNPages :: "ptr \<Rightarrow> nat \<Rightarrow> PageAllocator \<Rightarrow> ptr \<times> PageAllocator" where
  "GetNPages a n s =
     (if a = MAP_FAILED then (null, s)
      else (a, s\<lparr>headers := (headers s)(a \<mapsto> \<lparr>next_pages = last_f s, num_pages = n\<rparr>), last_f := a,
                 pages_allocated_f := sz32 (pages_allocated_f s + n)\<rparr>))"

text \<open>The number of pages \<open>Alloc\<close> asks for.\<close>

definition pages_for :: "nat \<Rightarrow> nat \<Rightarrow> nat" where
  "pages_for ps bytes = sz32 (bytes + header_size + ps - 1) div ps"

definition Alloc :: "nat \<Rightarrow> ptr \<Rightarrow> PageAllocator \<Rightarrow> ptr \<times> PageAllocator" where
  "Alloc bytes a s =
     (let ps = page_size_f s in
      if bytes = 0 then (null, s)
      else if current_page_f s \<noteq> null \<and> sz32_sub ps (page_offset_f s) \<ge> bytes then
        (let ret = sz32 (current_page_f s + page_offset_f s); off = sz32 (page_offset_f s + bytes) in
         (ret, if off = ps then s\<lparr>page_offset_f := 0, current_page_f := null\<rparr> else s\<lparr>page_offset_f := off\<rparr>))
      else
        (let pages = pages_for ps bytes; (ret, s1) = GetNPages a pages s in
         if ret = null then (null, s1)
         else
           (let off = sz32_sub ps (sz32_sub (sz32 (ps * pages)) (sz32 (bytes + header_size))) mod ps;
                cur = (if off \<noteq> 0 then sz32 (ret + ps * sz32_sub pages 1) else null) in
            (sz32 (ret + header_size), s1\<lparr>page_offset_f := off, current_page_f := cur\<rparr>))))"

text \<open>The walks over the chain of headers; \<open>None\<close>: an unmapped header is read, or no return.\<close>

partial_function (option) owns_from :: "(ptr \<rightharpoonup> PageHeader) \<Rightarrow> nat \<Rightarrow> ptr \<Rightarrow> ptr \<Rightarrow> bool option" where
  "owns_from H ps p hdr =
     (if hdr = null then Some False
      else case H hdr of
          None \<Rightarrow> None
        | Some k \<Rightarrow> (if hdr \<le> p \<and> p < hdr + sz32 (num_pages k * ps) then Some True else owns_from H ps p (next_pages k)))"

definition OwnsPointer :: "ptr \<Rightarrow> PageAllocator \<Rightarrow> bool option" where
  "OwnsPointer p s = owns_from (headers s) (page_size_f s) p (last_f s)"

partial_function (option) free_from ::
    "(ptr \<rightharpoonup> PageHeader) \<Rightarrow> nat \<Rightarrow> ptr \<Rightarrow> (ptr \<times> nat) list \<Rightarrow> (ptr \<times> nat) list option" where
  "free_from H ps cur unmapped =
     (if cur = null then Some unmapped
      else case H cur of
          None \<Rightarrow> None
        | Some k \<Rightarrow> free_from (H(cur := None)) ps (next_pages k) (unmapped @ [(cur, sz32 (num_pages k * ps))]))"

definition FreeAll :: "PageAllocator \<Rightarrow> (ptr \<times> nat) list option" where
  "FreeAll s = free_from (headers s) (page_size_f s) (last_f s) []"

text \<open>\<open>PageStdAllocator\<close>: small requests are served from \<open>stackdata_\<close>, others by the page allocator.\<close>

definition std_allocate :: "nat \<Rightarrow> ptr \<Rightarrow> nat \<Rightarrow> nat \<Rightarrow> ptr \<Rightarrow> PageAllocator \<Rightarrow> ptr \<times> PageAllocator" where
  "std_allocate sizeofT stackdata stackdata_size n a s =
     (let sz = sz32 (sizeofT * n) in if sz \<le> stackdata_size then (stackdata, s) else Alloc sz a s)"

section \<open>Reachable states\<close>

text \<open>
  A run records the regions handed out and the ranges mapped. The kernel maps page sets that are not
  null, end inside the address space and do not overlap the ones mapped before; it fails for size 0.
\<close>

abbreviation span :: "nat \<Rightarrow> nat \<Rightarrow> nat set" where
  "span a n \<equiv> {a..<a + n}"

definition disjoint_from :: "(ptr \<times> nat) list \<Rightarrow> ptr \<times> nat \<Rightarrow> bool" where
  "disjoint_from rs r \<longleftrightarrow> (\<forall>(p, n) \<in> set rs. span p n \<inter> span (fst r) (snd r) = {})"

definition mmap_ok :: "(ptr \<times> nat) list \<Rightarrow> nat \<Rightarrow> ptr \<Rightarrow> bool" where
  "mmap_ok ms n a \<longleftrightarrow> a = MAP_FAILED \<or> 0 < n \<and> 0 < a \<and> a + n \<le> 4294967295 \<and> disjoint_from ms (a, n)"

type_synonym alloc_run = "PageAllocator \<times> (ptr \<times> nat) list \<times> (ptr \<times> nat) list"

inductive alloc_step :: "alloc_run \<Rightarrow> alloc_run \<Rightarrow> bool" where
  alloc: "\<lbrakk>bytes + page_size_f s + header_size < 4294967296;
      mmap_ok ms (page_size_f s * pages_for (page_size_f s) bytes) a; Alloc bytes a s = (p, t)\<rbrakk>
    \<Longrightarrow> alloc_step (s, rs, ms)
      (t, if p = null then rs else (p, bytes) # rs,
       if last_f t = last_f s then ms else (a, page_size_f s * pages_for (page_size_f s) bytes) # ms)"

section \<open>The invariant\<close>

text \<open>The chain from \<open>last_\<close> is the list of mapped sets, latest first.\<close>

fun is_chain :: "(ptr \<rightharpoonup> PageHeader) \<Rightarrow> nat \<Rightarrow> ptr \<Rightarrow> (ptr \<times> nat) list \<Rightarrow> bool" where
  "is_chain H ps p [] \<longleftrightarrow> p = null"
| "is_chain H ps p ((a, n) # ms) \<longleftrightarrow> p = a \<and> a \<noteq> null \<and>
     (case H a of None \<Rightarrow> False | Some k \<Rightarrow> num_pages k * ps = n \<and> is_chain H ps (next_pages k) ms)"

lemma is_chain_Cons_iff:
  "is_chain H ps p ((a, n) # ms) \<longleftrightarrow> p = a \<and> a \<noteq> null \<and>
     (\<exists>k. H a = Some k \<and> num_pages k * ps = n \<and> is_chain H ps (next_pages k) ms)"
  by (auto split: option.splits)

declare is_chain.simps(2) [simp del] and is_chain_Cons_iff [simp]

lemma is_chain_upd [simp]: "a \<notin> fst ` set ms \<Longrightarrow> is_chain (H(a := x)) ps p ms = is_chain H ps p ms"
proof (induction ms arbitrary: p)
  case (Cons m ms)
  then show ?case by (cases m) auto
qed simp

text \<open>The unused rest of the current page, empty without one.\<close>

definition free_span :: "PageAllocator \<Rightarrow> nat set" where
  "free_span s = (if current_page_f s = null then {}
     else {current_page_f s + page_offset_f s ..< current_page_f s + page_size_f s})"

definition separate :: "(ptr \<times> nat) list \<Rightarrow> bool" where
  "separate rs \<longleftrightarrow> sorted_wrt (\<lambda>r r'. span (fst r) (snd r) \<inter> span (fst r') (snd r') = {}) rs"

definition inside :: "(ptr \<times> nat) list \<Rightarrow> nat set \<Rightarrow> bool" where
  "inside ms X \<longleftrightarrow> (\<exists>(a, n) \<in> set ms. X \<subseteq> span (a + header_size) (n - header_size))"

definition maps_ok :: "nat \<Rightarrow> (ptr \<times> nat) list \<Rightarrow> bool" where
  "maps_ok ps ms \<longleftrightarrow> separate ms \<and> (\<forall>(a, n) \<in> set ms. 0 < a \<and> ps \<le> n \<and> a + n \<le> 4294967295)"

definition regions_ok :: "(ptr \<times> nat) list \<Rightarrow> (ptr \<times> nat) list \<Rightarrow> nat set \<Rightarrow> bool" where
  "regions_ok rs ms F \<longleftrightarrow> separate rs \<and>
     (\<forall>(p, b) \<in> set rs. 0 < b \<and> inside ms (span p b) \<and> span p b \<inter> F = {})"

definition alloc_inv :: "alloc_run \<Rightarrow> bool" where
  "alloc_inv = (\<lambda>(s, rs, ms).
     header_size < page_size_f s \<and> page_size_f s < 4294967296 \<and>
     is_chain (headers s) (page_size_f s) (last_f s) ms \<and> maps_ok (page_size_f s) ms \<and>
     regions_ok rs ms (free_span s) \<and>
     (current_page_f s \<noteq> null \<longrightarrow> page_offset_f s < page_size_f s \<and> inside ms (free_span s)))"

lemmas region_defs = separate_def inside_def maps_ok_def regions_ok_def

text \<open>A region cut from the free space, and a region in a fresh set of pages.\<close>

lemma inside_mono: "inside ms X \<Longrightarrow> Y \<subseteq> X \<Longrightarrow> inside (m # ms) Y" "inside ms X \<Longrightarrow> Y \<subseteq> X \<Longrightarrow> inside ms Y"
  unfolding inside_def by (auto, blast+)

lemma regions_cut:
  assumes "regions_ok rs ms F" "span p b \<subseteq> F" "F' \<subseteq> F" "span p b \<inter> F' = {}" "inside ms F" "0 < b"
  shows "regions_ok ((p, b) # rs) ms F'"
proof -
  have "inside ms (span p b)" using inside_mono(2) [OF assms(5,2)] .
  moreover have "span p b \<inter> span q c = {} \<and> span q c \<inter> F' = {}" if "(q, c) \<in> set rs" for q c
  proof -
    have "span q c \<inter> F = {}" using assms(1) that by (auto simp: regions_ok_def)
    then show ?thesis using assms(2,3) by blast
  qed
  ultimately show ?thesis using assms(1,4,6) by (fastforce simp: regions_ok_def separate_def)
qed

lemma inside_disjoint:
  assumes "inside ms X" "disjoint_from ms (a, n)"
  shows "X \<inter> span a n = {}"
proof -
  from assms(1) obtain a' n' where m: "(a', n') \<in> set ms" "X \<subseteq> span (a' + 8) (n' - 8)" by (auto simp: inside_def)
  then have "X \<subseteq> span a' n'" by fastforce
  moreover have "span a' n' \<inter> span a n = {}" using assms(2) m(1) by (auto simp: disjoint_from_def)
  ultimately show ?thesis by blast
qed

lemma regions_fresh:
  assumes "regions_ok rs ms F" "disjoint_from ms (a, n)" "0 < b"
    and new: "span p b \<subseteq> span (a + 8) (n - 8)" "F' \<subseteq> span (a + 8) (n - 8)" "span p b \<inter> F' = {}"
  shows "regions_ok ((p, b) # rs) ((a, n) # ms) F'"
proof -
  have sub: "span (a + 8) (n - 8) \<subseteq> span a n" by fastforce
  have "span p b \<inter> span q c = {} \<and> span q c \<inter> F' = {} \<and> inside ((a, n) # ms) (span q c) \<and> 0 < c" if "(q, c) \<in> set rs" for q c
  proof -
    have i: "inside ms (span q c)" "0 < c" using assms(1) that by (auto simp: regions_ok_def)
    then show ?thesis using inside_disjoint [OF i(1) assms(2)] sub new inside_mono(1) [OF i(1) subset_refl] by fast
  qed
  moreover have "inside ((a, n) # ms) (span p b)" using new(1) by (auto simp: inside_def)
  ultimately show ?thesis using assms(1,3) new(3) by (fastforce simp: regions_ok_def separate_def)
qed

text \<open>The sizes of a fresh set of pages: it holds the header and the request, and less than a page is left.\<close>

lemma pages_for_bounds:
  assumes "bytes + ps + 8 < 4294967296" "8 < ps"
  shows "bytes + 8 \<le> ps * pages_for ps bytes" "ps * pages_for ps bytes < bytes + 8 + ps"
    "0 < pages_for ps bytes"
proof -
  let ?x = "bytes + 8 + ps - 1"
  have n: "pages_for ps bytes = ?x div ps" using assms by (simp add: pages_for_def)
  have "?x = ps * (?x div ps) + ?x mod ps" by simp
  moreover have "?x mod ps < ps" using assms by simp
  ultimately show 1: "bytes + 8 \<le> ps * pages_for ps bytes" "ps * pages_for ps bytes < bytes + 8 + ps"
    using assms unfolding n by linarith+
  show "0 < pages_for ps bytes" using 1(1) by (cases "pages_for ps bytes") auto
qed

lemma alloc_inv_init: "8 < ps \<Longrightarrow> ps < 4294967296 \<Longrightarrow> alloc_inv (PageAllocator_ctor ps, [], [])"
  by (simp add: alloc_inv_def PageAllocator_ctor_def region_defs)

lemma alloc_inv_parts:
  assumes "alloc_inv (s, rs, ms)"
  shows "8 < page_size_f s" "page_size_f s < 4294967296" "is_chain (headers s) (page_size_f s) (last_f s) ms"
    "maps_ok (page_size_f s) ms" "regions_ok rs ms (free_span s)"
    "\<And>a n. (a, n) \<in> set ms \<Longrightarrow> 0 < a \<and> page_size_f s \<le> n \<and> a + n \<le> 4294967295"
  using assms by (auto simp: alloc_inv_def maps_ok_def)

text \<open>A request served from the current page.\<close>

lemma alloc_from_page:
  assumes inv: "alloc_inv (s, rs, ms)" and b: "0 < bytes" "bytes < 4294967296"
    and cur: "current_page_f s \<noteq> 0" "sz32_sub (page_size_f s) (page_offset_f s) \<ge> bytes"
  shows "\<exists>p t. Alloc bytes a s = (p, t) \<and> p \<noteq> 0 \<and> last_f t = last_f s \<and> alloc_inv (t, (p, bytes) # rs, ms)"
proof -
  let ?c = "current_page_f s" and ?o = "page_offset_f s" and ?ps = "page_size_f s"
  note P = alloc_inv_parts [OF inv]
  from inv cur have off: "?o < ?ps" and ex: "inside ms (free_span s)" by (auto simp: alloc_inv_def)
  from ex obtain a0 n0 where a0: "(a0, n0) \<in> set ms" "free_span s \<subseteq> span (a0 + 8) (n0 - 8)" by (auto simp: inside_def)
  have fs: "free_span s = {?c + ?o ..< ?c + ?ps}" using cur by (simp add: free_span_def)
  have fit: "?o + bytes \<le> ?ps" using cur(2) off P(2) by simp
  have "?c + ?ps - 1 \<in> free_span s" using off fs by auto
  then have top: "?c + ?ps \<le> 4294967295" using a0 P(6) [OF a0(1)] P(1) by (auto simp: subset_iff)
  have ret: "sz32 (?c + ?o) = ?c + ?o" "sz32 (?o + bytes) = ?o + bytes" using top fit off P(2) by simp_all
  define t where "t = (if ?o + bytes = ?ps then s\<lparr>page_offset_f := 0, current_page_f := 0\<rparr> else s\<lparr>page_offset_f := ?o + bytes\<rparr>)"
  have run: "Alloc bytes a s = (?c + ?o, t)" using b cur ret by (simp add: Alloc_def Let_def t_def)
  have fields: "headers t = headers s" "last_f t = last_f s" "page_size_f t = ?ps" by (simp_all add: t_def)
  have new: "span (?c + ?o) bytes \<subseteq> free_span s" "free_span t \<subseteq> free_span s" "span (?c + ?o) bytes \<inter> free_span t = {}"
    using fit cur(1) by (auto simp: fs t_def free_span_def)
  from regions_cut [OF P(5) new(1,2,3) ex b(1)] have "regions_ok ((?c + ?o, bytes) # rs) ms (free_span t)" .
  moreover have "current_page_f t \<noteq> 0 \<Longrightarrow> page_offset_f t < ?ps" using fit by (simp add: t_def split: if_splits)
  moreover have "inside ms (free_span t)" using ex new(2) by (rule inside_mono)
  ultimately have "alloc_inv (t, (?c + ?o, bytes) # rs, ms)" using P by (simp add: alloc_inv_def fields)
  with run cur(1) fields(2) show ?thesis by auto
qed

text \<open>A request that maps a fresh set of pages.\<close>

lemma alloc_fresh_pages:
  assumes inv: "alloc_inv (s, rs, ms)" and b: "0 < bytes" "bytes + page_size_f s + 8 < 4294967296"
    and cur: "\<not> (current_page_f s \<noteq> 0 \<and> sz32_sub (page_size_f s) (page_offset_f s) \<ge> bytes)"
    and n: "n = page_size_f s * pages_for (page_size_f s) bytes"
    and a: "0 < a" "a + n \<le> 4294967295" "disjoint_from ms (a, n)"
  shows "\<exists>t. Alloc bytes a s = (a + 8, t) \<and> last_f t = a \<and> a \<noteq> last_f s \<and> alloc_inv (t, (a + 8, bytes) # rs, (a, n) # ms)"
proof -
  let ?ps = "page_size_f s" and ?k = "pages_for (page_size_f s) bytes"
  note P = alloc_inv_parts [OF inv]
  note k = pages_for_bounds [OF b(2) P(1)]
  have nb: "bytes + 8 \<le> n" "n < bytes + 8 + ?ps" "?ps \<le> n" using k(1,2,3) n by auto
  define r where "r = n - (bytes + 8)"
  have r: "r < ?ps" "n = bytes + 8 + r" using nb by (auto simp: r_def)
  have off: "sz32_sub ?ps (sz32_sub (sz32 n) (sz32 (bytes + 8))) mod ?ps = (if r = 0 then 0 else ?ps - r)"
    using r b P(1,2) a(2) by (simp add: r_def [symmetric])
  have last: "?ps * sz32_sub ?k 1 = n - ?ps"
  proof -
    have "?k \<le> n" using n P(1) by (cases ?ps) auto
    then have "sz32_sub ?k 1 = ?k - 1" using k(3) a(2) by simp
    then show ?thesis by (simp add: n diff_mult_distrib2)
  qed
  define t where "t = s\<lparr>headers := (headers s)(a \<mapsto> \<lparr>next_pages = last_f s, num_pages = ?k\<rparr>), last_f := a,
    pages_allocated_f := sz32 (pages_allocated_f s + ?k), page_offset_f := if r = 0 then 0 else ?ps - r,
    current_page_f := if r = 0 then 0 else a + (n - ?ps)\<rparr>"
  have run: "Alloc bytes a s = (a + 8, t)"
    using a cur b off last r P(1) by (simp add: Alloc_def Let_def GetNPages_def t_def n [symmetric] del: de_Morgan_conj)
  have fields: "headers t = (headers s)(a \<mapsto> \<lparr>next_pages = last_f s, num_pages = ?k\<rparr>)" "last_f t = a" "page_size_f t = ?ps"
    by (simp_all add: t_def)
  have notin: "a \<notin> fst ` set ms"
  proof
    assume "a \<in> fst ` set ms"
    then obtain n' where m: "(a, n') \<in> set ms" by auto
    then have "a \<in> span a n'" "a \<in> span a n" using P(1) P(6) [of a n'] nb(1) by auto
    with m a(3) show False by (auto simp: disjoint_from_def)
  qed
  have fs: "free_span t = {a + 8 + bytes ..< a + n}" if "r \<noteq> 0"
    using that r nb a(1) by (simp add: free_span_def t_def ac_simps)
  have fs0: "free_span t = {}" if "r = 0" using that by (simp add: free_span_def t_def)
  have new: "span (a + 8) bytes \<subseteq> span (a + 8) (n - 8)" "free_span t \<subseteq> span (a + 8) (n - 8)" "span (a + 8) bytes \<inter> free_span t = {}"
    using r(2) fs fs0 by (cases "r = 0"; auto)+
  from regions_fresh [OF P(5) a(3) b(1) new] have regs: "regions_ok ((a + 8, bytes) # rs) ((a, n) # ms) (free_span t)" .
  have chain: "is_chain (headers t) ?ps a ((a, n) # ms)" using P(3) notin a(1) n by (simp add: fields mult.commute)
  have maps: "maps_ok ?ps ((a, n) # ms)"
    using P(4) a nb(3) by (fastforce simp: maps_ok_def separate_def disjoint_from_def)
  have "inside ((a, n) # ms) (free_span t)" using new(2) by (auto simp: inside_def)
  moreover have "current_page_f t \<noteq> 0 \<Longrightarrow> page_offset_f t < ?ps" using r(1) P(1) by (simp add: t_def split: if_splits)
  ultimately have "alloc_inv (t, (a + 8, bytes) # rs, (a, n) # ms)"
    using P(1,2) chain maps regs by (simp add: alloc_inv_def fields del: is_chain_Cons_iff)
  moreover have "a \<noteq> last_f s" using P(3) notin a(1) by (cases ms) auto
  ultimately show ?thesis using run fields(2) by blast
qed

text \<open>Every step keeps the invariant.\<close>

lemma alloc_step_inv:
  assumes "alloc_inv x" "alloc_step x y"
  shows "alloc_inv y"
  using assms(2,1)
proof (cases rule: alloc_step.cases)
  case (alloc bytes s ms a p t rs)
  let ?n = "page_size_f s * pages_for (page_size_f s) bytes"
  consider "bytes = 0"
    | "0 < bytes" "current_page_f s \<noteq> 0 \<and> sz32_sub (page_size_f s) (page_offset_f s) \<ge> bytes"
    | "0 < bytes" "\<not> (current_page_f s \<noteq> 0 \<and> sz32_sub (page_size_f s) (page_offset_f s) \<ge> bytes)" by blast
  then show ?thesis
  proof cases
    case 1
    then show ?thesis using alloc assms(1) by (simp add: Alloc_def)
  next
    case 2
    then show ?thesis using alloc_from_page [of s rs ms bytes a] alloc assms(1) by auto
  next
    case 3
    show ?thesis
    proof (cases "a = MAP_FAILED")
      case True
      then have "Alloc bytes a s = (0, s)" using 3 by (auto simp: Alloc_def Let_def GetNPages_def)
      then show ?thesis using alloc assms(1) by simp
    next
      case False
      then have "0 < a" "a + ?n \<le> 4294967295" "disjoint_from ms (a, ?n)" using alloc(4) by (auto simp: mmap_ok_def)
      from alloc_fresh_pages [OF _ 3(1) alloc(3) 3(2) refl this] show ?thesis using alloc assms(1) by auto
    qed
  qed
qed

interpretation pages: step_invariant
  "\<lambda>x. \<exists>ps. 8 < ps \<and> ps < 4294967296 \<and> x = (PageAllocator_ctor ps, [], [])" alloc_step alloc_inv
  by unfold_locales (auto intro: alloc_inv_init alloc_step_inv)

text \<open>The walks over the chain return.\<close>

lemma free_from_chain:
  assumes "is_chain H ps p ms" "distinct (map fst ms)" "\<forall>(a, n) \<in> set ms. n < 4294967296"
  shows "free_from H ps p done = Some (done @ ms)"
  using assms
proof (induction ms arbitrary: H p "done")
  case Nil
  then show ?case by (simp add: free_from.simps)
next
  case (Cons m ms)
  obtain a n where m: "m = (a, n)" by (cases m)
  from Cons.prems m obtain k where k: "p = a" "a \<noteq> 0" "H a = Some k" "num_pages k * ps = n" "is_chain H ps (next_pages k) ms"
    by auto
  have "free_from (H(a := None)) ps (next_pages k) (done @ [(a, n)]) = Some ((done @ [(a, n)]) @ ms)"
  proof (rule Cons.IH)
    show "is_chain (H(a := None)) ps (next_pages k) ms" using k(5) Cons.prems(2) m by (simp del: fun_upd_apply)
  qed (use Cons.prems m in auto)
  then show ?case using k m Cons.prems by (simp add: free_from.simps [of H])
qed

lemma owns_from_chain:
  assumes "is_chain H ps p ms" "\<forall>(a, n) \<in> set ms. n < 4294967296"
  shows "owns_from H ps q p = Some (\<exists>(a, n) \<in> set ms. q \<in> span a n)"
  using assms
proof (induction ms arbitrary: p)
  case Nil
  then show ?case by (simp add: owns_from.simps)
next
  case (Cons m ms)
  obtain a n where m: "m = (a, n)" by (cases m)
  from Cons.prems m obtain k where k: "p = a" "a \<noteq> 0" "H a = Some k" "num_pages k * ps = n" "is_chain H ps (next_pages k) ms"
    by auto
  then show ?case using Cons.IH [OF k(5)] m Cons.prems(2) by (auto simp: owns_from.simps [of H _ _ a])
qed

lemma separate_distinct: "maps_ok ps ms \<Longrightarrow> 0 < ps \<Longrightarrow> distinct (map fst ms)"
proof (induction ms)
  case (Cons m ms)
  have False if "m' \<in> set ms" "fst m' = fst m" for m'
  proof -
    have "ps \<le> snd m" "ps \<le> snd m'" "span (fst m) (snd m) \<inter> span (fst m') (snd m') = {}"
      using Cons.prems that(1) by (auto simp: maps_ok_def separate_def split: prod.splits)
    moreover have "fst m \<in> span (fst m) (snd m)" "fst m \<in> span (fst m') (snd m')"
      using calculation(1,2) Cons.prems(2) that(2) by simp_all
    ultimately show False by blast
  qed
  moreover have "distinct (map fst ms)" using Cons by (simp add: maps_ok_def separate_def)
  ultimately show ?case by force
qed simp

section \<open>Properties\<close>

text \<open>C38: The crash handler's allocator is sound. In every state reachable by requests that do not overflow
  the address arithmetic, for every behaviour of the kernel that maps fresh pages or fails: the
  regions handed out do not overlap each other, each lies inside one mapped set of pages behind its
  header, \<open>OwnsPointer\<close> returns and says exactly which addresses are mapped, and \<open>FreeAll\<close> returns and
  unmaps every mapped set once, with the size it was mapped with.\<close>

theorem page_allocator_sound:
  assumes "8 < ps" "ps < 4294967296" "alloc_step\<^sup>*\<^sup>* (PageAllocator_ctor ps, [], []) (s, rs, ms)"
  shows "separate rs \<and> (\<forall>(p, b) \<in> set rs. inside ms (span p b)) \<and>
    (\<forall>q. OwnsPointer q s = Some (\<exists>(a, n) \<in> set ms. q \<in> span a n)) \<and>
    FreeAll s = Some ms \<and> separate ms"
proof -
  have inv: "alloc_inv (s, rs, ms)" using assms by (intro pages.reachable_inv) auto
  note P = alloc_inv_parts [OF inv]
  have n: "\<forall>(a, n) \<in> set ms. n < 4294967296" using P(6) by fastforce
  have d: "distinct (map fst ms)" using separate_distinct [OF P(4)] P(1) by simp
  have "separate rs \<and> (\<forall>(p, b) \<in> set rs. inside ms (span p b))" using P(5) by (auto simp: regions_ok_def)
  moreover have "OwnsPointer q s = Some (\<exists>(a, n) \<in> set ms. q \<in> span a n)" for q
    unfolding OwnsPointer_def using owns_from_chain [OF P(3) n] .
  moreover have "FreeAll s = Some ms" using free_from_chain [OF P(3) d n, of "[]"] by (simp add: FreeAll_def)
  ultimately show ?thesis using P(4) by (auto simp: maps_ok_def)
qed

text \<open>Two requests of 100 and 4000 bytes on a machine with pages of 4096 bytes: the second maps a second page.\<close>

lemma demo_alloc_run:
  "\<exists>s. alloc_step\<^sup>*\<^sup>* (PageAllocator_ctor 4096, [], []) (s, [(131080, 4000), (65544, 100)], [(131072, 4096), (65536, 4096)])"
proof -
  let ?s0 = "PageAllocator_ctor 4096"
  define s1 where "s1 = ?s0\<lparr>headers := [65536 \<mapsto> \<lparr>next_pages = 0, num_pages = 1\<rparr>], last_f := 65536,
    pages_allocated_f := 1, page_offset_f := 108, current_page_f := 65536\<rparr>"
  define s2 where "s2 = snd (Alloc 4000 131072 s1)"
  have p: "pages_for 4096 100 = 1" "pages_for 4096 4000 = 1" by (simp_all add: pages_for_def)
  have r1: "Alloc 100 65536 ?s0 = (65544, s1)" "page_size_f s1 = 4096" "last_f s1 = 65536" "last_f ?s0 = 0" "page_size_f ?s0 = 4096"
    by (simp_all add: s1_def PageAllocator_ctor_def Alloc_def GetNPages_def Let_def p)
  have r2: "Alloc 4000 131072 s1 = (131080, s2)" "last_f s2 = 131072"
    by (simp_all add: s2_def s1_def PageAllocator_ctor_def Alloc_def GetNPages_def Let_def p)
  have "alloc_step (?s0, [], []) (s1, [(65544, 100)], [(65536, 4096)])"
    using alloc_step.alloc [of 100 ?s0 "[]" 65536 65544 s1 "[]"] r1 p by (simp add: mmap_ok_def disjoint_from_def)
  moreover have "alloc_step (s1, [(65544, 100)], [(65536, 4096)]) (s2, [(131080, 4000), (65544, 100)], [(131072, 4096), (65536, 4096)])"
    using alloc_step.alloc [of 4000 s1 "[(65536, 4096)]" 131072 131080 s2 "[(65544, 100)]"] r1 r2 p
    by (simp add: mmap_ok_def disjoint_from_def)
  ultimately show ?thesis by (meson rtranclp.rtrancl_into_rtrancl r_into_rtranclp)
qed

theorem page_allocator_sound_witness:
  "\<exists>s. FreeAll s = Some [(131072, 4096), (65536, 4096)] \<and> OwnsPointer 65544 s = Some True \<and> OwnsPointer 7 s = Some False"
proof -
  from demo_alloc_run obtain s where
    "alloc_step\<^sup>*\<^sup>* (PageAllocator_ctor 4096, [], []) (s, [(131080, 4000), (65544, 100)], [(131072, 4096), (65536, 4096)])" ..
  from page_allocator_sound [OF _ _ this] show ?thesis by (intro exI [of _ s]) auto
qed

text \<open>
  Without the bound on the request the size computation wraps: for a request of \<open>2\<^sup>3\<^sup>2 - 1\<close> bytes one
  page is mapped and a pointer into it is returned.
\<close>

lemma huge_request_wraps:
  "pages_for 4096 4294967295 = 1 \<and> fst (Alloc 4294967295 65536 (PageAllocator_ctor 4096)) = 65544"
  by (simp add: pages_for_def sz32_def Alloc_def GetNPages_def PageAllocator_ctor_def Let_def)

text \<open>The allocator of the containers: a request that does not fit on the stack goes to the page allocator.\<close>

lemma std_allocate_pages:
  "sizeofT * n < 4294967296 \<Longrightarrow> stackdata_size < sizeofT * n \<Longrightarrow>
     std_allocate sizeofT stackdata stackdata_size n a s = Alloc (sizeofT * n) a s"
  by (simp add: std_allocate_def)

end
