(* ===== verification/Sys_Calls.thy ===== *)
theory Sys_Calls
  imports Prelude
begin

text \<open>
  Computations of the crash reporter that make system calls and may fail to return, because a call can be
  interrupted by signals for ever (\<open>HANDLE_EINTR\<close> of \<open>breakpad/src/common/linux/eintr_wrapper.h\<close>). The
  kernel is a parameter of type \<open>'c ext\<close>; it answers a failing call with the negated error number, which
  the wrappers of the sources turn into \<open>-1\<close> and \<open>errno\<close>.
\<close>

named_theorems proc_simps \<open>rewrite rules for computations that may not return\<close>

section \<open>Computations\<close>

text \<open>\<open>None\<close>: the computation does not return; \<open>Inl\<close>: it leaves the C++ abstract machine.\<close>

type_synonym ('s, 'c, 'a) proc = "'s \<times> 'c list \<Rightarrow> ('a \<times> 's \<times> 'c list) res option"

definition pret :: "'a \<Rightarrow> ('s, 'c, 'a) proc" where
  "pret a s = Some (Inr (a, s))"

definition pbind :: "('s, 'c, 'a) proc \<Rightarrow> ('a \<Rightarrow> ('s, 'c, 'b) proc) \<Rightarrow> ('s, 'c, 'b) proc" where
  "pbind m f s = (case m s of None \<Rightarrow> None | Some (Inl e) \<Rightarrow> Some (Inl e) | Some (Inr (a, s')) \<Rightarrow> f a s')"

definition pthen :: "('s, 'c, 'a) proc \<Rightarrow> ('s, 'c, 'b) proc \<Rightarrow> ('s, 'c, 'b) proc" where
  "pthen m n = pbind m (\<lambda>_. n)"

definition pfail :: "fault \<Rightarrow> ('s, 'c, 'a) proc" where
  "pfail e s = Some (Inl e)"

definition passert :: "bool \<Rightarrow> ('s, 'c, unit) proc" where
  "passert b s = Some (if b then Inr ((), s) else Inl AssertFail)"

definition pget :: "('s, 'c, 's) proc" where
  "pget s = Some (Inr (fst s, s))"

definition pmod :: "('s \<Rightarrow> 's) \<Rightarrow> ('s, 'c, unit) proc" where
  "pmod f s = Some (Inr ((), (f (fst s), snd s)))"

definition pcall :: "'c ext \<Rightarrow> 'c \<Rightarrow> ('s, 'c, int) proc" where
  "pcall x c s = Some (Inr (x (snd s) c, (fst s, snd s @ [c])))"

definition plift :: "'a res \<Rightarrow> ('s, 'c, 'a) proc" where
  "plift r s = Some (res_bind r (\<lambda>a. Inr (a, s)))"

lemma pr_simps [simp, proc_simps]:
  "pret a s = Some (Inr (a, s))"
  "pfail e s = Some (Inl e)"
  "passert b s = Some (if b then Inr ((), s) else Inl AssertFail)"
  "pget s = Some (Inr (fst s, s))"
  "pmod g s = Some (Inr ((), (g (fst s), snd s)))"
  "pcall x c s = Some (Inr (x (snd s) c, (fst s, snd s @ [c])))"
  "plift r s = Some (res_bind r (\<lambda>a. Inr (a, s)))"
  by (simp_all add: pret_def pfail_def passert_def pget_def pmod_def pcall_def plift_def)

lemma pbind_simps [simp, proc_simps]:
  "m s = None \<Longrightarrow> pbind m f s = None"
  "m s = Some (Inl e) \<Longrightarrow> pbind m f s = Some (Inl e)"
  "m s = Some (Inr (a, s')) \<Longrightarrow> pbind m f s = f a s'"
  by (simp_all add: pbind_def)

lemma pbind_iff:
  "pbind m f s = Some (Inr (b, t)) \<longleftrightarrow> (\<exists>a s'. m s = Some (Inr (a, s')) \<and> f a s' = Some (Inr (b, t)))"
  by (auto simp: pbind_def split: option.splits sum.splits)

lemma pthen_simp [simp, proc_simps]: "pthen m n s = pbind m (\<lambda>_. n) s"
  by (simp add: pthen_def)

lemma p_if [simp, proc_simps]: "(if b then m else n) s = (if b then m s else n s)"
  by simp

section \<open>Interrupted calls\<close>

abbreviation (input) EINTR :: int where "EINTR \<equiv> 4"

text \<open>\<open>HANDLE_EINTR\<close>: repeat the call as long as it is interrupted.\<close>

partial_function (option) eintr :: "'c ext \<Rightarrow> 'c \<Rightarrow> 'c list \<Rightarrow> (int \<times> 'c list) option" where
  "eintr x c h = (if x h c = - EINTR then eintr x c (h @ [c]) else Some (x h c, h @ [c]))"

definition HANDLE_EINTR :: "'c ext \<Rightarrow> 'c \<Rightarrow> ('s, 'c, int) proc" where
  "HANDLE_EINTR x c s = (case eintr x c (snd s) of None \<Rightarrow> None | Some (r, h) \<Rightarrow> Some (Inr (r, (fst s, h))))"

text \<open>\<open>IGNORE_EINTR\<close>: an interrupted call counts as successful.\<close>

definition IGNORE_EINTR :: "'c ext \<Rightarrow> 'c \<Rightarrow> ('s, 'c, int) proc" where
  "IGNORE_EINTR x c = pbind (pcall x c) (\<lambda>r. pret (if r = - EINTR then 0 else r))"

text \<open>The calls that are not interrupted for ever.\<close>

definition settles :: "'c ext \<Rightarrow> 'c \<Rightarrow> bool" where
  "settles x c \<longleftrightarrow> (\<forall>h. \<exists>n. x (h @ replicate n c) c \<noteq> - EINTR)"

lemma eintr_at:
  "x (h @ replicate n c) c \<noteq> - EINTR \<Longrightarrow> \<forall>i < n. x (h @ replicate i c) c = - EINTR \<Longrightarrow>
     eintr x c h = Some (x (h @ replicate n c) c, h @ replicate (Suc n) c)"
proof (induction n arbitrary: h)
  case 0
  then show ?case by (simp add: eintr.simps [of x c h])
next
  case (Suc n)
  have "x h c = - EINTR" using Suc.prems(2) by force
  moreover have "eintr x c (h @ [c]) = Some (x ((h @ [c]) @ replicate n c) c, (h @ [c]) @ replicate (Suc n) c)"
    using Suc.prems by (intro Suc.IH) (simp, force)
  ultimately show ?case by (simp add: eintr.simps [of x c h])
qed

text \<open>The wrapped call returns the first answer that is not an interruption.\<close>

lemma HANDLE_EINTR_settles:
  assumes "settles x c"
  obtains n where "HANDLE_EINTR x c (s, h) = Some (Inr (x (h @ replicate n c) c, (s, h @ replicate (Suc n) c)))"
    "x (h @ replicate n c) c \<noteq> - EINTR" "\<forall>i < n. x (h @ replicate i c) c = - EINTR"
proof -
  let ?P = "\<lambda>n. x (h @ replicate n c) c \<noteq> - EINTR"
  let ?n = "LEAST n. ?P n"
  have "\<exists>n. ?P n" using assms by (simp add: settles_def)
  then have "?P ?n" by (rule LeastI_ex)
  moreover have "\<forall>i < ?n. \<not> ?P i" by (auto dest: not_less_Least)
  ultimately show ?thesis using eintr_at [of x h ?n c] by (intro that [of ?n]) (simp_all add: HANDLE_EINTR_def)
qed

lemma eintr_some:
  assumes "eintr x c h = Some r"
  shows "\<exists>n. x (h @ replicate n c) c \<noteq> - EINTR"
proof (rule eintr.raw_induct [where xa = "((x, c), h)", unfolded case_prod_conv, OF _ assms])
  fix f :: "'a ext \<Rightarrow> 'a \<Rightarrow> 'a list \<Rightarrow> (int \<times> 'a list) option" and x c h r
  assume IH: "\<And>x c h r. f x c h = Some r \<Longrightarrow> \<exists>n. x (h @ replicate n c) c \<noteq> - EINTR"
    and r: "(if x h c = - EINTR then f x c (h @ [c]) else Some (x h c, h @ [c])) = Some r"
  show "\<exists>n. x (h @ replicate n c) c \<noteq> - EINTR"
  proof (cases "x h c = - EINTR")
    case True
    with r obtain n where "x ((h @ [c]) @ replicate n c) c \<noteq> - EINTR" using IH [of x c "h @ [c]" r] by auto
    then have "x (h @ replicate (Suc n) c) c \<noteq> - EINTR" by simp
    then show ?thesis by blast
  next
    case False
    then have "x (h @ replicate 0 c) c \<noteq> - EINTR" by simp
    then show ?thesis by blast
  qed
qed

lemma eintr_stuck: "\<forall>n. x (h @ replicate n c) c = - EINTR \<Longrightarrow> HANDLE_EINTR x c (s, h) = None"
  using eintr_some [of x c h] by (cases "eintr x c h") (auto simp: HANDLE_EINTR_def)

end
