(* ===== verification/Guid_Creator.thy ===== *)
theory Guid_Creator
  imports Sys_Calls
begin

text \<open>
  Random identifiers of minidumps: \<open>breakpad/src/common/linux/guid_creator.cc\<close>. The build defines none of
  the \<open>HAVE_\<close> macros, so the bytes come from \<open>/dev/urandom\<close> and, when that fails, from \<open>rand\<close>. A \<open>GUID\<close>
  is filled through a \<open>char\<close> pointer; its fields are little-endian.
\<close>

unbundle bit_operations_syntax

section \<open>Definitions\<close>

record GUID =
  data1 :: "32 word"
  data2 :: "16 word"
  data3 :: "16 word"
  data4 :: "byte list"

definition BytesToUInt32 :: "byte list \<Rightarrow> 32 word" where
  "BytesToUInt32 bytes = ucast (bytes ! 0) OR push_bit 8 (ucast (bytes ! 1)) OR
     push_bit 16 (ucast (bytes ! 2)) OR push_bit 24 (ucast (bytes ! 3))"

definition UInt32ToBytes :: "32 word \<Rightarrow> byte list" where
  "UInt32ToBytes n = [ucast (n AND 0xff), ucast (drop_bit 8 n AND 0xff),
     ucast (drop_bit 16 n AND 0xff), ucast (drop_bit 24 n AND 0xff)]"

text \<open>The object behind 16 bytes of memory.\<close>

definition guid_of_bytes :: "byte list \<Rightarrow> GUID" where
  "guid_of_bytes m = \<lparr>data1 = BytesToUInt32 m,
     data2 = ucast (m ! 4) OR push_bit 8 (ucast (m ! 5)),
     data3 = ucast (m ! 6) OR push_bit 8 (ucast (m ! 7)),
     data4 = take 8 (drop 8 m)\<rparr>"

datatype guid_call = GOpen string | GRead int | GClose int | GTime | GSrand "32 word" | GRand

text \<open>The 16 bytes of the object and the control of \<open>pthread_once\<close>.\<close>

record guid_state =
  g_mem :: block
  once_done :: bool

type_synonym 'a gproc = "(guid_state, guid_call, 'a) proc"

text \<open>\<open>dat i\<close> is the \<open>i\<close>th byte \<open>read\<close> stores; a kernel that stores more than 16 bytes writes outside the object.\<close>

definition CreateGUIDFromDevUrandom :: "guid_call ext \<Rightarrow> (nat \<Rightarrow> byte) \<Rightarrow> bool gproc" where
  "CreateGUIDFromDevUrandom x dat =
     pbind (pcall x (GOpen ''/dev/urandom'')) (\<lambda>fd.
     if fd < 0 then pret False
     else pbind (HANDLE_EINTR x (GRead fd)) (\<lambda>read_bytes.
       pthen (if 16 < read_bytes then pfail OutOfBounds
              else pmod (\<lambda>s. s\<lparr>g_mem := map dat [0..<nat read_bytes] @ drop (nat read_bytes) (g_mem s)\<rparr>))
       (pthen (pcall x (GClose fd)) (pret (read_bytes = 16)))))"

text \<open>\<open>addr\<close> is the address of \<open>once_control\<close>.\<close>

definition InitOnceImpl :: "guid_call ext \<Rightarrow> 32 word \<Rightarrow> unit gproc" where
  "InitOnceImpl x addr = pbind (pcall x GTime) (\<lambda>t.
     pbind (pcall x (GSrand (of_int t OR drop_bit 4 addr))) (\<lambda>_. pret ()))"

definition InitOnce :: "guid_call ext \<Rightarrow> 32 word \<Rightarrow> unit gproc" where
  "InitOnce x addr = pbind pget (\<lambda>s.
     if once_done s then pret ()
     else pthen (InitOnceImpl x addr) (pmod (\<lambda>s. s\<lparr>once_done := True\<rparr>)))"

fun rand_bytes :: "guid_call ext \<Rightarrow> nat \<Rightarrow> nat \<Rightarrow> unit gproc" where
  "rand_bytes x i 0 = pret ()"
| "rand_bytes x i (Suc n) =
     pbind (pcall x GRand) (\<lambda>r. pthen (pmod (\<lambda>s. s\<lparr>g_mem := (g_mem s)[i := of_int r]\<rparr>)) (rand_bytes x (i + 1) n))"

definition CreateGUIDFromRand :: "guid_call ext \<Rightarrow> 32 word \<Rightarrow> unit gproc" where
  "CreateGUIDFromRand x addr = pthen (InitOnce x addr) (rand_bytes x 0 16)"

definition CreateGUID :: "guid_call ext \<Rightarrow> (nat \<Rightarrow> byte) \<Rightarrow> 32 word \<Rightarrow> (bool \<times> GUID) gproc" where
  "CreateGUID x dat addr =
     pbind (CreateGUIDFromDevUrandom x dat) (\<lambda>success.
     pthen (if success then pret () else CreateGUIDFromRand x addr)
     (pbind pget (\<lambda>s.
        let g = guid_of_bytes (g_mem s) in
        pret (True, g\<lparr>data3 := (data3 g AND 0x0fff) OR 0x4000,
                      data4 := (data4 g)[0 := (data4 g ! 0 AND 0x3f) OR 0x80]\<rparr>))))"

text \<open>\<open>%08x-%04x-%04x-%08x-%08x\<close>.\<close>

definition hex_pad :: "nat \<Rightarrow> nat \<Rightarrow> string" where
  "hex_pad k n = replicate (k - length (hex_nat n)) CHR ''0'' @ hex_nat n"

definition guid_text :: "GUID \<Rightarrow> string" where
  "guid_text g = hex_pad 8 (unat (data1 g)) @ ''-'' @ hex_pad 4 (unat (data2 g)) @ ''-'' @
     hex_pad 4 (unat (data3 g)) @ ''-'' @ hex_pad 8 (unat (BytesToUInt32 (data4 g))) @ ''-'' @
     hex_pad 8 (unat (BytesToUInt32 (drop 4 (data4 g))))"

abbreviation (input) kGUIDStringLength :: nat where "kGUIDStringLength \<equiv> 36"

definition GUIDToString :: "GUID \<Rightarrow> block \<Rightarrow> nat \<Rightarrow> (bool \<times> block) res" where
  "GUIDToString g buf buf_len =
     (if \<not> kGUIDStringLength < buf_len then Inl AssertFail
      else
        (let num = length (guid_text g);
             w = take (buf_len - 1) (map of_char (guid_text g)) @ [0] in
         if length buf < length w then Inl OutOfBounds
         else (let b = w @ drop (length w) buf in
           if num \<noteq> kGUIDStringLength then Inr (False, b)
           else if num < length b then Inr (True, b[num := 0]) else Inl OutOfBounds)))"

section \<open>Reading the text back\<close>

definition hex_val :: "byte \<Rightarrow> nat" where
  "hex_val b = (if unat b < 58 then unat b - 48 else unat b - 87)"

definition hex_number :: "byte list \<Rightarrow> nat" where
  "hex_number bs = foldl (\<lambda>a b. a * 16 + hex_val b) 0 bs"

definition read_guid :: "byte list \<Rightarrow> GUID" where
  "read_guid b = \<lparr>data1 = of_nat (hex_number (take 8 b)), data2 = of_nat (hex_number (take 4 (drop 9 b))),
     data3 = of_nat (hex_number (take 4 (drop 14 b))),
     data4 = UInt32ToBytes (of_nat (hex_number (take 8 (drop 19 b)))) @ UInt32ToBytes (of_nat (hex_number (take 8 (drop 28 b))))\<rparr>"

text \<open>A \<open>GUID\<close> object has eight bytes in its last field; the version and variant of RFC 4122.\<close>

definition guid_ok :: "GUID \<Rightarrow> bool" where
  "guid_ok g \<longleftrightarrow> length (data4 g) = 8"

definition rfc4122_v4 :: "GUID \<Rightarrow> bool" where
  "rfc4122_v4 g \<longleftrightarrow> drop_bit 12 (data3 g) = 4 \<and> drop_bit 6 (data4 g ! 0) = 2"

lemma UInt32ToBytes_4 [simp]: "UInt32ToBytes (BytesToUInt32 (a # b # c # d # xs)) = [a, b, c, d]"
proof -
  have m: "(0xff :: 32 word) = mask 8" by (simp add: mask_eq_exp_minus_1)
  note sim = BytesToUInt32_def m bit_simps
  let ?n = "BytesToUInt32 (a # b # c # d # xs)"
  have "ucast (?n AND 0xff) = a" "ucast (drop_bit 8 ?n AND 0xff) = b"
    "ucast (drop_bit 16 ?n AND 0xff) = c" "ucast (drop_bit 24 ?n AND 0xff) = d"
    by (rule bit_word_eqI, auto simp: sim dest: bit_imp_le_length)+
  then show ?thesis by (simp add: UInt32ToBytes_def)
qed

lemma hex_val_digit: "d < 16 \<Longrightarrow> hex_val (of_char (hex_digit d)) = d"
proof -
  assume "d < 16"
  then have "d \<in> set [0..<16]" by simp
  moreover have "\<forall>d \<in> set [0..<16]. hex_val (of_char (hex_digit d)) = d" by code_simp
  ultimately show ?thesis by blast
qed

lemma hex_number_append1: "hex_number (bs @ [b]) = hex_number bs * 16 + hex_val b"
  by (simp add: hex_number_def)

lemma hex_number_hex_nat: "hex_number (map of_char (hex_nat n)) = n"
proof (induction n rule: hex_nat.induct)
  case (1 n)
  show ?case
  proof (cases "n < 16")
    case True
    then show ?thesis by (simp add: hex_nat.simps hex_number_def hex_val_digit)
  next
    case False
    with 1 show ?thesis by (subst hex_nat.simps) (simp add: hex_number_append1 hex_val_digit)
  qed
qed

lemma hex_number_zeros: "hex_number (replicate k 48 @ bs) = hex_number bs"
  by (induction k) (simp_all add: hex_number_def hex_val_def)

lemma hex_pad_read: "hex_number (map of_char (hex_pad k n)) = n"
  using hex_number_zeros [of "k - length (hex_nat n)" "map of_char (hex_nat n)"]
  by (simp add: hex_pad_def hex_number_hex_nat)

lemma hex_pad_length: "0 < k \<Longrightarrow> n < 16 ^ k \<Longrightarrow> length (hex_pad k n) = k"
  using hex_nat_length [of k n] by (simp add: hex_pad_def)

lemma hex_pad_word [simp]:
  "length (hex_pad 8 (unat (w :: 32 word))) = 8" "length (hex_pad 4 (unat (v :: 16 word))) = 4"
proof -
  have "unat w < 2 ^ 32" "unat v < 2 ^ 16" using unsigned_less [of w] unsigned_less [of v] by simp_all
  then show "length (hex_pad 8 (unat w)) = 8" "length (hex_pad 4 (unat v)) = 4" by (simp_all add: hex_pad_length)
qed

lemma guid_text_length: "length (guid_text g) = 36"
  by (simp add: guid_text_def)

lemma hex_nat_nonzero: "0 \<notin> (of_char :: char \<Rightarrow> byte) ` set (hex_nat n)"
proof (induction n rule: hex_nat.induct)
  case (1 n)
  have d: "d < 16 \<Longrightarrow> of_char (hex_digit d) \<noteq> (0 :: byte)" for d
  proof -
    assume "d < 16"
    then have "d \<in> set [0..<16]" by simp
    moreover have "\<forall>d \<in> set [0..<16]. of_char (hex_digit d) \<noteq> (0 :: byte)" by code_simp
    ultimately show ?thesis by blast
  qed
  show ?case
  proof (cases "n < 16")
    case True
    then show ?thesis using d [of n] by (subst hex_nat.simps) auto
  next
    case False
    then show ?thesis using d [of "n mod 16"] 1 by (subst hex_nat.simps) auto
  qed
qed

lemma guid_text_nonzero: "0 \<notin> (of_char :: char \<Rightarrow> byte) ` set (guid_text g)"
  using hex_nat_nonzero by (auto simp: guid_text_def hex_pad_def image_Un)

lemma GUIDToString_ok:
  assumes "37 \<le> n" "length buf = n"
  shows "GUIDToString g buf n = Inr (True, map of_char (guid_text g) @ 0 # drop 37 buf)"
  using assms guid_text_length [of g] by (simp add: GUIDToString_def Let_def list_update_append)

lemma read_guid_text:
  assumes "guid_ok g"
  shows "read_guid (map of_char (guid_text g) @ rest) = g"
proof -
  obtain a b c d e f g' h where d4: "data4 g = [a, b, c, d, e, f, g', h]"
    using assms by (auto simp: guid_ok_def numeral_eq_Suc length_Suc_conv)
  show ?thesis by (cases g) (use d4 in \<open>simp add: read_guid_def guid_text_def hex_pad_read\<close>)
qed

section \<open>Creating a GUID\<close>

definition guid_closes :: "guid_call list \<Rightarrow> guid_call list" where
  "guid_closes cs = filter (\<lambda>c. case c of GClose _ \<Rightarrow> True | _ \<Rightarrow> False) cs"

lemma guid_closes_simps [simp]:
  "guid_closes [] = []" "guid_closes (c # cs) = (case c of GClose _ \<Rightarrow> [c] | _ \<Rightarrow> []) @ guid_closes cs"
  "guid_closes (cs @ ds) = guid_closes cs @ guid_closes ds" "guid_closes (replicate n (GRead fd)) = []"
  "guid_closes (replicate n GRand) = []"
  by (auto simp: guid_closes_def split: guid_call.splits)

lemma rand_bytes_run:
  "\<exists>s'. rand_bytes x i n (s, h) = Some (Inr ((), s', h @ replicate n GRand)) \<and> length (g_mem s') = length (g_mem s)"
proof (induction n arbitrary: i s h)
  case (Suc n)
  show ?case using Suc.IH [of "i + 1" "s\<lparr>g_mem := (g_mem s)[i := of_int (x h GRand)]\<rparr>" "h @ [GRand]"] by auto
qed simp

lemma CreateGUIDFromRand_run:
  "\<exists>s' cs. CreateGUIDFromRand x addr (s, h) = Some (Inr ((), s', h @ cs)) \<and> length (g_mem s') = length (g_mem s) \<and>
     guid_closes cs = []"
proof -
  have "\<exists>s1 cs. InitOnce x addr (s, h) = Some (Inr ((), s1, h @ cs)) \<and> g_mem s1 = g_mem s \<and> guid_closes cs = []"
    by (cases "once_done s") (auto simp: InitOnce_def InitOnceImpl_def)
  then obtain s1 cs where i: "InitOnce x addr (s, h) = Some (Inr ((), s1, h @ cs))" "g_mem s1 = g_mem s" "guid_closes cs = []" by blast
  with rand_bytes_run [of x 0 16 s1 "h @ cs"] obtain s' where
    "rand_bytes x 0 16 (s1, h @ cs) = Some (Inr ((), s', h @ cs @ replicate 16 GRand))" "length (g_mem s') = length (g_mem s)" by auto
  moreover have "guid_closes (cs @ replicate 16 GRand) = []" using i(3) by (simp only: guid_closes_simps append_Nil)
  ultimately show ?thesis using i(1) unfolding CreateGUIDFromRand_def by (auto simp del: rand_bytes.simps)
qed

lemma CreateGUIDFromDevUrandom_run:
  assumes "\<forall>fd. settles x (GRead fd)" "\<forall>h fd. x h (GRead fd) \<le> 16" "length (g_mem s) = 16"
  shows "\<exists>ok s' cs. CreateGUIDFromDevUrandom x dat (s, h) = Some (Inr (ok, s', h @ cs)) \<and> length (g_mem s') = 16 \<and>
    (ok \<longrightarrow> g_mem s' = map dat [0..<16]) \<and> guid_closes cs = (let fd = x h (GOpen ''/dev/urandom'') in if fd < 0 then [] else [GClose fd])"
proof (cases "x h (GOpen ''/dev/urandom'') < 0")
  case True
  then show ?thesis using assms(3) by (auto simp: CreateGUIDFromDevUrandom_def Let_def)
next
  case False
  let ?fd = "x h (GOpen ''/dev/urandom'')"
  let ?h = "h @ [GOpen ''/dev/urandom'']"
  obtain n where n: "HANDLE_EINTR x (GRead ?fd) (s, ?h) =
      Some (Inr (x (?h @ replicate n (GRead ?fd)) (GRead ?fd), (s, ?h @ replicate (Suc n) (GRead ?fd))))"
    using assms(1) by (metis HANDLE_EINTR_settles)
  let ?r = "x (?h @ replicate n (GRead ?fd)) (GRead ?fd)"
  have "?r \<le> 16" using assms(2) by blast
  with False n assms(3) show ?thesis
    by (auto simp: CreateGUIDFromDevUrandom_def Let_def simp del: upt_rec_numeral)
qed

text \<open>The version and variant bits.\<close>

lemma guid_bits:
  "drop_bit 12 ((w AND 0x0fff) OR 0x4000) = (4 :: 16 word)" "drop_bit 6 ((b AND 0x3f) OR 0x80) = (2 :: byte)"
proof -
  show "drop_bit 12 ((w AND 0x0fff) OR 0x4000) = (4 :: 16 word)"
    by (rule bit_word_eqI) (auto simp: bit_simps)
  show "drop_bit 6 ((b AND 0x3f) OR 0x80) = (2 :: byte)"
    by (rule bit_word_eqI) (auto simp: bit_simps)
qed

lemma CreateGUID_run:
  assumes "\<forall>fd. settles x (GRead fd)" "\<forall>h fd. x h (GRead fd) \<le> 16" "length (g_mem s) = 16"
  shows "\<exists>g s' cs. CreateGUID x dat addr (s, h) = Some (Inr ((True, g), s', h @ cs)) \<and> guid_ok g \<and> rfc4122_v4 g \<and>
    length (g_mem s') = 16 \<and> guid_closes cs = (let fd = x h (GOpen ''/dev/urandom'') in if fd < 0 then [] else [GClose fd])"
proof -
  from CreateGUIDFromDevUrandom_run [OF assms, of dat h] obtain ok s1 cs1 where u:
    "CreateGUIDFromDevUrandom x dat (s, h) = Some (Inr (ok, s1, h @ cs1))" "length (g_mem s1) = 16"
    "guid_closes cs1 = (let fd = x h (GOpen ''/dev/urandom'') in if fd < 0 then [] else [GClose fd])" by blast
  have "\<exists>s2 cs2. (if ok then pret () else CreateGUIDFromRand x addr) (s1, h @ cs1) = Some (Inr ((), s2, h @ cs1 @ cs2)) \<and>
      length (g_mem s2) = 16 \<and> guid_closes cs2 = []"
    using CreateGUIDFromRand_run [of x addr s1 "h @ cs1"] u(2) by (cases ok) auto
  then obtain s2 cs2 where r: "(if ok then pret () else CreateGUIDFromRand x addr) (s1, h @ cs1) = Some (Inr ((), s2, h @ cs1 @ cs2))"
    "length (g_mem s2) = 16" "guid_closes cs2 = []" by blast
  let ?g = "guid_of_bytes (g_mem s2)"
  let ?g' = "?g\<lparr>data3 := (data3 ?g AND 0x0fff) OR 0x4000, data4 := (data4 ?g)[0 := (data4 ?g ! 0 AND 0x3f) OR 0x80]\<rparr>"
  have l: "length (data4 ?g) = 8" using r(2) by (simp add: guid_of_bytes_def)
  then have "guid_ok ?g'" "rfc4122_v4 ?g'" using guid_bits by (simp_all add: guid_ok_def rfc4122_v4_def)
  moreover have "CreateGUID x dat addr (s, h) = Some (Inr ((True, ?g'), s2, h @ cs1 @ cs2))"
    using u(1) r(1) unfolding CreateGUID_def by (simp add: Let_def)
  moreover have "guid_closes (cs1 @ cs2) = guid_closes cs1" using r(3) by simp
  ultimately show ?thesis using r(2) u(3) by metis
qed

section \<open>Properties\<close>

text \<open>C40: Identifiers are created and printed: whatever \<open>/dev/urandom\<close> answers, \<open>CreateGUID\<close> returns a version 4 identifier
  and closes the device if it was opened; \<open>GUIDToString\<close> writes exactly 36 characters and the terminator into a
  buffer of at least 37 bytes, and the identifier can be read back from them.\<close>

theorem guid_read_back:
  assumes "\<forall>fd. settles x (GRead fd)" "\<forall>h fd. x h (GRead fd) \<le> 16" "length (g_mem s) = 16"
    and "kGUIDStringLength < length buf"
  shows "\<exists>g s' cs b. CreateGUID x dat addr (s, h) = Some (Inr ((True, g), s', h @ cs)) \<and> rfc4122_v4 g \<and>
    guid_closes cs = (let fd = x h (GOpen ''/dev/urandom'') in if fd < 0 then [] else [GClose fd]) \<and>
    GUIDToString g buf (length buf) = Inr (True, b) \<and> length b = length buf \<and> b ! kGUIDStringLength = 0 \<and>
    0 \<notin> set (take kGUIDStringLength b) \<and> drop 37 b = drop 37 buf \<and> read_guid b = g"
proof -
  from CreateGUID_run [OF assms(1-3), of dat addr h] obtain g s' cs where
    c: "CreateGUID x dat addr (s, h) = Some (Inr ((True, g), s', h @ cs))" "guid_ok g" "rfc4122_v4 g"
    "guid_closes cs = (let fd = x h (GOpen ''/dev/urandom'') in if fd < 0 then [] else [GClose fd])" by blast
  let ?b = "map of_char (guid_text g) @ 0 # drop 37 buf"
  have t: "GUIDToString g buf (length buf) = Inr (True, ?b)" using assms(4) by (intro GUIDToString_ok) auto
  have "0 \<notin> set (take kGUIDStringLength ?b)" using guid_text_nonzero [of g] guid_text_length [of g] by simp
  moreover have "length ?b = length buf" "?b ! kGUIDStringLength = 0" "drop 37 ?b = drop 37 buf"
    using assms(4) guid_text_length [of g] by (simp_all add: nth_append)
  ultimately show ?thesis using c t read_guid_text [OF c(2)] by blast
qed

text \<open>A kernel without \<open>/dev/urandom\<close>.\<close>

definition no_urandom :: "guid_call ext" where
  "no_urandom h c = (case c of GOpen _ \<Rightarrow> - 2 | _ \<Rightarrow> 7)"

theorem guid_read_back_witness:
  "\<exists>g b. (\<exists>s cs. CreateGUID no_urandom (\<lambda>_. 0) 64 (\<lparr>g_mem = replicate 16 0, once_done = False\<rparr>, []) =
      Some (Inr ((True, g), s, cs))) \<and> GUIDToString g (replicate 37 0) 37 = Inr (True, b) \<and> read_guid b = g"
proof -
  have "\<forall>fd. settles no_urandom (GRead fd)" "\<forall>h fd. no_urandom h (GRead fd) \<le> 16" by (simp_all add: settles_def no_urandom_def)
  from guid_read_back [OF this, of "\<lparr>g_mem = replicate 16 0, once_done = False\<rparr>" "replicate 37 0" "\<lambda>_. 0" 64 "[]"]
  show ?thesis unfolding length_replicate append_Nil by force
qed

end
