(* ===== verification/Signal_Handlers.thy ===== *)
theory Signal_Handlers
  imports Sys_Calls
begin

text \<open>
  The signal side of the crash reporter (\<open>breakpad/src/client/linux/handler/exception_handler.cc\<close>): the
  actions of the six crash signals with their saved predecessors, the alternate stack of a thread, the
  global stack of exception handlers, and the signal handler that walks it. The code between locking and
  unlocking \<open>g_handler_stack_mutex_\<close> is one computation. The kernel is a parameter that decides which
  calls fail; a call that succeeds has its documented effect on actions and alternate stacks.
\<close>

section \<open>State\<close>

datatype handler_fun = SigDfl | BreakpadHandler | OtherHandler nat

record sigact =
  sa_fun :: handler_fun
  sa_siginfo :: bool
  sa_onstack :: bool
  sa_restart :: bool
  sa_mask :: "int list"

text \<open>A thread without an alternate stack has \<open>ss_sp\<close> null.\<close>

record alt_stack =
  ss_sp :: ptr
  ss_size :: nat

definition no_stack :: alt_stack where
  "no_stack = \<lparr>ss_sp = 0, ss_size = 0\<rparr>"

text \<open>All calls the exception handler makes; a failing call is answered with a negated error number.\<close>

datatype eh_call =
    EhGetAction int
  | EhSetAction int sigact
  | EhGetStack nat              \<comment> \<open>the thread\<close>
  | EhSetStack nat alt_stack
  | EhCalloc nat
  | EhFree ptr
  | EhTgkill int
  | EhExit int
  | EhFirstChance int
  | EhFilter
  | EhCrashHandler
  | EhCallback bool
  | EhGetpid
  | EhDumpable
  | EhPtracer int
  | EhAlloc nat
  | EhPipe
  | EhClone
  | EhClose int
  | EhWrite int
  | EhRead int
  | EhWait int
  | EhSendmsg int int           \<comment> \<open>the socket and the descriptor that is passed\<close>
  | EhLog
  | EhSeek int
  | EhTruncate int
  | EhGetcontext
  | EhWriteDump

text \<open>The globals of the file, and the part of the process the kernel keeps.\<close>

record sig_state =
  actions :: "int \<Rightarrow> sigact"
  altstacks :: "nat \<Rightarrow> alt_stack"
  stack_blocks :: pool
  old_handlers :: "sigact list"
  handlers_installed :: bool
  old_stack :: alt_stack
  new_stack :: alt_stack
  stack_installed :: bool
  handler_stack :: "nat list option"   \<comment> \<open>\<open>g_handler_stack_\<close>, the objects by number\<close>
  first_chance :: bool                 \<comment> \<open>\<open>g_first_chance_handler_\<close> is set\<close>

type_synonym ('z, 'a) sigp = "('z sig_state_scheme, eh_call, 'a) proc"

section \<open>Calls with an effect\<close>

definition sys_get_action :: "eh_call ext \<Rightarrow> int \<Rightarrow> ('z, sigact option) sigp" where
  "sys_get_action x sig = pbind (pcall x (EhGetAction sig)) (\<lambda>r. pbind pget (\<lambda>s. pret (if r < 0 then None else Some (actions s sig))))"

definition sys_set_action :: "eh_call ext \<Rightarrow> int \<Rightarrow> sigact \<Rightarrow> ('z, bool) sigp" where
  "sys_set_action x sig a = pbind (pcall x (EhSetAction sig a)) (\<lambda>r.
     if r < 0 then pret False else pthen (pmod (\<lambda>s. s\<lparr>actions := (actions s)(sig := a)\<rparr>)) (pret True))"

definition sys_get_stack :: "eh_call ext \<Rightarrow> nat \<Rightarrow> ('z, alt_stack option) sigp" where
  "sys_get_stack x t = pbind (pcall x (EhGetStack t)) (\<lambda>r. pbind pget (\<lambda>s. pret (if r < 0 then None else Some (altstacks s t))))"

definition sys_set_stack :: "eh_call ext \<Rightarrow> nat \<Rightarrow> alt_stack \<Rightarrow> ('z, bool) sigp" where
  "sys_set_stack x t st = pbind (pcall x (EhSetStack t st)) (\<lambda>r.
     if r < 0 then pret False else pthen (pmod (\<lambda>s. s\<lparr>altstacks := (altstacks s)(t := st)\<rparr>)) (pret True))"

definition stack_calloc :: "eh_call ext \<Rightarrow> nat \<Rightarrow> ('z, ptr) sigp" where
  "stack_calloc x n = pbind (pcall x (EhCalloc n)) (\<lambda>p.
     pthen (pmod (\<lambda>s. s\<lparr>stack_blocks := stack_blocks s \<union> ({nat p} - {0})\<rparr>)) (pret (nat p)))"

definition stack_free :: "eh_call ext \<Rightarrow> ptr \<Rightarrow> ('z, unit) sigp" where
  "stack_free x p = pbind (pcall x (EhFree p)) (\<lambda>_. pbind pget (\<lambda>s.
     pbind (plift (pool_free p (stack_blocks s))) (\<lambda>P. pmod (\<lambda>s. s\<lparr>stack_blocks := P\<rparr>))))"

section \<open>The alternate stack\<close>

text \<open>\<open>SIGSTKSZ\<close> is 8192 on the target.\<close>

definition kSigStackSize :: nat where "kSigStackSize = max 16384 8192"

definition InstallAlternateStackLocked :: "eh_call ext \<Rightarrow> nat \<Rightarrow> ('z, unit) sigp" where
  "InstallAlternateStackLocked x t = pbind pget (\<lambda>s.
     if stack_installed s then pret ()
     else pthen (pmod (\<lambda>s. s\<lparr>old_stack := no_stack, new_stack := no_stack\<rparr>))
       (pbind (sys_get_stack x t) (\<lambda>r.
        pthen (case r of None \<Rightarrow> pret () | Some st \<Rightarrow> pmod (\<lambda>s. s\<lparr>old_stack := st\<rparr>))
       (pbind pget (\<lambda>s.
        if r = None \<or> ss_sp (old_stack s) = 0 \<or> ss_size (old_stack s) < kSigStackSize then
          pbind (stack_calloc x kSigStackSize) (\<lambda>p.
          pthen (pmod (\<lambda>s. s\<lparr>new_stack := \<lparr>ss_sp = p, ss_size = kSigStackSize\<rparr>\<rparr>))
          (pbind (sys_set_stack x t \<lparr>ss_sp = p, ss_size = kSigStackSize\<rparr>) (\<lambda>ok.
            if \<not> ok then stack_free x p else pmod (\<lambda>s. s\<lparr>stack_installed := True\<rparr>))))
        else pret ())))))"

definition RestoreAlternateStackLocked :: "eh_call ext \<Rightarrow> nat \<Rightarrow> ('z, unit) sigp" where
  "RestoreAlternateStackLocked x t = pbind pget (\<lambda>s.
     if \<not> stack_installed s then pret ()
     else pbind (sys_get_stack x t) (\<lambda>r.
       case r of
         None \<Rightarrow> pret ()
       | Some current_stack \<Rightarrow>
           pbind (if ss_sp current_stack = ss_sp (new_stack s)
                  then sys_set_stack x t (if ss_sp (old_stack s) \<noteq> 0 then old_stack s else no_stack)
                  else pret True) (\<lambda>ok.
           if \<not> ok then pret ()
           else pthen (stack_free x (ss_sp (new_stack s))) (pmod (\<lambda>s. s\<lparr>stack_installed := False\<rparr>)))))"

section \<open>Signal actions\<close>

text \<open>\<open>SIGSEGV\<close>, \<open>SIGABRT\<close>, \<open>SIGFPE\<close>, \<open>SIGILL\<close>, \<open>SIGBUS\<close>, \<open>SIGTRAP\<close>.\<close>

definition kExceptionSignals :: "int list" where
  "kExceptionSignals = [11, 6, 8, 4, 7, 5]"

definition default_action :: sigact where
  "default_action = \<lparr>sa_fun = SigDfl, sa_siginfo = False, sa_onstack = False, sa_restart = True, sa_mask = []\<rparr>"

definition breakpad_action :: "int list \<Rightarrow> sigact" where
  "breakpad_action sigs = \<lparr>sa_fun = BreakpadHandler, sa_siginfo = True, sa_onstack = True, sa_restart = False, sa_mask = sigs\<rparr>"

definition InstallDefaultHandler :: "eh_call ext \<Rightarrow> int \<Rightarrow> ('z, unit) sigp" where
  "InstallDefaultHandler x sig = pbind (sys_set_action x sig default_action) (\<lambda>_. pret ())"

text \<open>The loops of \<open>InstallHandlersLocked\<close>: saving the old actions, which stops at the first failure, and
  installing the new ones, which does not.\<close>

fun save_handlers :: "eh_call ext \<Rightarrow> nat \<Rightarrow> int list \<Rightarrow> ('z, bool) sigp" where
  "save_handlers x i [] = pret True"
| "save_handlers x i (sig # sigs) = pbind (sys_get_action x sig) (\<lambda>r.
     case r of
       None \<Rightarrow> pret False
     | Some a \<Rightarrow> pthen (pmod (\<lambda>s. s\<lparr>old_handlers := (old_handlers s)[i := a]\<rparr>)) (save_handlers x (i + 1) sigs))"

fun set_handlers :: "eh_call ext \<Rightarrow> int list \<Rightarrow> ('z, unit) sigp" where
  "set_handlers x [] = pret ()"
| "set_handlers x (sig # sigs) = pbind (sys_set_action x sig (breakpad_action kExceptionSignals)) (\<lambda>_. set_handlers x sigs)"

definition InstallHandlersLocked :: "eh_call ext \<Rightarrow> ('z, bool) sigp" where
  "InstallHandlersLocked x = pbind pget (\<lambda>s.
     if handlers_installed s then pret False
     else pbind (save_handlers x 0 kExceptionSignals) (\<lambda>ok.
       if \<not> ok then pret False
       else pthen (set_handlers x kExceptionSignals)
         (pthen (pmod (\<lambda>s. s\<lparr>handlers_installed := True\<rparr>)) (pret True))))"

fun restore_handlers :: "eh_call ext \<Rightarrow> nat \<Rightarrow> int list \<Rightarrow> ('z, unit) sigp" where
  "restore_handlers x i [] = pret ()"
| "restore_handlers x i (sig # sigs) = pbind pget (\<lambda>s. pbind (sys_set_action x sig (old_handlers s ! i)) (\<lambda>ok.
     pthen (if ok then pret () else InstallDefaultHandler x sig) (restore_handlers x (i + 1) sigs)))"

definition RestoreHandlersLocked :: "eh_call ext \<Rightarrow> ('z, unit) sigp" where
  "RestoreHandlersLocked x = pbind pget (\<lambda>s.
     if \<not> handlers_installed s then pret ()
     else pthen (restore_handlers x 0 kExceptionSignals) (pmod (\<lambda>s. s\<lparr>handlers_installed := False\<rparr>)))"

section \<open>The stack of handlers\<close>

text \<open>The locked parts of the constructor and destructor of object \<open>i\<close>, run by thread \<open>t\<close>.\<close>

definition register_handler :: "eh_call ext \<Rightarrow> nat \<Rightarrow> nat \<Rightarrow> bool \<Rightarrow> ('z, unit) sigp" where
  "register_handler x t i install_handler =
     pthen (pmod (\<lambda>s. if handler_stack s = None then s\<lparr>handler_stack := Some []\<rparr> else s))
     (pthen (if install_handler then pthen (InstallAlternateStackLocked x t) (pbind (InstallHandlersLocked x) (\<lambda>_. pret ())) else pret ())
     (pmod (\<lambda>s. s\<lparr>handler_stack := Some (the (handler_stack s) @ [i])\<rparr>)))"

definition unregister_handler :: "eh_call ext \<Rightarrow> nat \<Rightarrow> nat \<Rightarrow> ('z, unit) sigp" where
  "unregister_handler x t i = pbind pget (\<lambda>s.
     case handler_stack s of
       None \<Rightarrow> pfail NullDeref
     | Some hs \<Rightarrow>
         if i \<notin> set hs then pfail OutOfBounds
         else pthen (pmod (\<lambda>s. s\<lparr>handler_stack := Some (remove1 i hs)\<rparr>))
           (if remove1 i hs = [] then
              pthen (pmod (\<lambda>s. s\<lparr>handler_stack := None\<rparr>)) (pthen (RestoreAlternateStackLocked x t) (RestoreHandlersLocked x))
            else pret ()))"

section \<open>The signal handler\<close>

text \<open>The walk over the stack, newest first, until one handles the signal.\<close>

fun try_handlers :: "(nat \<Rightarrow> ('z, bool) sigp) \<Rightarrow> nat list \<Rightarrow> ('z, bool) sigp" where
  "try_handlers handle [] = pret False"
| "try_handlers handle (i # is) = pbind (handle i) (\<lambda>r. if r then pret True else try_handlers handle is)"

text \<open>The locked part: whether the handler goes on to send the signal again.\<close>

definition SignalHandler_locked :: "eh_call ext \<Rightarrow> (nat \<Rightarrow> ('z, bool) sigp) \<Rightarrow> int \<Rightarrow> ('z, bool) sigp" where
  "SignalHandler_locked x handle sig =
     pbind (sys_get_action x sig) (\<lambda>cur.
     case (case cur of Some a \<Rightarrow> sa_fun a = BreakpadHandler \<and> \<not> sa_siginfo a | None \<Rightarrow> False) of
       True \<Rightarrow> pbind (sys_set_action x sig (breakpad_action [sig])) (\<lambda>ok.
         pthen (if ok then pret () else InstallDefaultHandler x sig) (pret False))
     | False \<Rightarrow> pbind pget (\<lambda>s.
         case handler_stack s of
           None \<Rightarrow> pfail NullDeref
         | Some hs \<Rightarrow> pbind (try_handlers handle (rev hs)) (\<lambda>handled.
             pthen (if handled then InstallDefaultHandler x sig else RestoreHandlersLocked x) (pret True))))"

definition SignalHandler :: "eh_call ext \<Rightarrow> (nat \<Rightarrow> ('z, bool) sigp) \<Rightarrow> int \<Rightarrow> int \<Rightarrow> ('z, unit) sigp" where
  "SignalHandler x handle sig si_code = pbind pget (\<lambda>s.
     pbind (if first_chance s then pbind (pcall x (EhFirstChance sig)) (\<lambda>r. pret (r \<noteq> 0)) else pret False) (\<lambda>recovered.
     if recovered then pret ()
     else pbind (SignalHandler_locked x handle sig) (\<lambda>go_on.
       if go_on \<and> (si_code \<le> 0 \<or> sig = 6) then
         pbind (pcall x (EhTgkill sig)) (\<lambda>r. if r < 0 then pbind (pcall x (EhExit 1)) (\<lambda>_. pret ()) else pret ())
       else pret ())))"

definition SetFirstChanceExceptionHandler :: "bool \<Rightarrow> ('z, unit) sigp" where
  "SetFirstChanceExceptionHandler present = pmod (\<lambda>s. s\<lparr>first_chance := present\<rparr>)"

section \<open>Runs of the program\<close>

text \<open>
  What happens to the globals: a handler object \<open>i\<close> is created (with or without installing) or destroyed by
  thread \<open>t\<close>, or a signal is raised, which is delivered to the signal handler when it is the action.
\<close>

datatype eh_event =
    NewHandler nat nat bool
  | DeleteHandler nat nat
  | Raise int int

fun eh_do :: "eh_call ext \<Rightarrow> (nat \<Rightarrow> ('z, bool) sigp) \<Rightarrow> eh_event \<Rightarrow> ('z, unit) sigp" where
  "eh_do x handle (NewHandler t i install_handler) = register_handler x t i install_handler"
| "eh_do x handle (DeleteHandler t i) = unregister_handler x t i"
| "eh_do x handle (Raise sig si_code) = pbind pget (\<lambda>s.
     if sa_fun (actions s sig) = BreakpadHandler then SignalHandler x handle sig si_code else pret ())"

fun eh_run :: "eh_call ext \<Rightarrow> (nat \<Rightarrow> ('z, bool) sigp) \<Rightarrow> eh_event list \<Rightarrow> ('z, unit) sigp" where
  "eh_run x handle [] = pret ()"
| "eh_run x handle (e # es) = pthen (eh_do x handle e) (eh_run x handle es)"

text \<open>The objects alive after a run that uses them properly, all on thread \<open>t\<close>.\<close>

fun live_after :: "nat \<Rightarrow> nat list \<Rightarrow> eh_event list \<Rightarrow> nat list option" where
  "live_after t live [] = Some live"
| "live_after t live (NewHandler t' i b # es) = (if t' = t \<and> i \<notin> set live then live_after t (live @ [i]) es else None)"
| "live_after t live (DeleteHandler t' i # es) = (if t' = t \<and> i \<in> set live then live_after t (remove1 i live) es else None)"
| "live_after t live (Raise sig code # es) = live_after t live es"

text \<open>A kernel that sets and reports what it is asked for, and memory for the stack.\<close>

definition signal_laws :: "eh_call ext \<Rightarrow> nat \<Rightarrow> bool" where
  "signal_laws x t \<longleftrightarrow> (\<forall>h. (\<forall>sig a. 0 \<le> x h (EhSetAction sig a)) \<and> 0 \<le> x h (EhGetStack t) \<and>
     (\<forall>st. 0 \<le> x h (EhSetStack t st)) \<and> (\<forall>n. 0 < x h (EhCalloc n)))"

text \<open>A method of the handler objects that returns and leaves the globals alone.\<close>

definition handles_ok :: "(nat \<Rightarrow> ('z, bool) sigp) \<Rightarrow> bool" where
  "handles_ok handle \<longleftrightarrow> (\<forall>i s h. \<exists>b z h'. handle i (s, h) = Some (Inr (b, (sig_state.more_update (\<lambda>_. z) s, h'))))"

lemma set_handlers_run:
  assumes "signal_laws x t"
  shows "\<exists>h'. set_handlers x sigs (s, h) =
    Some (Inr ((), (s\<lparr>actions := \<lambda>sig. if sig \<in> set sigs then breakpad_action kExceptionSignals else actions s sig\<rparr>, h')))"
proof (induction sigs arbitrary: s h)
  case (Cons sig sigs)
  have "\<not> x h (EhSetAction sig a) < 0" for h a using assms by (simp add: signal_laws_def not_less)
  then show ?case
    using Cons [of "s\<lparr>actions := (actions s)(sig := breakpad_action kExceptionSignals)\<rparr>" "h @ [EhSetAction sig (breakpad_action kExceptionSignals)]"]
    by (auto simp: sys_set_action_def fun_eq_iff intro!: arg_cong [where f = "\<lambda>f. actions_update f s"])
qed simp

lemma restore_handlers_run:
  assumes "signal_laws x t" "\<forall>j < length sigs. old_handlers s ! (i + j) = orig (sigs ! j)"
  shows "\<exists>h'. restore_handlers x i sigs (s, h) =
    Some (Inr ((), (s\<lparr>actions := \<lambda>sig. if sig \<in> set sigs then orig sig else actions s sig\<rparr>, h')))"
  using assms(2)
proof (induction sigs arbitrary: s h i)
  case (Cons sig sigs)
  have "\<not> x h (EhSetAction sig a) < 0" for h a using assms by (simp add: signal_laws_def not_less)
  moreover have "old_handlers s ! i = orig sig" "\<forall>j < length sigs. old_handlers s ! (Suc i + j) = orig (sigs ! j)"
    using Cons.prems by force+
  ultimately show ?case
    using Cons.IH [of "s\<lparr>actions := (actions s)(sig := orig sig)\<rparr>" "Suc i" "h @ [EhSetAction sig (orig sig)]"]
    by (auto simp: sys_set_action_def fun_eq_iff intro!: arg_cong [where f = "\<lambda>f. actions_update f s"])
qed simp

lemma save_handlers_run:
  assumes "i + length sigs \<le> length (old_handlers s)"
  shows "\<exists>ok old h'. save_handlers x i sigs (s, h) = Some (Inr (ok, (s\<lparr>old_handlers := old\<rparr>, h'))) \<and>
    length old = length (old_handlers s) \<and> take i old = take i (old_handlers s) \<and>
    (ok \<longrightarrow> (\<forall>j < length sigs. old ! (i + j) = actions s (sigs ! j)))"
  using assms
proof (induction sigs arbitrary: s h i)
  case Nil
  then show ?case by (intro exI [of _ True] exI [of _ "old_handlers s"]) simp
next
  case (Cons sig sigs)
  show ?case
  proof (cases "x h (EhGetAction sig) < 0")
    case True
    then show ?thesis by (intro exI [of _ False] exI [of _ "old_handlers s"]) (simp add: sys_get_action_def)
  next
    case False
    let ?s = "s\<lparr>old_handlers := (old_handlers s)[i := actions s sig]\<rparr>"
    from Cons.IH [of "Suc i" ?s "h @ [EhGetAction sig]"] Cons.prems obtain ok old h' where
      r: "save_handlers x (Suc i) sigs (?s, h @ [EhGetAction sig]) = Some (Inr (ok, (s\<lparr>old_handlers := old\<rparr>, h')))"
         "length old = length (old_handlers s)" "take (Suc i) old = take (Suc i) ((old_handlers s)[i := actions s sig])"
         "ok \<longrightarrow> (\<forall>j < length sigs. old ! (Suc i + j) = actions s (sigs ! j))" by auto
    have "take i old = take i (old_handlers s)"
      using r(3) by (metis lessI min.absorb3 order.strict_implies_order take_take take_update_cancel order_refl min.absorb1)
    moreover have "old ! i = actions s sig"
      using r(2,3) Cons.prems by (metis add_leD1 le_add1 length_Cons lessI less_le_trans nth_list_update_eq nth_take add_Suc_right less_add_Suc1)
    moreover have "ok \<longrightarrow> (\<forall>j < length (sig # sigs). old ! (i + j) = actions s ((sig # sigs) ! j))"
      using r(4) calculation(2) by (auto simp: less_Suc_eq_0_disj)
    ultimately show ?thesis using r False
      by (intro exI [of _ ok] exI [of _ old] exI [of _ h']) (simp add: sys_get_action_def)
  qed
qed

lemma law_simps:
  assumes "signal_laws x t"
  shows "\<not> x h (EhSetAction sig a) < 0" "\<not> x h (EhGetStack t) < 0" "\<not> x h (EhSetStack t st) < 0" "\<not> x h (EhCalloc n) \<le> 0"
  using assms by (simp_all add: signal_laws_def not_less not_le)

text \<open>The parts of the state of actions and of alternate stacks.\<close>

definition actions_inv :: "(int \<Rightarrow> sigact) \<Rightarrow> 'z sig_state_scheme \<Rightarrow> bool" where
  "actions_inv orig s \<longleftrightarrow> length (old_handlers s) = 6 \<and>
     (if handlers_installed s
      then (\<forall>j < 6. old_handlers s ! j = orig (kExceptionSignals ! j)) \<and>
        (\<forall>sig. sig \<notin> set kExceptionSignals \<longrightarrow> actions s sig = orig sig) \<and>
        (\<forall>sig \<in> set kExceptionSignals. actions s sig \<in> {breakpad_action kExceptionSignals, default_action})
      else actions s = orig)"

definition stacks_inv :: "nat \<Rightarrow> (nat \<Rightarrow> alt_stack) \<Rightarrow> 'z sig_state_scheme \<Rightarrow> bool" where
  "stacks_inv t stacks s \<longleftrightarrow>
     (if stack_installed s
      then ss_sp (new_stack s) \<noteq> 0 \<and> stack_blocks s = {ss_sp (new_stack s)} \<and> old_stack s = stacks t \<and>
        altstacks s = stacks(t := new_stack s)
      else stack_blocks s = {} \<and> altstacks s = stacks)"

lemma InstallHandlersLocked_run:
  assumes "signal_laws x t" "actions_inv orig s"
  shows "\<exists>r s' h'. InstallHandlersLocked x (s, h) = Some (Inr (r, (s', h'))) \<and> actions_inv orig s' \<and>
    s' = s\<lparr>actions := actions s', old_handlers := old_handlers s', handlers_installed := handlers_installed s'\<rparr>"
proof (cases "handlers_installed s")
  case True
  then show ?thesis using assms(2) by (intro exI [of _ False]) (simp add: InstallHandlersLocked_def)
next
  case False
  then have s: "length (old_handlers s) = 6" "actions s = orig" using assms(2) by (simp_all add: actions_inv_def)
  have six: "length kExceptionSignals = 6" by (simp add: kExceptionSignals_def)
  from save_handlers_run [of 0 kExceptionSignals s x h] s(1) six obtain ok old h' where
    r: "save_handlers x 0 kExceptionSignals (s, h) = Some (Inr (ok, (s\<lparr>old_handlers := old\<rparr>, h')))" "length old = 6"
       "ok \<longrightarrow> (\<forall>j < 6. old ! j = orig (kExceptionSignals ! j))" using s(2) by auto
  show ?thesis
  proof (cases ok)
    case True
    from set_handlers_run [OF assms(1), of kExceptionSignals "s\<lparr>old_handlers := old\<rparr>" h'] obtain h'' where
      "set_handlers x kExceptionSignals (s\<lparr>old_handlers := old\<rparr>, h') =
        Some (Inr ((), (s\<lparr>old_handlers := old, actions := \<lambda>sig. if sig \<in> set kExceptionSignals then breakpad_action kExceptionSignals else orig sig\<rparr>, h'')))"
      using s(2) by (auto cong: if_cong)
    then show ?thesis using False True r s by (intro exI [of _ True]) (simp add: InstallHandlersLocked_def actions_inv_def)
  next
    case no: False
    then show ?thesis using False r s by (intro exI [of _ False]) (simp add: InstallHandlersLocked_def actions_inv_def)
  qed
qed

lemma RestoreHandlersLocked_run:
  assumes "signal_laws x t" "actions_inv orig s"
  shows "\<exists>h'. RestoreHandlersLocked x (s, h) = Some (Inr ((), (s\<lparr>actions := orig, handlers_installed := False\<rparr>, h')))"
proof (cases "handlers_installed s")
  case True
  then have i: "\<forall>j < length kExceptionSignals. old_handlers s ! (0 + j) = orig (kExceptionSignals ! j)"
      "\<forall>sig. sig \<notin> set kExceptionSignals \<longrightarrow> actions s sig = orig sig"
    using assms(2) by (simp_all add: actions_inv_def) (simp add: kExceptionSignals_def)
  have "(\<lambda>sig. if sig \<in> set kExceptionSignals then orig sig else actions s sig) = orig" using i(2) by auto
  then show ?thesis using restore_handlers_run [OF assms(1) i(1), of h] True by (auto simp: RestoreHandlersLocked_def)
next
  case False
  then have "s\<lparr>actions := orig, handlers_installed := False\<rparr> = s" using assms(2) by (cases s) (simp add: actions_inv_def)
  then show ?thesis using False by (simp add: RestoreHandlersLocked_def)
qed

lemma InstallAlternateStackLocked_run:
  assumes "signal_laws x t" "stacks_inv t stacks s"
  shows "\<exists>s' h'. InstallAlternateStackLocked x t (s, h) = Some (Inr ((), (s', h'))) \<and> stacks_inv t stacks s' \<and>
    s' = s\<lparr>altstacks := altstacks s', stack_blocks := stack_blocks s', old_stack := old_stack s', new_stack := new_stack s',
           stack_installed := stack_installed s'\<rparr>"
  using assms(2) law_simps [OF assms(1)]
  by (simp add: InstallAlternateStackLocked_def sys_get_stack_def stack_calloc_def sys_set_stack_def stacks_inv_def insert_Diff_if)

lemma RestoreAlternateStackLocked_run:
  assumes "signal_laws x t" "stacks_inv t stacks s" "ss_sp (stacks t) = 0 \<longrightarrow> stacks t = no_stack"
  shows "\<exists>s' h'. RestoreAlternateStackLocked x t (s, h) = Some (Inr ((), (s', h'))) \<and>
    s' = s\<lparr>altstacks := stacks, stack_blocks := {}, stack_installed := False\<rparr>"
proof (cases "stack_installed s")
  case True
  then have s: "ss_sp (new_stack s) \<noteq> 0" "stack_blocks s = {ss_sp (new_stack s)}" "old_stack s = stacks t"
    "altstacks s = stacks(t := new_stack s)" using assms(2) by (simp_all add: stacks_inv_def)
  have "(if ss_sp (old_stack s) \<noteq> 0 then old_stack s else no_stack) = stacks t" using s(3) assms(3) by auto
  then show ?thesis using True s law_simps [OF assms(1)]
    by (simp add: RestoreAlternateStackLocked_def sys_get_stack_def sys_set_stack_def stack_free_def pool_simps)
next
  case False
  then have "s\<lparr>altstacks := stacks, stack_blocks := {}, stack_installed := False\<rparr> = s"
    using assms(2) by (cases s) (simp add: stacks_inv_def)
  then show ?thesis using False by (simp add: RestoreAlternateStackLocked_def)
qed

definition eh_inv :: "(int \<Rightarrow> sigact) \<Rightarrow> nat \<Rightarrow> (nat \<Rightarrow> alt_stack) \<Rightarrow> nat list \<Rightarrow> 'z sig_state_scheme \<Rightarrow> bool" where
  "eh_inv orig t stacks live s \<longleftrightarrow>
     handler_stack s = (if live = [] then None else Some live) \<and> actions_inv orig s \<and> stacks_inv t stacks s \<and>
     (live = [] \<longrightarrow> \<not> handlers_installed s \<and> \<not> stack_installed s)"

lemma inv_independent [simp]:
  "actions_inv orig (s\<lparr>handler_stack := hs\<rparr>) = actions_inv orig s" "stacks_inv t stacks (s\<lparr>handler_stack := hs\<rparr>) = stacks_inv t stacks s"
  "stacks_inv t stacks (s\<lparr>actions := a\<rparr>) = stacks_inv t stacks s" "stacks_inv t stacks (s\<lparr>handlers_installed := b\<rparr>) = stacks_inv t stacks s"
  "actions_inv orig (sig_state.more_update f s) = actions_inv orig s" "stacks_inv t stacks (sig_state.more_update f s) = stacks_inv t stacks s"
  by (simp_all add: actions_inv_def stacks_inv_def)

lemma actions_inv_cong:
  "actions s' = actions s \<Longrightarrow> old_handlers s' = old_handlers s \<Longrightarrow> handlers_installed s' = handlers_installed s \<Longrightarrow>
     actions_inv orig s' = actions_inv orig s"
  by (simp add: actions_inv_def)

lemma stacks_inv_cong:
  "altstacks s' = altstacks s \<Longrightarrow> stack_blocks s' = stack_blocks s \<Longrightarrow> old_stack s' = old_stack s \<Longrightarrow> new_stack s' = new_stack s \<Longrightarrow>
     stack_installed s' = stack_installed s \<Longrightarrow> stacks_inv t stacks s' = stacks_inv t stacks s"
  by (simp add: stacks_inv_def)

lemma register_handler_run:
  assumes "signal_laws x t" "eh_inv orig t stacks live s"
  shows "\<exists>s' h'. register_handler x t i b (s, h) = Some (Inr ((), (s', h'))) \<and> eh_inv orig t stacks (live @ [i]) s' \<and> first_chance s' = first_chance s"
proof -
  let ?s = "s\<lparr>handler_stack := Some live\<rparr>"
  have first: "(if handler_stack s = None then s\<lparr>handler_stack := Some []\<rparr> else s) = ?s"
    using assms(2) by (cases s) (auto simp: eh_inv_def)
  have inv: "actions_inv orig ?s" "stacks_inv t stacks ?s" using assms(2) by (simp_all add: eh_inv_def)
  have pre: "register_handler x t i b (s, h) =
      pthen (if b then pthen (InstallAlternateStackLocked x t) (pbind (InstallHandlersLocked x) (\<lambda>_. pret ())) else pret ())
        (pmod (\<lambda>s. s\<lparr>handler_stack := Some (the (handler_stack s) @ [i])\<rparr>)) (?s, h)"
    by (simp add: register_handler_def first del: p_if cong: if_cong)
  show ?thesis
  proof (cases b)
    case True
    from InstallAlternateStackLocked_run [OF assms(1) inv(2), of h] obtain s1 h1 where
      r1: "InstallAlternateStackLocked x t (?s, h) = Some (Inr ((), (s1, h1)))" "stacks_inv t stacks s1"
        "s1 = ?s\<lparr>altstacks := altstacks s1, stack_blocks := stack_blocks s1, old_stack := old_stack s1, new_stack := new_stack s1,
           stack_installed := stack_installed s1\<rparr>" by blast
    have e1: "actions s1 = actions ?s" "old_handlers s1 = old_handlers ?s" "handlers_installed s1 = handlers_installed ?s"
      "handler_stack s1 = Some live" "first_chance s1 = first_chance s" by (subst r1(3), simp)+
    from InstallHandlersLocked_run [OF assms(1), of orig s1 h1] inv(1) actions_inv_cong [OF e1(1-3)] obtain r s2 h2 where
      r2: "InstallHandlersLocked x (s1, h1) = Some (Inr (r, (s2, h2)))" "actions_inv orig s2"
        "s2 = s1\<lparr>actions := actions s2, old_handlers := old_handlers s2, handlers_installed := handlers_installed s2\<rparr>" by blast
    have e2: "altstacks s2 = altstacks s1" "stack_blocks s2 = stack_blocks s1" "old_stack s2 = old_stack s1" "new_stack s2 = new_stack s1"
      "stack_installed s2 = stack_installed s1" "handler_stack s2 = Some live" "first_chance s2 = first_chance s"
      by (subst r2(3), simp add: e1)+
    show ?thesis unfolding pre using True r1(1,2) r2(1,2) e2 stacks_inv_cong [OF e2(1-5)] by (simp add: pbind_def eh_inv_def)
  next
    case False
    then show ?thesis unfolding pre using inv by (simp add: eh_inv_def)
  qed
qed

lemma unregister_handler_run:
  assumes "signal_laws x t" "eh_inv orig t stacks live s" "i \<in> set live" "ss_sp (stacks t) = 0 \<longrightarrow> stacks t = no_stack"
  shows "\<exists>s' h'. unregister_handler x t i (s, h) = Some (Inr ((), (s', h'))) \<and> eh_inv orig t stacks (remove1 i live) s' \<and> first_chance s' = first_chance s"
proof -
  have hs: "handler_stack s = Some live" using assms(2,3) by (auto simp: eh_inv_def)
  let ?s = "s\<lparr>handler_stack := None\<rparr>"
  have inv: "actions_inv orig ?s" "stacks_inv t stacks ?s" using assms(2) by (simp_all add: eh_inv_def)
  show ?thesis
  proof (cases "remove1 i live = []")
    case True
    from RestoreAlternateStackLocked_run [OF assms(1) inv(2) assms(4), of h] obtain s1 h1 where
      r1: "RestoreAlternateStackLocked x t (?s, h) = Some (Inr ((), (s1, h1)))"
        "s1 = ?s\<lparr>altstacks := stacks, stack_blocks := {}, stack_installed := False\<rparr>" by blast
    have "actions_inv orig s1" using actions_inv_cong [of s1 ?s orig] inv(1) r1(2) by simp
    from RestoreHandlersLocked_run [OF assms(1) this, of h1] obtain h2 where
      "RestoreHandlersLocked x (s1, h1) = Some (Inr ((), (s1\<lparr>actions := orig, handlers_installed := False\<rparr>, h2)))" by blast
    moreover have "length (old_handlers s) = 6" using assms(2) by (simp add: eh_inv_def actions_inv_def)
    ultimately show ?thesis using True hs assms(3) r1
      by (simp add: unregister_handler_def eh_inv_def actions_inv_def stacks_inv_def)
  next
    case False
    then show ?thesis using hs assms(2,3) by (auto simp: unregister_handler_def eh_inv_def)
  qed
qed

lemma try_handlers_run:
  assumes "handles_ok handle"
  shows "\<exists>b z h'. try_handlers handle is (s, h) = Some (Inr (b, (sig_state.more_update (\<lambda>_. z) s, h')))"
proof (induction "is" arbitrary: s h)
  case Nil
  then show ?case by (intro exI [of _ False] exI [of _ "sig_state.more s"]) simp
next
  case (Cons i "is")
  from assms obtain b z h' where r: "handle i (s, h) = Some (Inr (b, (sig_state.more_update (\<lambda>_. z) s, h')))"
    unfolding handles_ok_def by metis
  show ?case
  proof (cases b)
    case True
    then show ?thesis using r by (intro exI [of _ True] exI [of _ z]) simp
  next
    case False
    from Cons [of "sig_state.more_update (\<lambda>_. z) s" h'] obtain b' z' h'' where
      "try_handlers handle is (sig_state.more_update (\<lambda>_. z) s, h') = Some (Inr (b', (sig_state.more_update (\<lambda>_. z') s, h'')))" by auto
    then show ?thesis using r False by (intro exI [of _ b'] exI [of _ z']) simp
  qed
qed

lemma SignalHandler_locked_run:
  assumes "signal_laws x t" "eh_inv orig t stacks live s" "handles_ok handle" "live \<noteq> []" "sig \<in> set kExceptionSignals" "handlers_installed s"
  shows "\<exists>go_on s' h'. SignalHandler_locked x handle sig (s, h) = Some (Inr (go_on, (s', h'))) \<and> eh_inv orig t stacks live s'"
proof -
  have siginfo: "\<not> (sa_fun (actions s sig) = BreakpadHandler \<and> \<not> sa_siginfo (actions s sig))"
    using assms(2,5,6) by (auto simp: eh_inv_def actions_inv_def breakpad_action_def default_action_def)
  have hs: "handler_stack s = Some live" using assms(2,4) by (simp add: eh_inv_def)
  let ?h = "h @ [EhGetAction sig]"
  from try_handlers_run [OF assms(3), of "rev live" s ?h] obtain b z h1 where
    r: "try_handlers handle (rev live) (s, ?h) = Some (Inr (b, (sig_state.more_update (\<lambda>_. z) s, h1)))" by blast
  let ?s = "sig_state.more_update (\<lambda>_. z) s"
  have inv: "actions_inv orig ?s" "stacks_inv t stacks ?s" using assms(2) by (simp_all add: eh_inv_def)
  have pre: "SignalHandler_locked x handle sig (s, h) =
      pthen (if b then InstallDefaultHandler x sig else RestoreHandlersLocked x) (pret True) (?s, h1)"
    using siginfo hs r by (auto simp: SignalHandler_locked_def sys_get_action_def split: bool.splits)
  show ?thesis
  proof (cases b)
    case True
    have "actions_inv orig (?s\<lparr>actions := (actions s)(sig := default_action)\<rparr>)"
      using inv(1) assms(5,6) by (auto simp: actions_inv_def)
    then show ?thesis using True pre law_simps(1) [OF assms(1)] inv hs assms(2,4)
      by (intro exI [of _ True]) (simp add: InstallDefaultHandler_def sys_set_action_def eh_inv_def)
  next
    case False
    from RestoreHandlersLocked_run [OF assms(1) inv(1), of h1] obtain h2 where
      "RestoreHandlersLocked x (?s, h1) = Some (Inr ((), (?s\<lparr>actions := orig, handlers_installed := False\<rparr>, h2)))" by blast
    then show ?thesis using False pre inv(2) hs assms(2,4) by (intro exI [of _ True]) (simp add: eh_inv_def actions_inv_def)
  qed
qed

lemma Raise_run:
  assumes "signal_laws x t" "eh_inv orig t stacks live s" "handles_ok handle" "\<forall>sig. sa_fun (orig sig) \<noteq> BreakpadHandler"
  shows "\<exists>s' h'. eh_do x handle (Raise sig code) (s, h) = Some (Inr ((), (s', h'))) \<and> eh_inv orig t stacks live s'"
proof (cases "sa_fun (actions s sig) = BreakpadHandler")
  case True
  have i: "handlers_installed s" "sig \<in> set kExceptionSignals"
    using assms(2,4) True by (auto simp: eh_inv_def actions_inv_def split: if_splits)
  have live: "live \<noteq> []" using assms(2) i(1) by (auto simp: eh_inv_def)
  show ?thesis
  proof (cases "first_chance s \<and> x h (EhFirstChance sig) \<noteq> 0")
    case rec: True
    then show ?thesis using True assms(2) by (simp add: SignalHandler_def)
  next
    case False
    let ?h = "if first_chance s then h @ [EhFirstChance sig] else h"
    from SignalHandler_locked_run [OF assms(1-3) live i(2,1), of ?h] obtain go_on s' h' where
      "SignalHandler_locked x handle sig (s, ?h) = Some (Inr (go_on, (s', h')))" "eh_inv orig t stacks live s'" by blast
    then show ?thesis using True False by (auto simp: SignalHandler_def pbind_def split: if_splits)
  qed
next
  case False
  then show ?thesis using assms(2) by simp
qed

lemma eh_run_ok:
  assumes "signal_laws x t" "handles_ok handle" "\<forall>sig. sa_fun (orig sig) \<noteq> BreakpadHandler" "ss_sp (stacks t) = 0 \<longrightarrow> stacks t = no_stack"
  shows "eh_inv orig t stacks live s \<Longrightarrow> live_after t live es = Some live' \<Longrightarrow>
    \<exists>s' h'. eh_run x handle es (s, h) = Some (Inr ((), (s', h'))) \<and> eh_inv orig t stacks live' s'"
proof (induction es arbitrary: live s h)
  case (Cons e es)
  have "\<exists>live1 s1 h1. eh_do x handle e (s, h) = Some (Inr ((), (s1, h1))) \<and> eh_inv orig t stacks live1 s1 \<and> live_after t live1 es = Some live'"
  proof (cases e)
    case (NewHandler t' i b)
    then show ?thesis using Cons.prems register_handler_run [OF assms(1) Cons.prems(1), of i b h] by (force split: if_splits)
  next
    case (DeleteHandler t' i)
    then show ?thesis using Cons.prems unregister_handler_run [OF assms(1) Cons.prems(1) _ assms(4), of i h] by (force split: if_splits)
  next
    case (Raise sig code)
    then show ?thesis using Cons.prems(2) Raise_run [OF assms(1) Cons.prems(1) assms(2,3), of sig code h] by auto
  qed
  then obtain live1 s1 h1 where "eh_do x handle e (s, h) = Some (Inr ((), (s1, h1)))" "eh_inv orig t stacks live1 s1"
    "live_after t live1 es = Some live'" by blast
  then show ?case using Cons.IH [of live1 s1 h1] by simp
qed simp

text \<open>The order in which the handler objects are asked.\<close>

lemma try_handlers_order:
  assumes "\<And>i s h. handle i (s, h) = Some (Inr (P i, (s, h @ [Q i])))"
  shows "try_handlers handle is (s, h) =
    Some (Inr (\<exists>i \<in> set is. P i, (s, h @ map Q (takeWhile (\<lambda>i. \<not> P i) is @ take 1 (dropWhile (\<lambda>i. \<not> P i) is)))))"
  by (induction "is" arbitrary: h) (simp_all add: assms)

lemma locked_walk:
  assumes "\<not> (sa_fun (actions s sig) = BreakpadHandler \<and> \<not> sa_siginfo (actions s sig))" "handler_stack s = Some hs"
  shows "SignalHandler_locked x handle sig (s, h) = pbind (try_handlers handle (rev hs))
    (\<lambda>handled. pthen (if handled then InstallDefaultHandler x sig else RestoreHandlersLocked x) (pret True)) (s, h @ [EhGetAction sig])"
  using assms by (auto simp: SignalHandler_locked_def sys_get_action_def split: bool.splits)

text \<open>
  The objects are asked from the newest to the oldest, up to the first that handles the signal; then the
  default action is set, or the old actions come back when none did.
\<close>

lemma signal_asks_newest_first:
  assumes "signal_laws x t" "eh_inv orig t stacks live s" "live \<noteq> []" "sig \<in> set kExceptionSignals" "handlers_installed s"
    and "\<And>i s h. handle i (s, h) = Some (Inr (P i, (s, h @ [Q i])))"
  shows "\<exists>s' cs. SignalHandler_locked x handle sig (s, h) = Some (Inr (True, (s',
      h @ EhGetAction sig # map Q (takeWhile (\<lambda>i. \<not> P i) (rev live) @ take 1 (dropWhile (\<lambda>i. \<not> P i) (rev live))) @ cs))) \<and>
    actions s' = (if \<exists>i \<in> set live. P i then (actions s)(sig := default_action) else orig)"
proof -
  have siginfo: "\<not> (sa_fun (actions s sig) = BreakpadHandler \<and> \<not> sa_siginfo (actions s sig))"
    using assms(2,4,5) by (auto simp: eh_inv_def actions_inv_def breakpad_action_def default_action_def)
  have hs: "handler_stack s = Some live" and inv: "actions_inv orig s" using assms(2,3) by (simp_all add: eh_inv_def)
  let ?qs = "map Q (takeWhile (\<lambda>i. \<not> P i) (rev live) @ take 1 (dropWhile (\<lambda>i. \<not> P i) (rev live)))"
  let ?h = "(h @ [EhGetAction sig]) @ ?qs" and ?b = "\<exists>i \<in> set live. P i"
  have asked: "try_handlers handle (rev live) (s, h @ [EhGetAction sig]) = Some (Inr (?b, (s, ?h)))"
    using try_handlers_order [of handle P Q "rev live" s "h @ [EhGetAction sig]", OF assms(6)] by simp
  have pre: "SignalHandler_locked x handle sig (s, h) =
      pthen (if ?b then InstallDefaultHandler x sig else RestoreHandlersLocked x) (pret True) (s, ?h)"
    unfolding locked_walk [OF siginfo hs] by (simp only: pbind_def asked option.case sum.case prod.case)
  show ?thesis
  proof (cases ?b)
    case True
    then show ?thesis unfolding pre using law_simps(1) [OF assms(1)]
      by (simp only: if_True pthen_simp) (simp add: InstallDefaultHandler_def sys_set_action_def)
  next
    case False
    have grow: "\<exists>cs. h' = h @ cs" if "restore_handlers x i sigs (s, h) = Some (Inr ((), (s', h')))" for i sigs s h s' h'
      using that
    proof (induction sigs arbitrary: i s h)
      case (Cons sg sigs)
      then show ?case using law_simps(1) [OF assms(1)]
        by (fastforce simp: sys_set_action_def)
    qed simp
    from RestoreHandlersLocked_run [OF assms(1) inv, of ?h] obtain h2 where
      r: "RestoreHandlersLocked x (s, ?h) = Some (Inr ((), (s\<lparr>actions := orig, handlers_installed := False\<rparr>, h2)))" by blast
    then obtain cs where "h2 = ?h @ cs"
      using assms(5) grow by (fastforce simp: RestoreHandlersLocked_def pbind_iff)
    then show ?thesis unfolding pre using False r by (simp only: if_False pthen_simp) simp
  qed
qed

text \<open>
  Two faults of the sources. The alternate stack belongs to a thread, but the destructor of the last object
  frees its block whichever thread runs it: destroyed by another thread, the block is freed while the
  first thread still uses it. And a thread that has entered the signal handler and waits for the mutex while
  the last object is destroyed then walks a deleted stack of handlers.
\<close>

lemma stack_freed_in_use:
  assumes "\<forall>h c. 0 < x h c" "t \<noteq> t'"
    and "handler_stack s = None" "\<not> stack_installed s" "altstacks s = (\<lambda>_. no_stack)" "stack_blocks s = {}"
      "\<not> handlers_installed s" "length (old_handlers s) = 6"
  shows "\<exists>s' h'. eh_run x handle [NewHandler t i True, DeleteHandler t' i] (s, h) = Some (Inr ((), (s', h'))) \<and>
    ss_sp (altstacks s' t) \<noteq> 0 \<and> ss_sp (altstacks s' t) \<notin> stack_blocks s'"
proof -
  have laws: "signal_laws x t" using assms(1) by (auto simp: signal_laws_def intro: order.strict_implies_order)
  let ?p = "nat (x ((h @ [EhGetStack t])) (EhCalloc kSigStackSize))"
  have p: "?p \<noteq> 0" using assms(1) by (metis nat_0_iff not_less)
  let ?st = "\<lparr>ss_sp = ?p, ss_size = kSigStackSize\<rparr>"
  let ?s = "s\<lparr>handler_stack := Some []\<rparr>"
  have pos: "\<not> x h c < 0" "\<not> x h c \<le> 0" for h c using assms(1) by (meson not_less_iff_gr_or_eq less_trans, meson not_le)
  obtain h1 where r1: "InstallAlternateStackLocked x t (?s, h) = Some (Inr ((), (?s\<lparr>old_stack := no_stack, new_stack := ?st,
      stack_blocks := {?p}, altstacks := (\<lambda>_. no_stack)(t := ?st), stack_installed := True\<rparr>, h1)))"
    using assms pos p
    by (simp add: InstallAlternateStackLocked_def sys_get_stack_def stack_calloc_def sys_set_stack_def no_stack_def insert_Diff_if)
  let ?s1 = "?s\<lparr>old_stack := no_stack, new_stack := ?st, stack_blocks := {?p}, altstacks := (\<lambda>_. no_stack)(t := ?st), stack_installed := True\<rparr>"
  have "actions_inv (actions s) ?s1" using assms by (simp add: actions_inv_def)
  from InstallHandlersLocked_run [OF laws this, of h1] obtain r s2 h2 where
    r2: "InstallHandlersLocked x (?s1, h1) = Some (Inr (r, (s2, h2)))" "actions_inv (actions s) s2"
      "s2 = ?s1\<lparr>actions := actions s2, old_handlers := old_handlers s2, handlers_installed := handlers_installed s2\<rparr>" by blast
  have e2: "altstacks s2 = (\<lambda>_. no_stack)(t := ?st)" "stack_blocks s2 = {?p}" "new_stack s2 = ?st" "stack_installed s2" "handler_stack s2 = Some []"
    by (subst r2(3), simp)+
  have reg: "register_handler x t i True (s, h) = Some (Inr ((), (s2\<lparr>handler_stack := Some [i]\<rparr>, h2)))"
    using r1 r2(1) e2(5) assms(3) by (simp add: register_handler_def pbind_def)
  have alt: "RestoreAlternateStackLocked x t' (s2\<lparr>handler_stack := None\<rparr>, h2) =
      Some (Inr ((), (s2\<lparr>handler_stack := None, stack_blocks := {}, stack_installed := False\<rparr>, h2 @ [EhGetStack t', EhFree ?p])))"
    using e2 pos assms(2) p
    by (simp add: RestoreAlternateStackLocked_def sys_get_stack_def stack_free_def pool_simps no_stack_def)
  let ?s3 = "s2\<lparr>handler_stack := None, stack_blocks := {}, stack_installed := False\<rparr>"
  have "actions_inv (actions s) ?s3" using r2(2) actions_inv_cong [of ?s3 s2 "actions s"] by simp
  from RestoreHandlersLocked_run [OF laws this] obtain h3 where
    "RestoreHandlersLocked x (?s3, h2 @ [EhGetStack t', EhFree ?p]) = Some (Inr ((), (?s3\<lparr>actions := actions s, handlers_installed := False\<rparr>, h3)))" by blast
  then have "unregister_handler x t' i (s2\<lparr>handler_stack := Some [i]\<rparr>, h2) = Some (Inr ((), (?s3\<lparr>actions := actions s, handlers_installed := False\<rparr>, h3)))"
    using alt by (simp add: unregister_handler_def)
  then show ?thesis using reg e2(1) p by simp
qed

lemma signal_after_last_destructor:
  assumes "handler_stack s = None" "sa_fun (actions s sig) \<noteq> BreakpadHandler"
  shows "SignalHandler_locked x handle sig (s, h) = Some (Inl NullDeref)"
  using assms by (simp add: SignalHandler_locked_def sys_get_action_def split: bool.splits)

section \<open>Properties\<close>

text \<open>C16: The crash reporter leaves no trace: in every run in which handler objects are created and destroyed
  by one thread and signals are raised in between, nothing faults; after the last object is gone every signal has the
  action it had before the first, the thread has its old alternate stack and the block of the other is
  freed; and at any time an object is alive when a signal is directed to the reporter. The kernel is assumed to
  carry out what it is asked for (\<open>signal_laws\<close>: setting actions and stacks and allocating the
  stack succeed).\<close>

theorem handlers_restored:
  assumes "signal_laws x t" "handles_ok handle" "\<forall>sig. sa_fun (orig sig) \<noteq> BreakpadHandler" "ss_sp (stacks t) = 0 \<longrightarrow> stacks t = no_stack"
    and "actions s = orig" "altstacks s = stacks" "stack_blocks s = {}" "length (old_handlers s) = 6"
      "\<not> handlers_installed s" "\<not> stack_installed s" "handler_stack s = None"
    and "live_after t [] es = Some live"
  shows "\<exists>s' h'. eh_run x handle es (s, h) = Some (Inr ((), (s', h'))) \<and>
    handler_stack s' = (if live = [] then None else Some live) \<and>
    ((\<exists>sig. sa_fun (actions s' sig) = BreakpadHandler) \<longrightarrow> live \<noteq> []) \<and>
    (live = [] \<longrightarrow> actions s' = orig \<and> altstacks s' = stacks \<and> stack_blocks s' = {})"
proof -
  have "eh_inv orig t stacks [] s" using assms by (simp add: eh_inv_def actions_inv_def stacks_inv_def)
  from eh_run_ok [OF assms(1-4) this assms(12), of h] obtain s' h' where
    r: "eh_run x handle es (s, h) = Some (Inr ((), (s', h')))" "eh_inv orig t stacks live s'" by blast
  moreover have "actions s' = orig \<and> altstacks s' = stacks \<and> stack_blocks s' = {}" if "live = []"
    using r(2) that by (auto simp: eh_inv_def actions_inv_def stacks_inv_def)
  ultimately show ?thesis using assms(3) by (auto simp: eh_inv_def)
qed

text \<open>A process with default actions, and a kernel that grants everything.\<close>

definition demo_signals :: "eh_call ext" where
  "demo_signals h c = (case c of EhCalloc _ \<Rightarrow> 4096 | _ \<Rightarrow> 0)"

definition demo_process :: sig_state where
  "demo_process = \<lparr>actions = \<lambda>_. default_action, altstacks = \<lambda>_. no_stack, stack_blocks = {}, old_handlers = replicate 6 default_action,
     handlers_installed = False, old_stack = no_stack, new_stack = no_stack, stack_installed = False, handler_stack = None, first_chance = False\<rparr>"

lemma demo_process_simps:
  "\<forall>sig. sa_fun ((\<lambda>_. default_action) sig) \<noteq> BreakpadHandler" "ss_sp ((\<lambda>_. no_stack) 0) = 0 \<longrightarrow> (\<lambda>_. no_stack) 0 = no_stack"
  "actions demo_process = (\<lambda>_. default_action)" "altstacks demo_process = (\<lambda>_. no_stack)" "stack_blocks demo_process = {}"
  "length (old_handlers demo_process) = 6" "\<not> handlers_installed demo_process" "\<not> stack_installed demo_process"
  "handler_stack demo_process = None"
  by (simp_all add: demo_process_def default_action_def no_stack_def)

theorem handlers_restored_witness:
  "\<exists>s' h'. eh_run demo_signals (\<lambda>_. pret True) [NewHandler 0 7 True, Raise 11 1, DeleteHandler 0 7] (demo_process, []) = Some (Inr ((), (s', h'))) \<and>
     handler_stack s' = None \<and> actions s' = (\<lambda>_. default_action) \<and> stack_blocks s' = {}"
proof -
  have "signal_laws demo_signals 0" by (simp add: signal_laws_def demo_signals_def)
  moreover have "handles_ok (\<lambda>_. pret True :: (unit, bool) sigp)"
    unfolding handles_ok_def by (intro allI exI [of _ True]) simp
  moreover have "live_after 0 [] [NewHandler 0 7 True, Raise 11 1, DeleteHandler 0 7] = Some []" by simp
  ultimately have "\<exists>s' h'. eh_run demo_signals (\<lambda>_. pret True) [NewHandler 0 7 True, Raise 11 1, DeleteHandler 0 7] (demo_process, []) =
      Some (Inr ((), (s', h'))) \<and> handler_stack s' = (if ([] :: nat list) = [] then None else Some []) \<and>
      ((\<exists>sig. sa_fun (actions s' sig) = BreakpadHandler) \<longrightarrow> ([] :: nat list) \<noteq> []) \<and>
      (([] :: nat list) = [] \<longrightarrow> actions s' = (\<lambda>_. default_action) \<and> altstacks s' = (\<lambda>_. no_stack) \<and> stack_blocks s' = {})"
    using demo_process_simps by (intro handlers_restored)
  then show ?thesis by (elim exE conjE) (intro exI conjI, assumption, simp_all)
qed

end
