(* ===== verification/Minidump_Descriptor.thy ===== *)
theory Minidump_Descriptor
  imports Guid_Creator
begin

text \<open>
  Where a dump goes (\<open>breakpad/src/client/linux/handler/minidump_descriptor.cc\<close>, \<open>.h\<close>): a file in a directory,
  with a name that is made up when the dump is prepared, a descriptor, or the console.
\<close>

section \<open>Definitions\<close>

datatype DumpMode = kUninitialized | kWriteMinidumpToFile | kWriteMinidumpToFd | kWriteMicrodumpToConsole

record MicrodumpExtraInfo =
  build_fingerprint :: "string option"
  product_info :: "string option"
  gpu_fingerprint :: "string option"
  process_type :: "string option"

definition no_extra_info :: MicrodumpExtraInfo where
  "no_extra_info = \<lparr>build_fingerprint = None, product_info = None, gpu_fingerprint = None, process_type = None\<rparr>"

text \<open>\<open>c_path\<close> is the C string of \<open>path\<close>, \<open>None\<close> when the pointer is null.\<close>

record MinidumpDescriptor =
  mode :: DumpMode
  md_fd :: int
  md_directory :: string
  md_path :: string
  c_path :: "string option"
  size_limit :: int
  address_within_principal_mapping :: "32 word"
  skip_dump_if_principal_mapping_not_referenced :: bool
  sanitize_stacks :: bool
  microdump_extra_info :: MicrodumpExtraInfo

text \<open>The default constructor leaves two members as they are.\<close>

definition MinidumpDescriptor_default :: "string option \<Rightarrow> bool \<Rightarrow> MinidumpDescriptor" where
  "MinidumpDescriptor_default junk_path junk_sanitize =
     \<lparr>mode = kUninitialized, md_fd = - 1, md_directory = [], md_path = [], c_path = junk_path, size_limit = - 1,
      address_within_principal_mapping = 0, skip_dump_if_principal_mapping_not_referenced = False,
      sanitize_stacks = junk_sanitize, microdump_extra_info = no_extra_info\<rparr>"

definition MinidumpDescriptor_directory :: "string \<Rightarrow> MinidumpDescriptor res" where
  "MinidumpDescriptor_directory directory1 =
     (if directory1 = [] then Inl AssertFail
      else Inr \<lparr>mode = kWriteMinidumpToFile, md_fd = - 1, md_directory = directory1, md_path = [], c_path = None, size_limit = - 1,
        address_within_principal_mapping = 0, skip_dump_if_principal_mapping_not_referenced = False,
        sanitize_stacks = False, microdump_extra_info = no_extra_info\<rparr>)"

definition MinidumpDescriptor_fd :: "int \<Rightarrow> MinidumpDescriptor res" where
  "MinidumpDescriptor_fd fd1 =
     (if fd1 = - 1 then Inl AssertFail
      else Inr \<lparr>mode = kWriteMinidumpToFd, md_fd = fd1, md_directory = [], md_path = [], c_path = None, size_limit = - 1,
        address_within_principal_mapping = 0, skip_dump_if_principal_mapping_not_referenced = False,
        sanitize_stacks = False, microdump_extra_info = no_extra_info\<rparr>)"

definition MinidumpDescriptor_console :: MinidumpDescriptor where
  "MinidumpDescriptor_console =
     \<lparr>mode = kWriteMicrodumpToConsole, md_fd = - 1, md_directory = [], md_path = [], c_path = None, size_limit = - 1,
      address_within_principal_mapping = 0, skip_dump_if_principal_mapping_not_referenced = False,
      sanitize_stacks = False, microdump_extra_info = no_extra_info\<rparr>"

definition IsFD :: "MinidumpDescriptor \<Rightarrow> bool" where
  "IsFD d \<longleftrightarrow> mode d = kWriteMinidumpToFd"

definition IsMicrodumpOnConsole :: "MinidumpDescriptor \<Rightarrow> bool" where
  "IsMicrodumpOnConsole d \<longleftrightarrow> mode d = kWriteMicrodumpToConsole"

definition get_microdump_extra_info :: "MinidumpDescriptor \<Rightarrow> MicrodumpExtraInfo res" where
  "get_microdump_extra_info d = (if \<not> IsMicrodumpOnConsole d then Inl AssertFail else Inr (microdump_extra_info d))"

definition copy_descriptor :: "MinidumpDescriptor \<Rightarrow> MinidumpDescriptor res" where
  "copy_descriptor d = (if md_path d \<noteq> [] then Inl AssertFail else Inr (d\<lparr>md_path := [], c_path := None\<rparr>))"

text \<open>\<open>junk\<close>: the local array \<open>guid_str\<close>, of which the string up to the terminator is appended.\<close>

definition c_text :: "block \<Rightarrow> string" where
  "c_text b = map (\<lambda>c. char_of (unat c)) (takeWhile (\<lambda>c. c \<noteq> 0) b)"

definition UpdatePath :: "guid_call ext \<Rightarrow> (nat \<Rightarrow> byte) \<Rightarrow> 32 word \<Rightarrow> block \<Rightarrow> MinidumpDescriptor \<Rightarrow> MinidumpDescriptor gproc" where
  "UpdatePath x dat addr junk d =
     pthen (passert (mode d = kWriteMinidumpToFile \<and> md_directory d \<noteq> []))
     (pbind (CreateGUID x dat addr) (\<lambda>(ok, guid).
      pbind (if ok then plift (GUIDToString guid junk (kGUIDStringLength + 1)) else pret (False, junk)) (\<lambda>(ok, guid_str).
      pthen (passert ok)
        (let p = md_directory d @ ''/'' @ c_text guid_str @ ''.dmp'' in
         pret (d\<lparr>md_path := p, c_path := Some p\<rparr>)))))"

definition assign_descriptor ::
    "guid_call ext \<Rightarrow> (nat \<Rightarrow> byte) \<Rightarrow> 32 word \<Rightarrow> block \<Rightarrow> MinidumpDescriptor \<Rightarrow> MinidumpDescriptor \<Rightarrow> MinidumpDescriptor gproc" where
  "assign_descriptor x dat addr junk self d =
     pthen (passert (md_path d = []))
     (let self1 = self\<lparr>mode := mode d, md_fd := md_fd d, md_directory := md_directory d, md_path := []\<rparr> in
      pbind (if c_path self1 \<noteq> None then UpdatePath x dat addr junk (self1\<lparr>c_path := None\<rparr>) else pret self1) (\<lambda>self2.
        pret (self2\<lparr>size_limit := size_limit d, address_within_principal_mapping := address_within_principal_mapping d,
          skip_dump_if_principal_mapping_not_referenced := skip_dump_if_principal_mapping_not_referenced d,
          sanitize_stacks := sanitize_stacks d, microdump_extra_info := microdump_extra_info d\<rparr>)))"

section \<open>Paths of dumps\<close>

text \<open>The path of the dump of an identifier in a directory.\<close>

definition guid_dump_path :: "string \<Rightarrow> GUID \<Rightarrow> string" where
  "guid_dump_path dir g = dir @ ''/'' @ guid_text g @ ''.dmp''"

lemma c_text_guid: "c_text (map of_char (guid_text g) @ 0 # rest) = guid_text g"
proof -
  have "takeWhile (\<lambda>c. c \<noteq> 0) (map of_char (guid_text g) @ 0 # rest) = map (of_char :: char \<Rightarrow> byte) (guid_text g)"
    using guid_text_nonzero [of g] by (subst takeWhile_append2) auto
  moreover have "char_of (unat (of_char c :: byte)) = c" for c
  proof -
    have "(of_char c :: byte) = of_nat (of_char c)" by (simp only: of_nat_of_char)
    then have "unat (of_char c :: byte) = of_char c" by (simp add: unat_of_nat del: of_nat_of_char)
    then show ?thesis by simp
  qed
  ultimately show ?thesis by (simp add: c_text_def map_idI)
qed

text \<open>What the creation of an identifier relies on: reads that end and fit, and its memory.\<close>

definition guid_laws :: "guid_call ext \<Rightarrow> guid_state \<Rightarrow> bool" where
  "guid_laws x s \<longleftrightarrow> (\<forall>fd. settles x (GRead fd)) \<and> (\<forall>h fd. x h (GRead fd) \<le> 16) \<and> length (g_mem s) = 16"

lemma UpdatePath_run:
  assumes "guid_laws x s" "length junk = 37" "mode d = kWriteMinidumpToFile" "md_directory d \<noteq> []"
  shows "\<exists>g s' h'. UpdatePath x dat addr junk d (s, h) =
      Some (Inr (d\<lparr>md_path := guid_dump_path (md_directory d) g, c_path := Some (guid_dump_path (md_directory d) g)\<rparr>, (s', h'))) \<and>
    guid_ok g \<and> rfc4122_v4 g \<and> guid_laws x s'"
proof -
  from assms(1) CreateGUID_run [of x s dat addr h] obtain g s' cs where
    c: "CreateGUID x dat addr (s, h) = Some (Inr ((True, g), s', h @ cs))" "guid_ok g" "rfc4122_v4 g" "length (g_mem s') = 16"
    by (auto simp: guid_laws_def)
  have "GUIDToString g junk 37 = Inr (True, map of_char (guid_text g) @ 0 # drop 37 junk)"
    using assms(2) by (intro GUIDToString_ok) auto
  then show ?thesis using c assms c_text_guid [of g "drop 37 junk"]
    by (intro exI [of _ g]) (simp add: UpdatePath_def pbind_def guid_dump_path_def guid_laws_def Let_def)
qed

text \<open>Different identifiers give different paths, and the identifier can be read from the path.\<close>

lemma guid_dump_path_inj:
  assumes "guid_ok g" "guid_ok g'" "guid_dump_path dir g = guid_dump_path dir g'"
  shows "g = g'"
proof -
  have "guid_text g = guid_text g'" using assms(3) by (simp add: guid_dump_path_def)
  then show ?thesis using read_guid_text [OF assms(1), of "[]"] read_guid_text [OF assms(2), of "[]"] by metis
qed

section \<open>Properties\<close>

text \<open>Assigning a descriptor: for a source without a path of its own, the assignment fails its assertion exactly when the
  target already has a path and the source does not name a directory; otherwise the target becomes a
  copy of the source that has a path exactly when it had one before, and the new path names the dump of a fresh
  version 4 identifier in the directory of the source.\<close>

lemma assign_descriptor_outcome:
  assumes "guid_laws x s" "length junk = 37" "md_path d = []"
  shows "if c_path self \<noteq> None \<and> \<not> (mode d = kWriteMinidumpToFile \<and> md_directory d \<noteq> [])
    then assign_descriptor x dat addr junk self d (s, h) = Some (Inl AssertFail)
    else \<exists>d' s' h'. assign_descriptor x dat addr junk self d (s, h) = Some (Inr (d', (s', h'))) \<and>
      d'\<lparr>md_path := [], c_path := c_path d\<rparr> = d \<and>
      (c_path self = None \<longrightarrow> md_path d' = [] \<and> c_path d' = None) \<and>
      (c_path self \<noteq> None \<longrightarrow> (\<exists>g. rfc4122_v4 g \<and> guid_ok g \<and> md_path d' = guid_dump_path (md_directory d) g \<and> c_path d' = Some (md_path d')))"
proof -
  let ?self = "self\<lparr>mode := mode d, md_fd := md_fd d, md_directory := md_directory d, md_path := []\<rparr>"
  let ?bad = "c_path self \<noteq> None \<and> \<not> (mode d = kWriteMinidumpToFile \<and> md_directory d \<noteq> [])"
  have eq: "assign_descriptor x dat addr junk self d (s, h) =
      pbind (if c_path self \<noteq> None then UpdatePath x dat addr junk (?self\<lparr>c_path := None\<rparr>) else pret ?self) (\<lambda>self2.
        pret (self2\<lparr>size_limit := size_limit d, address_within_principal_mapping := address_within_principal_mapping d,
          skip_dump_if_principal_mapping_not_referenced := skip_dump_if_principal_mapping_not_referenced d,
          sanitize_stacks := sanitize_stacks d, microdump_extra_info := microdump_extra_info d\<rparr>)) (s, h)"
    using assms(3) by (simp add: assign_descriptor_def Let_def del: p_if)
  consider (bad) ?bad | (none) "c_path self = None" | (path) "\<not> ?bad" "c_path self \<noteq> None" by blast
  then show ?thesis
  proof cases
    case bad
    then have "UpdatePath x dat addr junk (?self\<lparr>c_path := None\<rparr>) (s, h) = Some (Inl AssertFail)" by (auto simp: UpdatePath_def)
    then show ?thesis unfolding eq using bad by (simp add: pbind_def)
  next
    case none
    then show ?thesis unfolding eq using none assms(3) by simp
  next
    case path
    from UpdatePath_run [OF assms(1,2), of "?self\<lparr>c_path := None\<rparr>" dat addr h] path obtain g s' h' where
      "UpdatePath x dat addr junk (?self\<lparr>c_path := None\<rparr>) (s, h) =
        Some (Inr (?self\<lparr>c_path := None, md_path := guid_dump_path (md_directory d) g, c_path := Some (guid_dump_path (md_directory d) g)\<rparr>, (s', h')))"
      "guid_ok g" "rfc4122_v4 g" by auto
    then show ?thesis unfolding eq using path assms(3) by (fastforce simp: pbind_def)
  qed
qed

text \<open>A descriptor number assigned to a descriptor that has the path of a file.\<close>

definition demo_target :: MinidumpDescriptor where
  "demo_target = MinidumpDescriptor_console\<lparr>mode := kWriteMinidumpToFile, md_directory := ''/d'', md_path := ''/d/1.dmp'', c_path := Some ''/d/1.dmp''\<rparr>"

theorem assign_descriptor_outcome_witness:
  "\<exists>d s. MinidumpDescriptor_fd 3 = Inr d \<and>
     assign_descriptor no_urandom (\<lambda>_. 0) 0 (replicate 37 0) demo_target d (s, []) = Some (Inl AssertFail)"
proof -
  let ?s = "\<lparr>g_mem = replicate 16 0, once_done = False\<rparr>"
  let ?d = "MinidumpDescriptor_console\<lparr>mode := kWriteMinidumpToFd, md_fd := 3\<rparr>"
  have d: "MinidumpDescriptor_fd 3 = Inr ?d" by (simp add: MinidumpDescriptor_fd_def MinidumpDescriptor_console_def)
  have "guid_laws no_urandom ?s" by (simp add: guid_laws_def no_urandom_def settles_def)
  moreover have "md_path ?d = []" by (simp add: MinidumpDescriptor_console_def)
  ultimately have "assign_descriptor no_urandom (\<lambda>_. 0) 0 (replicate 37 0) demo_target ?d (?s, []) = Some (Inl AssertFail)"
    using assign_descriptor_outcome [of no_urandom ?s "replicate 37 0" ?d demo_target "\<lambda>_. 0" 0 "[]"]
    by (simp add: demo_target_def)
  with d show ?thesis by blast
qed

end
