(* ===== verification/Linux_Mappings.thy ===== *)
theory Linux_Mappings
  imports Libc_Support
begin

text \<open>
  The mappings of a crashed process and what the dumper derives from them: lookup, the part of a stack that
  is dumped and the removal of private data from its copy
  (\<open>breakpad/src/client/linux/minidump_writer/linux_dumper.cc\<close>). Addresses and sizes are 32-bit words.
\<close>

unbundle bit_operations_syntax

section \<open>Mappings\<close>

type_synonym addr = "32 word"

abbreviation (input) NAME_MAX :: nat where "NAME_MAX \<equiv> 255"

record MappingInfo =
  start_addr :: addr
  m_size :: addr
  sys_start :: addr       \<comment> \<open>\<open>system_mapping_info.start_addr\<close>\<close>
  sys_end :: addr         \<comment> \<open>\<open>system_mapping_info.end_addr\<close>\<close>
  m_offset :: addr
  m_exec :: bool
  m_name :: block         \<comment> \<open>\<open>NAME_MAX\<close> bytes\<close>

definition MappingContainsAddress :: "MappingInfo \<Rightarrow> addr \<Rightarrow> bool" where
  "MappingContainsAddress m a \<longleftrightarrow> sys_start m \<le> a \<and> a < sys_end m"

definition FindMapping :: "MappingInfo list \<Rightarrow> addr \<Rightarrow> MappingInfo option" where
  "FindMapping ms a = find (\<lambda>m. a \<ge> start_addr m \<and> a - start_addr m < m_size m) ms"

definition FindMappingNoBias :: "MappingInfo list \<Rightarrow> addr \<Rightarrow> MappingInfo option" where
  "FindMappingNoBias ms a = find (\<lambda>m. a \<ge> sys_start m \<and> a < sys_end m) ms"

section \<open>The part of the stack to dump\<close>

abbreviation (input) kStackToCapture :: int where "kStackToCapture \<equiv> 32 * 1024"

text \<open>The start and the length of the part; differences of pointers are signed.\<close>

definition GetStackInfo :: "MappingInfo list \<Rightarrow> addr \<Rightarrow> addr \<Rightarrow> (addr \<times> addr) option res" where
  "GetStackInfo ms page_size int_stack_pointer =
     (let stack_pointer = int_stack_pointer AND NOT (page_size - 1) in
      case FindMapping ms stack_pointer of
        None \<Rightarrow> Inr None
      | Some m \<Rightarrow>
          (let offset = sint (stack_pointer - start_addr m) in
           res_bind (c_int (sint (m_size m) - offset)) (\<lambda>distance_to_end.
             Inr (Some (stack_pointer, of_int (if distance_to_end > kStackToCapture then kStackToCapture else distance_to_end))))))"

section \<open>Removing private data\<close>

abbreviation (input) defaced :: nat where "defaced \<equiv> 0x0defaced"

text \<open>The bit field: which top bits of an address occur in an executable mapping.\<close>

function set_bits :: "nat \<Rightarrow> nat \<Rightarrow> block \<Rightarrow> block" where
  "set_bits b e arr =
     (if b \<le> e then set_bits (b + 1) e (arr[b div 8 mod 256 := arr ! (b div 8 mod 256) OR push_bit (b mod 8) 1]) else arr)"
  by pat_completeness auto
termination by (relation "measure (\<lambda>(b, e, arr). e + 1 - b)") auto

declare set_bits.simps [simp del]

definition mark_mapping :: "block \<Rightarrow> MappingInfo \<Rightarrow> block" where
  "mark_mapping arr m =
     (if m_exec m then set_bits (unat (drop_bit 21 (start_addr m))) (unat (drop_bit 21 (start_addr m + m_size m))) arr else arr)"

definition could_hit_mapping :: "MappingInfo list \<Rightarrow> block" where
  "could_hit_mapping ms = foldl mark_mapping (replicate 256 0) ms"

definition could_hit :: "block \<Rightarrow> addr \<Rightarrow> bool" where
  "could_hit arr a = (let test = unat (drop_bit 21 a) in bit (arr ! (test div 8 mod 256)) (test mod 8))"

text \<open>A word of the stack copy; the signed value below which it is a small integer.\<close>

definition word_at :: "block \<Rightarrow> nat \<Rightarrow> addr" where
  "word_at copy pos = of_nat (le_nat (take 4 (drop pos copy)))"

definition small_int :: "addr \<Rightarrow> bool" where
  "small_int a \<longleftrightarrow> sint a \<le> 4096 \<and> sint a \<ge> - 4096"

definition in_mapping :: "MappingInfo option \<Rightarrow> addr \<Rightarrow> bool" where
  "in_mapping mo a = (case mo of None \<Rightarrow> False | Some m \<Rightarrow> MappingContainsAddress m a)"

text \<open>The loop over the words: the position where it stops and the new copy.\<close>

function sanitize_words ::
    "block \<Rightarrow> MappingInfo list \<Rightarrow> MappingInfo option \<Rightarrow> MappingInfo option \<Rightarrow> nat \<Rightarrow> nat \<Rightarrow> block \<Rightarrow> (nat \<times> block) res" where
  "sanitize_words arr ms stack_mapping last_hit len pos copy =
     (if int pos \<le> int len - 4 then
        (if length copy < pos + 4 then Inl OutOfBounds
         else
           (let a = word_at copy pos;
                hit = (if could_hit arr a then FindMappingNoBias ms a else None) in
            if small_int a \<or> in_mapping stack_mapping a \<or> in_mapping last_hit a
            then sanitize_words arr ms stack_mapping last_hit len (pos + 4) copy
            else if hit \<noteq> None \<and> m_exec (the hit)
            then sanitize_words arr ms stack_mapping hit len (pos + 4) copy
            else sanitize_words arr ms stack_mapping last_hit len (pos + 4)
                   (take pos copy @ le_bytes 4 defaced @ drop (pos + 4) copy)))
      else Inr (pos, copy))"
  by pat_completeness auto
termination by (relation "measure (\<lambda>(arr, ms, st, l, len, pos, copy). len + 4 - pos)") auto

declare sanitize_words.simps [simp del]

definition word_align :: "addr \<Rightarrow> addr" where
  "word_align off = (off + 3) AND NOT 3"

definition SanitizeStackCopy :: "MappingInfo list \<Rightarrow> block \<Rightarrow> nat \<Rightarrow> addr \<Rightarrow> addr \<Rightarrow> block res" where
  "SanitizeStackCopy ms stack_copy stack_len stack_pointer sp_offset =
     (let offset = unat (word_align sp_offset) in
      res_bind (if offset \<noteq> 0 then my_memset 0 0 offset stack_copy else Inr stack_copy) (\<lambda>copy.
      res_bind (sanitize_words (could_hit_mapping ms) ms (FindMappingNoBias ms stack_pointer) None stack_len offset copy) (\<lambda>(sp, copy).
        if sp < stack_len then my_memset sp 0 (stack_len - sp) copy else Inr copy)))"

function scan_words :: "addr \<Rightarrow> addr \<Rightarrow> nat \<Rightarrow> nat \<Rightarrow> block \<Rightarrow> bool res" where
  "scan_words low_addr high_addr len pos copy =
     (if int pos \<le> int len - 4 then
        (if length copy < pos + 4 then Inl OutOfBounds
         else if low_addr \<le> word_at copy pos \<and> word_at copy pos \<le> high_addr then Inr True
         else scan_words low_addr high_addr len (pos + 4) copy)
      else Inr False)"
  by pat_completeness auto
termination by (relation "measure (\<lambda>(l, h, len, pos, copy). len + 4 - pos)") auto

declare scan_words.simps [simp del]

definition StackHasPointerToMapping :: "block \<Rightarrow> nat \<Rightarrow> addr \<Rightarrow> MappingInfo \<Rightarrow> bool res" where
  "StackHasPointerToMapping stack_copy stack_len sp_offset m =
     scan_words (sys_start m) (sys_end m) stack_len (unat (word_align sp_offset)) stack_copy"

section \<open>Reference definitions\<close>

text \<open>
  The mappings the kernel reports are disjoint; the biased range of an executable mapping covers the
  range the kernel reported and does not wrap around.
\<close>

definition mapping_ok :: "MappingInfo \<Rightarrow> bool" where
  "mapping_ok m \<longleftrightarrow> (m_exec m \<longrightarrow> unat (start_addr m) \<le> unat (sys_start m) \<and>
     unat (sys_end m) \<le> unat (start_addr m) + unat (m_size m) \<and> unat (start_addr m) + unat (m_size m) < 2 ^ 32)"

definition mappings_ok :: "MappingInfo list \<Rightarrow> bool" where
  "mappings_ok ms \<longleftrightarrow> (\<forall>m \<in> set ms. mapping_ok m) \<and>
     (\<forall>m \<in> set ms. \<forall>m' \<in> set ms. m = m' \<or> sys_end m \<le> sys_start m' \<or> sys_end m' \<le> sys_start m)"

text \<open>The words that may stay: small integers, pointers into the stack and pointers to code.\<close>

definition may_stay :: "MappingInfo list \<Rightarrow> addr \<Rightarrow> addr \<Rightarrow> bool" where
  "may_stay ms stack_pointer a \<longleftrightarrow> small_int a \<or>
     (\<exists>m \<in> set ms. MappingContainsAddress m a \<and> (m_exec m \<or> MappingContainsAddress m stack_pointer))"

fun deface_words :: "(addr \<Rightarrow> bool) \<Rightarrow> byte list \<Rightarrow> byte list" where
  "deface_words k (a # b # c # d # bs) =
     (if k (of_nat (le_nat [a, b, c, d])) then [a, b, c, d] else le_bytes 4 defaced) @ deface_words k bs"
| "deface_words k bs = replicate (length bs) 0"

section \<open>The bit field\<close>

lemma set_bits_length [simp]: "length (set_bits b e arr) = length arr"
  by (induction b e arr rule: set_bits.induct) (subst set_bits.simps, simp)

lemma set_bits_bit:
  assumes "length arr = 256" "e < 2048" "i < 256" "k < 8"
  shows "bit (set_bits b e arr ! i) k \<longleftrightarrow> bit (arr ! i) k \<or> (b \<le> 8 * i + k \<and> 8 * i + k \<le> e)"
  using assms
proof (induction b e arr rule: set_bits.induct)
  case (1 b e arr)
  show ?case
  proof (cases "b \<le> e")
    case True
    let ?j = "b div 8 mod 256"
    have j: "?j = b div 8" "?j < 256" using True 1 by auto
    let ?arr = "arr[?j := arr ! ?j OR push_bit (b mod 8) 1]"
    have here: "bit (?arr ! i) k \<longleftrightarrow> bit (arr ! i) k \<or> b = 8 * i + k"
    proof (cases "i = ?j")
      case i: True
      have "(b = 8 * i + k) = (b mod 8 = k)" unfolding i j(1) using div_mult_mod_eq [of b 8] by linarith
      then show ?thesis using i j(2) 1 by (auto simp: bit_simps)
    next
      case False
      then have "b \<noteq> 8 * i + k" using j(1) 1 by auto
      then show ?thesis using False by simp
    qed
    have "bit (set_bits b e arr ! i) k = bit (set_bits (b + 1) e ?arr ! i) k"
      using True by (subst set_bits.simps) simp
    also have "\<dots> \<longleftrightarrow> bit (?arr ! i) k \<or> (b + 1 \<le> 8 * i + k \<and> 8 * i + k \<le> e)" using 1 True by simp
    finally show ?thesis using here True by auto
  next
    case False
    then show ?thesis by (subst set_bits.simps) auto
  qed
qed

lemma top_bits: "unat (drop_bit 21 (a :: addr)) = unat a div 2097152"
  unfolding unat_drop_bit_eq by (simp add: drop_bit_eq_div)

lemma top_bits_small: "unat (drop_bit 21 (a :: addr)) < 2048"
proof -
  have "unat a < 2 ^ 32" using unsigned_less [of a] by simp
  then show ?thesis by (simp add: top_bits)
qed

lemma could_hit_iff:
  "length arr = 256 \<Longrightarrow> could_hit (mark_mapping arr m) a \<longleftrightarrow> could_hit arr a \<or> (m_exec m \<and>
     drop_bit 21 (start_addr m) \<le> drop_bit 21 a \<and> drop_bit 21 a \<le> drop_bit 21 (start_addr m + m_size m))"
  using top_bits_small [of a] top_bits_small [of "start_addr m + m_size m"]
  by (auto simp: could_hit_def mark_mapping_def Let_def set_bits_bit word_le_nat_alt)

lemma mark_mapping_length [simp]: "length (mark_mapping arr m) = length arr"
  by (simp add: mark_mapping_def)

text \<open>An address in an executable mapping passes the test.\<close>

lemma could_hit_fold:
  "length arr = 256 \<Longrightarrow> could_hit (foldl mark_mapping arr ms) a \<longleftrightarrow> could_hit arr a \<or> (\<exists>m \<in> set ms. m_exec m \<and>
     drop_bit 21 (start_addr m) \<le> drop_bit 21 a \<and> drop_bit 21 a \<le> drop_bit 21 (start_addr m + m_size m))"
  by (induction ms arbitrary: arr) (auto simp: could_hit_iff)

lemma could_hit_mapping_sound:
  assumes "m \<in> set ms" "mapping_ok m" "m_exec m" "MappingContainsAddress m a"
  shows "could_hit (could_hit_mapping ms) a"
proof -
  have "unat (start_addr m) \<le> unat a" "unat a \<le> unat (start_addr m) + unat (m_size m)"
    "unat (start_addr m) + unat (m_size m) < 2 ^ 32"
    using assms(2-4) by (auto simp: mapping_ok_def MappingContainsAddress_def word_le_nat_alt word_less_nat_alt)
  then have "unat (start_addr m) \<le> unat a" "unat a \<le> unat (start_addr m + m_size m)" by (simp_all add: unat_word_ariths)
  then have "drop_bit 21 (start_addr m) \<le> drop_bit 21 a" "drop_bit 21 a \<le> drop_bit 21 (start_addr m + m_size m)"
    by (simp_all add: word_le_nat_alt top_bits div_le_mono)
  with assms(1,3) show ?thesis unfolding could_hit_mapping_def by (subst could_hit_fold) auto
qed

section \<open>The decision for a word\<close>

lemma FindMappingNoBias_unique:
  assumes "mappings_ok ms" "m \<in> set ms" "MappingContainsAddress m a"
  shows "FindMappingNoBias ms a = Some m"
proof -
  have "FindMappingNoBias ms a \<noteq> None"
    using assms(2,3) by (auto simp: FindMappingNoBias_def MappingContainsAddress_def find_None_iff)
  then obtain m' where m': "FindMappingNoBias ms a = Some m'" by blast
  then have "m' \<in> set ms" "MappingContainsAddress m' a"
    by (auto simp: FindMappingNoBias_def MappingContainsAddress_def find_Some_iff)
  with assms have "m' = m" by (fastforce simp: mappings_ok_def MappingContainsAddress_def)
  with m' show ?thesis by simp
qed

lemma FindMappingNoBias_Some:
  "FindMappingNoBias ms a = Some m \<Longrightarrow> m \<in> set ms \<and> MappingContainsAddress m a"
  by (auto simp: FindMappingNoBias_def MappingContainsAddress_def find_Some_iff)

lemma word_decision:
  assumes "mappings_ok ms" "\<forall>m. last_hit = Some m \<longrightarrow> m \<in> set ms \<and> m_exec m"
    and "hit = (if could_hit (could_hit_mapping ms) a then FindMappingNoBias ms a else None)"
  shows "small_int a \<or> in_mapping (FindMappingNoBias ms sp) a \<or> in_mapping last_hit a \<or> (hit \<noteq> None \<and> m_exec (the hit)) \<longleftrightarrow>
    may_stay ms sp a"
proof -
  have st: "in_mapping (FindMappingNoBias ms sp) a \<longleftrightarrow> (\<exists>m \<in> set ms. MappingContainsAddress m a \<and> MappingContainsAddress m sp)"
  proof
    assume "in_mapping (FindMappingNoBias ms sp) a"
    then obtain m where "FindMappingNoBias ms sp = Some m" "MappingContainsAddress m a"
      by (auto simp: in_mapping_def split: option.splits)
    then show "\<exists>m \<in> set ms. MappingContainsAddress m a \<and> MappingContainsAddress m sp" using FindMappingNoBias_Some by blast
  next
    assume "\<exists>m \<in> set ms. MappingContainsAddress m a \<and> MappingContainsAddress m sp"
    then show "in_mapping (FindMappingNoBias ms sp) a"
      using FindMappingNoBias_unique [OF assms(1)] by (auto simp: in_mapping_def)
  qed
  have hit: "(hit \<noteq> None \<and> m_exec (the hit)) \<longleftrightarrow> (\<exists>m \<in> set ms. MappingContainsAddress m a \<and> m_exec m)"
  proof
    assume "hit \<noteq> None \<and> m_exec (the hit)"
    then show "\<exists>m \<in> set ms. MappingContainsAddress m a \<and> m_exec m"
      using FindMappingNoBias_Some assms(3) by (metis option.collapse)
  next
    assume "\<exists>m \<in> set ms. MappingContainsAddress m a \<and> m_exec m"
    then obtain m where m: "m \<in> set ms" "MappingContainsAddress m a" "m_exec m" by blast
    then have "could_hit (could_hit_mapping ms) a" using assms(1) could_hit_mapping_sound by (auto simp: mappings_ok_def)
    then show "hit \<noteq> None \<and> m_exec (the hit)" using assms(3) m FindMappingNoBias_unique [OF assms(1) m(1,2)] by simp
  qed
  have lst: "in_mapping last_hit a \<Longrightarrow> \<exists>m \<in> set ms. MappingContainsAddress m a \<and> m_exec m"
    using assms(2) by (auto simp: in_mapping_def split: option.splits)
  show ?thesis using lst unfolding st hit may_stay_def by blast
qed

section \<open>The loop\<close>

lemma sanitize_words_step:
  assumes "pos + 4 \<le> len" "pos + 4 \<le> length copy" "word_at copy pos = v"
    and "hit = (if could_hit arr v then FindMappingNoBias ms v else None)"
  shows "sanitize_words arr ms st l len pos copy =
    (if small_int v \<or> in_mapping st v \<or> in_mapping l v then sanitize_words arr ms st l len (pos + 4) copy
     else if hit \<noteq> None \<and> m_exec (the hit) then sanitize_words arr ms st hit len (pos + 4) copy
     else sanitize_words arr ms st l len (pos + 4) (take pos copy @ le_bytes 4 defaced @ drop (pos + 4) copy))"
proof -
  have c: "int pos \<le> int len - 4" "\<not> length copy < pos + 4" using assms(1,2) by auto
  show ?thesis by (subst sanitize_words.simps) (simp only: c if_True if_False Let_def assms(3) assms(4) [symmetric])
qed

lemma sanitize_words_end: "len < pos + 4 \<Longrightarrow> sanitize_words arr ms st l len pos copy = Inr (pos, copy)"
  by (subst sanitize_words.simps) auto

lemma sanitize_words_run:
  assumes "mappings_ok ms" "\<forall>m. last_hit = Some m \<longrightarrow> m \<in> set ms \<and> m_exec m" "length pre + length bs = len"
  shows "\<exists>pos out. sanitize_words (could_hit_mapping ms) ms (FindMappingNoBias ms sp) last_hit len (length pre) (pre @ bs) = Inr (pos, out) \<and>
    length out = len \<and> pos \<le> len \<and> take pos out @ replicate (len - pos) 0 = pre @ deface_words (may_stay ms sp) bs"
    (is "\<exists>pos out. ?run last_hit pre bs = _ \<and> _")
  using assms(2,3)
proof (induction "may_stay ms sp" bs arbitrary: pre last_hit rule: deface_words.induct)
  case (1 a b c d bs)
  define v :: addr where "v = of_nat (le_nat [a, b, c, d])"
  define hit where "hit = (if could_hit (could_hit_mapping ms) v then FindMappingNoBias ms v else None)"
  have at: "word_at (pre @ a # b # c # d # bs) (length pre) = v" by (simp add: word_at_def v_def)
  have l: "length pre + 4 \<le> len" "length pre + 4 \<le> length (pre @ a # b # c # d # bs)" using 1(3) by simp_all
  note step = sanitize_words_step [OF l at hit_def, of "FindMappingNoBias ms sp" last_hit]
  note dec = word_decision [OF assms(1) 1(2) hit_def, of sp]
  let ?out = "if may_stay ms sp v then [a, b, c, d] else le_bytes 4 defaced"
  have next1: "\<exists>last'. (\<forall>m. last' = Some m \<longrightarrow> m \<in> set ms \<and> m_exec m) \<and> ?run last_hit pre (a # b # c # d # bs) = ?run last' (pre @ ?out) bs"
  proof (cases "small_int v \<or> in_mapping (FindMappingNoBias ms sp) v \<or> in_mapping last_hit v")
    case True
    then have "may_stay ms sp v" using dec by blast
    then show ?thesis using True step 1(2) by (intro exI [of _ last_hit]) (simp add: eval_nat_numeral)
  next
    case no: False
    show ?thesis
    proof (cases "hit \<noteq> None \<and> m_exec (the hit)")
      case True
      then have "may_stay ms sp v" using dec by blast
      moreover have "\<forall>m. hit = Some m \<longrightarrow> m \<in> set ms \<and> m_exec m" using True FindMappingNoBias_Some unfolding hit_def by auto
      ultimately show ?thesis using True no step by (intro exI [of _ hit]) (simp add: eval_nat_numeral del: le_bytes.simps)
    next
      case False
      then have "\<not> may_stay ms sp v" using dec no by blast
      then show ?thesis using step [unfolded if_not_P [OF no] if_not_P [OF False]] 1(2)
        by (intro exI [of _ last_hit]) (simp del: le_bytes.simps)
    qed
  qed
  then obtain last' where last': "\<forall>m. last' = Some m \<longrightarrow> m \<in> set ms \<and> m_exec m"
    "?run last_hit pre (a # b # c # d # bs) = ?run last' (pre @ ?out) bs" by blast
  have "length (pre @ ?out) + length bs = len" using 1(3) by simp
  from 1(1) [OF last'(1) this] show ?case unfolding last'(2) by (simp add: v_def del: le_bytes.simps le_nat.simps)
qed (auto simp: sanitize_words_end numeral_eq_Suc)

section \<open>The part of the stack\<close>

lemma FindMapping_Some:
  assumes "FindMapping ms a = Some m"
  shows "m \<in> set ms \<and> unat (start_addr m) \<le> unat a \<and> unat a - unat (start_addr m) < unat (m_size m)"
proof -
  have "m \<in> set ms" "a \<ge> start_addr m" "a - start_addr m < m_size m"
    using assms by (auto simp: FindMapping_def find_Some_iff)
  then show ?thesis by (simp add: word_le_nat_alt word_less_nat_alt unat_sub)
qed

text \<open>
  The dumped part lies inside the mapping, is not empty and has at most 32 KiB, for mappings of less than
  2 GiB. A larger mapping makes the signed distance negative and the length wraps around.
\<close>

lemma stack_info_in_mapping:
  assumes "\<forall>m \<in> set ms. unat (m_size m) < 2147483648"
    and "sp AND NOT (page_size - 1) = p"
  shows "case GetStackInfo ms page_size sp of
      Inl _ \<Rightarrow> False
    | Inr None \<Rightarrow> FindMapping ms p = None
    | Inr (Some (stack, len)) \<Rightarrow> stack = p \<and> 0 < unat len \<and> unat len \<le> 32768 \<and>
        (\<exists>m \<in> set ms. unat (start_addr m) \<le> unat p \<and> unat p + unat len \<le> unat (start_addr m) + unat (m_size m))"
proof (cases "FindMapping ms p")
  case None
  then show ?thesis using assms(2) by (simp add: GetStackInfo_def)
next
  case (Some m)
  note F = FindMapping_Some [OF Some]
  have size: "unat (m_size m) < 2147483648" using assms(1) F by blast
  have off: "unat (p - start_addr m) = unat p - unat (start_addr m)" using F by (simp add: unat_sub word_le_nat_alt)
  let ?d = "int (unat (m_size m)) - int (unat p - unat (start_addr m))"
  have s: "sint (p - start_addr m) = int (unat p - unat (start_addr m))" "sint (m_size m) = int (unat (m_size m))"
    using sint_small_nat [of "p - start_addr m"] sint_small_nat [of "m_size m"] off F size by linarith+
  have d: "0 < ?d" "?d \<le> 2147483647" using F size by linarith+
  let ?l = "if 32768 < ?d then 32768 else ?d"
  have "unat (of_int ?l :: addr) = nat ?l" using d by (intro unat_of_int32) auto
  moreover have "s \<le> q \<Longrightarrow> q - s < z \<Longrightarrow> l = (if 32768 < int z - int (q - s) then 32768 else int z - int (q - s)) \<Longrightarrow>
      0 < nat l \<and> nat l \<le> 32768 \<and> q + nat l \<le> s + z" for q s z :: nat and l :: int by auto
  then have "0 < nat ?l" "nat ?l \<le> 32768" "unat p + nat ?l \<le> unat (start_addr m) + unat (m_size m)" using F by blast+
  moreover have "GetStackInfo ms page_size sp = Inr (Some (p, of_int ?l))"
    using Some s d assms(2) by (simp add: GetStackInfo_def Let_def)
  ultimately show ?thesis using F by auto
qed

lemma large_mapping_stack_length:
  "GetStackInfo [\<lparr>start_addr = 0x1000, m_size = 0x90000000, sys_start = 0x1000, sys_end = 0x90001000, m_offset = 0, m_exec = False, m_name = []\<rparr>]
     0x1000 0x2000 = Inr (Some (0x2000, 0x8ffff000))"
  by (simp add: GetStackInfo_def FindMapping_def Let_def)

text \<open>The search for pointers into a mapping; the end of the range counts as inside.\<close>

lemma scan_words_iff:
  assumes "len \<le> length copy"
  shows "scan_words lo hi len pos copy = Inr (\<exists>i. pos + 4 * i + 4 \<le> len \<and> lo \<le> word_at copy (pos + 4 * i) \<and> word_at copy (pos + 4 * i) \<le> hi)"
  using assms
proof (induction lo hi len pos copy rule: scan_words.induct)
  case (1 lo hi len pos copy)
  let ?P = "\<lambda>q i. q + 4 * i + 4 \<le> len \<and> lo \<le> word_at copy (q + 4 * i) \<and> word_at copy (q + 4 * i) \<le> hi"
  show ?case
  proof (cases "pos + 4 \<le> len")
    case True
    have split: "(\<exists>i. ?P pos i) \<longleftrightarrow> ?P pos 0 \<or> (\<exists>i. ?P (pos + 4) i)"
    proof
      assume "\<exists>i. ?P pos i"
      then obtain i where i: "?P pos i" by blast
      show "?P pos 0 \<or> (\<exists>i. ?P (pos + 4) i)"
      proof (cases i)
        case (Suc j)
        then have "?P (pos + 4) j" using i by (simp add: add.assoc)
        then show ?thesis by blast
      qed (use i in simp)
    next
      assume "?P pos 0 \<or> (\<exists>i. ?P (pos + 4) i)"
      then show "\<exists>i. ?P pos i"
      proof
        assume "\<exists>i. ?P (pos + 4) i"
        then obtain i where "?P (pos + 4) i" by blast
        then have "?P pos (Suc i)" by (simp add: add.assoc)
        then show ?thesis by blast
      qed blast
    qed
    show ?thesis
      using True 1 split by (subst scan_words.simps) auto
  next
    case False
    then show ?thesis by (subst scan_words.simps) auto
  qed
qed

section \<open>Properties\<close>

text \<open>C22: Private data leaves the copy of the stack: for disjoint mappings, \<open>SanitizeStackCopy\<close> with its bit field and its cached
  mapping computes what a plain search would. Everything below the stack pointer is zero; of the words
  above it exactly the small integers, the pointers into the mapping of the stack and the pointers into
  executable mappings stay, and every other word is replaced by the mark \<open>0x0defaced\<close>; a partial word at the
  end is zero.\<close>

theorem sanitize_stack_copy:
  assumes "mappings_ok ms" "unat (word_align sp_offset) \<le> length stack_copy"
  shows "SanitizeStackCopy ms stack_copy (length stack_copy) stack_pointer sp_offset =
    Inr (replicate (unat (word_align sp_offset)) 0 @
         deface_words (may_stay ms stack_pointer) (drop (unat (word_align sp_offset)) stack_copy))"
proof -
  let ?o = "unat (word_align sp_offset)"
  let ?z = "replicate ?o (0 :: byte)"
  let ?bs = "drop ?o stack_copy"
  have z: "(if ?o \<noteq> 0 then my_memset 0 0 ?o stack_copy else Inr stack_copy) = Inr (?z @ ?bs)"
    using my_memset_ok [of 0 ?o stack_copy 0] assms(2) by simp
  obtain pos out where run: "sanitize_words (could_hit_mapping ms) ms (FindMappingNoBias ms stack_pointer) None (length stack_copy) ?o (?z @ ?bs) = Inr (pos, out)"
    "length out = length stack_copy" "pos \<le> length stack_copy"
    "take pos out @ replicate (length stack_copy - pos) 0 = ?z @ deface_words (may_stay ms stack_pointer) ?bs"
    using sanitize_words_run [OF assms(1), of None ?z ?bs "length stack_copy" stack_pointer] assms(2) by auto
  have "(if pos < length stack_copy then my_memset pos 0 (length stack_copy - pos) out else Inr out) =
      Inr (take pos out @ replicate (length stack_copy - pos) 0)"
    using my_memset_ok [of pos "length stack_copy - pos" out 0] run(2,3) by auto
  then show ?thesis using z run(1,4) by (simp add: SanitizeStackCopy_def Let_def)
qed

text \<open>Two mappings: code and the stack.\<close>

definition demo_mappings :: "MappingInfo list" where
  "demo_mappings =
     [\<lparr>start_addr = 0x8000, m_size = 0x1000, sys_start = 0x8000, sys_end = 0x9000, m_offset = 0, m_exec = True, m_name = [0]\<rparr>,
      \<lparr>start_addr = 0x40000000, m_size = 0x2000, sys_start = 0x40000000, sys_end = 0x40002000, m_offset = 0, m_exec = False, m_name = [0]\<rparr>]"

theorem sanitize_stack_copy_witness:
  "SanitizeStackCopy demo_mappings [9, 9, 9, 9, 7, 0, 0, 0, 0x10, 0x80, 0, 0, 1, 2, 3, 4, 5] 17 0x40001000 3 =
     Inr [0, 0, 0, 0, 7, 0, 0, 0, 0x10, 0x80, 0, 0, 0xed, 0xac, 0xef, 0x0d, 0]"
proof -
  have "mappings_ok demo_mappings" by (simp add: demo_mappings_def mappings_ok_def mapping_ok_def)
  moreover have "unat (word_align 3) = 4" by (simp add: word_align_def)
  moreover have "may_stay demo_mappings 0x40001000 7" "may_stay demo_mappings 0x40001000 0x8010"
    "\<not> may_stay demo_mappings 0x40001000 0x04030201"
    by (simp_all add: may_stay_def small_int_def demo_mappings_def MappingContainsAddress_def)
  moreover have "le_bytes 4 defaced = [0xed, 0xac, 0xef, 0x0d]"
  proof -
    have four: "4 = Suc (Suc (Suc (Suc 0)))" by simp
    show ?thesis unfolding four by simp
  qed
  moreover have "drop 4 [9, 9, 9, 9, 7, 0, 0, 0, 0x10, 0x80, 0, 0, 1, 2, 3, 4, 5] = [7, 0, 0, 0, 0x10, 0x80, 0, 0, 1, 2, 3, 4, 5 :: byte]"
    "replicate 4 0 = [0, 0, 0, 0 :: byte]" by (simp_all add: eval_nat_numeral)
  moreover have l: "length [9, 9, 9, 9, 7, 0, 0, 0, 0x10, 0x80, 0, 0, 1, 2, 3, 4, 5 :: byte] = 17" by simp
  ultimately show ?thesis
    using sanitize_stack_copy [of demo_mappings 3 "[9, 9, 9, 9, 7, 0, 0, 0, 0x10, 0x80, 0, 0, 1, 2, 3, 4, 5]" "0x40001000", unfolded l]
    by simp
qed

end
