(* ===== verification/Exception_Handler.thy ===== *)
theory Exception_Handler
  imports "HOL-Library.Multiset" Signal_Handlers Minidump_Descriptor Linux_Mappings
begin

text \<open>
  Handler objects and the making of a dump (\<open>breakpad/src/client/linux/handler/exception_handler.cc\<close>,
  \<open>breakpad/src/client/linux/crash_generation/crash_generation_client.cc\<close>): a crash is dumped by a cloned
  process, which waits at a pipe until it may trace its parent, or by a server that gets one end of a pipe.
  The writers of the dumps are a parameter.
\<close>

section \<open>Objects\<close>

record handler_obj =
  has_filter :: bool
  has_callback :: bool
  has_crash_handler :: bool
  generation_client :: "int option"      \<comment> \<open>the socket of the server, if the dump is made out of process\<close>
  descriptor :: MinidumpDescriptor
  fdes :: "int \<times> int"
  mapping_list :: "(MappingInfo \<times> block) list"
  app_memory_list :: "(addr \<times> nat) list"

record eh_state = sig_state +
  objects :: "nat \<Rightarrow> handler_obj"

type_synonym 'a ehp = "(eh_state, eh_call, 'a) proc"

definition mod_obj :: "nat \<Rightarrow> (handler_obj \<Rightarrow> handler_obj) \<Rightarrow> unit ehp" where
  "mod_obj i f = pmod (\<lambda>s. s\<lparr>objects := (objects s)(i := f (objects s i))\<rparr>)"

definition IsOutOfProcess :: "handler_obj \<Rightarrow> bool" where
  "IsOutOfProcess ob \<longleftrightarrow> generation_client ob \<noteq> None"

text \<open>The descriptors of a pipe that was just made, and the three lines of a complaint.\<close>

definition pipe_ends :: "(eh_call list \<Rightarrow> int \<times> int) \<Rightarrow> (int \<times> int) ehp" where
  "pipe_ends fds st = Some (Inr (fds (snd st), st))"

definition log_error :: "eh_call ext \<Rightarrow> unit ehp" where
  "log_error x = pbind (pcall x EhLog) (\<lambda>_. pbind (pcall x EhLog) (\<lambda>_. pbind (pcall x EhLog) (\<lambda>_. pret ())))"

section \<open>Asking a server\<close>

definition TryCreate :: "int \<Rightarrow> int option" where
  "TryCreate server_fd = (if server_fd < 0 then None else Some server_fd)"

definition RequestDump :: "eh_call ext \<Rightarrow> (eh_call list \<Rightarrow> int \<times> int) \<Rightarrow> int \<Rightarrow> bool ehp" where
  "RequestDump x fds server_fd =
     pbind (pcall x EhPipe) (\<lambda>p.
     if p < 0 then pret False
     else pbind (pipe_ends fds) (\<lambda>(rd, wr).
       pbind (HANDLE_EINTR x (EhSendmsg server_fd wr)) (\<lambda>ret.
       pbind (pcall x (EhClose wr)) (\<lambda>_.
       if ret < 0 then pbind (pcall x (EhClose rd)) (\<lambda>_. pret False)
       else pbind (HANDLE_EINTR x (EhRead rd)) (\<lambda>_. pbind (pcall x (EhClose rd)) (\<lambda>_. pret True))))))"

section \<open>The cloned process\<close>

datatype dump_request =
    Microdump bool addr bool MicrodumpExtraInfo
  | MinidumpToFd int int bool addr bool
  | MinidumpToPath "string option" int bool addr bool

definition DoDump :: "(dump_request \<Rightarrow> bool ehp) \<Rightarrow> nat \<Rightarrow> bool ehp" where
  "DoDump write i = pbind pget (\<lambda>s.
     let d = descriptor (objects s i);
         may_skip_dump = skip_dump_if_principal_mapping_not_referenced d;
         principal = address_within_principal_mapping d;
         sanitize = sanitize_stacks d in
     if IsMicrodumpOnConsole d then pbind (plift (get_microdump_extra_info d)) (\<lambda>ex. write (Microdump may_skip_dump principal sanitize ex))
     else if IsFD d then write (MinidumpToFd (md_fd d) (size_limit d) may_skip_dump principal sanitize)
     else write (MinidumpToPath (c_path d) (size_limit d) may_skip_dump principal sanitize))"

definition WaitForContinueSignal :: "eh_call ext \<Rightarrow> nat \<Rightarrow> unit ehp" where
  "WaitForContinueSignal x i = pbind pget (\<lambda>s. pbind (HANDLE_EINTR x (EhRead (fst (fdes (objects s i))))) (\<lambda>r.
     if r < 0 then log_error x else pret ()))"

definition SendContinueSignalToChild :: "eh_call ext \<Rightarrow> nat \<Rightarrow> unit ehp" where
  "SendContinueSignalToChild x i = pbind pget (\<lambda>s. pbind (HANDLE_EINTR x (EhWrite (snd (fdes (objects s i))))) (\<lambda>r.
     if r < 0 then log_error x else pret ()))"

text \<open>The exit code of the process: zero when the dump was written.\<close>

definition ThreadEntry :: "eh_call ext \<Rightarrow> (dump_request \<Rightarrow> bool ehp) \<Rightarrow> nat \<Rightarrow> int ehp" where
  "ThreadEntry x write i = pbind pget (\<lambda>s.
     pbind (pcall x (EhClose (snd (fdes (objects s i))))) (\<lambda>_.
     pthen (WaitForContinueSignal x i)
     (pbind (pcall x (EhClose (fst (fdes (objects s i))))) (\<lambda>_.
      pbind (DoDump write i) (\<lambda>ok. pret (if ok then 0 else 1))))))"

section \<open>The crashing process\<close>

definition WIFEXITED :: "int \<Rightarrow> bool" where
  "WIFEXITED status \<longleftrightarrow> status mod 128 = 0"

definition WEXITSTATUS :: "int \<Rightarrow> int" where
  "WEXITSTATUS status = status div 256 mod 256"

text \<open>
  \<open>fds\<close> are the descriptors \<open>pipe\<close> returns, \<open>status\<close> what \<open>waitpid\<close> reports. The scrubbed end of the child's stack lies
  inside the pages the allocator returned; its destructor unmaps them.
\<close>

definition GenerateDump :: "eh_call ext \<Rightarrow> (eh_call list \<Rightarrow> int \<times> int) \<Rightarrow> (eh_call list \<Rightarrow> int) \<Rightarrow> nat \<Rightarrow> bool ehp" where
  "GenerateDump x fds status i = pbind pget (\<lambda>s.
     case generation_client (objects s i) of
       Some server_fd \<Rightarrow> RequestDump x fds server_fd
     | None \<Rightarrow>
       pbind (pcall x (EhAlloc 16000)) (\<lambda>stack.
       if stack = 0 then pret False
       else pbind (pcall x EhGetpid) (\<lambda>_.
       pbind (pcall x EhPipe) (\<lambda>p.
       pbind (if p < 0 then pthen (log_error x) (pret (- 1, - 1)) else pipe_ends fds) (\<lambda>ends.
       pthen (mod_obj i (\<lambda>ob. ob\<lparr>fdes := ends\<rparr>))
       (pbind (pcall x EhClone) (\<lambda>child.
        if child < 0 then pbind (pcall x (EhClose (fst ends))) (\<lambda>_. pbind (pcall x (EhClose (snd ends))) (\<lambda>_. pret False))
        else pbind (pcall x (EhClose (fst ends))) (\<lambda>_.
          pbind (pcall x (EhPtracer child)) (\<lambda>_.
          pthen (SendContinueSignalToChild x i)
          (pbind (HANDLE_EINTR x (EhWait child)) (\<lambda>r. \<lambda>st.
           let success = (r \<ge> 0 \<and> WIFEXITED (status (snd st)) \<and> WEXITSTATUS (status (snd st)) = 0) in
           pbind (pcall x (EhClose (snd ends))) (\<lambda>_.
           pthen (if r < 0 then log_error x else pret ())
           (if has_callback (objects s i) then pbind (pcall x (EhCallback success)) (\<lambda>b. pret (b \<noteq> 0)) else pret success)) st))))))))))) "

text \<open>\<open>SI_USER\<close> is 0 and \<open>SI_TKILL\<close> is -6. The context of the crash is copied to \<open>g_crash_context_\<close> as it is.\<close>

definition HandleSignal ::
    "eh_call ext \<Rightarrow> (eh_call list \<Rightarrow> int \<times> int) \<Rightarrow> (eh_call list \<Rightarrow> int) \<Rightarrow> int \<Rightarrow> int \<Rightarrow> nat \<Rightarrow> bool ehp" where
  "HandleSignal x fds status si_code si_pid i = pbind pget (\<lambda>s.
     pbind (if has_filter (objects s i) then pbind (pcall x EhFilter) (\<lambda>r. pret (r \<noteq> 0)) else pret True) (\<lambda>go_on.
     if \<not> go_on then pret False
     else
       pbind (if si_code > 0 then pret True
              else if si_code = 0 \<or> si_code = - 6 then pbind (pcall x EhGetpid) (\<lambda>pid. pret (si_pid = pid))
              else pret False) (\<lambda>trusted.
       pthen (if trusted then pbind (pcall x EhDumpable) (\<lambda>_. pret ()) else pret ())
       (pbind (if has_crash_handler (objects s i) then pbind (pcall x EhCrashHandler) (\<lambda>r. pret (r \<noteq> 0)) else pret False) (\<lambda>done1.
        if done1 then pret True else GenerateDump x fds status i)))))"

definition SimulateSignalDelivery ::
    "eh_call ext \<Rightarrow> (eh_call list \<Rightarrow> int \<times> int) \<Rightarrow> (eh_call list \<Rightarrow> int) \<Rightarrow> nat \<Rightarrow> bool ehp" where
  "SimulateSignalDelivery x fds status i =
     pbind (pcall x EhGetpid) (\<lambda>pid. pbind (pcall x EhGetcontext) (\<lambda>_. HandleSignal x fds status 0 pid i))"

text \<open>\<open>upd\<close> is the outcome of \<open>UpdatePath\<close> on the descriptor of the object.\<close>

definition update_descriptor :: "(MinidumpDescriptor \<Rightarrow> MinidumpDescriptor res option) \<Rightarrow> nat \<Rightarrow> unit ehp" where
  "update_descriptor upd i = pbind pget (\<lambda>s.
     case upd (descriptor (objects s i)) of
       None \<Rightarrow> (\<lambda>_. None)
     | Some r \<Rightarrow> pbind (plift r) (\<lambda>d. mod_obj i (\<lambda>ob. ob\<lparr>descriptor := d\<rparr>)))"

definition WriteMinidump ::
    "eh_call ext \<Rightarrow> (eh_call list \<Rightarrow> int \<times> int) \<Rightarrow> (eh_call list \<Rightarrow> int) \<Rightarrow> (MinidumpDescriptor \<Rightarrow> MinidumpDescriptor res option) \<Rightarrow>
     nat \<Rightarrow> bool ehp" where
  "WriteMinidump x fds status upd i = pbind pget (\<lambda>s.
     let ob = objects s i; d = descriptor ob in
     pthen (if \<not> IsOutOfProcess ob \<and> \<not> IsFD d \<and> \<not> IsMicrodumpOnConsole d then update_descriptor upd i
            else if IsFD d then pbind (pcall x (EhSeek (md_fd d))) (\<lambda>_. pbind (pcall x (EhTruncate (md_fd d))) (\<lambda>_. pret ()))
            else pret ())
     (pbind (pcall x EhDumpable) (\<lambda>_.
      pbind (pcall x EhGetcontext) (\<lambda>r. if r \<noteq> 0 then pret False else GenerateDump x fds status i))))"

section \<open>Construction\<close>

definition ExceptionHandler_ctor ::
    "eh_call ext \<Rightarrow> (MinidumpDescriptor \<Rightarrow> MinidumpDescriptor res option) \<Rightarrow> nat \<Rightarrow> nat \<Rightarrow> MinidumpDescriptor \<Rightarrow> bool \<Rightarrow> bool \<Rightarrow> bool \<Rightarrow> int \<Rightarrow> unit ehp" where
  "ExceptionHandler_ctor x upd t i descriptor1 filter1 callback install_handler server_fd =
     pbind (plift (copy_descriptor descriptor1)) (\<lambda>d.
     pthen (mod_obj i (\<lambda>_. \<lparr>has_filter = filter1, has_callback = callback, has_crash_handler = False,
        generation_client = (if server_fd \<ge> 0 then TryCreate server_fd else None), descriptor = d, fdes = (- 1, - 1),
        mapping_list = [], app_memory_list = []\<rparr>))
     (pbind pget (\<lambda>s.
      pthen (if \<not> IsOutOfProcess (objects s i) \<and> \<not> IsFD d \<and> \<not> IsMicrodumpOnConsole d then update_descriptor upd i else pret ())
        (register_handler x t i install_handler))))"

definition ExceptionHandler_dtor :: "eh_call ext \<Rightarrow> nat \<Rightarrow> nat \<Rightarrow> unit ehp" where
  "ExceptionHandler_dtor x t i = unregister_handler x t i"

section \<open>Additional contents\<close>

text \<open>\<open>junk\<close>: the local \<open>info\<close>, of which \<open>exec\<close> and \<open>system_mapping_info\<close> are not set.\<close>

definition AddMappingInfo :: "MappingInfo \<Rightarrow> byte list \<Rightarrow> block \<Rightarrow> addr \<Rightarrow> addr \<Rightarrow> addr \<Rightarrow> handler_obj \<Rightarrow> handler_obj" where
  "AddMappingInfo junk name identifier start_address mapping_size file_offset ob =
     (let str = take 254 (takeWhile (\<lambda>c. c \<noteq> 0) name);
          info = junk\<lparr>start_addr := start_address, m_size := mapping_size, m_offset := file_offset,
                      m_name := str @ replicate (255 - length str) 0\<rparr> in
      ob\<lparr>mapping_list := mapping_list ob @ [(info, take 16 identifier)]\<rparr>)"

definition RegisterAppMemory :: "addr \<Rightarrow> nat \<Rightarrow> handler_obj \<Rightarrow> handler_obj" where
  "RegisterAppMemory p n ob =
     (if p \<in> fst ` set (app_memory_list ob) then ob else ob\<lparr>app_memory_list := app_memory_list ob @ [(p, n)]\<rparr>)"

fun erase_first :: "addr \<Rightarrow> (addr \<times> nat) list \<Rightarrow> (addr \<times> nat) list" where
  "erase_first p [] = []"
| "erase_first p (m # ms) = (if fst m = p then ms else m # erase_first p ms)"

definition UnregisterAppMemory :: "addr \<Rightarrow> handler_obj \<Rightarrow> handler_obj" where
  "UnregisterAppMemory p ob = ob\<lparr>app_memory_list := erase_first p (app_memory_list ob)\<rparr>"

section \<open>Descriptors of a run\<close>

text \<open>The descriptors that were closed, and those of the pipes that were made, in a part \<open>cs\<close> of the calls behind \<open>h\<close>.\<close>

fun eh_closed :: "eh_call list \<Rightarrow> int list" where
  "eh_closed [] = []"
| "eh_closed (c # cs) = (case c of EhClose fd \<Rightarrow> if fd = - 1 then [] else [fd] | _ \<Rightarrow> []) @ eh_closed cs"

fun eh_pipes :: "eh_call ext \<Rightarrow> (eh_call list \<Rightarrow> int \<times> int) \<Rightarrow> eh_call list \<Rightarrow> eh_call list \<Rightarrow> int list" where
  "eh_pipes x fds h [] = []"
| "eh_pipes x fds h (c # cs) =
     (if c = EhPipe \<and> x h c \<ge> 0 then [fst (fds (h @ [c])), snd (fds (h @ [c]))] else []) @ eh_pipes x fds (h @ [c]) cs"

text \<open>The calls a released child may not overtake: every write follows the permission to trace.\<close>

fun writes_allowed :: "bool \<Rightarrow> eh_call list \<Rightarrow> bool" where
  "writes_allowed ok [] = True"
| "writes_allowed ok (c # cs) =
     ((case c of EhWrite _ \<Rightarrow> ok | _ \<Rightarrow> True) \<and> writes_allowed (ok \<or> (case c of EhPtracer _ \<Rightarrow> True | _ \<Rightarrow> False)) cs)"

definition eh_laws :: "eh_call ext \<Rightarrow> (eh_call list \<Rightarrow> int \<times> int) \<Rightarrow> bool" where
  "eh_laws x fds \<longleftrightarrow> (\<forall>fd. settles x (EhWrite fd) \<and> settles x (EhRead fd) \<and> settles x (EhWait fd)) \<and>
     (\<forall>fd wr. settles x (EhSendmsg fd wr)) \<and> (\<forall>h. fst (fds h) \<noteq> - 1 \<and> snd (fds h) \<noteq> - 1)"

lemma eh_closed_append [simp]: "eh_closed (cs @ ds) = eh_closed cs @ eh_closed ds"
  by (induction cs) auto

lemma eh_pipes_append [simp]: "eh_pipes x fds h (cs @ ds) = eh_pipes x fds h cs @ eh_pipes x fds (h @ cs) ds"
  by (induction cs arbitrary: h) auto

text \<open>Calls that are neither: repeated calls and complaints.\<close>

definition quiet :: "eh_call \<Rightarrow> bool" where
  "quiet c \<longleftrightarrow> (case c of EhClose _ \<Rightarrow> False | EhPipe \<Rightarrow> False | EhPtracer _ \<Rightarrow> False | _ \<Rightarrow> True)"

lemma quiet_calls:
  assumes "\<forall>c \<in> set cs. quiet c"
  shows "eh_closed cs = []" "eh_pipes x fds h cs = []" "writes_allowed True (cs @ ds) = writes_allowed True ds"
  using assms by (induction cs arbitrary: h) (auto simp: quiet_def split: eh_call.splits)

lemma HANDLE_EINTR_quiet:
  assumes "settles x c" "quiet c"
  shows "\<exists>r cs. HANDLE_EINTR x c (s, h) = Some (Inr (r, (s, h @ cs))) \<and> (\<forall>d \<in> set cs. d = c \<and> quiet d)"
  using HANDLE_EINTR_settles [OF assms(1), of s h] assms(2) by (metis in_set_replicate)

lemma log_error_run: "log_error x (s, h) = Some (Inr ((), (s, h @ [EhLog, EhLog, EhLog])))"
  by (simp add: log_error_def)

lemma quiet_simps [simp]: "quiet EhLog" "quiet (EhWrite fd)" "quiet (EhRead fd)" "quiet (EhWait fd)" "quiet (EhSendmsg fd wr)"
  "quiet EhClone" "quiet EhGetpid" "quiet (EhAlloc n)" "quiet (EhCallback b)"
  by (simp_all add: quiet_def)

lemma SendContinueSignalToChild_run:
  assumes "eh_laws x fds"
  shows "\<exists>cs. SendContinueSignalToChild x i (s, h) = Some (Inr ((), (s, h @ cs))) \<and> (\<forall>c \<in> set cs. quiet c)"
proof -
  from assms have "settles x (EhWrite (snd (fdes (objects s i))))" by (simp add: eh_laws_def)
  from HANDLE_EINTR_quiet [OF this, of s h] obtain r cs where
    "HANDLE_EINTR x (EhWrite (snd (fdes (objects s i)))) (s, h) = Some (Inr (r, (s, h @ cs)))" "\<forall>c \<in> set cs. quiet c" by auto
  then show ?thesis by (cases "r < 0") (auto simp: SendContinueSignalToChild_def log_error_run)
qed

lemma send_writes: "\<forall>d \<in> set cs. d = EhSendmsg fd wr \<Longrightarrow> writes_allowed b (cs @ ds) = writes_allowed b ds"
  by (induction cs) simp_all

lemma read_writes: "\<forall>d \<in> set cs. d = EhRead fd \<Longrightarrow> writes_allowed b (cs @ ds) = writes_allowed b ds"
  by (induction cs) simp_all

lemma RequestDump_run:
  assumes "eh_laws x fds"
  shows "\<exists>r cs. RequestDump x fds sfd (s, h) = Some (Inr (r, (s, h @ cs))) \<and>
    mset (eh_closed cs) = mset (eh_pipes x fds h cs) \<and> writes_allowed False cs"
proof (cases "x h EhPipe < 0")
  case True
  then show ?thesis by (intro exI [of _ False] exI [of _ "[EhPipe]"]) (simp add: RequestDump_def)
next
  case False
  let ?h = "h @ [EhPipe]"
  obtain rd wr where ends: "fds ?h = (rd, wr)" by fastforce
  have ne: "rd \<noteq> - 1" "wr \<noteq> - 1" using assms ends by (metis eh_laws_def fst_conv, metis eh_laws_def snd_conv)
  have st: "settles x (EhSendmsg sfd wr)" "settles x (EhRead rd)" using assms by (simp_all add: eh_laws_def)
  from HANDLE_EINTR_quiet [OF st(1), of s ?h] obtain ret cs1 where
    r1: "HANDLE_EINTR x (EhSendmsg sfd wr) (s, ?h) = Some (Inr (ret, (s, ?h @ cs1)))" "\<forall>d \<in> set cs1. d = EhSendmsg sfd wr" "\<forall>d \<in> set cs1. quiet d" by auto
  show ?thesis
  proof (cases "ret < 0")
    case True
    then show ?thesis using False ends ne r1 send_writes [OF r1(2)] quiet_calls(1,2) [OF r1(3)]
      by (intro exI [of _ False] exI [of _ "EhPipe # cs1 @ [EhClose wr, EhClose rd]"])
        (simp add: RequestDump_def pipe_ends_def pbind_def add_mset_commute)
  next
    case ok: False
    let ?h2 = "(?h @ cs1) @ [EhClose wr]"
    from HANDLE_EINTR_quiet [OF st(2), of s ?h2] obtain q cs2 where
      r2: "HANDLE_EINTR x (EhRead rd) (s, ?h2) = Some (Inr (q, (s, ?h2 @ cs2)))" "\<forall>d \<in> set cs2. d = EhRead rd" "\<forall>d \<in> set cs2. quiet d" by auto
    then show ?thesis using False ok ends ne r1 send_writes [OF r1(2)] read_writes [OF r2(2)] quiet_calls(1,2) [OF r1(3)] quiet_calls(1,2) [OF r2(3)]
      by (intro exI [of _ True] exI [of _ "EhPipe # cs1 @ EhClose wr # cs2 @ [EhClose rd]"])
        (simp add: RequestDump_def pipe_ends_def pbind_def add_mset_commute)
  qed
qed

lemma GenerateDump_run:
  assumes "eh_laws x fds"
  shows "\<exists>r f cs. GenerateDump x fds status i (s, h) =
      Some (Inr (r, (s\<lparr>objects := (objects s)(i := (objects s i)\<lparr>fdes := f\<rparr>)\<rparr>, h @ cs))) \<and>
    mset (eh_closed cs) = mset (eh_pipes x fds h cs) \<and> writes_allowed False cs"
proof (cases "generation_client (objects s i)")
  case (Some sfd)
  from RequestDump_run [OF assms, of sfd s h] obtain r cs where
    "RequestDump x fds sfd (s, h) = Some (Inr (r, (s, h @ cs)))" "mset (eh_closed cs) = mset (eh_pipes x fds h cs)" "writes_allowed False cs"
    by blast
  then show ?thesis using Some
    by (intro exI [of _ r] exI [of _ "fdes (objects s i)"] exI [of _ cs]) (simp add: GenerateDump_def)
next
  case None
  show ?thesis
  proof (cases "x h (EhAlloc 16000) = 0")
    case True
    then show ?thesis using None
      by (intro exI [of _ False] exI [of _ "fdes (objects s i)"] exI [of _ "[EhAlloc 16000]"]) (simp add: GenerateDump_def)
  next
    case alloc: False
    let ?h1 = "h @ [EhAlloc 16000, EhGetpid]"
    let ?p = "x ?h1 EhPipe"
    let ?h2 = "?h1 @ [EhPipe]"
    define ends where "ends = (if ?p < 0 then (- 1, - 1) else fds ?h2)"
    let ?logs = "if ?p < 0 then [EhLog, EhLog, EhLog] else []"
    let ?h3 = "?h2 @ ?logs"
    let ?s = "s\<lparr>objects := (objects s)(i := (objects s i)\<lparr>fdes := ends\<rparr>)\<rparr>"
    let ?pre = "[EhAlloc 16000, EhGetpid, EhPipe] @ ?logs @ [EhClone]"
    let ?child = "x ?h3 EhClone"
    have pipe: "(if ?p < 0 then pthen (log_error x) (pret (- 1, - 1)) else pipe_ends fds) (s, ?h2) = Some (Inr (ends, (s, ?h3)))"
      by (simp add: ends_def pipe_ends_def log_error_run)
    have pre: "eh_closed ?pre = []" "writes_allowed False (?pre @ cs) = writes_allowed False cs" for cs by simp_all
    have two: "eh_closed [EhClose (fst ends), EhClose (snd ends)] = eh_pipes x fds h ?pre"
      using alloc assms by (auto simp: ends_def eh_laws_def not_less)
    show ?thesis
    proof (cases "?child < 0")
      case True
      let ?cs = "?pre @ [EhClose (fst ends), EhClose (snd ends)]"
      have "GenerateDump x fds status i (s, h) = Some (Inr (False, (?s, h @ ?cs)))"
        using None alloc True pipe by (simp add: GenerateDump_def mod_obj_def pbind_def)
      moreover have "mset (eh_closed ?cs) = mset (eh_pipes x fds h ?cs)" using two pre(1) by simp
      ultimately show ?thesis using pre(2) by (intro exI [of _ False] exI [of _ ends] exI [of _ ?cs]) simp
    next
      case False
      let ?h4 = "h @ ?pre @ [EhClose (fst ends), EhPtracer ?child]"
      from SendContinueSignalToChild_run [OF assms, of i ?s ?h4] obtain cs1 where
        r1: "SendContinueSignalToChild x i (?s, ?h4) = Some (Inr ((), (?s, ?h4 @ cs1)))" "\<forall>c \<in> set cs1. quiet c" by blast
      have "settles x (EhWait ?child)" using assms by (simp add: eh_laws_def)
      from HANDLE_EINTR_quiet [OF this, of ?s "?h4 @ cs1"] obtain w cs2 where
        r2: "HANDLE_EINTR x (EhWait ?child) (?s, ?h4 @ cs1) = Some (Inr (w, (?s, (?h4 @ cs1) @ cs2)))" "\<forall>c \<in> set cs2. quiet c" by auto
      let ?h5 = "(?h4 @ cs1) @ cs2"
      let ?ok = "w \<ge> 0 \<and> WIFEXITED (status ?h5) \<and> WEXITSTATUS (status ?h5) = 0"
      let ?cs3 = "(if w < 0 then [EhLog, EhLog, EhLog] else []) @ (if has_callback (objects s i) then [EhCallback ?ok] else [])"
      let ?cs = "?pre @ [EhClose (fst ends), EhPtracer ?child] @ cs1 @ cs2 @ [EhClose (snd ends)] @ ?cs3"
      have q3: "\<forall>c \<in> set ?cs3. quiet c" by auto
      let ?r = "if has_callback (objects s i) then x (?h5 @ [EhClose (snd ends)] @ (if w < 0 then [EhLog, EhLog, EhLog] else [])) (EhCallback ?ok) \<noteq> 0 else ?ok"
      have "GenerateDump x fds status i (s, h) = Some (Inr (?r, (?s, h @ ?cs)))"
        using None alloc False pipe r1(1) r2(1) by (simp add: GenerateDump_def mod_obj_def pbind_def Let_def log_error_run)
      moreover have "mset (eh_closed ?cs) = mset (eh_pipes x fds h ?cs)"
        using two pre(1) quiet_calls(1,2) [OF r1(2)] quiet_calls(1,2) [OF r2(2)] quiet_calls(1,2) [OF q3] by simp
      moreover have "writes_allowed False ?cs"
        using pre(2) quiet_calls(3) [OF r1(2)] quiet_calls(3) [OF r2(2)] quiet_calls(3) [OF q3, of "[]"] by simp
      ultimately show ?thesis by blast
    qed
  qed
qed

text \<open>The cloned process closes both ends of its copy of the pipe, and reports success by exit code 0.\<close>

lemma ThreadEntry_run:
  assumes "eh_laws x fds" "\<And>s h. \<exists>s' cs. DoDump write i (s, h) = Some (Inr (P, (s', h @ cs))) \<and> eh_closed cs = []"
  shows "\<exists>s' cs. ThreadEntry x write i (s, h) = Some (Inr (if P then 0 else 1, (s', h @ cs))) \<and>
    eh_closed cs = filter (\<lambda>d. d \<noteq> - 1) [snd (fdes (objects s i)), fst (fdes (objects s i))]"
proof -
  let ?rd = "fst (fdes (objects s i))" and ?wr = "snd (fdes (objects s i))"
  let ?h = "h @ [EhClose ?wr]"
  have "settles x (EhRead ?rd)" using assms(1) by (simp add: eh_laws_def)
  from HANDLE_EINTR_quiet [OF this, of s ?h] obtain r cs1 where
    r1: "HANDLE_EINTR x (EhRead ?rd) (s, ?h) = Some (Inr (r, (s, ?h @ cs1)))" "\<forall>c \<in> set cs1. quiet c" by auto
  let ?logs = "if r < 0 then [EhLog, EhLog, EhLog] else []"
  have w: "WaitForContinueSignal x i (s, ?h) = Some (Inr ((), (s, ?h @ cs1 @ ?logs)))"
    using r1(1) by (simp add: WaitForContinueSignal_def log_error_run)
  let ?h2 = "(?h @ cs1 @ ?logs) @ [EhClose ?rd]"
  from assms(2) [of s ?h2] obtain s' cs2 where
    d: "DoDump write i (s, ?h2) = Some (Inr (P, (s', ?h2 @ cs2)))" "eh_closed cs2 = []" by blast
  have "ThreadEntry x write i (s, h) = Some (Inr (if P then 0 else 1, (s', h @ EhClose ?wr # cs1 @ ?logs @ EhClose ?rd # cs2)))"
    using w d(1) by (simp add: ThreadEntry_def pbind_def)
  moreover have "eh_closed (EhClose ?wr # cs1 @ ?logs @ EhClose ?rd # cs2) = filter (\<lambda>d. d \<noteq> - 1) [?wr, ?rd]"
    using d(2) quiet_calls(1) [OF r1(2)] by simp
  ultimately show ?thesis by blast
qed

text \<open>The method the signal handler calls returns and leaves the globals of the signal side alone.\<close>

lemma HandleSignal_ok:
  assumes "eh_laws x fds"
  shows "handles_ok (HandleSignal x fds status si_code si_pid)"
  unfolding handles_ok_def
proof (intro allI)
  fix i h and s :: eh_state
  have same: "s = sig_state.more_update (\<lambda>_. sig_state.more s) s" by simp
  have more: "s\<lparr>objects := os\<rparr> = sig_state.more_update (\<lambda>_. sig_state.more (s\<lparr>objects := os\<rparr>)) s" for os by (cases s) simp
  have dump: "\<exists>b z h'. GenerateDump x fds status i (s, g) = Some (Inr (b, (sig_state.more_update (\<lambda>_. z) s, h')))" for g
    using GenerateDump_run [OF assms, of status i s g] more by metis
  let ?filter = "if has_filter (objects s i) then [EhFilter] else []"
  let ?pid = "if si_code > 0 then [] else if si_code = 0 \<or> si_code = - 6 then [EhGetpid] else []"
  let ?trust = "si_code > 0 \<or> (si_code = 0 \<or> si_code = - 6) \<and> si_pid = x (h @ ?filter) EhGetpid"
  let ?g = "h @ ?filter @ ?pid @ (if ?trust then [EhDumpable] else [])"
  show "\<exists>b z h'. HandleSignal x fds status si_code si_pid i (s, h) = Some (Inr (b, (sig_state.more_update (\<lambda>_. z) s, h')))"
  proof (cases "has_filter (objects s i) \<and> x h EhFilter = 0")
    case True
    then have "HandleSignal x fds status si_code si_pid i (s, h) = Some (Inr (False, (s, h @ [EhFilter])))"
      by (simp add: HandleSignal_def pbind_def)
    then show ?thesis using same by metis
  next
    case False
    then have run: "HandleSignal x fds status si_code si_pid i (s, h) =
        (if has_crash_handler (objects s i)
         then if x ?g EhCrashHandler \<noteq> 0 then Some (Inr (True, (s, ?g @ [EhCrashHandler])))
              else GenerateDump x fds status i (s, ?g @ [EhCrashHandler])
         else GenerateDump x fds status i (s, ?g))"
      by (auto simp: HandleSignal_def pbind_def)
    then show ?thesis using dump same by metis
  qed
qed

section \<open>Properties\<close>

text \<open>C17: No descriptor of a crash leaks: whatever the kernel and the callbacks answer (interrupted calls return in the end),
  making a dump in the crashing process or asking a server for it returns, closes both ends of the pipe it
  made exactly once and nothing else, releases the cloned process only after allowing it to trace, and changes
  nothing but the stored descriptors of the object; so the signal handler, calling it for every object, leaves no trace
  in the globals.\<close>

theorem dump_closes_pipe:
  assumes "eh_laws x fds"
  shows "\<exists>r f cs. GenerateDump x fds status i (s, h) =
      Some (Inr (r, (s\<lparr>objects := (objects s)(i := (objects s i)\<lparr>fdes := f\<rparr>)\<rparr>, h @ cs))) \<and>
    mset (eh_closed cs) = mset (eh_pipes x fds h cs) \<and> writes_allowed False cs \<and>
    handles_ok (HandleSignal x fds status si_code si_pid)"
  using GenerateDump_run [OF assms, of status i s h] HandleSignal_ok [OF assms] by blast

text \<open>A kernel that interrupts nothing, and an object that dumps in the process.\<close>

definition demo_crash :: eh_state where
  "demo_crash = sig_state.extend demo_process \<lparr>objects = \<lambda>_. \<lparr>has_filter = False, has_callback = False, has_crash_handler = False,
     generation_client = None, descriptor = MinidumpDescriptor_console, fdes = (- 1, - 1), mapping_list = [], app_memory_list = []\<rparr>\<rparr>"

definition demo_dump :: "eh_call ext" where
  "demo_dump h c = (case c of EhAlloc _ \<Rightarrow> 4096 | EhClone \<Rightarrow> 77 | _ \<Rightarrow> 0)"

theorem dump_closes_pipe_witness:
  "\<exists>s'. GenerateDump demo_dump (\<lambda>_. (5, 6)) (\<lambda>_. 0) 3 (demo_crash, []) = Some (Inr (True, (s',
       [EhAlloc 16000, EhGetpid, EhPipe, EhClone, EhClose 5, EhPtracer 77, EhWrite 6, EhWait 77, EhClose 6]))) \<and>
     mset (eh_pipes demo_dump (\<lambda>_. (5, 6)) [] [EhAlloc 16000, EhGetpid, EhPipe, EhClone, EhClose 5, EhPtracer 77, EhWrite 6, EhWait 77, EhClose 6]) = {#5, 6#}"
proof -
  have laws: "eh_laws demo_dump (\<lambda>_. (5, 6))" by (simp add: eh_laws_def settles_def demo_dump_def)
  let ?cs = "[EhAlloc 16000, EhGetpid, EhPipe, EhClone, EhClose 5, EhPtracer 77, EhWrite 6, EhWait 77, EhClose 6]"
  have run: "\<exists>s'. GenerateDump demo_dump (\<lambda>_. (5, 6)) (\<lambda>_. 0) 3 (demo_crash, []) = Some (Inr (True, (s', ?cs)))"
    by (simp add: GenerateDump_def demo_crash_def sig_state.defs demo_process_def pipe_ends_def mod_obj_def
        SendContinueSignalToChild_def HANDLE_EINTR_def eintr.simps demo_dump_def WIFEXITED_def WEXITSTATUS_def Let_def)
  from dump_closes_pipe [OF laws, of "\<lambda>_. 0" 3 demo_crash "[]" 0 0] run
  have "mset (eh_closed ?cs) = mset (eh_pipes demo_dump (\<lambda>_. (5, 6)) [] ?cs)" by force
  then show ?thesis using run by simp
qed

end
