(* ===== verification/Directory_Reader.thy ===== *)
theory Directory_Reader
  imports Libc_Support
begin

text \<open>
  The directory reader of the crash handler
  (\<open>breakpad/src/client/linux/minidump_writer/directory_reader.h\<close>): records of \<open>getdents\<close> in a fixed buffer. A
  \<open>kernel_dirent\<close> has two words, the record length and the name; the buffer has 524 bytes on the 32-bit
  target. \<open>getdents\<close> is a parameter: it answers by the number of the call with an error (\<open>None\<close>) or the
  bytes it stored.
\<close>

section \<open>Definitions\<close>

type_synonym sys_getdents = "nat \<Rightarrow> nat \<Rightarrow> byte list option"

abbreviation (input) dirent_buf :: nat where "dirent_buf \<equiv> 524"

abbreviation (input) d_name :: nat where "d_name \<equiv> 10"

text \<open>\<open>dr_calls\<close> is the kernel's side: the calls of \<open>getdents\<close> so far.\<close>

record DirectoryReader =
  dr_hit_eof :: bool
  dr_used :: nat
  dr_buf :: block
  dr_calls :: nat

text \<open>The constructor leaves \<open>hit_eof_\<close> and the buffer uninitialised.\<close>

definition DirectoryReader_ctor :: "bool \<Rightarrow> block \<Rightarrow> DirectoryReader" where
  "DirectoryReader_ctor junk_eof junk = \<lparr>dr_hit_eof = junk_eof, dr_used = 0, dr_buf = junk, dr_calls = 0\<rparr>"

text \<open>\<open>Some i\<close>: the name starts at index \<open>i\<close> of the buffer; \<open>None\<close>: \<open>false\<close>.\<close>

definition GetNextEntry :: "sys_getdents \<Rightarrow> DirectoryReader \<Rightarrow> (nat option \<times> DirectoryReader) res" where
  "GetNextEntry gd s =
     (let finish = (\<lambda>s. if dr_used s = 0 \<and> dr_hit_eof s then Inr (None, s)
                        else if dr_used s = 0 then Inl AssertFail else Inr (Some d_name, s)) in
      if dr_used s = 0 then
        (case gd (dr_calls s) dirent_buf of
           None \<Rightarrow> Inr (None, s\<lparr>dr_calls := dr_calls s + 1\<rparr>)
         | Some bs \<Rightarrow>
             (if dirent_buf < length bs then Inl OutOfBounds
              else if bs = [] then finish (s\<lparr>dr_hit_eof := True, dr_calls := dr_calls s + 1\<rparr>)
              else finish (s\<lparr>dr_used := length bs, dr_buf := bs @ drop (length bs) (dr_buf s), dr_calls := dr_calls s + 1\<rparr>)))
      else finish s)"

text \<open>\<open>buf_used_\<close> is unsigned: a record length larger than the rest wraps around.\<close>

definition PopEntry :: "DirectoryReader \<Rightarrow> DirectoryReader res" where
  "PopEntry s =
     (if dr_used s = 0 then Inr s
      else
        (let reclen = le_nat (take 2 (drop 8 (dr_buf s)));
             used = (if reclen \<le> dr_used s then dr_used s - reclen else dr_used s + 4294967296 - reclen) in
         if length (dr_buf s) < reclen + used then Inl OutOfBounds
         else Inr (s\<lparr>dr_used := used, dr_buf := take used (drop reclen (dr_buf s)) @ drop used (dr_buf s)\<rparr>)))"

text \<open>The bytes \<open>*name\<close> points to.\<close>

definition dent_name :: "DirectoryReader \<Rightarrow> block" where
  "dent_name s = drop d_name (dr_buf s)"

section \<open>Sources of entries\<close>

text \<open>
  What a client relies on: \<open>fetch\<close> makes the next entry available as the string \<open>cstr\<close>, and \<open>pop\<close>
  removes it.
\<close>

locale entry_source =
  fixes inv :: "'s \<Rightarrow> bool"
    and pending :: "'s \<Rightarrow> byte list list"
    and cstr :: "'s \<Rightarrow> block"
    and fetch :: "'s \<Rightarrow> (nat option \<times> 's) res"
    and pop :: "'s \<Rightarrow> 's res"
  assumes fetch_entry: "inv s \<Longrightarrow> pending s = a # as \<Longrightarrow>
      \<exists>i s' rest t. fetch s = Inr (Some i, s') \<and> cstr s' = a @ 0 # rest \<and> pop s' = Inr t \<and> inv t \<and> pending t = as"
    and fetch_end: "inv s \<Longrightarrow> pending s = [] \<Longrightarrow> \<exists>s'. fetch s = Inr (None, s')"

text \<open>The loop \<open>while (GetNextEntry(&name)) { ...; PopEntry(); }\<close> with a body that may fault.\<close>

partial_function (option) each_entry ::
    "('s \<Rightarrow> (nat option \<times> 's) res) \<Rightarrow> ('s \<Rightarrow> 's res) \<Rightarrow> ('s \<Rightarrow> block) \<Rightarrow> (block \<Rightarrow> 'b \<Rightarrow> 'b res) \<Rightarrow> 'b \<Rightarrow> 's \<Rightarrow> 'b res option" where
  "each_entry fetch pop cstr body acc s =
     (case fetch s of
        Inl e \<Rightarrow> Some (Inl e)
      | Inr (None, _) \<Rightarrow> Some (Inr acc)
      | Inr (Some _, s') \<Rightarrow>
          (case body (cstr s') acc of
             Inl e \<Rightarrow> Some (Inl e)
           | Inr acc' \<Rightarrow> (case pop s' of Inl e \<Rightarrow> Some (Inl e) | Inr t \<Rightarrow> each_entry fetch pop cstr body acc' t)))"

context entry_source
begin

text \<open>The loop ends and folds its body over the entries in order.\<close>

lemma each_entry_fold:
  assumes body: "\<And>a rest acc. a \<in> A \<Longrightarrow> body (a @ 0 # rest) acc = Inr (f a acc)"
  shows "inv s \<Longrightarrow> set (pending s) \<subseteq> A \<Longrightarrow> each_entry fetch pop cstr body acc s = Some (Inr (fold f (pending s) acc))"
proof (induction "pending s" arbitrary: s acc)
  case Nil
  then obtain s' where "fetch s = Inr (None, s')" using fetch_end by metis
  then show ?case using Nil(1) by (subst each_entry.simps) (simp flip: Nil(1))
next
  case (Cons a as)
  then obtain i s' rest t where "fetch s = Inr (Some i, s')" "cstr s' = a @ 0 # rest" "pop s' = Inr t" "inv t" "pending t = as"
    using fetch_entry by metis
  moreover have "a \<in> A" "set as \<subseteq> A" using Cons(2,4) by (auto simp flip: Cons(2))
  ultimately show ?case using Cons(1) [of t] body by (subst each_entry.simps) (simp flip: Cons(2))
qed

end

section \<open>Directories\<close>

text \<open>A record: inode and offset, its length, the name, and padding.\<close>

record dirent =
  de_head :: "byte list"
  de_name :: "byte list"
  de_pad :: nat

definition dirent_bytes :: "dirent \<Rightarrow> byte list" where
  "dirent_bytes d = de_head d @ le_bytes 2 (11 + length (de_name d) + de_pad d) @ de_name d @ 0 # replicate (de_pad d) 0"

definition dirent_ok :: "dirent \<Rightarrow> bool" where
  "dirent_ok d \<longleftrightarrow> length (de_head d) = 8 \<and> 0 \<notin> set (de_name d) \<and> 11 + length (de_name d) + de_pad d < 65536"

lemma dirent_bytes_length: "dirent_ok d \<Longrightarrow> length (dirent_bytes d) = 11 + length (de_name d) + de_pad d"
  by (simp add: dirent_bytes_def dirent_ok_def)

text \<open>
  A directory as \<open>getdents\<close> delivers it: full records, in pieces that fit the buffer, the last answer
  empty.
\<close>

definition dir_reads :: "sys_getdents \<Rightarrow> dirent list list \<Rightarrow> bool" where
  "dir_reads gd chunks \<longleftrightarrow>
     (\<forall>i < length chunks. gd i dirent_buf = Some (concat (map dirent_bytes (chunks ! i))) \<and> chunks ! i \<noteq> [] \<and>
        (\<forall>d \<in> set (chunks ! i). dirent_ok d) \<and> length (concat (map dirent_bytes (chunks ! i))) \<le> dirent_buf) \<and>
     gd (length chunks) dirent_buf = Some []"

section \<open>The reader is a source of entries\<close>

text \<open>The names in the buffer followed by those not read yet.\<close>

function names_in :: "byte list \<Rightarrow> byte list list" where
  "names_in bs =
     (if bs = [] then []
      else takeWhile (\<lambda>c. c \<noteq> 0) (drop d_name bs) # names_in (drop (max 1 (le_nat (take 2 (drop 8 bs)))) bs))"
  by pat_completeness auto
termination by (relation "measure length") auto

declare names_in.simps [simp del]

definition dir_pending :: "dirent list list \<Rightarrow> DirectoryReader \<Rightarrow> byte list list" where
  "dir_pending chunks s = names_in (take (dr_used s) (dr_buf s)) @ map de_name (concat (drop (dr_calls s) chunks))"

definition dir_inv :: "sys_getdents \<Rightarrow> dirent list list \<Rightarrow> DirectoryReader \<Rightarrow> bool" where
  "dir_inv gd chunks s \<longleftrightarrow> dir_reads gd chunks \<and> length (dr_buf s) = dirent_buf \<and> dr_calls s \<le> length chunks \<and>
     (\<exists>cur. take (dr_used s) (dr_buf s) = concat (map dirent_bytes cur) \<and> dr_used s = length (concat (map dirent_bytes cur)) \<and>
        dr_used s \<le> dirent_buf \<and> (\<forall>d \<in> set cur. dirent_ok d))"

lemma reclen_front:
  "dirent_ok d \<Longrightarrow> le_nat (take 2 (drop 8 (dirent_bytes d @ bs))) = length (dirent_bytes d)"
  by (simp add: dirent_bytes_length) (simp add: dirent_bytes_def dirent_ok_def)

lemma cstr_front: "dirent_ok d \<Longrightarrow> \<exists>rest. drop d_name (dirent_bytes d @ bs) = de_name d @ 0 # rest"
  by (simp add: dirent_bytes_def dirent_ok_def)

lemma name_front: "dirent_ok d \<Longrightarrow> takeWhile (\<lambda>c. c \<noteq> 0) (drop d_name (dirent_bytes d @ bs)) = de_name d"
  by (auto simp: dirent_bytes_def dirent_ok_def takeWhile_append)

lemma names_in_records: "\<forall>d \<in> set ds. dirent_ok d \<Longrightarrow> names_in (concat (map dirent_bytes ds)) = map de_name ds"
proof (induction ds)
  case (Cons d ds)
  have ok: "dirent_ok d" using Cons.prems by simp
  then have pos: "11 \<le> length (dirent_bytes d)" by (simp add: dirent_bytes_length)
  have m: "max 1 (length (dirent_bytes d)) = length (dirent_bytes d)" "dirent_bytes d @ R \<noteq> []"
    "drop (length (dirent_bytes d)) (dirent_bytes d @ R) = R" for R using pos by auto
  have "names_in (dirent_bytes d @ concat (map dirent_bytes ds)) = de_name d # names_in (concat (map dirent_bytes ds))"
    by (subst names_in.simps) (simp only: if_not_P [OF m(2)] reclen_front [OF ok] name_front [OF ok] m(1,3))
  then show ?case using Cons by simp
qed (simp add: names_in.simps)

lemma GetNextEntry_buffered: "dr_used s \<noteq> 0 \<Longrightarrow> GetNextEntry gd s = Inr (Some d_name, s)"
  by (simp add: GetNextEntry_def Let_def)

text \<open>Removing the record at the front.\<close>

lemma pop_front:
  assumes "dir_inv gd chunks s" "take (dr_used s) (dr_buf s) = concat (map dirent_bytes (d # ds))"
    "dr_used s = length (concat (map dirent_bytes (d # ds)))" "\<forall>d \<in> set (d # ds). dirent_ok d"
  shows "(\<exists>rest. dent_name s = de_name d @ 0 # rest) \<and> (\<exists>t. PopEntry s = Inr t \<and> dir_inv gd chunks t \<and>
    dir_pending chunks t = map de_name ds @ map de_name (concat (drop (dr_calls s) chunks)))"
proof -
  let ?n = "length (dirent_bytes d)" and ?r = "concat (map dirent_bytes ds)"
  obtain rest where buf: "dr_buf s = dirent_bytes d @ ?r @ rest"
    using assms(2) by (metis append_take_drop_id append.assoc concat.simps(2) list.simps(9))
  have ok: "dirent_ok d" using assms(4) by simp
  have u: "dr_used s = ?n + length ?r" using assms(3) by simp
  then have nz: "dr_used s \<noteq> 0" using ok by (simp add: dirent_bytes_length)
  have pos: "11 \<le> ?n" using ok by (simp add: dirent_bytes_length)
  let ?t = "s\<lparr>dr_used := length ?r, dr_buf := ?r @ drop (length ?r) (dr_buf s)\<rparr>"
  have "PopEntry s = Inr ?t"
    using u unfolding PopEntry_def Let_def buf reclen_front [OF ok, of "?r @ rest"] if_not_P [OF nz] by simp
  moreover have "dir_inv gd chunks ?t"
    using assms(1,4) buf u unfolding dir_inv_def by (auto intro!: exI [of _ ds])
  moreover have "dir_pending chunks ?t = map de_name ds @ map de_name (concat (drop (dr_calls s) chunks))"
    using names_in_records [of ds] assms(4) by (simp add: dir_pending_def)
  moreover have "\<exists>rest. dent_name s = de_name d @ 0 # rest" unfolding dent_name_def buf by (rule cstr_front [OF ok])
  ultimately show ?thesis by blast
qed

lemma dir_inv_cur:
  assumes "dir_inv gd chunks s"
  obtains cur where "take (dr_used s) (dr_buf s) = concat (map dirent_bytes cur)" "dr_used s = length (concat (map dirent_bytes cur))"
    "\<forall>d \<in> set cur. dirent_ok d" "dir_pending chunks s = map de_name cur @ map de_name (concat (drop (dr_calls s) chunks))"
  using assms names_in_records by (auto simp: dir_inv_def dir_pending_def)

text \<open>With an empty buffer the next piece is read.\<close>

lemma refill:
  assumes "dir_inv gd chunks s" "dr_used s = 0" "dr_calls s < length chunks"
  shows "\<exists>s'. GetNextEntry gd s = Inr (Some d_name, s') \<and> dir_inv gd chunks s' \<and> dr_used s' \<noteq> 0 \<and>
    dir_pending chunks s' = dir_pending chunks s"
proof -
  let ?i = "dr_calls s" and ?bs = "concat (map dirent_bytes (chunks ! dr_calls s))"
  have g: "gd ?i dirent_buf = Some ?bs" "chunks ! ?i \<noteq> []" "\<forall>d \<in> set (chunks ! ?i). dirent_ok d" "length ?bs \<le> dirent_buf"
    using assms(1,3) by (auto simp: dir_inv_def dir_reads_def)
  have ne: "?bs \<noteq> []" using g(2,3) by (cases "chunks ! ?i") (auto simp: dirent_bytes_def)
  let ?s = "s\<lparr>dr_used := length ?bs, dr_buf := ?bs @ drop (length ?bs) (dr_buf s), dr_calls := ?i + 1\<rparr>"
  have "GetNextEntry gd s = Inr (Some d_name, ?s)"
    using assms(2) g(1,4) ne by (simp add: GetNextEntry_def Let_def)
  moreover have "dir_inv gd chunks ?s"
    using assms(1,3) g unfolding dir_inv_def by (auto intro!: exI [of _ "chunks ! ?i"])
  moreover have "dir_pending chunks ?s = dir_pending chunks s"
    using names_in_records [OF g(3)] assms(2,3) by (simp add: dir_pending_def names_in.simps [of "[]"] flip: Cons_nth_drop_Suc)
  ultimately show ?thesis using ne by fastforce
qed

interpretation directory: entry_source "dir_inv gd chunks" "dir_pending chunks" dent_name "GetNextEntry gd" PopEntry
  for gd chunks
proof
  fix s a as
  assume inv: "dir_inv gd chunks s" and p: "dir_pending chunks s = a # as"
  have "\<exists>s'. GetNextEntry gd s = Inr (Some d_name, s') \<and> dir_inv gd chunks s' \<and> dr_used s' \<noteq> 0 \<and> dir_pending chunks s' = a # as"
  proof (cases "dr_used s = 0")
    case True
    then have "dr_calls s < length chunks" using inv p by (cases "dr_calls s < length chunks") (auto simp: dir_pending_def names_in.simps [of "[]"])
    then show ?thesis using refill [OF inv True] p by metis
  next
    case False
    then show ?thesis using GetNextEntry_buffered inv p by blast
  qed
  then obtain s' where s': "GetNextEntry gd s = Inr (Some d_name, s')" "dir_inv gd chunks s'" "dr_used s' \<noteq> 0" "dir_pending chunks s' = a # as" by blast
  from dir_inv_cur [OF s'(2)] obtain cur where c: "take (dr_used s') (dr_buf s') = concat (map dirent_bytes cur)"
    "dr_used s' = length (concat (map dirent_bytes cur))" "\<forall>d \<in> set cur. dirent_ok d"
    "dir_pending chunks s' = map de_name cur @ map de_name (concat (drop (dr_calls s') chunks))" by blast
  obtain d ds where cur: "cur = d # ds" using c(2) s'(3) by (cases cur) auto
  from pop_front [OF s'(2) c(1-3) [unfolded cur]] c(4) cur s'(4)
  show "\<exists>i s' rest t. GetNextEntry gd s = Inr (Some i, s') \<and> dent_name s' = a @ 0 # rest \<and> PopEntry s' = Inr t \<and> dir_inv gd chunks t \<and> dir_pending chunks t = as"
    using s'(1) by auto
next
  fix s
  assume inv: "dir_inv gd chunks s" and p: "dir_pending chunks s = []"
  from dir_inv_cur [OF inv] obtain cur where c: "dr_used s = length (concat (map dirent_bytes cur))"
    "dir_pending chunks s = map de_name cur @ map de_name (concat (drop (dr_calls s) chunks))" by blast
  have u: "dr_used s = 0" using c p by simp
  have "dr_calls s = length chunks"
  proof (rule ccontr)
    assume "dr_calls s \<noteq> length chunks"
    then have l: "dr_calls s < length chunks" using inv by (simp add: dir_inv_def)
    then have "chunks ! dr_calls s \<noteq> []" using inv by (simp add: dir_inv_def dir_reads_def)
    then show False using c(2) p l by (auto simp flip: Cons_nth_drop_Suc)
  qed
  then have "gd (dr_calls s) dirent_buf = Some []" using inv by (simp add: dir_inv_def dir_reads_def)
  then show "\<exists>s'. GetNextEntry gd s = Inr (None, s')" using u by (simp add: GetNextEntry_def Let_def)
qed

text \<open>A new reader, whatever its uninitialised members hold, will deliver the whole directory.\<close>

lemma dir_inv_start:
  "dir_reads gd chunks \<Longrightarrow> length junk = dirent_buf \<Longrightarrow> dir_inv gd chunks (DirectoryReader_ctor junk_eof junk) \<and>
     dir_pending chunks (DirectoryReader_ctor junk_eof junk) = map de_name (concat chunks)"
  by (auto simp: dir_inv_def dir_pending_def DirectoryReader_ctor_def names_in.simps [of "[]"] intro!: exI [of _ "[]"])

end
