(* ===== verification/Line_Reader.thy ===== *)
theory Line_Reader
  imports Libc_Support
begin

text \<open>
  The file readers of the crash handler (\<open>breakpad/src/client/linux/minidump_writer\<close>), which work in a
  fixed buffer and allocate nothing: \<open>LineReader\<close> (\<open>line_reader.h\<close>) and \<open>ProcCpuInfoReader\<close>
  (\<open>proc_cpuinfo_reader.h\<close>). The kernel's \<open>read\<close> is a parameter: it answers by the number of the call, the
  file offset and the byte count, with an error (\<open>None\<close>) or the bytes it stored.
\<close>

section \<open>LineReader\<close>

type_synonym sys_read = "nat \<Rightarrow> nat \<Rightarrow> nat \<Rightarrow> byte list option"

abbreviation (input) kMaxLineLen :: nat where "kMaxLineLen \<equiv> 512"

text \<open>\<open>lr_calls\<close> and \<open>lr_pos\<close> are the kernel's side: calls of \<open>read\<close> so far and the file offset.\<close>

record LineReader =
  hit_eof :: bool
  buf_used :: nat
  lr_buf :: block
  lr_calls :: nat
  lr_pos :: nat

definition LineReader_ctor :: "block \<Rightarrow> LineReader" where
  "LineReader_ctor junk = \<lparr>hit_eof = False, buf_used = 0, lr_buf = junk, lr_calls = 0, lr_pos = 0\<rparr>"

definition is_eol :: "byte \<Rightarrow> bool" where
  "is_eol c \<longleftrightarrow> c = 10 \<or> c = 0"

text \<open>The scan for an end of line among the used bytes.\<close>

fun scan_eol :: "nat \<Rightarrow> block \<Rightarrow> nat option" where
  "scan_eol i [] = None"
| "scan_eol i (c # cs) = (if is_eol c then Some i else scan_eol (i + 1) cs)"

text \<open>\<open>memcpy\<close> of freshly read bytes behind the used ones.\<close>

definition append_read :: "byte list \<Rightarrow> LineReader \<Rightarrow> LineReader" where
  "append_read bs s = s\<lparr>lr_buf := take (buf_used s) (lr_buf s) @ bs @ drop (buf_used s + length bs) (lr_buf s),
     buf_used := buf_used s + length bs, lr_calls := lr_calls s + 1, lr_pos := lr_pos s + length bs\<rparr>"

text \<open>
  \<open>GetNextLine\<close>: \<open>Some n\<close> when the first \<open>n\<close> bytes of the buffer are the line, \<open>None\<close> for \<open>false\<close>. A
  kernel that stores more than it was asked to would write outside the buffer.
\<close>

function GetNextLine :: "sys_read \<Rightarrow> LineReader \<Rightarrow> (nat option \<times> LineReader) res" where
  "GetNextLine rd s =
     (if buf_used s = 0 \<and> hit_eof s then Inr (None, s)
      else case scan_eol 0 (take (buf_used s) (lr_buf s)) of
          Some i \<Rightarrow> Inr (Some i, s\<lparr>lr_buf := (lr_buf s)[i := 0]\<rparr>)
        | None \<Rightarrow>
           (if buf_used s = kMaxLineLen then Inr (None, s)
            else if hit_eof s then
              (if buf_used s = 0 then Inl AssertFail
               else Inr (Some (buf_used s), s\<lparr>lr_buf := (lr_buf s)[buf_used s := 0], buf_used := buf_used s + 1\<rparr>))
            else case rd (lr_calls s) (lr_pos s) (kMaxLineLen - buf_used s) of
                None \<Rightarrow> Inr (None, s\<lparr>lr_calls := lr_calls s + 1\<rparr>)
              | Some bs \<Rightarrow>
                  (if kMaxLineLen - buf_used s < length bs then Inl OutOfBounds
                   else if bs = [] then GetNextLine rd (s\<lparr>hit_eof := True, lr_calls := lr_calls s + 1\<rparr>)
                   else GetNextLine rd (append_read bs s))))"
  by pat_completeness auto

termination
  by (relation "measure (\<lambda>(rd, s). (if hit_eof s then 0 else 1) + (kMaxLineLen - buf_used s))")
    (auto simp: append_read_def neq_Nil_conv)

declare GetNextLine.simps [simp del]

definition PopLine :: "nat \<Rightarrow> LineReader \<Rightarrow> LineReader res" where
  "PopLine len s =
     (if buf_used s < len + 1 then Inl AssertFail
      else let used = buf_used s - (len + 1) in
        Inr (s\<lparr>buf_used := used, lr_buf := take used (drop (len + 1) (lr_buf s)) @ drop used (lr_buf s)\<rparr>))"

section \<open>Lines of a file\<close>

text \<open>What the reader is to return: the maximal pieces without end of line, in order.\<close>

definition first_line :: "byte list \<Rightarrow> byte list" where
  "first_line F = takeWhile (\<lambda>c. \<not> is_eol c) F"

function split_lines :: "byte list \<Rightarrow> byte list list" where
  "split_lines F = (if F = [] then [] else first_line F # split_lines (drop (length (first_line F) + 1) F))"
  by pat_completeness auto
termination by (relation "measure length") (auto simp: neq_Nil_conv)

declare split_lines.simps [simp del]

text \<open>A regular file: every read stores a piece of the contents at the offset, empty only at the end.\<close>

definition file_reads :: "sys_read \<Rightarrow> byte list \<Rightarrow> bool" where
  "file_reads rd F \<longleftrightarrow> (\<forall>i pos cnt. 0 < cnt \<longrightarrow> pos \<le> length F \<longrightarrow>
     (\<exists>n. rd i pos cnt = Some (take n (drop pos F)) \<and> n \<le> cnt \<and> (pos < length F \<longrightarrow> 0 < n)))"

text \<open>
  A source of lines, as its clients use it: \<open>fetch\<close> makes the next line available at the start of the
  buffer \<open>lbuf\<close>, and \<open>pop\<close> removes it. Lines of 512 bytes and more are not delivered.
\<close>

locale line_source =
  fixes inv :: "'s \<Rightarrow> bool"
    and pending :: "'s \<Rightarrow> byte list"
    and lbuf :: "'s \<Rightarrow> block"
    and fetch :: "'s \<Rightarrow> (nat option \<times> 's) res"
    and pop :: "nat \<Rightarrow> 's \<Rightarrow> 's res"
  assumes fetch_line: "inv s \<Longrightarrow> pending s \<noteq> [] \<Longrightarrow> length (first_line (pending s)) < 512 \<Longrightarrow>
      \<exists>s' t. fetch s = Inr (Some (length (first_line (pending s))), s') \<and>
        take (length (first_line (pending s))) (lbuf s') = first_line (pending s) \<and>
        length (first_line (pending s)) < length (lbuf s') \<and> lbuf s' ! length (first_line (pending s)) = 0 \<and>
        pop (length (first_line (pending s))) s' = Inr t \<and> inv t \<and>
        pending t = drop (length (first_line (pending s)) + 1) (pending s)"
    and fetch_end: "inv s \<Longrightarrow> pending s = [] \<or> 512 \<le> length (first_line (pending s)) \<Longrightarrow>
      \<exists>s'. fetch s = Inr (None, s')"

text \<open>The loop of every client: \<open>while (GetNextLine(&line, &len)) { ...; PopLine(len); }\<close>.\<close>

partial_function (option) read_lines ::
    "('s \<Rightarrow> (nat option \<times> 's) res) \<Rightarrow> (nat \<Rightarrow> 's \<Rightarrow> 's res) \<Rightarrow> ('s \<Rightarrow> block) \<Rightarrow> byte list list \<Rightarrow> 's \<Rightarrow> byte list list res option" where
  "read_lines fetch pop lbuf ls s =
     (case fetch s of
        Inl e \<Rightarrow> Some (Inl e)
      | Inr (None, _) \<Rightarrow> Some (Inr ls)
      | Inr (Some n, s') \<Rightarrow>
          (case pop n s' of Inl e \<Rightarrow> Some (Inl e) | Inr t \<Rightarrow> read_lines fetch pop lbuf (ls @ [take n (lbuf s')]) t))"

context line_source
begin

text \<open>The loop ends and delivers the lines up to the first one that is too long.\<close>

lemma read_lines_split:
  "inv s \<Longrightarrow> read_lines fetch pop lbuf ls s = Some (Inr (ls @ takeWhile (\<lambda>l. length l < 512) (split_lines (pending s))))"
proof (induction "length (pending s)" arbitrary: s ls rule: less_induct)
  case less
  let ?l = "first_line (pending s)"
  show ?case
  proof (cases "pending s \<noteq> [] \<and> length ?l < 512")
    case True
    with fetch_line [OF less.prems] obtain s' t where
      f: "fetch s = Inr (Some (length ?l), s')" "take (length ?l) (lbuf s') = ?l" "pop (length ?l) s' = Inr t" "inv t"
        "pending t = drop (length ?l + 1) (pending s)" by blast
    have "length (pending t) < length (pending s)" using True f(5) by simp
    from less.hyps [OF this f(4)] have
      "read_lines fetch pop lbuf (ls @ [?l]) t = Some (Inr ((ls @ [?l]) @ takeWhile (\<lambda>l. length l < 512) (split_lines (pending t))))" .
    then show ?thesis using True f by (subst read_lines.simps) (simp add: split_lines.simps [of "pending s"])
  next
    case False
    with fetch_end [OF less.prems] obtain s' where "fetch s = Inr (None, s')" by force
    moreover have "takeWhile (\<lambda>l. length l < 512) (split_lines (pending s)) = []"
      using False by (auto simp: split_lines.simps [of "pending s"])
    ultimately show ?thesis by (subst read_lines.simps) simp
  qed
qed

end

text \<open>The same loop with a body that works on the line in the buffer and may fault.\<close>

partial_function (option) each_line ::
    "('s \<Rightarrow> (nat option \<times> 's) res) \<Rightarrow> (nat \<Rightarrow> 's \<Rightarrow> 's res) \<Rightarrow> ('s \<Rightarrow> block) \<Rightarrow> (block \<Rightarrow> 'b \<Rightarrow> 'b res) \<Rightarrow> 'b \<Rightarrow> 's \<Rightarrow> 'b res option" where
  "each_line fetch pop lbuf body acc s =
     (case fetch s of
        Inl e \<Rightarrow> Some (Inl e)
      | Inr (None, _) \<Rightarrow> Some (Inr acc)
      | Inr (Some n, s') \<Rightarrow>
          (case body (lbuf s') acc of
             Inl e \<Rightarrow> Some (Inl e)
           | Inr acc' \<Rightarrow> (case pop n s' of Inl e \<Rightarrow> Some (Inl e) | Inr t \<Rightarrow> each_line fetch pop lbuf body acc' t)))"

context line_source
begin

text \<open>It ends and folds the body over the lines up to the first one that is too long.\<close>

lemma each_line_fold:
  assumes body: "\<And>l rest acc. l \<in> A \<Longrightarrow> body (l @ 0 # rest) acc = Inr (f l acc)"
  shows "inv s \<Longrightarrow> set (split_lines (pending s)) \<subseteq> A \<Longrightarrow>
    each_line fetch pop lbuf body acc s = Some (Inr (fold f (takeWhile (\<lambda>l. length l < 512) (split_lines (pending s))) acc))"
proof (induction "length (pending s)" arbitrary: s acc rule: less_induct)
  case less
  let ?l = "first_line (pending s)"
  show ?case
  proof (cases "pending s \<noteq> [] \<and> length ?l < 512")
    case True
    with fetch_line [OF less.prems(1)] obtain s' t where
      f: "fetch s = Inr (Some (length ?l), s')" "take (length ?l) (lbuf s') = ?l" "length ?l < length (lbuf s')"
        "lbuf s' ! length ?l = 0" "pop (length ?l) s' = Inr t" "inv t" "pending t = drop (length ?l + 1) (pending s)" by blast
    have split: "split_lines (pending s) = ?l # split_lines (pending t)" using True f(7) by (subst split_lines.simps) simp
    have buf: "lbuf s' = ?l @ 0 # drop (length ?l + 1) (lbuf s')" using f(2-4) id_take_nth_drop [of "length ?l" "lbuf s'"] by simp
    have "body (lbuf s') acc = Inr (f ?l acc)" using body less.prems(2) split by (subst buf) simp
    moreover have "each_line fetch pop lbuf body (f ?l acc) t =
        Some (Inr (fold f (takeWhile (\<lambda>l. length l < 512) (split_lines (pending t))) (f ?l acc)))"
      using True f(7) less.prems(2) split by (intro less.hyps f(6)) auto
    ultimately show ?thesis using True f(1,5) by (subst each_line.simps) (simp add: split)
  next
    case False
    with fetch_end [OF less.prems(1)] obtain s' where "fetch s = Inr (None, s')" by force
    moreover have "takeWhile (\<lambda>l. length l < 512) (split_lines (pending s)) = []"
      using False by (auto simp: split_lines.simps [of "pending s"])
    ultimately show ?thesis by (subst each_line.simps) simp
  qed
qed

text \<open>With an invariant that relates the lines read so far and the state of the loop.\<close>

lemma each_line_inv:
  assumes step: "\<And>ds l todo rest acc. I ds acc \<Longrightarrow> all = ds @ l # todo \<Longrightarrow> \<exists>acc'. body (l @ 0 # rest) acc = Inr acc' \<and> I (ds @ [l]) acc'"
  shows "inv s \<Longrightarrow> I ds acc \<Longrightarrow> all = ds @ takeWhile (\<lambda>l. length l < 512) (split_lines (pending s)) \<Longrightarrow>
    \<exists>acc'. each_line fetch pop lbuf body acc s = Some (Inr acc') \<and> I all acc'"
proof (induction "length (pending s)" arbitrary: s acc ds rule: less_induct)
  case less
  let ?l = "first_line (pending s)"
  show ?case
  proof (cases "pending s \<noteq> [] \<and> length ?l < 512")
    case True
    with fetch_line [OF less.prems(1)] obtain s' t where
      f: "fetch s = Inr (Some (length ?l), s')" "take (length ?l) (lbuf s') = ?l" "length ?l < length (lbuf s')"
        "lbuf s' ! length ?l = 0" "pop (length ?l) s' = Inr t" "inv t" "pending t = drop (length ?l + 1) (pending s)" by blast
    have split: "split_lines (pending s) = ?l # split_lines (pending t)" using True f(7) by (subst split_lines.simps) simp
    have buf: "lbuf s' = ?l @ 0 # drop (length ?l + 1) (lbuf s')" using f(2-4) id_take_nth_drop [of "length ?l" "lbuf s'"] by simp
    have all: "all = ds @ ?l # takeWhile (\<lambda>l. length l < 512) (split_lines (pending t))" using less.prems(3) True by (simp add: split)
    from step [OF less.prems(2) all] obtain acc' where b: "body (lbuf s') acc = Inr acc'" "I (ds @ [?l]) acc'" by (metis buf)
    have "\<exists>acc''. each_line fetch pop lbuf body acc' t = Some (Inr acc'') \<and> I all acc''"
      using True f(7) all by (intro less.hyps [OF _ f(6) b(2)]) auto
    then show ?thesis using b(1) f(1,5) by (subst each_line.simps) simp
  next
    case False
    with fetch_end [OF less.prems(1)] obtain s' where "fetch s = Inr (None, s')" by force
    moreover have "takeWhile (\<lambda>l. length l < 512) (split_lines (pending s)) = []"
      using False by (auto simp: split_lines.simps [of "pending s"])
    ultimately show ?thesis using less.prems(2,3) by (subst each_line.simps) simp
  qed
qed

end

section \<open>The reader is a source of lines\<close>

definition lr_pending :: "byte list \<Rightarrow> LineReader \<Rightarrow> byte list" where
  "lr_pending F s = take (buf_used s) (lr_buf s) @ drop (lr_pos s) F"

definition lr_inv :: "byte list \<Rightarrow> LineReader \<Rightarrow> bool" where
  "lr_inv F s \<longleftrightarrow> length (lr_buf s) = 512 \<and> buf_used s \<le> 512 \<and> lr_pos s \<le> length F \<and>
     (hit_eof s \<longrightarrow> lr_pos s = length F)"

text \<open>What one call has to deliver, for the pending text \<open>P\<close>.\<close>

definition line_delivered :: "byte list \<Rightarrow> byte list \<Rightarrow> (nat option \<times> LineReader) res \<Rightarrow> bool" where
  "line_delivered F P r \<longleftrightarrow> (let l = first_line P; n = length l in
     if P \<noteq> [] \<and> n < 512
     then \<exists>s'. r = Inr (Some n, s') \<and> take n (lr_buf s') = l \<and> lr_buf s' ! n = 0 \<and> n < buf_used s' \<and>
       lr_inv F s' \<and> drop (n + 1) (lr_pending F s') = drop (n + 1) P
     else \<exists>s'. r = Inr (None, s'))"

lemma scan_eol_first_line:
  "scan_eol i cs = (if \<exists>c \<in> set cs. is_eol c then Some (i + length (first_line cs)) else None)"
  by (induction cs arbitrary: i) (auto simp: first_line_def)

lemma first_line_append:
  "first_line (xs @ ys) = (if \<exists>c \<in> set xs. is_eol c then first_line xs else xs @ first_line ys)"
  by (auto simp: first_line_def takeWhile_append)

lemma first_line_short: "(\<exists>c \<in> set xs. is_eol c) \<Longrightarrow> length (first_line xs) < length xs"
  by (induction xs) (auto simp: first_line_def)

lemma first_line_take: "take (length (first_line xs)) xs = first_line xs"
  by (induction xs) (auto simp: first_line_def)

lemma delivered_in_buffer:
  assumes "lr_inv F s" "\<exists>c \<in> set (take (buf_used s) (lr_buf s)). is_eol c"
  shows "line_delivered F (lr_pending F s)
    (Inr (Some (length (first_line (take (buf_used s) (lr_buf s)))),
       s\<lparr>lr_buf := (lr_buf s)[length (first_line (take (buf_used s) (lr_buf s))) := 0]\<rparr>))"
proof -
  let ?B = "take (buf_used s) (lr_buf s)"
  let ?n = "length (first_line ?B)"
  have n: "?n < buf_used s" using first_line_short [OF assms(2)] by simp
  have l: "first_line (lr_pending F s) = first_line ?B" using assms(2) by (simp add: lr_pending_def first_line_append)
  have len: "length (lr_buf s) = 512" "buf_used s \<le> 512" using assms(1) by (auto simp: lr_inv_def)
  have "take ?n (lr_buf s) = first_line ?B" using first_line_take [of ?B] n by (simp add: min_def)
  moreover have "lr_inv F (s\<lparr>lr_buf := (lr_buf s)[?n := 0]\<rparr>)" using assms(1) by (simp add: lr_inv_def)
  moreover have "drop (?n + 1) (lr_pending F (s\<lparr>lr_buf := (lr_buf s)[?n := 0]\<rparr>)) = drop (?n + 1) (lr_pending F s)"
    using n by (simp add: lr_pending_def drop_take)
  moreover have "lr_pending F s \<noteq> []" using n len by (auto simp: lr_pending_def)
  ultimately show ?thesis using n len l by (simp add: line_delivered_def)
qed

lemma delivered_last:
  assumes inv: "lr_inv F s" and "hit_eof s" "buf_used s \<noteq> 0" "buf_used s \<noteq> 512"
    and no: "\<not> (\<exists>c \<in> set (take (buf_used s) (lr_buf s)). is_eol c)"
  shows "line_delivered F (lr_pending F s)
    (Inr (Some (buf_used s), s\<lparr>lr_buf := (lr_buf s)[buf_used s := 0], buf_used := buf_used s + 1\<rparr>))"
proof -
  let ?B = "take (buf_used s) (lr_buf s)"
  have len: "length (lr_buf s) = 512" "buf_used s < 512" "lr_pos s = length F" using assms by (auto simp: lr_inv_def)
  then have P: "lr_pending F s = ?B" "first_line ?B = ?B" using no first_line_append [of ?B "[]"]
    by (auto simp: lr_pending_def first_line_def)
  moreover have "?B \<noteq> []" using assms(3) len by auto
  ultimately show ?thesis using len inv
    by (simp add: line_delivered_def lr_inv_def lr_pending_def take_Suc_conv_app_nth drop_take)
qed

lemma append_read_pending:
  assumes "lr_inv F s" "bs = take n (drop (lr_pos s) F)" "length bs \<le> 512 - buf_used s" "\<not> hit_eof s"
  shows "lr_inv F (append_read bs s)" "lr_pending F (append_read bs s) = lr_pending F s"
proof -
  have n: "drop (lr_pos s) F = bs @ drop (lr_pos s + length bs) F" "lr_pos s + length bs \<le> length F"
    using assms(1) unfolding assms(2) by (auto simp: lr_inv_def min_def) (metis append_take_drop_id add.commute drop_drop)
  then show "lr_inv F (append_read bs s)" "lr_pending F (append_read bs s) = lr_pending F s"
    using assms(1,3,4) by (auto simp: lr_inv_def append_read_def lr_pending_def)
qed

lemma GetNextLine_delivers:
  assumes "file_reads rd F" "lr_inv F s"
  shows "line_delivered F (lr_pending F s) (GetNextLine rd s)"
  using assms
proof (induction rd s rule: GetNextLine.induct)
  case (1 rd s)
  let ?B = "take (buf_used s) (lr_buf s)"
  have inv: "length (lr_buf s) = 512" "buf_used s \<le> 512" "lr_pos s \<le> length F" "hit_eof s \<longrightarrow> lr_pos s = length F"
    using 1(4) by (auto simp: lr_inv_def)
  consider "buf_used s = 0" "hit_eof s"
    | "\<not> (buf_used s = 0 \<and> hit_eof s)" "\<exists>c \<in> set ?B. is_eol c"
    | "\<not> (\<exists>c \<in> set ?B. is_eol c)" "buf_used s = 512"
    | "\<not> (\<exists>c \<in> set ?B. is_eol c)" "buf_used s \<noteq> 0" "buf_used s \<noteq> 512" "hit_eof s"
    | "\<not> (\<exists>c \<in> set ?B. is_eol c)" "buf_used s \<noteq> 512" "\<not> hit_eof s" by (cases "hit_eof s"; cases "buf_used s = 0"; cases "buf_used s = 512"; cases "\<exists>c \<in> set ?B. is_eol c"; simp)
  then show ?case
  proof cases
    case 1
    then show ?thesis using inv by (simp add: GetNextLine.simps [of rd s] line_delivered_def lr_pending_def)
  next
    case 2
    then show ?thesis using delivered_in_buffer [OF \<open>lr_inv F s\<close>]
      by (auto simp: GetNextLine.simps [of rd s] scan_eol_first_line)
  next
    case 3
    then have "512 \<le> length (first_line (lr_pending F s))" using inv(1) by (auto simp: lr_pending_def first_line_append)
    with 3 show ?thesis by (simp add: GetNextLine.simps [of rd s] scan_eol_first_line line_delivered_def Let_def)
  next
    case 4
    then show ?thesis using delivered_last [OF \<open>lr_inv F s\<close>]
      by (simp add: GetNextLine.simps [of rd s] scan_eol_first_line)
  next
    case 5
    have scan: "scan_eol 0 ?B = None" using 5 by (simp add: scan_eol_first_line)
    have "\<exists>n. rd (lr_calls s) (lr_pos s) (512 - buf_used s) = Some (take n (drop (lr_pos s) F)) \<and>
        n \<le> 512 - buf_used s \<and> (lr_pos s < length F \<longrightarrow> 0 < n)"
      using 1(3) inv 5(2) unfolding file_reads_def by simp
    then obtain n where n: "rd (lr_calls s) (lr_pos s) (512 - buf_used s) = Some (take n (drop (lr_pos s) F))"
        "n \<le> 512 - buf_used s" "lr_pos s < length F \<longrightarrow> 0 < n" by blast
    let ?bs = "take n (drop (lr_pos s) F)"
    have le: "\<not> 512 - buf_used s < length ?bs" using n(2) by simp
    show ?thesis
    proof (cases "?bs = []")
      case True
      let ?t = "s\<lparr>hit_eof := True, lr_calls := lr_calls s + 1\<rparr>"
      have "lr_pos s = length F" using True n(3) inv(3) by auto
      then have t: "lr_inv F ?t" "lr_pending F ?t = lr_pending F s" using inv by (auto simp: lr_inv_def lr_pending_def)
      have "line_delivered F (lr_pending F ?t) (GetNextLine rd ?t)"
        using 1(1) [OF _ scan 5(2) 5(3) n(1) le True 1(3) t(1)] 5(3) by simp
      then show ?thesis using 5 n le True scan t(2) by (simp add: GetNextLine.simps [of rd s])
    next
      case False
      note t = append_read_pending [OF \<open>lr_inv F s\<close> refl, of n]
      have "line_delivered F (lr_pending F (append_read ?bs s)) (GetNextLine rd (append_read ?bs s))"
        using 1(2) [OF _ scan 5(2) 5(3) n(1) le False 1(3) t(1)] 5(3) n(2) by simp
      then show ?thesis using 5 n le False scan t(2) by (simp add: GetNextLine.simps [of rd s])
    qed
  qed
qed

lemma PopLine_pending:
  assumes "lr_inv F s" "n < buf_used s"
  shows "\<exists>t. PopLine n s = Inr t \<and> lr_inv F t \<and> lr_pending F t = drop (n + 1) (lr_pending F s)"
  using assms by (auto simp: PopLine_def lr_inv_def lr_pending_def Let_def drop_take)

interpretation reader: line_source "\<lambda>s. file_reads rd F \<and> lr_inv F s" "lr_pending F" lr_buf "GetNextLine rd" PopLine
  for rd F
proof unfold_locales
  fix s
  assume s: "file_reads rd F \<and> lr_inv F s"
  let ?l = "first_line (lr_pending F s)"
  note d = GetNextLine_delivers [of rd F s]
  show "\<exists>s'. GetNextLine rd s = Inr (None, s')" if "lr_pending F s = [] \<or> 512 \<le> length ?l"
    using d s that by (auto simp: line_delivered_def Let_def)
  assume P: "lr_pending F s \<noteq> []" "length ?l < 512"
  then obtain s' where s': "GetNextLine rd s = Inr (Some (length ?l), s')" "take (length ?l) (lr_buf s') = ?l"
      "lr_buf s' ! length ?l = 0" "length ?l < buf_used s'" "lr_inv F s'"
      "drop (length ?l + 1) (lr_pending F s') = drop (length ?l + 1) (lr_pending F s)"
    using d s by (auto simp: line_delivered_def Let_def)
  from PopLine_pending [OF s'(5,4)] s'(6) obtain t where
    "PopLine (length ?l) s' = Inr t" "lr_inv F t" "lr_pending F t = drop (length ?l + 1) (lr_pending F s)" by auto
  with s s' show "\<exists>s' t. GetNextLine rd s = Inr (Some (length ?l), s') \<and> take (length ?l) (lr_buf s') = ?l \<and>
      length ?l < length (lr_buf s') \<and> lr_buf s' ! length ?l = 0 \<and> PopLine (length ?l) s' = Inr t \<and>
      (file_reads rd F \<and> lr_inv F t) \<and> lr_pending F t = drop (length ?l + 1) (lr_pending F s)"
    by (auto simp: lr_inv_def)
qed

section \<open>ProcCpuInfoReader\<close>

text \<open>\<open>pop_count\<close> is the length of the line to be popped first, or -1. The value is a piece of the line buffer.\<close>

record ProcCpuInfoReader =
  line_reader :: LineReader
  pop_count :: int
  value_at :: nat
  value_len :: nat

definition ProcCpuInfoReader_ctor :: "block \<Rightarrow> ProcCpuInfoReader" where
  "ProcCpuInfoReader_ctor junk = \<lparr>line_reader = LineReader_ctor junk, pop_count = - 1, value_at = 0, value_len = 0\<rparr>"

abbreviation isspace :: "byte \<Rightarrow> bool" where
  "isspace c \<equiv> my_isspace (uint c) \<noteq> 0"

text \<open>\<open>while (val < line_end && my_isspace(*val)) val++\<close> and \<open>while (sep > line && my_isspace(sep[-1])) sep--\<close>.\<close>

function skip_spaces :: "block \<Rightarrow> nat \<Rightarrow> nat \<Rightarrow> nat" where
  "skip_spaces b v e = (if v < e \<and> isspace (b ! v) then skip_spaces b (v + 1) e else v)"
  by pat_completeness auto
termination by (relation "measure (\<lambda>(b, v, e). e - v)") auto

declare skip_spaces.simps [simp del]

fun back_spaces :: "block \<Rightarrow> nat \<Rightarrow> nat" where
  "back_spaces b 0 = 0"
| "back_spaces b (Suc n) = (if isspace (b ! n) then back_spaces b n else Suc n)"

text \<open>
  The body of the loop for a line of length \<open>n\<close> in the buffer: \<open>None\<close> for \<open>continue\<close>, otherwise the
  end of the field name and the start of the value.
\<close>

definition field_in_line :: "block \<Rightarrow> nat \<Rightarrow> (nat \<times> nat) option res" where
  "field_in_line b n =
     res_bind (my_memchr b 58 n) (\<lambda>r.
       case r of
         None \<Rightarrow> Inr None
       | Some sep \<Rightarrow>
           (let sp = back_spaces b sep in
            Inr (if sp = 0 then None else Some (sp, skip_spaces b (sep + 1) n))))"

partial_function (option) GetNextField ::
    "sys_read \<Rightarrow> ProcCpuInfoReader \<Rightarrow> (byte list option \<times> ProcCpuInfoReader) res option" where
  "GetNextField rd r =
     (case (if pop_count r \<ge> 0 then PopLine (nat (pop_count r)) (line_reader r) else Inr (line_reader r)) of
        Inl e \<Rightarrow> Some (Inl e)
      | Inr s \<Rightarrow>
          (case GetNextLine rd s of
             Inl e \<Rightarrow> Some (Inl e)
           | Inr (None, s') \<Rightarrow> Some (Inr (None, r\<lparr>line_reader := s', pop_count := - 1\<rparr>))
           | Inr (Some n, s') \<Rightarrow>
               (case field_in_line (lr_buf s') n of
                  Inl e \<Rightarrow> Some (Inl e)
                | Inr None \<Rightarrow> GetNextField rd (r\<lparr>line_reader := s', pop_count := int n\<rparr>)
                | Inr (Some (sp, v)) \<Rightarrow>
                    Some (Inr (Some (take sp (lr_buf s')),
                      r\<lparr>line_reader := s'\<lparr>lr_buf := (lr_buf s')[sp := 0]\<rparr>, pop_count := int n,
                        value_at := v, value_len := n - v\<rparr>)))))"

definition GetValueAndLen :: "ProcCpuInfoReader \<Rightarrow> byte list" where
  "GetValueAndLen r = take (value_len r) (drop (value_at r) (lr_buf (line_reader r)))"

text \<open>The fields of a text, as the file format has them: name, spaces, colon, spaces, value.\<close>

definition parse_field :: "byte list \<Rightarrow> (byte list \<times> byte list) option" where
  "parse_field l =
     (let k = takeWhile (\<lambda>c. c \<noteq> 58) l; name = rev (dropWhile isspace (rev k)) in
      if k = l \<or> name = [] then None
      else Some (name, dropWhile isspace (drop (length k + 1) l)))"

text \<open>The loop of the client: \<open>while (reader.GetNextField(&field)) ... reader.GetValueAndLen(&len)\<close>.\<close>

partial_function (option) read_fields ::
    "sys_read \<Rightarrow> (byte list \<times> byte list) list \<Rightarrow> ProcCpuInfoReader \<Rightarrow> (byte list \<times> byte list) list res option" where
  "read_fields rd fs r =
     (case GetNextField rd r of
        None \<Rightarrow> None
      | Some (Inl e) \<Rightarrow> Some (Inl e)
      | Some (Inr (None, _)) \<Rightarrow> Some (Inr fs)
      | Some (Inr (Some f, r')) \<Rightarrow> read_fields rd (fs @ [(f, GetValueAndLen r')]) r')"

section \<open>Fields of a line\<close>

lemma memchr_from_index:
  "n \<le> length b \<Longrightarrow> my_memchr_from p b 58 n =
     Inr (if 58 \<in> set (take n b) then Some (p + length (takeWhile (\<lambda>c. c \<noteq> 58) (take n b))) else None)"
proof (induction n arbitrary: p b)
  case (Suc n)
  then obtain c b' where b: "b = c # b'" by (cases b) auto
  have "(uint c = 58) = (c = 58)" using word_uint_eq_iff [of c 58] by simp
  then show ?case using Suc b by auto
qed simp

lemma back_spaces_trim: "sep \<le> length b \<Longrightarrow> take (back_spaces b sep) b = rev (dropWhile isspace (rev (take sep b)))"
  by (induction sep) (auto simp: take_Suc_conv_app_nth)

lemma back_spaces_le: "back_spaces b sep \<le> sep"
  by (induction sep) auto

lemma skip_spaces_trim:
  "v \<le> e \<Longrightarrow> e \<le> length b \<Longrightarrow>
     v \<le> skip_spaces b v e \<and> skip_spaces b v e \<le> e \<and>
     take (e - skip_spaces b v e) (drop (skip_spaces b v e) b) = dropWhile isspace (take (e - v) (drop v b))"
proof (induction b v e rule: skip_spaces.induct)
  case (1 b v e)
  show ?case
  proof (cases "v < e \<and> isspace (b ! v)")
    case True
    then have "take (e - v) (drop v b) = b ! v # take (e - (v + 1)) (drop (v + 1) b)"
      using 1(3) by (metis Cons_nth_drop_Suc Suc_diff_Suc Suc_eq_plus1 less_le_trans take_Suc_Cons)
    then show ?thesis using 1 True by (simp add: skip_spaces.simps [of b v e])
  next
    case False
    then have "skip_spaces b v e = v" by (auto simp: skip_spaces.simps [of b v e])
    moreover have "dropWhile isspace (take (e - v) (drop v b)) = take (e - v) (drop v b)"
    proof (cases "v < e")
      case True
      then have "take (e - v) (drop v b) = b ! v # take (e - (v + 1)) (drop (v + 1) b)"
        using 1(3) by (metis Cons_nth_drop_Suc Suc_diff_Suc Suc_eq_plus1 less_le_trans take_Suc_Cons)
      then show ?thesis using True False by simp
    qed (use 1(2) in simp)
    ultimately show ?thesis using 1(2) by simp
  qed
qed

lemma field_in_line_parse:
  assumes "n \<le> length b" "l = take n b"
  shows "(case parse_field l of
      None \<Rightarrow> field_in_line b n = Inr None
    | Some (f, v) \<Rightarrow> \<exists>sp va. field_in_line b n = Inr (Some (sp, va)) \<and> take sp b = f \<and>
        take (n - va) (drop va b) = v \<and> sp < va \<and> va \<le> n)"
proof -
  let ?k = "takeWhile (\<lambda>c. c \<noteq> 58) l"
  have mc: "my_memchr b 58 n = Inr (if 58 \<in> set l then Some (length ?k) else None)"
    using memchr_from_index [OF assms(1), of 0] assms(2) by (simp add: my_memchr_def)
  have kl: "?k = l \<longleftrightarrow> 58 \<notin> set l" by (auto simp: takeWhile_eq_all_conv)
  show ?thesis
  proof (cases "58 \<in> set l")
    case False
    then show ?thesis using mc kl by (simp add: field_in_line_def parse_field_def)
  next
    case True
    have klen: "length ?k < length l" using True by (induction l) auto
    then have kn: "length ?k < n" using assms by simp
    have "take (length ?k) l = ?k" by (rule takeWhile_eq_take [symmetric])
    moreover have "take (length ?k) l = take (length ?k) b" using kn by (simp add: assms(2) min_def)
    ultimately have tk: "take (length ?k) b = ?k" by simp
    let ?sp = "back_spaces b (length ?k)" and ?va = "skip_spaces b (length ?k + 1) n"
    have nm: "take ?sp b = rev (dropWhile isspace (rev ?k))"
      using back_spaces_trim [of "length ?k" b] tk kn assms(1) by simp
    have sp0: "?sp = 0 \<longleftrightarrow> rev (dropWhile isspace (rev ?k)) = []"
      using nm [symmetric] kn assms(1) by auto
    have dl: "drop (length ?k + 1) l = take (n - (length ?k + 1)) (drop (length ?k + 1) b)"
      using assms(2) by (simp add: drop_take)
    have va: "length ?k + 1 \<le> ?va \<and> ?va \<le> n \<and> take (n - ?va) (drop ?va b) = dropWhile isspace (drop (length ?k + 1) l)"
      using skip_spaces_trim [of "length ?k + 1" n b] kn assms(1) dl by simp
    then show ?thesis using mc True kl nm sp0 back_spaces_le [of b "length ?k"]
      by (auto simp: field_in_line_def parse_field_def Let_def)
  qed
qed

section \<open>Fields of a file\<close>

text \<open>What is still to be read, after the pending \<open>PopLine\<close>.\<close>

definition cpu_rest :: "byte list \<Rightarrow> ProcCpuInfoReader \<Rightarrow> byte list" where
  "cpu_rest F r = drop (nat (pop_count r + 1)) (lr_pending F (line_reader r))"

definition cpu_ok :: "byte list \<Rightarrow> ProcCpuInfoReader \<Rightarrow> bool" where
  "cpu_ok F r \<longleftrightarrow> lr_inv F (line_reader r) \<and> - 1 \<le> pop_count r \<and> (0 \<le> pop_count r \<longrightarrow> nat (pop_count r) < buf_used (line_reader r))"

lemma cpu_popped:
  assumes "cpu_ok F r"
  shows "\<exists>s. (if pop_count r \<ge> 0 then PopLine (nat (pop_count r)) (line_reader r) else Inr (line_reader r)) = Inr s \<and>
    lr_inv F s \<and> lr_pending F s = cpu_rest F r"
proof (cases "0 \<le> pop_count r")
  case True
  then show ?thesis using PopLine_pending [of F "line_reader r" "nat (pop_count r)"] assms
    by (simp add: cpu_ok_def cpu_rest_def nat_add_distrib)
next
  case False
  then have "pop_count r = - 1" using assms by (simp add: cpu_ok_def)
  then show ?thesis using assms by (simp add: cpu_ok_def cpu_rest_def)
qed

text \<open>The fields of a text up to the first line that is too long.\<close>

definition fields_of :: "byte list \<Rightarrow> (byte list \<times> byte list) list" where
  "fields_of P = List.map_filter parse_field (takeWhile (\<lambda>l. length l < 512) (split_lines P))"

lemma fields_of_step:
  "fields_of P = (if P = [] \<or> 512 \<le> length (first_line P) then []
     else (case parse_field (first_line P) of None \<Rightarrow> [] | Some f \<Rightarrow> [f]) @ fields_of (drop (length (first_line P) + 1) P))"
  by (auto simp: fields_of_def split_lines.simps [of P] List.map_filter_simps split: option.splits)

lemma cpu_rest_after:
  "i \<le> n \<Longrightarrow> cpu_rest F (r\<lparr>line_reader := s\<lparr>lr_buf := (lr_buf s)[i := 0]\<rparr>, pop_count := int n, value_at := a, value_len := b\<rparr>) =
     drop (n + 1) (lr_pending F s)"
  by (simp add: cpu_rest_def lr_pending_def nat_add_distrib drop_take)

text \<open>One call returns the next field, or none when no further line has one.\<close>

lemma GetNextField_next:
  assumes "file_reads rd F" "cpu_ok F r"
  shows "case fields_of (cpu_rest F r) of
      [] \<Rightarrow> \<exists>r'. GetNextField rd r = Some (Inr (None, r'))
    | (f, v) # fs \<Rightarrow> \<exists>r'. GetNextField rd r = Some (Inr (Some f, r')) \<and> GetValueAndLen r' = v \<and> cpu_ok F r' \<and>
        fields_of (cpu_rest F r') = fs"
  using assms(2)
proof (induction "length (cpu_rest F r)" arbitrary: r rule: less_induct)
  case less
  let ?P = "cpu_rest F r"
  let ?l = "first_line ?P"
  let ?n = "length ?l"
  from cpu_popped [OF less.prems] obtain s where
    s: "(if pop_count r \<ge> 0 then PopLine (nat (pop_count r)) (line_reader r) else Inr (line_reader r)) = Inr s"
      "lr_inv F s" "lr_pending F s = ?P" by blast
  note d = GetNextLine_delivers [OF assms(1) s(2), unfolded s(3) line_delivered_def Let_def]
  note step = fields_of_step [of ?P] and run = GetNextField.simps [of rd r]
  show ?case
  proof (cases "?P = [] \<or> 512 \<le> ?n")
    case True
    then show ?thesis using d s(1) step run by auto
  next
    case False
    then obtain s' where s': "GetNextLine rd s = Inr (Some ?n, s')" "take ?n (lr_buf s') = ?l" "?n < buf_used s'"
        "lr_inv F s'" "drop (?n + 1) (lr_pending F s') = drop (?n + 1) ?P" using d by auto
    have b: "?n \<le> length (lr_buf s')" using s'(3,4) by (simp add: lr_inv_def)
    note fl = field_in_line_parse [OF b s'(2) [symmetric]]
    show ?thesis
    proof (cases "parse_field ?l")
      case None
      let ?r = "r\<lparr>line_reader := s', pop_count := int ?n\<rparr>"
      have ok: "cpu_ok F ?r" using s' by (simp add: cpu_ok_def)
      have rest: "cpu_rest F ?r = drop (?n + 1) ?P" using s'(5) by (simp add: cpu_rest_def nat_add_distrib)
      have e: "GetNextField rd r = GetNextField rd ?r" using s(1) s'(1) fl None by (subst run) simp
      have fo: "fields_of ?P = fields_of (cpu_rest F ?r)" using False None step by (simp add: rest)
      have "length (cpu_rest F ?r) < length ?P" using False by (simp add: rest)
      from less.hyps [OF this ok] show ?thesis unfolding fo e .
    next
      case (Some fv)
      obtain f v where fv: "fv = (f, v)" by (cases fv)
      with fl Some obtain sp va where sv: "field_in_line (lr_buf s') ?n = Inr (Some (sp, va))" "take sp (lr_buf s') = f"
        "take (?n - va) (drop va (lr_buf s')) = v" "sp < va" "va \<le> ?n" by auto
      let ?r = "r\<lparr>line_reader := s'\<lparr>lr_buf := (lr_buf s')[sp := 0]\<rparr>, pop_count := int ?n, value_at := va, value_len := ?n - va\<rparr>"
      have a: "GetNextField rd r = Some (Inr (Some f, ?r))" using s(1) s'(1) sv by (subst run) simp
      have b: "GetValueAndLen ?r = v" using sv by (simp add: GetValueAndLen_def)
      have c: "cpu_ok F ?r" using s' by (simp add: cpu_ok_def lr_inv_def)
      have rest: "cpu_rest F ?r = drop (?n + 1) ?P"
        using cpu_rest_after [of sp ?n] s'(5) sv(4,5) by simp
      have e: "fields_of ?P = (f, v) # fields_of (cpu_rest F ?r)"
        unfolding rest using False Some fv step by simp
      show ?thesis unfolding e list.case prod.case using a b c by blast
    qed
  qed
qed

lemma read_fields_all:
  assumes "file_reads rd F" "cpu_ok F r"
  shows "read_fields rd fs r = Some (Inr (fs @ fields_of (cpu_rest F r)))"
  using assms(2)
proof (induction "fields_of (cpu_rest F r)" arbitrary: r fs)
  case Nil
  then show ?case using GetNextField_next [OF assms(1) Nil(2)] by (auto simp: read_fields.simps [of rd fs r])
next
  case (Cons fv gs)
  obtain f v where fv: "fv = (f, v)" by (cases fv)
  from GetNextField_next [OF assms(1) Cons(3)] Cons(2) fv obtain r' where
    r': "GetNextField rd r = Some (Inr (Some f, r'))" "GetValueAndLen r' = v" "cpu_ok F r'" "fields_of (cpu_rest F r') = gs"
    by (auto split: list.splits)
  from Cons(1) [OF r'(4) [symmetric] r'(3), of "fs @ [(f, v)]"] show ?case
    using r' Cons(2) fv by (subst read_fields.simps) simp
qed

section \<open>Properties\<close>

text \<open>\<open>LineReader\<close> splits a file into its lines: for every way the kernel cuts the contents \<open>F\<close> into
  reads, the client loop ends without an assertion failure or an access outside the 512-byte buffer, and
  delivers exactly the lines of \<open>F\<close> (ended by a newline, a NUL byte or the end of the file) up to the
  first one of 512 bytes or more.\<close>

lemma line_reader_splits:
  assumes "file_reads rd F" "length junk = 512"
  shows "read_lines (GetNextLine rd) PopLine lr_buf [] (LineReader_ctor junk) =
    Some (Inr (takeWhile (\<lambda>l. length l < 512) (split_lines F)))"
  using reader.read_lines_split [of rd F "LineReader_ctor junk" "[]"] assms
  by (simp add: lr_inv_def LineReader_ctor_def lr_pending_def)

text \<open>A kernel that returns one byte per call, on a file with an empty line and no final newline.\<close>

definition byte_reads :: "byte list \<Rightarrow> sys_read" where
  "byte_reads F i pos cnt = Some (take 1 (drop pos F))"

lemma byte_reads_file: "file_reads (byte_reads F) F"
  by (auto simp: file_reads_def byte_reads_def intro: exI [of _ 1])

theorem line_reader_splits_witness:
  "read_lines (GetNextLine (byte_reads [97, 10, 10, 98, 99])) PopLine lr_buf [] (LineReader_ctor (replicate 512 7)) =
     Some (Inr [[97], [], [98, 99]])"
proof -
  have "takeWhile (\<lambda>l. length l < 512) (split_lines [97, 10, 10, 98, 99]) = [[97], [], [98, 99]]"
    by (simp add: split_lines.simps first_line_def is_eol_def)
  then show ?thesis using line_reader_splits [OF byte_reads_file, of "replicate 512 7" "[97, 10, 10, 98, 99]"] by simp
qed

text \<open>\<open>ProcCpuInfoReader\<close> reads the fields of \<open>/proc/cpuinfo\<close>: for every way the kernel cuts the contents
  into reads, the client loop ends without a fault and delivers, in order, name and value of exactly
  the lines that have a colon and a name before it, the spaces around the colon removed, up to the first
  line of 512 bytes or more.\<close>

lemma cpuinfo_fields:
  assumes "file_reads rd F" "length junk = 512"
  shows "read_fields rd [] (ProcCpuInfoReader_ctor junk) =
    Some (Inr (List.map_filter parse_field (takeWhile (\<lambda>l. length l < 512) (split_lines F))))"
proof -
  have "cpu_ok F (ProcCpuInfoReader_ctor junk)" "cpu_rest F (ProcCpuInfoReader_ctor junk) = F"
    using assms(2) by (simp_all add: cpu_ok_def cpu_rest_def ProcCpuInfoReader_ctor_def LineReader_ctor_def lr_inv_def lr_pending_def)
  then show ?thesis using read_fields_all [OF assms(1), of _ "[]"] by (simp add: fields_of_def)
qed

theorem cpuinfo_fields_witness:
  "read_fields (byte_reads (map of_char ''ab : c''@ [10])) [] (ProcCpuInfoReader_ctor (replicate 512 7)) =
     Some (Inr [(map of_char ''ab'', map of_char ''c'')])"
proof -
  have "List.map_filter parse_field (takeWhile (\<lambda>l. length l < 512) (split_lines (map of_char ''ab : c'' @ [10]))) =
      [(map of_char ''ab'', map of_char ''c'')]"
    by (simp add: split_lines.simps first_line_def is_eol_def parse_field_def List.map_filter_simps my_isspace_def spaces_def)
  then show ?thesis using cpuinfo_fields [OF byte_reads_file, of "replicate 512 7"] by simp
qed

end
