(* ===== verification/Ptrace_Dumper.thy ===== *)
theory Ptrace_Dumper
  imports Directory_Reader Line_Reader Sys_Calls "HOL-Library.Multiset" "HOL-Library.Sublist"
begin

text \<open>
  Access to the crashed process with \<open>ptrace\<close> and \<open>/proc\<close>
  (\<open>breakpad/src/client/linux/minidump_writer/linux_ptrace_dumper.cc\<close>, and
  \<open>dump_writer_common/thread_info.cc\<close> for ARM): paths, memory, the list of threads, stopping and resuming
  them, and their registers. The kernel is a parameter; it answers a failing call with a negative number.
\<close>

section \<open>Paths under /proc\<close>

text \<open>\<open>/proc/\<close>\<close>

definition proc_prefix :: block where
  "proc_prefix = [47, 112, 114, 111, 99, 47]"

text \<open>\<open>None\<close> stands for a null pointer; \<open>pid_t\<close> is converted to \<open>uintmax_t\<close>.\<close>

definition BuildProcPath :: "block option \<Rightarrow> int \<Rightarrow> block option \<Rightarrow> (bool \<times> block option) res" where
  "BuildProcPath path pid node =
     (case (path, node) of
        (Some p, Some nd) \<Rightarrow>
          (if pid \<le> 0 then Inr (False, path)
           else res_bind (my_strlen nd) (\<lambda>node_len.
             if node_len = 0 then Inr (False, path)
             else
               (let pid_len = my_uint_len (of_int pid);
                    total_length = 6 + pid_len + 1 + node_len in
                if total_length \<ge> 255 then Inr (False, path)
                else
                  res_bind (mem_copy p 0 proc_prefix 0 6) (\<lambda>p.
                  res_bind (my_uitos (drop 6 p) (of_int pid) pid_len) (\<lambda>q.
                  let p = take 6 p @ q in
                  if length p \<le> 6 + pid_len then Inl OutOfBounds
                  else
                    res_bind (mem_copy (p[6 + pid_len := 47]) (int (6 + pid_len + 1)) nd 0 (int node_len)) (\<lambda>p.
                    if length p \<le> total_length then Inl OutOfBounds
                    else Inr (True, Some (p[total_length := 0]))))))))
      | _ \<Rightarrow> Inr (False, path))"

section \<open>Memory of the process\<close>

text \<open>\<open>peek a\<close> is the word at address \<open>a\<close>, \<open>None\<close> when \<open>PTRACE_PEEKDATA\<close> fails.\<close>

function copy_words :: "(32 word \<Rightarrow> 32 word option) \<Rightarrow> 32 word \<Rightarrow> nat \<Rightarrow> nat \<Rightarrow> block \<Rightarrow> block res" where
  "copy_words peek src length1 done1 local =
     (if done1 < length1 then
        (let l = (if length1 - done1 > 4 then 4 else length1 - done1);
             tmp = (case peek (src + of_nat done1) of None \<Rightarrow> 0 | Some w \<Rightarrow> w) in
         if length local < done1 + l then Inl OutOfBounds
         else copy_words peek src length1 (done1 + l)
                (take done1 local @ take l (le_bytes 4 (unat tmp)) @ drop (done1 + l) local))
      else Inr local)"
  by pat_completeness auto
termination by (relation "measure (\<lambda>(peek, src, n, d, local). n - d)") auto

declare copy_words.simps [simp del]

definition CopyFromProcess :: "(32 word \<Rightarrow> 32 word option) \<Rightarrow> block \<Rightarrow> 32 word \<Rightarrow> nat \<Rightarrow> (bool \<times> block) res" where
  "CopyFromProcess peek dest src length1 = res_bind (copy_words peek src length1 0 dest) (\<lambda>b. Inr (True, b))"

section \<open>Threads\<close>

datatype pt_call =
    PtOpen block
  | PtClose int
  | PtAttach int
  | PtDetach int
  | PtWait int
  | PtGetRegSet int nat     \<comment> \<open>\<open>PTRACE_GETREGSET\<close> with the kind of the set\<close>
  | PtGetRegs int

record PtraceDumper =
  pt_pid :: int
  pt_threads :: "int list"
  pt_suspended :: bool

type_synonym 'a pt = "(PtraceDumper, pt_call, 'a) proc"

definition LinuxPtraceDumper_ctor :: "int \<Rightarrow> PtraceDumper" where
  "LinuxPtraceDumper_ctor pid = \<lparr>pt_pid = pid, pt_threads = [], pt_suspended = False\<rparr>"

text \<open>The loop around \<open>waitpid\<close> ends at the first answer that is not an interruption.\<close>

definition SuspendThread :: "pt_call ext \<Rightarrow> int \<Rightarrow> bool pt" where
  "SuspendThread x pid =
     pbind (pcall x (PtAttach pid)) (\<lambda>r.
     if r < 0 then pret False
     else pbind (HANDLE_EINTR x (PtWait pid)) (\<lambda>w.
       if w < 0 then pbind (pcall x (PtDetach pid)) (\<lambda>_. pret False) else pret True))"

definition ResumeThread :: "pt_call ext \<Rightarrow> int \<Rightarrow> bool pt" where
  "ResumeThread x pid = pbind (pcall x (PtDetach pid)) (\<lambda>r. pret (r \<ge> 0))"

text \<open>\<open>my_memmove\<close> of the elements behind index \<open>i\<close>, and \<open>resize\<close>.\<close>

definition drop_thread :: "nat \<Rightarrow> int list \<Rightarrow> int list" where
  "drop_thread i ts =
     (let moved = (if i < length ts - 1 then take i ts @ drop (i + 1) ts @ drop (length ts - 1) ts else ts) in
      take (length ts - 1) moved)"

text \<open>\<open>n\<close> is \<open>threads_.size() - i\<close>; a thread that cannot be stopped is removed and \<open>i\<close> stays.\<close>

fun suspend_from :: "pt_call ext \<Rightarrow> nat \<Rightarrow> nat \<Rightarrow> unit pt" where
  "suspend_from x i 0 = pret ()"
| "suspend_from x i (Suc n) =
     pbind pget (\<lambda>s. pbind (SuspendThread x (pt_threads s ! i)) (\<lambda>ok.
       if ok then suspend_from x (i + 1) n
       else pthen (pmod (\<lambda>s. s\<lparr>pt_threads := drop_thread i (pt_threads s)\<rparr>)) (suspend_from x i n)))"

definition ThreadsSuspend :: "pt_call ext \<Rightarrow> bool pt" where
  "ThreadsSuspend x = pbind pget (\<lambda>s.
     if pt_suspended s then pret True
     else pthen (suspend_from x 0 (length (pt_threads s)))
       (pthen (pmod (\<lambda>s. s\<lparr>pt_suspended := True\<rparr>)) (pbind pget (\<lambda>s. pret (length (pt_threads s) > 0)))))"

fun resume_all :: "pt_call ext \<Rightarrow> bool \<Rightarrow> int list \<Rightarrow> bool pt" where
  "resume_all x good [] = pret good"
| "resume_all x good (t # ts) = pbind (ResumeThread x t) (\<lambda>r. resume_all x (good \<and> r) ts)"

definition ThreadsResume :: "pt_call ext \<Rightarrow> bool pt" where
  "ThreadsResume x = pbind pget (\<lambda>s.
     if \<not> pt_suspended s then pret False
     else pbind (resume_all x True (pt_threads s)) (\<lambda>good.
       pthen (pmod (\<lambda>s. s\<lparr>pt_suspended := False\<rparr>)) (pret good)))"

text \<open>The body of the loop over \<open>/proc/pid/task\<close>: the last thread and the list so far.\<close>

definition task_entry :: "block \<Rightarrow> int \<times> int list \<Rightarrow> (int \<times> int list) res" where
  "task_entry dname = (\<lambda>(last_tid, ts).
     res_bind (my_strcmp False dname [46, 0]) (\<lambda>dot.
     if dot = 0 then Inr (last_tid, ts)
     else res_bind (my_strcmp False dname [46, 46, 0]) (\<lambda>dotdot.
       if dotdot = 0 then Inr (last_tid, ts)
       else res_bind (my_strtoui False dname) (\<lambda>r.
         case r of
           Some tid \<Rightarrow> if last_tid \<noteq> tid then Inr (tid, ts @ [tid]) else Inr (last_tid, ts)
         | None \<Rightarrow> Inr (last_tid, ts)))))"

text \<open>\<open>task\<close> and \<open>status\<close>, with their terminator.\<close>

definition task_node :: block where
  "task_node = [116, 97, 115, 107, 0]"

definition status_node :: block where
  "status_node = [115, 116, 97, 116, 117, 115, 0]"

definition EnumerateThreads :: "pt_call ext \<Rightarrow> sys_getdents \<Rightarrow> block \<Rightarrow> bool \<Rightarrow> block \<Rightarrow> bool pt" where
  "EnumerateThreads x gd task_path junk_eof junk =
     pbind pget (\<lambda>s. pbind (plift (BuildProcPath (Some task_path) (pt_pid s) (Some task_node))) (\<lambda>(ok, path).
     if \<not> ok then pret False
     else pbind (pcall x (PtOpen (the path))) (\<lambda>fd.
       if fd < 0 then pret False
       else pbind (\<lambda>st. case each_entry (GetNextEntry gd) PopEntry dent_name task_entry (- 1, pt_threads s) (DirectoryReader_ctor junk_eof junk) of
                          None \<Rightarrow> None | Some r \<Rightarrow> plift r st) (\<lambda>(_, ts).
         pthen (pmod (\<lambda>s. s\<lparr>pt_threads := ts\<rparr>))
           (pbind (pcall x (PtClose fd)) (\<lambda>_. pret True))))))"

section \<open>Registers\<close>

record ThreadInfo =
  tgid :: int
  ppid :: int
  stack_pointer :: "32 word"
  uregs :: "32 word list"     \<comment> \<open>\<open>struct user_regs\<close>, 18 words\<close>

record RawContextCPU =
  context_flags :: "32 word"
  iregs :: "32 word list"
  cpsr :: "32 word"

definition ti_GetInstructionPointer :: "ThreadInfo \<Rightarrow> 32 word" where
  "ti_GetInstructionPointer info = uregs info ! 15"

definition ti_FillCPUContext :: "ThreadInfo \<Rightarrow> RawContextCPU \<Rightarrow> RawContextCPU" where
  "ti_FillCPUContext info out = out\<lparr>context_flags := 0x40000006, iregs := map (\<lambda>i. uregs info ! i) [0..<16], cpsr := 0\<rparr>"

text \<open>The sets \<open>NT_PRSTATUS\<close> and \<open>NT_FPREGSET\<close>; \<open>regs\<close> is what the kernel stores.\<close>

definition ReadRegisterSet :: "pt_call ext \<Rightarrow> (int \<Rightarrow> 32 word list) \<Rightarrow> int \<Rightarrow> ThreadInfo \<Rightarrow> (bool \<times> ThreadInfo) pt" where
  "ReadRegisterSet x regs tid info =
     pbind (pcall x (PtGetRegSet tid 1)) (\<lambda>r.
     if r < 0 then pret (False, info)
     else pbind (pcall x (PtGetRegSet tid 2)) (\<lambda>f. pret (f \<ge> 0, info\<lparr>uregs := regs tid\<rparr>)))"

definition ReadRegisters :: "pt_call ext \<Rightarrow> (int \<Rightarrow> 32 word list) \<Rightarrow> int \<Rightarrow> ThreadInfo \<Rightarrow> (bool \<times> ThreadInfo) pt" where
  "ReadRegisters x regs tid info =
     pbind (pcall x (PtGetRegs tid)) (\<lambda>r. if r < 0 then pret (False, info) else pret (True, info\<lparr>uregs := regs tid\<rparr>))"

text \<open>\<open>Tgid:\t\<close> and \<open>PPid:\t\<close>; a number that cannot be read leaves the member as it is.\<close>

definition tgid_key :: block where "tgid_key = [84, 103, 105, 100, 58, 9, 0]"

definition ppid_key :: block where "ppid_key = [80, 80, 105, 100, 58, 9, 0]"

definition status_line :: "block \<Rightarrow> ThreadInfo \<Rightarrow> ThreadInfo res" where
  "status_line line info =
     res_bind (my_strncmp False tgid_key line 6) (\<lambda>t.
     if t = 0 then res_bind (my_strtoui False (drop 6 line)) (\<lambda>r.
       Inr (case r of Some v \<Rightarrow> info\<lparr>tgid := v\<rparr> | None \<Rightarrow> info))
     else res_bind (my_strncmp False ppid_key line 6) (\<lambda>p.
       if p = 0 then res_bind (my_strtoui False (drop 6 line)) (\<lambda>r.
         Inr (case r of Some v \<Rightarrow> info\<lparr>ppid := v\<rparr> | None \<Rightarrow> info))
       else Inr info))"

definition GetThreadInfoByIndex ::
    "pt_call ext \<Rightarrow> (int \<Rightarrow> sys_read) \<Rightarrow> (int \<Rightarrow> 32 word list) \<Rightarrow> block \<Rightarrow> block \<Rightarrow> nat \<Rightarrow> ThreadInfo \<Rightarrow> (bool \<times> ThreadInfo) pt" where
  "GetThreadInfoByIndex x rd regs status_path junk index1 info =
     pbind pget (\<lambda>s.
     if index1 \<ge> length (pt_threads s) then pret (False, info)
     else let tid = pt_threads s ! index1 in
       pbind (plift (BuildProcPath (Some status_path) tid (Some status_node))) (\<lambda>(ok, path).
       if \<not> ok then pret (False, info)
       else pbind (pcall x (PtOpen (the path))) (\<lambda>fd.
         if fd < 0 then pret (False, info)
         else pbind (\<lambda>st. case each_line (GetNextLine (rd tid)) PopLine lr_buf status_line (info\<lparr>ppid := - 1, tgid := - 1\<rparr>) (LineReader_ctor junk) of
                            None \<Rightarrow> None | Some r \<Rightarrow> plift r st) (\<lambda>info.
           pbind (pcall x (PtClose fd)) (\<lambda>_.
           if ppid info = - 1 \<or> tgid info = - 1 then pret (False, info)
           else pbind (ReadRegisterSet x regs tid info) (\<lambda>(ok, info).
             pbind (if ok then pret (True, info) else ReadRegisters x regs tid info) (\<lambda>(ok, info).
             if \<not> ok then pret (False, info) else pret (True, info\<lparr>stack_pointer := uregs info ! 13\<rparr>))))))))"

section \<open>Paths are built in bounds\<close>

lemma my_strlen_cstr: "0 \<notin> set cs \<Longrightarrow> my_strlen (cs @ 0 # rest) = Inr (length cs)"
proof -
  have "0 \<notin> set cs \<Longrightarrow> my_strlen_from n (cs @ 0 # rest) = Inr (n + length cs)" for n by (induction cs arbitrary: n) auto
  then show "0 \<notin> set cs \<Longrightarrow> my_strlen (cs @ 0 # rest) = Inr (length cs)" by (simp add: my_strlen_def)
qed

text \<open>The path is \<open>/proc/<pid>/<node>\<close> with its terminator, or nothing is written.\<close>

lemma BuildProcPath_ok:
  assumes "0 < pid" "pid \<le> 2147483647" "0 \<notin> set nd" "nd \<noteq> []" "length path = 255"
  shows "BuildProcPath (Some path) pid (Some (nd @ 0 # rest)) =
    (let p = proc_prefix @ dec_bytes (nat pid) @ 47 # nd in
     if length p < 255 then Inr (True, Some (p @ 0 # drop (length p + 1) path)) else Inr (False, Some path))"
proof -
  let ?k = "length (dec_bytes (nat pid))" and ?i = "of_int pid :: 64 word"
  have u: "unat ?i = nat pid"
  proof -
    have "uint ?i = pid" using assms(1,2) by (simp add: uint_word_of_int)
    then show ?thesis unfolding unat_eq_nat_uint by (rule arg_cong)
  qed
  have len: "my_uint_len ?i = ?k" by (simp add: my_uint_len_digits u dec_bytes_def)
  have str: "my_strlen (nd @ 0 # rest) = Inr (length nd)" by (rule my_strlen_cstr [OF assms(3)])
  show ?thesis
  proof (cases "6 + ?k + 1 + length nd < 255")
    case True
    have c1: "mem_copy path 0 proc_prefix 0 6 = Inr (proc_prefix @ drop 6 path)"
      using assms(5) by (simp add: mem_copy_def proc_prefix_def)
    have c2: "my_uitos (drop 6 path) ?i (my_uint_len ?i) = Inr (dec_bytes (nat pid) @ drop ?k (drop 6 path))"
      using uitos_dec_bytes [of ?i "drop 6 path"] True assms(5) unfolding u len by simp
    let ?A = "proc_prefix @ dec_bytes (nat pid)"
    have A: "length ?A = 6 + ?k" by (simp add: proc_prefix_def)
    have pre: "length proc_prefix = 6" "take 6 (proc_prefix @ X) = proc_prefix" "drop 6 (proc_prefix @ X) = X" for X
      by (simp_all add: proc_prefix_def)
    have tail: "drop (6 + ?k) path = path ! (6 + ?k) # drop (7 + ?k) path"
      using True assms(5) Cons_nth_drop_Suc [of "6 + ?k" path] by (simp add: numeral_eq_Suc)
    have upd: "(?A @ drop (6 + ?k) path)[6 + ?k := 47] = ?A @ 47 # drop (7 + ?k) path"
      using list_update_length [of ?A "path ! (6 + ?k)" "drop (7 + ?k) path" 47] unfolding A tail append.assoc .
    have c3: "mem_copy (?A @ 47 # drop (7 + ?k) path) (int (6 + ?k + 1)) (nd @ 0 # rest) 0 (int (length nd)) =
        Inr (?A @ 47 # nd @ drop (7 + ?k + length nd) path)"
      using mem_copy_behind [of nd "drop (7 + ?k) path" "int (6 + ?k + 1)" "?A @ [47]" "0 # rest"] True assms(5) A
      by (simp add: add.commute)
    have c4: "drop (7 + ?k + length nd) path = path ! (7 + ?k + length nd) # drop (8 + ?k + length nd) path"
      using True assms(5) Cons_nth_drop_Suc [of "7 + ?k + length nd" path] by (simp add: numeral_eq_Suc)
    let ?B = "?A @ 47 # nd"
    have B: "length ?B = 6 + ?k + 1 + length nd" using A by simp
    have c5: "(?B @ drop (7 + ?k + length nd) path)[6 + ?k + 1 + length nd := 0] = ?B @ 0 # drop (8 + ?k + length nd) path"
      using list_update_length [of ?B "path ! (7 + ?k + length nd)" "drop (8 + ?k + length nd) path" 0, unfolded B]
      unfolding c4 append.assoc append_Cons .
    have "BuildProcPath (Some path) pid (Some (nd @ 0 # rest)) = Inr (True, Some (?B @ 0 # drop (8 + ?k + length nd) path))"
      using assms(1,4,5) True str c1 c2 upd c3 c5 pre by (simp add: BuildProcPath_def Let_def len add.commute)
    then show ?thesis using True by (simp add: Let_def proc_prefix_def numeral_eq_Suc)
  next
    case False
    then show ?thesis using assms(1,4) str len by (simp add: BuildProcPath_def Let_def proc_prefix_def)
  qed
qed

section \<open>Memory is copied word by word\<close>

definition peeked :: "(32 word \<Rightarrow> 32 word option) \<Rightarrow> 32 word \<Rightarrow> nat \<Rightarrow> byte list" where
  "peeked peek a k = le_bytes 4 (unat (case peek (a + of_nat (4 * k)) of None \<Rightarrow> 0 | Some w \<Rightarrow> w))"

lemma peeked_length [simp]: "length (peeked peek a k) = 4"
  by (simp add: peeked_def)

lemma peeked_shift: "peeked peek (a + 4) k = peeked peek a (Suc k)"
  by (simp add: peeked_def add.assoc)

lemma copy_words_ok:
  assumes "n \<le> length (pre @ rest)" "length pre \<le> n"
  shows "copy_words peek src n (length pre) (pre @ rest) =
    Inr (pre @ take (n - length pre) (concat (map (peeked peek (src + of_nat (length pre))) [0..<(n - length pre + 3) div 4])) @ drop n (pre @ rest))"
  using assms
proof (induction "n - length pre" arbitrary: pre rest rule: less_induct)
  case less
  show ?case
  proof (cases "length pre < n")
    case True
    let ?l = "if n - length pre > 4 then 4 else n - length pre"
    let ?w = "peeked peek (src + of_nat (length pre)) 0"
    let ?pre = "pre @ take ?l ?w"
    have step: "copy_words peek src n (length pre) (pre @ rest) = copy_words peek src n (length ?pre) (?pre @ drop ?l rest)"
    proof -
      have b: "\<not> length (pre @ rest) < length pre + ?l" using True less.prems by auto
      have w: "?w = le_bytes 4 (unat (case peek (src + of_nat (length pre)) of None \<Rightarrow> 0 | Some w \<Rightarrow> w))"
        by (simp add: peeked_def)
      have "copy_words peek src n (length pre) (pre @ rest) =
          copy_words peek src n (length pre + ?l) (take (length pre) (pre @ rest) @ take ?l ?w @ drop (length pre + ?l) (pre @ rest))"
        unfolding w by (subst copy_words.simps) (simp only: if_P [OF True] Let_def if_not_P [OF b])
      moreover have "length ?pre = length pre + ?l" by simp
      ultimately show ?thesis by (simp only: take_append drop_append) simp
    qed
    have l: "length ?pre = length pre + ?l" "n - length ?pre < n - length pre" "length ?pre \<le> n" "n \<le> length (?pre @ drop ?l rest)"
      using True less.prems by auto
    show ?thesis
    proof (cases "n - length pre > 4")
      case more: True
      have up: "(n - length pre + 3) div 4 = Suc ((n - length ?pre + 3) div 4)" using more by simp
      have "map (peeked peek (src + of_nat (length pre))) [0..<(n - length pre + 3) div 4] =
          ?w # map (peeked peek (src + of_nat (length ?pre))) [0..<(n - length ?pre + 3) div 4]"
        unfolding up upt_conv_Cons [OF zero_less_Suc] map_Suc_upt [symmetric] using more
        by (simp add: peeked_shift [symmetric] comp_def add.assoc)
      then show ?thesis unfolding step less.hyps [OF l(2) l(4) l(3)] using more by simp
    next
      case False
      then have "n - length ?pre = 0" "(n - length pre + 3) div 4 = 1" using True by auto
      then show ?thesis unfolding step less.hyps [OF l(2) l(4) l(3)] using False True by simp
    qed
  next
    case False
    then show ?thesis using less.prems by (subst copy_words.simps) simp
  qed
qed

section \<open>Stopping and resuming\<close>

definition pt_attempts :: "pt_call list \<Rightarrow> int list" where
  "pt_attempts cs = concat (map (\<lambda>c. case c of PtAttach t \<Rightarrow> [t] | _ \<Rightarrow> []) cs)"

text \<open>The threads that were attached to, and those that were detached from.\<close>

fun attached :: "pt_call ext \<Rightarrow> pt_call list \<Rightarrow> pt_call list \<Rightarrow> int list" where
  "attached x h [] = []"
| "attached x h (PtAttach t # cs) = (if x h (PtAttach t) < 0 then [] else [t]) @ attached x (h @ [PtAttach t]) cs"
| "attached x h (c # cs) = attached x (h @ [c]) cs"

definition detached :: "pt_call list \<Rightarrow> int list" where
  "detached cs = concat (map (\<lambda>c. case c of PtDetach t \<Rightarrow> [t] | _ \<Rightarrow> []) cs)"

lemma pt_trace_simps [simp]:
  "pt_attempts [] = []" "pt_attempts (c # cs) = (case c of PtAttach t \<Rightarrow> [t] | _ \<Rightarrow> []) @ pt_attempts cs"
  "detached [] = []" "detached (c # cs) = (case c of PtDetach t \<Rightarrow> [t] | _ \<Rightarrow> []) @ detached cs"
  "pt_attempts (cs @ ds) = pt_attempts cs @ pt_attempts ds" "detached (cs @ ds) = detached cs @ detached ds"
  by (simp_all add: pt_attempts_def detached_def)

lemma attached_append [simp]: "attached x h (cs @ ds) = attached x h cs @ attached x (h @ cs) ds"
  by (induction x h cs rule: attached.induct) simp_all

lemma waits_quiet [simp]:
  "pt_attempts (replicate n (PtWait t)) = []" "detached (replicate n (PtWait t)) = []" "attached x h (replicate n (PtWait t)) = []"
  by (induction n arbitrary: h) simp_all

text \<open>A thread counts as stopped or it is left alone.\<close>

lemma SuspendThread_run:
  assumes "\<forall>t. settles x (PtWait t)"
  shows "\<exists>ok cs. SuspendThread x t (s, h) = Some (Inr (ok, s, h @ cs)) \<and> pt_attempts cs = [t] \<and>
    mset (attached x h cs) = mset (detached cs) + (if ok then {#t#} else {#})"
proof (cases "x h (PtAttach t) < 0")
  case True
  then show ?thesis by (intro exI [of _ False]) (simp add: SuspendThread_def)
next
  case False
  obtain n where w: "HANDLE_EINTR x (PtWait t) (s, h @ [PtAttach t]) =
      Some (Inr (x ((h @ [PtAttach t]) @ replicate n (PtWait t)) (PtWait t), (s, (h @ [PtAttach t]) @ replicate (Suc n) (PtWait t))))"
    using assms by (metis HANDLE_EINTR_settles)
  then show ?thesis
    using False by (cases "x ((h @ [PtAttach t]) @ replicate n (PtWait t)) (PtWait t) < 0") (force simp: SuspendThread_def)+
qed

lemma drop_thread_at: "drop_thread (length as) (as @ t # bs) = as @ bs"
  by (cases bs rule: rev_cases) (auto simp: drop_thread_def Let_def)

lemma suspend_from_run:
  assumes "\<forall>t. settles x (PtWait t)" "pt_threads s = as @ bs"
  shows "\<exists>ts cs. suspend_from x (length as) (length bs) (s, h) = Some (Inr ((), s\<lparr>pt_threads := as @ ts\<rparr>, h @ cs)) \<and> subseq ts bs \<and>
    pt_attempts cs = bs \<and> mset (attached x h cs) = mset (detached cs) + mset ts"
  using assms(2)
proof (induction bs arbitrary: as s h)
  case (Cons t bs)
  from SuspendThread_run [OF assms(1)] obtain ok cs where c: "SuspendThread x t (s, h) = Some (Inr (ok, s, h @ cs))"
    "pt_attempts cs = [t]" "mset (attached x h cs) = mset (detached cs) + (if ok then {#t#} else {#})" by metis
  have nth: "pt_threads s ! length as = t" using Cons.prems by simp
  show ?case
  proof (cases ok)
    case True
    have "pt_threads s = (as @ [t]) @ bs" using Cons.prems by simp
    from Cons.IH [OF this, of "h @ cs"] obtain ts ds where
      "suspend_from x (length (as @ [t])) (length bs) (s, h @ cs) = Some (Inr ((), s\<lparr>pt_threads := as @ t # ts\<rparr>, h @ cs @ ds))"
      "subseq ts bs" "pt_attempts ds = bs" "mset (attached x (h @ cs) ds) = mset (detached ds) + mset ts" by auto
    with c nth True show ?thesis by (intro exI [of _ "t # ts"] exI [of _ "cs @ ds"]) simp
  next
    case False
    let ?s = "s\<lparr>pt_threads := as @ bs\<rparr>"
    from Cons.IH [of ?s as "h @ cs"] obtain ts ds where
      "suspend_from x (length as) (length bs) (?s, h @ cs) = Some (Inr ((), s\<lparr>pt_threads := as @ ts\<rparr>, h @ cs @ ds))"
      "subseq ts bs" "pt_attempts ds = bs" "mset (attached x (h @ cs) ds) = mset (detached ds) + mset ts" by auto
    with c nth False Cons.prems show ?thesis by (intro exI [of _ ts] exI [of _ "cs @ ds"]) (simp add: drop_thread_at list_emb_Cons)
  qed
qed simp

lemma resume_all_run:
  "\<exists>g. resume_all x good ts (s, h) = Some (Inr (g, s, h @ map PtDetach ts))"
proof (induction ts arbitrary: good h)
  case (Cons t ts)
  from Cons.IH [of "good \<and> 0 \<le> x h (PtDetach t)" "h @ [PtDetach t]"] show ?case by (simp add: ResumeThread_def)
qed simp

section \<open>Listing the threads\<close>

text \<open>Consecutive repetitions are dropped.\<close>

fun dedup :: "int \<Rightarrow> int list \<Rightarrow> int list" where
  "dedup l [] = []"
| "dedup l (t # ts) = (if l = t then dedup l ts else t # dedup t ts)"

lemma dedup_remdups_adj: "remdups_adj (t # ts) = t # dedup t ts"
  by (induction ts arbitrary: t) auto

lemma dedup_start: "\<forall>t \<in> set ts. 0 \<le> t \<Longrightarrow> dedup (- 1) ts = remdups_adj ts"
  by (cases ts) (auto simp: dedup_remdups_adj)

definition task_name :: "byte list \<Rightarrow> bool" where
  "task_name n \<longleftrightarrow> n \<noteq> [46] \<and> n \<noteq> [46, 46]"

lemma dec_bytes_front: "\<exists>c cs. dec_bytes n = c # cs \<and> 48 \<le> uint c"
proof -
  obtain d ds where d: "digits n = d # ds" by (cases "digits n") auto
  then have "d < 10" using digits_small [of d n] by simp
  then have "48 \<le> uint (digit_byte d)" using c_char_digit [of d False] by (simp add: c_char_def)
  then show ?thesis using d by (simp add: dec_bytes_def)
qed

lemma task_name_dec_bytes: "task_name (dec_bytes n)"
  using dec_bytes_front [of n] by (auto simp: task_name_def)

lemma task_entry_dots: "\<not> task_name n \<Longrightarrow> task_entry (n @ 0 # rest) acc = Inr acc"
  by (cases acc) (auto simp: task_name_def task_entry_def c_char_def)

lemma task_entry_number:
  assumes "t \<le> 2147483647"
  shows "task_entry (dec_bytes t @ 0 # rest) (l, ts) = Inr (if l \<noteq> int t then (int t, ts @ [int t]) else (l, ts))"
proof -
  obtain c cs where c: "dec_bytes t = c # cs" "48 \<le> uint c" using dec_bytes_front by blast
  then have "my_strcmp False (dec_bytes t @ 0 # rest) (46 # bs) = Inr 1" for bs by (simp add: c_char_def)
  then show ?thesis using strtoui_dec_bytes [OF assms, of False rest] by (simp add: task_entry_def)
qed

definition task_fold :: "byte list \<Rightarrow> int \<times> int list \<Rightarrow> int \<times> int list" where
  "task_fold n acc = (case task_entry (n @ [0]) acc of Inr r \<Rightarrow> r | Inl _ \<Rightarrow> acc)"

lemma task_fold_run:
  assumes "filter task_name names = map dec_bytes tids" "\<forall>t \<in> set tids. t \<le> 2147483647"
  shows "\<exists>l'. fold task_fold names (l, ts) = (l', ts @ dedup l (map int tids))"
  using assms
proof (induction names arbitrary: l ts tids)
  case (Cons n names)
  show ?case
  proof (cases "task_name n")
    case True
    then obtain t tids' where t: "tids = t # tids'" "n = dec_bytes t" "filter task_name names = map dec_bytes tids'"
      using Cons.prems(1) by auto
    have le: "t \<le> 2147483647" using Cons.prems(2) t(1) by simp
    have "task_fold n (l, ts) = (if l \<noteq> int t then (int t, ts @ [int t]) else (l, ts))"
      using task_entry_number [OF le, of "[]" l ts] by (simp add: task_fold_def t(2))
    then show ?thesis using Cons.IH [OF t(3), of l ts] Cons.IH [OF t(3), of "int t" "ts @ [int t]"] Cons.prems(2) t(1)
      by (cases "l = int t") simp_all
  next
    case False
    then have "task_fold n (l, ts) = (l, ts)" using task_entry_dots [of n "[]" "(l, ts)"] by (simp add: task_fold_def)
    then show ?thesis using Cons False by simp
  qed
qed simp

section \<open>Reading the status of a thread\<close>

text \<open>Lines that hold neither of the two numbers.\<close>

definition other_line :: "byte list \<Rightarrow> bool" where
  "other_line l \<longleftrightarrow> take 6 l \<noteq> butlast tgid_key \<and> take 6 l \<noteq> butlast ppid_key"

definition status_fold :: "byte list \<Rightarrow> ThreadInfo \<Rightarrow> ThreadInfo" where
  "status_fold l info = (case status_line (l @ [0]) info of Inr i \<Rightarrow> i | Inl _ \<Rightarrow> info)"

lemma status_keys:
  "0 \<notin> set l \<Longrightarrow> \<exists>v. my_strncmp False tgid_key (l @ 0 # rest) 6 = Inr v \<and> (v = 0 \<longleftrightarrow> take 6 l = butlast tgid_key)"
  "0 \<notin> set l \<Longrightarrow> \<exists>v. my_strncmp False ppid_key (l @ 0 # rest) 6 = Inr v \<and> (v = 0 \<longleftrightarrow> take 6 l = butlast ppid_key)"
proof -
  have k: "0 \<notin> set (butlast tgid_key)" "0 \<notin> set (butlast ppid_key)" "length (butlast tgid_key) = 6" "length (butlast ppid_key) = 6"
    "butlast tgid_key @ [0] = tgid_key" "butlast ppid_key @ [0] = ppid_key" by (simp_all add: tgid_key_def ppid_key_def)
  show "0 \<notin> set l \<Longrightarrow> \<exists>v. my_strncmp False tgid_key (l @ 0 # rest) 6 = Inr v \<and> (v = 0 \<longleftrightarrow> take 6 l = butlast tgid_key)"
    using strncmp_key [OF k(1), of l False "[0]" rest] unfolding k .
  show "0 \<notin> set l \<Longrightarrow> \<exists>v. my_strncmp False ppid_key (l @ 0 # rest) 6 = Inr v \<and> (v = 0 \<longleftrightarrow> take 6 l = butlast ppid_key)"
    using strncmp_key [OF k(2), of l False "[0]" rest] unfolding k .
qed

lemma status_line_other:
  assumes "0 \<notin> set l" "other_line l"
  shows "status_line (l @ 0 # rest) info = Inr info"
proof -
  obtain v w where "my_strncmp False tgid_key (l @ 0 # rest) 6 = Inr v" "v \<noteq> 0"
    "my_strncmp False ppid_key (l @ 0 # rest) 6 = Inr w" "w \<noteq> 0"
    using status_keys [OF assms(1), of rest] assms(2) unfolding other_line_def by blast
  then show ?thesis by (simp add: status_line_def)
qed

lemma dec_bytes_nonzero: "0 \<notin> set (dec_bytes n)"
  using dec_bytes_set [of 0 n] by auto

lemma status_line_tgid:
  assumes "g \<le> 2147483647"
  shows "status_line ((butlast tgid_key @ dec_bytes g) @ 0 # rest) info = Inr (info\<lparr>tgid := int g\<rparr>)"
proof -
  have "0 \<notin> set (butlast tgid_key @ dec_bytes g)" "take 6 (butlast tgid_key @ dec_bytes g) = butlast tgid_key"
    using dec_bytes_nonzero by (auto simp: tgid_key_def)
  then have "my_strncmp False tgid_key ((butlast tgid_key @ dec_bytes g) @ 0 # rest) 6 = Inr 0"
    using status_keys(1) [of "butlast tgid_key @ dec_bytes g" rest] by auto
  moreover have "drop 6 ((butlast tgid_key @ dec_bytes g) @ 0 # rest) = dec_bytes g @ 0 # rest" by (simp add: tgid_key_def)
  ultimately show ?thesis using strtoui_dec_bytes [OF assms, of False rest] by (simp add: status_line_def)
qed

lemma status_line_ppid:
  assumes "p \<le> 2147483647"
  shows "status_line ((butlast ppid_key @ dec_bytes p) @ 0 # rest) info = Inr (info\<lparr>ppid := int p\<rparr>)"
proof -
  have nz: "0 \<notin> set (butlast ppid_key @ dec_bytes p)" "take 6 (butlast ppid_key @ dec_bytes p) = butlast ppid_key"
    "butlast ppid_key \<noteq> butlast tgid_key"
    using dec_bytes_nonzero by (auto simp: ppid_key_def tgid_key_def)
  then have "my_strncmp False ppid_key ((butlast ppid_key @ dec_bytes p) @ 0 # rest) 6 = Inr 0"
    using status_keys(2) [of "butlast ppid_key @ dec_bytes p" rest] by auto
  moreover obtain v where "my_strncmp False tgid_key ((butlast ppid_key @ dec_bytes p) @ 0 # rest) 6 = Inr v" "v \<noteq> 0"
    using status_keys(1) [OF nz(1), of rest] nz(2,3) by auto
  moreover have "drop 6 ((butlast ppid_key @ dec_bytes p) @ 0 # rest) = dec_bytes p @ 0 # rest" by (simp add: ppid_key_def)
  ultimately show ?thesis using strtoui_dec_bytes [OF assms, of False rest] by (simp add: status_line_def)
qed

lemma fold_other: "\<forall>l \<in> set ls. 0 \<notin> set l \<and> other_line l \<Longrightarrow> fold status_fold ls info = info"
  by (induction ls) (simp_all add: status_fold_def status_line_other)

lemma split_lines_nonzero: "l \<in> set (split_lines F) \<Longrightarrow> 0 \<notin> set l"
proof (induction F rule: split_lines.induct)
  case (1 F)
  have f: "0 \<notin> set (first_line F)" by (auto simp: first_line_def is_eol_def dest: set_takeWhileD)
  show ?case
  proof (cases "F = []")
    case True
    then show ?thesis using 1(2) by (simp add: split_lines.simps)
  next
    case False
    then have "l = first_line F \<or> l \<in> set (split_lines (drop (length (first_line F) + 1) F))"
      using 1(2) by (subst (asm) split_lines.simps) simp
    then show ?thesis using 1(1) [OF False] f by blast
  qed
qed

text \<open>The loop over \<open>/proc/tid/status\<close> finds both numbers.\<close>

lemma status_read:
  assumes "file_reads rd F" "length junk = 512"
    and "split_lines F = l1 @ (butlast tgid_key @ dec_bytes g) # l2 @ (butlast ppid_key @ dec_bytes p) # l3"
    and "\<forall>l \<in> set (l1 @ l2 @ l3). other_line l" "\<forall>l \<in> set (split_lines F). length l < 512"
    and "g \<le> 2147483647" "p \<le> 2147483647"
  shows "each_line (GetNextLine rd) PopLine lr_buf status_line info (LineReader_ctor junk) = Some (Inr (info\<lparr>tgid := int g, ppid := int p\<rparr>))"
proof -
  have nz: "l \<in> set (split_lines F) \<Longrightarrow> 0 \<notin> set l" for l by (rule split_lines_nonzero)
  have body: "status_line (l @ 0 # rest) acc = Inr (status_fold l acc)" if in_F: "l \<in> set (split_lines F)" for l rest acc
  proof -
    consider "other_line l" | "l = butlast tgid_key @ dec_bytes g" | "l = butlast ppid_key @ dec_bytes p"
      using in_F assms(4) unfolding assms(3) by auto
    then show ?thesis
    proof cases
      case 1
      then show ?thesis using status_line_other [OF nz [OF in_F]] by (simp add: status_fold_def)
    next
      case 2
      then show ?thesis using status_line_tgid [OF assms(6)] by (simp add: status_fold_def)
    next
      case 3
      then show ?thesis using status_line_ppid [OF assms(7)] by (simp add: status_fold_def)
    qed
  qed
  have "each_line (GetNextLine rd) PopLine lr_buf status_line info (LineReader_ctor junk) =
      Some (Inr (fold status_fold (takeWhile (\<lambda>l. length l < 512) (split_lines (lr_pending F (LineReader_ctor junk)))) info))"
    using assms(1,2) by (intro reader.each_line_fold [where A = "set (split_lines F)"] body)
      (simp_all add: lr_inv_def lr_pending_def LineReader_ctor_def)
  moreover have "takeWhile (\<lambda>l. length l < 512) (split_lines (lr_pending F (LineReader_ctor junk))) = split_lines F"
    using assms(5) by (simp add: lr_pending_def LineReader_ctor_def)
  moreover have "fold status_fold (split_lines F) info = info\<lparr>tgid := int g, ppid := int p\<rparr>"
    using fold_other [of l1] fold_other [of l2] fold_other [of l3] nz assms(4) status_line_tgid [OF assms(6), of "[]"] status_line_ppid [OF assms(7), of "[]"]
    unfolding assms(3) by (simp add: status_fold_def)
  ultimately show ?thesis by simp
qed

lemma registers_run:
  "\<exists>ok info' cs. pbind (ReadRegisterSet x regs t info) (\<lambda>(ok, info). pbind (if ok then pret (True, info) else ReadRegisters x regs t info) (\<lambda>(ok, info).
      if \<not> ok then pret (False, info) else pret (True, info\<lparr>stack_pointer := uregs info ! 13\<rparr>))) (s, h) = Some (Inr ((ok, info'), s, h @ cs)) \<and>
    tgid info' = tgid info \<and> ppid info' = ppid info \<and> (ok \<longrightarrow> uregs info' = regs t \<and> stack_pointer info' = regs t ! 13) \<and>
    set cs \<subseteq> {PtGetRegSet t 1, PtGetRegSet t 2, PtGetRegs t}" (is "\<exists>ok info' cs. ?P ok info' cs")
proof -
  let ?j = "info\<lparr>uregs := regs t\<rparr>"
  let ?sp = "?j\<lparr>stack_pointer := regs t ! 13\<rparr>"
  let ?h1 = "h @ [PtGetRegSet t 1]"
  consider "x h (PtGetRegSet t 1) < 0" "x ?h1 (PtGetRegs t) < 0" | "x h (PtGetRegSet t 1) < 0" "0 \<le> x ?h1 (PtGetRegs t)"
    | "0 \<le> x h (PtGetRegSet t 1)" "0 \<le> x ?h1 (PtGetRegSet t 2)"
    | "0 \<le> x h (PtGetRegSet t 1)" "x ?h1 (PtGetRegSet t 2) < 0" "x (?h1 @ [PtGetRegSet t 2]) (PtGetRegs t) < 0"
    | "0 \<le> x h (PtGetRegSet t 1)" "x ?h1 (PtGetRegSet t 2) < 0" "0 \<le> x (?h1 @ [PtGetRegSet t 2]) (PtGetRegs t)" by linarith
  then show ?thesis
  proof cases
    case 1
    then have "?P False info [PtGetRegSet t 1, PtGetRegs t]" by (simp add: ReadRegisterSet_def ReadRegisters_def)
    then show ?thesis by blast
  next
    case 2
    then have "?P True ?sp [PtGetRegSet t 1, PtGetRegs t]" by (simp add: ReadRegisterSet_def ReadRegisters_def)
    then show ?thesis by blast
  next
    case 3
    then have "?P True ?sp [PtGetRegSet t 1, PtGetRegSet t 2]" by (simp add: ReadRegisterSet_def)
    then show ?thesis by blast
  next
    case 4
    then have "?P False ?j [PtGetRegSet t 1, PtGetRegSet t 2, PtGetRegs t]" by (simp add: ReadRegisterSet_def ReadRegisters_def)
    then show ?thesis by blast
  next
    case 5
    then have "?P True ?sp [PtGetRegSet t 1, PtGetRegSet t 2, PtGetRegs t]" by (simp add: ReadRegisterSet_def ReadRegisters_def)
    then show ?thesis by blast
  qed
qed

text \<open>
  The description of a thread: both numbers come from its status file, and on success the registers and
  the stack pointer are those the kernel reports, read with \<open>PTRACE_GETREGSET\<close> or else \<open>PTRACE_GETREGS\<close>.
\<close>

lemma thread_info_read:
  assumes "i < length (pt_threads s)" "t = pt_threads s ! i" "0 < t" "t \<le> 2147483647" "length status_path = 255"
    and "file_reads (rd t) F" "length junk = 512"
    and "split_lines F = l1 @ (butlast tgid_key @ dec_bytes g) # l2 @ (butlast ppid_key @ dec_bytes p) # l3"
    and "\<forall>l \<in> set (l1 @ l2 @ l3). other_line l" "\<forall>l \<in> set (split_lines F). length l < 512"
    and "g \<le> 2147483647" "p \<le> 2147483647" "\<forall>b. 0 \<le> x h (PtOpen b)"
  shows "\<exists>ok info' cs b. GetThreadInfoByIndex x rd regs status_path junk i info (s, h) =
      Some (Inr ((ok, info'), s, h @ [PtOpen b, PtClose (x h (PtOpen b))] @ cs)) \<and>
    tgid info' = int g \<and> ppid info' = int p \<and> (ok \<longrightarrow> uregs info' = regs t \<and> stack_pointer info' = regs t ! 13) \<and>
    set cs \<subseteq> {PtGetRegSet t 1, PtGetRegSet t 2, PtGetRegs t}"
proof -
  have sn: "status_node = [115, 116, 97, 116, 117, 115] @ 0 # []" by (simp add: status_node_def)
  have nz: "0 \<notin> set [115, 116, 97, 116, 117, 115 :: byte]" "[115, 116, 97, 116, 117, 115 :: byte] \<noteq> []" by simp_all
  have "length (dec_bytes (nat t)) \<le> 10" using digits_length [of 10 "nat t"] assms(4) by (simp add: dec_bytes_def)
  then have "length (proc_prefix @ dec_bytes (nat t) @ 47 # [115, 116, 97, 116, 117, 115]) < 255" by (simp add: proc_prefix_def)
  then obtain b where b: "BuildProcPath (Some status_path) t (Some status_node) = Inr (True, Some b)"
    using BuildProcPath_ok [OF assms(3,4) nz assms(5), of "[]"] unfolding sn Let_def by simp
  note st = status_read [OF assms(6-12), of "info\<lparr>ppid := - 1, tgid := - 1\<rparr>"]
  let ?i = "info\<lparr>tgid := int g, ppid := int p\<rparr>"
  let ?h = "h @ [PtOpen b, PtClose (x h (PtOpen b))]"
  have fd: "\<not> x h (PtOpen b) < 0" using assms(13) by (simp add: not_less)
  have run: "GetThreadInfoByIndex x rd regs status_path junk i info (s, h) =
      pbind (ReadRegisterSet x regs t ?i) (\<lambda>(ok, info). pbind (if ok then pret (True, info) else ReadRegisters x regs t info) (\<lambda>(ok, info).
        if \<not> ok then pret (False, info) else pret (True, info\<lparr>stack_pointer := uregs info ! 13\<rparr>))) (s, ?h)"
    using assms(1) fd b st by (simp add: GetThreadInfoByIndex_def Let_def not_le flip: assms(2))
  show ?thesis using registers_run [of x regs t ?i s ?h] unfolding run by fastforce
qed

section \<open>Properties\<close>

text \<open>C23: Stopped threads are resumed: whatever \<open>ptrace\<close> and \<open>waitpid\<close> answer, \<open>ThreadsSuspend\<close> tries to attach to every thread
  once, keeps a part of the list in order, and the threads it stays attached to are exactly those it
  keeps; \<open>ThreadsResume\<close> then detaches from each of them once.\<close>

theorem threads_suspend_resume:
  assumes "\<forall>t. settles x (PtWait t)" "\<not> pt_suspended s"
  shows "\<exists>ts cs good. ThreadsSuspend x (s, h) = Some (Inr (ts \<noteq> [], s\<lparr>pt_threads := ts, pt_suspended := True\<rparr>, h @ cs)) \<and>
    subseq ts (pt_threads s) \<and> pt_attempts cs = pt_threads s \<and> mset (attached x h cs) = mset (detached cs) + mset ts \<and>
    ThreadsResume x (s\<lparr>pt_threads := ts, pt_suspended := True\<rparr>, h @ cs) =
      Some (Inr (good, s\<lparr>pt_threads := ts, pt_suspended := False\<rparr>, h @ cs @ map PtDetach ts))"
proof -
  from suspend_from_run [OF assms(1), of s "[]" "pt_threads s" h] obtain ts cs where
    r: "suspend_from x 0 (length (pt_threads s)) (s, h) = Some (Inr ((), s\<lparr>pt_threads := ts\<rparr>, h @ cs))" "subseq ts (pt_threads s)"
    "pt_attempts cs = pt_threads s" "mset (attached x h cs) = mset (detached cs) + mset ts" by auto
  obtain good where "resume_all x True ts (s\<lparr>pt_threads := ts, pt_suspended := True\<rparr>, h @ cs) =
      Some (Inr (good, s\<lparr>pt_threads := ts, pt_suspended := True\<rparr>, (h @ cs) @ map PtDetach ts))" using resume_all_run by metis
  then show ?thesis using r assms(2) unfolding ThreadsSuspend_def ThreadsResume_def
    by (intro exI [of _ ts] exI [of _ cs] exI [of _ good]) simp
qed

text \<open>A kernel where thread 8 cannot be attached to and thread 9 dies before it stops.\<close>

definition demo_ptrace :: "pt_call ext" where
  "demo_ptrace h c = (if c = PtAttach 8 then - 3 else if c = PtWait 9 then - 10 else 0)"

theorem threads_suspend_resume_witness:
  "\<exists>cs good. ThreadsSuspend demo_ptrace (\<lparr>pt_pid = 7, pt_threads = [7, 8, 9], pt_suspended = False\<rparr>, []) =
     Some (Inr (True, \<lparr>pt_pid = 7, pt_threads = [7], pt_suspended = True\<rparr>, cs)) \<and>
     ThreadsResume demo_ptrace (\<lparr>pt_pid = 7, pt_threads = [7], pt_suspended = True\<rparr>, cs) =
     Some (Inr (good, \<lparr>pt_pid = 7, pt_threads = [7], pt_suspended = False\<rparr>, cs @ [PtDetach 7]))"
proof -
  let ?s = "\<lparr>pt_pid = 7, pt_threads = [7, 8, 9], pt_suspended = False\<rparr>"
  have st: "\<forall>t. settles demo_ptrace (PtWait t)" by (simp add: settles_def demo_ptrace_def)
  have w: "HANDLE_EINTR demo_ptrace (PtWait t) (s, h) = Some (Inr (if t = 9 then - 10 else 0, (s, h @ [PtWait t])))" for t s h
    by (simp add: HANDLE_EINTR_def eintr.simps [of demo_ptrace "PtWait t" h] demo_ptrace_def)
  have t: "SuspendThread demo_ptrace 7 (s, h) = Some (Inr (True, s, h @ [PtAttach 7, PtWait 7]))"
    "SuspendThread demo_ptrace 8 (s, h) = Some (Inr (False, s, h @ [PtAttach 8]))"
    "SuspendThread demo_ptrace 9 (s, h) = Some (Inr (False, s, h @ [PtAttach 9, PtWait 9, PtDetach 9]))" for s h
    by (simp_all add: SuspendThread_def w demo_ptrace_def)
  have run: "\<exists>cs. ThreadsSuspend demo_ptrace (?s, []) = Some (Inr (True, \<lparr>pt_pid = 7, pt_threads = [7], pt_suspended = True\<rparr>, cs))"
    by (simp add: ThreadsSuspend_def pbind_def t drop_thread_def)
  from threads_suspend_resume [OF st, of ?s "[]"] run show ?thesis by auto
qed

text \<open>All threads are listed: when \<open>/proc/pid/task\<close> holds, besides its two dot entries, the numbers of the threads in decimal,
  \<open>EnumerateThreads\<close> returns them in the order of the directory without consecutive repetitions, for every
  way the kernel groups the entries and whatever the uninitialised members of the reader hold, and closes
  the directory.\<close>

lemma enumerate_threads:
  assumes "dir_reads gd chunks" "filter task_name (map de_name (concat chunks)) = map dec_bytes tids"
    "\<forall>t \<in> set tids. t \<le> 2147483647" "length junk = dirent_buf"
    and "0 < pt_pid s" "pt_pid s \<le> 2147483647" "length task_path = 255" "pt_threads s = []"
    and "q = proc_prefix @ dec_bytes (nat (pt_pid s)) @ 47 # butlast task_node" "p = q @ 0 # drop (length q + 1) task_path"
    and "0 \<le> x h (PtOpen p)"
  shows "EnumerateThreads x gd task_path junk_eof junk (s, h) =
    Some (Inr (True, s\<lparr>pt_threads := remdups_adj (map int tids)\<rparr>, h @ [PtOpen p, PtClose (x h (PtOpen p))]))"
proof -
  have tn: "task_node = [116, 97, 115, 107] @ 0 # []" by (simp add: task_node_def)
  have "length (dec_bytes (nat (pt_pid s))) \<le> 10"
    using digits_length [of 10 "nat (pt_pid s)"] assms(6) by (simp add: dec_bytes_def)
  then have q: "q = proc_prefix @ dec_bytes (nat (pt_pid s)) @ 47 # [116, 97, 115, 107]" "length q < 255"
    using assms(9) by (simp_all add: tn proc_prefix_def)
  have nz: "0 \<notin> set [116, 97, 115, 107 :: byte]" "[116, 97, 115, 107 :: byte] \<noteq> []" by simp_all
  have path: "BuildProcPath (Some task_path) (pt_pid s) (Some task_node) = Inr (True, Some p)"
    using BuildProcPath_ok [OF assms(5,6) nz assms(7), of "[]"] q(2) assms(10)
    unfolding tn Let_def q(1) [symmetric] by simp
  let ?A = "set (map de_name (concat chunks))"
  have body: "task_entry (a @ 0 # rest) acc = Inr (task_fold a acc)" if "a \<in> ?A" for a rest acc
  proof (cases "task_name a")
    case True
    then have "a \<in> set (filter task_name (map de_name (concat chunks)))" using that by simp
    then obtain t where "a = dec_bytes t" "t \<le> 2147483647" using assms(2,3) by auto
    then show ?thesis using task_entry_number [of t rest] task_entry_number [of t "[]"] by (cases acc) (simp add: task_fold_def)
  qed (use task_entry_dots in \<open>simp add: task_fold_def\<close>)
  note start = dir_inv_start [OF assms(1,4), of junk_eof]
  have "each_entry (GetNextEntry gd) PopEntry dent_name task_entry (- 1, []) (DirectoryReader_ctor junk_eof junk) =
      Some (Inr (fold task_fold (dir_pending chunks (DirectoryReader_ctor junk_eof junk)) (- 1, [])))"
    using start by (intro directory.each_entry_fold [where A = ?A] body) auto
  then obtain l' where "each_entry (GetNextEntry gd) PopEntry dent_name task_entry (- 1, []) (DirectoryReader_ctor junk_eof junk) =
      Some (Inr (l', remdups_adj (map int tids)))"
    using task_fold_run [OF assms(2,3), of "- 1" "[]"] start dedup_start [of "map int tids"] by auto
  then show ?thesis using path assms(8,11) by (simp add: EnumerateThreads_def)
qed

text \<open>A process with the threads 7 and 12, its directory delivered in two pieces.\<close>

definition demo_dir :: "dirent list list" where
  "demo_dir = [[\<lparr>de_head = replicate 8 0, de_name = [46], de_pad = 0\<rparr>, \<lparr>de_head = replicate 8 0, de_name = [46, 46], de_pad = 3\<rparr>,
                \<lparr>de_head = replicate 8 0, de_name = [55], de_pad = 0\<rparr>],
               [\<lparr>de_head = replicate 8 0, de_name = [49, 50], de_pad = 1\<rparr>]]"

definition demo_getdents :: sys_getdents where
  "demo_getdents i n = Some (if i < length demo_dir then concat (map dirent_bytes (demo_dir ! i)) else [])"

theorem enumerate_threads_witness:
  "\<exists>cs. EnumerateThreads (\<lambda>h c. 3) demo_getdents (replicate 255 0) True (replicate 524 0) (LinuxPtraceDumper_ctor 7, []) =
     Some (Inr (True, \<lparr>pt_pid = 7, pt_threads = [7, 12], pt_suspended = False\<rparr>, cs))"
proof -
  have d: "dec_bytes 7 = [55]" "dec_bytes 12 = [49, 50]"
    by (simp_all add: dec_bytes_def digits.simps digit_byte_def)
  have "dir_reads demo_getdents demo_dir"
    by (simp add: dir_reads_def demo_getdents_def demo_dir_def dirent_ok_def dirent_bytes_length All_less_Suc)
  moreover have "filter task_name (map de_name (concat demo_dir)) = map dec_bytes [7, 12]"
    by (simp add: d demo_dir_def task_name_def)
  ultimately show ?thesis
    using enumerate_threads [of demo_getdents demo_dir "[7, 12]" "replicate 524 0" "LinuxPtraceDumper_ctor 7" "replicate 255 0" _ _ "\<lambda>h c. 3" "[]" True]
    by (simp add: LinuxPtraceDumper_ctor_def)
qed

end
