(* ===== verification/Process_Maps.thy ===== *)
theory Process_Maps
  imports Linux_Mappings Ptrace_Dumper
begin

text \<open>
  What \<open>LinuxDumper\<close> reads from \<open>/proc\<close> (\<open>breakpad/src/client/linux/minidump_writer/linux_dumper.cc\<close>): the
  auxiliary vector and the list of mappings, with adjacent mappings of one file merged into modules and
  the module of the entry point first; and the adjustment of modules with packed relocations on Android.
\<close>

section \<open>The dumper\<close>

datatype ld_call = LdOpen block | LdClose int

record LinuxDumper =
  ld_pid :: int
  root_prefix :: block
  crash_address :: addr
  crash_signal :: int
  crash_signal_code :: int
  crash_thread :: int
  mappings :: "MappingInfo list"
  auxv :: "addr list"

type_synonym 'a ld = "(LinuxDumper, ld_call, 'a) proc"

abbreviation (input) AT_ENTRY :: nat where "AT_ENTRY \<equiv> 9"
abbreviation (input) AT_SYSINFO_EHDR :: nat where "AT_SYSINFO_EHDR \<equiv> 33"
abbreviation (input) AT_MAX :: nat where "AT_MAX \<equiv> 33"

definition LinuxDumper_ctor :: "int \<Rightarrow> block \<Rightarrow> LinuxDumper res" where
  "LinuxDumper_ctor pid root =
     res_bind (my_strlen root) (\<lambda>n.
     if n < 4096
     then Inr \<lparr>ld_pid = pid, root_prefix = root, crash_address = 0, crash_signal = 0, crash_signal_code = 0,
               crash_thread = pid, mappings = [], auxv = replicate (AT_MAX + 1) 0\<rparr>
     else Inl AssertFail)"

definition SetCrashInfoFromSigInfo :: "addr \<Rightarrow> int \<Rightarrow> int \<Rightarrow> LinuxDumper \<Rightarrow> LinuxDumper" where
  "SetCrashInfoFromSigInfo si_addr si_signo si_code s =
     s\<lparr>crash_address := si_addr, crash_signal := si_signo, crash_signal_code := si_code\<rparr>"

definition signal_names :: "(nat \<times> string) list" where
  "signal_names =
     [(1, ''SIGHUP''), (2, ''SIGINT''), (3, ''SIGQUIT''), (4, ''SIGILL''), (5, ''SIGTRAP''), (6, ''SIGABRT''),
      (7, ''SIGBUS''), (8, ''SIGFPE''), (9, ''SIGKILL''), (10, ''SIGUSR1''), (11, ''SIGSEGV''), (12, ''SIGUSR2''),
      (13, ''SIGPIPE''), (14, ''SIGALRM''), (15, ''SIGTERM''), (16, ''SIGSTKFLT''), (17, ''SIGCHLD''),
      (18, ''SIGCONT''), (19, ''SIGSTOP''), (20, ''SIGTSTP''), (21, ''SIGTTIN''), (22, ''SIGTTOU''), (23, ''SIGURG''),
      (24, ''SIGXCPU''), (25, ''SIGXFSZ''), (26, ''SIGVTALRM''), (27, ''SIGPROF''), (28, ''SIGWINCH''), (29, ''SIGIO''),
      (30, ''SIGPWR''), (31, ''SIGSYS''), (0xFFFFFFFF, ''DUMP_REQUESTED'')]"

definition GetCrashSignalString :: "LinuxDumper \<Rightarrow> string" where
  "GetCrashSignalString s =
     (case map_of signal_names (unat (of_int (crash_signal s) :: 32 word)) of Some n \<Rightarrow> n | None \<Rightarrow> ''UNKNOWN'')"

section \<open>The auxiliary vector\<close>

text \<open>\<open>aux i\<close> is what the \<open>i\<close>th read of an entry stores.\<close>

partial_function (option) read_aux :: "(nat \<Rightarrow> byte list) \<Rightarrow> nat \<Rightarrow> addr list \<Rightarrow> bool \<Rightarrow> (addr list \<times> bool) option" where
  "read_aux aux i v res =
     (if length (aux i) = 8 \<and> le_nat (take 4 (aux i)) \<noteq> 0 then
        (if le_nat (take 4 (aux i)) \<le> AT_MAX
         then read_aux aux (i + 1) (v[le_nat (take 4 (aux i)) := of_nat (le_nat (drop 4 (aux i)))]) True
         else read_aux aux (i + 1) v res)
      else Some (v, res))"

text \<open>\<open>auxv\<close> and \<open>maps\<close> with their terminator.\<close>

definition auxv_node :: block where "auxv_node = [97, 117, 120, 118, 0]"
definition maps_node :: block where "maps_node = [109, 97, 112, 115, 0]"

definition ReadAuxv :: "ld_call ext \<Rightarrow> (nat \<Rightarrow> byte list) \<Rightarrow> block \<Rightarrow> bool ld" where
  "ReadAuxv x aux auxv_path =
     pbind pget (\<lambda>s. pbind (plift (BuildProcPath (Some auxv_path) (ld_pid s) (Some auxv_node))) (\<lambda>(ok, path).
     if \<not> ok then pret False
     else pbind (pcall x (LdOpen (the path))) (\<lambda>fd.
       if fd < 0 then pret False
       else pbind (\<lambda>st. case read_aux aux 0 (auxv s) False of None \<Rightarrow> None | Some r \<Rightarrow> pret r st) (\<lambda>(v, res).
         pthen (pmod (\<lambda>s. s\<lparr>auxv := v\<rparr>)) (pbind (pcall x (LdClose fd)) (\<lambda>_. pret res))))))"

section \<open>The list of mappings\<close>

text \<open>\<open>linux-gate.so\<close>\<close>

definition kLinuxGateLibraryName :: block where
  "kLinuxGateLibraryName = [108, 105, 110, 117, 120, 45, 103, 97, 116, 101, 46, 115, 111, 0]"

definition byte_at :: "block \<Rightarrow> nat \<Rightarrow> byte res" where
  "byte_at b i = (if i < length b then Inr (b ! i) else Inl OutOfBounds)"

text \<open>The test for a mapping that continues the last module; \<open>name\<close> is the string behind the pointer.\<close>

definition continues :: "addr \<Rightarrow> block \<Rightarrow> bool \<Rightarrow> MappingInfo \<Rightarrow> bool res" where
  "continues start name exec module1 =
     (if start \<noteq> start_addr module1 + m_size module1 then Inr False
      else res_bind (my_strlen name) (\<lambda>n. res_bind (my_strlen (m_name module1)) (\<lambda>k.
        if n \<noteq> k then Inr False
        else res_bind (my_strncmp False name (m_name module1) n) (\<lambda>c.
          Inr (c = 0 \<and> (exec = m_exec module1 \<or> (\<not> m_exec module1 \<and> exec)))))))"

definition extend_module :: "addr \<Rightarrow> bool \<Rightarrow> MappingInfo \<Rightarrow> MappingInfo" where
  "extend_module end_addr exec m =
     m\<lparr>sys_end := end_addr, m_size := end_addr - start_addr m, m_exec := m_exec m \<or> exec\<rparr>"

text \<open>A new module; a name of \<open>NAME_MAX\<close> bytes and more is not copied.\<close>

definition new_module :: "addr \<Rightarrow> addr \<Rightarrow> addr \<Rightarrow> bool \<Rightarrow> block option \<Rightarrow> MappingInfo res" where
  "new_module start end_addr offset exec name =
     (let m = (\<lambda>nm. \<lparr>start_addr = start, m_size = end_addr - start, sys_start = start, sys_end = end_addr, m_offset = offset,
                     m_exec = exec, m_name = nm\<rparr>) in
      case name of
        None \<Rightarrow> Inr (m (replicate NAME_MAX 0))
      | Some nm \<Rightarrow> res_bind (my_strlen nm) (\<lambda>l.
          if l < NAME_MAX then res_bind (mem_copy (replicate NAME_MAX 0) 0 nm 0 (int l)) (\<lambda>b. Inr (m b))
          else Inr (m (replicate NAME_MAX 0))))"

text \<open>The body of the loop over the lines: a line that does not parse is skipped.\<close>

definition add_mapping :: "addr \<Rightarrow> addr \<Rightarrow> addr \<Rightarrow> bool \<Rightarrow> block option \<Rightarrow> MappingInfo list \<Rightarrow> MappingInfo list res" where
  "add_mapping start end_addr offset exec name ms =
     res_bind (if name \<noteq> None \<and> ms \<noteq> [] then continues start (the name) exec (last ms) else Inr False) (\<lambda>c.
     if c then Inr (butlast ms @ [extend_module end_addr exec (last ms)])
     else res_bind (new_module start end_addr offset exec name) (\<lambda>m. Inr (ms @ [m])))"

definition maps_line :: "addr \<Rightarrow> block \<Rightarrow> MappingInfo list \<Rightarrow> MappingInfo list res" where
  "maps_line linux_gate_loc line ms =
     res_bind (my_read_hex_ptr False line) (\<lambda>(start, i1).
     res_bind (byte_at line i1) (\<lambda>c1.
     if c1 \<noteq> 45 then Inr ms
     else res_bind (my_read_hex_ptr False (drop (i1 + 1) line)) (\<lambda>(end_addr, n2).
       let i2 = i1 + 1 + n2 in
       res_bind (byte_at line i2) (\<lambda>c2.
       if c2 \<noteq> 32 then Inr ms
       else res_bind (byte_at line (i2 + 3)) (\<lambda>x.
         res_bind (my_read_hex_ptr False (drop (i2 + 6) line)) (\<lambda>(offset, n3).
         res_bind (byte_at line (i2 + 6 + n3)) (\<lambda>c3.
         if c3 \<noteq> 32 then Inr ms
         else res_bind (my_strchr line 47) (\<lambda>slash.
           case slash of
             Some k \<Rightarrow> add_mapping start end_addr offset (x = 120) (Some (drop k line)) ms
           | None \<Rightarrow>
               (if linux_gate_loc \<noteq> 0 \<and> start = linux_gate_loc
                then add_mapping start end_addr 0 (x = 120) (Some kLinuxGateLibraryName) ms
                else add_mapping start end_addr offset (x = 120) None ms)))))))))"

text \<open>The module of the entry point moves to the front.\<close>

fun entry_index :: "addr \<Rightarrow> nat \<Rightarrow> MappingInfo list \<Rightarrow> nat option" where
  "entry_index e i [] = None"
| "entry_index e i (m # ms) = (if e \<ge> start_addr m \<and> e < start_addr m + m_size m then Some i else entry_index e (i + 1) ms)"

definition entry_first :: "addr \<Rightarrow> MappingInfo list \<Rightarrow> MappingInfo list" where
  "entry_first e ms =
     (if e \<noteq> 0 then (case entry_index e 0 ms of None \<Rightarrow> ms | Some i \<Rightarrow> ms ! i # take i ms @ drop (i + 1) ms) else ms)"

definition EnumerateMappings :: "ld_call ext \<Rightarrow> sys_read \<Rightarrow> block \<Rightarrow> block \<Rightarrow> bool ld" where
  "EnumerateMappings x rd maps_path junk =
     pbind pget (\<lambda>s. pbind (plift (BuildProcPath (Some maps_path) (ld_pid s) (Some maps_node))) (\<lambda>(ok, path).
     if \<not> ok then pret False
     else pbind (pcall x (LdOpen (the path))) (\<lambda>fd.
       if fd < 0 then pret False
       else pbind (\<lambda>st. case each_line (GetNextLine rd) PopLine lr_buf (maps_line (auxv s ! AT_SYSINFO_EHDR)) (mappings s) (LineReader_ctor junk) of
                          None \<Rightarrow> None | Some r \<Rightarrow> plift r st) (\<lambda>ms.
         pthen (pmod (\<lambda>s. s\<lparr>mappings := entry_first (auxv s ! AT_ENTRY) ms\<rparr>))
           (pbind (pcall x (LdClose fd)) (\<lambda>_. pbind pget (\<lambda>s. pret (mappings s \<noteq> []))))))))"

section \<open>What the kernel prints\<close>

text \<open>A line of \<open>/proc/pid/maps\<close>: range, permissions, offset, device and inode, and the path of a file.\<close>

record region =
  r_start :: nat
  r_end :: nat
  r_perms :: "byte list"
  r_offset :: nat
  r_mid :: "byte list"
  r_path :: "byte list option"

definition path_text :: "region \<Rightarrow> byte list" where
  "path_text r = (case r_path r of None \<Rightarrow> [] | Some p \<Rightarrow> p)"

definition region_text :: "region \<Rightarrow> byte list" where
  "region_text r = hex_bytes 8 (r_start r) @ 45 # hex_bytes 8 (r_end r) @ 32 # r_perms r @ 32 # hex_bytes 8 (r_offset r) @ r_mid r @ path_text r"

definition r_exec :: "region \<Rightarrow> bool" where
  "r_exec r \<longleftrightarrow> r_perms r ! 2 = 120"

definition region_ok :: "region \<Rightarrow> bool" where
  "region_ok r \<longleftrightarrow> r_start r < r_end r \<and> r_end r < 4294967296 \<and> r_offset r < 4294967296 \<and> length (r_perms r) = 4 \<and>
     r_mid r \<noteq> [] \<and> r_mid r ! 0 = 32 \<and> (\<forall>c \<in> set (r_perms r @ r_mid r). c \<noteq> 0 \<and> c \<noteq> 10 \<and> c \<noteq> 47) \<and>
     (\<forall>c \<in> set (path_text r). c \<noteq> 0 \<and> c \<noteq> 10) \<and> (r_path r = None \<or> (path_text r \<noteq> [] \<and> path_text r ! 0 = 47)) \<and>
     length (path_text r) < NAME_MAX \<and> length (region_text r) < 512"

definition maps_text :: "region list \<Rightarrow> byte list" where
  "maps_text rs = concat (map (\<lambda>r. region_text r @ [10]) rs)"

text \<open>The name the dumper gives a mapping.\<close>

definition r_name :: "addr \<Rightarrow> region \<Rightarrow> byte list" where
  "r_name gate r = (if r_path r = None \<and> gate \<noteq> 0 \<and> of_nat (r_start r) = gate then butlast kLinuxGateLibraryName else path_text r)"

lemma region_text_plain: "region_ok r \<Longrightarrow> c \<in> set (region_text r) \<Longrightarrow> c \<noteq> 0 \<and> c \<noteq> 10"
  using hex_bytes_set by (fastforce simp: region_ok_def region_text_def)

lemma maps_text_lines: "\<forall>r \<in> set rs. region_ok r \<Longrightarrow> split_lines (maps_text rs) = map region_text rs"
proof (induction rs)
  case (Cons r rs)
  have "first_line (region_text r @ 10 # maps_text rs) = region_text r"
    using region_text_plain [of r] Cons.prems by (auto simp: first_line_def is_eol_def takeWhile_append)
  then have "split_lines (region_text r @ 10 # maps_text rs) = region_text r # split_lines (maps_text rs)"
    by (subst split_lines.simps) simp
  then show ?case using Cons by (simp add: maps_text_def)
qed (simp add: maps_text_def split_lines.simps)

section \<open>Reading a line\<close>

definition name_ptr :: "addr \<Rightarrow> region \<Rightarrow> block \<Rightarrow> block option" where
  "name_ptr gate r rest =
     (if r_path r \<noteq> None then Some (path_text r @ 0 # rest)
      else if gate \<noteq> 0 \<and> of_nat (r_start r) = gate then Some kLinuxGateLibraryName else None)"

definition off_of :: "addr \<Rightarrow> region \<Rightarrow> addr" where
  "off_of gate r = (if r_path r = None \<and> gate \<noteq> 0 \<and> of_nat (r_start r) = gate then 0 else of_nat (r_offset r))"

lemma maps_line_region:
  assumes "region_ok r"
  shows "maps_line gate (region_text r @ 0 # rest) ms =
    add_mapping (of_nat (r_start r)) (of_nat (r_end r)) (off_of gate r) (r_exec r) (name_ptr gate r rest) ms"
proof -
  let ?L = "region_text r @ 0 # rest"
  have "length (r_perms r) = Suc (Suc (Suc (Suc 0)))" using assms by (simp add: region_ok_def)
  then obtain p0 p1 p2 p3 where p: "r_perms r = [p0, p1, p2, p3]" by (auto simp: length_Suc_conv)
  obtain mid where mid: "r_mid r = 32 # mid" using assms by (cases "r_mid r") (auto simp: region_ok_def)
  have nohex: "hex_value False 45 = None" "hex_value False 32 = None" by (simp_all add: hex_value_def c_char_def)
  let ?A = "hex_bytes 8 (r_start r)" and ?B = "hex_bytes 8 (r_end r)" and ?C = "hex_bytes 8 (r_offset r)"
  have L: "?L = ?A @ 45 # ?B @ 32 # p0 # p1 # p2 # p3 # 32 # ?C @ 32 # mid @ path_text r @ 0 # rest"
    by (simp add: region_text_def p mid)
  have small: "r_start r < 16 ^ 8" "r_end r < 16 ^ 8" "r_offset r < 16 ^ 8" using assms by (auto simp: region_ok_def)
  have h1: "my_read_hex_ptr False ?L = Inr (of_nat (r_start r) :: addr, 8)"
    unfolding L by (rule read_hex_bytes [OF nohex(1) small(1) refl])
  have d1: "drop (8 + 1) ?L = ?B @ 32 # p0 # p1 # p2 # p3 # 32 # ?C @ 32 # mid @ path_text r @ 0 # rest" unfolding L by simp
  have h2: "my_read_hex_ptr False (drop (8 + 1) ?L) = Inr (of_nat (r_end r) :: addr, 8)"
    unfolding d1 by (rule read_hex_bytes [OF nohex(2) small(2) refl])
  have d2: "drop (8 + 1 + 8 + 6) ?L = ?C @ 32 # mid @ path_text r @ 0 # rest" unfolding L by simp
  have h3: "my_read_hex_ptr False (drop (8 + 1 + 8 + 6) ?L) = Inr (of_nat (r_offset r) :: addr, 8)"
    unfolding d2 by (rule read_hex_bytes [OF nohex(2) small(3) refl])
  have at: "byte_at ?L 8 = Inr 45" "byte_at ?L (8 + 1 + 8) = Inr 32" "byte_at ?L (8 + 1 + 8 + 3) = Inr p2"
    "byte_at ?L (8 + 1 + 8 + 6 + 8) = Inr 32" unfolding L by (simp_all add: byte_at_def nth_append)
  let ?pre = "?A @ 45 # ?B @ 32 # p0 # p1 # p2 # p3 # 32 # ?C @ 32 # mid"
  have pre: "0 \<notin> set ?pre" "47 \<notin> set ?pre"
    using assms hex_bytes_set [of 0 8] hex_bytes_set [of 47 8] by (auto simp: region_ok_def p mid)
  have slash: "my_strchr ?L 47 = Inr (if r_path r = None then None else Some (length ?pre))"
  proof (cases "r_path r")
    case None
    then have "?L = ?pre @ 0 # rest" unfolding L by (simp add: path_text_def)
    then show ?thesis using strchr_none [OF pre, of rest] None by simp
  next
    case (Some q)
    then obtain q' where "path_text r = 47 # q'" using assms by (cases "path_text r") (auto simp: region_ok_def)
    then have "?L = ?pre @ 47 # q' @ 0 # rest" unfolding L by simp
    then show ?thesis using strchr_found [OF pre, of "q' @ 0 # rest"] Some by simp
  qed
  have "drop (length xs) (xs @ ys) = ys" for xs ys :: block by simp
  moreover have "?L = ?pre @ path_text r @ 0 # rest" unfolding L by simp
  ultimately have dp: "drop (length ?pre) ?L = path_text r @ 0 # rest" by metis
  have ex: "(p2 = 120) = r_exec r" by (simp add: r_exec_def p)
  have "maps_line gate ?L ms =
      (case (if r_path r = None then None else Some (length ?pre)) of
         Some k \<Rightarrow> add_mapping (of_nat (r_start r)) (of_nat (r_end r)) (of_nat (r_offset r)) (r_exec r) (Some (drop k ?L)) ms
       | None \<Rightarrow>
           (if gate \<noteq> 0 \<and> of_nat (r_start r) = gate
            then add_mapping (of_nat (r_start r)) (of_nat (r_end r)) 0 (r_exec r) (Some kLinuxGateLibraryName) ms
            else add_mapping (of_nat (r_start r)) (of_nat (r_end r)) (of_nat (r_offset r)) (r_exec r) None ms))"
    unfolding maps_line_def by (simp only: h1 h2 h3 at slash ex res_bind_Inr case_prod_conv Let_def simp_thms if_False)
  then show ?thesis using dp by (cases "r_path r = None") (auto simp: name_ptr_def off_of_def)
qed

section \<open>The modules\<close>

definition mod_name :: "MappingInfo \<Rightarrow> byte list" where
  "mod_name m = takeWhile (\<lambda>c. c \<noteq> 0) (m_name m)"

definition module_ok :: "MappingInfo \<Rightarrow> bool" where
  "module_ok m \<longleftrightarrow> 0 \<in> set (m_name m) \<and> start_addr m = sys_start m \<and> m_size m = sys_end m - sys_start m \<and> sys_start m < sys_end m"

lemma mod_name_split:
  assumes "0 \<in> set (m_name m)"
  obtains rest where "m_name m = mod_name m @ 0 # rest" "0 \<notin> set (mod_name m)"
proof -
  have "0 \<notin> set (mod_name m)" by (auto simp: mod_name_def dest: set_takeWhileD)
  moreover have "dropWhile (\<lambda>c. c \<noteq> 0) (m_name m) \<noteq> []" using assms by (auto simp: dropWhile_eq_Nil_conv)
  then obtain c rest where d: "dropWhile (\<lambda>c. c \<noteq> 0) (m_name m) = c # rest" by (cases "dropWhile (\<lambda>c. c \<noteq> 0) (m_name m)") auto
  then have "c = 0" by (metis (mono_tags, lifting) dropWhile_eq_Cons_conv)
  then have "m_name m = mod_name m @ 0 # rest" using d takeWhile_dropWhile_id [of "\<lambda>c. c \<noteq> 0" "m_name m"] by (simp add: mod_name_def)
  ultimately show ?thesis using that by blast
qed

lemma continues_module:
  assumes "module_ok m" "0 \<notin> set nm"
  shows "\<exists>c. continues start (nm @ 0 # rest) exec m = Inr c \<and> (c \<longrightarrow> start = sys_end m \<and> nm = mod_name m)"
proof -
  have "0 \<in> set (m_name m)" using assms(1) by (simp add: module_ok_def)
  from mod_name_split [OF this] obtain r where r: "m_name m = mod_name m @ 0 # r" "0 \<notin> set (mod_name m)" .
  have se: "start_addr m + m_size m = sys_end m" using assms(1) by (simp add: module_ok_def)
  obtain v where v: "my_strncmp False (nm @ 0 # rest) (m_name m) (length nm) = Inr v" "v = 0 \<longleftrightarrow> take (length nm) (mod_name m) = nm"
    using strncmp_key [OF assms(2) r(2), of False "0 # rest" r] r(1) by auto
  have "my_strlen (nm @ 0 # rest) = Inr (length nm)" "my_strlen (m_name m) = Inr (length (mod_name m))"
    using my_strlen_cstr [OF assms(2), of rest] my_strlen_cstr [OF r(2), of r] unfolding r(1) [symmetric] by blast+
  then have "continues start (nm @ 0 # rest) exec m = Inr (start = sys_end m \<and> length nm = length (mod_name m) \<and> v = 0 \<and>
      (exec = m_exec m \<or> (\<not> m_exec m \<and> exec)))" using v(1) se by (auto simp: continues_def)
  moreover have "length nm = length (mod_name m) \<Longrightarrow> v = 0 \<Longrightarrow> nm = mod_name m" using v(2) by (metis take_all order_refl)
  ultimately show ?thesis by blast
qed

lemma new_module_ok:
  assumes "case name of None \<Rightarrow> nm = [] | Some b \<Rightarrow> \<exists>rest. b = nm @ 0 # rest" "0 \<notin> set nm" "length nm < NAME_MAX" "start < en"
  shows "\<exists>m. new_module start en off exec name = Inr m \<and> module_ok m \<and> mod_name m = nm \<and> sys_start m = start \<and> sys_end m = en \<and>
    m_exec m = exec \<and> m_offset m = off"
proof (cases name)
  case None
  then show ?thesis using assms by (simp add: new_module_def Let_def module_ok_def mod_name_def)
next
  case (Some b)
  then obtain rest where b: "b = nm @ 0 # rest" using assms(1) by auto
  have l: "my_strlen b = Inr (length nm)" using my_strlen_cstr [OF assms(2)] b by simp
  have c: "mem_copy (replicate NAME_MAX 0) 0 b 0 (int (length nm)) = Inr (nm @ replicate (NAME_MAX - length nm) 0)"
    using mem_copy_behind [of nm "replicate NAME_MAX 0" 0 "[]" "0 # rest"] assms(3) b by simp
  have z: "replicate (NAME_MAX - length nm) 0 = (0 :: byte) # replicate (NAME_MAX - length nm - 1) 0"
    using assms(3) by (metis Suc_diff_1 replicate_Suc zero_less_diff)
  have "takeWhile (\<lambda>c. c \<noteq> 0) (nm @ replicate (NAME_MAX - length nm) 0) = nm" unfolding z using assms(2) by (auto simp: takeWhile_append)
  then show ?thesis using Some l c assms(3,4) by (simp add: new_module_def Let_def module_ok_def mod_name_def)
qed


text \<open>
  What is kept while the lines are read: the modules are in ascending order, cover exactly the regions
  read so far, and every region lies in a module of its name, executable when the region is.
\<close>

definition region_in :: "addr \<Rightarrow> region \<Rightarrow> MappingInfo \<Rightarrow> bool" where
  "region_in gate r m \<longleftrightarrow> unat (sys_start m) \<le> r_start r \<and> r_end r \<le> unat (sys_end m) \<and> mod_name m = r_name gate r \<and> (r_exec r \<longrightarrow> m_exec m)"

definition in_region :: "region \<Rightarrow> addr \<Rightarrow> bool" where
  "in_region r a \<longleftrightarrow> r_start r \<le> unat a \<and> unat a < r_end r"

definition maps_inv :: "addr \<Rightarrow> region list \<Rightarrow> MappingInfo list \<Rightarrow> bool" where
  "maps_inv gate rs ms \<longleftrightarrow> sorted_wrt (\<lambda>m m'. sys_end m \<le> sys_start m') ms \<and> (\<forall>m \<in> set ms. module_ok m) \<and>
     (ms = [] \<longleftrightarrow> rs = []) \<and> (ms \<noteq> [] \<longrightarrow> unat (sys_end (last ms)) = r_end (last rs)) \<and>
     (\<forall>a. (\<exists>m \<in> set ms. MappingContainsAddress m a) \<longleftrightarrow> (\<exists>r \<in> set rs. in_region r a)) \<and>
     (\<forall>r \<in> set rs. \<exists>m \<in> set ms. region_in gate r m)"

definition ascending :: "region list \<Rightarrow> bool" where
  "ascending rs \<longleftrightarrow> sorted_wrt (\<lambda>r r'. r_end r \<le> r_start r') rs"

lemma contains_nat: "MappingContainsAddress m a \<longleftrightarrow> unat (sys_start m) \<le> unat a \<and> unat a < unat (sys_end m)"
  by (simp add: MappingContainsAddress_def word_le_nat_alt word_less_nat_alt)

lemma region_words: "region_ok r \<Longrightarrow> unat (of_nat (r_start r) :: addr) = r_start r \<and> unat (of_nat (r_end r) :: addr) = r_end r"
  by (simp add: region_ok_def unat_of_nat)

lemma last_le: "sorted_wrt (\<lambda>m m'. sys_end m \<le> sys_start m') ms \<Longrightarrow> \<forall>m \<in> set ms. sys_start m < sys_end m \<Longrightarrow> m \<in> set ms \<Longrightarrow> sys_end m \<le> sys_end (last ms)"
  by (induction ms rule: rev_induct) (auto simp: sorted_wrt_append intro: order.trans less_imp_le)

lemma add_new_inv:
  assumes "maps_inv gate rs ms" "ascending (rs @ [r])" "region_ok r"
    and "module_ok m" "mod_name m = r_name gate r" "sys_start m = of_nat (r_start r)" "sys_end m = of_nat (r_end r)" "m_exec m = r_exec r"
  shows "maps_inv gate (rs @ [r]) (ms @ [m])"
proof -
  note rw = region_words [OF assms(3)]
  have before: "sys_end m' \<le> sys_start m" if "m' \<in> set ms" for m'
  proof -
    have "sys_end m' \<le> sys_end (last ms)" using assms(1) that by (intro last_le) (auto simp: maps_inv_def module_ok_def)
    moreover have "rs \<noteq> []" "unat (sys_end (last ms)) = r_end (last rs)" using assms(1) that by (auto simp: maps_inv_def)
    then have "unat (sys_end (last ms)) \<le> r_start r" using assms(2) by (simp add: ascending_def sorted_wrt_append)
    ultimately show ?thesis using rw assms(6) by (simp add: word_le_nat_alt)
  qed
  have "MappingContainsAddress m a \<longleftrightarrow> in_region r a" for a using rw assms(6,7) by (simp add: contains_nat in_region_def)
  moreover have "region_in gate r m" using rw assms(5-8) by (simp add: region_in_def)
  ultimately show ?thesis using assms(1,4,7) before rw unfolding maps_inv_def by (simp add: sorted_wrt_append)
qed

lemma add_extend_inv:
  assumes "maps_inv gate rs (ms @ [m])" "ascending (rs @ [r])" "region_ok r"
    and "of_nat (r_start r) = sys_end m" "r_name gate r = mod_name m"
  shows "maps_inv gate (rs @ [r]) (ms @ [extend_module (of_nat (r_end r)) (r_exec r) m])" (is "maps_inv _ _ (ms @ [?m])")
proof -
  note rw = region_words [OF assms(3)]
  have mo: "module_ok m" using assms(1) by (simp add: maps_inv_def)
  have r: "unat (sys_end m) = r_start r" "r_start r < r_end r" using rw assms(3,4) by (auto simp: region_ok_def)
  have s: "sys_start ?m = sys_start m" "sys_end ?m = of_nat (r_end r)" "mod_name ?m = mod_name m" "m_exec ?m = (m_exec m \<or> r_exec r)"
    by (simp_all add: extend_module_def mod_name_def)
  have lt: "sys_start m < sys_end m" using mo by (simp add: module_ok_def)
  have ok: "module_ok ?m" using mo lt r rw by (simp add: module_ok_def extend_module_def word_less_nat_alt)
  have c: "MappingContainsAddress ?m a \<longleftrightarrow> MappingContainsAddress m a \<or> in_region r a" for a
    using r rw s lt by (auto simp: contains_nat in_region_def word_less_nat_alt)
  have old: "region_in gate r' m \<Longrightarrow> region_in gate r' ?m" for r' using r rw s by (auto simp: region_in_def)
  have new: "region_in gate r ?m" using r rw s assms(5) lt by (auto simp: region_in_def word_less_nat_alt)
  show ?thesis using assms(1) s(1,2) rw c ok old new unfolding maps_inv_def by (simp add: sorted_wrt_append) blast
qed

lemma name_ptr_cstr:
  assumes "region_ok r"
  shows "case name_ptr gate r rest of None \<Rightarrow> r_name gate r = [] | Some b \<Rightarrow> \<exists>rest. b = r_name gate r @ 0 # rest"
    "0 \<notin> set (r_name gate r)" "length (r_name gate r) < NAME_MAX"
  using assms by (auto simp: name_ptr_def r_name_def path_text_def region_ok_def kLinuxGateLibraryName_def)

lemma add_mapping_inv:
  assumes "maps_inv gate rs ms" "ascending (rs @ [r])" "region_ok r"
  shows "\<exists>ms'. add_mapping (of_nat (r_start r)) (of_nat (r_end r)) (off_of gate r) (r_exec r) (name_ptr gate r rest) ms = Inr ms' \<and>
    maps_inv gate (rs @ [r]) ms'"
proof -
  let ?s = "of_nat (r_start r) :: addr" and ?e = "of_nat (r_end r) :: addr" and ?name = "name_ptr gate r rest"
  note n = name_ptr_cstr (1) [OF assms(3), where gate = gate and rest = rest] name_ptr_cstr(2,3) [OF assms(3), where gate = gate]
  have "?s < ?e" using region_words [OF assms(3)] assms(3) by (simp add: word_less_nat_alt region_ok_def)
  from new_module_ok [OF n this, of "off_of gate r" "r_exec r"] obtain m where
    m: "new_module ?s ?e (off_of gate r) (r_exec r) ?name = Inr m" "module_ok m" "mod_name m = r_name gate r" "sys_start m = ?s" "sys_end m = ?e" "m_exec m = r_exec r"
    by blast
  have new: "maps_inv gate (rs @ [r]) (ms @ [m])" by (rule add_new_inv [OF assms m(2-6)])
  show ?thesis
  proof (cases "?name \<noteq> None \<and> ms \<noteq> []")
    case True
    then obtain rest' where b: "the ?name = r_name gate r @ 0 # rest'" using n(1) by auto
    have last: "module_ok (last ms)" using assms(1) True by (simp add: maps_inv_def)
    from continues_module [OF last n(2)] obtain c where c: "continues ?s (the ?name) (r_exec r) (last ms) = Inr c"
      "c \<longrightarrow> ?s = sys_end (last ms) \<and> r_name gate r = mod_name (last ms)" unfolding b by blast
    show ?thesis
    proof (cases c)
      case True
      have ms: "ms = butlast ms @ [last ms]" using \<open>?name \<noteq> None \<and> ms \<noteq> []\<close> by simp
      have "maps_inv gate (rs @ [r]) (butlast ms @ [extend_module ?e (r_exec r) (last ms)])"
        using add_extend_inv [of gate rs "butlast ms" "last ms" r] assms c(2) True ms by metis
      then show ?thesis using \<open>?name \<noteq> None \<and> ms \<noteq> []\<close> c(1) True by (simp add: add_mapping_def)
    next
      case False
      then show ?thesis using \<open>?name \<noteq> None \<and> ms \<noteq> []\<close> c(1) m(1) new by (simp add: add_mapping_def)
    qed
  next
    case False
    then have "add_mapping ?s ?e (off_of gate r) (r_exec r) ?name ms = Inr (ms @ [m])"
      unfolding add_mapping_def if_not_P [OF False] using m(1) by simp
    then show ?thesis using new by blast
  qed
qed

text \<open>All lines.\<close>

lemma maps_read:
  assumes "file_reads rd (maps_text rs)" "length junk = 512" "\<forall>r \<in> set rs. region_ok r" "ascending rs"
  shows "\<exists>ms. each_line (GetNextLine rd) PopLine lr_buf (maps_line gate) [] (LineReader_ctor junk) = Some (Inr ms) \<and> maps_inv gate rs ms"
proof -
  let ?I = "\<lambda>ds ms. \<exists>k \<le> length rs. ds = map region_text (take k rs) \<and> maps_inv gate (take k rs) ms"
  have step: "\<exists>ms'. maps_line gate (l @ 0 # rest) ms = Inr ms' \<and> ?I (ds @ [l]) ms'"
    if I: "?I ds ms" and all: "map region_text rs = ds @ l # todo" for ds l todo rest ms
  proof -
    from I obtain k where k: "k \<le> length rs" "ds = map region_text (take k rs)" "maps_inv gate (take k rs) ms" by blast
    have lt: "k < length rs" using all k(1,2) by (metis append_eq_conv_conj length_map length_take min.absorb2 nat_less_le take_all list.distinct(1) append_self_conv order_refl take_map)
    have l: "l = region_text (rs ! k)" using all lt k(1,2) by (metis length_map length_take min.absorb2 nth_append_length nth_map)
    have tk: "take (Suc k) rs = take k rs @ [rs ! k]" using lt by (rule take_Suc_conv_app_nth)
    have "region_ok (rs ! k)" "ascending (take k rs @ [rs ! k])" using assms(3,4) lt sorted_wrt_take [of _ rs "Suc k"] by (simp_all add: ascending_def tk)
    from add_mapping_inv [OF k(3) this(2,1)] maps_line_region [OF this(1), of gate rest ms] obtain ms' where
      "maps_line gate (l @ 0 # rest) ms = Inr ms'" "maps_inv gate (take (Suc k) rs) ms'" unfolding l tk by metis
    moreover have "ds @ [l] = map region_text (take (Suc k) rs)" by (simp add: tk k(2) l)
    ultimately show ?thesis using lt by (intro exI [of _ ms']) (metis Suc_leI)
  qed
  have lines: "takeWhile (\<lambda>l. length l < 512) (split_lines (lr_pending (maps_text rs) (LineReader_ctor junk))) = map region_text rs"
    using maps_text_lines [OF assms(3)] assms(3) by (simp add: lr_pending_def LineReader_ctor_def region_ok_def takeWhile_eq_all_conv)
  have "?I [] []" by (rule exI [of _ 0]) (simp add: maps_inv_def)
  then have "\<exists>ms. each_line (GetNextLine rd) PopLine lr_buf (maps_line gate) [] (LineReader_ctor junk) = Some (Inr ms) \<and> ?I (map region_text rs) ms"
    using assms(1,2) lines by (intro reader.each_line_inv [where I = ?I and F = "maps_text rs", OF step]) (auto simp: lr_inv_def LineReader_ctor_def)
  then obtain ms k where ms: "each_line (GetNextLine rd) PopLine lr_buf (maps_line gate) [] (LineReader_ctor junk) = Some (Inr ms)"
    "k \<le> length rs" "map region_text rs = map region_text (take k rs)" "maps_inv gate (take k rs) ms" by blast
  from arg_cong [OF ms(3), of length] ms(2) have "take k rs = rs" by simp
  then show ?thesis using ms by auto
qed

section \<open>The entry point\<close>

lemma entry_first_set: "set (entry_first e ms) = set ms \<and> (entry_first e ms = [] \<longleftrightarrow> ms = [])"
proof -
  have "entry_index e i ms = Some j \<Longrightarrow> i \<le> j \<and> j < i + length ms" for i j
    by (induction ms arbitrary: i) (fastforce split: if_splits)+
  then have j: "entry_index e 0 ms = Some j \<Longrightarrow> j < length ms" for j by fastforce
  have "set (ms ! j # take j ms @ drop (j + 1) ms) = set ms" if "j < length ms" for j
    using arg_cong [OF id_take_nth_drop [OF that], of set] by auto
  then show ?thesis using j by (auto simp: entry_first_def split: option.splits)
qed

text \<open>The module of the entry point is the first.\<close>

lemma entry_first_hd:
  assumes "e \<noteq> 0" "m \<in> set ms" "start_addr m \<le> e" "e < start_addr m + m_size m"
  shows "\<exists>m'. entry_first e ms = m' # tl (entry_first e ms) \<and> start_addr m' \<le> e \<and> e < start_addr m' + m_size m'"
proof -
  have "m \<in> set ms \<Longrightarrow> \<exists>j. entry_index e i ms = Some (i + j) \<and> j < length ms \<and> start_addr (ms ! j) \<le> e \<and> e < start_addr (ms ! j) + m_size (ms ! j)" for i
  proof (induction ms arbitrary: i)
    case (Cons a ms)
    show ?case
    proof (cases "start_addr a \<le> e \<and> e < start_addr a + m_size a")
      case False
      with Cons assms(3,4) obtain j where "entry_index e (i + 1) ms = Some (i + 1 + j)" "j < length ms" "start_addr (ms ! j) \<le> e"
        "e < start_addr (ms ! j) + m_size (ms ! j)" by fastforce
      then show ?thesis using False by (intro exI [of _ "Suc j"]) auto
    qed (intro exI [of _ 0], simp)
  qed simp
  from this [OF assms(2), of 0] show ?thesis using assms(1) by (auto simp: entry_first_def)
qed

section \<open>The modules suit the rest of the dumper\<close>

lemma maps_inv_ok:
  assumes "maps_inv gate rs ms" "set ms' = set ms"
  shows "mappings_ok ms'"
proof -
  have ok: "module_ok m" if "m \<in> set ms" for m using assms(1) that by (simp add: maps_inv_def)
  have "mapping_ok m" if "m \<in> set ms" for m
  proof -
    have b: "start_addr m = sys_start m" "m_size m = sys_end m - sys_start m" "sys_start m < sys_end m"
      using ok [OF that] by (simp_all add: module_ok_def)
    have "unat (sys_end m - sys_start m) = unat (sys_end m) - unat (sys_start m)" using b(3) by (simp add: unat_sub less_imp_le)
    moreover have "unat (sys_end m) < 2 ^ 32" using unsigned_less [of "sys_end m"] by simp
    ultimately show ?thesis using b by (simp add: mapping_ok_def word_less_nat_alt)
  qed
  moreover have "m = m' \<or> sys_end m \<le> sys_start m' \<or> sys_end m' \<le> sys_start m" if "m \<in> set ms" "m' \<in> set ms" for m m'
  proof -
    obtain i j where "i < length ms" "j < length ms" "m = ms ! i" "m' = ms ! j" using \<open>m \<in> set ms\<close> \<open>m' \<in> set ms\<close> by (metis in_set_conv_nth)
    moreover have "sorted_wrt (\<lambda>m m'. sys_end m \<le> sys_start m') ms" using assms(1) by (simp add: maps_inv_def)
    ultimately show ?thesis by (cases i j rule: linorder_cases) (auto simp: sorted_wrt_iff_nth_less)
  qed
  ultimately show ?thesis using assms(2) by (simp add: mappings_ok_def)
qed


section \<open>Properties\<close>

text \<open>C19: The mappings of the process are read: when \<open>/proc/pid/maps\<close> lists regions in ascending order in the format of the
  kernel, \<open>EnumerateMappings\<close>, for every way the kernel cuts the file into reads, ends with modules that are
  disjoint and do not wrap around, that cover exactly the addresses of the regions, and that contain every
  region in a module with its name, executable when the region is. The file is closed. Such a list is
  what the removal of private data from stacks relies on.\<close>

theorem enumerate_mappings:
  assumes "file_reads rd (maps_text rs)" "length junk = 512" "\<forall>r \<in> set rs. region_ok r" "ascending rs"
    and "0 < ld_pid s" "ld_pid s \<le> 2147483647" "length maps_path = 255" "mappings s = []"
    and "q = proc_prefix @ dec_bytes (nat (ld_pid s)) @ 47 # butlast maps_node" "p = q @ 0 # drop (length q + 1) maps_path"
    and "0 \<le> x h (LdOpen p)" "gate = auxv s ! AT_SYSINFO_EHDR"
  shows "\<exists>ms. EnumerateMappings x rd maps_path junk (s, h) =
      Some (Inr (rs \<noteq> [], s\<lparr>mappings := ms\<rparr>, h @ [LdOpen p, LdClose (x h (LdOpen p))])) \<and> mappings_ok ms \<and>
    (\<forall>a. (\<exists>m \<in> set ms. MappingContainsAddress m a) \<longleftrightarrow> (\<exists>r \<in> set rs. in_region r a)) \<and>
    (\<forall>r \<in> set rs. \<exists>m \<in> set ms. region_in gate r m)"
proof -
  have tn: "maps_node = [109, 97, 112, 115] @ 0 # []" by (simp add: maps_node_def)
  have nz: "0 \<notin> set [109, 97, 112, 115 :: byte]" "[109, 97, 112, 115 :: byte] \<noteq> []" by simp_all
  have "length (dec_bytes (nat (ld_pid s))) \<le> 10"
    using digits_length [of 10 "nat (ld_pid s)"] assms(6) by (simp add: dec_bytes_def)
  then have q: "q = proc_prefix @ dec_bytes (nat (ld_pid s)) @ 47 # [109, 97, 112, 115]" "length q < 255"
    using assms(9) by (simp_all add: tn proc_prefix_def)
  have path: "BuildProcPath (Some maps_path) (ld_pid s) (Some maps_node) = Inr (True, Some p)"
    using BuildProcPath_ok [OF assms(5,6) nz assms(7), of "[]"] q(2) assms(10)
    unfolding tn Let_def q(1) [symmetric] by simp
  from maps_read [OF assms(1-4), of gate] obtain ms where
    ms: "each_line (GetNextLine rd) PopLine lr_buf (maps_line gate) [] (LineReader_ctor junk) = Some (Inr ms)" "maps_inv gate rs ms" by blast
  let ?ms = "entry_first (auxv s ! AT_ENTRY) ms"
  have set: "set ?ms = set ms" "?ms = [] \<longleftrightarrow> rs = []" using entry_first_set ms(2) by (auto simp: maps_inv_def)
  have "EnumerateMappings x rd maps_path junk (s, h) = Some (Inr (rs \<noteq> [], s\<lparr>mappings := ?ms\<rparr>, h @ [LdOpen p, LdClose (x h (LdOpen p))]))"
    using path assms(8,11) ms(1) set(2) unfolding assms(12) by (simp add: EnumerateMappings_def)
  moreover have "mappings_ok ?ms" by (rule maps_inv_ok [OF ms(2) set(1)])
  moreover have "\<forall>a. (\<exists>m \<in> set ?ms. MappingContainsAddress m a) \<longleftrightarrow> (\<exists>r \<in> set rs. in_region r a)"
    "\<forall>r \<in> set rs. \<exists>m \<in> set ?ms. region_in gate r m" using ms(2) unfolding set(1) maps_inv_def by auto
  ultimately show ?thesis by (intro exI [of _ ?ms]) simp
qed

text \<open>A process with code and data of one file.\<close>

definition demo_regions :: "region list" where
  "demo_regions =
     [\<lparr>r_start = 0x8000, r_end = 0x9000, r_perms = [114, 45, 120, 112], r_offset = 0, r_mid = [32, 48, 58, 48, 32, 55, 32], r_path = Some [47, 97]\<rparr>,
      \<lparr>r_start = 0x9000, r_end = 0xa000, r_perms = [114, 119, 45, 112], r_offset = 0x1000, r_mid = [32, 48, 58, 48, 32, 55, 32], r_path = Some [47, 97]\<rparr>]"

definition demo_dumper :: LinuxDumper where
  "demo_dumper = \<lparr>ld_pid = 7, root_prefix = [0], crash_address = 0, crash_signal = 11, crash_signal_code = 0, crash_thread = 7,
     mappings = [], auxv = replicate 34 0\<rparr>"

theorem enumerate_mappings_witness:
  "\<exists>ms cs. EnumerateMappings (\<lambda>h c. 3) (\<lambda>i pos cnt. Some (take cnt (drop pos (maps_text demo_regions)))) (replicate 255 0) (replicate 512 0) (demo_dumper, []) =
     Some (Inr (True, demo_dumper\<lparr>mappings := ms\<rparr>, cs)) \<and> mappings_ok ms \<and> (\<exists>m \<in> set ms. MappingContainsAddress m 0x8004)"
proof -
  let ?rd = "\<lambda>i pos cnt. Some (take cnt (drop pos (maps_text demo_regions)))"
  have "file_reads ?rd (maps_text demo_regions)" by (auto simp: file_reads_def)
  moreover have "\<forall>r \<in> set demo_regions. region_ok r" "ascending demo_regions"
    by (simp_all add: demo_regions_def region_ok_def region_text_def path_text_def ascending_def)
  moreover have "0 < ld_pid demo_dumper" "ld_pid demo_dumper \<le> 2147483647" "mappings demo_dumper = []"
    by (simp_all add: demo_dumper_def)
  moreover have "demo_regions \<noteq> []" "\<exists>r \<in> set demo_regions. in_region r 0x8004" by (simp_all add: demo_regions_def in_region_def)
  ultimately show ?thesis
    using enumerate_mappings [of ?rd demo_regions "replicate 512 0" demo_dumper "replicate 255 0" _ _ "\<lambda>h c. 3" "[]" _] by fastforce
qed

end
