(* ===== verification/Memory_Range.thy ===== *)
theory Memory_Range
  imports Prelude
begin

text \<open>
  Checked access to memory: \<open>MemoryRange\<close> (\<open>breakpad/src/common/memory_range.h\<close>), files mapped into memory
  (\<open>breakpad/src/common/linux/memory_mapped_file.cc\<close>) and symbolic links (\<open>safe_readlink.cc\<close>). Lengths and
  offsets are 32-bit words that wrap around; system calls are a parameter and are recorded.
\<close>

section \<open>Ranges\<close>

record MemoryRange =
  mr_data :: ptr
  mr_length :: "32 word"

definition MemoryRange_ctor :: MemoryRange where
  "MemoryRange_ctor = \<lparr>mr_data = null, mr_length = 0\<rparr>"

definition range_Set :: "ptr \<Rightarrow> 32 word \<Rightarrow> MemoryRange" where
  "range_Set p n = \<lparr>mr_data = p, mr_length = if p \<noteq> null then n else 0\<rparr>"

definition IsEmpty :: "MemoryRange \<Rightarrow> bool" where
  "IsEmpty r \<longleftrightarrow> mr_length r = 0"

definition Covers :: "32 word \<Rightarrow> 32 word \<Rightarrow> MemoryRange \<Rightarrow> bool" where
  "Covers sub_offset sub_length r \<longleftrightarrow>
     sub_offset < mr_length r \<and> sub_offset + sub_length \<ge> sub_offset \<and> sub_offset + sub_length \<le> mr_length r"

definition GetData :: "32 word \<Rightarrow> 32 word \<Rightarrow> MemoryRange \<Rightarrow> ptr" where
  "GetData sub_offset sub_length r = (if Covers sub_offset sub_length r then mr_data r + unat sub_offset else null)"

definition GetArrayElement :: "32 word \<Rightarrow> 32 word \<Rightarrow> 32 word \<Rightarrow> MemoryRange \<Rightarrow> ptr" where
  "GetArrayElement element_offset element_size element_index r =
     GetData (element_offset + element_index * element_size) element_size r"

definition Subrange :: "32 word \<Rightarrow> 32 word \<Rightarrow> MemoryRange \<Rightarrow> MemoryRange" where
  "Subrange sub_offset sub_length r =
     (if Covers sub_offset sub_length r then range_Set (mr_data r + unat sub_offset) sub_length else MemoryRange_ctor)"

text \<open>The wrapping comparison of \<open>Covers\<close> is the exact one.\<close>

lemma Covers_iff:
  "Covers off n r \<longleftrightarrow> unat off < unat (mr_length r) \<and> unat off + unat n \<le> unat (mr_length r)"
proof -
  have "off + n \<ge> off \<longleftrightarrow> unat off + unat n < 2 ^ 32"
    unfolding no_olen_add_nat by simp
  moreover have "unat (off + n) = unat off + unat n" if "unat off + unat n < 2 ^ 32"
    using that by (simp add: unat_word_ariths)
  moreover have "unat (mr_length r) < 2 ^ 32" using unsigned_less [of "mr_length r"] by simp
  ultimately show ?thesis unfolding Covers_def by (auto simp: word_less_nat_alt word_le_nat_alt)
qed

section \<open>Mapped files\<close>

datatype mm_call =
    MmOpen string
  | MmFstat int            \<comment> \<open>the field \<open>st_size\<close>, -1 when \<open>fstat64\<close> fails\<close>
  | MmMmap "32 word" int "32 word"
  | MmClose int
  | MmMunmap ptr "32 word"

type_synonym 'a mm = "(MemoryRange, mm_call, 'a) mach"

definition Unmap :: "mm_call ext \<Rightarrow> unit mm" where
  "Unmap x = wbind wget (\<lambda>c.
     if mr_data c \<noteq> null
     then wbind (wcall x (MmMunmap (mr_data c) (mr_length c))) (\<lambda>_. wmod (\<lambda>_. range_Set null 0))
     else wret ())"

definition Map :: "mm_call ext \<Rightarrow> string \<Rightarrow> 32 word \<Rightarrow> bool mm" where
  "Map x path offset =
     wbind (Unmap x) (\<lambda>_.
     wbind (wcall x (MmOpen path)) (\<lambda>fd.
     if fd = - 1 then wret False else
     wbind (wcall x (MmFstat fd)) (\<lambda>st_size.
     if st_size < 0 then wbind (wcall x (MmClose fd)) (\<lambda>_. wret False)
     else
       (let file_len = of_int st_size :: 32 word in
        if offset \<ge> file_len then wbind (wcall x (MmClose fd)) (\<lambda>_. wret True)
        else
          (let content_len = file_len - offset in
           wbind (wcall x (MmMmap content_len fd offset)) (\<lambda>dat.
           wbind (wcall x (MmClose fd)) (\<lambda>_.
           if dat = - 1 then wret False
           else wbind (wmod (\<lambda>_. range_Set (nat dat) content_len)) (\<lambda>_. wret True))))))))"

definition MemoryMappedFile_ctor :: "mm_call ext \<Rightarrow> string \<Rightarrow> 32 word \<Rightarrow> unit mm" where
  "MemoryMappedFile_ctor x path offset = wbind (Map x path offset) (\<lambda>_. wret ())"

definition MemoryMappedFile_dtor :: "mm_call ext \<Rightarrow> unit mm" where
  "MemoryMappedFile_dtor x = Unmap x"

section \<open>Symbolic links\<close>

text \<open>\<open>ans\<close>: the bytes \<open>readlink\<close> stored, at most as many as the buffer has.\<close>

definition SafeReadLink :: "byte list option \<Rightarrow> block \<Rightarrow> (bool \<times> block) res" where
  "SafeReadLink ans buffer =
     (case ans of
        None \<Rightarrow> Inr (False, buffer)
      | Some bs \<Rightarrow>
          (if length buffer < length bs then Inl OutOfBounds
           else (let b = bs @ drop (length bs) buffer in
             if length bs < length buffer then Inr (True, b[length bs := 0]) else Inr (False, b))))"

lemma SafeReadLink_terminated:
  assumes "length bs \<le> length buffer"
  shows "\<exists>ok b. SafeReadLink (Some bs) buffer = Inr (ok, b) \<and> length b = length buffer \<and>
    (ok \<longleftrightarrow> length bs < length buffer) \<and> (ok \<longrightarrow> take (length bs + 1) b = bs @ [0])"
  using assms by (auto simp: SafeReadLink_def Let_def take_Suc_conv_app_nth)

section \<open>Descriptors and mappings\<close>

text \<open>What a list of calls leaves open and mapped. The kernel answers with positive addresses.\<close>

fun open_fds :: "mm_call ext \<Rightarrow> mm_call list \<Rightarrow> mm_call list \<Rightarrow> int list" where
  "open_fds x h [] = []"
| "open_fds x h (MmOpen p # cs) =
     (if x h (MmOpen p) = - 1 then [] else [x h (MmOpen p)]) @ open_fds x (h @ [MmOpen p]) cs"
| "open_fds x h (MmClose fd # cs) = open_fds x (h @ [MmClose fd]) cs"
| "open_fds x h (c # cs) = open_fds x (h @ [c]) cs"

definition closed_fds :: "mm_call list \<Rightarrow> int list" where
  "closed_fds cs = concat (map (\<lambda>c. case c of MmClose fd \<Rightarrow> [fd] | _ \<Rightarrow> []) cs)"

fun mapped_ranges :: "mm_call ext \<Rightarrow> mm_call list \<Rightarrow> mm_call list \<Rightarrow> (ptr \<times> 32 word) list" where
  "mapped_ranges x h [] = []"
| "mapped_ranges x h (MmMmap n fd off # cs) =
     (if x h (MmMmap n fd off) = - 1 then [] else [(nat (x h (MmMmap n fd off)), n)]) @
     mapped_ranges x (h @ [MmMmap n fd off]) cs"
| "mapped_ranges x h (c # cs) = mapped_ranges x (h @ [c]) cs"

definition unmapped_ranges :: "mm_call list \<Rightarrow> (ptr \<times> 32 word) list" where
  "unmapped_ranges cs = concat (map (\<lambda>c. case c of MmMunmap p n \<Rightarrow> [(p, n)] | _ \<Rightarrow> []) cs)"

definition mmap_laws :: "mm_call ext \<Rightarrow> bool" where
  "mmap_laws x \<longleftrightarrow> (\<forall>h n fd off. x h (MmMmap n fd off) = - 1 \<or> 0 < x h (MmMmap n fd off))"

lemma trace_simps [simp]:
  "closed_fds [] = []" "closed_fds (c # cs) = (case c of MmClose fd \<Rightarrow> [fd] | _ \<Rightarrow> []) @ closed_fds cs"
  "unmapped_ranges [] = []" "unmapped_ranges (c # cs) = (case c of MmMunmap p n \<Rightarrow> [(p, n)] | _ \<Rightarrow> []) @ unmapped_ranges cs"
  by (simp_all add: closed_fds_def unmapped_ranges_def)

text \<open>The mapping a file object holds.\<close>

definition held_range :: "MemoryRange \<Rightarrow> (ptr \<times> 32 word) list" where
  "held_range c = (if mr_data c = null then [] else [(mr_data c, mr_length c)])"

definition range_ok :: "MemoryRange \<Rightarrow> bool" where
  "range_ok c \<longleftrightarrow> (mr_data c = null \<longrightarrow> mr_length c = 0)"

lemma Unmap_run:
  assumes "range_ok c"
  shows "\<exists>us. Unmap x (c, h) = Inr ((), range_Set null 0, h @ us) \<and> unmapped_ranges us = held_range c \<and>
    closed_fds us = [] \<and> (us = [] \<or> us = [MmMunmap (mr_data c) (mr_length c)])"
  using assms by (cases c) (auto simp: Unmap_def range_Set_def held_range_def range_ok_def)

lemma Map_run:
  assumes "mmap_laws x" "range_ok c"
  shows "\<exists>ok c' cs. Map x path off (c, h) = Inr (ok, c', h @ cs) \<and> range_ok c' \<and>
    closed_fds cs = open_fds x h cs \<and> unmapped_ranges cs = held_range c \<and> mapped_ranges x h cs = held_range c' \<and>
    (ok \<or> IsEmpty c')" (is "\<exists>ok c' cs. ?P ok c' cs")
proof -
  from Unmap_run [OF assms(2)] obtain us where us: "Unmap x (c, h) = Inr ((), range_Set null 0, h @ us)"
    "unmapped_ranges us = held_range c" "us = [] \<or> us = [MmMunmap (mr_data c) (mr_length c)]" by blast
  let ?h = "h @ us"
  let ?fd = "x ?h (MmOpen path)"
  let ?h1 = "?h @ [MmOpen path]"
  let ?sz = "x ?h1 (MmFstat ?fd)"
  let ?h2 = "?h1 @ [MmFstat ?fd]"
  let ?len = "of_int ?sz :: 32 word"
  let ?mm = "MmMmap (?len - off) ?fd off"
  note sim = Map_def us(1) Let_def range_Set_def held_range_def range_ok_def IsEmpty_def
  consider "?fd = - 1" | "?fd \<noteq> - 1" "?sz < 0" | "?fd \<noteq> - 1" "0 \<le> ?sz" "?len \<le> off"
    | "?fd \<noteq> - 1" "0 \<le> ?sz" "\<not> ?len \<le> off" "x ?h2 ?mm = - 1"
    | "?fd \<noteq> - 1" "0 \<le> ?sz" "\<not> ?len \<le> off" "x ?h2 ?mm \<noteq> - 1" by linarith
  then show ?thesis
  proof cases
    case 1
    then have "?P False (range_Set null 0) (us @ [MmOpen path])" using us(2,3) by (auto simp: sim)
    then show ?thesis by blast
  next
    case 2
    then have "?P False (range_Set null 0) (us @ [MmOpen path, MmFstat ?fd, MmClose ?fd])" using us(2,3) by (auto simp: sim)
    then show ?thesis by blast
  next
    case 3
    then have "?P True (range_Set null 0) (us @ [MmOpen path, MmFstat ?fd, MmClose ?fd])" using us(2,3) by (auto simp: sim)
    then show ?thesis by blast
  next
    case 4
    then have "?P False (range_Set null 0) (us @ [MmOpen path, MmFstat ?fd, ?mm, MmClose ?fd])" using us(2,3) by (auto simp: sim)
    then show ?thesis by blast
  next
    case 5
    then have "0 < nat (x ?h2 ?mm)" using assms(1) by (fastforce simp: mmap_laws_def)
    with 5 have "?P True (range_Set (nat (x ?h2 ?mm)) (?len - off)) (us @ [MmOpen path, MmFstat ?fd, ?mm, MmClose ?fd])"
      using us(2,3) by (auto simp: sim)
    then show ?thesis by blast
  qed
qed

section \<open>Properties\<close>

text \<open>The checks of \<open>MemoryRange\<close> are exact although their sums wrap around: a piece is covered if and only if it
  starts inside the range and ends at or before its end, in unbounded arithmetic. Then the pointer
  returned is the address of the piece, and a covered piece of the subrange is a covered piece of the
  range at the same address; otherwise null and the empty range are returned.\<close>

lemma memory_range_exact:
  "(Covers off n r \<longleftrightarrow> unat off < unat (mr_length r) \<and> unat off + unat n \<le> unat (mr_length r)) \<and>
   (if Covers off n r then
      GetData off n r = mr_data r + unat off \<and>
      (mr_data r = null \<or> \<not> Covers off' n' (Subrange off n r) \<or>
        Covers (off + off') n' r \<and> GetData off' n' (Subrange off n r) = GetData (off + off') n' r)
    else GetData off n r = null \<and> IsEmpty (Subrange off n r))"
proof -
  have "Covers (off + off') n' r \<and> GetData off' n' (Subrange off n r) = GetData (off + off') n' r"
    if "Covers off n r" "mr_data r \<noteq> null" "Covers off' n' (Subrange off n r)"
  proof -
    have sub: "Subrange off n r = \<lparr>mr_data = mr_data r + unat off, mr_length = n\<rparr>"
      using that(1,2) by (simp add: Subrange_def range_Set_def)
    have b: "unat off + unat n \<le> unat (mr_length r)" "unat off' < unat n" "unat off' + unat n' \<le> unat n"
      using that(1,3) unfolding sub by (simp_all add: Covers_iff)
    have "unat (mr_length r) < 2 ^ 32" using unsigned_less [of "mr_length r"] by simp
    with b have "unat (off + off') = unat off + unat off'" by (simp add: unat_word_ariths)
    then show ?thesis using b that(3) unfolding GetData_def sub by (simp add: Covers_iff)
  qed
  moreover have "if Covers off n r then GetData off n r = mr_data r + unat off
      else GetData off n r = null \<and> IsEmpty (Subrange off n r)"
    by (simp add: GetData_def Subrange_def MemoryRange_ctor_def IsEmpty_def)
  ultimately show ?thesis using Covers_iff [of off n r] by (cases "Covers off n r") (simp_all, blast)
qed

theorem memory_range_exact_witness:
  "Covers 6 2 \<lparr>mr_data = 4096, mr_length = 16\<rparr> \<and>
   GetData 2 2 (Subrange 4 8 \<lparr>mr_data = 4096, mr_length = 16\<rparr>) = GetData 6 2 \<lparr>mr_data = 4096, mr_length = 16\<rparr>"
proof -
  let ?r = "\<lparr>mr_data = 4096, mr_length = 16\<rparr>"
  have c: "Covers 4 8 ?r" "Covers 2 2 (Subrange 4 8 ?r)" "mr_data ?r \<noteq> null"
    by (simp_all add: Covers_def Subrange_def range_Set_def)
  have "Covers (4 + 2) 2 ?r \<and> GetData 2 2 (Subrange 4 8 ?r) = GetData (4 + 2) 2 ?r"
    using memory_range_exact [of 4 8 ?r 2 2, THEN conjunct2] c(2,3) unfolding if_P [OF c(1)] by blast
  then show ?thesis by simp
qed

text \<open>Mapped files are balanced: on every path of \<open>Map\<close>, whatever the kernel answers, the descriptor that was
  opened is closed exactly once, the previous mapping and nothing else is unmapped, a failure leaves the
  object empty, and the object holds exactly the mapping that was made, so that the destructor
  unmaps it.\<close>

lemma mapped_file_balanced:
  assumes "mmap_laws x" "range_ok c"
  shows "\<exists>ok c' cs us. Map x path off (c, h) = Inr (ok, c', h @ cs) \<and> (ok \<or> IsEmpty c') \<and>
    closed_fds cs = open_fds x h cs \<and> unmapped_ranges cs = held_range c \<and>
    MemoryMappedFile_dtor x (c', h @ cs) = Inr ((), range_Set null 0, h @ cs @ us) \<and>
    unmapped_ranges us = mapped_ranges x h cs"
proof -
  from Map_run [OF assms, of path off h] obtain ok c' cs where m:
    "Map x path off (c, h) = Inr (ok, c', h @ cs)" "range_ok c'" "closed_fds cs = open_fds x h cs"
    "unmapped_ranges cs = held_range c" "mapped_ranges x h cs = held_range c'" "ok \<or> IsEmpty c'" by blast
  from Unmap_run [OF m(2), of x "h @ cs"] obtain us where
    "Unmap x (c', h @ cs) = Inr ((), range_Set null 0, h @ cs @ us)" "unmapped_ranges us = held_range c'" by auto
  with m show ?thesis unfolding MemoryMappedFile_dtor_def by metis
qed

text \<open>A kernel that maps every file of 100 bytes at address 4096.\<close>

definition demo_kernel :: "mm_call ext" where
  "demo_kernel h c = (case c of MmOpen _ \<Rightarrow> 3 | MmFstat _ \<Rightarrow> 100 | MmMmap _ _ _ \<Rightarrow> 4096 | _ \<Rightarrow> 0)"

theorem mapped_file_balanced_witness:
  "\<exists>us. MemoryMappedFile_dtor demo_kernel (\<lparr>mr_data = 4096, mr_length = 90\<rparr>,
     [MmOpen ''/a'', MmFstat 3, MmMmap 90 3 10, MmClose 3]) = Inr ((), range_Set null 0, us) \<and>
     Map demo_kernel ''/a'' 10 (MemoryRange_ctor, []) =
       Inr (True, \<lparr>mr_data = 4096, mr_length = 90\<rparr>, [MmOpen ''/a'', MmFstat 3, MmMmap 90 3 10, MmClose 3])"
proof -
  have laws: "mmap_laws demo_kernel" "range_ok MemoryRange_ctor"
    by (simp_all add: mmap_laws_def demo_kernel_def range_ok_def MemoryRange_ctor_def)
  have run: "Map demo_kernel ''/a'' 10 (MemoryRange_ctor, []) =
      Inr (True, \<lparr>mr_data = 4096, mr_length = 90\<rparr>, [MmOpen ''/a'', MmFstat 3, MmMmap 90 3 10, MmClose 3])"
    by (simp add: Map_def Unmap_def MemoryRange_ctor_def demo_kernel_def range_Set_def Let_def)
  from mapped_file_balanced [OF laws, of "''/a''" 10 "[]"] show ?thesis unfolding run by auto
qed

text \<open>
  \<open>GetArrayElement\<close> computes the offset of the element with wrap-around before the check: an element
  far outside the range can wrap back into it, and its neighbour is returned instead of null.
\<close>

lemma array_element_wraps:
  "GetArrayElement 0 4 0x40000001 \<lparr>mr_data = 4096, mr_length = 8\<rparr> = 4100"
  by (simp add: GetArrayElement_def GetData_def Covers_def)

end
