(* ===== verification/Dump_Threads.thy ===== *)
theory Dump_Threads
  imports Minidump_File_Writer Process_Maps Memory_Range
begin

text \<open>
  The thread list of a minidump (\<open>breakpad/src/client/linux/minidump_writer/minidump_writer.cc\<close>): the part of
  each stack that is copied, the memory around the crash, and the records of the threads, with the
  registers of the crash (\<open>dump_writer_common/ucontext_reader.cc\<close>, 32-bit ARM). Everything is written through
  the file writer of \<open>Minidump_File_Writer\<close>.
\<close>

section \<open>State\<close>

text \<open>\<open>MDMemoryDescriptor\<close>: where a region starts in the process, and its size and place in the file.\<close>

record MDMemoryDescriptor =
  start_of_memory_range :: "64 word"
  md_memory :: location

record dump_state =
  minidump_writer :: file_writer
  memory_blocks :: "MDMemoryDescriptor list"
  crashing_thread_context :: location
  dump_crash_address :: addr
  dump_mappings :: "MappingInfo list"
  dump_mm_calls :: "mm_call list"
  dump_ptrace :: PtraceDumper
  dump_pt_calls :: "pt_call list"

text \<open>The calls for mapped files and for \<open>ptrace\<close> are recorded in lists of their own.\<close>

type_synonym 'a dp = "(dump_state, sys_call, 'a) proc"

text \<open>
  What the writer gets from its caller and from the dumper: the size of a page, the memory of
  the process, whether the page allocator has room, the options, the threads with what
  \<open>GetThreadInfoByIndex\<close> answers for each, the registers of the crash, the signal with its code and
  parameters, the contents of files, and the memory the application registered. A read of a file answers by the
  number of the call, the offset and the byte count with an error number or the bytes.
\<close>

type_synonym file_read = "nat \<Rightarrow> nat \<Rightarrow> nat \<Rightarrow> int + byte list"

record dump_env =
  dv_page :: addr
  dv_peek :: "int \<Rightarrow> addr \<Rightarrow> addr option"
  dv_alloc :: "nat \<Rightarrow> bool"
  dv_skip_unreferenced :: bool
  dv_principal :: "MappingInfo option"
  dv_sanitize :: bool
  dv_size_limit :: int
  dv_threads :: "int list"
  dv_thread_info :: "nat \<Rightarrow> ThreadInfo option"
  dv_crash_thread :: int
  dv_ucontext :: "addr list option"     \<comment> \<open>\<open>arm_r0\<close> to \<open>arm_pc\<close> and \<open>arm_cpsr\<close>\<close>
  dv_signal :: "32 word"
  dv_signal_code :: "32 word"
  dv_exception_info :: "64 word list"
  dv_file :: "string \<Rightarrow> file_read"
  dv_app_memory :: "(addr \<times> addr) list"

text \<open>Operations of the file writer, and results of loops that may not end.\<close>

definition pfile :: "'a wr \<Rightarrow> 'a dp" where
  "pfile m st = Some (res_bind (m (minidump_writer (fst st), snd st)) (\<lambda>(a, w, h). Inr (a, (fst st)\<lparr>minidump_writer := w\<rparr>, h)))"

definition ptrace_step :: "'a pt \<Rightarrow> 'a dp" where
  "ptrace_step m st =
     (case m (dump_ptrace (fst st), dump_pt_calls (fst st)) of
        None \<Rightarrow> None
      | Some (Inl e) \<Rightarrow> Some (Inl e)
      | Some (Inr (a, p, h)) \<Rightarrow> Some (Inr (a, (fst st)\<lparr>dump_ptrace := p, dump_pt_calls := h\<rparr>, snd st)))"

definition poption :: "'a option \<Rightarrow> 'a dp" where
  "poption v st = (case v of None \<Rightarrow> None | Some a \<Rightarrow> Some (Inr (a, st)))"

text \<open>\<open>TypedMDRVA::Flush\<close> for an object whose encoding is \<open>bytes\<close>.\<close>

definition flush_object :: "sys_call ext \<Rightarrow> mdrva \<Rightarrow> byte list \<Rightarrow> unit dp" where
  "flush_object x r bytes = pbind (pfile (Copy x (rva_position r) bytes)) (\<lambda>_. pret ())"

section \<open>Registers\<close>

definition GetStackPointer :: "addr list \<Rightarrow> addr" where
  "GetStackPointer uc = uc ! 13"

definition GetInstructionPointer :: "addr list \<Rightarrow> addr" where
  "GetInstructionPointer uc = uc ! 15"

definition uc_FillCPUContext :: "RawContextCPU \<Rightarrow> addr list \<Rightarrow> RawContextCPU" where
  "uc_FillCPUContext out uc = out\<lparr>context_flags := 0x40000006, iregs := map (\<lambda>i. uc ! i) [0..<16], cpsr := uc ! 16\<rparr>"

text \<open>\<open>MDRawContextARM\<close>: flags, sixteen registers, the status and 296 bytes of floating point state, which stay zero.\<close>

definition zero_context :: RawContextCPU where
  "zero_context = \<lparr>context_flags = 0, iregs = replicate 16 0, cpsr = 0\<rparr>"

definition context_bytes :: "RawContextCPU \<Rightarrow> byte list" where
  "context_bytes c = le32 (context_flags c) @ concat (map le32 (iregs c)) @ le32 (cpsr c) @ replicate 296 0"

section \<open>Stacks\<close>

text \<open>The loop that skips chunks of \<open>max_stack_len\<close> bytes below the stack pointer.\<close>

partial_function (option) skip_chunks :: "addr \<Rightarrow> addr \<Rightarrow> addr \<Rightarrow> addr option" where
  "skip_chunks max_stack_len sp int_stack =
     (if int_stack + max_stack_len < sp then skip_chunks max_stack_len sp (int_stack + max_stack_len)
      else Some int_stack)"

text \<open>The part of the stack that is copied.\<close>

definition stack_chunk :: "addr \<Rightarrow> int \<Rightarrow> addr \<times> addr \<Rightarrow> (addr \<times> addr) option" where
  "stack_chunk sp max_stack_len = (\<lambda>(stack, stack_len).
     if max_stack_len \<ge> 0 \<and> uint stack_len > max_stack_len then
       (case (if max_stack_len > 0 then skip_chunks (of_int max_stack_len) sp stack else Some stack) of
          None \<Rightarrow> None
        | Some st \<Rightarrow> Some (st, of_int max_stack_len))
     else Some (stack, stack_len))"

text \<open>Memory from the allocator, filled from the process; the result of \<open>Alloc\<close> is not checked.\<close>

definition copy_memory :: "dump_env \<Rightarrow> int \<Rightarrow> addr \<Rightarrow> addr \<Rightarrow> block res" where
  "copy_memory d tid src len =
     (if \<not> dv_alloc d (unat len) \<and> len \<noteq> 0 then Inl NullDeref
      else res_bind (CopyFromProcess (dv_peek d tid) (replicate (unat len) 0) src (unat len)) (\<lambda>(_, b). Inr b))"

text \<open>Whether a stack is left out because it does not refer to the principal mapping.\<close>

definition unreferenced :: "dump_env \<Rightarrow> block \<Rightarrow> nat \<Rightarrow> addr \<Rightarrow> addr \<Rightarrow> bool res" where
  "unreferenced d stack_copy stack_len off pc =
     (if \<not> dv_skip_unreferenced d then Inr False
      else (case dv_principal d of
              None \<Rightarrow> Inr True
            | Some m \<Rightarrow>
                if pc < sys_start m \<or> pc > sys_end m
                then res_bind (StackHasPointerToMapping stack_copy stack_len off m) (\<lambda>r. Inr (\<not> r))
                else Inr False))"

text \<open>The result, and \<open>thread->stack\<close>.\<close>

definition FillThreadStack :: "sys_call ext \<Rightarrow> dump_env \<Rightarrow> int \<Rightarrow> addr \<Rightarrow> addr \<Rightarrow> int \<Rightarrow> (bool \<times> MDMemoryDescriptor) dp" where
  "FillThreadStack x d tid sp pc max_stack_len = pbind pget (\<lambda>s.
     let none = \<lparr>start_of_memory_range = ucast sp, md_memory = (0, wr_position (minidump_writer s))\<rparr> in
     pbind (plift (GetStackInfo (dump_mappings s) (dv_page d) sp)) (\<lambda>info.
     case info of
       None \<Rightarrow> pret (True, none)
     | Some chunk \<Rightarrow>
         pbind (poption (stack_chunk sp max_stack_len chunk)) (\<lambda>(stack, stack_len).
         pbind (plift (copy_memory d tid stack stack_len)) (\<lambda>stack_copy.
         let off = sp - stack in
         pbind (plift (unreferenced d stack_copy (unat stack_len) off pc)) (\<lambda>skip.
         if skip then pret (True, none)
         else
           pbind (plift (if dv_sanitize d then SanitizeStackCopy (dump_mappings s) stack_copy (unat stack_len) sp off
                         else Inr stack_copy)) (\<lambda>stack_copy.
           pbind (pfile UntypedMDRVA) (\<lambda>r0.
           pbind (pfile (UntypedMDRVA_Allocate x r0 stack_len)) (\<lambda>(ok, r).
           if \<not> ok then pret (False, none)
           else pbind (pfile (UntypedMDRVA_Copy x r (rva_position r) stack_copy)) (\<lambda>_.
             let desc = \<lparr>start_of_memory_range = ucast stack, md_memory = (rva_size r, rva_position r)\<rparr> in
             pthen (pmod (\<lambda>s. s\<lparr>memory_blocks := memory_blocks s @ [desc]\<rparr>)) (pret (True, desc)))))))))))"

text \<open>The test before anything is written, when stacks that do not refer to the principal mapping are skipped.\<close>

definition CrashingThreadReferencesPrincipalMapping :: "MappingInfo list \<Rightarrow> dump_env \<Rightarrow> bool res" where
  "CrashingThreadReferencesPrincipalMapping ms d =
     (case (dv_ucontext d, dv_principal d) of
        (Some uc, Some m) \<Rightarrow>
          (let sp = GetStackPointer uc; pc = GetInstructionPointer uc in
           if pc \<ge> sys_start m \<and> pc < sys_end m then Inr True
           else
             res_bind (GetStackInfo ms (dv_page d) sp) (\<lambda>info.
             case info of
               None \<Rightarrow> Inr False
             | Some (stack, stack_len) \<Rightarrow>
                 res_bind (copy_memory d (dv_crash_thread d) stack stack_len) (\<lambda>stack_copy.
                   StackHasPointerToMapping stack_copy (unat stack_len) (sp - stack) m)))
      | _ \<Rightarrow> Inr False)"

section \<open>The memory around the crash\<close>

text \<open>128 bytes before and after, bounded by the first mapping that holds the instruction pointer.\<close>

definition ip_memory :: "MappingInfo list \<Rightarrow> addr \<Rightarrow> (addr \<times> addr) option" where
  "ip_memory ms ip =
     (case find (\<lambda>m. ip \<ge> start_addr m \<and> ip < start_addr m + m_size m) ms of
        None \<Rightarrow> None
      | Some m \<Rightarrow>
          (let start = max (start_addr m) (ip - 128); end_of_range = min (ip + 128) (start_addr m + m_size m) in
           Some (start, end_of_range - start)))"

definition write_ip_memory :: "sys_call ext \<Rightarrow> dump_env \<Rightarrow> int \<Rightarrow> addr \<Rightarrow> bool dp" where
  "write_ip_memory x d tid ip =
     pbind pget (\<lambda>s. case ip_memory (dump_mappings s) ip of
        None \<Rightarrow> pret True
      | Some (start, len) \<Rightarrow>
          pbind (pfile UntypedMDRVA) (\<lambda>r0.
          pbind (pfile (UntypedMDRVA_Allocate x r0 len)) (\<lambda>(ok, r).
          if \<not> ok then pret False
          else pbind (plift (copy_memory d tid start len)) (\<lambda>b.
            pbind (pfile (UntypedMDRVA_Copy x r (rva_position r) b)) (\<lambda>_.
            pthen (pmod (\<lambda>s. s\<lparr>memory_blocks := memory_blocks s @ [\<lparr>start_of_memory_range = ucast start, md_memory = (rva_size r, rva_position r)\<rparr>]\<rparr>))
              (pret True))))))"

section \<open>Threads\<close>

text \<open>\<open>MDRawThread\<close>, 48 bytes, of which the priority members and \<open>teb\<close> stay zero.\<close>

definition desc_bytes :: "MDMemoryDescriptor \<Rightarrow> byte list" where
  "desc_bytes m = le_bytes 8 (unat (start_of_memory_range m)) @ le32 (fst (md_memory m)) @ le32 (snd (md_memory m))"

definition thread_bytes :: "int \<Rightarrow> MDMemoryDescriptor \<Rightarrow> location \<Rightarrow> byte list" where
  "thread_bytes tid stack context1 =
     le32 (of_int tid) @ replicate 20 0 @ desc_bytes stack @ le32 (fst context1) @ le32 (snd context1)"

abbreviation (input) kLimitBaseThreadCount :: nat where "kLimitBaseThreadCount \<equiv> 20"

text \<open>The bound for the stacks of the threads behind the first twenty: unsigned sums, compared as \<open>off_t\<close>.\<close>

definition extra_thread_stack_len :: "int \<Rightarrow> MDRVA \<Rightarrow> nat \<Rightarrow> int" where
  "extra_thread_stack_len limit position num_threads =
     (if limit \<ge> 0 \<and> sint (position + of_nat num_threads * 8192 + 65536) > limit then 2048 else - 1)"

text \<open>The context of a thread; the object is flushed at the end of its scope, also when it was not allocated.\<close>

definition write_context :: "sys_call ext \<Rightarrow> RawContextCPU \<Rightarrow> location option dp" where
  "write_context x c =
     pbind (pfile UntypedMDRVA) (\<lambda>r0.
     pbind (pfile (UntypedMDRVA_Allocate x r0 368)) (\<lambda>(ok, r).
     pthen (flush_object x r (context_bytes (if ok then c else zero_context)))
       (pret (if ok then Some (rva_size r, rva_position r) else None))))"

definition write_thread :: "sys_call ext \<Rightarrow> dump_env \<Rightarrow> int \<Rightarrow> nat \<Rightarrow> byte list option dp" where
  "write_thread x d extra_len i =
     (let tid = dv_threads d ! i in
      case (if tid = dv_crash_thread d then dv_ucontext d else None) of
        Some uc \<Rightarrow>
          pbind (FillThreadStack x d tid (GetStackPointer uc) (GetInstructionPointer uc) (- 1)) (\<lambda>(ok, stack).
          if \<not> ok then pret None
          else pbind (write_ip_memory x d tid (GetInstructionPointer uc)) (\<lambda>ok.
            if \<not> ok then pret None
            else pbind (write_context x (uc_FillCPUContext zero_context uc)) (\<lambda>c.
              case c of
                None \<Rightarrow> pret None
              | Some loc \<Rightarrow> pthen (pmod (\<lambda>s. s\<lparr>crashing_thread_context := loc\<rparr>)) (pret (Some (thread_bytes tid stack loc))))))
      | None \<Rightarrow>
          (case dv_thread_info d i of
             None \<Rightarrow> pret None
           | Some info \<Rightarrow>
               pbind (FillThreadStack x d tid (stack_pointer info) (ti_GetInstructionPointer info)
                        (if dv_size_limit d \<ge> 0 \<and> i \<ge> kLimitBaseThreadCount then extra_len else - 1)) (\<lambda>(ok, stack).
               if \<not> ok then pret None
               else pbind (write_context x (ti_FillCPUContext info zero_context)) (\<lambda>c.
                 case c of
                   None \<Rightarrow> pret None
                 | Some loc \<Rightarrow>
                     pthen (if tid = dv_crash_thread d
                            then pmod (\<lambda>s. s\<lparr>crashing_thread_context := loc, dump_crash_address := ti_GetInstructionPointer info\<rparr>)
                            else pret ())
                       (pret (Some (thread_bytes tid stack loc)))))))"

fun write_threads :: "sys_call ext \<Rightarrow> dump_env \<Rightarrow> int \<Rightarrow> mdrva \<Rightarrow> nat list \<Rightarrow> bool dp" where
  "write_threads x d extra_len r [] = pret True"
| "write_threads x d extra_len r (i # is) = pbind (write_thread x d extra_len i) (\<lambda>t.
     case t of
       None \<Rightarrow> pret False
     | Some bytes \<Rightarrow> pbind (pfile (CopyIndexAfterObject x r i bytes)) (\<lambda>_. write_threads x d extra_len r is))"

text \<open>The result with the stream's location; the number of threads is flushed at the end.\<close>

definition WriteThreadListStream :: "sys_call ext \<Rightarrow> dump_env \<Rightarrow> location option dp" where
  "WriteThreadListStream x d =
     (let n = length (dv_threads d) in
      pbind (pfile UntypedMDRVA) (\<lambda>r0.
      pthen (passert (n \<noteq> 0))
      (pbind (pfile (UntypedMDRVA_Allocate x r0 (4 + of_nat n * 48))) (\<lambda>(ok, r).
       if \<not> ok then pthen (flush_object x r (le32 0)) (pret None)
       else pbind pget (\<lambda>s.
         pbind (write_threads x d (extra_thread_stack_len (dv_size_limit d) (wr_position (minidump_writer s)) n) r [0..<n]) (\<lambda>good.
         pthen (flush_object x r (le32 (of_nat n))) (pret (if good then Some (rva_size r, rva_position r) else None))))))))"

section \<open>The part of a stack that is copied\<close>

text \<open>The loop moves to the last multiple of the chunk size that lies below the stack pointer.\<close>

lemma skip_chunks_exact:
  assumes "0 < unat mx" and "unat stack \<le> unat sp" and "unat sp + unat mx < 4294967296"
  shows "\<exists>st. skip_chunks mx sp stack = Some st \<and> unat st = unat stack + unat mx * ((unat sp - unat stack - 1) div unat mx)"
  using assms(2)
proof (induction "unat sp - unat stack" arbitrary: stack rule: less_induct)
  case less
  have nxt: "unat (stack + mx) = unat stack + unat mx"
    using less.prems assms(3) by (subst unat_plus_if') simp
  show ?case
  proof (cases "stack + mx < sp")
    case True
    then have lt: "unat stack + unat mx < unat sp" using nxt by (simp add: word_less_nat_alt)
    have "\<exists>st. skip_chunks mx sp (stack + mx) = Some st \<and>
        unat st = unat (stack + mx) + unat mx * ((unat sp - unat (stack + mx) - 1) div unat mx)"
      using lt nxt assms(1) by (intro less.hyps) simp_all
    then obtain st where st: "skip_chunks mx sp (stack + mx) = Some st"
      "unat st = unat stack + unat mx + unat mx * ((unat sp - unat stack - 1 - unat mx) div unat mx)" by (auto simp: nxt)
    have "(unat sp - unat stack - 1) div unat mx = Suc ((unat sp - unat stack - 1 - unat mx) div unat mx)"
      using lt assms(1) by (intro le_div_geq) simp_all
    then show ?thesis using True st by (subst skip_chunks.simps) simp
  next
    case False
    then have "unat sp \<le> unat stack + unat mx" using nxt by (simp add: word_less_nat_alt)
    then have "(unat sp - unat stack - 1) div unat mx = 0" using assms(1) by (intro div_less) linarith
    then show ?thesis using False by (subst skip_chunks.simps) simp
  qed
qed

lemma below_multiple:
  fixes d m :: nat
  assumes "0 < m"
  shows "m * ((d - 1) div m) \<le> d" "d \<le> m * ((d - 1) div m) + m"
    "d = m * ((d - 1) div m) + m \<longleftrightarrow> 0 < d \<and> m dvd d"
proof -
  let ?q = "(d - 1) div m"
  have e: "m * ?q + (d - 1) mod m = d - 1" "(d - 1) mod m < m" using assms by simp_all
  show "m * ?q \<le> d" "d \<le> m * ?q + m" using e assms by linarith+
  show "d = m * ?q + m \<longleftrightarrow> 0 < d \<and> m dvd d"
  proof
    assume d: "d = m * ?q + m"
    then have "d = m * (?q + 1)" by simp
    then have "m dvd d" by (metis dvd_triv_left)
    then show "0 < d \<and> m dvd d" using d assms by linarith
  next
    assume "0 < d \<and> m dvd d"
    then obtain k where k: "d = m * k" "0 < k" by (auto elim!: dvdE)
    then have "d - 1 = m * (k - 1) + (m - 1)" using assms by (cases k) simp_all
    then have "?q = k - 1" using assms by (simp only: div_mult_self4) simp
    then show "d = m * ?q + m" using k by (cases k) simp_all
  qed
qed

lemma chunk_inside:
  fixes m d l :: nat
  assumes "0 < m" and "m dvd l" and "d < l"
  shows "m * ((d - 1) div m) + m \<le> l"
proof -
  obtain k where k: "l = m * k" using assms(2) by (rule dvdE)
  have "0 < l" using assms(3) by simp
  then have "d - 1 < k * m" using k assms(3) by (simp add: mult.commute)
  then have "(d - 1) div m < k" by (rule less_mult_imp_div_less)
  then have "m * ((d - 1) div m + 1) \<le> m * k" by (intro mult_le_mono) simp_all
  then show ?thesis using k by simp
qed

text \<open>C20: What is kept of a stack under a positive size limit \<open>m\<close>, for a stack pointer at or above the start of the
  stack: all of it when it is not longer than \<open>m\<close>. Of a longer one, \<open>m\<close> bytes from a multiple of \<open>m\<close> above its
  start, beginning not above the stack pointer and reaching at least up to it; they end exactly at the stack pointer, so
  that no live byte is among them, when its distance from the start is a positive multiple of \<open>m\<close>. When the stack
  pointer lies inside the stack, the kept bytes begin inside it, and end inside it if \<open>m\<close> divides its length;
  otherwise they may reach past its end (\<open>stack_chunk_past_end\<close>).\<close>

lemma stack_chunk_exact:
  assumes "0 < m" and "m < 2147483648" and "unat stack \<le> unat sp" and "unat sp + m < 4294967296"
  shows "\<exists>st n. stack_chunk sp (int m) (stack, len) = Some (st, n) \<and>
    (unat len \<le> m \<longrightarrow> st = stack \<and> n = len) \<and>
    (m < unat len \<longrightarrow> unat n = m \<and> unat stack \<le> unat st \<and> m dvd unat st - unat stack \<and>
      unat st \<le> unat sp \<and> unat sp \<le> unat st + unat n \<and>
      (unat sp = unat st + unat n \<longleftrightarrow> unat stack < unat sp \<and> m dvd unat sp - unat stack) \<and>
      (unat sp < unat stack + unat len \<longrightarrow> unat st < unat stack + unat len \<and>
        (m dvd unat len \<longrightarrow> unat st + unat n \<le> unat stack + unat len)))"
proof (cases "unat len > m")
  case False
  then have "\<not> uint len > int m" by (simp only: uint_nat of_nat_less_iff) simp
  then show ?thesis using assms False by (auto simp: stack_chunk_def)
next
  case True
  then have long: "uint len > int m" by (simp only: uint_nat of_nat_less_iff)
  have um: "unat (of_nat m :: addr) = m" using unat_of_int32 [of "int m"] assms(2) by simp
  obtain st where st: "skip_chunks (of_nat m) sp stack = Some st"
    "unat st = unat stack + m * ((unat sp - unat stack - 1) div m)"
    using skip_chunks_exact [of "of_nat m" stack sp] assms by (auto simp: um)
  let ?d = "unat sp - unat stack"
  have b: "unat st \<le> unat sp" "unat sp \<le> unat st + m" "unat sp = unat st + m \<longleftrightarrow> 0 < ?d \<and> m dvd ?d"
    using below_multiple [of m ?d] assms(1) st(2) assms(3) by linarith+
  have inside: "unat st + m \<le> unat stack + unat len" if "m dvd unat len" "unat sp < unat stack + unat len"
    using chunk_inside [OF assms(1) that(1), of ?d] that(2) True assms(3) st(2) by simp
  have chunk: "stack_chunk sp (int m) (stack, len) = Some (st, of_nat m)"
    using st(1) long assms(1) by (simp add: stack_chunk_def)
  show ?thesis
    using chunk um st(2) b inside True by (intro exI [of _ st] exI [of _ "of_nat m"]) (simp only: um, simp)
qed

lemma stack_chunk_exact_witness:
  "\<exists>st n. stack_chunk 0x1000 2048 (0, 8192) = Some (st, n) \<and> unat st = 2048 \<and> unat n = 2048"
proof -
  obtain st n where *: "stack_chunk 0x1000 (int 2048) (0, 8192) = Some (st, n)" "unat n = 2048"
      "unat (0x1000 :: addr) = unat st + unat n"
    using stack_chunk_exact [of 2048 0 "0x1000" "8192"] by auto
  then have "unat st = 2048" by simp
  then show ?thesis using * by (intro exI [of _ st] exI [of _ n]) simp
qed

text \<open>A stack of 3000 bytes whose length the limit does not divide: 1096 bytes behind its end are copied with it.\<close>

lemma stack_chunk_past_end: "stack_chunk 2500 2048 (0, 3000) = Some (2048, 2048)"
  by (simp add: stack_chunk_def skip_chunks.simps)

text \<open>The part of the mapping around the crash: it holds the instruction pointer and has at most 256 bytes.\<close>

lemma ip_memory_bounds:
  assumes "\<forall>m \<in> set ms. unat (start_addr m) + unat (m_size m) < 4294967296"
    and "128 \<le> unat ip" and "unat ip + 128 < 4294967296"
  shows "case ip_memory ms ip of
      None \<Rightarrow> \<forall>m \<in> set ms. \<not> (unat (start_addr m) \<le> unat ip \<and> unat ip < unat (start_addr m) + unat (m_size m))
    | Some (a, n) \<Rightarrow> unat a \<le> unat ip \<and> unat ip < unat a + unat n \<and> unat n \<le> 256 \<and>
        (\<exists>m \<in> set ms. unat (start_addr m) \<le> unat a \<and> unat a + unat n \<le> unat (start_addr m) + unat (m_size m))"
proof -
  let ?P = "\<lambda>m. ip \<ge> start_addr m \<and> ip < start_addr m + m_size m"
  have e: "unat (start_addr m + m_size m) = unat (start_addr m) + unat (m_size m)" if "m \<in> set ms" for m
    using assms(1) that by (subst unat_plus_if') simp
  then have P: "?P m \<longleftrightarrow> unat (start_addr m) \<le> unat ip \<and> unat ip < unat (start_addr m) + unat (m_size m)" if "m \<in> set ms" for m
    using that by (simp add: word_le_nat_alt word_less_nat_alt)
  have ip: "unat (ip - 128) = unat ip - 128" "unat (ip + 128) = unat ip + 128"
    using assms(2,3) by (simp_all add: unat_sub word_le_nat_alt unat_plus_if')
  show ?thesis
  proof (cases "find ?P ms")
    case None
    then have "ip_memory ms ip = None" by (simp add: ip_memory_def)
    moreover have "\<forall>m \<in> set ms. \<not> ?P m" using None unfolding find_None_iff by blast
    ultimately show ?thesis using P by auto
  next
    case (Some m)
    then have m: "m \<in> set ms" "?P m" by (auto simp: find_Some_iff)
    define a where "a = max (start_addr m) (ip - 128)"
    define b where "b = min (ip + 128) (start_addr m + m_size m)"
    have a: "unat a = max (unat (start_addr m)) (unat ip - 128)"
      unfolding a_def using ip by (auto simp: max_def word_le_nat_alt)
    have b: "unat b = min (unat ip + 128) (unat (start_addr m) + unat (m_size m))"
      unfolding b_def using ip e [OF m(1)] by (auto simp: min_def word_le_nat_alt)
    have Pm: "unat (start_addr m) \<le> unat ip" "unat ip < unat (start_addr m) + unat (m_size m)" using P m by blast+
    have le: "unat a \<le> unat ip" "unat ip < unat b" using a b Pm assms(2) by simp_all
    then have n: "unat (b - a) = unat b - unat a" by (simp add: unat_sub word_le_nat_alt)
    have "ip_memory ms ip = Some (a, b - a)" using Some by (simp add: ip_memory_def a_def b_def Let_def)
    moreover have "unat a + unat (b - a) = unat b" using n le by simp
    moreover have "unat b - unat a \<le> 256" "unat (start_addr m) \<le> unat a" "unat b \<le> unat (start_addr m) + unat (m_size m)"
      using a b Pm assms(2) by (auto simp: max_def min_def)
    ultimately show ?thesis using m(1) n le by auto
  qed
qed

end
