(* ===== verification/Dump_Streams.thy ===== *)
theory Dump_Streams
  imports Dump_Threads
begin

text \<open>
  The streams of a minidump besides the list of threads
  (\<open>breakpad/src/client/linux/minidump_writer/minidump_writer.cc\<close>): files of \<open>/proc\<close>, the memory the application
  registered, the list of memory regions and the exception.
\<close>

section \<open>Files\<close>

abbreviation (input) kBufSize :: nat where "kBufSize \<equiv> 1016"

text \<open>\<open>do { r = sys_read(...); } while (r == -1 && errno == EINTR)\<close>, with the number of the next call.\<close>

partial_function (option) read_retry :: "file_read \<Rightarrow> nat \<Rightarrow> nat \<Rightarrow> nat \<Rightarrow> (byte list option \<times> nat) option" where
  "read_retry rd i off n =
     (case rd i off n of
        Inl e \<Rightarrow> (if e = EINTR then read_retry rd (i + 1) off n else Some (None, i + 1))
      | Inr bs \<Rightarrow> Some (Some bs, i + 1))"

text \<open>
  The loop that reads a file into a chain of buffers: \<open>bufs\<close> are the full ones, \<open>cur\<close> what the last one holds.
  A new buffer is not checked for null.
\<close>

partial_function (option) fill_buffers ::
    "file_read \<Rightarrow> (nat \<Rightarrow> bool) \<Rightarrow> nat \<Rightarrow> nat \<Rightarrow> block list \<Rightarrow> block \<Rightarrow> block list res option" where
  "fill_buffers rd alloc i off bufs cur =
     (case read_retry rd i off (kBufSize - length cur) of
        None \<Rightarrow> None
      | Some (None, _) \<Rightarrow> Some (Inr (bufs @ [cur]))
      | Some (Some bs, i') \<Rightarrow>
          (if bs = [] then Some (Inr (bufs @ [cur]))
           else if length bs > kBufSize - length cur then Some (Inl OutOfBounds)
           else if length (cur @ bs) = kBufSize
           then (if alloc 1024 then fill_buffers rd alloc i' (off + length bs) (bufs @ [cur @ bs]) [] else Some (Inl NullDeref))
           else fill_buffers rd alloc i' (off + length bs) bufs (cur @ bs)))"

fun write_buffers :: "sys_call ext \<Rightarrow> mdrva \<Rightarrow> MDRVA \<Rightarrow> block list \<Rightarrow> unit dp" where
  "write_buffers x r pos [] = pret ()"
| "write_buffers x r pos (b # bs) =
     (if b = [] then pthen (passert (bs = [])) (write_buffers x r pos bs)
      else pbind (pfile (UntypedMDRVA_Copy x r pos b)) (\<lambda>_. write_buffers x r (pos + of_nat (length b)) bs))"

definition WriteFile :: "sys_call ext \<Rightarrow> dump_env \<Rightarrow> string \<Rightarrow> location option dp" where
  "WriteFile x d filename =
     pbind (pcall x (SysOpen filename)) (\<lambda>fd.
     if fd < 0 then pret None
     else if \<not> dv_alloc d 1024 then pfail NullDeref
     else pbind (poption (fill_buffers (dv_file d filename) (dv_alloc d) 0 0 [] [])) (\<lambda>r.
       pbind (plift r) (\<lambda>bufs.
       pbind (pcall x (SysClose fd)) (\<lambda>_.
       let total = of_nat (length (concat bufs)) :: 32 word in
       if total = 0 then pret None
       else
         pbind (pfile UntypedMDRVA) (\<lambda>r0.
         pbind (pfile (UntypedMDRVA_Allocate x r0 total)) (\<lambda>(ok, r).
         if \<not> ok then pret None
         else pthen (write_buffers x r (rva_position r) bufs) (pret (Some (rva_size r, rva_position r)))))))))"

text \<open>\<open>buf\<close> is a local array of \<open>NAME_MAX\<close> bytes.\<close>

definition WriteProcFile :: "sys_call ext \<Rightarrow> dump_env \<Rightarrow> block \<Rightarrow> int \<Rightarrow> block \<Rightarrow> location option dp" where
  "WriteProcFile x d buf pid filename =
     pbind (plift (BuildProcPath (Some buf) pid (Some filename))) (\<lambda>(ok, path).
     if \<not> ok then pret None
     else WriteFile x d (map (\<lambda>c. char_of (unat c)) (takeWhile (\<lambda>c. c \<noteq> 0) (the path))))"

section \<open>Memory\<close>

text \<open>\<open>app_memory_list_\<close>: start and length of each region. Here the memory comes before the region of the file.\<close>

fun WriteAppMemory :: "sys_call ext \<Rightarrow> dump_env \<Rightarrow> (addr \<times> addr) list \<Rightarrow> bool dp" where
  "WriteAppMemory x d [] = pret True"
| "WriteAppMemory x d ((p, len) # rest) =
     pbind (plift (copy_memory d (dv_crash_thread d) p len)) (\<lambda>data_copy.
     pbind (pfile UntypedMDRVA) (\<lambda>r0.
     pbind (pfile (UntypedMDRVA_Allocate x r0 len)) (\<lambda>(ok, r).
     if \<not> ok then pret False
     else
       pbind (pfile (UntypedMDRVA_Copy x r (rva_position r) data_copy)) (\<lambda>_.
       pthen (pmod (\<lambda>s. s\<lparr>memory_blocks := memory_blocks s @ [\<lparr>start_of_memory_range = ucast p, md_memory = (rva_size r, rva_position r)\<rparr>]\<rparr>))
         (WriteAppMemory x d rest)))))"

fun copy_descs :: "sys_call ext \<Rightarrow> mdrva \<Rightarrow> nat \<Rightarrow> MDMemoryDescriptor list \<Rightarrow> unit dp" where
  "copy_descs x r i [] = pret ()"
| "copy_descs x r i (m # ms) = pbind (pfile (CopyIndexAfterObject x r i (desc_bytes m))) (\<lambda>_. copy_descs x r (i + 1) ms)"

definition WriteMemoryListStream :: "sys_call ext \<Rightarrow> location option dp" where
  "WriteMemoryListStream x =
     pbind pget (\<lambda>s. let blocks = memory_blocks s in
     pbind (pfile UntypedMDRVA) (\<lambda>r0.
     pbind (pfile (UntypedMDRVA_Allocate x r0 (4 + of_nat (length blocks) * 16))) (\<lambda>(ok, r).
     if \<not> ok then pthen (flush_object x r (le32 0)) (pret None)
     else pthen (copy_descs x r 0 blocks)
       (pthen (flush_object x r (le32 (of_nat (length blocks)))) (pret (Some (rva_size r, rva_position r)))))))"

section \<open>The exception\<close>

text \<open>
  \<open>MDRawExceptionStream\<close>, 168 bytes: the thread, the record of the exception with fifteen parameters, and the
  context. More parameters than fit are copied behind the array.
\<close>

definition exception_bytes :: "int \<Rightarrow> 32 word \<Rightarrow> 32 word \<Rightarrow> 64 word \<Rightarrow> 64 word list \<Rightarrow> location \<Rightarrow> byte list" where
  "exception_bytes tid code flags address info context1 =
     le32 (of_int tid) @ le32 0 @ le32 code @ le32 flags @ le_bytes 8 0 @ le_bytes 8 (unat address) @
     le32 (of_nat (length info)) @ le32 0 @ concat (map (\<lambda>v. le_bytes 8 (unat v)) info) @
     replicate (8 * (15 - length info)) 0 @ le32 (fst context1) @ le32 (snd context1)"

definition WriteExceptionStream :: "sys_call ext \<Rightarrow> dump_env \<Rightarrow> location option dp" where
  "WriteExceptionStream x d =
     pbind (pfile UntypedMDRVA) (\<lambda>r0.
     pbind (pfile (UntypedMDRVA_Allocate x r0 168)) (\<lambda>(ok, r).
     if \<not> ok then pthen (flush_object x r (replicate 168 0)) (pret None)
     else if length (dv_exception_info d) > 15 then pfail OutOfBounds
     else pbind pget (\<lambda>s.
       pthen (flush_object x r (exception_bytes (dv_crash_thread d) (dv_signal d) (dv_signal_code d) (ucast (dump_crash_address s))
                (dv_exception_info d) (crashing_thread_context s)))
         (pret (Some (rva_size r, rva_position r))))))"

section \<open>Files arrive unchanged\<close>

text \<open>What the code relies on of a readable file: every read that is not interrupted answers with a piece of the
  contents at the offset, empty only at the end, and reads are not interrupted for ever.\<close>

definition reads_file :: "file_read \<Rightarrow> byte list \<Rightarrow> bool" where
  "reads_file rd F \<longleftrightarrow>
     (\<forall>i off n. 0 < n \<longrightarrow> off \<le> length F \<longrightarrow> rd i off n = Inl EINTR \<or>
        (\<exists>k. rd i off n = Inr (take k (drop off F)) \<and> k \<le> n \<and> (off < length F \<longrightarrow> 0 < k))) \<and>
     (\<forall>i off n. \<exists>k. rd (i + k) off n \<noteq> Inl EINTR)"

lemma read_retry_reads:
  assumes "reads_file rd F" and "0 < n" and "off \<le> length F"
  shows "\<exists>k i'. read_retry rd i off n = Some (Some (take k (drop off F)), i') \<and> k \<le> n \<and> (off < length F \<longrightarrow> 0 < k)"
proof -
  obtain j where "rd (i + j) off n \<noteq> Inl EINTR" using assms(1) unfolding reads_file_def by blast
  then show ?thesis
  proof (induction j arbitrary: i)
    case 0
    then obtain k where "rd i off n = Inr (take k (drop off F))" "k \<le> n" "off < length F \<longrightarrow> 0 < k"
      using assms unfolding reads_file_def by (metis Nat.add_0_right)
    then show ?case by (subst read_retry.simps) auto
  next
    case (Suc j)
    show ?case
    proof (cases "rd i off n = Inl EINTR")
      case True
      then show ?thesis using Suc.IH [of "i + 1"] Suc.prems by (subst read_retry.simps) simp
    next
      case False
      then obtain k where "rd i off n = Inr (take k (drop off F))" "k \<le> n" "off < length F \<longrightarrow> 0 < k"
        using assms unfolding reads_file_def by metis
      then show ?thesis by (subst read_retry.simps) auto
    qed
  qed
qed

lemma fill_buffers_reads:
  assumes "reads_file rd F" and "alloc 1024" and "length cur < 1016" and "off \<le> length F"
  shows "\<exists>bs. fill_buffers rd alloc i off bufs cur = Some (Inr (bufs @ bs)) \<and> concat bs = cur @ drop off F \<and>
    (\<forall>b \<in> set bs. length b \<le> 1016) \<and> bs \<noteq> [] \<and> [] \<notin> set (butlast bs)"
  using assms(3,4)
proof (induction "length F - off" arbitrary: i off bufs cur rule: less_induct)
  case less
  obtain k i' where rd0: "read_retry rd i off (1016 - length cur) = Some (Some (take k (drop off F)), i')"
    "k \<le> 1016 - length cur" "off < length F \<longrightarrow> 0 < k"
    using read_retry_reads [OF assms(1)] less.prems by (meson zero_less_diff)
  define P where "P = take k (drop off F)"
  have rd: "read_retry rd i off (1016 - length cur) = Some (Some P, i')" using rd0(1) by (simp add: P_def)
  show ?case
  proof (cases "off < length F")
    case False
    then have "P = []" by (simp add: P_def)
    then show ?thesis using rd less.prems False by (subst fill_buffers.simps) (auto intro!: exI [of _ "[cur]"])
  next
    case True
    have len: "0 < length P" "length P \<le> 1016 - length cur" "off + length P \<le> length F"
      using rd0 True by (auto simp: P_def)
    have "P = take (length P) (drop off F)" by (simp add: P_def min_def)
    then have piece: "P @ drop (off + length P) F = drop off F" by (metis append_take_drop_id drop_drop add.commute)
    have less: "length F - (off + length P) < length F - off" using len True by linarith
    note IH = less.hyps [OF less]
    show ?thesis
    proof (cases "length (cur @ P) = 1016")
      case full: True
      obtain bs where bs: "fill_buffers rd alloc i' (off + length P) (bufs @ [cur @ P]) [] = Some (Inr ((bufs @ [cur @ P]) @ bs))"
        "concat bs = drop (off + length P) F" "\<forall>b \<in> set bs. length b \<le> 1016" "bs \<noteq> []" "[] \<notin> set (butlast bs)"
        using IH [of "[]" i' "bufs @ [cur @ P]"] len(3) by auto
      have "fill_buffers rd alloc i off bufs cur = fill_buffers rd alloc i' (off + length P) (bufs @ [cur @ P]) []"
        using rd len full assms(2) by (subst fill_buffers.simps) auto
      then show ?thesis using bs full piece len(1) by (intro exI [of _ "(cur @ P) # bs"]) auto
    next
      case part: False
      then have "length (cur @ P) < 1016" using len(2) less.prems by simp
      then obtain bs where bs: "fill_buffers rd alloc i' (off + length P) bufs (cur @ P) = Some (Inr (bufs @ bs))"
        "concat bs = (cur @ P) @ drop (off + length P) F" "\<forall>b \<in> set bs. length b \<le> 1016" "bs \<noteq> []" "[] \<notin> set (butlast bs)"
        using IH [of "cur @ P" i' bufs] len(3) by auto
      have "fill_buffers rd alloc i off bufs cur = fill_buffers rd alloc i' (off + length P) bufs (cur @ P)"
        using rd len part by (subst fill_buffers.simps) auto
      then show ?thesis using bs piece by (intro exI [of _ bs]) simp
    qed
  qed
qed

text \<open>The writes of consecutive pieces.\<close>

fun chunk_writes :: "int \<Rightarrow> int \<Rightarrow> byte list list \<Rightarrow> sys_call list" where
  "chunk_writes f pos [] = []"
| "chunk_writes f pos (c # cs) = write_at f pos c @ chunk_writes f (pos + int (length c)) cs"

lemma pfile_simps [simp, proc_simps]:
  "m (minidump_writer s, h) = Inr (a, w, h') \<Longrightarrow> pfile m (s, h) = Some (Inr (a, s\<lparr>minidump_writer := w\<rparr>, h'))"
  by (simp add: pfile_def)

lemma poption_simp [simp, proc_simps]: "poption (Some a) st = Some (Inr (a, st))"
  by (simp add: poption_def)

lemma region_copy:
  assumes "good_os x page" and "wr_file w \<noteq> - 1" and "src \<noteq> []" and "uint (wr_size w) < 2147483648"
    and "uint pos + int (length src) \<le> uint (rva_position r) + uint (rva_size r)"
    and "uint (rva_position r) + uint (rva_size r) \<le> uint (wr_size w)"
  shows "UntypedMDRVA_Copy x r pos src (w, h) = Inr (True, (w, h @ write_at (wr_file w) (uint pos) src))"
    "uint (pos + of_nat (length src)) = uint pos + int (length src)"
proof -
  have nn: "0 \<le> uint pos" "0 \<le> uint (rva_position r)" "0 \<le> uint (rva_size r)" by simp_all
  have "pos + of_nat (length src) = of_int (uint pos + int (length src))" by simp
  then show e: "uint (pos + of_nat (length src)) = uint pos + int (length src)"
    using assms(4-6) nn by (simp only:) (intro uint_of_int32; linarith)
  have "rva_position r + rva_size r = of_int (uint (rva_position r) + uint (rva_size r))" by simp
  then have "uint (rva_position r + rva_size r) = uint (rva_position r) + uint (rva_size r)"
    using assms(4-6) nn by (simp only:) (intro uint_of_int32; linarith)
  then have "pos + of_nat (length src) \<le> rva_position r + rva_size r" using e assms(5) by (simp add: word_le_def)
  moreover have "uint pos + int (length src) \<le> uint (wr_size w)" using assms(5,6) by linarith
  ultimately show "UntypedMDRVA_Copy x r pos src (w, h) = Inr (True, (w, h @ write_at (wr_file w) (uint pos) src))"
    using Copy_ok [OF assms(1-3), of pos h] assms(3,4) by (simp add: UntypedMDRVA_Copy_def)
qed

lemma write_buffers_ok:
  assumes "good_os x page" and "wr_file (minidump_writer s) \<noteq> - 1" and "uint (wr_size (minidump_writer s)) < 2147483648"
    and "uint (rva_position r) + uint (rva_size r) \<le> uint (wr_size (minidump_writer s))"
    and "[] \<notin> set (butlast bs)" and "uint pos + int (length (concat bs)) \<le> uint (rva_position r) + uint (rva_size r)"
  shows "write_buffers x r pos bs (s, h) =
    Some (Inr ((), s, h @ chunk_writes (wr_file (minidump_writer s)) (uint pos) (filter (\<lambda>b. b \<noteq> []) bs)))"
  using assms(5,6)
proof (induction bs arbitrary: pos h)
  case (Cons b bs)
  show ?case
  proof (cases "b = []")
    case True
    then have "bs = []" using Cons.prems(1) by (auto split: if_splits)
    then show ?thesis using True by simp
  next
    case False
    have r: "uint pos + int (length b) \<le> uint (rva_position r) + uint (rva_size r)" using Cons.prems(2) by simp
    note c = region_copy [OF assms(1,2) False assms(3) r assms(4)]
    have "[] \<notin> set (butlast bs)" using Cons.prems(1) by (auto split: if_splits)
    moreover have "uint (pos + of_nat (length b)) + int (length (concat bs)) \<le> uint (rva_position r) + uint (rva_size r)"
      using Cons.prems(2) c(2) by simp
    ultimately show ?thesis using False Cons.IH [of "pos + of_nat (length b)"] by (simp add: c)
  qed
qed simp

text \<open>C12: A readable file arrives in the dump unchanged, however the kernel cuts it into pieces and interrupts the reads: on
  a system that does not fail \<open>WriteFile\<close> returns a region of exactly the length of the file, and writes pieces of at most
  1016 bytes to consecutive positions from its start, which concatenated are the file; the file is closed.\<close>

theorem write_file_round_trip:
  assumes "good_os x page" and "\<forall>h. x h (SysOpen name) = fd" and "0 \<le> fd" and "dv_alloc d 1024"
    and "reads_file (dv_file d name) F" and "F \<noteq> []"
    and "\<not> g_need_ftruncate_workaround (minidump_writer s)" and "wr_file (minidump_writer s) \<noteq> - 1"
    and "int (length F) < 2147483648" and "room_for (minidump_writer s) (of_nat (length F)) page"
  shows "\<exists>w' h1 cs. WriteFile x d name (s, h) =
      Some (Inr (Some (of_nat (length F), wr_position (minidump_writer s)), s\<lparr>minidump_writer := w'\<rparr>,
        h @ [SysOpen name, SysClose fd] @ h1 @ chunk_writes (wr_file (minidump_writer s)) (uint (wr_position (minidump_writer s))) cs)) \<and>
    concat cs = F \<and> (\<forall>c \<in> set cs. c \<noteq> [] \<and> length c \<le> 1016) \<and> (\<forall>f bs. SysWrite f bs \<notin> set h1)"
proof -
  let ?w = "minidump_writer s"
  define sz :: "32 word" where "sz = of_nat (length F)"
  obtain bs where bs: "fill_buffers (dv_file d name) (dv_alloc d) 0 0 [] [] = Some (Inr bs)" "concat bs = F"
    "\<forall>b \<in> set bs. length b \<le> 1016" "[] \<notin> set (butlast bs)"
    using fill_buffers_reads [where alloc = "dv_alloc d", OF assms(5,4), of "[]" 0 0 "[]"] by auto
  have "uint sz = int (length F)" unfolding sz_def using assms(9) uint_of_int32 [of "int (length F)"] by simp
  moreover from this have nz: "sz \<noteq> 0" using assms(6) by auto
  moreover obtain w' h1 where al: "Allocate x sz (?w, h @ [SysOpen name, SysClose fd]) = Inr (wr_position ?w, (w', (h @ [SysOpen name, SysClose fd]) @ h1))"
    "wr_file w' = wr_file ?w" "\<forall>f bs. SysWrite f bs \<notin> set h1" "uint (wr_position ?w) + uint sz \<le> uint (wr_size w')"
    "uint (wr_size w') < 2147483648" "wr_position ?w \<noteq> kInvalidMDRVA"
    using Allocate_good [OF assms(1,7,8) nz] assms(10) sz_def by blast
  ultimately have wb: "write_buffers x \<lparr>rva_position = wr_position ?w, rva_size = sz\<rparr> (wr_position ?w) bs (s\<lparr>minidump_writer := w'\<rparr>, h') =
      Some (Inr ((), s\<lparr>minidump_writer := w'\<rparr>, h' @ chunk_writes (wr_file ?w) (uint (wr_position ?w)) (filter (\<lambda>b. b \<noteq> []) bs)))" for h'
    using write_buffers_ok [OF assms(1), of "s\<lparr>minidump_writer := w'\<rparr>" "\<lparr>rva_position = wr_position ?w, rva_size = sz\<rparr>" bs "wr_position ?w" h']
      assms(8) bs(2,4) by simp
  have "WriteFile x d name (s, h) = Some (Inr (Some (sz, wr_position ?w), s\<lparr>minidump_writer := w'\<rparr>,
      h @ [SysOpen name, SysClose fd] @ h1 @ chunk_writes (wr_file ?w) (uint (wr_position ?w)) (filter (\<lambda>b. b \<noteq> []) bs)))"
    using assms(2-4) bs(1) nz al(1,6)
    by (simp add: WriteFile_def pfile_def UntypedMDRVA_def UntypedMDRVA_Allocate_def Let_def bs(2) sz_def [symmetric] wb)
  moreover have "concat (filter (\<lambda>b. b \<noteq> []) bs) = F" using bs(2) by (induction bs arbitrary: F) auto
  moreover have "\<forall>c \<in> set (filter (\<lambda>b. b \<noteq> []) bs). c \<noteq> [] \<and> length c \<le> 1016" using bs(3) by simp
  ultimately show ?thesis using al(3) unfolding sz_def by blast
qed

definition demo_env :: dump_env where
  "demo_env = \<lparr>dv_page = 4096, dv_peek = (\<lambda>_ _. None), dv_alloc = (\<lambda>_. True), dv_skip_unreferenced = False,
     dv_principal = None, dv_sanitize = False, dv_size_limit = - 1, dv_threads = [7], dv_thread_info = (\<lambda>_. None),
     dv_crash_thread = 7, dv_ucontext = None, dv_signal = 11, dv_signal_code = 1, dv_exception_info = [],
     dv_file = (\<lambda>_ i off n. if i = 0 then Inl 4 else Inr (take (min n 1) (drop off [104, 105]))), dv_app_memory = []\<rparr>"

definition demo_dump :: dump_state where
  "demo_dump = \<lparr>minidump_writer = demo_writer, memory_blocks = [], crashing_thread_context = (0, 0), dump_crash_address = 0,
     dump_mappings = [], dump_mm_calls = [], dump_ptrace = LinuxPtraceDumper_ctor 7, dump_pt_calls = []\<rparr>"

lemma write_file_round_trip_witness:
  "\<exists>w' h1 cs. WriteFile demo_os demo_env ''f'' (demo_dump, []) = Some (Inr (Some (2, 32), demo_dump\<lparr>minidump_writer := w'\<rparr>,
      [SysOpen ''f'', SysClose 0] @ h1 @ chunk_writes 5 32 cs)) \<and> concat cs = [104, 105]"
proof -
  have "reads_file (dv_file demo_env ''f'') [104, 105]"
    unfolding reads_file_def
  proof (intro conjI allI impI)
    fix i off n :: nat assume "0 < n" "off \<le> length [104, 105 :: byte]"
    then show "dv_file demo_env ''f'' i off n = Inl EINTR \<or> (\<exists>k. dv_file demo_env ''f'' i off n = Inr (take k (drop off [104, 105])) \<and>
        k \<le> n \<and> (off < length [104, 105 :: byte] \<longrightarrow> 0 < k))"
      by (auto simp: demo_env_def intro!: exI [of _ "min n 1"])
  next
    fix i off n :: nat
    show "\<exists>k. dv_file demo_env ''f'' (i + k) off n \<noteq> Inl EINTR" by (intro exI [of _ 1]) (simp add: demo_env_def)
  qed
  moreover have "good_os demo_os 4096" by (simp add: good_os_def demo_os_def)
  ultimately have "\<exists>w' h1 cs. WriteFile demo_os demo_env ''f'' (demo_dump, []) =
      Some (Inr (Some (of_nat (length [104, 105 :: byte]), wr_position (minidump_writer demo_dump)), demo_dump\<lparr>minidump_writer := w'\<rparr>,
        [] @ [SysOpen ''f'', SysClose 0] @ h1 @ chunk_writes (wr_file (minidump_writer demo_dump)) (uint (wr_position (minidump_writer demo_dump))) cs)) \<and>
      concat cs = [104, 105] \<and> (\<forall>c \<in> set cs. c \<noteq> [] \<and> length c \<le> 1016) \<and> (\<forall>f bs. SysWrite f bs \<notin> set h1)"
    by (intro write_file_round_trip [where page = 4096]) (simp_all add: demo_os_def demo_env_def demo_dump_def demo_writer_def room_for_def)
  then show ?thesis by (auto simp: demo_dump_def demo_writer_def)
qed

end
