(* ===== verification/Cpu_Set.thy ===== *)
theory Cpu_Set
  imports Line_Reader
begin

text \<open>
  \<open>CpuSet\<close> of \<open>breakpad/src/client/linux/minidump_writer/cpu_set.h\<close>: sets of processors read from files such as
  \<open>/sys/devices/system/cpu/present\<close>, kept as a bit mask of 32 words. A pointer into the text is
  represented by the bytes from there to the end; behind the end the buffer holds a NUL byte.
\<close>

unbundle bit_operations_syntax

section \<open>Operations\<close>

type_synonym cpu_mask = "32 word list"

abbreviation (input) kMaxCpus :: nat where "kMaxCpus \<equiv> 1024"

definition CpuSet :: cpu_mask where
  "CpuSet = replicate 32 0"

definition SetBit :: "32 word \<Rightarrow> cpu_mask \<Rightarrow> cpu_mask" where
  "SetBit index m =
     (let nn = unat index in
      if nn < kMaxCpus then m[nn div 32 := m ! (nn div 32) OR push_bit (nn mod 32) 1] else m)"

text \<open>\<open>while (start <= end) SetBit(start++)\<close>; \<open>None\<close>: the loop does not end.\<close>

partial_function (option) set_range :: "32 word \<Rightarrow> 32 word \<Rightarrow> cpu_mask \<Rightarrow> cpu_mask option" where
  "set_range start en m = (if start \<le> en then set_range (start + 1) en (SetBit start m) else Some m)"

text \<open>The two numbers of an item that starts at \<open>s\<close>.\<close>

definition item_range :: "block \<Rightarrow> (32 word \<times> 32 word) res" where
  "item_range s =
     res_bind (my_read_decimal_ptr False (s @ [0])) (\<lambda>(start, nxt).
       if (s @ [0]) ! nxt = 45
       then res_bind (my_read_decimal_ptr False (drop (nxt + 1) (s @ [0]))) (\<lambda>(en, _). Inr (start, en))
       else Inr (start, start))"

lemma length_dropWhile_lt: "p \<noteq> [] \<Longrightarrow> length (drop (Suc i) (dropWhile P p)) < length p"
proof -
  assume "p \<noteq> []"
  then have "0 < length p" by simp
  with length_dropWhile_le [of P p] show ?thesis unfolding length_drop by linarith
qed

lemma rest_shorter:
  "(item, p') = (case k of Some i \<Rightarrow> (take i s, drop (i + 1) s) | None \<Rightarrow> (s, [])) \<Longrightarrow> s = dropWhile P p \<Longrightarrow> p \<noteq> [] \<Longrightarrow>
     length p' < length p"
  by (cases k) (auto simp del: length_drop intro: length_dropWhile_lt)

function parse_cpus :: "block \<Rightarrow> cpu_mask \<Rightarrow> cpu_mask res option" where
  "parse_cpus p m =
     (if p = [] then Some (Inr m)
      else
        (let s = dropWhile isspace p in
         case my_memchr s 44 (length s) of
           Inl e \<Rightarrow> Some (Inl e)
         | Inr k \<Rightarrow>
             (let (item, p') = (case k of Some i \<Rightarrow> (take i s, drop (i + 1) s) | None \<Rightarrow> (s, [])) in
              if rev (dropWhile isspace (rev item)) = [] then parse_cpus p' m
              else (case item_range s of
                      Inl e \<Rightarrow> Some (Inl e)
                    | Inr (start, en) \<Rightarrow>
                        (case set_range start en m of None \<Rightarrow> None | Some m' \<Rightarrow> parse_cpus p' m')))))"
  by pat_completeness auto

termination
proof (relation "measure (\<lambda>(p, m). length p)")
qed (simp_all only: wf_measure in_measure case_prod_conv rest_shorter not_False_eq_True)

declare parse_cpus.simps [simp del]

text \<open>\<open>ParseSysFile\<close>: \<open>ans\<close> is what the one call of \<open>read\<close> stored; at most 511 bytes are asked for.\<close>

definition ParseSysFile :: "byte list option \<Rightarrow> cpu_mask \<Rightarrow> (bool \<times> cpu_mask) res option" where
  "ParseSysFile ans m =
     (case ans of
        None \<Rightarrow> Some (Inr (False, m))
      | Some bs \<Rightarrow>
          (if length bs > 511 then Some (Inl OutOfBounds)
           else (case parse_cpus bs m of
                   None \<Rightarrow> None
                 | Some (Inl e) \<Rightarrow> Some (Inl e)
                 | Some (Inr m') \<Rightarrow> Some (Inr (True, m')))))"

definition IntersectWith :: "cpu_mask \<Rightarrow> cpu_mask \<Rightarrow> cpu_mask" where
  "IntersectWith other m = map2 (AND) m other"

definition popcount :: "32 word \<Rightarrow> nat" where
  "popcount w = length (filter (bit w) [0..<32])"

definition GetCount :: "cpu_mask \<Rightarrow> nat" where
  "GetCount m = sum_list (map popcount m)"

section \<open>The set of a mask\<close>

definition cpus :: "cpu_mask \<Rightarrow> nat set" where
  "cpus m = {i. i < kMaxCpus \<and> bit (m ! (i div 32)) (i mod 32)}"

lemma cpus_CpuSet [simp]: "cpus CpuSet = {}"
  by (auto simp: cpus_def CpuSet_def)

lemma SetBit_length [simp]: "length (SetBit i m) = length m"
  by (simp add: SetBit_def Let_def)

lemma SetBit_cpus:
  assumes "length m = 32"
  shows "cpus (SetBit i m) = cpus m \<union> ({unat i} \<inter> {..<kMaxCpus})"
proof (cases "unat i < kMaxCpus")
  case True
  have b: "bit (push_bit (unat i mod 32) (1 :: 32 word)) (k mod 32) \<longleftrightarrow> k mod 32 = unat i mod 32" for k
    by (auto simp: bit_exp_iff)
  have "k \<in> cpus (SetBit i m) \<longleftrightarrow> k \<in> cpus m \<or> k = unat i" for k
  proof (cases "k < kMaxCpus")
    case k: True
    then have l: "k div 32 < 32" "unat i div 32 < 32" using True by auto
    show ?thesis
    proof (cases "k div 32 = unat i div 32")
      case True
      then have "k mod 32 = unat i mod 32 \<longleftrightarrow> k = unat i" using div_mult_mod_eq [of k 32] div_mult_mod_eq [of "unat i" 32] by metis
      then show ?thesis using True \<open>unat i < kMaxCpus\<close> k l assms b [of k]
        by (simp add: cpus_def SetBit_def Let_def bit_or_iff)
    next
      case False
      then show ?thesis using \<open>unat i < kMaxCpus\<close> k l assms by (auto simp: cpus_def SetBit_def Let_def)
    qed
  qed (use True in \<open>auto simp: cpus_def\<close>)
  then show ?thesis using True by auto
next
  case False
  then show ?thesis by (simp add: SetBit_def Let_def)
qed

lemma set_range_sets:
  assumes "unat en < 4294967295" "length m = 32"
  shows "\<exists>m'. set_range start en m = Some m' \<and> length m' = 32 \<and> cpus m' = cpus m \<union> ({unat start..unat en} \<inter> {..<kMaxCpus})"
  using assms(2)
proof (induction "Suc (unat en) - unat start" arbitrary: start m)
  case 0
  then have "\<not> start \<le> en" by (simp add: word_le_nat_alt)
  then show ?case using 0 by (subst set_range.simps) (auto simp: word_le_nat_alt)
next
  case (Suc k)
  then have le: "start \<le> en" by (simp add: word_le_nat_alt)
  then have n: "unat (start + 1) = unat start + 1" using assms(1) by (simp add: word_le_nat_alt unat_word_ariths)
  have "k = Suc (unat en) - unat (start + 1)" using Suc(2) n by linarith
  from Suc(1) [OF this, of "SetBit start m"] obtain m' where
    "set_range (start + 1) en (SetBit start m) = Some m'" "length m' = 32"
    "cpus m' = cpus (SetBit start m) \<union> ({unat (start + 1)..unat en} \<inter> {..<kMaxCpus})"
    using Suc(3) by auto
  moreover have "{unat start..unat en} = insert (unat start) {unat (start + 1)..unat en}"
    using le n by (auto simp: word_le_nat_alt)
  ultimately show ?case using le SetBit_cpus [OF Suc(3), of start] by (subst set_range.simps) auto
qed

text \<open>With the largest number as its end the loop never ends.\<close>

lemma set_range_diverges: "set_range start (- 1) m = None"
proof (cases "set_range start (- 1) m")
  case (Some r)
  have "en \<noteq> - 1" if "set_range start en m = Some r" for en
  proof (rule set_range.raw_induct [OF _ that])
    fix f :: "32 word \<Rightarrow> 32 word \<Rightarrow> cpu_mask \<Rightarrow> cpu_mask option" and start en m r
    assume IH: "\<And>start en m r. f start en m = Some r \<Longrightarrow> en \<noteq> - 1"
      and r: "(if start \<le> en then f (start + 1) en (SetBit start m) else Some m) = Some r"
    show "en \<noteq> - 1"
    proof (cases "start \<le> en")
      case True
      with r IH show ?thesis by auto
    next
      case False
      then show ?thesis by auto
    qed
  qed
  with Some show ?thesis by blast
qed

section \<open>Reading a list of ranges\<close>

text \<open>The format of the kernel: ranges separated by commas, and a newline.\<close>

definition range_text :: "nat \<times> nat \<Rightarrow> byte list" where
  "range_text r = dec_bytes (fst r) @ (if fst r = snd r then [] else 45 # dec_bytes (snd r))"

fun ranges_text :: "(nat \<times> nat) list \<Rightarrow> byte list" where
  "ranges_text [] = [10]"
| "ranges_text [r] = range_text r @ [10]"
| "ranges_text (r # rs) = range_text r @ 44 # ranges_text rs"

lemma range_text_set: "c \<in> set (range_text r) \<Longrightarrow> c \<in> {45, 48, 49, 50, 51, 52, 53, 54, 55, 56, 57}"
  using dec_bytes_set by (fastforce simp: range_text_def split: if_splits)

lemma range_text_plain: "c \<in> set (range_text r) \<Longrightarrow> \<not> isspace c \<and> c \<noteq> 44"
  by (drule range_text_set) (auto simp: my_isspace_def spaces_def)

lemma range_text_nonempty [simp]: "range_text r \<noteq> []"
  by (simp add: range_text_def dec_bytes_def)

lemma item_range_text:
  assumes "c \<in> {0, 10, 44}" "s @ [0] = range_text (a, b) @ c # rest"
  shows "item_range s = Inr (of_nat a, of_nat b)"
proof -
  have nd: "\<not> is_digit False c" "\<not> is_digit False 45" "c \<noteq> 45" using assms(1) by (auto simp: is_digit_def c_char_def)
  show ?thesis
  proof (cases "a = b")
    case True
    then have e: "s @ [0] = dec_bytes b @ c # rest" using assms(2) by (simp add: range_text_def)
    show ?thesis using True nd(3) by (simp add: item_range_def e read_dec_bytes [OF nd(1)] nth_append)
  next
    case False
    then have e: "s @ [0] = dec_bytes a @ 45 # dec_bytes b @ c # rest" using assms(2) by (simp add: range_text_def)
    show ?thesis by (simp add: item_range_def e read_dec_bytes [OF nd(1)] read_dec_bytes [OF nd(2)] nth_append)
  qed
qed

lemma memchr_index:
  assumes "44 \<notin> set xs"
  shows "my_memchr (xs @ 44 # ys) 44 (length (xs @ 44 # ys)) = Inr (Some (length xs))"
    and "my_memchr xs 44 (length xs) = Inr None"
proof -
  have u: "(uint c = 44) = (c = 44)" for c :: byte using word_uint_eq_iff [of c 44] by simp
  have "my_memchr_from p (xs @ 44 # ys) 44 (length (xs @ 44 # ys)) = Inr (Some (p + length xs))" for p
    using assms by (induction xs arbitrary: p) (auto simp: u)
  then show "my_memchr (xs @ 44 # ys) 44 (length (xs @ 44 # ys)) = Inr (Some (length xs))" by (simp add: my_memchr_def)
  have "my_memchr_from p xs 44 (length xs) = Inr None" for p
    using assms by (induction xs arbitrary: p) (auto simp: u)
  then show "my_memchr xs 44 (length xs) = Inr None" by (simp add: my_memchr_def)
qed

lemma dropWhile_plain: "xs \<noteq> [] \<Longrightarrow> (\<And>c. c \<in> set xs \<Longrightarrow> \<not> P c) \<Longrightarrow> dropWhile P (xs @ ys) = xs @ ys"
  by (cases xs) auto

lemma rev_plain: "xs \<noteq> [] \<Longrightarrow> (\<And>c. c \<in> set xs \<Longrightarrow> \<not> P c) \<Longrightarrow> dropWhile P (rev xs) \<noteq> []"
  by (cases xs rule: rev_cases) auto

text \<open>One item, in the middle of the list and at its end.\<close>

lemma parse_item:
  assumes "unat (of_nat b :: 32 word) < 4294967295" "length m = 32"
  shows "\<exists>m'. length m' = 32 \<and> cpus m' = cpus m \<union> ({unat (of_nat a :: 32 word)..unat (of_nat b :: 32 word)} \<inter> {..<kMaxCpus}) \<and>
    parse_cpus (range_text (a, b) @ 44 # rest) m = parse_cpus rest m' \<and>
    parse_cpus (range_text (a, b) @ [10]) m = Some (Inr m')"
proof -
  let ?t = "range_text (a, b)"
  from set_range_sets [OF assms] obtain m' where m': "set_range (of_nat a) (of_nat b) m = Some m'" "length m' = 32"
    "cpus m' = cpus m \<union> ({unat (of_nat a :: 32 word)..unat (of_nat b :: 32 word)} \<inter> {..<kMaxCpus})" by blast
  have plain: "\<And>c. c \<in> set ?t \<Longrightarrow> \<not> isspace c" "44 \<notin> set ?t" using range_text_plain by auto
  have dw: "dropWhile isspace (?t @ ys) = ?t @ ys" for ys using plain(1) by (intro dropWhile_plain) auto
  have tr: "dropWhile isspace (rev ?t) \<noteq> []" using plain(1) by (intro rev_plain) auto
  have "parse_cpus (?t @ 44 # rest) m = parse_cpus rest m'"
    using m'(1) tr memchr_index(1) [OF plain(2), of rest] item_range_text [of 44 "?t @ 44 # rest" a b "rest @ [0]"]
    by (subst parse_cpus.simps) (auto simp: dw Let_def)
  moreover have "parse_cpus (?t @ [10]) m = Some (Inr m')"
  proof -
    have nl: "44 \<notin> set (?t @ [10])" "isspace 10" using plain(2) by (auto simp: my_isspace_def spaces_def)
    have "item_range (?t @ [10]) = Inr (of_nat a, of_nat b)" using item_range_text [of 10 "?t @ [10]" a b "[0]"] by simp
    moreover have "dropWhile isspace (rev (?t @ [10])) \<noteq> []" using nl(2) tr by simp
    ultimately show ?thesis using m'(1) memchr_index(2) [OF nl(1)]
      by (subst parse_cpus.simps) (auto simp: dw Let_def parse_cpus.simps [of "[]"])
  qed
  ultimately show ?thesis using m' by blast
qed

lemma parse_ranges:
  assumes "\<forall>(a, b) \<in> set rs. a < 4294967296 \<and> b < 4294967295" "length m = 32"
  shows "\<exists>m'. length m' = 32 \<and> parse_cpus (ranges_text rs) m = Some (Inr m') \<and>
    cpus m' = cpus m \<union> ((\<Union>(a, b) \<in> set rs. {a..b}) \<inter> {..<kMaxCpus})"
  using assms
proof (induction rs arbitrary: m rule: ranges_text.induct)
  case 1
  have sp: "my_isspace 10 = 1" by (simp add: my_isspace_def spaces_def)
  have "parse_cpus [10] m = Some (Inr m)"
    by (subst parse_cpus.simps) (simp add: sp my_memchr_def parse_cpus.simps [of "[]"])
  then show ?case using 1 by simp
next
  case (2 r)
  obtain a b where r: "r = (a, b)" by (cases r)
  have u: "unat (of_nat a :: 32 word) = a" "unat (of_nat b :: 32 word) = b" using 2 r by (simp_all add: unat_of_nat)
  show ?case using parse_item [of b m a "[]"] 2 r u by auto
next
  case (3 r r' rs)
  obtain a b where r: "r = (a, b)" by (cases r)
  have u: "unat (of_nat a :: 32 word) = a" "unat (of_nat b :: 32 word) = b" using 3 r by (simp_all add: unat_of_nat)
  from parse_item [of b m a "ranges_text (r' # rs)"] 3 r u obtain m1 where m1: "length m1 = 32"
    "cpus m1 = cpus m \<union> ({a..b} \<inter> {..<kMaxCpus})" "parse_cpus (ranges_text (r # r' # rs)) m = parse_cpus (ranges_text (r' # rs)) m1"
    by auto
  from 3(1) [OF _ m1(1)] 3(2) obtain m' where
    "length m' = 32" "parse_cpus (ranges_text (r' # rs)) m1 = Some (Inr m')"
    "cpus m' = cpus m1 \<union> ((\<Union>(a, b) \<in> set (r' # rs). {a..b}) \<inter> {..<kMaxCpus})" by auto
  then show ?case using m1 r by auto
qed

section \<open>Counting and intersecting\<close>

lemma popcount_card: "popcount w = card {j. j < 32 \<and> bit w j}"
proof -
  have "popcount w = card (set (filter (bit w) [0..<32]))"
    unfolding popcount_def by (rule distinct_card [symmetric]) simp
  also have "set (filter (bit w) [0..<32]) = {j. j < 32 \<and> bit w j}" by auto
  finally show ?thesis .
qed

lemma GetCount_card:
  assumes "length m = 32"
  shows "GetCount m = card (cpus m)"
proof -
  let ?S = "SIGMA k:{..<32}. {j. j < 32 \<and> bit (m ! k) j}"
  have "bij_betw (\<lambda>i. (i div 32, i mod 32)) (cpus m) ?S"
    by (rule bij_betw_byWitness [where f' = "\<lambda>(k, j). 32 * k + j"]) (auto simp: cpus_def)
  then have "card (cpus m) = card ?S" by (rule bij_betw_same_card)
  also have "\<dots> = (\<Sum>k<32. popcount (m ! k))" by (subst card_SigmaI) (auto simp: popcount_card)
  also have "\<dots> = GetCount m" using assms by (simp add: GetCount_def sum_list_sum_nth atLeast0LessThan)
  finally show ?thesis by simp
qed

lemma IntersectWith_cpus:
  assumes "length m = 32" "length k = 32"
  shows "cpus (IntersectWith k m) = cpus m \<inter> cpus k" "length (IntersectWith k m) = 32"
  using assms by (auto simp: cpus_def IntersectWith_def bit_and_iff)

section \<open>Properties\<close>

text \<open>\<open>CpuSet\<close> reads what the kernel prints: for every list of ranges printed in the format of the kernel in at most
  511 bytes, whose numbers fit a machine word and do not end in the largest one, \<open>ParseSysFile\<close>
  returns and the set holds exactly the processors of the ranges below 1024; intersecting two sets read
  this way and counting gives the number of common processors.\<close>

lemma cpu_set_reads_ranges:
  assumes "\<forall>(a, b) \<in> set rs. a < 4294967296 \<and> b < 4294967295" "length (ranges_text rs) \<le> 511"
    and "\<forall>(a, b) \<in> set rs'. a < 4294967296 \<and> b < 4294967295" "length (ranges_text rs') \<le> 511"
  shows "\<exists>m m'. ParseSysFile (Some (ranges_text rs)) CpuSet = Some (Inr (True, m)) \<and>
    ParseSysFile (Some (ranges_text rs')) CpuSet = Some (Inr (True, m')) \<and>
    cpus m = (\<Union>(a, b) \<in> set rs. {a..b}) \<inter> {..<1024} \<and>
    GetCount (IntersectWith m' m) = card ((\<Union>(a, b) \<in> set rs. {a..b}) \<inter> (\<Union>(a, b) \<in> set rs'. {a..b}) \<inter> {..<1024})"
proof -
  have l: "length CpuSet = 32" by (simp add: CpuSet_def)
  from parse_ranges [OF assms(1) l] obtain m where m: "length m = 32" "parse_cpus (ranges_text rs) CpuSet = Some (Inr m)"
    "cpus m = (\<Union>(a, b) \<in> set rs. {a..b}) \<inter> {..<1024}" by auto
  from parse_ranges [OF assms(3) l] obtain m' where m': "length m' = 32" "parse_cpus (ranges_text rs') CpuSet = Some (Inr m')"
    "cpus m' = (\<Union>(a, b) \<in> set rs'. {a..b}) \<inter> {..<1024}" by auto
  have "cpus (IntersectWith m' m) = (\<Union>(a, b) \<in> set rs. {a..b}) \<inter> (\<Union>(a, b) \<in> set rs'. {a..b}) \<inter> {..<1024}"
    unfolding IntersectWith_cpus(1) [OF m(1) m'(1)] m(3) m'(3) by blast
  then have "GetCount (IntersectWith m' m) = card ((\<Union>(a, b) \<in> set rs. {a..b}) \<inter> (\<Union>(a, b) \<in> set rs'. {a..b}) \<inter> {..<1024})"
    using GetCount_card IntersectWith_cpus(2) [OF m(1) m'(1)] by simp
  then show ?thesis using m m' assms(2,4) by (auto simp: ParseSysFile_def)
qed

theorem cpu_set_reads_ranges_witness:
  "\<exists>m m'. ParseSysFile (Some [48, 45, 51, 44, 54, 10]) CpuSet = Some (Inr (True, m)) \<and>
     ParseSysFile (Some [50, 45, 55, 10]) CpuSet = Some (Inr (True, m')) \<and> GetCount (IntersectWith m' m) = 3"
proof -
  have t: "ranges_text [(0, 3), (6, 6)] = [48, 45, 51, 44, 54, 10]" "ranges_text [(2, 7)] = [50, 45, 55, 10]"
    by (simp_all add: range_text_def dec_bytes_def digits.simps digit_byte_def)
  have c: "card ((\<Union>(a, b) \<in> set [(0, 3), (6, 6)]. {a..b}) \<inter> (\<Union>(a, b) \<in> set [(2, 7)]. {a..b}) \<inter> {..<1024::nat}) = 3"
  proof -
    have "(\<Union>(a, b) \<in> set [(0, 3), (6, 6)]. {a..b}) \<inter> (\<Union>(a, b) \<in> set [(2, 7)]. {a..b}) \<inter> {..<1024} = {2, 3, 6::nat}" by auto
    then show ?thesis by (simp only: card_insert_if finite.intros) simp
  qed
  have l: "length (ranges_text [(0, 3), (6, 6)]) \<le> 511" "length (ranges_text [(2, 7)]) \<le> 511" unfolding t by simp_all
  have "\<exists>m m'. ParseSysFile (Some (ranges_text [(0, 3), (6, 6)])) CpuSet = Some (Inr (True, m)) \<and>
      ParseSysFile (Some (ranges_text [(2, 7)])) CpuSet = Some (Inr (True, m')) \<and> GetCount (IntersectWith m' m) =
      card ((\<Union>(a, b) \<in> set [(0, 3), (6, 6)]. {a..b}) \<inter> (\<Union>(a, b) \<in> set [(2, 7)]. {a..b}) \<inter> {..<1024::nat})"
    using cpu_set_reads_ranges [OF _ l(1) _ l(2)] by (auto simp del: ranges_text.simps)
  then show ?thesis unfolding c t .
qed

text \<open>
  A range that ends in the largest number never ends: the counter wraps to zero and stays below the
  end.
\<close>

lemma full_range_diverges: "ParseSysFile (Some (range_text (0, 4294967295))) m = None"
proof -
  let ?t = "range_text (0, 4294967295)"
  have plain: "\<And>c. c \<in> set ?t \<Longrightarrow> \<not> isspace c" "44 \<notin> set ?t" using range_text_plain by auto
  have dw: "dropWhile isspace ?t = ?t" using dropWhile_plain [of ?t isspace "[]"] plain(1) by simp
  have tr: "dropWhile isspace (rev ?t) \<noteq> []" using plain(1) by (intro rev_plain) auto
  have ir: "item_range ?t = Inr (0, - 1)" using item_range_text [of 0 ?t 0 4294967295 "[]"] by simp
  have "parse_cpus ?t m = None"
    using tr memchr_index(2) [OF plain(2)] by (subst parse_cpus.simps) (auto simp: dw Let_def ir set_range_diverges)
  moreover have "length ?t \<le> 511" by (simp add: range_text_def dec_bytes_def digits.simps)
  ultimately show ?thesis by (simp add: ParseSysFile_def)
qed

end
