(* ===== verification/Cpu_Information.thy ===== *)
theory Cpu_Information
  imports Dump_Streams Cpu_Set
begin

text \<open>
  The description of the processor and of the system in a minidump
  (\<open>WriteCPUInformation\<close>, \<open>WriteOSInformation\<close> and \<open>WriteSystemInfoStream\<close> of
  \<open>breakpad/src/client/linux/minidump_writer/minidump_writer.cc\<close>, 32-bit ARM).
\<close>

section \<open>Tables\<close>

definition ascii :: "string \<Rightarrow> byte list" where
  "ascii s = map of_char s"

text \<open>Name of the field, format (\<open>x\<close> or \<open>d\<close>), position and number of the bits.\<close>

type_synonym CpuIdEntry = "byte list \<times> byte \<times> nat \<times> nat"

definition cpu_id_entries :: "CpuIdEntry list" where
  "cpu_id_entries =
     [(ascii ''CPU implementer'', 120, 24, 8), (ascii ''CPU variant'', 120, 20, 4),
      (ascii ''CPU part'', 120, 4, 12), (ascii ''CPU revision'', 100, 0, 4)]"

text \<open>The tags of the features with \<open>MD_CPU_ARM_ELF_HWCAP\<close>, whose values are consecutive bits.\<close>

definition cpu_features_entries :: "(byte list \<times> 32 word) list" where
  "cpu_features_entries =
     [(ascii ''swp'', push_bit 0 1), (ascii ''half'', push_bit 1 1), (ascii ''thumb'', push_bit 2 1),
      (ascii ''26bit'', push_bit 3 1), (ascii ''fastmult'', push_bit 4 1), (ascii ''fpa'', push_bit 5 1),
      (ascii ''vfp'', push_bit 6 1), (ascii ''edsp'', push_bit 7 1), (ascii ''java'', push_bit 8 1),
      (ascii ''iwmmxt'', push_bit 9 1), (ascii ''crunch'', push_bit 10 1), (ascii ''thumbee'', push_bit 11 1),
      (ascii ''neon'', push_bit 12 1), (ascii ''vfpv3'', push_bit 13 1), (ascii ''vfpv3d16'', push_bit 14 1),
      (ascii ''tls'', push_bit 15 1), (ascii ''vfpv4'', push_bit 16 1), (ascii ''idiva'', push_bit 17 1),
      (ascii ''idivt'', push_bit 18 1), (ascii ''idiv'', push_bit 17 1 OR push_bit 18 1)]"

section \<open>The processor\<close>

text \<open>The members of \<open>MDRawSystemInfo\<close> that are set; the others stay zero.\<close>

record MDRawSystemInfo =
  processor_architecture :: "16 word"
  processor_level :: "16 word"
  processor_revision :: "16 word"
  number_of_processors :: byte
  platform_id :: "32 word"
  csd_version_rva :: MDRVA
  cpuid :: "32 word"
  elf_hwcaps :: "32 word"

text \<open>
  A number: the result, and whether a digit was read; \<open>0x\<close> counts as one. A pointer to the value of a field is
  the value with the NUL behind it.
\<close>

definition read_id :: "byte \<Rightarrow> block \<Rightarrow> (32 word \<times> bool) res" where
  "read_id fmt value1 =
     (if value1 ! 0 = 48 \<and> value1 ! 1 = 120 then res_bind (my_read_hex_ptr False (drop 2 value1)) (\<lambda>(r, _). Inr (r, True))
      else if fmt = 120 then res_bind (my_read_hex_ptr False value1) (\<lambda>(r, p). Inr (r, p \<noteq> 0))
      else res_bind (my_read_decimal_ptr False value1) (\<lambda>(r, p). Inr (r, p \<noteq> 0)))"

fun id_entries :: "byte list \<Rightarrow> byte list \<Rightarrow> CpuIdEntry list \<Rightarrow> MDRawSystemInfo \<Rightarrow> MDRawSystemInfo res" where
  "id_entries f v [] si = Inr si"
| "id_entries f v ((nm, fmt, bit_lshift, bit_length) # es) si =
     res_bind (my_strcmp False (nm @ [0]) (f @ [0])) (\<lambda>c.
     if c \<noteq> 0 then id_entries f v es si
     else res_bind (read_id fmt (v @ [0])) (\<lambda>(r, moved).
       if \<not> moved then id_entries f v es si
       else id_entries f v es (si\<lparr>cpuid := cpuid si OR push_bit bit_lshift (r AND (push_bit bit_length 1 - 1))\<rparr>)))"

text \<open>\<open>while (nn > 0 && value[nn-1] != '(') nn--\<close>.\<close>

fun back_to :: "byte \<Rightarrow> block \<Rightarrow> nat \<Rightarrow> nat" where
  "back_to c b 0 = 0"
| "back_to c b (Suc n) = (if b ! n \<noteq> c then back_to c b n else Suc n)"

definition arch_field :: "byte list \<Rightarrow> byte list \<Rightarrow> MDRawSystemInfo \<Rightarrow> MDRawSystemInfo res" where
  "arch_field f v si =
     res_bind (my_strcmp False (f @ [0]) (ascii ''Processor'' @ [0])) (\<lambda>c.
     if c \<noteq> 0 then Inr si
     else
       (let nn = back_to 40 v (back_spaces v (length v)) in
        if nn > 0 \<and> (v @ [0]) ! nn = 118
        then res_bind (my_read_decimal_ptr False (drop (nn + 1) (v @ [0]))) (\<lambda>(arch_level :: 32 word, _).
               Inr (si\<lparr>processor_level := ucast arch_level\<rparr>))
        else Inr si))"

definition tag_hwcaps :: "byte list \<Rightarrow> 32 word" where
  "tag_hwcaps t = (case find (\<lambda>(e, _). e = t) cpu_features_entries of None \<Rightarrow> 0 | Some (_, w) \<Rightarrow> w)"

text \<open>The loop over the tags: \<open>value\<close> with its NUL, \<open>value_len\<close> and the capabilities so far.\<close>

function feature_tags :: "block \<Rightarrow> nat \<Rightarrow> 32 word \<Rightarrow> 32 word res" where
  "feature_tags value1 len hw =
     (if len = 0 then Inr hw
      else (case my_strchr value1 32 of
              Inl e \<Rightarrow> Inl e
            | Inr (Some k) \<Rightarrow>
                if length value1 \<le> k \<or> len < k + 1 then Inl OutOfBounds
                else feature_tags (drop (k + 1) value1) (len - (k + 1)) (hw OR tag_hwcaps (take k value1))
            | Inr None \<Rightarrow> res_bind (my_strlen value1) (\<lambda>tag_len. Inr (hw OR tag_hwcaps (take tag_len value1)))))"
  by pat_completeness auto
termination by (relation "measure (\<lambda>(v, len, hw). length v)") auto

declare feature_tags.simps [simp del]

definition features_field :: "byte list \<Rightarrow> byte list \<Rightarrow> MDRawSystemInfo \<Rightarrow> MDRawSystemInfo res" where
  "features_field f v si =
     res_bind (my_strcmp False (f @ [0]) (ascii ''Features'' @ [0])) (\<lambda>c.
     if c \<noteq> 0 then Inr si
     else res_bind (feature_tags (v @ [0]) (length v) (elf_hwcaps si)) (\<lambda>hw. Inr (si\<lparr>elf_hwcaps := hw\<rparr>)))"

definition cpu_field :: "byte list \<Rightarrow> byte list \<Rightarrow> MDRawSystemInfo \<Rightarrow> MDRawSystemInfo res" where
  "cpu_field f v si = res_bind (id_entries f v cpu_id_entries si) (\<lambda>si. res_bind (arch_field f v si) (features_field f v))"

partial_function (option) cpu_loop :: "sys_read \<Rightarrow> ProcCpuInfoReader \<Rightarrow> MDRawSystemInfo \<Rightarrow> MDRawSystemInfo res option" where
  "cpu_loop rd r si =
     (case GetNextField rd r of
        None \<Rightarrow> None
      | Some (Inl e) \<Rightarrow> Some (Inl e)
      | Some (Inr (None, _)) \<Rightarrow> Some (Inr si)
      | Some (Inr (Some f, r')) \<Rightarrow>
          (case cpu_field f (GetValueAndLen r') si of Inl e \<Rightarrow> Some (Inl e) | Inr si' \<Rightarrow> cpu_loop rd r' si'))"

text \<open>The set of processors in a file: one read of at most 511 bytes.\<close>

definition present_name :: string where "present_name = ''/sys/devices/system/cpu/present''"

definition possible_name :: string where "possible_name = ''/sys/devices/system/cpu/possible''"

definition cpuinfo_name :: string where "cpuinfo_name = ''/proc/cpuinfo''"

definition first_read :: "dump_env \<Rightarrow> string \<Rightarrow> byte list option" where
  "first_read d name = (case dv_file d name 0 0 511 of Inl _ \<Rightarrow> None | Inr bs \<Rightarrow> Some bs)"

definition count_cpus :: "sys_call ext \<Rightarrow> dump_env \<Rightarrow> MDRawSystemInfo \<Rightarrow> MDRawSystemInfo dp" where
  "count_cpus x d si =
     pbind (pcall x (SysOpen present_name)) (\<lambda>fd.
     if fd < 0 then pret si
     else
       pbind (poption (ParseSysFile (first_read d present_name) CpuSet)) (\<lambda>r. pbind (plift r) (\<lambda>(_, present).
       pthen (pbind (pcall x (SysClose fd)) (\<lambda>_. pret ()))
       (pbind (pcall x (SysOpen possible_name)) (\<lambda>fd.
        if fd < 0 then pret si
        else
          pbind (poption (ParseSysFile (first_read d possible_name) CpuSet)) (\<lambda>r. pbind (plift r) (\<lambda>(_, possible).
          pthen (pbind (pcall x (SysClose fd)) (\<lambda>_. pret ()))
            (pret (si\<lparr>number_of_processors := of_nat (min 255 (GetCount (IntersectWith possible present)))\<rparr>)))))))))"

text \<open>\<open>junk\<close> is the uninitialised buffer of the reader.\<close>

definition WriteCPUInformation :: "sys_call ext \<Rightarrow> dump_env \<Rightarrow> block \<Rightarrow> MDRawSystemInfo \<Rightarrow> (bool \<times> MDRawSystemInfo) dp" where
  "WriteCPUInformation x d junk si =
     (let si = si\<lparr>processor_architecture := 5, number_of_processors := 0, processor_level := 1, processor_revision := 42,
                  cpuid := 0, elf_hwcaps := 0\<rparr> in
      pbind (count_cpus x d si) (\<lambda>si.
      pbind (pcall x (SysOpen cpuinfo_name)) (\<lambda>fd.
      if fd < 0 then pret (True, si)
      else
        pbind (poption (cpu_loop (\<lambda>i p n. case dv_file d cpuinfo_name i p n of Inl _ \<Rightarrow> None | Inr bs \<Rightarrow> Some bs)
                 (ProcCpuInfoReader_ctor junk) si)) (\<lambda>r. pbind (plift r) (\<lambda>si.
        pbind (pcall x (SysClose fd)) (\<lambda>_. pret (True, si)))))))"

section \<open>What the fields say\<close>

text \<open>Numbers: the value of the digits at the front.\<close>

definition is_hex :: "byte \<Rightarrow> bool" where
  "is_hex c \<longleftrightarrow> hex_value False c \<noteq> None"

definition hex_front :: "byte list \<Rightarrow> 32 word" where
  "hex_front v = foldl (\<lambda>r c. push_bit 4 r + of_int (the (hex_value False c))) 0 (takeWhile is_hex v)"

definition dec_front :: "byte list \<Rightarrow> 32 word" where
  "dec_front v = foldl (\<lambda>r c. r * 10 + of_int (uint c - 48)) 0 (takeWhile (is_digit False) v)"

definition id_number :: "byte \<Rightarrow> byte list \<Rightarrow> 32 word" where
  "id_number fmt v =
     (if take 2 v = [48, 120] then hex_front (drop 2 v) else if fmt = 120 then hex_front v else dec_front v)"

text \<open>The bits of the identifier a field contributes.\<close>

definition id_bits :: "byte list \<times> byte list \<Rightarrow> 32 word" where
  "id_bits = (\<lambda>(f, v). foldl (\<lambda>w (nm, fmt, sh, len).
     if nm = f then w OR push_bit sh (id_number fmt v AND (push_bit len 1 - 1)) else w) 0 cpu_id_entries)"

lemma words_shorter: "v \<noteq> [] \<Longrightarrow> length (drop (Suc 0) (dropWhile P v)) < length v"
  using length_dropWhile_le [of P v] by (cases v) (auto simp: less_Suc_eq_le diff_le_mono split: if_splits)

text \<open>The words of a value, and the capabilities they name.\<close>

function words :: "byte list \<Rightarrow> byte list list" where
  "words v = (if v = [] then [] else takeWhile (\<lambda>c. c \<noteq> 32) v # words (drop 1 (dropWhile (\<lambda>c. c \<noteq> 32) v)))"
  by pat_completeness auto

termination by (relation "measure length") (simp_all add: words_shorter del: length_drop)

declare words.simps [simp del]

definition feature_bits :: "byte list \<times> byte list \<Rightarrow> 32 word" where
  "feature_bits = (\<lambda>(f, v). if f = ascii ''Features'' then foldl (\<lambda>w t. w OR tag_hwcaps t) 0 (words v) else 0)"

text \<open>The level: the number behind \<open>v\<close> after the last parenthesis of the field \<open>Processor\<close>.\<close>

definition after_paren :: "byte list \<Rightarrow> byte list" where
  "after_paren v = rev (takeWhile (\<lambda>c. c \<noteq> 40) (rev v))"

definition arch_of :: "byte list \<times> byte list \<Rightarrow> 16 word option" where
  "arch_of = (\<lambda>(f, v).
     if f = ascii ''Processor'' \<and> 40 \<in> set v \<and> take 1 (after_paren v) = [118]
     then Some (ucast (dec_front (drop 1 (after_paren v)))) else None)"

definition apply_field :: "MDRawSystemInfo \<Rightarrow> byte list \<times> byte list \<Rightarrow> MDRawSystemInfo" where
  "apply_field si fv = si\<lparr>cpuid := cpuid si OR id_bits fv, elf_hwcaps := elf_hwcaps si OR feature_bits fv,
     processor_level := (case arch_of fv of None \<Rightarrow> processor_level si | Some l \<Rightarrow> l)\<rparr>"

section \<open>Fields are decoded\<close>

lemma read_hex_front:
  "my_read_hex_from False r p (v @ [0]) = Inr (foldl (\<lambda>r c. push_bit 4 r + of_int (the (hex_value False c))) r (takeWhile is_hex v),
     p + length (takeWhile is_hex v))"
  by (induction v arbitrary: r p) (auto simp: is_hex_def hex_value_def c_char_def)

lemma read_dec_front:
  "my_read_decimal_from False r p (v @ [0]) = Inr (foldl (\<lambda>r c. r * 10 + of_int (uint c - 48)) r (takeWhile (is_digit False) v),
     p + length (takeWhile (is_digit False) v))"
  by (induction v arbitrary: r p) (auto simp: is_digit_def c_char_def)

lemma read_id_number:
  "0 \<notin> set v \<Longrightarrow> \<exists>moved. read_id fmt (v @ [0]) = Inr (id_number fmt v, moved) \<and> (\<not> moved \<longrightarrow> id_number fmt v = 0)"
proof -
  assume z: "0 \<notin> set v"
  have x: "(v @ [0]) ! 0 = 48 \<and> (v @ [0]) ! 1 = 120 \<longleftrightarrow> take 2 v = [48, 120]"
    by (cases v; cases "tl v") (auto simp: nth_append)
  show ?thesis
  proof (cases "take 2 v = [48, 120]")
    case True
    then have "drop 2 (v @ [0]) = drop 2 v @ [0]" by (cases v; cases "tl v") auto
    then show ?thesis using True x
      by (intro exI [of _ True]) (simp add: read_id_def id_number_def my_read_hex_ptr_def read_hex_front hex_front_def)
  next
    case False
    then have "\<not> ((v @ [0]) ! 0 = 48 \<and> (v @ [0]) ! 1 = 120)" using x by blast
    then show ?thesis using False
      by (cases "fmt = 120") (auto simp: read_id_def id_number_def my_read_hex_ptr_def my_read_decimal_ptr_def
          read_hex_front read_dec_front hex_front_def dec_front_def)
  qed
qed

lemma id_entries_ok:
  assumes "0 \<notin> set f" and "0 \<notin> set v" and "\<forall>e \<in> set es. 0 \<notin> set (fst e)"
  shows "id_entries f v es si = Inr (si\<lparr>cpuid := foldl (\<lambda>w (nm, fmt, sh, len).
     if nm = f then w OR push_bit sh (id_number fmt v AND (push_bit len 1 - 1)) else w) (cpuid si) es\<rparr>)"
  using assms(3)
proof (induction es arbitrary: si)
  case (Cons e es)
  obtain nm fmt sh len where e: "e = (nm, fmt, sh, len)" by (cases e)
  obtain c where c: "my_strcmp False (nm @ [0]) (f @ [0]) = Inr c" "c = 0 \<longleftrightarrow> nm = f"
    using my_strcmp_same [of nm f "[]" "[]"] Cons.prems assms(1) e by auto
  obtain moved where r: "read_id fmt (v @ [0]) = Inr (id_number fmt v, moved)" "\<not> moved \<longrightarrow> id_number fmt v = 0"
    using read_id_number [OF assms(2)] by blast
  show ?case using Cons e c r by (cases moved) auto
qed simp

lemma split_at:
  obtains "c \<notin> set v" "takeWhile (\<lambda>b. b \<noteq> c) v = v" "dropWhile (\<lambda>b. b \<noteq> c) v = []"
  | pre rest where "v = pre @ c # rest" "c \<notin> set pre" "takeWhile (\<lambda>b. b \<noteq> c) v = pre" "dropWhile (\<lambda>b. b \<noteq> c) v = c # rest"
proof (cases "c \<in> set v")
  case True
  then obtain pre rest where v: "v = pre @ c # rest" "c \<notin> set pre" by (meson split_list_first)
  then have "takeWhile (\<lambda>b. b \<noteq> c) v = pre" "dropWhile (\<lambda>b. b \<noteq> c) v = c # rest"
    by (auto simp: takeWhile_append dropWhile_append)
  with v that(2) show thesis by blast
next
  case False
  then have "takeWhile (\<lambda>b. b \<noteq> c) v = v" "dropWhile (\<lambda>b. b \<noteq> c) v = []" by (auto simp: takeWhile_eq_all_conv dropWhile_eq_Nil_conv)
  with False that(1) show thesis by blast
qed

lemma feature_tags_words:
  "0 \<notin> set v \<Longrightarrow> feature_tags (v @ [0]) (length v) hw = Inr (foldl (\<lambda>w t. w OR tag_hwcaps t) hw (words v))"
proof (induction v arbitrary: hw rule: words.induct)
  case (1 v)
  show ?case
  proof (cases "v = []")
    case True
    then show ?thesis by (simp add: feature_tags.simps words.simps)
  next
    case False
    then show ?thesis
    proof (cases rule: split_at [of 32 v])
      case 1
      have "my_strchr (v @ [0]) 32 = Inr None" using strchr_none [of v 32 "[]"] 1 \<open>0 \<notin> set v\<close> by simp
      moreover have "my_strlen (v @ [0]) = Inr (length v)" using my_strlen_cstr [of v "[]"] \<open>0 \<notin> set v\<close> by simp
      moreover have "words v = [v]"
        using False by (simp only: words.simps [of v] 1(2,3)) (simp add: words.simps [of "[]"])
      ultimately show ?thesis using False by (subst feature_tags.simps) simp
    next
      case (2 pre rest)
      have "my_strchr (v @ [0]) 32 = Inr (Some (length pre))"
        using strchr_found [of pre 32 "rest @ [0]"] 2 \<open>0 \<notin> set v\<close> by simp
      moreover have "words v = pre # words rest"
        using False by (simp only: words.simps [of v] 2(3,4)) simp
      moreover have "feature_tags (rest @ [0]) (length rest) (hw OR tag_hwcaps pre) =
          Inr (foldl (\<lambda>w t. w OR tag_hwcaps t) (hw OR tag_hwcaps pre) (words rest))"
        using "1.IH" [OF False, of "hw OR tag_hwcaps pre"] 2 "1.prems" by simp
      ultimately show ?thesis using False 2 by (subst feature_tags.simps) simp
    qed
  qed
qed

lemma foldl_or: "foldl (\<lambda>w t. w OR g t) (a OR b) ts = (a :: 32 word) OR foldl (\<lambda>w t. w OR g t) b ts"
  by (induction ts arbitrary: b) (simp_all add: or.assoc)

lemma foldl_or_if:
  "foldl (\<lambda>w (nm, fmt, sh, len). if nm = f then w OR g fmt sh len else w) (a OR b) es =
     (a :: 32 word) OR foldl (\<lambda>w (nm, fmt, sh, len). if nm = f then w OR g fmt sh len else w) b es"
  by (induction es arbitrary: b) (auto simp: or.assoc split: prod.splits)

lemma back_to_paren:
  "n \<le> length b \<Longrightarrow> back_to c b n = length (dropWhile (\<lambda>x. x \<noteq> c) (rev (take n b)))"
  by (induction n) (auto simp: take_Suc_conv_app_nth)

lemma back_to_last:
  "back_to 40 v (back_spaces v (length v)) = (if 40 \<in> set v then length v - length (after_paren v) else 0)"
proof -
  let ?n = "back_spaces v (length v)" and ?t = "dropWhile isspace (rev v)" and ?s = "takeWhile isspace (rev v)"
  have n: "?n \<le> length v" by (rule back_spaces_le)
  have tk: "rev (take ?n v) = ?t" using back_spaces_trim [of "length v" v] by simp
  have nn: "back_to 40 v ?n = length (dropWhile (\<lambda>x. x \<noteq> 40) ?t)" using back_to_paren [OF n, of 40] by (simp add: tk)
  have s: "\<forall>x \<in> set ?s. x \<noteq> 40" by (auto dest!: set_takeWhileD simp: my_isspace_def spaces_def)
  have "dropWhile (\<lambda>x. x \<noteq> 40) (?s @ ?t) = dropWhile (\<lambda>x. x \<noteq> 40) ?t" by (rule dropWhile_append2) (use s in blast)
  then have "dropWhile (\<lambda>x. x \<noteq> 40) (rev v) = dropWhile (\<lambda>x. x \<noteq> 40) ?t" by (simp only: takeWhile_dropWhile_id)
  then have e: "back_to 40 v ?n = length (dropWhile (\<lambda>x. x \<noteq> 40) (rev v))" using nn by simp
  have "length (takeWhile (\<lambda>x. x \<noteq> 40) (rev v)) + length (dropWhile (\<lambda>x. x \<noteq> 40) (rev v)) = length v"
    by (metis length_append length_rev takeWhile_dropWhile_id)
  moreover have "40 \<notin> set v \<Longrightarrow> dropWhile (\<lambda>x. x \<noteq> 40) (rev v) = []" by (auto simp: dropWhile_eq_Nil_conv)
  ultimately show ?thesis using e by (auto simp: after_paren_def)
qed

lemma after_paren_drop:
  assumes "40 \<in> set v"
  shows "drop (length v - length (after_paren v)) v = after_paren v" "0 < length v - length (after_paren v)"
proof -
  have "rev v = takeWhile (\<lambda>c. c \<noteq> 40) (rev v) @ dropWhile (\<lambda>c. c \<noteq> 40) (rev v)" by simp
  then have v: "v = rev (dropWhile (\<lambda>c. c \<noteq> 40) (rev v)) @ after_paren v" unfolding after_paren_def by (metis rev_append rev_rev_ident)
  have "dropWhile (\<lambda>c. c \<noteq> 40) (rev v) \<noteq> []" using assms by (auto simp: dropWhile_eq_Nil_conv)
  then have "0 < length (rev (dropWhile (\<lambda>c. c \<noteq> 40) (rev v)))" by simp
  moreover have "length v = length (rev (dropWhile (\<lambda>c. c \<noteq> 40) (rev v))) + length (after_paren v)"
    by (subst v) (simp only: length_append)
  ultimately show "0 < length v - length (after_paren v)" by linarith
  have "drop (length (u @ w) - length w) (u @ w) = w" for u w :: "byte list" by simp
  then show "drop (length v - length (after_paren v)) v = after_paren v" by (metis v)
qed

lemma arch_field_ok:
  assumes "0 \<notin> set f" and "0 \<notin> set v"
  shows "arch_field f v si = Inr (case arch_of (f, v) of None \<Rightarrow> si | Some l \<Rightarrow> si\<lparr>processor_level := l\<rparr>)"
proof -
  have nz: "0 \<notin> set (ascii ''Processor'')" by (simp add: ascii_def)
  obtain c where c: "my_strcmp False (f @ [0]) (ascii ''Processor'' @ [0]) = Inr c" "c = 0 \<longleftrightarrow> f = ascii ''Processor''"
    using my_strcmp_same [OF assms(1) nz, of "[]" "[]"] by auto
  show ?thesis
  proof (cases "40 \<in> set v")
    case False
    then show ?thesis using c back_to_last [of v] by (auto simp: arch_field_def arch_of_def Let_def)
  next
    case True
    let ?k = "length v - length (after_paren v)"
    note ap = after_paren_drop [OF True]
    have dr: "drop ?k (v @ [0]) = after_paren v @ [0]" using ap(1) by simp
    have nth: "(v @ [0]) ! ?k = (after_paren v @ [0]) ! 0" by (subst dr [symmetric]) (simp add: hd_drop_conv_nth [symmetric])
    have k: "back_to 40 v (back_spaces v (length v)) = ?k" using back_to_last [of v] True by simp
    have is_v: "(after_paren v @ [0]) ! 0 = 118 \<longleftrightarrow> take 1 (after_paren v) = [118]" by (cases "after_paren v") auto
    have d1: "drop (?k + 1) (v @ [0]) = drop 1 (after_paren v) @ [0]" if "take 1 (after_paren v) = [118]"
    proof -
      have "drop (?k + 1) (v @ [0]) = drop 1 (drop ?k (v @ [0]))" by (simp only: drop_drop add.commute)
      then show ?thesis using that by (simp only: dr) (cases "after_paren v"; simp)
    qed
    show ?thesis
    proof (cases "take 1 (after_paren v) = [118]")
      case t: True
      then show ?thesis using c True ap(2) is_v nth d1 [OF t]
        by (simp add: arch_field_def arch_of_def Let_def k my_read_decimal_ptr_def read_dec_front dec_front_def del: drop_append)
    next
      case f: False
      then show ?thesis using c is_v nth by (simp add: arch_field_def arch_of_def Let_def k)
    qed
  qed
qed

lemma cpu_field_ok:
  assumes "0 \<notin> set f" and "0 \<notin> set v"
  shows "cpu_field f v si = Inr (apply_field si (f, v))"
proof -
  have nz: "0 \<notin> set (ascii ''Features'')" by (simp add: ascii_def)
  obtain c where c: "my_strcmp False (f @ [0]) (ascii ''Features'' @ [0]) = Inr c" "c = 0 \<longleftrightarrow> f = ascii ''Features''"
    using my_strcmp_same [OF assms(1) nz, of "[]" "[]"] by auto
  have ft: "features_field f v s = Inr (s\<lparr>elf_hwcaps := elf_hwcaps s OR feature_bits (f, v)\<rparr>)" for s
    using c feature_tags_words [OF assms(2), of "elf_hwcaps s"] foldl_or [of tag_hwcaps "elf_hwcaps s" 0 "words v"]
    by (auto simp: features_field_def feature_bits_def)
  have "\<forall>e \<in> set cpu_id_entries. 0 \<notin> set (fst e)" by (simp add: cpu_id_entries_def ascii_def)
  moreover have "foldl (\<lambda>w (nm, fmt, sh, len). if nm = f then w OR push_bit sh (id_number fmt v AND (push_bit len 1 - 1)) else w)
      (cpuid si) cpu_id_entries = cpuid si OR id_bits (f, v)"
    using foldl_or_if [of f "\<lambda>fmt sh len. push_bit sh (id_number fmt v AND (push_bit len 1 - 1))" "cpuid si" 0 cpu_id_entries]
    by (simp add: id_bits_def)
  ultimately have ids: "id_entries f v cpu_id_entries si = Inr (si\<lparr>cpuid := cpuid si OR id_bits (f, v)\<rparr>)"
    using id_entries_ok [OF assms, of cpu_id_entries si] by simp
  show ?thesis
    by (cases "arch_of (f, v)") (simp_all add: cpu_field_def ids arch_field_ok [OF assms] ft apply_field_def)
qed

lemma fields_no_nul: "(f, v) \<in> set (fields_of F) \<Longrightarrow> 0 \<notin> set f \<and> 0 \<notin> set v"
proof -
  have l: "l \<in> set (split_lines F) \<Longrightarrow> 0 \<notin> set l" for l
  proof (induction F rule: split_lines.induct)
    case (1 F)
    have "0 \<notin> set (first_line F)" by (auto simp: first_line_def is_eol_def dest: set_takeWhileD)
    then show ?case using 1 by (subst (asm) (2) split_lines.simps) (auto split: if_splits)
  qed
  assume "(f, v) \<in> set (fields_of F)"
  then obtain l where "l \<in> set (split_lines F)" "parse_field l = Some (f, v)"
    by (auto simp: fields_of_def List.map_filter_def dest!: set_takeWhileD)
  moreover from this have "set f \<subseteq> set l" "set v \<subseteq> set l"
    by (auto simp: parse_field_def Let_def split: if_splits dest!: set_dropWhileD set_takeWhileD in_set_dropD)
  ultimately show "0 \<notin> set f \<and> 0 \<notin> set v" using l by blast
qed

lemma cpu_loop_fields:
  assumes "file_reads rd F" and "cpu_ok F r" and "\<forall>(f, v) \<in> set (fields_of (cpu_rest F r)). 0 \<notin> set f \<and> 0 \<notin> set v"
  shows "cpu_loop rd r si = Some (Inr (foldl apply_field si (fields_of (cpu_rest F r))))"
  using assms(2,3)
proof (induction "fields_of (cpu_rest F r)" arbitrary: r si)
  case Nil
  then show ?case using GetNextField_next [OF assms(1) Nil(2)] by (auto simp: cpu_loop.simps [of rd r si])
next
  case (Cons fv gs)
  obtain f v where fv: "fv = (f, v)" by (cases fv)
  from GetNextField_next [OF assms(1) Cons(3)] Cons(2) fv obtain r' where
    r': "GetNextField rd r = Some (Inr (Some f, r'))" "GetValueAndLen r' = v" "cpu_ok F r'" "fields_of (cpu_rest F r') = gs"
    by (auto split: list.splits)
  have z: "0 \<notin> set f" "0 \<notin> set v" using Cons.prems(2) Cons(2) [symmetric] fv by auto
  have "\<forall>(f, v) \<in> set (fields_of (cpu_rest F r')). 0 \<notin> set f \<and> 0 \<notin> set v" using Cons.prems(2) Cons(2) [symmetric] r'(4) by auto
  with Cons(1) [OF r'(4) [symmetric] r'(3)] have "cpu_loop rd r' (apply_field si (f, v)) = Some (Inr (foldl apply_field (apply_field si (f, v)) gs))"
    using r'(4) by simp
  then show ?case using r' Cons(2) [symmetric] fv cpu_field_ok [OF z] by (subst cpu_loop.simps) simp
qed

text \<open>C21: The identifier, the capabilities and the architecture level are rebuilt from the fields of \<open>/proc/cpuinfo\<close>: for every
  way the kernel cuts the contents \<open>F\<close> into reads the loop of \<open>WriteCPUInformation\<close> ends without a fault, and has applied the
  fields of \<open>F\<close> in order, each with the bits its digits and its words stand for.\<close>

theorem cpu_information_decoded:
  assumes "file_reads rd F" and "length junk = 512"
  shows "cpu_loop rd (ProcCpuInfoReader_ctor junk) si = Some (Inr (foldl apply_field si (fields_of F)))"
proof -
  have "cpu_ok F (ProcCpuInfoReader_ctor junk)" "cpu_rest F (ProcCpuInfoReader_ctor junk) = F"
    using assms(2) by (simp_all add: cpu_ok_def cpu_rest_def ProcCpuInfoReader_ctor_def LineReader_ctor_def lr_inv_def lr_pending_def)
  then show ?thesis using cpu_loop_fields [OF assms(1), of "ProcCpuInfoReader_ctor junk" si] fields_no_nul [of _ _ F] by auto
qed

definition demo_info :: MDRawSystemInfo where
  "demo_info = \<lparr>processor_architecture = 5, processor_level = 1, processor_revision = 42, number_of_processors = 4, platform_id = 0,
     csd_version_rva = 0, cpuid = 0, elf_hwcaps = 0\<rparr>"

lemma cpu_information_decoded_witness:
  "cpu_loop (byte_reads (ascii ''Features : swp neon'' @ [10] @ ascii ''CPU part : 0xc0f'')) (ProcCpuInfoReader_ctor (replicate 512 7)) demo_info =
     Some (Inr (demo_info\<lparr>cpuid := 0xc0f0, elf_hwcaps := 0x1001\<rparr>))"
proof -
  have f: "fields_of (ascii ''Features : swp neon'' @ [10] @ ascii ''CPU part : 0xc0f'') =
      [(ascii ''Features'', ascii ''swp neon''), (ascii ''CPU part'', ascii ''0xc0f'')]"
    by (simp add: fields_of_def ascii_def split_lines.simps first_line_def is_eol_def parse_field_def List.map_filter_simps my_isspace_def spaces_def)
  have "feature_bits (ascii ''Features'', ascii ''swp neon'') = 0x1001" "id_bits (ascii ''Features'', ascii ''swp neon'') = 0"
    "feature_bits (ascii ''CPU part'', ascii ''0xc0f'') = 0"
    by (simp_all add: feature_bits_def id_bits_def ascii_def words.simps tag_hwcaps_def cpu_features_entries_def cpu_id_entries_def)
  moreover have "id_bits (ascii ''CPU part'', ascii ''0xc0f'') = 0xc0f0"
    by (simp add: id_bits_def ascii_def cpu_id_entries_def id_number_def hex_front_def is_hex_def hex_value_def c_char_def)
  moreover have "arch_of (ascii ''Features'', v) = None" "arch_of (ascii ''CPU part'', v) = None" for v
    by (simp_all add: arch_of_def ascii_def)
  ultimately show ?thesis
    using cpu_information_decoded [OF byte_reads_file, of "replicate 512 7" "ascii ''Features : swp neon'' @ [10] @ ascii ''CPU part : 0xc0f''" demo_info] f
    by (simp add: apply_field_def demo_info_def)
qed

end
