(* ===== verification/Elf_Utils.thy ===== *)
theory Elf_Utils
  imports Libc_Support
begin

text \<open>
  Sections and segments of an ELF file in memory: \<open>breakpad/src/common/linux/elfutils.cc\<close> and
  \<open>elfutils-inl.h\<close>, for both file classes. The image lies at an address of a 32-bit address space; pointer
  arithmetic wraps around, and a read outside the image is a fault. The field offsets are those of
  \<open><elf.h>\<close>.
\<close>

section \<open>Memory\<close>

record elf_mem =
  mbase :: ptr
  mbytes :: block

definition p_add :: "ptr \<Rightarrow> nat \<Rightarrow> ptr" where
  "p_add p d = (p + d) mod 4294967296"

definition ptr_diff :: "ptr \<Rightarrow> ptr \<Rightarrow> int" where
  "ptr_diff a b = (int a - int b + 2147483648) mod 4294967296 - 2147483648"

definition load_bytes :: "elf_mem \<Rightarrow> ptr \<Rightarrow> nat \<Rightarrow> byte list res" where
  "load_bytes m p n =
     (if mbase m \<le> p \<and> p + n \<le> mbase m + length (mbytes m)
      then Inr (take n (drop (p - mbase m) (mbytes m))) else Inl OutOfBounds)"

definition load :: "elf_mem \<Rightarrow> ptr \<Rightarrow> nat \<Rightarrow> nat res" where
  "load m p w = res_bind (load_bytes m p w) (\<lambda>bs. Inr (le_nat bs))"

text \<open>The bytes from a pointer to the end of the image, for the string functions.\<close>

definition bytes_from :: "elf_mem \<Rightarrow> ptr \<Rightarrow> block" where
  "bytes_from m p = (if mbase m \<le> p then drop (p - mbase m) (mbytes m) else [])"

section \<open>File classes\<close>

record elf_class =
  kClass :: nat
  off_w :: nat            \<comment> \<open>width of \<open>Off\<close> and of the sizes\<close>
  e_phoff :: nat
  e_shoff :: nat
  e_phnum :: nat
  e_shnum :: nat
  e_shstrndx :: nat
  sh_offset :: nat
  sh_size :: nat
  sizeof_Shdr :: nat
  p_offset :: nat
  p_filesz :: nat
  sizeof_Phdr :: nat

definition ElfClass32 :: elf_class where
  "ElfClass32 = \<lparr>kClass = 1, off_w = 4, e_phoff = 28, e_shoff = 32, e_phnum = 44, e_shnum = 48, e_shstrndx = 50,
     sh_offset = 16, sh_size = 20, sizeof_Shdr = 40, p_offset = 4, p_filesz = 16, sizeof_Phdr = 32\<rparr>"

definition ElfClass64 :: elf_class where
  "ElfClass64 = \<lparr>kClass = 2, off_w = 8, e_phoff = 32, e_shoff = 40, e_phnum = 56, e_shnum = 60, e_shstrndx = 62,
     sh_offset = 24, sh_size = 32, sizeof_Shdr = 64, p_offset = 8, p_filesz = 32, sizeof_Phdr = 56\<rparr>"

definition ELFMAG :: block where
  "ELFMAG = [0x7f, 0x45, 0x4c, 0x46, 0]"

definition IsValidElf :: "elf_mem \<Rightarrow> ptr \<Rightarrow> bool res" where
  "IsValidElf m base = res_bind (my_strncmp False (bytes_from m base) ELFMAG 4) (\<lambda>r. Inr (r = 0))"

definition ElfClass :: "elf_mem \<Rightarrow> ptr \<Rightarrow> nat res" where
  "ElfClass m base = load m (p_add base 4) 1"

text \<open>The checks both searches begin with.\<close>

definition assert_class :: "elf_class \<Rightarrow> elf_mem \<Rightarrow> ptr \<Rightarrow> unit res" where
  "assert_class E m base =
     (if base = null then Inl AssertFail
      else res_bind (IsValidElf m base) (\<lambda>ok.
        if \<not> ok then Inl AssertFail
        else res_bind (load m (p_add base 4) 1) (\<lambda>c. if c = kClass E then Inr () else Inl AssertFail)))"

section \<open>Sections\<close>

text \<open>\<open>FindElfSectionByName\<close>: the loop from section \<open>i\<close> on, with \<open>k\<close> sections left.\<close>

fun find_section :: "elf_class \<Rightarrow> elf_mem \<Rightarrow> block \<Rightarrow> int \<Rightarrow> nat \<Rightarrow> ptr \<Rightarrow> ptr \<Rightarrow> ptr \<Rightarrow> nat \<Rightarrow> nat \<Rightarrow> ptr res" where
  "find_section E m name name_len ty sections names names_end 0 i = Inr null"
| "find_section E m name name_len ty sections names names_end (Suc k) i =
     (let sec = p_add sections (i * sizeof_Shdr E) in
      res_bind (load m sec 4) (\<lambda>sh_name.
      res_bind (load m (p_add sec 4) 4) (\<lambda>sh_type.
        let section_name = p_add names sh_name in
        if sh_type = ty \<and> ptr_diff names_end section_name \<ge> name_len + 1
        then res_bind (my_strcmp False name (bytes_from m section_name)) (\<lambda>c.
               if c = 0 then Inr sec else find_section E m name name_len ty sections names names_end k (i + 1))
        else find_section E m name name_len ty sections names names_end k (i + 1))))"

definition FindElfSectionByName :: "elf_class \<Rightarrow> elf_mem \<Rightarrow> block \<Rightarrow> nat \<Rightarrow> ptr \<Rightarrow> ptr \<Rightarrow> ptr \<Rightarrow> nat \<Rightarrow> ptr res" where
  "FindElfSectionByName E m name ty sections names names_end nsection =
     (if sections = null \<or> nsection = 0 then Inl AssertFail
      else res_bind (my_strlen name) (\<lambda>name_len.
        if name_len = 0 then Inr null
        else find_section E m name (int name_len) ty sections names names_end nsection 0))"

text \<open>Start and size of a section, \<open>(null, 0)\<close> when there is none.\<close>

definition FindElfClassSection :: "elf_class \<Rightarrow> elf_mem \<Rightarrow> ptr \<Rightarrow> block \<Rightarrow> nat \<Rightarrow> (ptr \<times> nat) res" where
  "FindElfClassSection E m base name ty =
     res_bind (assert_class E m base) (\<lambda>_.
     res_bind (load m (p_add base (e_shoff E)) (off_w E)) (\<lambda>shoff.
     if shoff = 0 then Inr (null, 0)
     else
       res_bind (load m (p_add base (e_shstrndx E)) 2) (\<lambda>shstrndx.
       let sections = p_add base shoff; sn = p_add sections (shstrndx * sizeof_Shdr E) in
       res_bind (load m (p_add sn (sh_offset E)) (off_w E)) (\<lambda>noff.
       res_bind (load m (p_add sn (sh_size E)) (off_w E)) (\<lambda>nsz.
       res_bind (load m (p_add base (e_shnum E)) 2) (\<lambda>shnum.
       let names = p_add base noff; names_end = p_add names nsz in
       res_bind (FindElfSectionByName E m name ty sections names names_end shnum) (\<lambda>sec.
       if sec = null then Inr (null, 0)
       else
         res_bind (load m (p_add sec (sh_size E)) (off_w E)) (\<lambda>sz.
         if sz = 0 then Inr (null, 0)
         else res_bind (load m (p_add sec (sh_offset E)) (off_w E)) (\<lambda>off.
           Inr (p_add base off, sz mod 4294967296))))))))))"

text \<open>\<open>FindElfSection\<close>: the result, start and size.\<close>

definition FindElfSection :: "elf_mem \<Rightarrow> ptr \<Rightarrow> block \<Rightarrow> nat \<Rightarrow> (bool \<times> ptr \<times> nat) res" where
  "FindElfSection m base name ty =
     (if base = null then Inl AssertFail
      else res_bind (IsValidElf m base) (\<lambda>ok.
        if \<not> ok then Inr (False, null, 0)
        else res_bind (ElfClass m base) (\<lambda>cls.
          if cls = 1 then res_bind (FindElfClassSection ElfClass32 m base name ty) (\<lambda>(p, n). Inr (p \<noteq> null, p, n))
          else if cls = 2 then res_bind (FindElfClassSection ElfClass64 m base name ty) (\<lambda>(p, n). Inr (p \<noteq> null, p, n))
          else Inr (False, null, 0))))"

section \<open>Segments\<close>

fun find_segments :: "elf_class \<Rightarrow> elf_mem \<Rightarrow> ptr \<Rightarrow> nat \<Rightarrow> ptr \<Rightarrow> nat \<Rightarrow> nat \<Rightarrow> (ptr \<times> nat) list res" where
  "find_segments E m base ty phdrs 0 i = Inr []"
| "find_segments E m base ty phdrs (Suc k) i =
     (let ph = p_add phdrs (i * sizeof_Phdr E) in
      res_bind (load m ph 4) (\<lambda>p_type.
      if p_type = ty then
        res_bind (load m (p_add ph (p_offset E)) (off_w E)) (\<lambda>off.
        res_bind (load m (p_add ph (p_filesz E)) (off_w E)) (\<lambda>sz.
        res_bind (find_segments E m base ty phdrs k (i + 1)) (\<lambda>segs.
          Inr ((p_add base off, sz mod 4294967296) # segs))))
      else find_segments E m base ty phdrs k (i + 1)))"

definition FindElfClassSegment :: "elf_class \<Rightarrow> elf_mem \<Rightarrow> ptr \<Rightarrow> nat \<Rightarrow> (ptr \<times> nat) list res" where
  "FindElfClassSegment E m base ty =
     res_bind (assert_class E m base) (\<lambda>_.
     res_bind (load m (p_add base (e_phoff E)) (off_w E)) (\<lambda>phoff.
     res_bind (load m (p_add base (e_phnum E)) 2) (\<lambda>phnum.
       find_segments E m base ty (p_add base phoff) phnum 0)))"

text \<open>\<open>FindElfSegments\<close>: the result and the segments appended to the vector.\<close>

definition FindElfSegments :: "elf_mem \<Rightarrow> ptr \<Rightarrow> nat \<Rightarrow> (bool \<times> (ptr \<times> nat) list) res" where
  "FindElfSegments m base ty =
     (if base = null then Inl AssertFail
      else res_bind (IsValidElf m base) (\<lambda>ok.
        if \<not> ok then Inr (False, [])
        else res_bind (ElfClass m base) (\<lambda>cls.
          if cls = 1 then res_bind (FindElfClassSegment ElfClass32 m base ty) (\<lambda>ss. Inr (True, ss))
          else if cls = 2 then res_bind (FindElfClassSegment ElfClass64 m base ty) (\<lambda>ss. Inr (True, ss))
          else Inr (False, []))))"

section \<open>The name of a shared object\<close>

text \<open>
  \<open>FindElfSoNameFromDynamicSection\<close>: the loop over the entries (tag and value of width \<open>w\<close>), \<open>k\<close> of them
  left. \<open>None\<close> in the second component is \<open>false\<close>.
\<close>

fun find_soname :: "nat \<Rightarrow> elf_mem \<Rightarrow> ptr \<Rightarrow> ptr \<Rightarrow> nat \<Rightarrow> block \<Rightarrow> nat \<Rightarrow> nat \<Rightarrow> (bool \<times> block) res" where
  "find_soname w m dyn dynstr dynstr_size soname soname_size 0 = Inr (False, soname)"
| "find_soname w m dyn dynstr dynstr_size soname soname_size (Suc k) =
     res_bind (load m dyn w) (\<lambda>d_tag.
     if d_tag = 14 then
       res_bind (load m (p_add dyn w) w) (\<lambda>d_val.
       if d_val \<ge> dynstr_size then Inr (False, soname)
       else
         (let maxsize = dynstr_size - d_val in
          res_bind (my_strlcpy 0 soname (bytes_from m (p_add dynstr d_val)) (if maxsize < soname_size then maxsize else soname_size))
            (\<lambda>(b, _). Inr (True, b))))
     else find_soname w m (p_add dyn (2 * w)) dynstr dynstr_size soname soname_size k)"

definition dynamic_name :: block where
  "dynamic_name = map of_char ''.dynamic'' @ [0]"

definition dynstr_name :: block where
  "dynstr_name = map of_char ''.dynstr'' @ [0]"

definition ElfFileSoNameFromMappedFile :: "elf_mem \<Rightarrow> ptr \<Rightarrow> block \<Rightarrow> nat \<Rightarrow> (bool \<times> block) res" where
  "ElfFileSoNameFromMappedFile m base soname soname_size =
     res_bind (IsValidElf m base) (\<lambda>ok.
     if \<not> ok then Inr (False, soname)
     else
       res_bind (FindElfSection m base dynamic_name 6) (\<lambda>(found, seg, seg_size).
       if \<not> found then Inr (False, soname)
       else
         res_bind (FindElfSection m base dynstr_name 3) (\<lambda>(found', dynstr, dynstr_size).
         if \<not> found' then Inr (False, soname)
         else
           res_bind (ElfClass m base) (\<lambda>cls.
           let w = (if cls = 1 then 4 else 8) in
           find_soname w m seg dynstr dynstr_size soname soname_size (seg_size div (2 * w))))))"

section \<open>Well-formed images\<close>

text \<open>A section as the tables of an image describe it.\<close>

record elf_section =
  sec_name :: "byte list"
  sec_type :: nat
  sec_off :: nat
  sec_size :: nat

definition c_string_at :: "elf_mem \<Rightarrow> ptr \<Rightarrow> byte list \<Rightarrow> bool" where
  "c_string_at m p str \<longleftrightarrow> 0 \<notin> set str \<and> (\<exists>rest. bytes_from m p = str @ 0 # rest)"

definition has_section :: "elf_class \<Rightarrow> elf_mem \<Rightarrow> ptr \<Rightarrow> ptr \<Rightarrow> ptr \<Rightarrow> nat \<Rightarrow> elf_section \<Rightarrow> bool" where
  "has_section E m sections names names_end i s \<longleftrightarrow>
     (let sec = p_add sections (i * sizeof_Shdr E) in
      sec \<noteq> null \<and>
      (\<exists>nm. load m sec 4 = Inr nm \<and> c_string_at m (p_add names nm) (sec_name s) \<and>
         ptr_diff names_end (p_add names nm) \<ge> int (length (sec_name s)) + 1) \<and>
      load m (p_add sec 4) 4 = Inr (sec_type s) \<and>
      load m (p_add sec (sh_offset E)) (off_w E) = Inr (sec_off s) \<and>
      load m (p_add sec (sh_size E)) (off_w E) = Inr (sec_size s))"

definition elf_image :: "elf_class \<Rightarrow> elf_mem \<Rightarrow> ptr \<Rightarrow> elf_section list \<Rightarrow> bool" where
  "elf_image E m base ss \<longleftrightarrow>
     E \<in> {ElfClass32, ElfClass64} \<and> base \<noteq> null \<and> IsValidElf m base = Inr True \<and> ElfClass m base = Inr (kClass E) \<and>
     ss \<noteq> [] \<and> load m (p_add base (e_shnum E)) 2 = Inr (length ss) \<and>
     (\<exists>shoff shstrndx noff nsz.
        load m (p_add base (e_shoff E)) (off_w E) = Inr shoff \<and> shoff \<noteq> 0 \<and> p_add base shoff \<noteq> null \<and>
        load m (p_add base (e_shstrndx E)) 2 = Inr shstrndx \<and>
        load m (p_add (p_add (p_add base shoff) (shstrndx * sizeof_Shdr E)) (sh_offset E)) (off_w E) = Inr noff \<and>
        load m (p_add (p_add (p_add base shoff) (shstrndx * sizeof_Shdr E)) (sh_size E)) (off_w E) = Inr nsz \<and>
        (\<forall>i < length ss. has_section E m (p_add base shoff) (p_add base noff) (p_add (p_add base noff) nsz) i (ss ! i)))"

lemma my_strlen_string: "0 \<notin> set a \<Longrightarrow> my_strlen_from n (a @ [0]) = Inr (n + length a)"
  by (induction a arbitrary: n) auto

text \<open>The loop finds the first section with the type and the name.\<close>

lemma find_section_first:
  assumes "\<forall>j < length ss. has_section E m sections names names_end (i + j) (ss ! j)" "0 \<notin> set name"
  shows "case find (\<lambda>s. sec_type s = ty \<and> sec_name s = name) ss of
      None \<Rightarrow> find_section E m (name @ [0]) (int (length name)) ty sections names names_end (length ss) i = Inr null
    | Some s \<Rightarrow> \<exists>j. has_section E m sections names names_end j s \<and>
        find_section E m (name @ [0]) (int (length name)) ty sections names names_end (length ss) i =
          Inr (p_add sections (j * sizeof_Shdr E))"
  using assms(1)
proof (induction ss arbitrary: i)
  case Nil
  then show ?case by simp
next
  case (Cons s ss)
  have h: "has_section E m sections names names_end i s" using Cons.prems by (auto dest: spec [of _ 0])
  have IH: "\<forall>j < length ss. has_section E m sections names names_end (i + 1 + j) (ss ! j)"
    using Cons.prems by (auto dest: spec [of _ "Suc _"])
  let ?sec = "p_add sections (i * sizeof_Shdr E)"
  from h obtain nm rest where nm: "load m ?sec 4 = Inr nm" "load m (p_add ?sec 4) 4 = Inr (sec_type s)"
    "bytes_from m (p_add names nm) = sec_name s @ 0 # rest" "0 \<notin> set (sec_name s)"
    "ptr_diff names_end (p_add names nm) \<ge> int (length (sec_name s)) + 1"
    by (auto simp: has_section_def c_string_at_def Let_def)
  obtain k where k: "my_strcmp False (name @ [0]) (sec_name s @ 0 # rest) = Inr k" "k = 0 \<longleftrightarrow> name = sec_name s"
    using my_strcmp_same [OF assms(2) nm(4), of "[]" rest] by auto
  show ?case
  proof (cases "sec_type s = ty \<and> sec_name s = name")
    case True
    then have "find_section E m (name @ [0]) (int (length name)) ty sections names names_end (Suc (length ss)) i = Inr ?sec"
      using nm k by (simp add: Let_def)
    then show ?thesis using True h by auto
  next
    case False
    have e: "find_section E m (name @ [0]) (int (length name)) ty sections names names_end (length (s # ss)) i =
        find_section E m (name @ [0]) (int (length name)) ty sections names names_end (length ss) (i + 1)"
      using nm k False by (auto simp: Let_def)
    have f: "find (\<lambda>s. sec_type s = ty \<and> sec_name s = name) (s # ss) = find (\<lambda>s. sec_type s = ty \<and> sec_name s = name) ss"
      using False by auto
    show ?thesis unfolding e f by (rule Cons.IH [OF IH])
  qed
qed

lemma FindElfSection_image:
  assumes "elf_image E m base ss" "name \<noteq> []" "0 \<notin> set name"
  shows "FindElfSection m base (name @ [0]) ty =
    Inr (case find (\<lambda>s. sec_type s = ty \<and> sec_name s = name) ss of
        None \<Rightarrow> (False, null, 0)
      | Some s \<Rightarrow> if sec_size s = 0 then (False, null, 0)
          else (p_add base (sec_off s) \<noteq> null, p_add base (sec_off s), sec_size s mod 4294967296))"
proof -
  from assms(1) obtain shoff shstrndx noff nsz where
    E: "E \<in> {ElfClass32, ElfClass64}" and b: "base \<noteq> null" "IsValidElf m base = Inr True" "ElfClass m base = Inr (kClass E)"
    and n: "ss \<noteq> []" "load m (p_add base (e_shnum E)) 2 = Inr (length ss)"
    and h: "load m (p_add base (e_shoff E)) (off_w E) = Inr shoff" "shoff \<noteq> 0" "p_add base shoff \<noteq> null"
      "load m (p_add base (e_shstrndx E)) 2 = Inr shstrndx"
      "load m (p_add (p_add (p_add base shoff) (shstrndx * sizeof_Shdr E)) (sh_offset E)) (off_w E) = Inr noff"
      "load m (p_add (p_add (p_add base shoff) (shstrndx * sizeof_Shdr E)) (sh_size E)) (off_w E) = Inr nsz"
    and secs: "\<forall>i < length ss. has_section E m (p_add base shoff) (p_add base noff) (p_add (p_add base noff) nsz) i (ss ! i)"
    unfolding elf_image_def by auto
  have cls: "assert_class E m base = Inr ()" using b by (simp add: assert_class_def ElfClass_def)
  have len: "my_strlen (name @ [0]) = Inr (length name)" using my_strlen_string [OF assms(3), of 0] by (simp add: my_strlen_def)
  have top: "FindElfSection m base (name @ [0]) ty =
      res_bind (FindElfClassSection E m base (name @ [0]) ty) (\<lambda>(p, n). Inr (p \<noteq> null, p, n))"
    using E b by (auto simp: FindElfSection_def ElfClass32_def ElfClass64_def)
  note first = find_section_first [of ss E m "p_add base shoff" "p_add base noff" "p_add (p_add base noff) nsz" 0 name ty, OF _ assms(3)]
  show ?thesis
  proof (cases "find (\<lambda>s. sec_type s = ty \<and> sec_name s = name) ss")
    case None
    then show ?thesis using first secs cls h n len assms(2)
      by (simp add: top FindElfClassSection_def FindElfSectionByName_def Let_def)
  next
    case (Some s)
    with first secs obtain j where j: "has_section E m (p_add base shoff) (p_add base noff) (p_add (p_add base noff) nsz) j s"
      "find_section E m (name @ [0]) (int (length name)) ty (p_add base shoff) (p_add base noff) (p_add (p_add base noff) nsz) (length ss) 0 =
        Inr (p_add (p_add base shoff) (j * sizeof_Shdr E))" by auto
    then show ?thesis using Some cls h n len assms(2)
      by (simp add: top FindElfClassSection_def FindElfSectionByName_def Let_def has_section_def)
  qed
qed

section \<open>Properties\<close>

text \<open>Sections are found by name: in an image of either class whose header, section table and name table lie inside
  the mapped memory, \<open>FindElfSection\<close> reads nothing outside it and returns start and size of the first
  section in table order with the given type and name; it answers \<open>false\<close> when there is none or the
  section is empty.\<close>

lemma elf_section_lookup:
  assumes "elf_image E m base ss" "name \<noteq> []" "0 \<notin> set name"
  shows "FindElfSection m base (name @ [0]) ty =
    Inr (case find (\<lambda>s. sec_type s = ty \<and> sec_name s = name) ss of
        None \<Rightarrow> (False, null, 0)
      | Some s \<Rightarrow> if sec_size s = 0 then (False, null, 0)
          else (p_add base (sec_off s) \<noteq> null, p_add base (sec_off s), sec_size s mod 4294967296))"
  using assms by (rule FindElfSection_image)

text \<open>A small 32-bit image with a section \<open>.text\<close> and the table of names.\<close>

definition demo_elf :: elf_mem where
  "demo_elf = \<lparr>mbase = 4096, mbytes =
     [0x7f, 0x45, 0x4c, 0x46, 1, 0, 0, 0, 0, 0, 0, 0, 0, 0, 0, 0, 0, 0, 0, 0, 0, 0, 0, 0, 0, 0, 0, 0, 0, 0, 0, 0,
      52, 0, 0, 0, 0, 0, 0, 0, 0, 0, 0, 0, 0, 0, 0, 0, 2, 0, 1, 0] @
     [1, 0, 0, 0, 1, 0, 0, 0, 0, 0, 0, 0, 0, 0, 0, 0, 4, 0, 0, 0, 8, 0, 0, 0, 0, 0, 0, 0, 0, 0, 0, 0, 0, 0, 0, 0, 0, 0, 0, 0] @
     [0, 0, 0, 0, 3, 0, 0, 0, 0, 0, 0, 0, 0, 0, 0, 0, 132, 0, 0, 0, 7, 0, 0, 0, 0, 0, 0, 0, 0, 0, 0, 0, 0, 0, 0, 0, 0, 0, 0, 0] @
     [0, 46, 116, 101, 120, 116, 0]\<rparr>"

lemmas elf_eval = load_def load_bytes_def p_add_def ptr_diff_def bytes_from_def ElfClass32_def demo_elf_def

lemma demo_elf_image:
  "elf_image ElfClass32 demo_elf 4096
     [\<lparr>sec_name = [46, 116, 101, 120, 116], sec_type = 1, sec_off = 4, sec_size = 8\<rparr>, \<lparr>sec_name = [], sec_type = 3, sec_off = 132, sec_size = 7\<rparr>]"
proof -
  obtain rest where "bytes_from demo_elf 4096 = 0x7f # 0x45 # 0x4c # 0x46 # rest" by (simp add: elf_eval)
  moreover have "4 = Suc (Suc (Suc (Suc 0)))" by simp
  ultimately have v: "IsValidElf demo_elf 4096 = Inr True"
    unfolding IsValidElf_def ELFMAG_def by (simp only: my_strncmp.simps) (simp add: c_char_def)
  have c: "ElfClass demo_elf 4096 = Inr 1" by (simp add: ElfClass_def elf_eval)
  have h: "load demo_elf 4128 4 = Inr 52" "load demo_elf 4144 2 = Inr 2" "load demo_elf 4146 2 = Inr 1"
    "load demo_elf 4204 4 = Inr 132" "load demo_elf 4208 4 = Inr 7" "load demo_elf 4148 4 = Inr 1" "load demo_elf 4152 4 = Inr 1"
    "load demo_elf 4164 4 = Inr 4" "load demo_elf 4168 4 = Inr 8" "load demo_elf 4188 4 = Inr 0" "load demo_elf 4192 4 = Inr 3"
    by (simp_all add: elf_eval)
  have n: "bytes_from demo_elf 4228 = [0, 46, 116, 101, 120, 116, 0]" "bytes_from demo_elf 4229 = [46, 116, 101, 120, 116, 0]"
    by (simp_all add: elf_eval)
  have "has_section ElfClass32 demo_elf 4148 4228 4235 0 \<lparr>sec_name = [46, 116, 101, 120, 116], sec_type = 1, sec_off = 4, sec_size = 8\<rparr>"
    using h n by (simp add: has_section_def c_string_at_def p_add_def ptr_diff_def ElfClass32_def Let_def)
  moreover have "has_section ElfClass32 demo_elf 4148 4228 4235 1 \<lparr>sec_name = [], sec_type = 3, sec_off = 132, sec_size = 7\<rparr>"
    using h n by (simp add: has_section_def c_string_at_def p_add_def ptr_diff_def ElfClass32_def Let_def)
  ultimately have secs: "\<forall>i < 2. has_section ElfClass32 demo_elf 4148 4228 4235 i ([\<lparr>sec_name = [46, 116, 101, 120, 116], sec_type = 1, sec_off = 4, sec_size = 8\<rparr>,
      \<lparr>sec_name = [], sec_type = 3, sec_off = 132, sec_size = 7\<rparr>] ! i)"
    by (metis less_2_cases nth_Cons_0 nth_Cons_Suc One_nat_def)
  have p: "p_add 4096 52 = 4148" "p_add 4096 132 = 4228" "p_add 4228 7 = 4235" "p_add 4148 40 = 4188" "p_add 4188 16 = 4204"
    "p_add 4188 20 = 4208" "p_add 4096 32 = 4128" "p_add 4096 48 = 4144" "p_add 4096 50 = 4146"
    by (simp_all add: p_add_def)
  have E: "e_shnum ElfClass32 = 48" "e_shoff ElfClass32 = 32" "e_shstrndx ElfClass32 = 50" "off_w ElfClass32 = 4"
    "sizeof_Shdr ElfClass32 = 40" "sh_offset ElfClass32 = 16" "sh_size ElfClass32 = 20" "kClass ElfClass32 = 1"
    by (simp_all add: ElfClass32_def)
  have "\<exists>shoff shstrndx noff nsz. load demo_elf 4128 4 = Inr shoff \<and> shoff \<noteq> 0 \<and> p_add 4096 shoff \<noteq> null \<and>
      load demo_elf 4146 2 = Inr shstrndx \<and>
      load demo_elf (p_add (p_add (p_add 4096 shoff) (shstrndx * 40)) 16) 4 = Inr noff \<and>
      load demo_elf (p_add (p_add (p_add 4096 shoff) (shstrndx * 40)) 20) 4 = Inr nsz \<and>
      (\<forall>i < 2. has_section ElfClass32 demo_elf (p_add 4096 shoff) (p_add 4096 noff) (p_add (p_add 4096 noff) nsz) i
        ([\<lparr>sec_name = [46, 116, 101, 120, 116], sec_type = 1, sec_off = 4, sec_size = 8\<rparr>, \<lparr>sec_name = [], sec_type = 3, sec_off = 132, sec_size = 7\<rparr>] ! i))"
    by (rule exI [of _ 52], rule exI [of _ 1], rule exI [of _ 132], rule exI [of _ 7]) (use secs in \<open>simp add: p h\<close>)
  moreover have "length [a, b] = 2" for a b :: elf_section by simp
  ultimately show ?thesis unfolding elf_image_def E p using h(2) v c by (simp only:) simp
qed

theorem elf_section_lookup_witness:
  "FindElfSection demo_elf 4096 ([46, 116, 101, 120, 116] @ [0]) 1 = Inr (True, 4100, 8)"
  using elf_section_lookup [OF demo_elf_image, of "[46, 116, 101, 120, 116]" 1] by (simp add: p_add_def)

end
