(* ===== verification/File_Id.thy ===== *)
theory File_Id
  imports Elf_Utils Memory_Range
begin

text \<open>
  The identity of a binary: \<open>breakpad/src/common/linux/file_id.cc\<close>. The build id is taken from a note, or else
  computed from the first page of the code; it is printed as a UUID.
\<close>

section \<open>Notes\<close>

text \<open>\<open>NOTE_PADDING\<close> in 32-bit arithmetic; a note header has three words.\<close>

definition pad4 :: "nat \<Rightarrow> nat" where
  "pad4 a = (a + 3) mod 4294967296 div 4 * 4"

text \<open>The loop over the notes up to one of type \<open>NT_GNU_BUILD_ID\<close>; \<open>None\<close>: it does not end.\<close>

partial_function (option) find_note :: "elf_mem \<Rightarrow> ptr \<Rightarrow> ptr \<Rightarrow> ptr res option" where
  "find_note m section_end nh =
     (if nh < section_end then
        (case load m (p_add nh 8) 4 of
           Inl e \<Rightarrow> Some (Inl e)
         | Inr n_type \<Rightarrow>
             (if n_type = 3 then Some (Inr nh)
              else (case load m nh 4 of
                      Inl e \<Rightarrow> Some (Inl e)
                    | Inr namesz \<Rightarrow>
                        (case load m (p_add nh 4) 4 of
                           Inl e \<Rightarrow> Some (Inl e)
                         | Inr descsz \<Rightarrow> find_note m section_end (p_add nh (12 + pad4 namesz + pad4 descsz))))))
      else Some (Inr nh))"

definition ElfClassBuildIDNoteIdentifier ::
    "elf_mem \<Rightarrow> ptr \<Rightarrow> nat \<Rightarrow> byte list \<Rightarrow> (bool \<times> byte list) res option" where
  "ElfClassBuildIDNoteIdentifier m sec len ident =
     (let section_end = p_add sec len in
      case find_note m section_end sec of
        None \<Rightarrow> None
      | Some (Inl e) \<Rightarrow> Some (Inl e)
      | Some (Inr nh) \<Rightarrow>
          Some (if nh \<ge> section_end then Inr (False, ident)
            else res_bind (load m (p_add nh 4) 4) (\<lambda>descsz.
              if descsz = 0 then Inr (False, ident)
              else res_bind (load m nh 4) (\<lambda>namesz.
                res_bind (load_bytes m (p_add nh (12 + pad4 namesz)) descsz) (\<lambda>bs.
                  Inr (True, ident @ bs))))))"

fun id_from_segments :: "elf_mem \<Rightarrow> (ptr \<times> nat) list \<Rightarrow> byte list \<Rightarrow> (bool \<times> byte list) res option" where
  "id_from_segments m [] ident = Some (Inr (False, ident))"
| "id_from_segments m ((p, n) # segs) ident =
     (case ElfClassBuildIDNoteIdentifier m p n ident of
        None \<Rightarrow> None
      | Some (Inl e) \<Rightarrow> Some (Inl e)
      | Some (Inr (found, i)) \<Rightarrow> if found then Some (Inr (True, i)) else id_from_segments m segs i)"

definition build_id_name :: block where
  "build_id_name = map of_char ''.note.gnu.build-id'' @ [0]"

text \<open>\<open>FindElfBuildIDNote\<close>: first the note segments, then the section.\<close>

definition FindElfBuildIDNote :: "elf_mem \<Rightarrow> ptr \<Rightarrow> byte list \<Rightarrow> (bool \<times> byte list) res option" where
  "FindElfBuildIDNote m base ident =
     (case FindElfSegments m base 4 of
        Inl e \<Rightarrow> Some (Inl e)
      | Inr (ok, segs) \<Rightarrow>
          (case (if ok then id_from_segments m segs ident else Some (Inr (False, ident))) of
             None \<Rightarrow> None
           | Some (Inl e) \<Rightarrow> Some (Inl e)
           | Some (Inr (found, i)) \<Rightarrow>
               (if found then Some (Inr (True, i))
                else (case FindElfSection m base build_id_name 7 of
                        Inl e \<Rightarrow> Some (Inl e)
                      | Inr (ok', p, n) \<Rightarrow>
                          (if ok' then ElfClassBuildIDNoteIdentifier m p n i else Some (Inr (False, i)))))))"

section \<open>The hash of the code\<close>

abbreviation (input) kMDGUIDSize :: nat where "kMDGUIDSize \<equiv> 16"

definition resize :: "nat \<Rightarrow> byte list \<Rightarrow> byte list" where
  "resize n v = take n v @ replicate (n - length v) 0"

text \<open>The loop \<open>while (ptr < ptr_end)\<close>: sixteen bytes are read whatever is left.\<close>

partial_function (option) hash_loop :: "elf_mem \<Rightarrow> ptr \<Rightarrow> ptr \<Rightarrow> byte list \<Rightarrow> byte list res option" where
  "hash_loop m p ptr_end ident =
     (if p < ptr_end then
        (case load_bytes m p kMDGUIDSize of
           Inl e \<Rightarrow> Some (Inl e)
         | Inr bs \<Rightarrow> hash_loop m (p_add p kMDGUIDSize) ptr_end (map2 Bit_Operations.xor ident bs))
      else Some (Inr ident))"

definition text_name :: block where
  "text_name = map of_char ''.text'' @ [0]"

definition HashElfTextSection :: "elf_mem \<Rightarrow> ptr \<Rightarrow> byte list \<Rightarrow> (bool \<times> byte list) res option" where
  "HashElfTextSection m base ident =
     (case FindElfSection m base text_name 1 of
        Inl e \<Rightarrow> Some (Inl e)
      | Inr (ok, p, n) \<Rightarrow>
          (if \<not> ok \<or> n = 0 then Some (Inr (False, resize kMDGUIDSize ident))
           else (case hash_loop m p (p_add p (min n 4096)) (replicate kMDGUIDSize 0) of
                   None \<Rightarrow> None
                 | Some (Inl e) \<Rightarrow> Some (Inl e)
                 | Some (Inr i) \<Rightarrow> Some (Inr (True, i)))))"

definition ElfFileIdentifierFromMappedFile :: "elf_mem \<Rightarrow> ptr \<Rightarrow> byte list \<Rightarrow> (bool \<times> byte list) res option" where
  "ElfFileIdentifierFromMappedFile m base ident =
     (case FindElfBuildIDNote m base ident of
        None \<Rightarrow> None
      | Some (Inl e) \<Rightarrow> Some (Inl e)
      | Some (Inr (found, i)) \<Rightarrow> if found then Some (Inr (True, i)) else HashElfTextSection m base i)"

text \<open>\<open>ElfFileIdentifier\<close>: the file is mapped, \<open>content\<close> is what the mapping shows, and unmapped again.\<close>

definition ElfFileIdentifier ::
    "mm_call ext \<Rightarrow> string \<Rightarrow> block \<Rightarrow> byte list \<Rightarrow> mm_call list \<Rightarrow> (bool \<times> byte list \<times> mm_call list) res option" where
  "ElfFileIdentifier x path content ident h =
     (case MemoryMappedFile_ctor x path 0 (MemoryRange_ctor, h) of
        Inl e \<Rightarrow> Some (Inl e)
      | Inr (_, c, h1) \<Rightarrow>
          (case (if mr_data c = null then Some (Inr (False, ident))
                 else ElfFileIdentifierFromMappedFile \<lparr>mbase = mr_data c, mbytes = content\<rparr> (mr_data c) ident) of
             None \<Rightarrow> None
           | Some (Inl e) \<Rightarrow> Some (Inl e)
           | Some (Inr (ok, i)) \<Rightarrow>
               (case MemoryMappedFile_dtor x (c, h1) of
                  Inl e \<Rightarrow> Some (Inl e)
                | Inr (_, _, h2) \<Rightarrow> Some (Inr (ok, i, h2)))))"

section \<open>Printing\<close>

text \<open>\<open>%02X\<close>.\<close>

definition upper_digit :: "nat \<Rightarrow> char" where
  "upper_digit d = (if d < 10 then char_of (48 + d) else char_of (55 + d))"

definition hex_byte :: "byte \<Rightarrow> string" where
  "hex_byte b = [upper_digit (unat b div 16), upper_digit (unat b mod 16)]"

definition bytes_to_hex_string :: "byte list \<Rightarrow> string" where
  "bytes_to_hex_string bs = concat (map hex_byte bs)"

text \<open>\<open>htonl\<close> and \<open>htons\<close> on the bytes at an offset.\<close>

definition swap_at :: "nat \<Rightarrow> nat \<Rightarrow> byte list \<Rightarrow> byte list" where
  "swap_at i n s = take i s @ rev (take n (drop i s)) @ drop (i + n) s"

definition ConvertIdentifierToUUIDString :: "byte list \<Rightarrow> string" where
  "ConvertIdentifierToUUIDString ident =
     (let s = resize kMDGUIDSize ident in
      bytes_to_hex_string (swap_at 6 2 (swap_at 4 2 (swap_at 0 4 s))))"

definition ConvertIdentifierToString :: "byte list \<Rightarrow> string" where
  "ConvertIdentifierToString ident = bytes_to_hex_string ident"

section \<open>Reading encoded notes\<close>

text \<open>A note: name, description and type; both texts are padded to words.\<close>

type_synonym elf_note = "byte list \<times> byte list \<times> nat"

definition padded :: "byte list \<Rightarrow> byte list" where
  "padded bs = bs @ replicate (pad4 (length bs) - length bs) 0"

definition note_bytes :: "elf_note \<Rightarrow> byte list" where
  "note_bytes = (\<lambda>(nm, d, ty). le_bytes 4 (length nm) @ le_bytes 4 (length d) @ le_bytes 4 ty @ padded nm @ padded d)"

definition note_ok :: "elf_note \<Rightarrow> bool" where
  "note_ok = (\<lambda>(nm, d, ty). length nm + 4 < 4294967296 \<and> length d + 4 < 4294967296 \<and> ty < 4294967296)"

lemma pad4_ge: "n + 4 < 4294967296 \<Longrightarrow> n \<le> pad4 n"
proof -
  assume "n + 4 < 4294967296"
  then have "pad4 n = (n + 3) div 4 * 4" by (simp add: pad4_def)
  then show ?thesis using div_mult_mod_eq [of "n + 3" 4] mod_less_divisor [of 4 "n + 3"] by linarith
qed

lemma padded_length: "length bs + 4 < 4294967296 \<Longrightarrow> length (padded bs) = pad4 (length bs)"
  using pad4_ge by (simp add: padded_def)

text \<open>The image holds \<open>xs\<close> behind \<open>pre\<close> and lies inside the address space.\<close>

definition holds_at :: "elf_mem \<Rightarrow> byte list \<Rightarrow> byte list \<Rightarrow> bool" where
  "holds_at m pre xs \<longleftrightarrow> (\<exists>post. mbytes m = pre @ xs @ post) \<and> mbase m + length (mbytes m) < 4294967296"

lemma load_bytes_at: "holds_at m pre (xs @ ys) \<Longrightarrow> load_bytes m (mbase m + length pre) (length xs) = Inr xs"
  by (auto simp: holds_at_def load_bytes_def)

lemma holds_at_skip: "holds_at m pre (xs @ ys) \<Longrightarrow> holds_at m (pre @ xs) ys"
  by (auto simp: holds_at_def)

lemma p_add_at: "holds_at m pre (xs @ ys) \<Longrightarrow> p_add (mbase m + length pre) (length xs) = mbase m + length (pre @ xs)"
  by (auto simp: holds_at_def p_add_def)

text \<open>The fields of a note at a position, and the position of the next one.\<close>

lemma note_fields:
  assumes "holds_at m pre (note_bytes (nm, d, ty) @ ys)" "note_ok (nm, d, ty)"
  defines "p \<equiv> mbase m + length pre"
  shows "load m p 4 = Inr (length nm)" "load m (p_add p 4) 4 = Inr (length d)" "load m (p_add p 8) 4 = Inr ty"
    "load_bytes m (p_add p (12 + pad4 (length nm))) (length d) = Inr d"
    "p_add p (12 + pad4 (length nm) + pad4 (length d)) = mbase m + length (pre @ note_bytes (nm, d, ty))"
proof -
  let ?a = "le_bytes 4 (length nm)" and ?b = "le_bytes 4 (length d)" and ?c = "le_bytes 4 ty"
  have ok: "length nm < 4294967296" "length d < 4294967296" "ty < 4294967296"
    "length (padded nm) = pad4 (length nm)" "length (padded d) = pad4 (length d)"
    using assms(2) by (auto simp: note_ok_def padded_length)
  have h0: "holds_at m pre (?a @ ?b @ ?c @ padded nm @ padded d @ ys)" using assms(1) by (simp add: note_bytes_def)
  note h1 = holds_at_skip [OF h0] and h2 = holds_at_skip [OF holds_at_skip [OF h0]]
  have q: "p_add p 4 = mbase m + length (pre @ ?a)" "p_add p 8 = mbase m + length (pre @ ?a @ ?b)"
    using p_add_at [OF h0] p_add_at [of m pre "?a @ ?b"] h0 by (simp_all add: p_def)
  show "load m p 4 = Inr (length nm)" using load_bytes_at [OF h0] ok(1) by (simp add: load_def p_def)
  show "load m (p_add p 4) 4 = Inr (length d)" using load_bytes_at [OF h1] ok(2) by (simp add: load_def q)
  show "load m (p_add p 8) 4 = Inr ty" using load_bytes_at [OF h2] ok(3) by (simp add: load_def q)
  let ?h = "?a @ ?b @ ?c @ padded nm"
  have hd: "holds_at m pre (?h @ padded d @ ys)" using h0 by simp
  have "p_add p (12 + pad4 (length nm)) = mbase m + length (pre @ ?h)"
    using p_add_at [OF hd] by (simp add: p_def ok(4) [symmetric])
  moreover have "holds_at m (pre @ ?h) (d @ replicate (pad4 (length d) - length d) 0 @ ys)"
    using holds_at_skip [OF hd] by (simp add: padded_def)
  ultimately show "load_bytes m (p_add p (12 + pad4 (length nm))) (length d) = Inr d"
    using load_bytes_at [of m "pre @ ?h" d] by simp
  show "p_add p (12 + pad4 (length nm) + pad4 (length d)) = mbase m + length (pre @ note_bytes (nm, d, ty))"
    using p_add_at [OF assms(1)] ok(4,5) by (simp add: note_bytes_def p_def ac_simps)
qed

lemma note_bytes_nonempty: "0 < length (note_bytes n)"
  by (cases n) (simp add: note_bytes_def)

text \<open>The loop stops at the first note with the type, or at the end.\<close>

lemma find_note_notes:
  assumes "holds_at m pre (concat (map note_bytes ns))" "\<forall>n \<in> set ns. note_ok n"
    and "e = mbase m + length pre + length (concat (map note_bytes ns))"
  shows "case find (\<lambda>(nm, d, ty). ty = 3) ns of
      None \<Rightarrow> find_note m e (mbase m + length pre) = Some (Inr e)
    | Some n \<Rightarrow> \<exists>pre' ys. find_note m e (mbase m + length pre) = Some (Inr (mbase m + length pre')) \<and>
        mbase m + length pre' < e \<and> holds_at m pre' (note_bytes n @ ys)"
  using assms
proof (induction ns arbitrary: pre)
  case Nil
  then show ?case by (simp add: find_note.simps)
next
  case (Cons n ns)
  obtain nm d ty where n: "n = (nm, d, ty)" by (cases n)
  have h: "holds_at m pre (note_bytes (nm, d, ty) @ concat (map note_bytes ns))" using Cons.prems(1) n by simp
  have ok: "note_ok (nm, d, ty)" using Cons.prems(2) n by simp
  note F = note_fields [OF h ok]
  have lt: "mbase m + length pre < e" using Cons.prems(3) note_bytes_nonempty [of n] by simp
  show ?case
  proof (cases "ty = 3")
    case True
    then have "find_note m e (mbase m + length pre) = Some (Inr (mbase m + length pre))"
      using lt F(3) by (simp add: find_note.simps)
    then show ?thesis using True n lt h by auto
  next
    case False
    let ?p = "pre @ note_bytes (nm, d, ty)"
    have run: "find_note m e (mbase m + length pre) = find_note m e (mbase m + length ?p)"
      using lt F(1,2,3,5) False by (subst find_note.simps) simp
    have IH: "case find (\<lambda>(nm, d, ty). ty = 3) ns of
        None \<Rightarrow> find_note m e (mbase m + length ?p) = Some (Inr e)
      | Some n \<Rightarrow> \<exists>pre' ys. find_note m e (mbase m + length ?p) = Some (Inr (mbase m + length pre')) \<and>
          mbase m + length pre' < e \<and> holds_at m pre' (note_bytes n @ ys)"
      using Cons.IH [OF holds_at_skip [OF h]] Cons.prems(2,3) n by simp
    have rest: "find (\<lambda>(nm, d, ty). ty = 3) (n # ns) = find (\<lambda>(nm, d, ty). ty = 3) ns" using False n by simp
    show ?thesis unfolding run rest by (rule IH)
  qed
qed

section \<open>The hash\<close>

lemma hash_loop_chunks:
  assumes "holds_at m pre (concat cs)" "\<forall>c \<in> set cs. length c = 16" "length ident = 16"
    and "e = mbase m + length pre + n" "16 * length cs < n + 16" "n \<le> 16 * length cs"
  shows "\<exists>i. hash_loop m (mbase m + length pre) e ident = Some (Inr i) \<and> length i = 16 \<and>
    (\<forall>j < 16. i ! j = foldl Bit_Operations.xor (ident ! j) (map (\<lambda>c. c ! j) cs))"
  using assms
proof (induction cs arbitrary: pre ident n)
  case Nil
  then show ?case by (simp add: hash_loop.simps)
next
  case (Cons c cs)
  have h: "holds_at m pre (c @ concat cs)" "length c = 16" using Cons.prems(1,2) by simp_all
  have ld: "load_bytes m (mbase m + length pre) 16 = Inr c" using load_bytes_at [OF h(1)] h(2) by simp
  have nx: "p_add (mbase m + length pre) 16 = mbase m + length (pre @ c)" using p_add_at [OF h(1)] h(2) by simp
  let ?id = "map2 Bit_Operations.xor ident c"
  have lt: "mbase m + length pre < e" using Cons.prems(4,5) by simp
  have run: "hash_loop m (mbase m + length pre) e ident = hash_loop m (mbase m + length (pre @ c)) e ?id"
    using lt ld nx by (subst hash_loop.simps) simp
  show ?case
  proof (cases cs)
    case Nil
    then have "\<not> mbase m + length (pre @ c) < e" using Cons.prems(4,6) h(2) by simp
    then have "hash_loop m (mbase m + length (pre @ c)) e ?id = Some (Inr ?id)" by (simp add: hash_loop.simps)
    then show ?thesis using run Nil h(2) Cons.prems(3) by simp
  next
    case (Cons c' cs')
    then have n: "16 < n" using Cons.prems(5) by simp
    have "\<exists>i. hash_loop m (mbase m + length (pre @ c)) e ?id = Some (Inr i) \<and> length i = 16 \<and>
        (\<forall>j < 16. i ! j = foldl Bit_Operations.xor (?id ! j) (map (\<lambda>c. c ! j) cs))"
      using Cons.prems h n by (intro Cons.IH [OF holds_at_skip [OF h(1)], where n = "n - 16"]) auto
    then show ?thesis using run h(2) Cons.prems(3) by simp
  qed
qed

section \<open>Properties\<close>

text \<open>C39: The build id is found: for every list of notes encoded one after the other in an ELF image, wherever it lies in the
  address space, the loop over the notes ends, reads only the notes, and returns the description of the
  first note of type \<open>NT_GNU_BUILD_ID\<close>, appended to the identifier; it answers \<open>false\<close> when there is no
  such note or its description is empty.\<close>

theorem build_id_note_read:
  assumes "holds_at m pre (concat (map note_bytes ns))" "\<forall>n \<in> set ns. note_ok n"
  shows "ElfClassBuildIDNoteIdentifier m (mbase m + length pre) (length (concat (map note_bytes ns))) ident =
    Some (Inr (case find (\<lambda>(nm, d, ty). ty = 3) ns of
        None \<Rightarrow> (False, ident)
      | Some (nm, d, ty) \<Rightarrow> (d \<noteq> [], ident @ d)))"
proof -
  let ?xs = "concat (map note_bytes ns)"
  let ?e = "mbase m + length pre + length ?xs"
  have e: "p_add (mbase m + length pre) (length ?xs) = ?e" using p_add_at [of m pre ?xs "[]"] assms(1) by simp
  note F = find_note_notes [OF assms refl]
  show ?thesis
  proof (cases "find (\<lambda>(nm, d, ty). ty = 3) ns")
    case None
    then show ?thesis using F e by (simp add: ElfClassBuildIDNoteIdentifier_def Let_def)
  next
    case (Some n)
    obtain nm d ty where n: "n = (nm, d, ty)" by (cases n)
    have "n \<in> set ns" using Some by (metis find_Some_iff nth_mem)
    then have ok: "note_ok (nm, d, ty)" using assms(2) n by auto
    from F Some obtain pre' ys where p: "find_note m ?e (mbase m + length pre) = Some (Inr (mbase m + length pre'))"
      "mbase m + length pre' < ?e" "holds_at m pre' (note_bytes (nm, d, ty) @ ys)" using n by auto
    note G = note_fields [OF p(3) ok]
    show ?thesis using p(1,2) G(1,2,4) Some n e by (simp add: ElfClassBuildIDNoteIdentifier_def Let_def)
  qed
qed

theorem build_id_note_read_witness:
  "ElfClassBuildIDNoteIdentifier \<lparr>mbase = 4096, mbytes = note_bytes ([65], [1, 2], 1) @ note_bytes ([71, 78, 85, 0], [7, 8, 9], 3)\<rparr>
     4096 (length (note_bytes ([65], [1, 2], 1) @ note_bytes ([71, 78, 85, 0], [7, 8, 9], 3))) [] = Some (Inr (True, [7, 8, 9]))"
proof -
  let ?ns = "[([65], [1, 2], 1), ([71, 78, 85, 0], [7, 8, 9], 3)] :: elf_note list"
  let ?m = "\<lparr>mbase = 4096, mbytes = concat (map note_bytes ?ns)\<rparr>"
  have "length (concat (map note_bytes ?ns)) < 100" by (simp add: note_bytes_def padded_def pad4_def)
  then have "holds_at ?m [] (concat (map note_bytes ?ns))" by (simp add: holds_at_def)
  moreover have "\<forall>n \<in> set ?ns. note_ok n" by (simp add: note_ok_def)
  ultimately show ?thesis using build_id_note_read [of ?m "[]" ?ns "[]"] by simp
qed

text \<open>The hash of the code is the one documented: when the first section \<open>.text\<close> starts with the 16-byte pieces \<open>cs\<close>,
  as many as cover its first page, \<open>HashElfTextSection\<close> returns 16 bytes, each the exclusive or of the
  bytes at its position in the pieces, whatever the identifier held before.\<close>

lemma text_hash_is_xor:
  assumes "FindElfSection m base text_name 1 = Inr (True, mbase m + length pre, n)"
    and "holds_at m pre (concat cs)" "\<forall>c \<in> set cs. length c = 16"
    and "0 < n" "16 * length cs < min n 4096 + 16" "min n 4096 \<le> 16 * length cs"
  shows "\<exists>i. HashElfTextSection m base ident = Some (Inr (True, i)) \<and> length i = 16 \<and>
    (\<forall>j < 16. i ! j = foldl Bit_Operations.xor 0 (map (\<lambda>c. c ! j) cs))"
proof -
  have "length (concat cs) = 16 * length cs" using assms(3) by (induction cs) auto
  then have e: "p_add (mbase m + length pre) (min n 4096) = mbase m + length pre + min n 4096"
    using assms(2,6) by (auto simp: holds_at_def p_add_def)
  have "\<exists>i. hash_loop m (mbase m + length pre) (mbase m + length pre + min n 4096) (replicate 16 0) = Some (Inr i) \<and> length i = 16 \<and>
      (\<forall>j < 16. i ! j = foldl Bit_Operations.xor (replicate 16 0 ! j) (map (\<lambda>c. c ! j) cs))"
    by (rule hash_loop_chunks [OF assms(2,3) _ refl assms(5,6)]) simp
  then show ?thesis using assms(1,4) e by (auto simp: HashElfTextSection_def)
qed

lemma text_hash_is_xor_witness:
  "\<exists>i. HashElfTextSection demo_elf 4096 [5] = Some (Inr (True, i)) \<and> i ! 0 = 1 \<and> i ! 1 = 0 \<and> length i = 16"
proof -
  have name: "text_name = [46, 116, 101, 120, 116] @ [0]" by (simp add: text_name_def)
  have "FindElfSection demo_elf 4096 text_name 1 = Inr (True, mbase demo_elf + length [0x7f, 0x45, 0x4c, 0x46 :: byte], 8)"
    unfolding name using FindElfSection_image [OF demo_elf_image, of "[46, 116, 101, 120, 116]" 1]
    by (simp add: p_add_def demo_elf_def)
  moreover have "holds_at demo_elf [0x7f, 0x45, 0x4c, 0x46] (concat [[1, 0, 0, 0, 0, 0, 0, 0, 0, 0, 0, 0, 0, 0, 0, 0]])"
    by (simp add: holds_at_def demo_elf_def)
  ultimately show ?thesis using text_hash_is_xor [of demo_elf 4096 _ 8 "[[1, 0, 0, 0, 0, 0, 0, 0, 0, 0, 0, 0, 0, 0, 0, 0]]" "[5]"]
    by fastforce
qed

text \<open>
  The hash reads past the end of a section whose size is not a multiple of 16: here one byte of code at
  the end of the mapped file.
\<close>

lemma text_hash_overreads:
  "hash_loop \<lparr>mbase = 4096, mbytes = [195]\<rparr> 4096 4097 (replicate 16 0) = Some (Inl OutOfBounds)"
  by (simp add: hash_loop.simps load_bytes_def)

text \<open>
  The sizes in a note header are not checked: with a name size of \<open>2\<^sup>3\<^sup>2 - 12\<close> the address of the next
  note wraps around to the same note, and the crash handler never returns.
\<close>

lemma malformed_note_loops:
  assumes "load m p 4 = Inr 4294967284" "load m (p_add p 4) 4 = Inr 0" "load m (p_add p 8) 4 = Inr 1"
    and "p < e" "e < 4294967296"
  shows "find_note m e p = None"
proof (cases "find_note m e p")
  case (Some r)
  have "\<not> (m' = m \<and> e' = e \<and> q = p)" if "find_note m' e' q = Some r" for m' e' q
  proof (rule find_note.raw_induct [OF _ that])
    fix f m' e' q r
    assume IH: "\<And>m' e' q r. f m' e' q = Some r \<Longrightarrow> \<not> (m' = m \<and> e' = e \<and> q = p)"
      and r: "(if q < e' then
        (case load m' (p_add q 8) 4 of
           Inl e \<Rightarrow> Some (Inl e)
         | Inr n_type \<Rightarrow>
             (if n_type = 3 then Some (Inr q)
              else (case load m' q 4 of
                      Inl e \<Rightarrow> Some (Inl e)
                    | Inr namesz \<Rightarrow>
                        (case load m' (p_add q 4) 4 of
                           Inl e \<Rightarrow> Some (Inl e)
                         | Inr descsz \<Rightarrow> f m' e' (p_add q (12 + pad4 namesz + pad4 descsz))))))
        else Some (Inr q)) = Some r"
    show "\<not> (m' = m \<and> e' = e \<and> q = p)"
    proof
      assume eq: "m' = m \<and> e' = e \<and> q = p"
      have "p_add p (12 + pad4 4294967284 + pad4 0) = p" using assms(4,5) by (simp add: p_add_def pad4_def)
      with r eq assms have "f m e p = Some r" by simp
      with IH show False by blast
    qed
  qed
  with Some show ?thesis by blast
qed

text \<open>The UUID is the identifier read as a little-endian GUID, printed field by field in big-endian order.\<close>

lemma uuid_string_fields:
  assumes "length ident = 16"
  shows "ConvertIdentifierToUUIDString ident =
    concat (map hex_byte ([ident ! 3, ident ! 2, ident ! 1, ident ! 0] @ [ident ! 5, ident ! 4] @ [ident ! 7, ident ! 6] @ drop 8 ident))"
  using assms
  by (auto simp: ConvertIdentifierToUUIDString_def bytes_to_hex_string_def resize_def swap_at_def Let_def
      numeral_eq_Suc length_Suc_conv)

end
