(* ===== verification/Module_Names.thy ===== *)
theory Module_Names
  imports Process_Maps File_Id
begin

text \<open>
  Names, paths and identifiers of modules
  (\<open>breakpad/src/client/linux/minidump_writer/linux_dumper.cc\<close>): the path of a mapping under the root
  prefix, executables that were deleted while they run, the name a module is reported under, and the
  identifier of its file. The mapped file is a parameter of the definitions that open it.
\<close>

section \<open>Definitions\<close>

abbreviation (input) PATH_MAX :: nat where "PATH_MAX \<equiv> 4096"

text \<open>\<open>/dev/\<close> and \<open> (deleted)\<close> with their terminator.\<close>

definition kMappedFileUnsafePrefix :: block where
  "kMappedFileUnsafePrefix = [47, 100, 101, 118, 47, 0]"

definition kDeletedSuffix :: block where
  "kDeletedSuffix = [32, 40, 100, 101, 108, 101, 116, 101, 100, 41, 0]"

definition IsMappedFileOpenUnsafe :: "MappingInfo \<Rightarrow> bool res" where
  "IsMappedFileOpenUnsafe m = res_bind (my_strncmp False (m_name m) kMappedFileUnsafePrefix 5) (\<lambda>c. Inr (c = 0))"

definition GetMappingAbsolutePath :: "block \<Rightarrow> block \<Rightarrow> block \<Rightarrow> (bool \<times> block) res" where
  "GetMappingAbsolutePath root name path =
     res_bind (my_strlcpy 0 path root PATH_MAX) (\<lambda>(path, n).
     if n < PATH_MAX then res_bind (my_strlcat path name PATH_MAX) (\<lambda>(path, n). Inr (n < PATH_MAX, path))
     else Inr (False, path))"

text \<open>The string in a buffer.\<close>

definition cstr :: "block \<Rightarrow> byte list" where
  "cstr b = takeWhile (\<lambda>c. c \<noteq> 0) b"

text \<open>
  A file mapped for the extent of a block: \<open>content\<close> is what the mapping shows, \<open>use\<close> the work done with
  the mapped file when it has at least \<open>SELFMAG\<close> bytes. The destructor unmaps it in every case.
\<close>

definition with_mapped_file ::
    "mm_call ext \<Rightarrow> block \<Rightarrow> addr \<Rightarrow> block \<Rightarrow> (elf_mem \<Rightarrow> (bool \<times> byte list) res option) \<Rightarrow> byte list \<Rightarrow> mm_call list \<Rightarrow>
     ((bool \<times> byte list) \<times> mm_call list) res option" where
  "with_mapped_file x filename offset content use out h =
     (case MemoryMappedFile_ctor x (map (\<lambda>c. char_of (unat c)) (cstr filename)) offset (MemoryRange_ctor, h) of
        Inl e \<Rightarrow> Some (Inl e)
      | Inr (_, c, h1) \<Rightarrow>
          (case (if mr_data c = null \<or> mr_length c < 4 then Some (Inr (False, out)) else use \<lparr>mbase = mr_data c, mbytes = content\<rparr>) of
             None \<Rightarrow> None
           | Some (Inl e) \<Rightarrow> Some (Inl e)
           | Some (Inr r) \<Rightarrow> (case MemoryMappedFile_dtor x (c, h1) of Inl e \<Rightarrow> Some (Inl e) | Inr (_, _, h2) \<Rightarrow> Some (Inr (r, h2)))))"

definition ElfFileSoName ::
    "mm_call ext \<Rightarrow> block \<Rightarrow> block \<Rightarrow> block \<Rightarrow> MappingInfo \<Rightarrow> block \<Rightarrow> nat \<Rightarrow> mm_call list \<Rightarrow> ((bool \<times> block) \<times> mm_call list) res option" where
  "ElfFileSoName x content root junk m soname soname_size h =
     (case IsMappedFileOpenUnsafe m of
        Inl e \<Rightarrow> Some (Inl e)
      | Inr unsafe \<Rightarrow>
          if unsafe then Some (Inr ((False, soname), h))
          else (case GetMappingAbsolutePath root (m_name m) junk of
              Inl e \<Rightarrow> Some (Inl e)
            | Inr (ok, filename) \<Rightarrow>
                if \<not> ok then Some (Inr ((False, soname), h))
                else with_mapped_file x filename (m_offset m) content
                       (\<lambda>M. Some (ElfFileSoNameFromMappedFile M (mbase M) soname soname_size)) soname h))"

text \<open>
  The path and the name a module is reported under, given what \<open>ElfFileSoName\<close> answered: its result and
  the buffer \<open>file_name\<close>.
\<close>

definition effective_name :: "MappingInfo \<Rightarrow> block \<Rightarrow> nat \<Rightarrow> bool \<Rightarrow> block \<Rightarrow> nat \<Rightarrow> (block \<times> block) res" where
  "effective_name m file_path file_path_size found file_name file_name_size =
     (if \<not> found then
        res_bind (my_strrchr file_path 47) (\<lambda>basename.
        res_bind (my_strlcpy 0 file_name (drop (case basename of None \<Rightarrow> 0 | Some k \<Rightarrow> k + 1) file_path) file_name_size) (\<lambda>(file_name, _).
          Inr (file_path, file_name)))
      else if m_exec m \<and> m_offset m \<noteq> 0 then
        res_bind (my_strlen file_path) (\<lambda>p. res_bind (my_strlen file_name) (\<lambda>n.
        if p + 1 + n < file_path_size then
          res_bind (my_strlcat file_path [47, 0] file_path_size) (\<lambda>(file_path, _).
          res_bind (my_strlcat file_path file_name file_path_size) (\<lambda>(file_path, _). Inr (file_path, file_name)))
        else Inr (file_path, file_name)))
      else
        res_bind (my_strrchr file_path 47) (\<lambda>basename.
        case basename of
          Some k \<Rightarrow>
            res_bind (my_strlen file_path) (\<lambda>p. res_bind (my_strlen (drop (k + 1) file_path)) (\<lambda>b.
            res_bind (my_strlcpy (k + 1) file_path file_name (file_path_size - p + b)) (\<lambda>(file_path, _). Inr (file_path, file_name))))
        | None \<Rightarrow> res_bind (my_strlcpy 0 file_path file_name file_path_size) (\<lambda>(file_path, _). Inr (file_path, file_name))))"

definition GetMappingEffectiveNameAndPath ::
    "mm_call ext \<Rightarrow> block \<Rightarrow> block \<Rightarrow> block \<Rightarrow> MappingInfo \<Rightarrow> block \<Rightarrow> nat \<Rightarrow> block \<Rightarrow> nat \<Rightarrow> mm_call list \<Rightarrow>
     ((block \<times> block) \<times> mm_call list) res option" where
  "GetMappingEffectiveNameAndPath x content root junk m file_path file_path_size file_name file_name_size h =
     (case my_strlcpy 0 file_path (m_name m) file_path_size of
        Inl e \<Rightarrow> Some (Inl e)
      | Inr (file_path, _) \<Rightarrow>
          (case ElfFileSoName x content root junk m file_name file_name_size h of
             None \<Rightarrow> None
           | Some (Inl e) \<Rightarrow> Some (Inl e)
           | Some (Inr ((found, file_name), h')) \<Rightarrow>
               Some (res_bind (effective_name m file_path file_path_size found file_name file_name_size) (\<lambda>r. Inr (r, h')))))"

text \<open>
  \<open>HandleDeletedFileInMapping\<close>: \<open>link\<close> is the answer of \<open>readlink\<close> for \<open>/proc/pid/exe\<close>, \<open>stat1 p\<close> device and inode
  of a path (\<open>None\<close>: \<open>stat\<close> fails), \<open>junk\<close> the uninitialised local arrays.
\<close>

definition HandleDeletedFileInMapping ::
    "int \<Rightarrow> block \<Rightarrow> byte list option \<Rightarrow> (byte list \<Rightarrow> (nat \<times> nat) option) \<Rightarrow> block \<Rightarrow> block \<Rightarrow> block \<Rightarrow> (bool \<times> block) res" where
  "HandleDeletedFileInMapping pid root link stat1 junk junk' path =
     res_bind (my_strlen path) (\<lambda>path_len.
     if path_len < 10 + 2 then Inr (False, path)
     else res_bind (my_strncmp False (drop (path_len - 10) path) kDeletedSuffix 10) (\<lambda>c.
       if c \<noteq> 0 then Inr (False, path)
       else res_bind (BuildProcPath (Some junk) pid (Some [101, 120, 101, 0])) (\<lambda>(ok, exe_link).
         if \<not> ok then Inr (False, path)
         else res_bind (SafeReadLink link (replicate NAME_MAX 0)) (\<lambda>(ok, name).
           if \<not> ok then Inr (False, path)
           else res_bind (GetMappingAbsolutePath root name junk') (\<lambda>(ok, new_path).
             if \<not> ok then Inr (False, path)
             else res_bind (my_strcmp False path new_path) (\<lambda>d.
               if d \<noteq> 0 then Inr (False, path)
               else if stat1 (cstr (the exe_link)) \<noteq> None \<and> stat1 (cstr new_path) \<noteq> None \<and> stat1 (cstr (the exe_link)) = stat1 (cstr new_path)
               then Inr (False, path)
               else res_bind (mem_copy path 0 (the exe_link) 0 (int NAME_MAX)) (\<lambda>path. Inr (True, path))))))))"

text \<open>
  \<open>ElfFileIdentifierForMapping\<close>: \<open>gate\<close> is the memory of the process at \<open>linux-gate.so\<close>, read directly or copied
  with \<open>CopyFromProcess\<close>. The result comes with the mappings, one of which may lose its suffix.
\<close>

definition strip_deleted :: "nat \<Rightarrow> MappingInfo \<Rightarrow> MappingInfo list \<Rightarrow> MappingInfo list res" where
  "strip_deleted mapping_id m ms =
     res_bind (my_strlen (m_name m)) (\<lambda>n.
     let k = int n - 11 + 1; nm = m_name (ms ! mapping_id) in
     if k < 0 \<or> int (length nm) \<le> k then Inl OutOfBounds
     else Inr (ms[mapping_id := (ms ! mapping_id)\<lparr>m_name := nm[nat k := 0]\<rparr>]))"

definition ElfFileIdentifierForMapping ::
    "mm_call ext \<Rightarrow> block \<Rightarrow> (block \<Rightarrow> (bool \<times> block) res) \<Rightarrow> block \<Rightarrow> elf_mem \<Rightarrow> block \<Rightarrow> MappingInfo \<Rightarrow> bool \<Rightarrow> nat \<Rightarrow>
     byte list \<Rightarrow> MappingInfo list \<Rightarrow> mm_call list \<Rightarrow> ((bool \<times> byte list) \<times> MappingInfo list \<times> mm_call list) res option" where
  "ElfFileIdentifierForMapping x content deleted root gate junk m member mapping_id ident ms h =
     (if member \<and> \<not> mapping_id < length ms then Some (Inl AssertFail)
      else
        (case IsMappedFileOpenUnsafe m of
           Inl e \<Rightarrow> Some (Inl e)
         | Inr True \<Rightarrow> Some (Inr ((False, ident), ms, h))
         | Inr False \<Rightarrow>
        (case my_strcmp False (m_name m) kLinuxGateLibraryName of
           Inl e \<Rightarrow> Some (Inl e)
         | Inr g \<Rightarrow>
             if g = 0 then
               (case ElfFileIdentifierFromMappedFile gate (mbase gate) ident of
                  None \<Rightarrow> None | Some (Inl e) \<Rightarrow> Some (Inl e) | Some (Inr r) \<Rightarrow> Some (Inr (r, ms, h)))
             else
        (case GetMappingAbsolutePath root (m_name m) junk of
           Inl e \<Rightarrow> Some (Inl e)
         | Inr (False, _) \<Rightarrow> Some (Inr ((False, ident), ms, h))
         | Inr (True, filename) \<Rightarrow>
        (case deleted filename of
           Inl e \<Rightarrow> Some (Inl e)
         | Inr (modified, filename) \<Rightarrow>
        (case with_mapped_file x filename (m_offset m) content (\<lambda>M. ElfFileIdentifierFromMappedFile M (mbase M) ident) ident h of
           None \<Rightarrow> None
         | Some (Inl e) \<Rightarrow> Some (Inl e)
         | Some (Inr ((success, i), h')) \<Rightarrow>
             Some (res_bind (if success \<and> member \<and> modified then strip_deleted mapping_id m ms else Inr ms)
               (\<lambda>ms. Inr ((success, i), ms, h')))))))))"

section \<open>Strings in buffers\<close>

definition holds :: "block \<Rightarrow> byte list \<Rightarrow> bool" where
  "holds b s \<longleftrightarrow> 0 \<notin> set s \<and> (\<exists>rest. b = s @ 0 # rest)"

lemma holds_cstr: "holds b s \<Longrightarrow> cstr b = s"
  by (auto simp: holds_def cstr_def takeWhile_append)

lemma strlen_holds: "holds b s \<Longrightarrow> my_strlen b = Inr (length s)"
  using my_strlen_cstr by (auto simp: holds_def)

lemma strlcpy_holds:
  assumes "holds src cs" "0 < len" "at + len \<le> length b"
  shows "\<exists>b'. my_strlcpy at b src len = Inr (b', length cs) \<and> length b' = length b \<and> take at b' = take at b \<and>
    holds (drop at b') (take (len - 1) cs)"
proof -
  obtain rest where r: "src = cs @ 0 # rest" "0 \<notin> set cs" using assms(1) by (auto simp: holds_def)
  let ?b = "take at b @ take (len - 1) cs @ 0 # drop (at + min (len - 1) (length cs) + 1) b"
  have "my_strlcpy at b src len = Inr (?b, length cs)"
    using strlcpy_from [OF r(2) assms(2,3), of rest 0] by (simp add: my_strlcpy_def r(1))
  moreover have "length ?b = length b" using assms(2,3) by (simp add: min_def)
  moreover have "holds (drop at ?b) (take (len - 1) cs)" using assms(3) r(2) by (auto simp: holds_def dest: in_set_takeD)
  moreover have "take at ?b = take at b" using assms(3) by simp
  ultimately show ?thesis by blast
qed

lemma strlcat_holds:
  assumes "holds b xs" "holds src cs" "length xs < len" "len \<le> length b"
  shows "\<exists>b'. my_strlcat b src len = Inr (b', length xs + length cs) \<and> length b' = length b \<and> holds b' (xs @ take (len - length xs - 1) cs)"
proof -
  obtain t rest where r: "b = xs @ 0 # t" "0 \<notin> set xs" "src = cs @ 0 # rest" "0 \<notin> set cs" using assms(1,2) by (auto simp: holds_def)
  let ?b = "xs @ take (len - length xs - 1) cs @ 0 # drop (min (len - length xs - 1) (length cs)) t"
  have "my_strlcat b src len = Inr (?b, length xs + length cs)"
    using strlcat_bounded [OF r(2,4) assms(3), of t rest] assms(4) r(1,3) by simp
  moreover have "length ?b = length b" using assms(3,4) r(1) by (simp add: min_def)
  moreover have "holds ?b (xs @ take (len - length xs - 1) cs)" using r(2,4) by (auto simp: holds_def dest: in_set_takeD)
  ultimately show ?thesis by blast
qed

lemma strrchr_found:
  assumes "0 \<notin> set dir" "0 \<notin> set base" "c \<notin> set base" "c \<noteq> 0"
  shows "my_strrchr (dir @ c # base @ 0 # rest) c = Inr (Some (length dir))"
proof -
  have b: "my_strrchr_from r p (base @ 0 # rest) c = Inr r" for r p
    using assms(2,3) by (induction base arbitrary: p) auto
  have "my_strrchr_from r p (dir @ c # base @ 0 # rest) c = Inr (Some (p + length dir))" for r p
    using assms(1,4) b by (induction dir arbitrary: r p) auto
  then show ?thesis by (simp add: my_strrchr_def)
qed

lemma strrchr_none: "0 \<notin> set l \<Longrightarrow> c \<notin> set l \<Longrightarrow> my_strrchr (l @ 0 # rest) c = Inr None"
proof -
  have "0 \<notin> set l \<Longrightarrow> c \<notin> set l \<Longrightarrow> my_strrchr_from r p (l @ 0 # rest) c = Inr r" for r p
    by (induction l arbitrary: p) auto
  then show "0 \<notin> set l \<Longrightarrow> c \<notin> set l \<Longrightarrow> my_strrchr (l @ 0 # rest) c = Inr None" by (simp add: my_strrchr_def)
qed

text \<open>A copy that succeeded has found the end of its source.\<close>

lemma strlcpy_from_nul: "my_strlcpy_from at b src p q len = Inr r \<Longrightarrow> 0 \<in> set src"
  by (induction at b src p q len rule: my_strlcpy_from.induct) (auto split: if_splits)

lemma strlcpy_Inr:
  assumes "my_strlcpy 0 b src len = Inr (b', n)" "0 < len" "len \<le> length b"
  shows "length b' = length b \<and> (\<exists>s. holds b' s \<and> length s < len)"
proof -
  have "0 \<in> set src" using assms(1) strlcpy_from_nul unfolding my_strlcpy_def by blast
  then obtain cs rest where "src = cs @ 0 # rest" "0 \<notin> set cs" by (meson split_list_first)
  then have "holds src cs" by (auto simp: holds_def)
  from strlcpy_holds [OF this assms(2), of 0 b] assms show ?thesis by force
qed

lemma strlcpy_min:
  assumes "my_strlcpy 0 b src (if k < len then k else len) = Inr (b', n)" "0 < k" "0 < len" "len \<le> length b"
  shows "length b' = length b \<and> (\<exists>s. holds b' s \<and> length s < len)"
  using strlcpy_Inr [OF assms(1)] assms(2-4) by (cases "k < len") (auto intro: order.strict_trans)

lemma find_soname_buffer:
  assumes "find_soname w M dyn dynstr dsz b len k = Inr (found, b')" "0 < len" "len \<le> length b"
  shows "length b' = length b \<and> (found \<longrightarrow> (\<exists>s. holds b' s \<and> length s < len))"
  using assms(1)
proof (induction k arbitrary: dyn)
  case (Suc k)
  then obtain d_tag where d: "load M dyn w = Inr d_tag" by (auto simp: res_bind_def split: sum.splits)
  show ?case
  proof (cases "d_tag = 14")
    case True
    then obtain v where v: "load M (p_add dyn w) w = Inr v" using Suc.prems d by (auto simp: res_bind_def split: sum.splits)
    show ?thesis
    proof (cases "v \<ge> dsz")
      case False
      let ?copy = "my_strlcpy 0 b (bytes_from M (p_add dynstr v)) (if dsz - v < len then dsz - v else len)"
      have "res_bind ?copy (\<lambda>(b, _). Inr (True, b)) = Inr (found, b')" using False Suc.prems d v True by (simp add: Let_def)
      then obtain n where "?copy = Inr (b', n)" by (auto simp: res_bind_def split: sum.splits)
      with False show ?thesis using strlcpy_min [OF _ _ assms(2,3)] by simp
    qed (use Suc.prems d v True in simp)
  qed (use Suc d in auto)
qed simp

lemma mapped_soname_buffer:
  assumes "ElfFileSoNameFromMappedFile M p b len = Inr (found, b')" "0 < len" "len \<le> length b"
  shows "length b' = length b \<and> (found \<longrightarrow> (\<exists>s. holds b' s \<and> length s < len))"
  using assms find_soname_buffer
  by (fastforce simp: ElfFileSoNameFromMappedFile_def Let_def res_bind_def split: sum.splits if_splits)


lemma soname_buffer:
  assumes "ElfFileSoName x content root junk m b len h = Some (Inr ((found, b'), h'))" "0 < len" "len \<le> length b"
  shows "length b' = length b \<and> (found \<longrightarrow> (\<exists>s. holds b' s \<and> length s < len))"
  using assms mapped_soname_buffer [OF _ assms(2,3)]
  by (auto simp: ElfFileSoName_def with_mapped_file_def split: sum.splits if_splits option.splits prod.splits)

section \<open>The names of a module\<close>

text \<open>The last component of a path, and what precedes it.\<close>

definition base_name :: "byte list \<Rightarrow> byte list" where
  "base_name p = rev (takeWhile (\<lambda>c. c \<noteq> 47) (rev p))"

definition dir_part :: "byte list \<Rightarrow> byte list" where
  "dir_part p = rev (dropWhile (\<lambda>c. c \<noteq> 47) (rev p))"

text \<open>
  The path and file name of a module whose mapping is called \<open>p\<close>, with the name \<open>so\<close> the library gives itself
  (\<open>found\<close>: it has one), for buffers of \<open>psz\<close> and \<open>fsz\<close> bytes.
\<close>

definition module_path :: "MappingInfo \<Rightarrow> nat \<Rightarrow> byte list \<Rightarrow> bool \<Rightarrow> byte list \<Rightarrow> byte list" where
  "module_path m psz p found so =
     (if \<not> found then p
      else if m_exec m \<and> m_offset m \<noteq> 0 then (if length p + 1 + length so < psz then p @ 47 # so else p)
      else dir_part p @ take (psz - 1 - length (dir_part p)) so)"

definition module_file :: "nat \<Rightarrow> byte list \<Rightarrow> bool \<Rightarrow> byte list \<Rightarrow> byte list" where
  "module_file fsz p found so = (if found then so else take (fsz - 1) (base_name p))"

lemma dir_base: "dir_part p @ base_name p = p"
  by (metis base_name_def dir_part_def rev_append rev_rev_ident takeWhile_dropWhile_id)

lemma base_no_slash: "47 \<notin> set (base_name p)"
  by (auto simp: base_name_def dest: set_takeWhileD)

lemma path_cases:
  obtains (flat) "47 \<notin> set p" "dir_part p = []" "base_name p = p"
    | (deep) d where "p = d @ 47 # base_name p" "dir_part p = d @ [47]"
proof (cases "dir_part p")
  case Nil
  then show ?thesis using flat dir_base [of p] base_no_slash [of p] by simp
next
  case Cons
  then have "dropWhile (\<lambda>c. c \<noteq> 47) (rev p) \<noteq> []" by (auto simp: dir_part_def)
  then obtain r where "dropWhile (\<lambda>c. c \<noteq> 47) (rev p) = 47 # r"
    by (metis (mono_tags, lifting) hd_dropWhile list.exhaust list.sel(1))
  then have "dir_part p = rev r @ [47]" by (simp add: dir_part_def)
  then show ?thesis using deep [of "rev r"] dir_base [of p] by simp
qed

lemma strrchr_slash:
  assumes "holds b p"
  shows "my_strrchr b 47 = Inr (if dir_part p = [] then None else Some (length (dir_part p) - 1))"
proof -
  obtain rest where b: "b = p @ 0 # rest" "0 \<notin> set p" using assms by (auto simp: holds_def)
  show ?thesis
  proof (cases p rule: path_cases)
    case flat
    then show ?thesis using strrchr_none [of p 47 rest] b by simp
  next
    case (deep d)
    then have "0 \<notin> set d" "0 \<notin> set (base_name p)" using b(2) by (metis Un_iff set_append list.set_intros(2))+
    then have "my_strrchr (d @ 47 # base_name p @ 0 # rest) 47 = Inr (Some (length d))"
      using base_no_slash by (intro strrchr_found) auto
    moreover have "b = d @ 47 # base_name p @ 0 # rest" using b(1) deep(1) by (metis append.assoc append_Cons)
    ultimately show ?thesis using deep(2) by simp
  qed
qed

lemma holds_drop: "holds b (xs @ ys) \<Longrightarrow> holds (drop (length xs) b) ys"
  by (auto simp: holds_def)

lemma holds_join: "take (length xs) b = xs \<Longrightarrow> 0 \<notin> set xs \<Longrightarrow> holds (drop (length xs) b) ys \<Longrightarrow> holds b (xs @ ys)"
  unfolding holds_def by (metis Un_iff append.assoc append_take_drop_id set_append)

lemma name_without_soname:
  assumes "holds fp p" "0 < fsz" "fsz \<le> length fn"
  shows "\<exists>fn'. effective_name m fp psz False fn fsz = Inr (fp, fn') \<and> length fn' = length fn \<and> holds fn' (module_file fsz p False so)"
proof -
  have "holds (drop (length (dir_part p)) fp) (base_name p)" using assms(1) holds_drop dir_base [of p] by metis
  from strlcpy_holds [OF this assms(2), of 0 fn] assms(3) obtain b where
    "my_strlcpy 0 fn (drop (length (dir_part p)) fp) fsz = Inr (b, length (base_name p))" "length b = length fn" "holds b (take (fsz - 1) (base_name p))"
    by auto
  then show ?thesis using strrchr_slash [OF assms(1)] by (auto simp: effective_name_def module_file_def)
qed

lemma name_in_archive:
  assumes "holds fp p" "length p < psz" "psz \<le> length fp" "holds fn so" "m_exec m" "m_offset m \<noteq> 0"
  shows "\<exists>fp'. effective_name m fp psz True fn fsz = Inr (fp', fn) \<and> length fp' = length fp \<and> holds fp' (module_path m psz p True so)"
proof (cases "length p + 1 + length so < psz")
  case True
  have "holds [47, 0] [47]" by (auto simp: holds_def)
  from strlcat_holds [OF assms(1) this assms(2,3)] True obtain b where
    b: "my_strlcat fp [47, 0] psz = Inr (b, length p + 1)" "length b = length fp" "holds b (p @ [47])" by auto
  from strlcat_holds [OF b(3) assms(4), of psz] True assms(3) b(2) obtain c where
    "my_strlcat b fn psz = Inr (c, length p + 1 + length so)" "length c = length fp" "holds c ((p @ [47]) @ so)" by auto
  then show ?thesis using assms b True strlen_holds [OF assms(1)] strlen_holds [OF assms(4)]
    by (simp add: effective_name_def module_path_def)
next
  case False
  then show ?thesis using assms strlen_holds [OF assms(1)] strlen_holds [OF assms(4)]
    by (simp add: effective_name_def module_path_def)
qed

lemma name_in_directory:
  assumes "holds fp p" "length p < psz" "psz \<le> length fp" "holds fn so" "\<not> (m_exec m \<and> m_offset m \<noteq> 0)"
  shows "\<exists>fp'. effective_name m fp psz True fn fsz = Inr (fp', fn) \<and> length fp' = length fp \<and> holds fp' (module_path m psz p True so)"
proof -
  let ?d = "length (dir_part p)"
  have len: "length p = ?d + length (base_name p)" using dir_base [of p] by (metis length_append)
  have base: "holds (drop ?d fp) (base_name p)" using assms(1) holds_drop dir_base [of p] by metis
  have d: "take ?d fp = dir_part p" "0 \<notin> set (dir_part p)"
    using assms(1) dir_base [of p] unfolding holds_def by (metis append.assoc append_eq_conv_conj, metis Un_iff set_append)
  have "0 < psz - ?d" "?d + (psz - ?d) \<le> length fp" using assms(2,3) len by auto
  from strlcpy_holds [OF assms(4) this] obtain b where
    b: "my_strlcpy ?d fp fn (psz - ?d) = Inr (b, length so)" "length b = length fp" "take ?d b = take ?d fp"
       "holds (drop ?d b) (take (psz - ?d - 1) so)" by blast
  have "holds b (dir_part p @ take (psz - ?d - 1) so)" using holds_join b(3,4) d by simp
  moreover have "psz - length p + length (base_name p) = psz - ?d" using assms(2) len by simp
  ultimately show ?thesis
    using b(1,2) assms(5) strrchr_slash [OF assms(1)] strlen_holds [OF assms(1)] strlen_holds [OF base]
    by (cases "dir_part p = []") (auto simp: effective_name_def module_path_def diff_diff_eq add.commute)
qed

text \<open>C32: The name and path a module is reported under. Whatever the mapped file holds, when the look-up of
  the shared object name returns, both buffers hold strings that fit them: without such a name the path is that
  of the mapping and the file name its last component; a library inside an archive is reported as the archive's
  path followed by its own name, when that fits; otherwise its own name replaces the last component of the
  path. Nothing is written outside the buffers.\<close>

theorem effective_name_and_path:
  assumes "holds (m_name m) nm" "0 < psz" "psz \<le> length fp" "0 < fsz" "fsz \<le> length fn"
    and "ElfFileSoName x content root junk m fn fsz h = Some (Inr ((found, fn1), h'))"
  shows "\<exists>so fp' fn'. GetMappingEffectiveNameAndPath x content root junk m fp psz fn fsz h = Some (Inr ((fp', fn'), h')) \<and>
    (found \<longrightarrow> holds fn1 so \<and> length so < fsz) \<and>
    length fp' = length fp \<and> length fn' = length fn \<and>
    holds fp' (module_path m psz (take (psz - 1) nm) found so) \<and>
    holds fn' (module_file fsz (take (psz - 1) nm) found so)"
proof -
  let ?p = "take (psz - 1) nm"
  from strlcpy_holds [OF assms(1,2), of 0 fp] assms(3) obtain b where
    b: "my_strlcpy 0 fp (m_name m) psz = Inr (b, length nm)" "length b = length fp" "holds b ?p" by auto
  have len: "length ?p < psz" "psz \<le> length b" using assms(2,3) b(2) by auto
  have run: "GetMappingEffectiveNameAndPath x content root junk m fp psz fn fsz h =
      Some (res_bind (effective_name m b psz found fn1 fsz) (\<lambda>r. Inr (r, h')))"
    by (simp add: GetMappingEffectiveNameAndPath_def b(1) assms(6))
  note buf = soname_buffer [OF assms(6,4,5)]
  show ?thesis
  proof (cases found)
    case False
    then show ?thesis using name_without_soname [OF b(3) assms(4), of fn1 m psz] buf assms(5) b run
      by (fastforce simp: module_path_def)
  next
    case True
    with buf obtain so where so: "holds fn1 so" "length so < fsz" by blast
    from name_in_archive [OF b(3) len so(1)] name_in_directory [OF b(3) len so(1)]
    obtain fp' where "effective_name m b psz True fn1 fsz = Inr (fp', fn1)" "length fp' = length b"
      "holds fp' (module_path m psz ?p True so)" by metis
    with True so buf b run show ?thesis by (auto simp: module_file_def)
  qed
qed

text \<open>A mapping of \<open>/dev/ab\<close>, whose file is never opened.\<close>

definition demo_device :: MappingInfo where
  "demo_device = \<lparr>start_addr = 4096, m_size = 4096, sys_start = 4096, sys_end = 8192, m_offset = 0, m_exec = True,
     m_name = [47, 100, 101, 118, 47, 97, 98, 0]\<rparr>"

theorem effective_name_and_path_witness:
  "\<exists>fp fn. GetMappingEffectiveNameAndPath demo_kernel [] [0] [] demo_device (replicate 8 1) 8 (replicate 4 1) 4 [] = Some (Inr ((fp, fn), [])) \<and>
     holds fp [47, 100, 101, 118, 47, 97, 98] \<and> holds fn [97, 98]"
proof -
  let ?n = "[47, 100, 101, 118, 47, 97, 98] :: byte list"
  have "holds (m_name demo_device) ?n" by (auto simp: holds_def demo_device_def)
  moreover have "ElfFileSoName demo_kernel [] [0] [] demo_device (replicate 4 1) 4 [] = Some (Inr ((False, replicate 4 1), []))"
    by code_simp
  moreover have "module_path demo_device 8 (take 7 ?n) False so = ?n" "module_file 4 (take 7 ?n) False so = [97, 98]" for so
    by (simp_all add: module_path_def module_file_def base_name_def)
  ultimately show ?thesis
    using effective_name_and_path [of demo_device ?n 8 "replicate 8 1" 4 "replicate 4 1" demo_kernel "[]" "[0]" "[]" "[]" False "replicate 4 1" "[]"]
    by auto
qed

end
