(* ===== verification/Load_Bias.thy ===== *)
theory Load_Bias
  imports Process_Maps
begin

text \<open>
  Shared libraries with packed relocations on Android
  (\<open>breakpad/src/client/linux/minidump_writer/linux_dumper.cc\<close>, called from \<open>LateInit\<close>): the start of such a
  module is moved to the load bias the linker used. The headers are read from the memory of the process;
  the offsets are those of the 32-bit file class.
\<close>

section \<open>Definitions\<close>

type_synonym peek_fun = "addr \<Rightarrow> addr option"

text \<open>\<open>CopyFromProcess\<close> into a local variable of \<open>n\<close> bytes.\<close>

definition read_local :: "peek_fun \<Rightarrow> addr \<Rightarrow> nat \<Rightarrow> byte list res" where
  "read_local peek a n = res_bind (CopyFromProcess peek (replicate n 0) a n) (\<lambda>(_, b). Inr b)"

definition field32 :: "byte list \<Rightarrow> nat \<Rightarrow> addr" where
  "field32 b off = of_nat (le_nat (take 4 (drop off b)))"

definition field16 :: "byte list \<Rightarrow> nat \<Rightarrow> nat" where
  "field16 b off = le_nat (take 2 (drop off b))"

definition GetLoadedElfHeader :: "peek_fun \<Rightarrow> addr \<Rightarrow> (bool \<times> byte list) res" where
  "GetLoadedElfHeader peek start = res_bind (read_local peek start 52) (\<lambda>ehdr. Inr (take 4 ehdr = [0x7f, 0x45, 0x4c, 0x46], ehdr))"

text \<open>The loop over the program headers, \<open>k\<close> of them left; the result is \<open>min_vaddr\<close>, \<open>dyn_vaddr\<close> and \<open>dyn_count\<close>.\<close>

fun parse_phdrs :: "peek_fun \<Rightarrow> addr \<Rightarrow> addr \<Rightarrow> addr \<Rightarrow> nat \<Rightarrow> nat \<Rightarrow> (addr \<times> addr \<times> nat) res" where
  "parse_phdrs peek phdr_addr min_vaddr dyn_vaddr dyn_count 0 = Inr (min_vaddr, dyn_vaddr, dyn_count)"
| "parse_phdrs peek phdr_addr min_vaddr dyn_vaddr dyn_count (Suc k) =
     res_bind (read_local peek phdr_addr 32) (\<lambda>phdr.
     let p_type = field32 phdr 0; p_vaddr = field32 phdr 8; p_memsz = field32 phdr 20 in
     parse_phdrs peek (phdr_addr + 32)
       (if p_type = 1 \<and> p_vaddr < min_vaddr then p_vaddr else min_vaddr)
       (if p_type = 2 then p_vaddr else dyn_vaddr)
       (if p_type = 2 then unat p_memsz div 8 else dyn_count) k)"

definition ParseLoadedElfProgramHeaders :: "peek_fun \<Rightarrow> byte list \<Rightarrow> addr \<Rightarrow> (addr \<times> addr \<times> nat) res" where
  "ParseLoadedElfProgramHeaders peek ehdr start = parse_phdrs peek (start + field32 ehdr 28) (- 1) 0 0 (field16 ehdr 44)"

abbreviation (input) DT_ANDROID_REL :: addr where "DT_ANDROID_REL \<equiv> 0x6000000f"
abbreviation (input) DT_ANDROID_RELA :: addr where "DT_ANDROID_RELA \<equiv> 0x60000011"

fun packed_tags :: "peek_fun \<Rightarrow> addr \<Rightarrow> nat \<Rightarrow> bool res" where
  "packed_tags peek dyn_addr 0 = Inr False"
| "packed_tags peek dyn_addr (Suc k) =
     res_bind (read_local peek dyn_addr 8) (\<lambda>dyn.
     if field32 dyn 0 = DT_ANDROID_REL \<or> field32 dyn 0 = DT_ANDROID_RELA then Inr True else packed_tags peek (dyn_addr + 8) k)"

definition HasAndroidPackedRelocations :: "peek_fun \<Rightarrow> addr \<Rightarrow> addr \<Rightarrow> nat \<Rightarrow> bool res" where
  "HasAndroidPackedRelocations peek load_bias dyn_vaddr dyn_count = packed_tags peek (load_bias + dyn_vaddr) dyn_count"

definition GetEffectiveLoadBias :: "peek_fun \<Rightarrow> byte list \<Rightarrow> addr \<Rightarrow> addr res" where
  "GetEffectiveLoadBias peek ehdr start =
     res_bind (ParseLoadedElfProgramHeaders peek ehdr start) (\<lambda>(min_vaddr, dyn_vaddr, dyn_count).
     if min_vaddr \<noteq> 0 then
       res_bind (HasAndroidPackedRelocations peek (start - min_vaddr) dyn_vaddr dyn_count) (\<lambda>packed.
         Inr (if packed then start - min_vaddr else start))
     else Inr start)"

definition adjust_mapping :: "peek_fun \<Rightarrow> MappingInfo \<Rightarrow> MappingInfo res" where
  "adjust_mapping peek m =
     res_bind (byte_at (m_name m) 0) (\<lambda>c.
     if \<not> (m_exec m \<and> c = 47) then Inr m
     else res_bind (GetLoadedElfHeader peek (start_addr m)) (\<lambda>(ok, ehdr).
       if ok \<and> field16 ehdr 16 = 3
       then res_bind (GetEffectiveLoadBias peek ehdr (start_addr m)) (\<lambda>load_bias.
         Inr (m\<lparr>m_size := m_size m + (start_addr m - load_bias), start_addr := load_bias\<rparr>))
       else Inr m))"

fun LatePostprocessMappings :: "peek_fun \<Rightarrow> MappingInfo list \<Rightarrow> MappingInfo list res" where
  "LatePostprocessMappings peek [] = Inr []"
| "LatePostprocessMappings peek (m # ms) =
     res_bind (adjust_mapping peek m) (\<lambda>m'. res_bind (LatePostprocessMappings peek ms) (\<lambda>ms'. Inr (m' # ms')))"

definition LateInit :: "peek_fun \<Rightarrow> LinuxDumper \<Rightarrow> (bool \<times> LinuxDumper) res" where
  "LateInit peek s = res_bind (LatePostprocessMappings peek (mappings s)) (\<lambda>ms. Inr (True, s\<lparr>mappings := ms\<rparr>))"

section \<open>What the headers of a loaded library say\<close>

text \<open>
  A reading of the headers that does not follow the loops: the bytes of the process, the ELF
  header, the list of program headers, the lowest address of a loadable segment (the
  highest address when there is none), the last dynamic section with the number of its entries,
  and the tags of those.
\<close>

definition mem_bytes :: "peek_fun \<Rightarrow> addr \<Rightarrow> nat \<Rightarrow> byte list" where
  "mem_bytes peek a n = take n (concat (map (peeked peek a) [0..<(n + 3) div 4]))"

definition elf_header :: "peek_fun \<Rightarrow> MappingInfo \<Rightarrow> byte list" where
  "elf_header peek m = mem_bytes peek (start_addr m) 52"

definition shared_library :: "peek_fun \<Rightarrow> MappingInfo \<Rightarrow> bool" where
  "shared_library peek m \<longleftrightarrow> m_exec m \<and> m_name m ! 0 = 47 \<and>
     take 4 (elf_header peek m) = [0x7f, 0x45, 0x4c, 0x46] \<and> field16 (elf_header peek m) 16 = 3"

definition headers_at :: "peek_fun \<Rightarrow> addr \<Rightarrow> nat \<Rightarrow> byte list list" where
  "headers_at peek a k = map (\<lambda>i. mem_bytes peek (a + of_nat (32 * i)) 32) [0..<k]"

definition program_headers :: "peek_fun \<Rightarrow> MappingInfo \<Rightarrow> byte list list" where
  "program_headers peek m =
     headers_at peek (start_addr m + field32 (elf_header peek m) 28) (field16 (elf_header peek m) 44)"

definition lowest_load :: "byte list list \<Rightarrow> addr" where
  "lowest_load hs = Min (set (- 1 # map (\<lambda>h. field32 h 8) (filter (\<lambda>h. field32 h 0 = 1) hs)))"

definition dynamic_section :: "byte list list \<Rightarrow> addr \<times> nat" where
  "dynamic_section hs = (let ds = filter (\<lambda>h. field32 h 0 = 2) hs in
     if ds = [] then (0, 0) else (field32 (last ds) 8, unat (field32 (last ds) 20) div 8))"

definition tag_at :: "peek_fun \<Rightarrow> addr \<Rightarrow> nat \<Rightarrow> addr" where
  "tag_at peek a i = field32 (mem_bytes peek (a + of_nat (8 * i)) 8) 0"

definition dynamic_tags :: "peek_fun \<Rightarrow> addr \<Rightarrow> nat \<Rightarrow> addr list" where
  "dynamic_tags peek a k = map (tag_at peek a) [0..<k]"

text \<open>A library with packed relocations that is not linked at zero, and where the linker's bias puts it.\<close>

definition link_address :: "peek_fun \<Rightarrow> MappingInfo \<Rightarrow> addr" where
  "link_address peek m = lowest_load (program_headers peek m)"

definition packed_library :: "peek_fun \<Rightarrow> MappingInfo \<Rightarrow> bool" where
  "packed_library peek m \<longleftrightarrow> shared_library peek m \<and> link_address peek m \<noteq> 0 \<and>
     (let (dyn_vaddr, dyn_count) = dynamic_section (program_headers peek m) in
      \<exists>t \<in> set (dynamic_tags peek (start_addr m - link_address peek m + dyn_vaddr) dyn_count).
        t = DT_ANDROID_REL \<or> t = DT_ANDROID_RELA)"

definition rebase :: "peek_fun \<Rightarrow> MappingInfo \<Rightarrow> MappingInfo" where
  "rebase peek m =
     (if packed_library peek m
      then m\<lparr>start_addr := start_addr m - link_address peek m, m_size := m_size m + link_address peek m\<rparr>
      else m)"

section \<open>The loops compute it\<close>

lemma read_local_eq: "read_local peek a n = Inr (mem_bytes peek a n)"
  using copy_words_ok [of n "[]" "replicate n 0" peek a] by (simp add: read_local_def CopyFromProcess_def mem_bytes_def)

lemma headers_at_Suc: "headers_at peek a (Suc k) = mem_bytes peek a 32 # headers_at peek (a + 32) k"
  by (simp add: headers_at_def map_upt_Suc add.assoc del: upt_Suc)

lemma lowest_load_fold: "lowest_load hs = fold min (map (\<lambda>h. field32 h 8) (filter (\<lambda>h. field32 h 0 = 1) hs)) (- 1)"
  unfolding lowest_load_def by (rule Min.set_eq_fold)

lemma parse_phdrs_eq:
  "parse_phdrs peek a mv dv dc k =
     (let hs = headers_at peek a k; ds = filter (\<lambda>h. field32 h 0 = 2) hs in
      Inr (fold min (map (\<lambda>h. field32 h 8) (filter (\<lambda>h. field32 h 0 = 1) hs)) mv,
           if ds = [] then dv else field32 (last ds) 8,
           if ds = [] then dc else unat (field32 (last ds) 20) div 8))"
proof (induction k arbitrary: a mv dv dc)
  case 0
  then show ?case by (simp add: headers_at_def)
next
  case (Suc k)
  have m: "min v w = (if v < w then v else w)" for v w :: addr by (auto simp: min_def)
  show ?case by (simp add: read_local_eq Let_def headers_at_Suc Suc.IH m)
qed

lemma dynamic_tags_Suc: "dynamic_tags peek a (Suc k) = tag_at peek a 0 # dynamic_tags peek (a + 8) k"
  by (simp add: dynamic_tags_def map_upt_Suc tag_at_def add.assoc del: upt_Suc)

lemma packed_tags_eq:
  "packed_tags peek a k = Inr (\<exists>t \<in> set (dynamic_tags peek a k). t = DT_ANDROID_REL \<or> t = DT_ANDROID_RELA)"
proof (induction k arbitrary: a)
  case 0
  then show ?case by (simp add: dynamic_tags_def)
next
  case (Suc k)
  have "field32 (mem_bytes peek a 8) 0 = tag_at peek a 0" by (simp add: tag_at_def)
  then show ?case by (simp add: read_local_eq dynamic_tags_Suc Suc.IH)
qed

lemma GetEffectiveLoadBias_eq:
  assumes "shared_library peek m"
  shows "GetEffectiveLoadBias peek (elf_header peek m) (start_addr m) =
    Inr (if packed_library peek m then start_addr m - link_address peek m else start_addr m)"
  using assms by (simp add: GetEffectiveLoadBias_def ParseLoadedElfProgramHeaders_def parse_phdrs_eq Let_def
      HasAndroidPackedRelocations_def packed_tags_eq packed_library_def link_address_def lowest_load_fold
      program_headers_def dynamic_section_def)

lemma adjust_mapping_eq: "m_name m \<noteq> [] \<Longrightarrow> adjust_mapping peek m = Inr (rebase peek m)"
proof -
  assume n: "m_name m \<noteq> []"
  have h: "GetLoadedElfHeader peek (start_addr m) =
      Inr (take 4 (elf_header peek m) = [0x7f, 0x45, 0x4c, 0x46], elf_header peek m)"
    by (simp add: GetLoadedElfHeader_def read_local_eq elf_header_def)
  show ?thesis
  proof (cases "shared_library peek m")
    case True
    then show ?thesis using n h GetEffectiveLoadBias_eq [OF True]
      by (auto simp: adjust_mapping_def byte_at_def rebase_def shared_library_def)
  next
    case False
    then show ?thesis using n h
      by (auto simp: adjust_mapping_def byte_at_def rebase_def packed_library_def shared_library_def)
  qed
qed

lemma LatePostprocessMappings_eq:
  "\<forall>m \<in> set ms. m_name m \<noteq> [] \<Longrightarrow> LatePostprocessMappings peek ms = Inr (map (rebase peek) ms)"
  by (induction ms) (simp_all add: adjust_mapping_eq)

section \<open>What an adjustment keeps\<close>

lemma rebase_keeps:
  "start_addr (rebase peek m) + m_size (rebase peek m) = start_addr m + m_size m"
  "sys_start (rebase peek m) = sys_start m" "sys_end (rebase peek m) = sys_end m"
  "m_exec (rebase peek m) = m_exec m" "m_offset (rebase peek m) = m_offset m" "m_name (rebase peek m) = m_name m"
  by (simp_all add: rebase_def)

lemma rebase_mapping_ok:
  assumes "packed_library peek m \<longrightarrow> link_address peek m \<le> start_addr m" and "mapping_ok m"
  shows "mapping_ok (rebase peek m)"
proof (cases "packed_library peek m \<and> m_exec m")
  case True
  let ?v = "link_address peek m"
  have v: "?v \<le> start_addr m" using assms(1) True by blast
  then have d: "unat (start_addr m - ?v) = unat (start_addr m) - unat ?v" "unat ?v \<le> unat (start_addr m)"
    by (simp_all add: unat_sub word_le_nat_alt)
  have k: "unat (start_addr m) \<le> unat (sys_start m)" "unat (sys_end m) \<le> unat (start_addr m) + unat (m_size m)"
    "unat (start_addr m) + unat (m_size m) < 2 ^ 32" using assms(2) True by (auto simp: mapping_ok_def)
  then have "unat (m_size m + ?v) = unat (m_size m) + unat ?v" using d by (simp add: unat_word_ariths)
  then show ?thesis using k d True by (simp add: mapping_ok_def rebase_def)
next
  case False
  then show ?thesis using assms(2) by (auto simp: rebase_def mapping_ok_def)
qed

section \<open>Properties\<close>

text \<open>C31: What \<open>LateInit\<close> makes of the mappings, whatever the memory of the process holds. It ends without a
  fault, and moves exactly the mappings of shared libraries with packed relocations that are not
  linked at address zero, as the headers in the memory of the process at the start of the mapping
  tell: their start goes down by the lowest address of a loadable segment and their size grows by
  as much, so that the end stays; the name, the offset and the range the kernel reported stay, and
  all other mappings are as before. If no library that is moved is linked above its load address, a
  list of mappings that was in order is so afterwards, so that stacks can be sanitised with it.\<close>

theorem late_init_keeps_mappings:
  assumes "\<forall>m \<in> set (mappings s). m_name m \<noteq> []"
  shows "LateInit peek s = Inr (True, s\<lparr>mappings := map (\<lambda>m.
      if packed_library peek m
      then m\<lparr>start_addr := start_addr m - link_address peek m, m_size := m_size m + link_address peek m\<rparr>
      else m) (mappings s)\<rparr>) \<and>
    (mappings_ok (mappings s) \<and>
      (\<forall>m \<in> set (mappings s). packed_library peek m \<longrightarrow> link_address peek m \<le> start_addr m) \<longrightarrow>
      mappings_ok (map (\<lambda>m. if packed_library peek m
      then m\<lparr>start_addr := start_addr m - link_address peek m, m_size := m_size m + link_address peek m\<rparr>
      else m) (mappings s)))"
  unfolding rebase_def [symmetric]
proof (intro conjI impI)
  show "LateInit peek s = Inr (True, s\<lparr>mappings := map (rebase peek) (mappings s)\<rparr>)"
    by (simp add: LateInit_def LatePostprocessMappings_eq [OF assms])
  assume ok: "mappings_ok (mappings s) \<and>
      (\<forall>m \<in> set (mappings s). packed_library peek m \<longrightarrow> link_address peek m \<le> start_addr m)"
  then have "\<forall>m \<in> set (mappings s). mapping_ok (rebase peek m)"
    using rebase_mapping_ok by (auto simp: mappings_ok_def)
  then show "mappings_ok (map (rebase peek) (mappings s))"
    using ok by (auto simp: mappings_ok_def rebase_keeps)
qed

text \<open>
  A process in whose memory a library lies at \<open>0x2000\<close> that is linked at \<open>0x1000\<close> and has a packed
  relocation section: the words of its ELF header, of its two program headers and of its first
  dynamic entry.
\<close>

definition packed_memory :: peek_fun where
  "packed_memory a = Some (case map_of
     [(0x2000, 0x464c457f), (0x2010, 0x00280003), (0x201c, 52), (0x202c, 2),
      (0x2034, 1), (0x203c, 0x1000), (0x2054, 2), (0x205c, 0x1100), (0x2068, 16),
      (0x2100, 0x6000000f)] a of None \<Rightarrow> 0 | Some w \<Rightarrow> w)"

definition packed_mapping :: MappingInfo where
  "packed_mapping = \<lparr>start_addr = 0x2000, m_size = 0x1000, sys_start = 0x2000, sys_end = 0x3000, m_offset = 0,
     m_exec = True, m_name = [47, 97, 0]\<rparr>"



lemma peeked_word: "peeked peek a k = (case peek (a + of_nat (4 * k)) of None \<Rightarrow> [0, 0, 0, 0] | Some w \<Rightarrow>
   [of_nat (unat w mod 256), of_nat (unat w div 256 mod 256), of_nat (unat w div 65536 mod 256), of_nat (unat w div 16777216 mod 256)])" 
proof -
  have four: "4 = Suc (Suc (Suc (Suc 0)))" by simp
  show ?thesis unfolding peeked_def by (subst four) (simp add: div_mult2_eq [symmetric] split: option.split)
qed

lemma upts: "[0..<13] = [0,1,2,3,4,5,6,7,8,9,10,11,12]" "[0..<8] = [0,1,2,3,4,5,6,7]" "[0..<2] = [0,1::nat]"
  by code_simp+

lemmas packed_eval = mem_bytes_def upts peeked_word packed_memory_def field32_def field16_def

lemma packed_header:
  "elf_header packed_memory packed_mapping =
     [0x7f, 0x45, 0x4c, 0x46, 0, 0, 0, 0, 0, 0, 0, 0, 0, 0, 0, 0, 3, 0, 40, 0, 0, 0, 0, 0, 0, 0, 0, 0, 52, 0, 0, 0, 0, 0, 0, 0, 0, 0, 0, 0, 0, 0, 0, 0, 2, 0, 0, 0, 0, 0, 0, 0]"
  by (simp add: elf_header_def packed_mapping_def packed_eval)

lemma packed_program_headers:
  "program_headers packed_memory packed_mapping =
     [[1, 0, 0, 0, 0, 0, 0, 0, 0, 0x10, 0, 0, 0, 0, 0, 0, 0, 0, 0, 0, 0, 0, 0, 0, 0, 0, 0, 0, 0, 0, 0, 0],
      [2, 0, 0, 0, 0, 0, 0, 0, 0, 0x11, 0, 0, 0, 0, 0, 0, 0, 0, 0, 0, 16, 0, 0, 0, 0, 0, 0, 0, 0, 0, 0, 0]]"
proof -
  have f: "field32 (elf_header packed_memory packed_mapping) 28 = 52"
    "field16 (elf_header packed_memory packed_mapping) 44 = 2"
    unfolding packed_header by code_simp+
  have p: "mem_bytes packed_memory 0x2034 32 = [1, 0, 0, 0, 0, 0, 0, 0, 0, 0x10, 0, 0, 0, 0, 0, 0, 0, 0, 0, 0, 0, 0, 0, 0, 0, 0, 0, 0, 0, 0, 0, 0]"
    "mem_bytes packed_memory 0x2054 32 = [2, 0, 0, 0, 0, 0, 0, 0, 0, 0x11, 0, 0, 0, 0, 0, 0, 0, 0, 0, 0, 16, 0, 0, 0, 0, 0, 0, 0, 0, 0, 0, 0]"
    by (simp_all add: packed_eval)
  have "start_addr packed_mapping + 52 = 0x2034" by (simp add: packed_mapping_def)
  then show ?thesis unfolding program_headers_def headers_at_def f by (simp add: upts p)
qed

lemma packed_mapping_moves:
  "link_address packed_memory packed_mapping = 0x1000" "packed_library packed_memory packed_mapping"
proof -
  have start: "start_addr packed_mapping = 0x2000" by (simp add: packed_mapping_def)
  show a: "link_address packed_memory packed_mapping = 0x1000"
    unfolding link_address_def packed_program_headers by code_simp
  have d: "dynamic_section (program_headers packed_memory packed_mapping) = (0x1100, 2)"
    unfolding packed_program_headers by code_simp
  have t: "dynamic_tags packed_memory 0x2100 2 = [0x6000000f, 0]"
    by (simp add: dynamic_tags_def tag_at_def packed_eval)
  have "shared_library packed_memory packed_mapping"
    unfolding shared_library_def packed_header by code_simp
  then show "packed_library packed_memory packed_mapping"
    by (simp add: packed_library_def a d t start)
qed

theorem late_init_keeps_mappings_witness:
  "LateInit packed_memory (demo_dumper\<lparr>mappings := [packed_mapping]\<rparr>) =
     Inr (True, demo_dumper\<lparr>mappings := [packed_mapping\<lparr>start_addr := 0x1000, m_size := 0x2000\<rparr>]\<rparr>) \<and>
   mappings_ok [packed_mapping\<lparr>start_addr := 0x1000, m_size := 0x2000\<rparr>]"
proof -
  have "mappings_ok [packed_mapping]" "m_name packed_mapping \<noteq> []"
    and v: "start_addr packed_mapping = 0x2000" "m_size packed_mapping = 0x1000"
    by (simp_all add: packed_mapping_def mappings_ok_def mapping_ok_def)
  then show ?thesis
    using late_init_keeps_mappings [of "demo_dumper\<lparr>mappings := [packed_mapping]\<rparr>" packed_memory]
    by (simp add: packed_mapping_moves)
qed

end
