(* ===== verification/Dump_Writer.thy ===== *)
theory Dump_Writer
  imports Cpu_Information Module_Names Load_Bias
begin

text \<open>
  The minidump as a whole (\<open>breakpad/src/client/linux/minidump_writer/minidump_writer.cc\<close>): the description of
  the system, the list of modules, the record of the dynamic linker, and \<open>Dump\<close>, which writes the header,
  the directory and the thirteen streams.
\<close>

section \<open>The system\<close>

text \<open>The loop over the members of \<open>utsname\<close>: the text, the space left and whether it is the first item.\<close>

fun os_items :: "block list \<Rightarrow> block \<Rightarrow> nat \<Rightarrow> bool \<Rightarrow> block res" where
  "os_items [] buf space_left first_item = Inr buf"
| "os_items (info # rest) buf space_left first_item =
     res_bind (my_strlen info) (\<lambda>info_len.
     if info_len = 0 then os_items rest buf space_left first_item
     else if space_left < info_len + (if first_item then 0 else 1) then Inr buf
     else
       res_bind (if first_item then Inr (buf, space_left)
                 else res_bind (my_strlcat buf [32, 0] 512) (\<lambda>(b, _). Inr (b, space_left - 1))) (\<lambda>(buf, space_left).
       res_bind (my_strlcat buf info 512) (\<lambda>(buf, _). os_items rest buf (space_left - info_len) False)))"

text \<open>\<open>uts\<close>: \<open>sysname\<close>, \<open>release\<close>, \<open>version\<close> and \<open>machine\<close>, unless \<open>uname\<close> fails.\<close>

definition WriteOSInformation :: "sys_call ext \<Rightarrow> block list option \<Rightarrow> MDRawSystemInfo \<Rightarrow> (bool \<times> MDRawSystemInfo) dp" where
  "WriteOSInformation x uts si =
     (let si = si\<lparr>platform_id := 0x8203\<rparr> in
      case uts of
        None \<Rightarrow> pret (False, si)
      | Some items \<Rightarrow>
          pbind (plift (os_items items (replicate 512 0) 511 True)) (\<lambda>buf.
          pbind (pfile (WriteString x buf 0)) (\<lambda>loc.
          case loc of
            None \<Rightarrow> pret (False, si)
          | Some l \<Rightarrow> pret (True, si\<lparr>csd_version_rva := snd l\<rparr>))))"

text \<open>\<open>MDRawSystemInfo\<close>, 56 bytes.\<close>

definition system_info_bytes :: "MDRawSystemInfo \<Rightarrow> byte list" where
  "system_info_bytes si =
     le16 (processor_architecture si) @ le16 (processor_level si) @ le16 (processor_revision si) @
     [number_of_processors si, 0] @ replicate 12 0 @ le32 (platform_id si) @ le32 (csd_version_rva si) @ replicate 4 0 @
     le32 (cpuid si) @ le32 (elf_hwcaps si) @ replicate 16 0"

definition zero_info :: MDRawSystemInfo where
  "zero_info = \<lparr>processor_architecture = 0, processor_level = 0, processor_revision = 0, number_of_processors = 0,
     platform_id = 0, csd_version_rva = 0, cpuid = 0, elf_hwcaps = 0\<rparr>"

definition WriteSystemInfoStream :: "sys_call ext \<Rightarrow> dump_env \<Rightarrow> block list option \<Rightarrow> block \<Rightarrow> location option dp" where
  "WriteSystemInfoStream x d uts junk =
     pbind (pfile UntypedMDRVA) (\<lambda>r0.
     pbind (pfile (UntypedMDRVA_Allocate x r0 56)) (\<lambda>(ok, r).
     if \<not> ok then pthen (flush_object x r (system_info_bytes zero_info)) (pret None)
     else
       pbind (WriteCPUInformation x d junk zero_info) (\<lambda>(_, si).
       pbind (WriteOSInformation x uts si) (\<lambda>(_, si).
       pthen (flush_object x r (system_info_bytes si)) (pret (Some (rva_size r, rva_position r)))))))"

section \<open>Modules\<close>

text \<open>
  What the dumper needs for modules: the kernel that maps files, what the mapping of a module's file
  shows, the prefix of the root, the memory at \<open>linux-gate.so\<close>, the handling of deleted files, uninitialised buffers,
  and the mappings the caller provided with their identifiers.
\<close>

record module_env =
  mv_kernel :: "mm_call ext"
  mv_content :: "MappingInfo \<Rightarrow> block"
  mv_root :: block
  mv_gate :: elf_mem
  mv_deleted :: "block \<Rightarrow> (bool \<times> block) res"
  mv_junk :: block
  mv_file_path :: block
  mv_file_name :: block
  mv_mapping_list :: "(MappingInfo \<times> byte list) list"

definition ShouldIncludeMapping :: "MappingInfo \<Rightarrow> bool" where
  "ShouldIncludeMapping m \<longleftrightarrow> \<not> (m_name m ! 0 = 0 \<or> (m_offset m \<noteq> 0 \<and> \<not> m_exec m) \<or> m_size m < 4096)"

definition HaveMappingInfo :: "(MappingInfo \<times> byte list) list \<Rightarrow> MappingInfo \<Rightarrow> bool" where
  "HaveMappingInfo given m \<longleftrightarrow>
     list_ex (\<lambda>(g, _). start_addr m \<ge> start_addr g \<and> start_addr m + m_size m \<le> start_addr g + m_size g) given"

definition output_mapping :: "(MappingInfo \<times> byte list) list \<Rightarrow> MappingInfo \<Rightarrow> bool" where
  "output_mapping given m \<longleftrightarrow> ShouldIncludeMapping m \<and> \<not> HaveMappingInfo given m"

text \<open>\<open>MDRawModule\<close>, 108 bytes, of which the version, the debug record and the reserved words stay zero.\<close>

definition module_bytes :: "MappingInfo \<Rightarrow> MDRVA \<Rightarrow> location \<Rightarrow> byte list" where
  "module_bytes m name cv =
     le_bytes 8 (unat (start_addr m)) @ le32 (m_size m) @ replicate 8 0 @ le32 name @ replicate 52 0 @
     le32 (fst cv) @ le32 (snd cv) @ replicate 24 0"

text \<open>The identifier: given by the caller, or computed from the file, which may strip a suffix of the name.\<close>

definition module_identifier :: "module_env \<Rightarrow> MappingInfo \<Rightarrow> bool \<Rightarrow> nat \<Rightarrow> byte list option \<Rightarrow> byte list dp" where
  "module_identifier v m member mapping_id identifier st =
     (case identifier of
        Some i \<Rightarrow> Some (Inr (take 16 i, st))
      | None \<Rightarrow>
          (case ElfFileIdentifierForMapping (mv_kernel v) (mv_content v m) (mv_deleted v) (mv_root v) (mv_gate v) (mv_junk v) m member
                  mapping_id [] (dump_mappings (fst st)) (dump_mm_calls (fst st)) of
             None \<Rightarrow> None
           | Some (Inl e) \<Rightarrow> Some (Inl e)
           | Some (Inr ((_, i), ms, h)) \<Rightarrow> Some (Inr (i, (fst st)\<lparr>dump_mappings := ms, dump_mm_calls := h\<rparr>, snd st))))"

definition module_path_of :: "module_env \<Rightarrow> MappingInfo \<Rightarrow> block dp" where
  "module_path_of v m st =
     (case GetMappingEffectiveNameAndPath (mv_kernel v) (mv_content v m) (mv_root v) (mv_junk v) m (mv_file_path v) NAME_MAX
             (mv_file_name v) NAME_MAX (dump_mm_calls (fst st)) of
        None \<Rightarrow> None
      | Some (Inl e) \<Rightarrow> Some (Inl e)
      | Some (Inr ((path, _), h)) \<Rightarrow> Some (Inr (path, (fst st)\<lparr>dump_mm_calls := h\<rparr>, snd st)))"

definition write_cv :: "sys_call ext \<Rightarrow> byte list \<Rightarrow> location option dp" where
  "write_cv x identifier =
     (if identifier = [] then pret (Some (0, 0))
      else
        pbind (pfile UntypedMDRVA) (\<lambda>r0.
        pbind (pfile (UntypedMDRVA_Allocate x r0 (4 + of_nat (length identifier)))) (\<lambda>(ok, r).
        if \<not> ok then pret None
        else
          pbind (pfile (UntypedMDRVA_Copy x r (rva_position r) (le32 0x4270454c))) (\<lambda>_.
          pbind (pfile (UntypedMDRVA_Copy x r (rva_position r + 4) identifier)) (\<lambda>_.
          pret (Some (rva_size r, rva_position r)))))))"

text \<open>A mapping of the dumper is a reference: its name is read again after the identifier was computed.\<close>

definition FillRawModule :: "sys_call ext \<Rightarrow> module_env \<Rightarrow> MappingInfo \<Rightarrow> bool \<Rightarrow> nat \<Rightarrow> byte list option \<Rightarrow> byte list option dp" where
  "FillRawModule x v m member mapping_id identifier =
     pbind (module_identifier v m member mapping_id identifier) (\<lambda>i.
     pbind (write_cv x i) (\<lambda>cv.
     case cv of
       None \<Rightarrow> pret None
     | Some cv \<Rightarrow>
         pbind pget (\<lambda>s. let m = (if member then dump_mappings s ! mapping_id else m) in
         pbind (module_path_of v m) (\<lambda>path.
         pbind (plift (my_strlen path)) (\<lambda>n.
         pbind (pfile (WriteString x path n)) (\<lambda>loc.
         case loc of
           None \<Rightarrow> pret None
         | Some l \<Rightarrow> pret (Some (module_bytes m (snd l) cv))))))))"

text \<open>The two loops; \<open>j\<close> is the index of the next entry of the list.\<close>

fun write_own_mappings :: "sys_call ext \<Rightarrow> module_env \<Rightarrow> mdrva \<Rightarrow> nat list \<Rightarrow> nat \<Rightarrow> nat option dp" where
  "write_own_mappings x v r [] j = pret (Some j)"
| "write_own_mappings x v r (i # is) j =
     pbind pget (\<lambda>s. let m = dump_mappings s ! i in
     if \<not> output_mapping (mv_mapping_list v) m then write_own_mappings x v r is j
     else
       pbind (FillRawModule x v m True i None) (\<lambda>bytes.
       case bytes of
         None \<Rightarrow> pret None
       | Some b \<Rightarrow> pbind (pfile (CopyIndexAfterObject x r j b)) (\<lambda>_. write_own_mappings x v r is (j + 1))))"

fun write_given_mappings :: "sys_call ext \<Rightarrow> module_env \<Rightarrow> mdrva \<Rightarrow> (MappingInfo \<times> byte list) list \<Rightarrow> nat \<Rightarrow> bool dp" where
  "write_given_mappings x v r [] j = pret True"
| "write_given_mappings x v r ((m, identifier) # rest) j =
     pbind (FillRawModule x v m False 0 (Some identifier)) (\<lambda>bytes.
     case bytes of
       None \<Rightarrow> pret False
     | Some b \<Rightarrow> pbind (pfile (CopyIndexAfterObject x r j b)) (\<lambda>_. write_given_mappings x v r rest (j + 1)))"

definition num_output_mappings :: "(MappingInfo \<times> byte list) list \<Rightarrow> MappingInfo list \<Rightarrow> nat" where
  "num_output_mappings given ms = length given + length (filter (output_mapping given) ms)"

definition WriteMappings :: "sys_call ext \<Rightarrow> module_env \<Rightarrow> location option dp" where
  "WriteMappings x v =
     pbind pget (\<lambda>s.
     let n = num_output_mappings (mv_mapping_list v) (dump_mappings s) in
     pbind (pfile UntypedMDRVA) (\<lambda>r0.
     pbind (pfile (UntypedMDRVA_Allocate x r0 (4 + of_nat n * 108))) (\<lambda>(ok, r).
     if \<not> ok then pthen (flush_object x r (le32 0)) (pret None)
     else
       pbind (pbind (write_own_mappings x v r [0..<length (dump_mappings s)] 0) (\<lambda>j.
                case j of None \<Rightarrow> pret False | Some j \<Rightarrow> write_given_mappings x v r (mv_mapping_list v) j)) (\<lambda>good.
       pthen (flush_object x r (le32 (of_nat n))) (pret (if good then Some (rva_size r, rva_position r) else None))))))"

section \<open>The dynamic linker\<close>

text \<open>The loop over the program headers, \<open>k\<close> of them left: the base and the address of the dynamic segment.\<close>

fun phdr_loop :: "peek_fun \<Rightarrow> addr \<Rightarrow> nat \<Rightarrow> addr \<Rightarrow> addr \<Rightarrow> (addr \<times> addr) res" where
  "phdr_loop peek phdr 0 base dyn_addr = Inr (base, dyn_addr)"
| "phdr_loop peek phdr (Suc k) base dyn_addr =
     res_bind (read_local peek phdr 32) (\<lambda>ph.
       phdr_loop peek (phdr + 32) k
         (if field32 ph 0 = 1 \<and> field32 ph 4 = 0 then base - field32 ph 8 else base)
         (if field32 ph 0 = 2 then field32 ph 8 else dyn_addr))"

text \<open>\<open>for (; phnum >= 0; phnum--, phdr++)\<close>: one more than there are.\<close>

definition phdr_count :: "addr \<Rightarrow> nat" where
  "phdr_count phnum = (if sint phnum \<ge> 0 then nat (sint phnum) + 1 else 0)"

text \<open>The dynamic section up to \<open>DT_NULL\<close>: its length in bytes and the address of \<open>r_debug\<close>.\<close>

partial_function (option) dynamic_loop :: "peek_fun \<Rightarrow> addr \<Rightarrow> 32 word \<Rightarrow> addr \<Rightarrow> (32 word \<times> addr) res option" where
  "dynamic_loop peek a dynamic_length r_debug =
     (case read_local peek a 8 of
        Inl e \<Rightarrow> Some (Inl e)
      | Inr dyn \<Rightarrow>
          (if field32 dyn 0 = 21 then dynamic_loop peek (a + 8) (dynamic_length + 8) (field32 dyn 4)
           else if field32 dyn 0 = 0 then Some (Inr (dynamic_length + 8, r_debug))
           else dynamic_loop peek (a + 8) (dynamic_length + 8) r_debug))"

text \<open>The list of loaded objects, \<open>struct link_map\<close> of 20 bytes each. The code walks it twice.\<close>

partial_function (option) link_maps :: "peek_fun \<Rightarrow> addr \<Rightarrow> byte list list \<Rightarrow> byte list list res option" where
  "link_maps peek ptr1 maps =
     (if ptr1 = 0 then Some (Inr maps)
      else (case read_local peek ptr1 20 of
              Inl e \<Rightarrow> Some (Inl e)
            | Inr m \<Rightarrow> link_maps peek (field32 m 12) (maps @ [m])))"

definition link_name :: "peek_fun \<Rightarrow> byte list \<Rightarrow> block res" where
  "link_name peek m =
     (if field32 m 4 \<noteq> 0 then res_bind (read_local peek (field32 m 4) 256) (\<lambda>b. Inr (b @ [0])) else Inr (replicate 257 0))"

fun write_link_maps :: "sys_call ext \<Rightarrow> peek_fun \<Rightarrow> mdrva \<Rightarrow> nat \<Rightarrow> byte list list \<Rightarrow> bool dp" where
  "write_link_maps x peek r idx [] = pret True"
| "write_link_maps x peek r idx (m # ms) =
     pbind (plift (link_name peek m)) (\<lambda>filename.
     pbind (pfile (WriteString x filename 0)) (\<lambda>loc.
     case loc of
       None \<Rightarrow> pret False
     | Some l \<Rightarrow>
         pbind (pfile (Copy x (rva_position r + of_nat idx * 12) (le32 (field32 m 0) @ le32 (snd l) @ le32 (field32 m 8)))) (\<lambda>_.
         write_link_maps x peek r (idx + 1) ms)))"

text \<open>The position of the array, \<open>kInvalidMDRVA\<close> when there is none.\<close>

definition write_linkmap :: "sys_call ext \<Rightarrow> peek_fun \<Rightarrow> byte list list \<Rightarrow> MDRVA option dp" where
  "write_linkmap x peek ms =
     (if ms = [] then pret (Some (- 1))
      else
        pbind (pfile UntypedMDRVA) (\<lambda>r0.
        pbind (pfile (UntypedMDRVA_Allocate x r0 (of_nat (length ms) * 12))) (\<lambda>(ok, r).
        if \<not> ok then pret None
        else pbind (write_link_maps x peek r 0 ms) (\<lambda>good. pret (if good then Some (rva_position r) else None)))))"

text \<open>\<open>phdr\<close> and \<open>phnum\<close>: \<open>AT_PHDR\<close> and \<open>AT_PHNUM\<close> of the auxiliary vector.\<close>

definition WriteDSODebugStream :: "sys_call ext \<Rightarrow> dump_env \<Rightarrow> addr \<Rightarrow> addr \<Rightarrow> location option dp" where
  "WriteDSODebugStream x d phdr phnum =
     (let peek = dv_peek d (dv_crash_thread d) in
      if phnum = 0 \<or> phdr = 0 then pret None
      else
        pbind (plift (phdr_loop peek phdr (phdr_count phnum) (phdr AND NOT 0xfff) 0)) (\<lambda>(base, dyn_addr).
        if dyn_addr = 0 then pret None
        else
          (let dynamic = dyn_addr + base in
           pbind (poption (dynamic_loop peek dynamic 0 0)) (\<lambda>q. pbind (plift q) (\<lambda>(dynamic_length, r_debug).
           pbind (plift (read_local peek r_debug 20)) (\<lambda>debug_entry.
           pbind (poption (link_maps peek (field32 debug_entry 4) [])) (\<lambda>q. pbind (plift q) (\<lambda>ms.
           pbind (write_linkmap x peek ms) (\<lambda>linkmap.
           case linkmap of
             None \<Rightarrow> pret None
           | Some linkmap_rva \<Rightarrow>
               pbind (pfile UntypedMDRVA) (\<lambda>r0.
               pbind (pfile (UntypedMDRVA_Allocate x r0 (24 + dynamic_length))) (\<lambda>(ok, r).
               if \<not> ok then pthen (flush_object x r (replicate 24 0)) (pret None)
               else
                 pbind (plift (copy_memory d (dv_crash_thread d) dynamic dynamic_length)) (\<lambda>data1.
                 pbind (pfile (Copy x (rva_position r + 24) data1)) (\<lambda>_.
                 pthen (flush_object x r (le32 (field32 debug_entry 0) @ le32 linkmap_rva @ le32 (of_nat (length ms)) @
                          le32 (field32 debug_entry 8) @ le32 (field32 debug_entry 16) @ le32 dynamic))
                   (pret (Some (rva_size r, rva_position r))))))))))))))))"

section \<open>The dump\<close>

text \<open>\<open>MDRawHeader\<close>, 32 bytes, and an entry of the directory, 12 bytes.\<close>

definition header_bytes :: "32 word \<Rightarrow> MDRVA \<Rightarrow> byte list" where
  "header_bytes now dir = le32 0x504d444d @ le32 0xa793 @ le32 13 @ le32 dir @ le32 0 @ le32 now @ replicate 8 0"

definition directory_entry_bytes :: "32 word \<Rightarrow> location \<Rightarrow> byte list" where
  "directory_entry_bytes stream_type loc = le32 stream_type @ le32 (fst loc) @ le32 (snd loc)"

definition CopyIndex :: "sys_call ext \<Rightarrow> mdrva \<Rightarrow> nat \<Rightarrow> 32 word \<Rightarrow> location \<Rightarrow> unit dp" where
  "CopyIndex x dir i stream_type loc =
     pbind (pfile (Copy x (rva_position dir + of_nat i * 12) (directory_entry_bytes stream_type loc))) (\<lambda>_. pret ())"

text \<open>A stream without which there is no dump, and one whose entry is cleared (\<open>NullifyDirectoryEntry\<close>).\<close>

definition required_stream :: "sys_call ext \<Rightarrow> mdrva \<Rightarrow> nat \<Rightarrow> 32 word \<Rightarrow> location option dp \<Rightarrow> bool dp \<Rightarrow> bool dp" where
  "required_stream x dir i stream_type w rest =
     pbind w (\<lambda>loc. case loc of None \<Rightarrow> pret False | Some l \<Rightarrow> pthen (CopyIndex x dir i stream_type l) rest)"

definition optional_stream :: "sys_call ext \<Rightarrow> mdrva \<Rightarrow> nat \<Rightarrow> 32 word \<Rightarrow> location option dp \<Rightarrow> bool dp \<Rightarrow> bool dp" where
  "optional_stream x dir i stream_type w rest =
     pbind w (\<lambda>loc. case loc of
       None \<Rightarrow> pthen (CopyIndex x dir i 0 (0, 0)) rest
     | Some l \<Rightarrow> pthen (CopyIndex x dir i stream_type l) rest)"

text \<open>What else \<open>Dump\<close> needs: the kernel of \<open>ptrace\<close>, the answer of \<open>uname\<close>, the time, two members of the auxiliary
  vector, and uninitialised buffers.\<close>

record host_env =
  ho_ptrace :: "pt_call ext"
  ho_uts :: "block list option"
  ho_time :: "32 word"
  ho_phdr :: addr
  ho_phnum :: addr
  ho_line_buf :: block
  ho_path_buf :: block

definition proc_stream :: "sys_call ext \<Rightarrow> dump_env \<Rightarrow> host_env \<Rightarrow> string \<Rightarrow> location option dp" where
  "proc_stream x d o1 node = WriteProcFile x d (ho_path_buf o1) (dv_crash_thread d) (ascii node @ [0])"

definition dump_streams :: "sys_call ext \<Rightarrow> dump_env \<Rightarrow> module_env \<Rightarrow> host_env \<Rightarrow> mdrva \<Rightarrow> bool dp" where
  "dump_streams x d v o1 dir =
     required_stream x dir 0 3 (WriteThreadListStream x d)
    (required_stream x dir 1 4 (WriteMappings x v)
    (pbind (WriteAppMemory x d (dv_app_memory d)) (\<lambda>ok. if \<not> ok then pret False else
    (required_stream x dir 2 5 (WriteMemoryListStream x)
    (required_stream x dir 3 6 (WriteExceptionStream x d)
    (required_stream x dir 4 7 (WriteSystemInfoStream x d (ho_uts o1) (ho_line_buf o1))
    (optional_stream x dir 5 0x47670003 (WriteFile x d cpuinfo_name)
    (optional_stream x dir 6 0x47670004 (proc_stream x d o1 ''status'')
    (optional_stream x dir 7 0x47670005 (WriteFile x d ''/etc/lsb-release'')
    (optional_stream x dir 8 0x47670006 (proc_stream x d o1 ''cmdline'')
    (optional_stream x dir 9 0x47670007 (proc_stream x d o1 ''environ'')
    (optional_stream x dir 10 0x47670008 (proc_stream x d o1 ''auxv'')
    (optional_stream x dir 11 0x47670009 (proc_stream x d o1 ''maps'')
    (optional_stream x dir 12 0x4767000A (WriteDSODebugStream x d (ho_phdr o1) (ho_phnum o1))
    (pbind (ptrace_step (ThreadsResume (ho_ptrace o1))) (\<lambda>_. pret True))))))))))))))))"

text \<open>The header object is flushed at the end of its block, before the streams; the object of a directory that was
  not allocated is flushed, too.\<close>

definition Dump :: "sys_call ext \<Rightarrow> dump_env \<Rightarrow> module_env \<Rightarrow> host_env \<Rightarrow> bool dp" where
  "Dump x d v o1 =
     pbind (pfile UntypedMDRVA) (\<lambda>dir0.
     pbind (pfile UntypedMDRVA) (\<lambda>h0.
     pbind (pfile (UntypedMDRVA_Allocate x h0 32)) (\<lambda>(ok, header).
     if \<not> ok then pthen (flush_object x header (replicate 32 0)) (pthen (flush_object x dir0 (replicate 12 0)) (pret False))
     else
       pbind (pfile (UntypedMDRVA_Allocate x dir0 (13 * 12))) (\<lambda>(ok, dir).
       if \<not> ok then pthen (flush_object x header (replicate 32 0)) (pret False)
       else pthen (flush_object x header (header_bytes (ho_time o1) (rva_position dir))) (dump_streams x d v o1 dir)))))"

section \<open>The text that names the system\<close>

text \<open>The items that are not empty, joined with spaces, up to the first that does not fit into 511 bytes.\<close>

fun os_text :: "byte list list \<Rightarrow> byte list \<Rightarrow> byte list" where
  "os_text [] acc = acc"
| "os_text (s # ss) acc =
     (if s = [] then os_text ss acc
      else if 511 < length acc + (if acc = [] then 0 else 1) + length s then acc
      else os_text ss (if acc = [] then s else acc @ 32 # s))"

lemma os_items_text:
  assumes "list_all2 holds infos ss" and "holds buf acc" and "length buf = 512" and "length acc \<le> 511"
  shows "\<exists>b. os_items infos buf (511 - length acc) (acc = []) = Inr b \<and> holds b (os_text ss acc) \<and> length b = 512"
  using assms
proof (induction infos arbitrary: ss buf acc)
  case (Cons i infos)
  obtain s ss' where ss: "ss = s # ss'" "holds i s" "list_all2 holds infos ss'" using Cons.prems(1) by (cases ss) auto
  have n: "my_strlen i = Inr (length s)" using ss(2) by (rule strlen_holds)
  have sp: "holds [32, 0] [32 :: byte]" by (auto simp: holds_def)
  show ?case
  proof (cases "s = [] \<or> 511 < length acc + (if acc = [] then 0 else 1) + length s")
    case True
    then show ?thesis using Cons.IH [OF ss(3) Cons.prems(2-4)] Cons.prems(2-4) ss(1) n by auto
  next
    case False
    show ?thesis
    proof (cases "acc = []")
      case True
      obtain b where b: "my_strlcat buf i 512 = Inr (b, length s)" "length b = 512" "holds b (take 511 s)"
        using strlcat_holds [OF Cons.prems(2) ss(2), of 512] Cons.prems(3) True by auto
      have "holds b s" using b(3) False by simp
      then show ?thesis using Cons.IH [OF ss(3) _ b(2), of s] b(1) False True ss(1) n by simp
    next
      case acc: False
      then have fits: "\<not> 511 - length acc < Suc (length s)" using False by auto
      obtain b where b: "my_strlcat buf [32, 0] 512 = Inr (b, length acc + 1)" "length b = 512" "holds b (acc @ take (511 - length acc) [32])"
        using strlcat_holds [OF Cons.prems(2) sp, of 512] Cons.prems(3,4) by auto
      have b32: "holds b (acc @ [32])" using b(3) False acc by (simp add: take_Cons')
      obtain b' where b': "my_strlcat b i 512 = Inr (b', length acc + 1 + length s)" "length b' = 512"
        "holds b' ((acc @ [32]) @ take (510 - length acc) s)"
        using strlcat_holds [OF b32 ss(2), of 512] b(2) False acc by auto
      have "take (510 - length acc) s = s" using False acc by (intro take_all) auto
      then have "holds b' (acc @ 32 # s)" using b'(3) by simp
      then show ?thesis using Cons.IH [OF ss(3) _ b'(2), of "acc @ 32 # s"] b(1) b'(1) False acc ss(1) n fits by simp
    qed
  qed
qed simp

section \<open>What goes wrong\<close>

text \<open>A list of loaded objects that contains a cycle is never left: the members come from the memory of the crashed process.\<close>

lemma link_maps_cycle:
  assumes "read_local peek a 20 = Inr m" and "field32 m 12 = a" and "a \<noteq> 0"
  shows "link_maps peek a maps = None"
proof -
  have "p = peek \<longrightarrow> q \<noteq> a" if "link_maps p q ms = Some r" for p q ms r
  proof (rule link_maps.raw_induct [where P = "\<lambda>p q ms r. p = peek \<longrightarrow> q \<noteq> a", OF _ that])
    fix lm p q ms r
    assume "\<And>p q ms r. lm p q ms = Some r \<Longrightarrow> p = peek \<longrightarrow> q \<noteq> a"
      and "(if q = 0 then Some (Inr ms)
            else case read_local p q 20 of Inl e \<Rightarrow> Some (Inl e) | Inr m \<Rightarrow> lm p (field32 m 12) (ms @ [m])) = Some r"
    then show "p = peek \<longrightarrow> q \<noteq> a" using assms by (auto split: if_splits) blast
  qed
  then show ?thesis by (cases "link_maps peek a maps") auto
qed

text \<open>One program header more than the auxiliary vector names is read.\<close>

lemma phdr_count_one_more: "0 \<le> sint n \<Longrightarrow> phdr_count n = nat (sint n) + 1"
  by (simp add: phdr_count_def)

end
