(* ===== verification/Dump_Order.thy ===== *)
theory Dump_Order
  imports Dump_Writer
begin

text \<open>
  What the steps of a minidump keep: their calls are added behind those already made, so that what
  \<open>Dump\<close> writes first stays first, and only the computation of an identifier touches the mappings, so that the
  entries of the list of modules are as many as it announces.
\<close>

named_theorems keeps_intros \<open>computations that keep a relation between states\<close>

section \<open>Relations between states\<close>

definition wgrows :: "'a wr \<Rightarrow> bool" where
  "wgrows m \<longleftrightarrow> (\<forall>st a st'. m st = Inr (a, st') \<longrightarrow> prefix (snd st) (snd st') \<and> wr_file (fst st') = wr_file (fst st))"

definition pkeeps :: "(dump_state \<times> sys_call list \<Rightarrow> dump_state \<times> sys_call list \<Rightarrow> bool) \<Rightarrow> 'a dp \<Rightarrow> bool" where
  "pkeeps R m \<longleftrightarrow> (\<forall>st a st'. m st = Some (Inr (a, st')) \<longrightarrow> R st st')"

lemma wgrows_basic [keeps_intros]:
  "wgrows (wret a)" "wgrows wget" "(\<And>w. wr_file (g w) = wr_file w) \<Longrightarrow> wgrows (wmod g)" "wgrows (wcall x c)" "wgrows (wassert b)" "wgrows (wlift r)"
  by (auto simp: wgrows_def res_bind_Inr_iff split: if_splits)

lemma wgrows_bind [keeps_intros]: "wgrows m \<Longrightarrow> (\<And>a. wgrows (f a)) \<Longrightarrow> wgrows (wbind m f)"
  unfolding wgrows_def by (fastforce simp: res_bind_Inr_iff intro: prefix_order.trans)

lemma wgrows_file [keeps_intros]: "wgrows (Allocate x sz)" "wgrows (Copy x pos src)"
  unfolding Allocate_def Copy_def Let_def by (auto intro!: keeps_intros split: if_splits)

lemma wgrows_region [keeps_intros]:
  "wgrows UntypedMDRVA" "wgrows (UntypedMDRVA_Allocate x r sz)" "wgrows (UntypedMDRVA_Copy x r pos src)"
  "wgrows (CopyIndexAfterObject x r i src)" "wgrows (Flush x r n)"
  unfolding UntypedMDRVA_def UntypedMDRVA_Allocate_def UntypedMDRVA_Copy_def CopyIndexAfterObject_def Flush_def
  by (auto intro!: keeps_intros)

lemma wgrows_copy_utf8 [keeps_intros]: "wgrows (copy_utf8 x r str len i)"
proof (induction x r str len i rule: copy_utf8.induct)
  case (1 x r str len i)
  then show ?case by (subst copy_utf8.simps) (auto intro!: keeps_intros split: prod.splits)
qed

lemma wgrows_WriteString [keeps_intros]: "wgrows (WriteString x str n)"
  unfolding WriteString_def write_string_core_def by (auto intro!: keeps_intros split: prod.splits)

text \<open>
  A relation that holds between the state before and after every step: steps of the file writer that add
  calls, new memory regions, the context of the crash, and calls for mapped files.
\<close>

locale dump_relation =
  fixes R :: "dump_state \<times> sys_call list \<Rightarrow> dump_state \<times> sys_call list \<Rightarrow> bool"
  assumes R_refl: "R st st"
    and R_trans: "R st st' \<Longrightarrow> R st' st'' \<Longrightarrow> R st st''"
    and R_file: "prefix h h' \<Longrightarrow> wr_file w = wr_file (minidump_writer s) \<Longrightarrow> R (s, h) (s\<lparr>minidump_writer := w\<rparr>, h')"
    and R_blocks: "R (s, h) (s\<lparr>memory_blocks := b\<rparr>, h)"
    and R_context: "R (s, h) (s\<lparr>crashing_thread_context := c\<rparr>, h)"
    and R_address: "R (s, h) (s\<lparr>dump_crash_address := a\<rparr>, h)"
    and R_mm: "R (s, h) (s\<lparr>dump_mm_calls := q\<rparr>, h)"
begin

lemma R_call: "R (s, h) (s, h @ [c])"
  using R_file [of h "h @ [c]" "minidump_writer s" s] by simp

lemma basic:
  "pkeeps R (pret a)" "pkeeps R pget" "pkeeps R (pcall x c)" "pkeeps R (passert b)" "pkeeps R (pfail e)" "pkeeps R (plift r)"
  "pkeeps R (poption v)"
  using R_refl R_call by (auto simp: pkeeps_def poption_def res_bind_Inr_iff split: if_splits option.splits)

lemma bind: "pkeeps R m \<Longrightarrow> (\<And>a. pkeeps R (f a)) \<Longrightarrow> pkeeps R (pbind m f)"
  unfolding pkeeps_def by (fastforce simp: pbind_iff dest: R_trans)

lemma chain: "pkeeps R m \<Longrightarrow> pkeeps R n \<Longrightarrow> pkeeps R (pthen m n)"
  unfolding pthen_def by (rule bind)

lemma writer: "wgrows m \<Longrightarrow> pkeeps R (pfile m)"
  unfolding pkeeps_def wgrows_def pfile_def by (fastforce simp: res_bind_Inr_iff intro: R_file)

lemma blocks: "pkeeps R (pmod (\<lambda>s. s\<lparr>memory_blocks := g s\<rparr>))"
  by (auto simp: pkeeps_def R_blocks)

lemma crash: "pkeeps R (pmod (\<lambda>s. s\<lparr>crashing_thread_context := c\<rparr>))"
  "pkeeps R (pmod (\<lambda>s. s\<lparr>crashing_thread_context := c, dump_crash_address := a\<rparr>))"
  using R_trans [OF R_context R_address] by (auto simp: pkeeps_def R_context)

lemmas base_rules = basic bind chain writer blocks crash

lemma flush: "pkeeps R (flush_object x r bytes)"
  unfolding flush_object_def by (intro base_rules keeps_intros)

lemma thread_stack: "pkeeps R (FillThreadStack x d tid sp pc mx)"
  unfolding FillThreadStack_def Let_def by (auto intro!: base_rules keeps_intros split: option.splits prod.splits)

lemma ip: "pkeeps R (write_ip_memory x d tid ip)"
  unfolding write_ip_memory_def by (auto intro!: base_rules keeps_intros split: option.splits prod.splits)

lemma cpu_context: "pkeeps R (write_context x c)"
  unfolding write_context_def by (auto intro!: base_rules keeps_intros flush split: prod.splits)

lemma thread: "pkeeps R (write_thread x d extra i)"
  unfolding write_thread_def Let_def
  by (auto intro!: base_rules keeps_intros thread_stack ip cpu_context split: option.splits prod.splits)

lemma threads: "pkeeps R (write_threads x d extra r is)"
  by (induction "is") (auto simp del: pr_simps intro!: base_rules keeps_intros thread split: option.splits)

lemma thread_list: "pkeeps R (WriteThreadListStream x d)"
  unfolding WriteThreadListStream_def Let_def by (auto intro!: base_rules keeps_intros flush threads split: prod.splits)

lemma buffers: "pkeeps R (write_buffers x r pos bs)"
  by (induction bs arbitrary: pos) (auto simp del: pr_simps intro!: base_rules keeps_intros)

lemma file_stream: "pkeeps R (WriteFile x d name)"
  unfolding WriteFile_def Let_def by (auto intro!: base_rules keeps_intros buffers split: prod.splits)

lemma proc_file: "pkeeps R (WriteProcFile x d buf pid name)"
  unfolding WriteProcFile_def by (auto intro!: base_rules file_stream split: prod.splits)

lemma app_memory: "pkeeps R (WriteAppMemory x d rs)"
  by (induction rs) (auto simp del: pr_simps intro!: base_rules keeps_intros split: prod.splits)

lemma descs: "pkeeps R (copy_descs x r i ms)"
  by (induction ms arbitrary: i) (auto simp del: pr_simps intro!: base_rules keeps_intros)

lemma memory_list: "pkeeps R (WriteMemoryListStream x)"
  unfolding WriteMemoryListStream_def Let_def by (auto intro!: base_rules keeps_intros flush descs split: prod.splits)

lemma exception: "pkeeps R (WriteExceptionStream x d)"
  unfolding WriteExceptionStream_def by (auto intro!: base_rules keeps_intros flush split: prod.splits)

lemma cpus: "pkeeps R (count_cpus x d si)"
  unfolding count_cpus_def by (auto intro!: base_rules split: prod.splits)

lemma cpu_information: "pkeeps R (WriteCPUInformation x d junk si)"
  unfolding WriteCPUInformation_def Let_def by (intro base_rules cpus | simp | auto)+

lemma os_information: "pkeeps R (WriteOSInformation x uts si)"
  unfolding WriteOSInformation_def Let_def by (auto intro!: base_rules keeps_intros split: option.splits)

lemma system_info: "pkeeps R (WriteSystemInfoStream x d uts junk)"
  unfolding WriteSystemInfoStream_def
  by (auto intro!: base_rules keeps_intros flush cpu_information os_information split: prod.splits)

lemma link_maps: "pkeeps R (write_link_maps x peek r i ms)"
  by (induction ms arbitrary: i) (auto simp del: pr_simps intro!: base_rules keeps_intros split: option.splits)

lemma linkmap: "pkeeps R (write_linkmap x peek ms)"
  unfolding write_linkmap_def by (auto intro!: base_rules keeps_intros link_maps split: prod.splits)

lemma dso: "pkeeps R (WriteDSODebugStream x d phdr phnum)"
  unfolding WriteDSODebugStream_def Let_def
  by (auto intro!: base_rules keeps_intros flush linkmap split: option.splits prod.splits)

lemma cv: "pkeeps R (write_cv x i)"
  unfolding write_cv_def by (auto intro!: base_rules keeps_intros split: prod.splits)

lemma path: "pkeeps R (module_path_of v m)"
  by (auto simp: pkeeps_def module_path_of_def R_mm split: option.splits sum.splits prod.splits)

lemma raw_module_from: "pkeeps R (module_identifier v m member i ident) \<Longrightarrow> pkeeps R (FillRawModule x v m member i ident)"
  unfolding FillRawModule_def Let_def by (auto intro!: base_rules keeps_intros cv path split: option.splits)

lemma directory: "pkeeps R (CopyIndex x dir i ty loc)"
  unfolding CopyIndex_def by (auto intro!: base_rules keeps_intros)

end

text \<open>Relations that hold also when the mappings change and when the threads are resumed.\<close>

locale dump_relation_all = dump_relation +
  assumes R_maps: "R (s, h) (s\<lparr>dump_mappings := ms, dump_mm_calls := q\<rparr>, h)"
    and R_ptrace: "R (s, h) (s\<lparr>dump_ptrace := p, dump_pt_calls := q'\<rparr>, h)"
begin

lemma module_id: "pkeeps R (module_identifier v m member i ident)"
  by (auto simp: pkeeps_def module_identifier_def R_maps R_refl split: option.splits sum.splits prod.splits)

lemma raw_module: "pkeeps R (FillRawModule x v m member i ident)"
  by (rule raw_module_from [OF module_id])

lemma own_mappings: "pkeeps R (write_own_mappings x v r is j)"
  by (induction "is" arbitrary: j) (auto simp: Let_def simp del: pr_simps intro!: base_rules keeps_intros raw_module split: option.splits)

lemma given_mappings: "pkeeps R (write_given_mappings x v r ms j)"
  by (induction ms arbitrary: j) (auto simp del: pr_simps intro!: base_rules keeps_intros raw_module split: option.splits prod.splits)

lemma mappings: "pkeeps R (WriteMappings x v)"
  unfolding WriteMappings_def Let_def
  by (auto intro!: base_rules keeps_intros flush own_mappings given_mappings split: option.splits prod.splits)

lemma resume: "pkeeps R (ptrace_step m)"
  by (auto simp: pkeeps_def ptrace_step_def R_ptrace split: option.splits sum.splits prod.splits)

lemma required: "pkeeps R w \<Longrightarrow> pkeeps R rest \<Longrightarrow> pkeeps R (required_stream x dir i ty w rest)"
  unfolding required_stream_def by (auto intro!: base_rules directory split: option.splits)

lemma optional: "pkeeps R w \<Longrightarrow> pkeeps R rest \<Longrightarrow> pkeeps R (optional_stream x dir i ty w rest)"
  unfolding optional_stream_def by (auto intro!: base_rules directory split: option.splits)

lemma streams: "pkeeps R (dump_streams x d v o1 dir)"
  unfolding dump_streams_def proc_stream_def
  by (intro required optional thread_list mappings memory_list exception system_info file_stream proc_file dso)
    (auto intro!: base_rules app_memory required optional memory_list exception system_info file_stream proc_file dso resume)

end

interpretation calls: dump_relation_all "\<lambda>st st'. prefix (snd st) (snd st')"
  by unfold_locales (auto dest: prefix_order.trans)

interpretation own: dump_relation "\<lambda>st st'. \<exists>m'. dump_mappings (fst st') = (dump_mappings (fst st))[i := m']" for i
proof unfold_locales
  fix s :: "dump_state \<times> sys_call list"
  show "\<exists>m'. dump_mappings (fst s) = (dump_mappings (fst s))[i := m']" by (metis list_update_id)
qed (auto, (metis list_update_id)+)

section \<open>Every module that is announced is written\<close>

text \<open>Computing an identifier changes at most the mapping it is for.\<close>

lemma identifier_mapping:
  assumes "ElfFileIdentifierForMapping x content deleted root gate junk m member i ident ms h = Some (Inr (r, ms', h'))"
  shows "\<exists>m'. ms' = ms[i := m']"
proof -
  have "\<exists>m'. ms = ms[i := m']" by (metis list_update_id)
  then show ?thesis using assms
    by (auto simp: ElfFileIdentifierForMapping_def strip_deleted_def res_bind_Inr_iff Let_def
        split: if_splits sum.splits bool.splits option.splits prod.splits)
qed

lemma module_own: "pkeeps (\<lambda>st st'. \<exists>m'. dump_mappings (fst st') = (dump_mappings (fst st))[i := m']) (module_identifier v m member i ident)"
  unfolding pkeeps_def module_identifier_def
  by (auto split: option.splits sum.splits prod.splits dest!: identifier_mapping) (metis list_update_id)

lemma own_mappings_count:
  assumes "write_own_mappings x v r is j (s, h) = Some (Inr (Some j', s', h'))" and "distinct is"
  shows "j' = j + length (filter (\<lambda>i. output_mapping (mv_mapping_list v) (dump_mappings s ! i)) is)"
  using assms
proof (induction "is" arbitrary: j s h)
  case (Cons i "is")
  let ?out = "\<lambda>s i. output_mapping (mv_mapping_list v) (dump_mappings s ! i)"
  show ?case
  proof (cases "?out s i")
    case False
    then show ?thesis using Cons.prems by (auto simp: Let_def intro: Cons.IH)
  next
    case True
    then obtain b s1 h1 c s2 h2 where f: "FillRawModule x v (dump_mappings s ! i) True i None (s, h) = Some (Inr (Some b, s1, h1))"
      "pfile (CopyIndexAfterObject x r j b) (s1, h1) = Some (Inr (c, s2, h2))"
      "write_own_mappings x v r is (j + 1) (s2, h2) = Some (Inr (Some j', s', h'))"
      using Cons.prems(1) by (auto simp: Let_def pbind_iff split: option.splits)
    obtain m' where "dump_mappings s1 = (dump_mappings s)[i := m']"
      using own.raw_module_from [OF module_own [of i v "dump_mappings s ! i" True None], of x] f(1) by (fastforce simp: pkeeps_def)
    moreover have "dump_mappings s2 = dump_mappings s1" using f(2) by (auto simp: pfile_def res_bind_Inr_iff)
    ultimately have "dump_mappings s2 ! k = dump_mappings s ! k" if "k \<in> set is" for k
      using Cons.prems(2) that by (cases "k = i") simp_all
    then have "filter (?out s2) is = filter (?out s) is" by (intro filter_cong) simp_all
    then show ?thesis using Cons.IH [OF f(3)] Cons.prems(2) True by simp
  qed
qed simp

text \<open>C18: The list of modules has as many entries as it announces: when the mappings of the process have been written, the next
  index and the mappings of the caller that follow make exactly the number that was computed before, for which the list was
  allocated, although computing an identifier may change the name of a mapping in between.\<close>

theorem module_list_complete:
  assumes "write_own_mappings x v r [0..<length (dump_mappings s)] 0 (s, h) = Some (Inr (Some j, s', h'))"
  shows "j + length (mv_mapping_list v) = num_output_mappings (mv_mapping_list v) (dump_mappings s)"
proof -
  have "map (\<lambda>i. ms ! i) [0..<length ms] = ms" for ms :: "MappingInfo list" by (rule map_nth)
  then have "length (filter P ms) = length (filter (\<lambda>i. P (ms ! i)) [0..<length ms])" for P and ms :: "MappingInfo list"
    by (metis (no_types, lifting) comp_apply filter_cong filter_map length_map)
  then show ?thesis using own_mappings_count [OF assms] by (simp add: num_output_mappings_def)
qed

text \<open>One mapping, of a device, whose file is never opened.\<close>

definition device_modules :: module_env where
  "device_modules = \<lparr>mv_kernel = (\<lambda>_ _. - 1), mv_content = (\<lambda>_. []), mv_root = [0], mv_gate = \<lparr>mbase = 0, mbytes = []\<rparr>,
     mv_deleted = (\<lambda>p. Inr (False, p)), mv_junk = [], mv_file_path = replicate 8 0, mv_file_name = replicate 8 0, mv_mapping_list = []\<rparr>"

definition device_dump :: dump_state where
  "device_dump = demo_dump\<lparr>minidump_writer := demo_writer\<lparr>wr_size := 4096\<rparr>, dump_mappings := [demo_device]\<rparr>"

lemma device_name:
  "module_identifier device_modules demo_device True 0 None (device_dump, h) = Some (Inr ([], device_dump, h))"
  "module_path_of device_modules demo_device (device_dump, h) = Some (Inr ([47, 100, 101, 118, 47, 97, 98, 0], device_dump, h))"
proof -
  have unsafe: "IsMappedFileOpenUnsafe demo_device = Inr True"
    by (simp add: IsMappedFileOpenUnsafe_def demo_device_def kMappedFileUnsafePrefix_def numeral_eq_Suc)
  show "module_identifier device_modules demo_device True 0 None (device_dump, h) = Some (Inr ([], device_dump, h))"
    by (simp add: module_identifier_def ElfFileIdentifierForMapping_def unsafe) (simp add: device_modules_def device_dump_def demo_dump_def)
  have "GetMappingEffectiveNameAndPath (\<lambda>_ _. - 1) [] [0] [] demo_device (replicate 8 0) 255 (replicate 8 0) 255 [] =
      Some (Inr (([47, 100, 101, 118, 47, 97, 98, 0], [97, 98, 0, 0, 0, 0, 0, 0]), []))"
    by code_simp
  then show "module_path_of device_modules demo_device (device_dump, h) = Some (Inr ([47, 100, 101, 118, 47, 97, 98, 0], device_dump, h))"
    by (simp add: module_path_of_def device_modules_def device_dump_def demo_dump_def)
qed

lemma device_string:
  "\<exists>l w' h'. WriteString demo_os [47, 100, 101, 118, 47, 97, 98, 0] 7 (minidump_writer device_dump, h) = Inr (Some l, w', h')"
proof -
  let ?cs = "[47, 100, 101, 118, 47, 97, 98] :: UTF32 list" and ?w = "minidump_writer device_dump"
  have u: "utf8 47 = [47]" "utf8 100 = [100]" "utf8 101 = [101]" "utf8 118 = [118]" "utf8 97 = [97]" "utf8 98 = [98]"
    by (simp_all add: utf8_def utf8_ref_def)
  have os: "good_os demo_os 4096" by (simp add: good_os_def demo_os_def)
  have n: "count_chars [47, 100, 101, 118, 47, 97, 98, 0 :: byte] 7 = Inr 7" by code_simp
  have n0: "count_chars [47, 100, 101, 118, 47, 97, 98, 0 :: byte] 2147483647 = Inr 7"
    using count_chars_ok [of "[47, 100, 101, 118, 47, 97, 98 :: byte]" 2147483647 "[]"] by simp
  have same: "WriteString demo_os [47, 100, 101, 118, 47, 97, 98, 0] 7 = WriteString demo_os [47, 100, 101, 118, 47, 97, 98, 0] 0"
    by (simp add: WriteString_def n n0)
  have "\<forall>ch \<in> set ?cs. bmp_char ch" by (simp add: bmp_char_def scalar_def)
  then show ?thesis
    using write_string_bmp [of demo_os 4096 ?w ?cs "[]" h, OF os] unfolding same
    by (auto simp: device_dump_def demo_writer_def u)
qed

lemma module_list_complete_witness:
  "\<exists>j s' h'. write_own_mappings demo_os device_modules \<lparr>rva_position = 32, rva_size = 112\<rparr> [0] 0 (device_dump, []) = Some (Inr (Some j, s', h')) \<and> j = 1"
proof -
  have ms: "dump_mappings device_dump = [demo_device]" by (simp add: device_dump_def)
  have out: "output_mapping (mv_mapping_list device_modules) demo_device"
    by (simp add: output_mapping_def ShouldIncludeMapping_def HaveMappingInfo_def device_modules_def demo_device_def)
  obtain l w' h' where str: "WriteString demo_os [47, 100, 101, 118, 47, 97, 98, 0] 7 (minidump_writer device_dump, []) = Inr (Some l, w', h')"
    using device_string by blast
  have len: "my_strlen [47, 100, 101, 118, 47, 97, 98, 0] = Inr 7" by (simp add: my_strlen_def)
  have fill: "FillRawModule demo_os device_modules demo_device True 0 None (device_dump, []) =
      Some (Inr (Some (module_bytes demo_device (snd l) (0, 0)), device_dump\<lparr>minidump_writer := w'\<rparr>, h'))"
    using str by (simp add: FillRawModule_def device_name write_cv_def ms len)
  have "wr_file w' = 5" using wgrows_WriteString str by (fastforce simp: wgrows_def device_dump_def demo_writer_def)
  then have cp: "\<exists>c s1 h1. pfile (CopyIndexAfterObject demo_os \<lparr>rva_position = 32, rva_size = 112\<rparr> 0 b) (device_dump\<lparr>minidump_writer := w'\<rparr>, h') =
      Some (Inr (c, s1, h1))" if "b \<noteq> []" for b
    using that by (auto simp: pfile_def CopyIndexAfterObject_def Copy_def)
  have "module_bytes m n c \<noteq> []" for m n c by (simp add: module_bytes_def)
  from cp [OF this] obtain c s1 h1 where "pfile (CopyIndexAfterObject demo_os \<lparr>rva_position = 32, rva_size = 112\<rparr> 0
      (module_bytes demo_device (snd l) (0, 0))) (device_dump\<lparr>minidump_writer := w'\<rparr>, h') = Some (Inr (c, s1, h1))" by blast
  then obtain j where
    run: "write_own_mappings demo_os device_modules \<lparr>rva_position = 32, rva_size = 112\<rparr> [0] 0 (device_dump, []) = Some (Inr (Some j, s1, h1))"
    using fill ms out by (simp add: Let_def)
  have "j = 1" using module_list_complete [of demo_os device_modules "\<lparr>rva_position = 32, rva_size = 112\<rparr>" device_dump "[]" j s1 h1] run ms out
    by (simp add: num_output_mappings_def device_modules_def)
  then show ?thesis using run by blast
qed

section \<open>The header comes first\<close>

lemma resumed:
  assumes "ThreadsResume px (p, q) = Some (Inr (r, p', q'))"
  shows "\<not> pt_suspended p'"
  using assms by (auto simp: ThreadsResume_def pbind_iff split: if_splits)

lemma required_true:
  "required_stream x dir i ty w rest st = Some (Inr (True, st')) \<Longrightarrow> \<exists>st1. rest st1 = Some (Inr (True, st'))"
  by (auto simp: required_stream_def pbind_iff split: option.splits) (metis surj_pair)+

lemma optional_true:
  "optional_stream x dir i ty w rest st = Some (Inr (True, st')) \<Longrightarrow> \<exists>st1. rest st1 = Some (Inr (True, st'))"
  by (auto simp: optional_stream_def pbind_iff split: option.splits) (metis surj_pair)+

lemma app_memory_true:
  "pbind m (\<lambda>ok. if \<not> ok then pret False else rest) st = Some (Inr (True, st')) \<Longrightarrow> \<exists>st1. rest st1 = Some (Inr (True, st'))"
  by (auto simp: pbind_iff split: if_splits)

lemma streams_resumed:
  assumes "dump_streams x d v o1 dir st = Some (Inr (True, st'))"
  shows "\<not> pt_suspended (dump_ptrace (fst st'))"
proof -
  obtain st1 where "pbind (ptrace_step (ThreadsResume (ho_ptrace o1))) (\<lambda>_. pret True) st1 = Some (Inr (True, st'))"
    using assms unfolding dump_streams_def by (blast dest!: required_true optional_true app_memory_true)
  then show ?thesis
    by (auto simp: pbind_iff ptrace_step_def dest!: resumed split: option.splits sum.splits prod.splits)
qed

text \<open>A writer that was just given its file.\<close>

definition fresh_writer :: "file_writer \<Rightarrow> bool" where
  "fresh_writer w \<longleftrightarrow> wr_file w \<noteq> - 1 \<and> wr_position w = 0 \<and> wr_size w = 0 \<and> \<not> g_need_ftruncate_workaround w"

lemma aligned_sizes: "align8 32 = 32" "align8 156 = 160"
  by (simp_all add: align8_def)

lemma header_region:
  assumes "good_os x page" and "192 \<le> page" and "page < 2147483648" and "fresh_writer w"
  shows "Allocate x 32 (w, h) = Inr (0, w\<lparr>wr_size := of_int page, wr_position := 32\<rparr>, h @ [GetPageSize, FTruncate (wr_file w) page])"
    "Allocate x 156 (w\<lparr>wr_size := of_int page, wr_position := 32\<rparr>, h') = Inr (32, w\<lparr>wr_size := of_int page, wr_position := 192\<rparr>, h')"
    "bs \<noteq> [] \<Longrightarrow> length bs \<le> 32 \<Longrightarrow> Copy x 0 bs (w\<lparr>wr_size := of_int page, wr_position := q\<rparr>, h') =
       Inr (True, w\<lparr>wr_size := of_int page, wr_position := q\<rparr>, h' @ write_at (wr_file w) 0 bs)"
proof -
  have u: "uint (of_int page :: 32 word) = page" using assms(2,3) by (intro uint_of_int32) simp_all
  have s: "sint (of_int page :: 32 word) = page" using sint_small [of "of_int page"] u assms(3) by simp
  have c: "(32 :: 32 word) < of_int page" "\<not> (of_int page :: 32 word) < 192"
    using assms(2) by (simp_all add: word_less_def u)
  have os: "x h GetPageSize = page" "x h (FTruncate f n) = 0" for h f n using assms(1) by (simp_all add: good_os_def)
  show "Allocate x 32 (w, h) = Inr (0, w\<lparr>wr_size := of_int page, wr_position := 32\<rparr>, h @ [GetPageSize, FTruncate (wr_file w) page])"
    using assms(4) c(1) by (simp add: fresh_writer_def Allocate_def Let_def aligned_sizes os s)
  show "Allocate x 156 (w\<lparr>wr_size := of_int page, wr_position := 32\<rparr>, h') = Inr (32, w\<lparr>wr_size := of_int page, wr_position := 192\<rparr>, h')"
    using assms(4) c(2) by (simp add: fresh_writer_def Allocate_def Let_def aligned_sizes)
  show "bs \<noteq> [] \<Longrightarrow> length bs \<le> 32 \<Longrightarrow> Copy x 0 bs (w\<lparr>wr_size := of_int page, wr_position := q\<rparr>, h') =
       Inr (True, w\<lparr>wr_size := of_int page, wr_position := q\<rparr>, h' @ write_at (wr_file w) 0 bs)"
    using Copy_ok [OF assms(1), of "w\<lparr>wr_size := of_int page, wr_position := q\<rparr>" bs 0 h'] assms(2-4) u
    by (simp add: fresh_writer_def)
qed

lemma dump_starts:
  assumes "good_os x page" and "192 \<le> page" and "page < 2147483648" and "fresh_writer (minidump_writer s)"
  shows "Dump x d v o1 (s, h) = dump_streams x d v o1 \<lparr>rva_position = 32, rva_size = 156\<rparr>
    (s\<lparr>minidump_writer := (minidump_writer s)\<lparr>wr_size := of_int page, wr_position := 192\<rparr>\<rparr>,
     h @ [GetPageSize, FTruncate (wr_file (minidump_writer s)) page] @ write_at (wr_file (minidump_writer s)) 0 (header_bytes (ho_time o1) 32))"
proof -
  note r = header_region [OF assms]
  have len: "header_bytes (ho_time o1) 32 \<noteq> []" "length (header_bytes (ho_time o1) 32) \<le> 32"
    by (simp_all add: header_bytes_def le32_def)
  show ?thesis using assms(4)
    by (simp add: Dump_def pfile_def UntypedMDRVA_def UntypedMDRVA_Allocate_def fresh_writer_def r(1,2) flush_object_def r(3) [OF len])
qed

text \<open>C11: The header is in the file before any stream: on a system that does not fail, a dump into a writer that was just
  given its file makes room for the header and the directory, writes the 32 bytes of the header with the position of the
  directory at the start, and only adds calls behind this write, whether a stream fails later or not; when the dump succeeds
  the threads are resumed.\<close>

theorem dump_header_first:
  assumes "good_os x page" and "192 \<le> page" and "page < 2147483648" and "fresh_writer (minidump_writer s)"
    and "Dump x d v o1 (s, h) = Some (Inr (ok, s', h'))"
  shows "(\<exists>h2. h' = h @ [GetPageSize, FTruncate (wr_file (minidump_writer s)) page] @
      write_at (wr_file (minidump_writer s)) 0 (header_bytes (ho_time o1) 32) @ h2) \<and>
    (ok \<longrightarrow> \<not> pt_suspended (dump_ptrace s'))"
proof -
  note run = assms(5) [unfolded dump_starts [OF assms(1-4)]]
  have "prefix (h @ [GetPageSize, FTruncate (wr_file (minidump_writer s)) page] @
      write_at (wr_file (minidump_writer s)) 0 (header_bytes (ho_time o1) 32)) h'"
    using calls.streams run by (fastforce simp: pkeeps_def)
  moreover have "ok \<longrightarrow> \<not> pt_suspended (dump_ptrace s')" using streams_resumed run by fastforce
  ultimately show ?thesis by (auto simp: prefix_def)
qed

text \<open>A process with one thread, no mappings and no readable file.\<close>

definition closed_os :: "sys_call ext" where
  "closed_os h c = (case c of SysOpen _ \<Rightarrow> - 1 | _ \<Rightarrow> demo_os h c)"

definition demo_process :: dump_env where
  "demo_process = demo_env\<lparr>dv_crash_thread := 0, dv_thread_info := (\<lambda>_. Some \<lparr>tgid = 7, ppid = 1, stack_pointer = 0x2000, uregs = replicate 18 9\<rparr>)\<rparr>"

definition demo_modules :: module_env where
  "demo_modules = \<lparr>mv_kernel = (\<lambda>_ _. - 1), mv_content = (\<lambda>_. []), mv_root = [0], mv_gate = \<lparr>mbase = 0, mbytes = []\<rparr>,
     mv_deleted = (\<lambda>p. Inr (False, p)), mv_junk = [], mv_file_path = [], mv_file_name = [], mv_mapping_list = []\<rparr>"

definition demo_host :: host_env where
  "demo_host = \<lparr>ho_ptrace = (\<lambda>_ _. 0), ho_uts = None, ho_time = 0, ho_phdr = 0, ho_phnum = 0, ho_line_buf = replicate 512 0,
     ho_path_buf = replicate 255 0\<rparr>"

definition fresh_dump :: dump_state where
  "fresh_dump = demo_dump\<lparr>minidump_writer := demo_writer\<lparr>wr_position := 0, wr_size := 0\<rparr>,
     dump_ptrace := \<lparr>pt_pid = 7, pt_threads = [7], pt_suspended = True\<rparr>\<rparr>"

lemma context_length: "length (iregs c) = 16 \<Longrightarrow> length (context_bytes c) = 368"
proof -
  have "length (concat (map le32 ws)) = 4 * length ws" for ws by (induction ws) (simp_all add: le32_def)
  then show "length (iregs c) = 16 \<Longrightarrow> length (context_bytes c) = 368" by (simp add: context_bytes_def le32_def)
qed

text \<open>The state at position \<open>q\<close> of a file of one page.\<close>

definition at_position :: "32 word \<Rightarrow> dump_state \<Rightarrow> bool" where
  "at_position q s \<longleftrightarrow> minidump_writer s = demo_writer\<lparr>wr_position := q, wr_size := 4096\<rparr> \<and> dump_mappings s = [] \<and> memory_blocks s = []"

lemma at_positionD: "at_position q s \<Longrightarrow> minidump_writer s = \<lparr>wr_file = 5, close_when_destroyed = False, wr_position = q, wr_size = 4096,
     g_need_ftruncate_workaround = False, g_checked_need_ftruncate_workaround = True\<rparr>"
  "at_position q s \<Longrightarrow> dump_mappings s = []" "at_position q s \<Longrightarrow> memory_blocks s = []"
  by (simp_all add: at_position_def demo_writer_def)

lemmas demo_run = pfile_def UntypedMDRVA_def UntypedMDRVA_Allocate_def Let_def Allocate_def flush_object_def Copy_def
  CopyIndexAfterObject_def closed_os_def demo_os_def le32_def demo_process_def demo_env_def at_position_def demo_writer_def

lemma demo_sizes: "align8 52 = 56" "align8 368 = 368" "align8 4 = 8" "align8 168 = 168" "align8 56 = 56"
  by (simp_all add: align8_def)

lemma demo_threads:
  assumes "at_position 192 s"
  shows "\<exists>s' h'. WriteThreadListStream closed_os demo_process (s, h) = Some (Inr (Some (52, 192), s', h')) \<and> at_position 616 s'"
proof -
  have c: "length (context_bytes (ti_FillCPUContext i zero_context)) = 368" for i by (simp add: context_length ti_FillCPUContext_def)
  then have c0: "context_bytes (ti_FillCPUContext i zero_context) \<noteq> []" for i by (metis length_0_conv zero_neq_numeral)
  show ?thesis using at_positionD [OF assms]
    by (simp add: WriteThreadListStream_def demo_run demo_sizes write_thread_def FillThreadStack_def GetStackInfo_def FindMapping_def
       write_context_def c c0 thread_bytes_def desc_bytes_def)
qed

lemma demo_lists:
  "at_position 616 s \<Longrightarrow> \<exists>s' h'. WriteMappings closed_os demo_modules (s, h) = Some (Inr (Some (4, 616), s', h')) \<and> at_position 624 s'"
  "at_position 624 s \<Longrightarrow> \<exists>s' h'. WriteMemoryListStream closed_os (s, h) = Some (Inr (Some (4, 624), s', h')) \<and> at_position 632 s'"
  by (auto dest!: at_positionD simp: WriteMappings_def WriteMemoryListStream_def demo_modules_def num_output_mappings_def demo_run demo_sizes)

lemma demo_system:
  "at_position 632 s \<Longrightarrow> \<exists>s' h'. WriteExceptionStream closed_os demo_process (s, h) = Some (Inr (Some (168, 632), s', h')) \<and> at_position 800 s'"
  "at_position 800 s \<Longrightarrow> \<exists>s' h'. WriteSystemInfoStream closed_os demo_process None b (s, h) = Some (Inr (Some (56, 800), s', h')) \<and> at_position 856 s'"
  by (auto dest!: at_positionD simp: WriteExceptionStream_def exception_bytes_def WriteSystemInfoStream_def WriteCPUInformation_def
      count_cpus_def WriteOSInformation_def system_info_bytes_def demo_run demo_sizes le16_def)

lemma demo_files:
  "WriteFile closed_os demo_process n (s, h) = Some (Inr (None, s, h @ [SysOpen n]))"
  "proc_stream closed_os demo_process demo_host n (s, h) = Some (Inr (None, s, h))"
  "WriteDSODebugStream closed_os demo_process 0 0 (s, h) = Some (Inr (None, s, h))"
  by (simp_all add: WriteFile_def closed_os_def proc_stream_def WriteProcFile_def BuildProcPath_def demo_process_def demo_env_def
      demo_host_def WriteDSODebugStream_def)

lemma demo_entry:
  assumes "at_position q s" and "i < 13" and "\<And>h. \<exists>s' h'. rest (s, h) = Some (Inr (True, s', h'))"
  shows "\<exists>s' h'. pthen (CopyIndex closed_os \<lparr>rva_position = 32, rva_size = 156\<rparr> i ty loc) rest (s, h) = Some (Inr (True, s', h'))"
proof -
  have "i \<in> {0, 1, 2, 3, 4, 5, 6, 7, 8, 9, 10, 11, 12}" using assms(2) unfolding insert_iff empty_iff by presburger
  then have "\<exists>h'. CopyIndex closed_os \<lparr>rva_position = 32, rva_size = 156\<rparr> i ty loc (s, h) = Some (Inr ((), s, h'))"
    using at_positionD(1) [OF assms(1)]
    by (elim insertE) (simp_all add: CopyIndex_def directory_entry_bytes_def demo_run)
  then show ?thesis using assms(3) by auto
qed

lemma demo_required:
  assumes "\<And>h. \<exists>s' h'. w (s, h) = Some (Inr (Some loc, s', h')) \<and> at_position q s'" and "i < 13"
    and "\<And>s' h. at_position q s' \<Longrightarrow> \<exists>s'' h'. rest (s', h) = Some (Inr (True, s'', h'))"
  shows "\<exists>s'' h'. required_stream closed_os \<lparr>rva_position = 32, rva_size = 156\<rparr> i ty w rest (s, h) = Some (Inr (True, s'', h'))"
proof -
  obtain s' h' where w: "w (s, h) = Some (Inr (Some loc, s', h'))" "at_position q s'" using assms(1) by blast
  then show ?thesis using demo_entry [OF w(2) assms(2), of rest ty loc h'] assms(3) [OF w(2)] by (simp add: required_stream_def)
qed

lemma demo_optional:
  assumes "at_position q s" and "\<And>h. \<exists>h'. w (s, h) = Some (Inr (None, s, h'))" and "i < 13"
    and "\<And>h. \<exists>s'' h'. rest (s, h) = Some (Inr (True, s'', h'))"
  shows "\<exists>s'' h'. optional_stream closed_os \<lparr>rva_position = 32, rva_size = 156\<rparr> i ty w rest (s, h) = Some (Inr (True, s'', h'))"
proof -
  obtain h' where "w (s, h) = Some (Inr (None, s, h'))" using assms(2) by blast
  then show ?thesis using demo_entry [where rest = rest, OF assms(1,3) assms(4), of 0 "(0, 0)" h'] by (simp add: optional_stream_def)
qed

lemma demo_resume: "\<exists>s' h'. pbind (ptrace_step (ThreadsResume px)) (\<lambda>_. pret True) (s, h) = Some (Inr (True, s', h'))"
proof -
  let ?p = "dump_ptrace s" and ?q = "dump_pt_calls s"
  have "\<exists>b q'. resume_all px g ts (p, q) = Some (Inr (b, p, q'))" for g ts p q
    by (induction ts arbitrary: g q) (auto simp: ResumeThread_def)
  then obtain b q' where "resume_all px True (pt_threads ?p) (?p, ?q) = Some (Inr (b, ?p, q'))" by blast
  then show ?thesis by (cases "pt_suspended ?p") (simp_all add: ptrace_step_def ThreadsResume_def)
qed

lemma demo_streams:
  assumes "at_position 192 s"
  shows "\<exists>s' h'. dump_streams closed_os demo_process demo_modules demo_host \<lparr>rva_position = 32, rva_size = 156\<rparr> (s, h) = Some (Inr (True, s', h'))"
proof -
  have e: "ho_uts demo_host = None" "ho_phdr demo_host = 0" "ho_phnum demo_host = 0" "dv_app_memory demo_process = []"
    by (simp_all add: demo_host_def demo_process_def demo_env_def)
  show ?thesis
    unfolding dump_streams_def e
    apply (rule demo_required [where q = 616 and loc = "(52, 192)"])
      apply (rule demo_threads [OF assms])
     apply simp
    apply (rule demo_required [where q = 624 and loc = "(4, 616)"])
      apply (erule demo_lists(1))
     apply simp
    apply (simp only: WriteAppMemory.simps)
    apply (subst pbind_simps(3), rule pr_simps(1))
    apply (simp only: not_True_eq_False if_False)
    apply (rule demo_required [where q = 632 and loc = "(4, 624)"])
      apply (erule demo_lists(2))
     apply simp
    apply (rule demo_required [where q = 800 and loc = "(168, 632)"])
      apply (erule demo_system(1))
     apply simp
    apply (rule demo_required [where q = 856 and loc = "(56, 800)"])
      apply (erule demo_system(2))
     apply simp
    apply (rule demo_optional, assumption, simp add: demo_files, simp)+
    apply (rule demo_resume)
    done
qed

lemma dump_header_first_witness:
  "\<exists>s' h2. Dump closed_os demo_process demo_modules demo_host (fresh_dump, []) =
      Some (Inr (True, s', [GetPageSize, FTruncate 5 4096] @ write_at 5 0 (header_bytes 0 32) @ h2)) \<and> \<not> pt_suspended (dump_ptrace s')"
proof -
  have os: "good_os closed_os 4096" by (simp add: good_os_def closed_os_def demo_os_def)
  have w: "fresh_writer (minidump_writer fresh_dump)" by (simp add: fresh_writer_def fresh_dump_def demo_writer_def)
  have p: "192 \<le> (4096 :: int)" "(4096 :: int) < 2147483648" by simp_all
  have "at_position 192 (fresh_dump\<lparr>minidump_writer := (minidump_writer fresh_dump)\<lparr>wr_size := of_int 4096, wr_position := 192\<rparr>\<rparr>)"
    by (simp add: at_position_def fresh_dump_def demo_dump_def demo_writer_def)
  then obtain s' h' where run: "Dump closed_os demo_process demo_modules demo_host (fresh_dump, []) = Some (Inr (True, s', h'))"
    using demo_streams dump_starts [OF os p w] by metis
  moreover have "wr_file (minidump_writer fresh_dump) = 5" "ho_time demo_host = 0"
    by (simp_all add: fresh_dump_def demo_writer_def demo_host_def)
  ultimately show ?thesis using dump_header_first [OF os p w run] by auto
qed

end
