(* ===== verification/Spec2Isabelle.thy ===== *)
theory Spec2Isabelle
  imports Message_Looper Niubi_Player Audio_Output Video_Output Egl Av_Filter Gl_Render Minidump_File_Writer Md5 Page_Allocator
    Guid_Creator Exception_Handler Dump_Order
begin

text \<open>
  \<^bold>\<open>The native code of the live player.\<close> The Android application \<open>libraLive\<close> plays a media stream
  with native code under \<open>src/libraLive/src/main/cpp\<close> (written \<open>cpp\<close> below), and links the crash
  reporter \<open>breakpad\<close> from source. This library models that code and proves what makes it correct; where
  the code fails a property, the failure is proved instead.

  \<^bold>\<open>The parts and how they interact.\<close> \<open>NiubiPlayer\<close> opens the source, creates one channel per audio
  and video stream and runs the demultiplexer, which pushes packets into the channels' queues. A channel
  has a decode thread from its packet queue to its frame queue, and a consumer of frames: the OpenSL ES
  callback for audio, the render thread for video, which synchronises with the audio clock. Pictures go
  to the native window, or to OpenGL ES through the EGL wrapper, as \<open>NativeImage\<close>s. A message loop with
  its own thread and the filter graphs serve these. The crash reporter writes minidumps with its own
  string functions, Unicode conversions and digest.

  \<^bold>\<open>Theories.\<close>
  \<^item> \<open>Prelude\<close>: faults (the undefined behaviour the sources can run into) and results, C integer
    arithmetic with its range, byte blocks, pools of live objects, computations that make external calls
    and record them, the interfaces \<open>step_invariant\<close> (an invariant of a step relation) and \<open>fifo\<close>.
  \<^item> \<open>Message_Queue\<close> (\<open>common/message_queue.h\<close>): the queue operations, and the monitor (mutex,
    condition variable, wake-ups) as a step relation. First-in first-out; no lost wake-up with one
    consumer; a second consumer is stranded by \<open>backWork\<close>.
  \<^item> \<open>Message_Looper\<close> (\<open>looper/Looper.cpp\<close>): the linked list of messages with its nodes in a heap. The
    pointer code refines an abstract list and frees exactly what it should; first-in first-out; \<open>quit\<close>
    returns after the messages before it, however other threads post, unless one of them flushes.
  \<^item> \<open>Native_Image\<close> (\<open>util/ImageDef.h\<close>): planes, line sizes, allocation, copy and dump over a heap of
    byte blocks, in the range of \<open>int\<close>. The layout is in bounds, and every pixel is copied.
  \<^item> \<open>Av_Channel\<close> (\<open>player/BaseChannel.*\<close>): what a channel owns. \<open>Audio_Channel\<close>, \<open>Video_Channel\<close>
    (\<open>player/AudioChannel.cpp\<close>, \<open>player/VideoChannel.cpp\<close>): each thread as a program counter with one step
    per statement that touches shared state; in no interleaving does a decode step fault, except with the
    null frame of a failed allocation, which the code does not test, and stopping releases everything,
    up to the frames a late video frame loses.
  \<^item> \<open>Niubi_Player\<close> (\<open>player/NiubiPlayer.cpp\<close>, \<open>platform/JavaCallHelper.cpp\<close>): preparation with its error
    codes, and the demultiplexer beside the decode threads, which pop a packet, hold it and release it
    in steps of their own: packets are accounted for, the queues are bounded.
  \<^item> \<open>Video_Output\<close> (\<open>app_liveplayer.cpp\<close>, \<open>player/render/NativeRender.cpp\<close>), \<open>Egl\<close> (\<open>egl/\<close>),
    \<open>Gl_Render\<close> (\<open>util/GLUtils.cpp\<close>, \<open>player/render/VideoGLRender.cpp\<close>), \<open>Av_Filter\<close>
    (\<open>player/filter/\<close>): the outputs and filters as sequences of external calls with explicit memory.
  \<^item> \<open>Audio_Output\<close> (\<open>player/AudioChannel.cpp\<close>, the OpenSL ES part): creating the engine, mixer, player and
    buffer queue and releasing them, with every call allowed to fail.

  The crash reporter, \<open>bp\<close> standing for \<open>breakpad/src\<close>, \<open>lin\<close> for \<open>bp/client/linux\<close>:
  \<^item> \<open>Libc_Support\<close>, \<open>Convert_UTF\<close>, \<open>String_Conversion\<close>, \<open>Md5\<close>, \<open>Minidump_File_Writer\<close>
    (\<open>bp/common\<close>, \<open>bp/client/minidump_file_writer*\<close>): bounds, round trips and refinements of the building
    blocks.
  \<^item> \<open>Page_Allocator\<close> (\<open>bp/common/memory_allocator.h\<close>), \<open>Line_Reader\<close>
    (\<open>lin/minidump_writer/line_reader.h\<close>, \<open>proc_cpuinfo_reader.h\<close>), \<open>Directory_Reader\<close>
    (\<open>directory_reader.h\<close>), \<open>Cpu_Set\<close> (\<open>cpu_set.h\<close>): memory and readers that need no heap. The interfaces
    of the readers, as locales, carry the loops that read maps, status files and directories.
  \<^item> \<open>Memory_Range\<close> (\<open>bp/common/memory_range.h\<close>, \<open>linux/memory_mapped_file.cc\<close>, \<open>safe_readlink.cc\<close>),
    \<open>Elf_Utils\<close> (\<open>linux/elfutils*\<close>), \<open>File_Id\<close> (\<open>linux/file_id.cc\<close>): mapped files, their sections, notes
    and identifiers in a 32-bit address space.
  \<^item> \<open>Sys_Calls\<close> (\<open>linux/eintr_wrapper.h\<close>): computations that may never return because a call is
    interrupted for ever. \<open>Guid_Creator\<close> (\<open>linux/guid_creator.cc\<close>).
  \<^item> \<open>Ptrace_Dumper\<close> (\<open>linux_ptrace_dumper.cc\<close>, \<open>thread_info.cc\<close>), \<open>Process_Maps\<close>, \<open>Linux_Mappings\<close>,
    \<open>Load_Bias\<close>, \<open>Module_Names\<close> (\<open>linux_dumper.cc\<close>): the crashed process as the dumper sees it: threads
    and their registers, mappings read and merged from the text of the kernel, their adjustment, the names
    of modules, stacks and the removal of private data from them.
  \<^item> \<open>Signal_Handlers\<close>, \<open>Exception_Handler\<close> (\<open>lin/handler/exception_handler.cc\<close>,
    \<open>crash_generation_client.cc\<close>), \<open>Minidump_Descriptor\<close> (\<open>minidump_descriptor.cc\<close>): installing and
    restoring handlers, the walk over the handler objects, the cloned process and its pipe. The walk is
    proved for any method that leaves the globals alone, and \<open>HandleSignal\<close> is proved to be one.

  \<^item> \<open>Dump_Threads\<close>, \<open>Dump_Streams\<close>, \<open>Cpu_Information\<close>, \<open>Dump_Writer\<close>
    (\<open>lin/minidump_writer/minidump_writer.cc\<close>): the minidump with its thirteen streams, built from the dumper, the
    readers and the file writer above. Which part of a stack is kept, that files arrive unchanged, what the
    fields of \<open>/proc/cpuinfo\<close> become. \<open>Dump_Order\<close>: what every step keeps, as a locale over relations between
    states that is interpreted for the calls and for the mappings: the header comes first, and the list of modules
    has as many entries as it announces.

  \<^bold>\<open>How the code is represented.\<close> State is a record that each operation returns updated. A point
  where C++ is undefined is a value of type \<open>fault\<close>, so a theorem that gives \<open>Inr\<close> also says that the
  operation is memory safe on that path. Threads are step relations with one step per statement that
  touches shared state. Code outside the repository (FFmpeg, OpenSL ES, EGL, OpenGL ES, JNI, the kernel) is
  a function from the calls made so far to the answer; the theorems hold for all such functions, except for
  the laws they name. Integers are words where the width matters, \<open>int\<close> with a range check where signed
  overflow would be undefined, and \<open>nat\<close> for sizes that cannot wrap. The target is 32-bit ARM under
  Android (\<open>armeabi-v7a\<close>), the only one the build names, so \<open>char\<close> is unsigned and pointers have 32 bits.

  \<^bold>\<open>Termination.\<close> Loops over data have measures. Loops that the code itself does not bound (retrying
  interrupted calls, reading until the end of a file or directory, walking ELF notes) are partial functions
  with value \<open>None\<close> when they do not end, and the theorems about them state that the value is \<open>Some\<close>; only the
  note loop of \<open>File_Id\<close>, the range loop of \<open>Cpu_Set\<close> and the list of loaded objects of \<open>Dump_Writer\<close> have inputs for which \<open>None\<close> is proved. No fuel is used.

  \<^bold>\<open>Not modelled.\<close> JNI registration and logging (\<open>app_main.cpp\<close>, \<open>native-lib.cpp\<close>, \<open>common/Logger.h\<close>),
  which only forward; the reduced dumps of \<open>lin/microdump_writer\<close>, which the application does not ask for, and \<open>Init\<close>
  and the overloads of \<open>WriteMinidump\<close>, which combine modelled parts with local objects; shader texts and floating-point matrices (\<open>glm\<close>); the vendored headers of FFmpeg and librtmp; the rest of
  breakpad, which is not linked into the application: the processor, the symbol tools, and the clients
  of other systems. The Kotlin and Java sources are in other languages.
\<close>

end
